(* ===== verification/Prelude.thy ===== *)
theory Prelude
  imports Main "HOL-Library.Word"
begin

text \<open>
  Shared vocabulary and automation of the development: C pointers as options, doubly linked
  lists threaded through two pointer fields (the shape used by the buddy free lists, the slab
  page lists, the run queue and the timer and interrupt task lists), and bit lemmas.

  A C pointer into an array of descriptors is the index of its target, \<open>None\<close> being the null
  pointer.  \<open>dll nxt prv p h xs\<close> says that following \<open>nxt\<close> from the head pointer \<open>h\<close> visits
  exactly the nodes \<open>xs\<close>, that every \<open>prv\<close> field points to the node before (to \<open>p\<close> for the
  first one) and that the last \<open>nxt\<close> is null.
\<close>

named_theorems kernel_defs \<open>definitions of the model that proofs unfold by default\<close>

section \<open>Lists and options\<close>

lemma distinct_last_notin_butlast: "distinct xs \<Longrightarrow> xs \<noteq> [] \<Longrightarrow> last xs \<notin> set (butlast xs)"
  by (induction xs) (auto dest: in_set_butlastD)

lemma set_remove1_distinct [simp]: "distinct xs \<Longrightarrow> set (remove1 x xs) = set xs - {x}"
  by (simp add: set_remove1_eq)

lemma remove1_middle: "x \<notin> set ys \<Longrightarrow> remove1 x (ys @ x # zs) = ys @ zs"
  by (induction ys) auto

section \<open>Doubly linked lists\<close>

type_synonym 'a ptr = "'a option"

primrec dll :: "('a \<Rightarrow> 'a ptr) \<Rightarrow> ('a \<Rightarrow> 'a ptr) \<Rightarrow> 'a ptr \<Rightarrow> 'a ptr \<Rightarrow> 'a list \<Rightarrow> bool" where
  "dll nxt prv p h [] = (h = None)"
| "dll nxt prv p h (x # xs) = (h = Some x \<and> prv x = p \<and> dll nxt prv (Some x) (nxt x) xs)"

text \<open>A segment of such a list, ending at the pointer \<open>h'\<close> with \<open>p'\<close> the node before it.\<close>

primrec dseg :: "('a \<Rightarrow> 'a ptr) \<Rightarrow> ('a \<Rightarrow> 'a ptr) \<Rightarrow> 'a ptr \<Rightarrow> 'a ptr \<Rightarrow> 'a list \<Rightarrow> 'a ptr \<Rightarrow> 'a ptr \<Rightarrow> bool"
where
  "dseg nxt prv p h [] p' h' = (h = h' \<and> p = p')"
| "dseg nxt prv p h (x # xs) p' h' =
     (h = Some x \<and> prv x = p \<and> dseg nxt prv (Some x) (nxt x) xs p' h')"

lemma dll_None [simp]: "dll nxt prv p None xs \<longleftrightarrow> xs = []"
  by (cases xs) auto

lemma dll_Some: "dll nxt prv p (Some a) xs \<longleftrightarrow>
    (\<exists>ys. xs = a # ys \<and> prv a = p \<and> dll nxt prv (Some a) (nxt a) ys)"
  by (cases xs) auto

lemma dll_append: "dll nxt prv p h (xs @ ys) \<longleftrightarrow>
    (\<exists>p' h'. dseg nxt prv p h xs p' h' \<and> dll nxt prv p' h' ys)"
  by (induction xs arbitrary: p h) auto

lemma dseg_last: "dseg nxt prv p h xs p' h' \<Longrightarrow> p' = (if xs = [] then p else Some (last xs))"
  by (induction xs arbitrary: p h) (auto split: if_splits)

lemma dll_unique: "dll nxt prv p h xs \<Longrightarrow> dll nxt prv q h ys \<Longrightarrow> xs = ys"
  by (induction xs arbitrary: p q h ys) (auto simp: dll_Some)

text \<open>Nodes outside a list may change freely: the frame rule of the representation.\<close>

lemma dll_cong:
  assumes "\<And>x. x \<in> set xs \<Longrightarrow> nxt x = nxt' x" and "\<And>x. x \<in> set xs \<Longrightarrow> prv x = prv' x"
  shows "dll nxt prv p h xs = dll nxt' prv' p h xs"
  using assms by (induction xs arbitrary: p h) auto

lemma dseg_cong:
  assumes "\<And>x. x \<in> set xs \<Longrightarrow> nxt x = nxt' x" and "\<And>x. x \<in> set xs \<Longrightarrow> prv x = prv' x"
  shows "dseg nxt prv p h xs p' h' = dseg nxt' prv' p h xs p' h'"
  using assms by (induction xs arbitrary: p h) auto

lemma dll_suffix: "dll nxt prv p h (xs @ a # ys) \<Longrightarrow>
    dll nxt prv (if xs = [] then p else Some (last xs)) (Some a) (a # ys)"
  by (auto simp: dll_append dest: dseg_last split: if_splits)

lemma dll_not_in_tail: "dll nxt prv p h (a # ys) \<Longrightarrow> a \<notin> set ys"
proof
  assume d: "dll nxt prv p h (a # ys)" and "a \<in> set ys"
  then obtain us vs where ys: "ys = us @ a # vs" by (auto dest: split_list)
  from d have "dll nxt prv p (Some a) (a # ys)" by simp
  moreover from dll_suffix[of nxt prv p h "a # us" a vs] d ys
  obtain q where "dll nxt prv q (Some a) (a # vs)" by auto
  ultimately have "a # ys = a # vs" by (rule dll_unique)
  with ys show False by simp
qed

lemma dll_distinct: "dll nxt prv p h xs \<Longrightarrow> distinct xs"
proof (induction xs arbitrary: p h)
  case (Cons a ys)
  from dll_not_in_tail[OF Cons.prems] Cons show ?case by auto
qed simp

lemma dll_head: "dll nxt prv p h xs \<Longrightarrow> h = (if xs = [] then None else Some (hd xs))"
  by (cases xs) auto

lemma dll_hd_prev: "dll nxt prv p (Some a) xs \<Longrightarrow> prv a = p"
  by (auto simp: dll_Some)

text \<open>Where a node sits: its fields point at its neighbours.\<close>

lemma dll_nth_fields:
  assumes "dll nxt prv p h (xs @ a # ys)"
  shows "prv a = (if xs = [] then p else Some (last xs))"
    and "nxt a = (if ys = [] then None else Some (hd ys))"
  using dll_suffix[OF assms] by (auto dest: dll_head)

text \<open>Insertion at the head.\<close>

lemma dll_push:
  assumes "dll nxt prv p h xs" and "a \<notin> set xs"
    and "nxt' a = h" "prv' a = q"
    and "\<And>x. x \<in> set xs \<Longrightarrow> nxt' x = nxt x"
    and "\<And>x. x \<in> set xs \<Longrightarrow> prv' x = (if h = Some x then Some a else prv x)"
  shows "dll nxt' prv' q (Some a) (a # xs)"
proof (cases xs)
  case Nil
  with assms show ?thesis by simp
next
  case (Cons b ys)
  from assms(1) Cons have b: "h = Some b" "dll nxt prv (Some b) (nxt b) ys" "b \<notin> set ys"
    using dll_not_in_tail[of nxt prv p h b ys] by auto
  have "dll nxt' prv' (Some b) (nxt b) ys = dll nxt prv (Some b) (nxt b) ys"
    using assms(5,6) b Cons by (intro dll_cong) auto
  with b assms Cons show ?thesis by auto
qed

text \<open>Unlinking the head, and a node further down.\<close>

lemma dll_pop:
  assumes "dll nxt prv p (Some a) (a # xs)"
    and "\<And>x. x \<in> set xs \<Longrightarrow> nxt' x = nxt x"
    and "\<And>x. x \<in> set xs \<Longrightarrow> prv' x = (if nxt a = Some x then q else prv x)"
  shows "dll nxt' prv' q (nxt a) xs"
proof (cases xs)
  case Nil
  with assms show ?thesis by simp
next
  case (Cons b ys)
  from assms(1) Cons have b: "nxt a = Some b" "dll nxt prv (Some b) (nxt b) ys" "b \<notin> set ys"
    using dll_not_in_tail[of nxt prv "Some a" "nxt a" b ys] by auto
  have "dll nxt' prv' (Some b) (nxt b) ys = dll nxt prv (Some b) (nxt b) ys"
    using assms(2,3) b Cons by (intro dll_cong) auto
  with b assms Cons show ?thesis by auto
qed

lemma dll_unlink_middle:
  assumes d: "dll nxt prv p h (us @ c # a # xs)"
    and n: "\<And>x. x \<in> set (us @ c # xs) \<Longrightarrow> nxt' x = (if x = c then nxt a else nxt x)"
    and pr: "\<And>x. x \<in> set (us @ c # xs) \<Longrightarrow> prv' x = (if nxt a = Some x then Some c else prv x)"
  shows "dll nxt' prv' p h (us @ c # xs)"
proof -
  have dist: "distinct (us @ c # a # xs)" using d by (rule dll_distinct)
  from d obtain p' h' where s: "dseg nxt prv p h us p' h'" and t: "dll nxt prv p' h' (c # a # xs)"
    by (auto simp: dll_append)
  have na: "nxt a = (if xs = [] then None else Some (hd xs))"
    using t dll_head by fastforce
  have "dseg nxt' prv' p h us p' h' = dseg nxt prv p h us p' h'"
    using dist na by (intro dseg_cong) (auto simp: n pr)
  moreover have "dll nxt' prv' (Some c) (nxt a) xs"
  proof (rule dll_pop)
    show "dll nxt prv (Some c) (Some a) (a # xs)" using t by simp
  qed (use dist in \<open>auto simp: n pr\<close>)
  moreover have "prv c = p'" "h' = Some c" using t by auto
  moreover have "nxt a \<noteq> Some c" using na dist by (cases xs) auto
  ultimately show ?thesis using s n[of c] pr[of c] by (auto simp: dll_append)
qed

section \<open>Flipping one bit\<close>

unbundle bit_operations_syntax

lemma xor_pow2_nat: "(i::nat) XOR 2 ^ k = (if bit i k then i - 2 ^ k else i + 2 ^ k)"
proof -
  have "int (i XOR 2 ^ k) = flip_bit k (int i)"
    by (simp add: flip_bit_eq_xor push_bit_eq_mult of_nat_xor_eq)
  also have "\<dots> = (if bit i k then int i - 2 ^ k else int i + 2 ^ k)"
    by (simp add: flip_bit_eq_if unset_bit_eq set_bit_eq bit_of_nat_iff_bit)
  finally have x: "int (i XOR 2 ^ k) = (if bit i k then int i - 2 ^ k else int i + 2 ^ k)" .
  moreover have "2 ^ k \<le> i" if "bit i k"
    using that bit_push_bit_iff by (metis bit_nat_iff div_less even_zero bit_iff_odd not_le)
  ultimately have "int (i XOR 2 ^ k) = int (if bit i k then i - 2 ^ k else i + 2 ^ k)"
    by (simp add: of_nat_diff)
  then show ?thesis by (simp only: of_nat_eq_iff)
qed

lemma bit_dvd_nat: "2 ^ k dvd (i::nat) \<Longrightarrow> bit i k \<longleftrightarrow> \<not> 2 ^ Suc k dvd i"
proof -
  assume "2 ^ k dvd i"
  then obtain m where "i = 2 ^ k * m" by blast
  then show ?thesis by (simp add: bit_iff_odd)
qed

text \<open>For an aligned block the exclusive or with its size is its buddy in the block twice as
  large.\<close>

lemma buddy_cases_nat:
  assumes "2 ^ k dvd (i::nat)"
  shows "(2 ^ Suc k dvd i \<and> i XOR 2 ^ k = i + 2 ^ k) \<or>
    (\<not> 2 ^ Suc k dvd i \<and> 2 ^ k \<le> i \<and> i XOR 2 ^ k = i - 2 ^ k \<and> 2 ^ Suc k dvd (i - 2 ^ k))"
proof (cases "2 ^ Suc k dvd i")
  case True
  then show ?thesis using bit_dvd_nat[OF assms] by (simp add: xor_pow2_nat)
next
  case False
  from assms obtain m where m: "i = 2 ^ k * m" by blast
  with False have "odd m" by auto
  then obtain l where "m = 2 * l + 1" by (auto elim: oddE)
  with m have "i = 2 ^ Suc k * l + 2 ^ k" by (simp add: algebra_simps)
  then show ?thesis using False bit_dvd_nat[OF assms] by (simp add: xor_pow2_nat)
qed

lemma buddy_dvd_nat: "2 ^ k dvd (i::nat) \<Longrightarrow> 2 ^ k dvd (i XOR 2 ^ k)"
  using buddy_cases_nat[of k i] by (metis dvd_add_triv_right_iff dvd_diff_nat dvd_refl)

lemma buddy_invol_nat: "((i::nat) XOR 2 ^ k) XOR 2 ^ k = i"
  by (simp add: xor.assoc)

end
