(* ===== verification/Kmem.thy ===== *)
theory Kmem
  imports Prelude
begin

text \<open>
  State of the kernel memory allocator (\<open>kernel/include/memory.h\<close> and the globals of
  \<open>kernel/src/memory.c\<close>): the page frame descriptors of the buddy system, the heads of its
  free lists, the slab page descriptors and the heads of the slab page lists.

  The two descriptor arrays are functions of the index and a \<open>buddy_t*\<close> or \<open>slab_t*\<close> into
  them is the index.  The field \<open>diag\<close> collects the error messages that the allocator prints on
  the UART outside its \<open>printflag\<close> logs, in order; the logs themselves are not modelled
  (\<open>printflag\<close> is 0 and no log statement writes allocator state).
\<close>

section \<open>Constants\<close>

definition FRAME_SIZE :: nat where "FRAME_SIZE = 4096"
definition TOTAL_FRAME :: nat where "TOTAL_FRAME = 0x3C000"
definition MAX_ORDER :: nat where "MAX_ORDER = 20"
definition BELONGED_FRAME :: int where "BELONGED_FRAME = -1"
definition ALLOCATED_FRAME :: int where "ALLOCATED_FRAME = -2"
definition RESERVED_FRAME :: int where "RESERVED_FRAME = -3"
definition UNINIT_FRAME :: int where "UNINIT_FRAME = -4"

lemmas frame_states [kernel_defs] =
  BELONGED_FRAME_def ALLOCATED_FRAME_def RESERVED_FRAME_def UNINIT_FRAME_def

lemma TOTAL_FRAME_pos [simp]: "0 < TOTAL_FRAME"
  by (simp add: TOTAL_FRAME_def)

section \<open>Descriptors and state\<close>

record slab_t =
  s_available :: int
  s_slab_type :: int
  s_slab_size :: int
  s_start_address :: "64 word"
  s_total_slabs :: int
  s_free_slabs :: int
  s_bitmap :: "nat \<Rightarrow> 8 word"
  s_next :: "nat ptr"
  s_prev :: "nat ptr"

record buddy_t =
  b_status :: int
  b_index :: nat
  b_next :: "nat ptr"
  b_prev :: "nat ptr"
  b_allocated_order :: int
  b_slab_ptr :: "nat ptr"
  b_is_slab_page :: bool

datatype kmsg =
    Allocate_fail        \<comment> \<open>\<open>[!] Buddy allocate fail !! size too large\<close>\<close>
  | Free_unallocated     \<comment> \<open>\<open>[!] Buddy free fail !! try to free an unallocated block\<close>\<close>
  | Corrupted_list       \<comment> \<open>\<open>[!] Corrupted list structure !!\<close>\<close>
  | Buddy_free_fail      \<comment> \<open>\<open>[!] Buddy free fail !!\<close>\<close>
  | Slab_free_fail       \<comment> \<open>\<open>[!] Slab free fail !!\<close>\<close>
  | Slab_unaligned       \<comment> \<open>\<open>[!] Unaligned slab address !!\<close>\<close>
  | Slab_out_of_range    \<comment> \<open>\<open>[!] Slab index out of range\<close>\<close>
  | Slab_unallocated     \<comment> \<open>\<open>[!] Freeing unallocated slab\<close>\<close>
  | Slab_allocate_fail   \<comment> \<open>\<open>[!] Slab allocate fail !!\<close>\<close>
  | Slab_null            \<comment> \<open>\<open>[!] Slab free failed !! try to free a NULL pointer\<close>\<close>
  | Slab_not_slab        \<comment> \<open>\<open>[!] Slab free failed !! try to free a not slab pointer\<close>\<close>
  | Unknown_ptr          \<comment> \<open>\<open>[!] Unknown ptr !!\<close>\<close>

record kmem =
  buddy_frame_array :: "nat \<Rightarrow> buddy_t"
  free_frame_lists :: "nat \<Rightarrow> nat ptr"
  slab_frame_array :: "nat \<Rightarrow> slab_t"
  slab_start_list :: "nat \<Rightarrow> nat ptr"
  diag :: "kmsg list"

text \<open>\<open>upd_frame i f\<close> assigns fields of \<open>buddy_frame_array[i]\<close>, \<open>upd_slab\<close> of
  \<open>slab_frame_array[i]\<close>.\<close>

definition upd_frame :: "nat \<Rightarrow> (buddy_t \<Rightarrow> buddy_t) \<Rightarrow> kmem \<Rightarrow> kmem" where
  "upd_frame i f s = s\<lparr>buddy_frame_array := (buddy_frame_array s)(i := f (buddy_frame_array s i))\<rparr>"

definition upd_slab :: "nat \<Rightarrow> (slab_t \<Rightarrow> slab_t) \<Rightarrow> kmem \<Rightarrow> kmem" where
  "upd_slab i f s = s\<lparr>slab_frame_array := (slab_frame_array s)(i := f (slab_frame_array s i))\<rparr>"

definition report :: "kmsg \<Rightarrow> kmem \<Rightarrow> kmem" where
  "report m s = s\<lparr>diag := diag s @ [m]\<rparr>"

lemma upd_frame_sel [simp]:
  "buddy_frame_array (upd_frame i f s) = (buddy_frame_array s)(i := f (buddy_frame_array s i))"
  "free_frame_lists (upd_frame i f s) = free_frame_lists s"
  "slab_frame_array (upd_frame i f s) = slab_frame_array s"
  "slab_start_list (upd_frame i f s) = slab_start_list s"
  "diag (upd_frame i f s) = diag s"
  by (simp_all add: upd_frame_def)

lemma upd_slab_sel [simp]:
  "slab_frame_array (upd_slab i g s) = (slab_frame_array s)(i := g (slab_frame_array s i))"
  "free_frame_lists (upd_slab i g s) = free_frame_lists s"
  "buddy_frame_array (upd_slab i g s) = buddy_frame_array s"
  "slab_start_list (upd_slab i g s) = slab_start_list s"
  "diag (upd_slab i g s) = diag s"
  by (simp_all add: upd_slab_def)

lemma report_sel [simp]:
  "buddy_frame_array (report m s) = buddy_frame_array s"
  "free_frame_lists (report m s) = free_frame_lists s"
  "slab_frame_array (report m s) = slab_frame_array s"
  "slab_start_list (report m s) = slab_start_list s"
  "diag (report m s) = diag s @ [m]"
  by (simp_all add: report_def)

abbreviation bst :: "kmem \<Rightarrow> nat \<Rightarrow> int" where
  "bst s i \<equiv> b_status (buddy_frame_array s i)"

abbreviation border :: "kmem \<Rightarrow> nat \<Rightarrow> int" where
  "border s i \<equiv> b_allocated_order (buddy_frame_array s i)"

abbreviation bnxt :: "kmem \<Rightarrow> nat \<Rightarrow> nat ptr" where
  "bnxt s \<equiv> \<lambda>i. b_next (buddy_frame_array s i)"

abbreviation bprv :: "kmem \<Rightarrow> nat \<Rightarrow> nat ptr" where
  "bprv s \<equiv> \<lambda>i. b_prev (buddy_frame_array s i)"

end
