(* ===== verification/Buddy.thy ===== *)
theory Buddy
  imports Kmem
begin

text \<open>
  The buddy system of \<open>kernel/src/memory.c\<close>: \<open>buddy_init\<close>, \<open>buddy_allocate\<close>, \<open>buddy_free\<close>,
  \<open>size2order\<close>, \<open>memory_reserve\<close>'s marking loop and \<open>print_order\<close>'s walk, each loop a
  recursive function.  Theory \<open>Buddy_Inv\<close> states the invariant and proves that the operations keep it.
\<close>

section \<open>Operations\<close>

subsection \<open>Request sizes\<close>

function order_loop :: "nat \<Rightarrow> nat \<Rightarrow> nat" where
  "order_loop adjusted order = (if 2 ^ order < adjusted then order_loop adjusted (Suc order) else order)"
  by pat_completeness auto
termination
  by (relation "measure (\<lambda>(a, k). a - k)")
     (auto intro!: diff_less_mono2 dest: le_less_trans[OF less_imp_le[OF less_exp]])

declare order_loop.simps [simp del]

text \<open>\<open>request_size\<close> is an \<open>unsigned int\<close>: adding \<open>FRAME_SIZE - 1\<close> may wrap around.\<close>

definition size2order :: "32 word \<Rightarrow> nat" where
  "size2order request_size =
     (if request_size = 0 then 0
      else order_loop (unat (request_size + of_nat FRAME_SIZE - 1) div FRAME_SIZE) 0)"

subsection \<open>Free list surgery\<close>

text \<open>Pushing a frame at the head of the free list of an order.\<close>

definition list_push :: "nat \<Rightarrow> nat \<Rightarrow> kmem \<Rightarrow> kmem" where
  "list_push k i s =
     (let s1 = upd_frame i (\<lambda>b. b\<lparr>b_next := free_frame_lists s k, b_prev := None\<rparr>) s;
          s2 = (case free_frame_lists s1 k of None \<Rightarrow> s1
                | Some h \<Rightarrow> upd_frame h (\<lambda>b. b\<lparr>b_prev := Some i\<rparr>) s1)
      in s2\<lparr>free_frame_lists := (free_frame_lists s2)(k := Some i)\<rparr>)"

text \<open>Taking the head \<open>i\<close> off the list of order \<open>k\<close>.\<close>

definition list_pop :: "nat \<Rightarrow> nat \<Rightarrow> kmem \<Rightarrow> kmem" where
  "list_pop k i s =
     (let s1 = s\<lparr>free_frame_lists := (free_frame_lists s)(k := b_next (buddy_frame_array s i))\<rparr>
      in case b_next (buddy_frame_array s1 i) of None \<Rightarrow> s1
         | Some n \<Rightarrow> upd_frame n (\<lambda>b. b\<lparr>b_prev := None\<rparr>) s1)"

text \<open>Removing a frame from wherever it stands in the list.\<close>

definition list_unlink :: "nat \<Rightarrow> nat \<Rightarrow> kmem \<Rightarrow> kmem" where
  "list_unlink k i s =
     (if free_frame_lists s k = Some i then list_pop k i s
      else case b_prev (buddy_frame_array s i) of
        Some p \<Rightarrow>
          (let s1 = upd_frame p (\<lambda>b. b\<lparr>b_next := b_next (buddy_frame_array s i)\<rparr>) s
           in case b_next (buddy_frame_array s1 i) of None \<Rightarrow> s1
              | Some n \<Rightarrow> upd_frame n (\<lambda>b. b\<lparr>b_prev := b_prev (buddy_frame_array s1 i)\<rparr>) s1)
      | None \<Rightarrow> report Corrupted_list s)"

subsection \<open>Initialisation\<close>

definition init_frame :: "nat \<Rightarrow> kmem \<Rightarrow> kmem" where
  "init_frame i s = upd_frame i
     (\<lambda>b. b\<lparr>b_index := i,
            b_status := (if b_status b \<noteq> RESERVED_FRAME then UNINIT_FRAME else b_status b),
            b_next := None, b_prev := None, b_allocated_order := -1,
            b_slab_ptr := None, b_is_slab_page := False\<rparr>) s"

definition set_belonged :: "nat \<Rightarrow> kmem \<Rightarrow> kmem" where
  "set_belonged i s = upd_frame i (\<lambda>b. b\<lparr>b_status := BELONGED_FRAME\<rparr>) s"

text \<open>One candidate block of \<open>2 ^ k\<close> frames at \<open>i\<close>: the three \<open>continue\<close> tests, then the claim.\<close>

definition init_block :: "nat \<Rightarrow> nat \<Rightarrow> kmem \<Rightarrow> kmem" where
  "init_block k i s =
     (if bst s i \<noteq> UNINIT_FRAME then s
      else if i + 2 ^ k > TOTAL_FRAME then s
      else if list_all (\<lambda>j. bst s (i + j) = UNINIT_FRAME) [0..<2 ^ k] then
        fold (\<lambda>j. set_belonged (i + j)) [1..<2 ^ k]
          (list_push k i (upd_frame i (\<lambda>b. b\<lparr>b_status := int k\<rparr>) s))
      else s)"

function init_scan :: "nat \<Rightarrow> nat \<Rightarrow> kmem \<Rightarrow> kmem" where
  "init_scan k i s = (if i < TOTAL_FRAME then init_scan k (i + 2 ^ k) (init_block k i s) else s)"
  by pat_completeness auto
termination
  by (relation "measure (\<lambda>(k, i, s). TOTAL_FRAME - i)") (auto intro!: diff_less_mono2)

declare init_scan.simps [simp del]

definition buddy_init :: "kmem \<Rightarrow> kmem" where
  "buddy_init s =
     (let s1 = s\<lparr>free_frame_lists := (\<lambda>i. if i \<le> MAX_ORDER then None else free_frame_lists s i)\<rparr>;
          s2 = fold init_frame [0..<TOTAL_FRAME] s1
      in fold (\<lambda>k. init_scan k 0) (rev [0..<Suc MAX_ORDER]) s2)"

subsection \<open>Allocation\<close>

text \<open>The \<open>while (current_order > order)\<close> loop: each round gives the upper half back.\<close>

primrec split_loop :: "nat \<Rightarrow> nat \<Rightarrow> nat \<Rightarrow> kmem \<Rightarrow> kmem" where
  "split_loop order block 0 s = s"
| "split_loop order block (Suc current) s =
     (if Suc current > order then
        (let buddy = block XOR 2 ^ current;
             s1 = (if buddy < block then report Corrupted_list s else s);
             s2 = upd_frame buddy (\<lambda>b. b\<lparr>b_status := int current\<rparr>) s1
         in split_loop order block current (list_push current buddy s2))
      else s)"

function alloc_scan :: "nat \<Rightarrow> nat \<Rightarrow> kmem \<Rightarrow> kmem \<times> nat option" where
  "alloc_scan order i s =
     (if i > MAX_ORDER then (report Allocate_fail s, None)
      else case free_frame_lists s i of
        None \<Rightarrow> alloc_scan order (Suc i) s
      | Some block \<Rightarrow>
          (let block_index = b_index (buddy_frame_array s block);
               s1 = split_loop order block_index i (list_pop i block s);
               s2 = upd_frame block_index
                      (\<lambda>b. b\<lparr>b_status := ALLOCATED_FRAME, b_next := None, b_prev := None,
                             b_allocated_order := int order\<rparr>) s1
           in (s2, Some block_index)))"
  by pat_completeness auto
termination
  by (relation "measure (\<lambda>(order, i, s). Suc MAX_ORDER - i)") auto

declare alloc_scan.simps [simp del]

definition buddy_allocate :: "nat \<Rightarrow> kmem \<Rightarrow> kmem \<times> nat option" where
  "buddy_allocate order s =
     (if order > MAX_ORDER then (report Allocate_fail s, None) else alloc_scan order order s)"

subsection \<open>Freeing\<close>

definition retire_frame :: "nat \<Rightarrow> kmem \<Rightarrow> kmem" where
  "retire_frame i s = upd_frame i
     (\<lambda>b. b\<lparr>b_status := BELONGED_FRAME, b_next := None, b_prev := None,
            b_allocated_order := -1\<rparr>) s"

text \<open>The coalescing loop; it returns the order and the head of the merged block.\<close>

function merge_loop :: "nat \<Rightarrow> nat \<Rightarrow> kmem \<Rightarrow> nat \<times> nat \<times> kmem" where
  "merge_loop order block s =
     (let buddy = block XOR 2 ^ order
      in if order < MAX_ORDER \<and> buddy < TOTAL_FRAME \<and> bst s buddy = int order then
           (let s1 = list_unlink order buddy s
            in if buddy < block then merge_loop (Suc order) buddy (retire_frame block s1)
               else merge_loop (Suc order) block (retire_frame buddy s1))
         else (order, block, s))"
  by pat_completeness auto
termination
  by (relation "measure (\<lambda>(order, block, s). MAX_ORDER - order)") auto

declare merge_loop.simps [simp del]

definition buddy_free :: "nat \<Rightarrow> kmem \<Rightarrow> kmem" where
  "buddy_free block_index s =
     (if bst s block_index \<noteq> ALLOCATED_FRAME then report Free_unallocated s
      else
        (let order = border s block_index;
             s1 = upd_frame block_index (\<lambda>b. b\<lparr>b_status := order\<rparr>) s;
             (order', block', s2) = merge_loop (nat order) block_index s1;
             s3 = upd_frame block' (\<lambda>b. b\<lparr>b_status := int order'\<rparr>) s2
         in list_push order' block' s3))"

subsection \<open>Counting a free list\<close>

partial_function (option) count_list :: "(nat \<Rightarrow> nat ptr) \<Rightarrow> nat ptr \<Rightarrow> nat \<Rightarrow> nat option" where
  "count_list nxt cur count =
     (case cur of None \<Rightarrow> Some count | Some c \<Rightarrow> count_list nxt (nxt c) (Suc count))"

text \<open>\<open>print_order\<close> returns the number of blocks; \<open>None\<close> would be a walk that never ends.\<close>

definition print_order :: "nat \<Rightarrow> kmem \<Rightarrow> nat option" where
  "print_order order s =
     (if order > MAX_ORDER then Some 0
      else count_list (bnxt s) (free_frame_lists s order) 0)"

end
