(* ===== verification/Memory.thy ===== *)
theory Memory
  imports Buddy
begin

text \<open>
  The rest of \<open>kernel/src/memory.c\<close>: the boot-time bump allocator, address arithmetic, the slab
  allocator on top of the buddy system and the interface \<open>kmalloc\<close> / \<open>kfree\<close> that the kernel
  calls.  Addresses are 64-bit words, sizes \<open>unsigned int\<close>; an address stored into an \<open>int\<close>
  index is truncated to 32 bits as the C does.  Interrupt masking around the calls is the
  business of the interrupt theory and leaves no trace here.
\<close>

section \<open>Boot-time bump allocator\<close>

record early_heap =
  htop_ptr :: "64 word"
  headers :: "(64 word \<times> 32 word) list"   \<comment> \<open>header stores, oldest first: address, size\<close>

definition s_allocator :: "32 word \<Rightarrow> early_heap \<Rightarrow> early_heap \<times> 64 word" where
  "s_allocator sz h =
     (let r = htop_ptr h + 0x10;
          sz' = 0x10 + sz - sz mod 0x10;
          h1 = h\<lparr>headers := headers h @ [(r - 0x8, sz')]\<rparr>
      in (h1\<lparr>htop_ptr := htop_ptr h1 + ucast sz'\<rparr>, r))"

section \<open>Addresses and frame numbers\<close>

definition BUDDY_MEMORY_BASE :: "64 word" where "BUDDY_MEMORY_BASE = 0xffff000000000000"

definition index2address :: "64 word \<Rightarrow> 64 word" where
  "index2address block_index = BUDDY_MEMORY_BASE + block_index * of_nat FRAME_SIZE"

definition address2index :: "64 word \<Rightarrow> 64 word" where
  "address2index address = (address - BUDDY_MEMORY_BASE) div of_nat FRAME_SIZE"

text \<open>Conversion of an \<open>unsigned long\<close> to \<open>int\<close>.\<close>

definition int_of_ulong :: "64 word \<Rightarrow> int" where
  "int_of_ulong w = sint (ucast w :: 32 word)"

definition reserve_frame :: "int \<Rightarrow> kmem \<Rightarrow> kmem" where
  "reserve_frame i s =
     (if 0 \<le> i \<and> i < int TOTAL_FRAME
      then upd_frame (nat i) (\<lambda>b. b\<lparr>b_status := RESERVED_FRAME\<rparr>) s else s)"

definition memory_reserve :: "64 word \<Rightarrow> 64 word \<Rightarrow> kmem \<Rightarrow> kmem" where
  "memory_reserve begin_address end_address s =
     fold reserve_frame
       [int_of_ulong (address2index begin_address) ..
        int_of_ulong (address2index (end_address + of_nat FRAME_SIZE - 1)) - 1] s"

section \<open>Slab allocator\<close>

definition SLAB_TYPE :: nat where "SLAB_TYPE = 10"

text \<open>The array has \<open>SLAB_TYPE\<close> elements and nine initialisers: C zeroes the tenth.\<close>

definition slab_sizes :: "nat list" where
  "slab_sizes = [8, 16, 32, 64, 128, 256, 512, 1024, 2048, 0]"

text \<open>The first size class that holds a request, as both \<open>size2chunk\<close> and \<open>slab_allocate\<close>
  search it.\<close>

definition slab_class :: "nat \<Rightarrow> nat option" where
  "slab_class sz = List.find (\<lambda>i. slab_sizes ! i \<ge> sz) [0..<SLAB_TYPE]"

definition size2chunk :: "nat \<Rightarrow> int" where
  "size2chunk request_size =
     (case slab_class request_size of Some i \<Rightarrow> int (slab_sizes ! i) | None \<Rightarrow> -1)"

definition reset_slab :: "slab_t \<Rightarrow> slab_t" where
  "reset_slab p = p\<lparr>s_available := 1, s_slab_type := -1, s_slab_size := -1, s_start_address := -1,
     s_total_slabs := -1, s_free_slabs := -1,
     s_bitmap := (\<lambda>j. if j < 64 then 0 else s_bitmap p j), s_next := None, s_prev := None\<rparr>"

definition slab_init :: "kmem \<Rightarrow> kmem" where
  "slab_init s =
     (let s1 = s\<lparr>slab_start_list := (\<lambda>i. if i < SLAB_TYPE then None else slab_start_list s i)\<rparr>
      in fold (\<lambda>i. upd_slab i reset_slab) [0..<TOTAL_FRAME] s1)"

text \<open>Bit \<open>i\<close> of the 64-byte map: byte \<open>i / 8\<close>, bit \<open>i % 8\<close>.\<close>

definition slot_used :: "slab_t \<Rightarrow> nat \<Rightarrow> bool" where
  "slot_used p i = (s_bitmap p (i div 8) AND push_bit (i mod 8) 1 \<noteq> 0)"

definition set_slot :: "nat \<Rightarrow> slab_t \<Rightarrow> slab_t" where
  "set_slot i p = p\<lparr>s_bitmap := (s_bitmap p)(i div 8 := s_bitmap p (i div 8) OR push_bit (i mod 8) 1)\<rparr>"

definition clear_slot :: "nat \<Rightarrow> slab_t \<Rightarrow> slab_t" where
  "clear_slot i p =
     p\<lparr>s_bitmap := (s_bitmap p)(i div 8 := s_bitmap p (i div 8) AND NOT (push_bit (i mod 8) 1))\<rparr>"

definition first_free :: "slab_t \<Rightarrow> nat option" where
  "first_free p = List.find (\<lambda>i. \<not> slot_used p i) [0..<nat (s_total_slabs p)]"

text \<open>The walk over the pages of a class: \<open>Some None\<close> when no page has a free slot, \<open>None\<close> when
  the walk does not end.\<close>

partial_function (option) find_slot :: "(nat \<Rightarrow> slab_t) \<Rightarrow> nat ptr \<Rightarrow> (nat \<times> nat) option option" where
  "find_slot a slab_page =
     (case slab_page of None \<Rightarrow> Some None
      | Some p \<Rightarrow>
          if s_free_slabs (a p) > 0 then
            (case first_free (a p) of Some i \<Rightarrow> Some (Some (p, i)) | None \<Rightarrow> find_slot a (s_next (a p)))
          else find_slot a (s_next (a p)))"

text \<open>Pushing a page at the head of its class list.\<close>

definition slab_push :: "nat \<Rightarrow> nat \<Rightarrow> kmem \<Rightarrow> kmem" where
  "slab_push t p s =
     (let s1 = upd_slab p (\<lambda>q. q\<lparr>s_prev := None, s_next := slab_start_list s t\<rparr>) s;
          s2 = (case slab_start_list s1 t of None \<Rightarrow> s1
                | Some h \<Rightarrow> upd_slab h (\<lambda>q. q\<lparr>s_prev := Some p\<rparr>) s1)
      in s2\<lparr>slab_start_list := (slab_start_list s2)(t := Some p)\<rparr>)"

text \<open>Turning a fresh frame into a slab page of a class whose first slot is taken.\<close>

definition new_slab_page :: "nat \<Rightarrow> nat \<Rightarrow> kmem \<Rightarrow> kmem \<times> 64 word" where
  "new_slab_page slab_type block_index s =
     (let slab_size = slab_sizes ! slab_type;
          address = index2address (of_nat block_index);
          p = slab_frame_array s block_index;
          s1 = (if s_available p \<noteq> 1 \<or> s_slab_size p \<noteq> -1 then report Corrupted_list s else s);
          s2 = upd_frame block_index
                 (\<lambda>b. b\<lparr>b_slab_ptr := Some block_index, b_is_slab_page := True\<rparr>) s1;
          s3 = upd_slab block_index
                 (\<lambda>p. p\<lparr>s_available := 0, s_slab_type := int slab_type, s_slab_size := int slab_size,
                        s_start_address := address, s_total_slabs := int (FRAME_SIZE div slab_size),
                        s_free_slabs := int (FRAME_SIZE div slab_size),
                        s_bitmap := (\<lambda>j. if j < 64 then 0 else s_bitmap p j)\<rparr>) s2;
          s4 = slab_push slab_type block_index s3;
          s5 = upd_slab block_index
                 (\<lambda>p. (set_slot 0 p)\<lparr>s_free_slabs := s_free_slabs p - 1\<rparr>) s4
      in (s5, s_start_address (slab_frame_array s5 block_index)))"

definition slab_allocate :: "nat \<Rightarrow> kmem \<Rightarrow> (kmem \<times> 64 word) option" where
  "slab_allocate sz s =
     (case slab_class sz of
        None \<Rightarrow> Some (s, -1)
      | Some slab_type \<Rightarrow>
          (case find_slot (slab_frame_array s) (slab_start_list s slab_type) of
             None \<Rightarrow> None
           | Some (Some (p, i)) \<Rightarrow>
               Some (upd_slab p (\<lambda>q. (set_slot i q)\<lparr>s_free_slabs := s_free_slabs q - 1\<rparr>) s,
                     s_start_address (slab_frame_array s p) + of_nat (i * slab_sizes ! slab_type))
           | Some None \<Rightarrow>
               (case buddy_allocate 0 s of
                  (s1, None) \<Rightarrow> Some (s1, -1)
                | (s1, Some block_index) \<Rightarrow> Some (new_slab_page slab_type block_index s1))))"

text \<open>Unlinking a page from its class list, when it is the head or has a predecessor.\<close>

definition slab_unlink :: "nat \<Rightarrow> nat \<Rightarrow> kmem \<Rightarrow> kmem" where
  "slab_unlink t p s =
     (let q = slab_frame_array s p
      in if slab_start_list s t = Some p then
           (let s1 = s\<lparr>slab_start_list := (slab_start_list s)(t := s_next q)\<rparr>
            in case s_next q of None \<Rightarrow> s1 | Some n \<Rightarrow> upd_slab n (\<lambda>x. x\<lparr>s_prev := None\<rparr>) s1)
         else case s_prev q of None \<Rightarrow> s
           | Some c \<Rightarrow>
               (let s1 = upd_slab c (\<lambda>x. x\<lparr>s_next := s_next q\<rparr>) s
                in case s_next (slab_frame_array s1 p) of None \<Rightarrow> s1
                   | Some n \<Rightarrow> upd_slab n (\<lambda>x. x\<lparr>s_prev := s_prev (slab_frame_array s1 p)\<rparr>) s1))"

text \<open>The start address of a page is the address of a frame, so \<open>block_index\<close> is its number.
  A page that is not the head of its list and has no predecessor is reported and kept.\<close>

definition slab_release :: "nat \<Rightarrow> kmem \<Rightarrow> kmem" where
  "slab_release p s =
     (let block_index = nat (int_of_ulong (address2index (s_start_address (slab_frame_array s p))));
          s1 = upd_frame block_index (\<lambda>b. b\<lparr>b_slab_ptr := None, b_is_slab_page := False\<rparr>) s;
          s2 = buddy_free block_index s1;
          t = nat (s_slab_type (slab_frame_array s2 p))
      in if slab_start_list s2 t \<noteq> Some p \<and> s_prev (slab_frame_array s2 p) = None
         then report Corrupted_list s2
         else upd_slab p reset_slab (slab_unlink t p s2))"

definition slab_free :: "nat ptr \<Rightarrow> 64 word \<Rightarrow> kmem \<Rightarrow> kmem" where
  "slab_free slab_page address s =
     (case slab_page of None \<Rightarrow> report Slab_free_fail s
      | Some p \<Rightarrow>
        (let q = slab_frame_array s p in
         if \<not> (address \<ge> s_start_address q \<and> address < s_start_address q + of_nat FRAME_SIZE)
         then report Slab_free_fail s
         else
           (let offset = address - s_start_address q;
                slab_size = of_int (s_slab_size q) :: 64 word
            in if offset mod slab_size \<noteq> 0 then report Slab_unaligned s
               else
                 (let index = int_of_ulong (offset div slab_size)
                  in if index \<ge> s_total_slabs q then report Slab_out_of_range s
                     else if \<not> slot_used q (nat index) then report Slab_unallocated s
                     else
                       (let s1 = upd_slab p (\<lambda>x. (clear_slot (nat index) x)
                                   \<lparr>s_free_slabs := s_free_slabs x + 1\<rparr>) s;
                            q1 = slab_frame_array s1 p
                        in if s_free_slabs q1 = s_total_slabs q1 then slab_release p s1 else s1)))))"

section \<open>The kernel's interface\<close>

text \<open>Pointers returned to callers are addresses, 0 for \<open>NULL\<close>.\<close>

definition malloc_b :: "32 word \<Rightarrow> kmem \<Rightarrow> kmem \<times> 64 word" where
  "malloc_b sz s =
     (case buddy_allocate (size2order sz) s of
        (s1, None) \<Rightarrow> (s1, 0)
      | (s1, Some block_index) \<Rightarrow> (s1, index2address (of_nat block_index)))"

definition malloc_s :: "32 word \<Rightarrow> kmem \<Rightarrow> (kmem \<times> 64 word) option" where
  "malloc_s sz s =
     (case slab_allocate (unat sz) s of None \<Rightarrow> None
      | Some (s1, addr) \<Rightarrow> if addr = -1 then Some (report Slab_allocate_fail s1, 0) else Some (s1, addr))"

text \<open>\<open>None\<close>: the C reads \<open>buddy_frame_array\<close> at a negative index.\<close>

definition free_b :: "64 word \<Rightarrow> kmem \<Rightarrow> kmem option" where
  "free_b ptr s =
     (if ptr = 0 then Some s
      else
        (let block_index = int_of_ulong (address2index ptr)
         in if block_index < 0 then None
            else if block_index < int TOTAL_FRAME \<and> bst s (nat block_index) = ALLOCATED_FRAME
            then Some (buddy_free (nat block_index) s)
            else Some (report Buddy_free_fail s)))"

definition free_s :: "64 word \<Rightarrow> kmem \<Rightarrow> kmem option" where
  "free_s ptr s =
     (if ptr = 0 then Some (report Slab_null s)
      else
        (let block_index = int_of_ulong (address2index ptr)
         in if block_index < 0 then None
            else if block_index < int TOTAL_FRAME \<and> b_is_slab_page (buddy_frame_array s (nat block_index))
            then (case b_slab_ptr (buddy_frame_array s (nat block_index)) of
                    None \<Rightarrow> Some (report Slab_not_slab s)
                  | Some p \<Rightarrow> Some (slab_free (Some p) ptr s))
            else Some (report Slab_not_slab s)))"

definition kmalloc :: "32 word \<Rightarrow> kmem \<Rightarrow> (kmem \<times> 64 word) option" where
  "kmalloc sz s =
     (if unat sz \<le> slab_sizes ! (SLAB_TYPE - 1) then malloc_s sz s else Some (malloc_b sz s))"

definition kfree :: "64 word \<Rightarrow> kmem \<Rightarrow> kmem option" where
  "kfree ptr s =
     (if ptr = 0 then Some s
      else
        (let block_index = int_of_ulong (address2index ptr)
         in if block_index < 0 then None
            else if block_index < int TOTAL_FRAME then
              (if b_is_slab_page (buddy_frame_array s (nat block_index)) then free_s ptr s else free_b ptr s)
            else Some (report Unknown_ptr s)))"

section \<open>Boot\<close>

text \<open>\<open>init_allocator\<close> after its four \<open>s_allocator\<close> calls, which never return a null pointer;
  \<open>ranges\<close> are the reservations in order (the device tree's, the page tables, the kernel image,
  the stack, the initial file system), whose bounds are linker symbols and boot parameters.\<close>

definition init_allocator :: "(64 word \<times> 64 word) list \<Rightarrow> kmem \<Rightarrow> kmem" where
  "init_allocator ranges s =
     (let s1 = fold (\<lambda>i. upd_frame i (\<lambda>b. b\<lparr>b_status := UNINIT_FRAME, b_index := i,
                                            b_next := None, b_prev := None\<rparr>)) [0..<TOTAL_FRAME] s;
          s2 = fold (\<lambda>(b, e). memory_reserve b e) ranges s1
      in slab_init (buddy_init s2))"

end
