(* ===== verification/Ilist.thy ===== *)
theory Ilist
  imports Prelude
begin

text \<open>
  The interface of a family of intrusive doubly linked lists, one list per key (an order of the
  buddy system, a size class of the slab allocator), stored in the pointer fields of a
  descriptor array with a table of heads.  The client (an allocator's invariant) only needs to
  know which set of nodes each list holds; the provider promises how \<open>push\<close> and \<open>unlink\<close>
  change the fields.
\<close>

locale ilist =
  fixes nxt :: "'s \<Rightarrow> nat \<Rightarrow> nat ptr" and prv :: "'s \<Rightarrow> nat \<Rightarrow> nat ptr"
    and heads :: "'s \<Rightarrow> nat \<Rightarrow> nat ptr"
    and push :: "nat \<Rightarrow> nat \<Rightarrow> 's \<Rightarrow> 's" and unlink :: "nat \<Rightarrow> nat \<Rightarrow> 's \<Rightarrow> 's"
  assumes push_heads: "heads (push k i s) = (heads s)(k := Some i)"
    and push_nxt: "heads s k \<noteq> Some i \<Longrightarrow> nxt (push k i s) x = (if x = i then heads s k else nxt s x)"
    and push_prv: "heads s k \<noteq> Some i \<Longrightarrow> prv (push k i s) x =
        (if x = i then None else if heads s k = Some x then Some i else prv s x)"
    and head_heads: "heads s k = Some i \<Longrightarrow> heads (unlink k i s) = (heads s)(k := nxt s i)"
    and head_nxt: "heads s k = Some i \<Longrightarrow> nxt (unlink k i s) x = nxt s x"
    and head_prv: "heads s k = Some i \<Longrightarrow> prv (unlink k i s) x =
        (if nxt s i = Some x then None else prv s x)"
    and mid_heads: "heads s k \<noteq> Some i \<Longrightarrow> prv s i = Some c \<Longrightarrow> heads (unlink k i s) = heads s"
    and mid_nxt: "heads s k \<noteq> Some i \<Longrightarrow> prv s i = Some c \<Longrightarrow> i \<noteq> c \<Longrightarrow>
        nxt (unlink k i s) x = (if x = c then nxt s i else nxt s x)"
    and mid_prv: "heads s k \<noteq> Some i \<Longrightarrow> prv s i = Some c \<Longrightarrow> i \<noteq> c \<Longrightarrow>
        prv (unlink k i s) x = (if nxt s i = Some x then Some c else prv s x)"
begin

text \<open>The lists with keys up to \<open>N\<close> hold the sets \<open>S\<close>.\<close>

definition rep :: "nat \<Rightarrow> 's \<Rightarrow> (nat \<Rightarrow> nat set) \<Rightarrow> bool" where
  "rep N s S \<longleftrightarrow> (\<forall>k \<le> N. \<exists>xs. dll (nxt s) (prv s) None (heads s k) xs \<and> set xs = S k)"

lemma repD:
  assumes "rep N s S" "k \<le> N"
  obtains xs where "dll (nxt s) (prv s) None (heads s k) xs" "set xs = S k"
  using assms unfolding rep_def by blast

lemma rep_empty:
  assumes "rep N s S" "k \<le> N"
  shows "heads s k = None \<longleftrightarrow> S k = {}"
proof -
  obtain xs where "dll (nxt s) (prv s) None (heads s k) xs" "set xs = S k"
    using assms by (rule repD)
  then show ?thesis by (cases xs) auto
qed

lemma rep_head:
  assumes "rep N s S" "k \<le> N" "heads s k = Some i"
  shows "i \<in> S k"
proof -
  obtain xs where "dll (nxt s) (prv s) None (heads s k) xs" "set xs = S k"
    using assms(1,2) by (rule repD)
  with assms(3) show ?thesis by (cases xs) auto
qed

text \<open>Lists do not notice changes to nodes outside them.\<close>

lemma rep_frame:
  assumes "rep N s S" and "\<And>k. k \<le> N \<Longrightarrow> S' k = S k"
    and "\<And>k x. k \<le> N \<Longrightarrow> x \<in> S k \<Longrightarrow> nxt s' x = nxt s x"
    and "\<And>k x. k \<le> N \<Longrightarrow> x \<in> S k \<Longrightarrow> prv s' x = prv s x"
    and "\<And>k. k \<le> N \<Longrightarrow> heads s' k = heads s k"
  shows "rep N s' S'"
  unfolding rep_def
proof (intro allI impI)
  fix k assume k: "k \<le> N"
  with assms(1) obtain xs where xs: "dll (nxt s) (prv s) None (heads s k) xs" "set xs = S k"
    by (rule repD)
  then have "dll (nxt s') (prv s') None (heads s k) xs"
    using assms(3,4)[OF k] by (subst dll_cong[where nxt' = "nxt s" and prv' = "prv s"]) auto
  with xs(2) assms(2,5)[OF k] show "\<exists>xs. dll (nxt s') (prv s') None (heads s' k) xs \<and> set xs = S' k"
    by auto
qed

lemma rep_push:
  assumes rep: "rep N s S" and disj: "\<And>k l. k \<noteq> l \<Longrightarrow> S k \<inter> S l = {}"
    and fresh: "\<And>l. i \<notin> S l" and k: "k \<le> N"
  shows "rep N (push k i s) (S(k := insert i (S k)))"
  unfolding rep_def
proof (intro allI impI)
  fix l assume l: "l \<le> N"
  obtain xs where xs: "dll (nxt s) (prv s) None (heads s k) xs" "set xs = S k"
    using rep k by (rule repD)
  have hd: "heads s k = Some x \<Longrightarrow> x \<in> S k" for x using rep_head[OF rep k] .
  with fresh have ne: "heads s k \<noteq> Some i" by auto
  note fields = push_nxt[OF ne] push_prv[OF ne] push_heads
  show "\<exists>ys. dll (nxt (push k i s)) (prv (push k i s)) None (heads (push k i s) l) ys \<and>
      set ys = (S(k := insert i (S k))) l"
  proof (cases "l = k")
    case True
    have "dll (nxt (push k i s)) (prv (push k i s)) None (Some i) (i # xs)"
    proof (rule dll_push[OF xs(1)])
      show "i \<notin> set xs" using xs fresh by simp
    qed (use xs fresh in \<open>auto simp: fields\<close>)
    with True xs show ?thesis by (intro exI[of _ "i # xs"]) (simp add: push_heads)
  next
    case False
    obtain ys where ys: "dll (nxt s) (prv s) None (heads s l) ys" "set ys = S l"
      using rep l by (rule repD)
    have "i \<notin> set ys" "\<And>x. x \<in> set ys \<Longrightarrow> heads s k \<noteq> Some x"
      using ys fresh hd disj[OF False] by auto
    then have "dll (nxt (push k i s)) (prv (push k i s)) None (heads s l) ys"
      using ys(1) by (subst dll_cong[where nxt' = "nxt s" and prv' = "prv s"]) (auto simp: fields)
    with False ys show ?thesis by (auto simp: push_heads)
  qed
qed

lemma rep_unlink_head:
  assumes rep: "rep N s S" and disj: "\<And>k l. k \<noteq> l \<Longrightarrow> S k \<inter> S l = {}"
    and h: "heads s k = Some i" and k: "k \<le> N"
  shows "rep N (unlink k i s) (S(k := S k - {i}))"
proof -
  note fields = head_nxt[OF h] head_prv[OF h] head_heads[OF h]
  obtain xs where "dll (nxt s) (prv s) None (heads s k) xs" "set xs = S k"
    using rep k by (rule repD)
  with h obtain ys where ys: "dll (nxt s) (prv s) None (Some i) (i # ys)" "S k = insert i (set ys)"
    by (auto simp: dll_Some)
  have iy: "i \<notin> set ys" using ys(1) by (rule dll_not_in_tail)
  have nx: "nxt s i = Some x \<Longrightarrow> x \<in> S k" for x
    using ys by (cases ys) auto
  show ?thesis unfolding rep_def
  proof (intro allI impI)
    fix l assume l: "l \<le> N"
    show "\<exists>zs. dll (nxt (unlink k i s)) (prv (unlink k i s)) None (heads (unlink k i s) l) zs \<and>
        set zs = (S(k := S k - {i})) l"
    proof (cases "l = k")
      case True
      have "dll (nxt (unlink k i s)) (prv (unlink k i s)) None (nxt s i) ys"
        by (rule dll_pop[OF ys(1)]) (auto simp: fields)
      with True ys iy show ?thesis by (auto simp: fields(3))
    next
      case False
      obtain zs where zs: "dll (nxt s) (prv s) None (heads s l) zs" "set zs = S l"
        using rep l by (rule repD)
      have "\<And>x. x \<in> set zs \<Longrightarrow> nxt s i \<noteq> Some x"
        using zs nx disj[OF False] by auto
      then have "dll (nxt (unlink k i s)) (prv (unlink k i s)) None (heads s l) zs"
        using zs(1) by (subst dll_cong[where nxt' = "nxt s" and prv' = "prv s"]) (auto simp: fields)
      with False zs show ?thesis by (auto simp: fields(3))
    qed
  qed
qed

text \<open>A member that is not the head has a predecessor.\<close>

lemma member_prev:
  assumes rep: "rep N s S" and i: "i \<in> S k" and k: "k \<le> N" and h: "heads s k \<noteq> Some i"
  obtains us c ys where "dll (nxt s) (prv s) None (heads s k) (us @ c # i # ys)"
    "S k = set (us @ c # i # ys)" "prv s i = Some c" "i \<noteq> c"
    "nxt s i = (if ys = [] then None else Some (List.hd ys))"
proof -
  obtain xs where xs: "dll (nxt s) (prv s) None (heads s k) xs" "set xs = S k"
    using rep k by (rule repD)
  from i xs(2) obtain ws ys where ws: "xs = ws @ i # ys" by (metis split_list)
  from h xs(1) ws have "ws \<noteq> []" by (cases ws) auto
  then obtain us c where us: "ws = us @ [c]" by (metis append_butlast_last_id)
  have d: "dll (nxt s) (prv s) None (heads s k) (us @ c # i # ys)" using xs(1) ws us by simp
  have "i \<noteq> c" using dll_distinct[OF d] by auto
  moreover have "prv s i = Some c" "nxt s i = (if ys = [] then None else Some (List.hd ys))"
    using dll_nth_fields[of "nxt s" "prv s" None "heads s k" "us @ [c]" i ys] d by simp_all
  ultimately show thesis using that[OF d] xs(2) ws us by simp
qed

lemma rep_unlink:
  assumes rep: "rep N s S" and disj: "\<And>k l. k \<noteq> l \<Longrightarrow> S k \<inter> S l = {}"
    and i: "i \<in> S k" and k: "k \<le> N"
  shows "rep N (unlink k i s) (S(k := S k - {i}))"
proof (cases "heads s k = Some i")
  case True
  with rep_unlink_head[OF rep disj _ k] show ?thesis by blast
next
  case h: False
  obtain us c ys where d: "dll (nxt s) (prv s) None (heads s k) (us @ c # i # ys)"
    and Sk: "S k = set (us @ c # i # ys)" and pc: "prv s i = Some c" and ic: "i \<noteq> c"
    and na: "nxt s i = (if ys = [] then None else Some (List.hd ys))"
    using member_prev[OF rep i k h] .
  have dist: "distinct (us @ c # i # ys)" using d by (rule dll_distinct)
  have nx: "x \<in> S k" if "nxt s i = Some x" for x
    using that na Sk by (cases ys) auto
  note fields = mid_nxt[OF h pc ic] mid_prv[OF h pc ic] mid_heads[OF h pc]
  show ?thesis unfolding rep_def
  proof (intro allI impI)
    fix l assume l: "l \<le> N"
    show "\<exists>zs. dll (nxt (unlink k i s)) (prv (unlink k i s)) None (heads (unlink k i s) l) zs \<and>
        set zs = (S(k := S k - {i})) l"
    proof (cases "l = k")
      case True
      have "dll (nxt (unlink k i s)) (prv (unlink k i s)) None (heads s k) (us @ c # ys)"
        by (rule dll_unlink_middle[OF d]) (auto simp: fields)
      moreover have "set (us @ c # ys) = S k - {i}" using Sk dist by auto
      ultimately show ?thesis using True by (auto simp: fields(3))
    next
      case False
      obtain zs where zs: "dll (nxt s) (prv s) None (heads s l) zs" "set zs = S l"
        using rep l by (rule repD)
      have "\<And>x. x \<in> set zs \<Longrightarrow> nxt s i \<noteq> Some x" "c \<notin> set zs"
        using zs nx Sk disj[OF False] by auto
      then have "dll (nxt (unlink k i s)) (prv (unlink k i s)) None (heads s l) zs"
        using zs(1) by (subst dll_cong[where nxt' = "nxt s" and prv' = "prv s"]) (auto simp: fields)
      with False zs show ?thesis by (auto simp: fields(3))
    qed
  qed
qed

end

end
