(* ===== verification/Buddy_Inv.thy ===== *)
theory Buddy_Inv
  imports Buddy Ilist
begin

text \<open>
  Correctness of the buddy system.  \<open>buddy_inv\<close> is the allocator's invariant; \<open>float_inv b c\<close> is
  the same invariant while the block of order \<open>c\<close> at \<open>b\<close> is in the hands of a loop (taken off
  its list and not yet handed out, or freed and still being merged).  The loops of
  \<open>buddy_allocate\<close> and \<open>buddy_free\<close> move between such states, and each lemma also says what
  happens to the sets of free and of allocated frames.
\<close>

section \<open>Free list surgery\<close>

lemma list_push_sel [simp]:
  "free_frame_lists (list_push k i s) = (free_frame_lists s)(k := Some i)"
  "bst (list_push k i s) j = bst s j" "border (list_push k i s) j = border s j"
  "b_index (buddy_frame_array (list_push k i s) j) = b_index (buddy_frame_array s j)"
  "b_slab_ptr (buddy_frame_array (list_push k i s) j) = b_slab_ptr (buddy_frame_array s j)"
  "b_is_slab_page (buddy_frame_array (list_push k i s) j) = b_is_slab_page (buddy_frame_array s j)"
  "slab_frame_array (list_push k i s) = slab_frame_array s"
  "slab_start_list (list_push k i s) = slab_start_list s" "diag (list_push k i s) = diag s"
  by (auto simp: list_push_def Let_def split: option.splits)

lemma list_push_ptrs:
  assumes "free_frame_lists s k \<noteq> Some i"
  shows "b_next (buddy_frame_array (list_push k i s) x) =
      (if x = i then free_frame_lists s k else b_next (buddy_frame_array s x))"
    and "b_prev (buddy_frame_array (list_push k i s) x) =
      (if x = i then None else if free_frame_lists s k = Some x then Some i
       else b_prev (buddy_frame_array s x))"
  using assms by (auto simp: list_push_def Let_def split: option.splits)

lemma list_pop_sel [simp]:
  "free_frame_lists (list_pop k i s) = (free_frame_lists s)(k := bnxt s i)"
  "bst (list_pop k i s) j = bst s j" "border (list_pop k i s) j = border s j"
  "b_next (buddy_frame_array (list_pop k i s) j) = b_next (buddy_frame_array s j)"
  "b_prev (buddy_frame_array (list_pop k i s) j) =
     (if bnxt s i = Some j then None else b_prev (buddy_frame_array s j))"
  "b_index (buddy_frame_array (list_pop k i s) j) = b_index (buddy_frame_array s j)"
  "b_slab_ptr (buddy_frame_array (list_pop k i s) j) = b_slab_ptr (buddy_frame_array s j)"
  "b_is_slab_page (buddy_frame_array (list_pop k i s) j) = b_is_slab_page (buddy_frame_array s j)"
  "slab_frame_array (list_pop k i s) = slab_frame_array s"
  "slab_start_list (list_pop k i s) = slab_start_list s" "diag (list_pop k i s) = diag s"
  by (auto simp: list_pop_def Let_def fun_eq_iff split: option.splits)

lemma list_unlink_sel [simp]:
  "bst (list_unlink k i s) j = bst s j" "border (list_unlink k i s) j = border s j"
  "b_index (buddy_frame_array (list_unlink k i s) j) = b_index (buddy_frame_array s j)"
  "b_slab_ptr (buddy_frame_array (list_unlink k i s) j) = b_slab_ptr (buddy_frame_array s j)"
  "b_is_slab_page (buddy_frame_array (list_unlink k i s) j) = b_is_slab_page (buddy_frame_array s j)"
  "slab_frame_array (list_unlink k i s) = slab_frame_array s"
  "slab_start_list (list_unlink k i s) = slab_start_list s"
  by (auto simp: list_unlink_def Let_def split: option.splits)

lemma list_unlink_mid:
  assumes "free_frame_lists s k \<noteq> Some i" "b_prev (buddy_frame_array s i) = Some c"
  shows "b_next (buddy_frame_array (list_unlink k i s) x) =
      (if x = c then b_next (buddy_frame_array s i) else b_next (buddy_frame_array s x))"
    and "i \<noteq> c \<Longrightarrow> b_prev (buddy_frame_array (list_unlink k i s) x) =
      (if b_next (buddy_frame_array s i) = Some x then Some c else b_prev (buddy_frame_array s x))"
    and "free_frame_lists (list_unlink k i s) = free_frame_lists s"
    and "diag (list_unlink k i s) = diag s"
  using assms by (auto simp: list_unlink_def Let_def split: option.splits)

interpretation fl: ilist bnxt bprv free_frame_lists list_push list_unlink
proof unfold_locales
  fix k i c s x
  show "free_frame_lists (list_push k i s) = (free_frame_lists s)(k := Some i)" by simp
  show "bnxt (list_push k i s) x = (if x = i then free_frame_lists s k else bnxt s x)"
    "bprv (list_push k i s) x = (if x = i then None else if free_frame_lists s k = Some x then Some i
       else bprv s x)" if "free_frame_lists s k \<noteq> Some i"
    using list_push_ptrs[OF that] by simp_all
  show "free_frame_lists (list_unlink k i s) = (free_frame_lists s)(k := bnxt s i)"
    "bnxt (list_unlink k i s) x = bnxt s x"
    "bprv (list_unlink k i s) x = (if bnxt s i = Some x then None else bprv s x)"
    if "free_frame_lists s k = Some i"
    using that by (simp_all add: list_unlink_def)
  show "free_frame_lists (list_unlink k i s) = free_frame_lists s"
    if "free_frame_lists s k \<noteq> Some i" "bprv s i = Some c"
    using list_unlink_mid(3)[OF that(1)] that(2) by simp
  show "bnxt (list_unlink k i s) x = (if x = c then bnxt s i else bnxt s x)"
    "bprv (list_unlink k i s) x = (if bnxt s i = Some x then Some c else bprv s x)"
    if "free_frame_lists s k \<noteq> Some i" "bprv s i = Some c" "i \<noteq> c"
    using list_unlink_mid(1,2)[OF that(1)] that(2,3) by simp_all
qed

section \<open>The invariant\<close>

definition frames :: "nat \<Rightarrow> nat \<Rightarrow> nat set" where
  "frames i k = {i..<i + 2 ^ k}"

definition block_ok :: "kmem \<Rightarrow> nat \<Rightarrow> nat \<Rightarrow> bool" where
  "block_ok s i k \<longleftrightarrow> 2 ^ k dvd i \<and> i + 2 ^ k \<le> TOTAL_FRAME \<and>
     (\<forall>j. i < j \<and> j < i + 2 ^ k \<longrightarrow> bst s j = BELONGED_FRAME)"

text \<open>\<open>block_at s i k\<close>: frame \<open>i\<close> is the head of a free or allocated block of order \<open>k\<close>.\<close>

definition block_at :: "kmem \<Rightarrow> nat \<Rightarrow> nat \<Rightarrow> bool" where
  "block_at s i k \<longleftrightarrow> bst s i = int k \<or> (bst s i = ALLOCATED_FRAME \<and> border s i = int k)"

definition free_heads :: "nat set \<Rightarrow> kmem \<Rightarrow> nat \<Rightarrow> nat set" where
  "free_heads X s k = {i. i < TOTAL_FRAME \<and> bst s i = int k \<and> i \<notin> X}"

abbreviation lists_rep :: "kmem \<Rightarrow> (nat \<Rightarrow> nat set) \<Rightarrow> bool" where
  "lists_rep \<equiv> fl.rep MAX_ORDER"

definition shape_ok :: "nat set \<Rightarrow> kmem \<Rightarrow> bool" where
  "shape_ok X s \<longleftrightarrow> (\<forall>i < TOTAL_FRAME. b_index (buddy_frame_array s i) = i \<and>
     (i \<notin> X \<longrightarrow> (bst s i \<ge> 0 \<or> bst s i = ALLOCATED_FRAME \<longrightarrow>
        (\<exists>k \<le> MAX_ORDER. block_at s i k \<and> block_ok s i k))))"

text \<open>No two free buddies are left unmerged.\<close>

definition coalesced :: "nat set \<Rightarrow> kmem \<Rightarrow> bool" where
  "coalesced X s \<longleftrightarrow> (\<forall>k < MAX_ORDER. \<forall>i \<in> free_heads X s k. i XOR 2 ^ k \<notin> free_heads X s k)"

definition gen_inv :: "nat set \<Rightarrow> kmem \<Rightarrow> bool" where
  "gen_inv X s \<longleftrightarrow> shape_ok X s \<and> lists_rep s (free_heads X s) \<and> coalesced X s"

definition buddy_inv :: "kmem \<Rightarrow> bool" where
  "buddy_inv s \<longleftrightarrow> gen_inv {} s"

definition float_inv :: "nat \<Rightarrow> nat \<Rightarrow> kmem \<Rightarrow> bool" where
  "float_inv b c s \<longleftrightarrow> gen_inv {b} s \<and> b < TOTAL_FRAME \<and> c \<le> MAX_ORDER \<and> block_ok s b c \<and>
     bst s b \<noteq> BELONGED_FRAME"

definition heads_frames :: "(nat \<Rightarrow> nat set) \<Rightarrow> nat set" where
  "heads_frames H = (\<Union>(k, i) \<in> {(k, i). i \<in> H k}. frames i k)"

definition gen_free :: "nat set \<Rightarrow> kmem \<Rightarrow> nat set" where
  "gen_free X s = heads_frames (free_heads X s)"

definition free_frames :: "kmem \<Rightarrow> nat set" where
  "free_frames s = gen_free {} s"

definition alloc_heads :: "nat set \<Rightarrow> kmem \<Rightarrow> nat \<Rightarrow> nat set" where
  "alloc_heads X s k =
     {i. i < TOTAL_FRAME \<and> bst s i = ALLOCATED_FRAME \<and> border s i = int k \<and> i \<notin> X}"

definition gen_alloc :: "nat set \<Rightarrow> kmem \<Rightarrow> nat set" where
  "gen_alloc X s = heads_frames (alloc_heads X s)"

definition allocated_frames :: "kmem \<Rightarrow> nat set" where
  "allocated_frames s = gen_alloc {} s"

section \<open>Blocks are disjoint\<close>

lemma frames_split: "frames i (Suc k) = frames i k \<union> frames (i + 2 ^ k) k"
  by (auto simp: frames_def)

lemma head_in_frames [simp]: "i \<in> frames i k"
  by (simp add: frames_def)

lemma blocks_disjoint:
  assumes "block_ok s i k" "block_ok s j l" "i \<noteq> j"
    and "bst s i \<noteq> BELONGED_FRAME" "bst s j \<noteq> BELONGED_FRAME"
  shows "frames i k \<inter> frames j l = {}"
proof (rule ccontr)
  assume "frames i k \<inter> frames j l \<noteq> {}"
  then obtain x where "x \<in> frames i k" "x \<in> frames j l" by blast
  then have "i \<le> x" "x < i + 2 ^ k" "j \<le> x" "x < j + 2 ^ l"
    by (simp_all add: frames_def)
  with assms(3) have "(i < j \<and> j < i + 2 ^ k) \<or> (j < i \<and> i < j + 2 ^ l)" by linarith
  with assms show False by (auto simp: block_ok_def)
qed

lemma block_ok_lt: "block_ok s i k \<Longrightarrow> i < TOTAL_FRAME"
  by (auto simp: block_ok_def intro: less_le_trans[of i "i + 2 ^ k"])

lemma free_heads_disjoint: "k \<noteq> l \<Longrightarrow> free_heads X s k \<inter> free_heads X s l = {}"
  by (auto simp: free_heads_def)

lemma shape_free_head: "shape_ok X s \<Longrightarrow> i \<in> free_heads X s k \<Longrightarrow> k \<le> MAX_ORDER \<and> block_ok s i k"
  unfolding shape_ok_def free_heads_def block_at_def by (fastforce simp: frame_states)

lemma free_head_not_belonged: "i \<in> free_heads X s k \<Longrightarrow> bst s i \<noteq> BELONGED_FRAME"
  by (auto simp: free_heads_def frame_states)

section \<open>Transport of the invariant\<close>

lemma block_ok_transport:
  assumes "block_ok s i k"
    and "\<And>j. i < j \<Longrightarrow> j < i + 2 ^ k \<Longrightarrow> bst s j = BELONGED_FRAME \<Longrightarrow> bst s' j = BELONGED_FRAME"
  shows "block_ok s' i k"
  using assms by (auto simp: block_ok_def)

lemma coalesced_mono:
  assumes "coalesced X s" and "\<And>k. free_heads X' s' k \<subseteq> free_heads X s k"
  shows "coalesced X' s'"
  using assms unfolding coalesced_def by blast

lemma shapeD:
  assumes "shape_ok X s" "i < TOTAL_FRAME" "i \<notin> X" "bst s i \<ge> 0 \<or> bst s i = ALLOCATED_FRAME"
  obtains k where "k \<le> MAX_ORDER" "block_at s i k" "block_ok s i k"
  using assms unfolding shape_ok_def by blast

lemma block_at_unique: "block_at s i k \<Longrightarrow> block_at s i l \<Longrightarrow> k = l"
  by (auto simp: block_at_def frame_states)

lemma block_at_cases: "block_at s i k \<Longrightarrow> bst s i \<ge> 0 \<or> bst s i = ALLOCATED_FRAME"
  by (auto simp: block_at_def)

lemma block_at_ok:
  assumes "shape_ok X s" "i < TOTAL_FRAME" "i \<notin> X" "block_at s i k"
  shows "k \<le> MAX_ORDER" "block_ok s i k"
  using shapeD[OF assms(1-3) block_at_cases[OF assms(4)]] block_at_unique[OF assms(4)] by metis+

lemma block_at_not_belonged: "block_at s i k \<Longrightarrow> bst s i \<noteq> BELONGED_FRAME"
  by (auto simp: block_at_def frame_states)

lemma in_heads_frames: "x \<in> heads_frames H \<longleftrightarrow> (\<exists>k i. i \<in> H k \<and> x \<in> frames i k)"
  by (auto simp: heads_frames_def)

lemma heads_frames_disjoint:
  assumes "\<And>k i. i \<in> H k \<Longrightarrow> frames i k \<inter> B = {}"
  shows "heads_frames H \<inter> B = {}"
  using assms unfolding heads_frames_def by blast

lemma heads_frames_insert: "heads_frames (H(k := insert b (H k))) = heads_frames H \<union> frames b k"
proof -
  have "{(l, i). i \<in> (H(k := insert b (H k))) l} = insert (k, b) {(l, i). i \<in> H l}"
    by (auto split: if_splits)
  then show ?thesis unfolding heads_frames_def by (simp only: UN_insert) auto
qed

lemma heads_frames_remove: "b \<in> H k \<Longrightarrow> heads_frames (H(k := H k - {b})) \<union> frames b k = heads_frames H"
  using heads_frames_insert[of "H(k := H k - {b})" k b] by (simp add: insert_absorb)

text \<open>A floating block touches no block on record.\<close>

lemma float_disjoint:
  assumes "float_inv b c s"
  shows "gen_free {b} s \<inter> frames b c = {}" and "gen_alloc {b} s \<inter> frames b c = {}"
proof -
  have sh: "shape_ok {b} s" and b: "block_ok s b c" "bst s b \<noteq> BELONGED_FRAME"
    using assms by (auto simp: float_inv_def gen_inv_def)
  have *: "frames i k \<inter> frames b c = {}" if "i < TOTAL_FRAME" "i \<noteq> b" "block_at s i k" for i k
    using blocks_disjoint[OF block_at_ok(2)[OF sh that(1) _ that(3)] b(1) that(2)
      block_at_not_belonged[OF that(3)] b(2)] that(2) by simp
  show "gen_free {b} s \<inter> frames b c = {}" unfolding gen_free_def
    by (rule heads_frames_disjoint) (use * in \<open>auto simp: free_heads_def block_at_def\<close>)
  show "gen_alloc {b} s \<inter> frames b c = {}" unfolding gen_alloc_def
    by (rule heads_frames_disjoint) (use * in \<open>auto simp: alloc_heads_def block_at_def\<close>)
qed

lemma free_alloc_disjoint:
  assumes "buddy_inv s"
  shows "free_frames s \<inter> allocated_frames s = {}"
proof -
  have sh: "shape_ok {} s" using assms by (simp add: buddy_inv_def gen_inv_def)
  have "frames i k \<inter> frames j l = {}"
    if "i < TOTAL_FRAME" "bst s i = int k" "j < TOTAL_FRAME" "bst s j = ALLOCATED_FRAME" "border s j = int l"
    for i k j l
  proof (rule blocks_disjoint)
    show "block_ok s i k" "block_ok s j l"
      using block_at_ok(2)[OF sh] that by (auto simp: block_at_def)
  qed (use that in \<open>auto simp: frame_states\<close>)
  then have "\<And>i k j l. i \<in> free_heads {} s k \<Longrightarrow> j \<in> alloc_heads {} s l \<Longrightarrow> frames i k \<inter> frames j l = {}"
    by (auto simp: free_heads_def alloc_heads_def)
  then show ?thesis
    by (fastforce simp: free_frames_def allocated_frames_def gen_free_def gen_alloc_def in_heads_frames)
qed

section \<open>Steps of the allocator\<close>

text \<open>Taking the head of a free list.\<close>

lemma pop_step:
  assumes inv: "buddy_inv s" and h: "free_frame_lists s k = Some b" and k: "k \<le> MAX_ORDER"
  defines "s' \<equiv> list_pop k b s"
  shows "float_inv b k s'" "free_frames s = gen_free {b} s' \<union> frames b k"
    "alloc_heads {b} s' = alloc_heads {} s" "b_index (buddy_frame_array s b) = b" "diag s' = diag s"
proof -
  have sh: "shape_ok {} s" and rep: "lists_rep s (free_heads {} s)" and co: "coalesced {} s"
    using inv by (auto simp: buddy_inv_def gen_inv_def)
  have "list_unlink k b s = list_pop k b s" using h by (simp add: list_unlink_def)
  note pop = fl.rep_head[OF rep k h] fl.rep_unlink_head[OF rep free_heads_disjoint h k, unfolded this]
  from pop(1) have b: "b < TOTAL_FRAME" "bst s b = int k" by (auto simp: free_heads_def)
  have fh: "free_heads {b} s' = (free_heads {} s)(k := free_heads {} s k - {b})"
    using b by (auto simp: free_heads_def fun_eq_iff s'_def)
  have ah: "alloc_heads {b} s' = alloc_heads {} s"
    using b by (auto simp: alloc_heads_def fun_eq_iff s'_def frame_states)
  have bo: "block_ok s b k" using shape_free_head[OF sh pop(1)] by simp
  have tr: "block_ok s' i l" if "block_ok s i l" for i l
    by (rule block_ok_transport[OF that]) (simp add: s'_def)
  have "shape_ok {b} s'" using sh tr by (fastforce simp: shape_ok_def block_at_def s'_def)
  moreover have "lists_rep s' (free_heads {b} s')" using pop(2) unfolding fh by (simp add: s'_def)
  moreover have "coalesced {b} s'" by (rule coalesced_mono[OF co]) (auto simp: fh)
  ultimately show "float_inv b k s'"
    using b k tr[OF bo] by (auto simp: float_inv_def gen_inv_def s'_def frame_states)
  show "free_frames s = gen_free {b} s' \<union> frames b k"
    unfolding free_frames_def gen_free_def fh using heads_frames_remove[of b "free_heads {} s" k] pop(1) by simp
  show "alloc_heads {b} s' = alloc_heads {} s" by (rule ah)
  show "b_index (buddy_frame_array s b) = b" using sh b by (auto simp: shape_ok_def)
  show "diag s' = diag s" by (simp add: s'_def)
qed

text \<open>Giving the upper half of a floating block back to a list.\<close>

lemma split_step:
  assumes inv: "float_inv b (Suc c) s"
  defines "j \<equiv> b XOR 2 ^ c"
  defines "s1 \<equiv> upd_frame j (\<lambda>x. x\<lparr>b_status := int c\<rparr>) s"
  defines "s' \<equiv> list_push c j s1"
  shows "float_inv b c s'" "gen_free {b} s' = gen_free {b} s \<union> frames j c"
    "alloc_heads {b} s' = alloc_heads {b} s" "j = b + 2 ^ c" "diag s' = diag s"
proof -
  have sh: "shape_ok {b} s" and rep: "lists_rep s (free_heads {b} s)" and co: "coalesced {b} s"
    and b: "b < TOTAL_FRAME" "Suc c \<le> MAX_ORDER" "block_ok s b (Suc c)" "bst s b \<noteq> BELONGED_FRAME"
    using inv by (auto simp: float_inv_def gen_inv_def)
  from b(3) have dv: "2 ^ Suc c dvd b" and top: "b + 2 ^ Suc c \<le> TOTAL_FRAME" by (auto simp: block_ok_def)
  have "2 ^ c dvd b" using dv by (rule power_le_dvd) simp
  from buddy_cases_nat[OF this] dv show j: "j = b + 2 ^ c" by (auto simp: j_def)
  have jt: "j < TOTAL_FRAME" using top j zero_less_power[of "2::nat" c] by (simp only: power_Suc) linarith
  have jb: "bst s j = BELONGED_FRAME" using b(3) j by (auto simp: block_ok_def)
  have jnb: "j \<noteq> b" using j by simp
  have out: "\<not> (i < j \<and> j < i + 2 ^ k)" if "i < TOTAL_FRAME" "i \<noteq> b" "block_at s i k" for i k
  proof -
    have "frames i k \<inter> frames b (Suc c) = {}"
      using blocks_disjoint[OF block_at_ok(2)[OF sh that(1) _ that(3)] b(3) that(2)
        block_at_not_belonged[OF that(3)] b(4)] that(2) by simp
    moreover have "j \<in> frames b (Suc c)" using j by (simp add: frames_def)
    ultimately show ?thesis by (auto simp: frames_def)
  qed
  have bs': "bst s' i = (if i = j then int c else bst s i)" for i by (simp add: s'_def s1_def)
  have bo': "border s' i = border s i" for i by (simp add: s'_def s1_def)
  have fh: "free_heads {b} s' = (free_heads {b} s)(c := insert j (free_heads {b} s c))"
    using jt jnb jb by (auto simp: free_heads_def fun_eq_iff bs' frame_states)
  have ah: "alloc_heads {b} s' = alloc_heads {b} s"
    using jb by (auto simp: alloc_heads_def fun_eq_iff bs' bo' frame_states)
  have "lists_rep s1 (free_heads {b} s)"
    by (rule fl.rep_frame[OF rep]) (auto simp: s1_def)
  moreover have "j \<notin> free_heads {b} s l" for l
    using jb free_head_not_belonged by blast
  ultimately have "lists_rep s' (free_heads {b} s')"
    unfolding fh unfolding s'_def by (intro fl.rep_push) (use b in \<open>auto simp: free_heads_def\<close>)
  moreover have "shape_ok {b} s'" unfolding shape_ok_def
  proof (intro allI impI conjI)
    fix i assume i: "i < TOTAL_FRAME"
    show "b_index (buddy_frame_array s' i) = i" using sh i by (auto simp: shape_ok_def s'_def s1_def)
    assume ib: "i \<notin> {b}" and st: "bst s' i \<ge> 0 \<or> bst s' i = ALLOCATED_FRAME"
    show "\<exists>k\<le>MAX_ORDER. block_at s' i k \<and> block_ok s' i k"
    proof (cases "i = j")
      case True
      have "2 ^ c dvd j" using dv j by (auto intro: dvd_add power_le_dvd)
      then have "block_ok s' j c" using b(3) top j by (auto simp: block_ok_def bs')
      with True b(2) show ?thesis by (intro exI[of _ c]) (simp add: block_at_def bs')
    next
      case False
      with st have "bst s i \<ge> 0 \<or> bst s i = ALLOCATED_FRAME" by (simp add: bs')
      from shapeD[OF sh i ib this] obtain k where k: "k \<le> MAX_ORDER" "block_at s i k" "block_ok s i k" .
      have "block_ok s' i k" using out[OF i _ k(2)] ib
        by (intro block_ok_transport[OF k(3)]) (auto simp: bs')
      with k False show ?thesis by (auto simp: block_at_def bs' bo')
    qed
  qed
  moreover have "coalesced {b} s'" unfolding coalesced_def
  proof (intro allI impI ballI)
    fix k i assume k: "k < MAX_ORDER" and i: "i \<in> free_heads {b} s' k"
    have b_out: "b \<notin> free_heads {b} s' k" by (simp add: free_heads_def)
    have jx: "j XOR 2 ^ c = b" by (simp add: j_def buddy_invol_nat)
    show "i XOR 2 ^ k \<notin> free_heads {b} s' k"
    proof
      assume x: "i XOR 2 ^ k \<in> free_heads {b} s' k"
      show False
      proof (cases "k = c \<and> (i = j \<or> i XOR 2 ^ k = j)")
        case True
        then have "i = b \<or> i XOR 2 ^ k = b" using jx by (metis buddy_invol_nat)
        then show False using i x b_out by metis
      next
        case False
        with i x have "i \<in> free_heads {b} s k" "i XOR 2 ^ k \<in> free_heads {b} s k"
          by (auto simp: fh split: if_splits)
        with co k show False by (auto simp: coalesced_def)
      qed
    qed
  qed
  moreover have "block_ok s' b c"
    using b(3) \<open>2 ^ c dvd b\<close> j by (auto simp: block_ok_def bs')
  ultimately show "float_inv b c s'"
    using b jnb by (auto simp: float_inv_def gen_inv_def bs')
  show "gen_free {b} s' = gen_free {b} s \<union> frames j c"
    by (simp add: gen_free_def fh heads_frames_insert)
  show "alloc_heads {b} s' = alloc_heads {b} s" by (rule ah)
  show "diag s' = diag s" by (simp add: s'_def s1_def)
qed

text \<open>Handing the floating block out.\<close>

lemma finish_alloc_step:
  assumes inv: "float_inv b c s"
  defines "s' \<equiv> upd_frame b (\<lambda>x. x\<lparr>b_status := ALLOCATED_FRAME, b_next := None, b_prev := None,
                             b_allocated_order := int c\<rparr>) s"
  shows "buddy_inv s'" "free_frames s' = gen_free {b} s"
    "alloc_heads {} s' = (alloc_heads {b} s)(c := insert b (alloc_heads {b} s c))" "diag s' = diag s"
proof -
  have sh: "shape_ok {b} s" and rep: "lists_rep s (free_heads {b} s)" and co: "coalesced {b} s"
    and b: "b < TOTAL_FRAME" "c \<le> MAX_ORDER" "block_ok s b c" "bst s b \<noteq> BELONGED_FRAME"
    using inv by (auto simp: float_inv_def gen_inv_def)
  have bs': "bst s' i = (if i = b then ALLOCATED_FRAME else bst s i)" for i by (simp add: s'_def)
  have bo': "border s' i = (if i = b then int c else border s i)" for i by (simp add: s'_def)
  have fh: "free_heads {} s' = free_heads {b} s"
    by (auto simp: free_heads_def fun_eq_iff bs' frame_states)
  have ah: "alloc_heads {} s' = (alloc_heads {b} s)(c := insert b (alloc_heads {b} s c))"
    using b(1) by (auto simp: alloc_heads_def fun_eq_iff bs' bo')
  have tr: "block_ok s' i k" if "block_ok s i k" for i k
    by (rule block_ok_transport[OF that]) (use b(4) in \<open>auto simp: bs'\<close>)
  have "shape_ok {} s'" unfolding shape_ok_def
  proof (intro allI impI conjI)
    fix i assume i: "i < TOTAL_FRAME"
    show "b_index (buddy_frame_array s' i) = i" using sh i by (auto simp: shape_ok_def s'_def)
    assume st: "bst s' i \<ge> 0 \<or> bst s' i = ALLOCATED_FRAME"
    show "\<exists>k\<le>MAX_ORDER. block_at s' i k \<and> block_ok s' i k"
    proof (cases "i = b")
      case True
      with b(2) tr[OF b(3)] show ?thesis by (auto simp: block_at_def bs' bo')
    next
      case False
      with st have "bst s i \<ge> 0 \<or> bst s i = ALLOCATED_FRAME" "i \<notin> {b}" by (auto simp: bs')
      from shapeD[OF sh i this(2,1)] obtain k where k: "k \<le> MAX_ORDER" "block_at s i k" "block_ok s i k" .
      with tr[OF k(3)] False show ?thesis by (auto simp: block_at_def bs' bo')
    qed
  qed
  moreover have "lists_rep s' (free_heads {} s')" unfolding fh
    by (rule fl.rep_frame[OF rep]) (auto simp: free_heads_def s'_def)
  moreover have "coalesced {} s'" by (rule coalesced_mono[OF co]) (simp add: fh)
  ultimately show "buddy_inv s'" by (simp add: buddy_inv_def gen_inv_def)
  show "free_frames s' = gen_free {b} s" by (simp add: free_frames_def gen_free_def fh)
  show "alloc_heads {} s' = (alloc_heads {b} s)(c := insert b (alloc_heads {b} s c))" by (rule ah)
  show "diag s' = diag s" by (simp add: s'_def)
qed

text \<open>Taking an allocated block back into the hands of \<open>buddy_free\<close>.\<close>

lemma begin_free_step:
  assumes inv: "buddy_inv s" and b: "b < TOTAL_FRAME" "bst s b = ALLOCATED_FRAME"
  defines "s' \<equiv> upd_frame b (\<lambda>x. x\<lparr>b_status := border s b\<rparr>) s"
  shows "\<exists>c. border s b = int c \<and> float_inv b c s' \<and> gen_free {b} s' = free_frames s \<and>
    b \<in> alloc_heads {} s c \<and> alloc_heads {b} s' = (alloc_heads {} s)(c := alloc_heads {} s c - {b}) \<and>
    diag s' = diag s"
proof -
  have sh: "shape_ok {} s" and rep: "lists_rep s (free_heads {} s)" and co: "coalesced {} s"
    using inv by (auto simp: buddy_inv_def gen_inv_def)
  obtain c where c: "c \<le> MAX_ORDER" "block_at s b c" "block_ok s b c"
    using shapeD[OF sh b(1) _ disjI2[OF b(2)]] by blast
  have oc: "border s b = int c" using c(2) b(2) by (simp add: block_at_def frame_states)
  have bs': "bst s' i = (if i = b then int c else bst s i)" for i by (simp add: s'_def oc)
  have bo': "border s' i = border s i" for i by (simp add: s'_def)
  have fh: "free_heads {b} s' = free_heads {} s"
    using b by (auto simp: free_heads_def fun_eq_iff bs' frame_states)
  have ah: "alloc_heads {b} s' = (alloc_heads {} s)(c := alloc_heads {} s c - {b})"
    by (auto simp: alloc_heads_def fun_eq_iff bs' bo' oc)
  have bin: "b \<in> alloc_heads {} s c" using b oc by (simp add: alloc_heads_def)
  have tr: "block_ok s' i k" if "block_ok s i k" for i k
    by (rule block_ok_transport[OF that]) (use b(2) in \<open>auto simp: bs' frame_states\<close>)
  have "shape_ok {b} s'"
    using sh tr unfolding shape_ok_def by (fastforce simp: block_at_def bs' bo' s'_def)
  moreover have "lists_rep s' (free_heads {b} s')" unfolding fh
    by (rule fl.rep_frame[OF rep]) (use b(2) in \<open>auto simp: free_heads_def s'_def frame_states\<close>)
  moreover have "coalesced {b} s'" by (rule coalesced_mono[OF co]) (simp add: fh)
  ultimately have "float_inv b c s'"
    using b c tr[OF c(3)] by (simp add: float_inv_def gen_inv_def bs' frame_states)
  moreover have "gen_free {b} s' = free_frames s" by (simp add: free_frames_def gen_free_def fh)
  ultimately show ?thesis using oc bin ah by (intro exI[of _ c]) (simp add: s'_def)
qed

text \<open>Merging with a free buddy of the same order.\<close>

lemma merge_step:
  assumes inv: "float_inv b c s" and c: "c < MAX_ORDER"
  defines "j \<equiv> b XOR 2 ^ c"
  assumes j: "j < TOTAL_FRAME" "bst s j = int c"
  defines "m \<equiv> min b j" and "h \<equiv> max b j"
  defines "s' \<equiv> retire_frame h (list_unlink c j s)"
  shows "float_inv m (Suc c) s'" "gen_free {m} s' \<union> frames m (Suc c) = gen_free {b} s \<union> frames b c"
    "alloc_heads {m} s' = alloc_heads {b} s" "diag s' = diag s"
proof -
  have sh: "shape_ok {b} s" and rep: "lists_rep s (free_heads {b} s)" and co: "coalesced {b} s"
    and b: "b < TOTAL_FRAME" "c \<le> MAX_ORDER" "block_ok s b c" "bst s b \<noteq> BELONGED_FRAME"
    using inv by (auto simp: float_inv_def gen_inv_def)
  from b(3) have dv: "2 ^ c dvd b" and topb: "b + 2 ^ c \<le> TOTAL_FRAME" by (auto simp: block_ok_def)
  have mh: "2 ^ Suc c dvd m \<and> h = m + 2 ^ c"
    using buddy_cases_nat[OF dv] by (auto simp: j_def m_def h_def)
  then have "m \<noteq> h" by simp
  then have jb: "j \<noteq> b" by (auto simp: m_def h_def)
  have jf: "j \<in> free_heads {b} s c" using j jb by (simp add: free_heads_def)
  have jok: "block_ok s j c" using shape_free_head[OF sh jf] by simp
  have hbj: "h = b \<and> m = j \<or> h = j \<and> m = b" by (auto simp: m_def h_def)
  have "free_frame_lists s c \<noteq> Some j \<Longrightarrow> diag (list_unlink c j s) = diag s"
    using list_unlink_mid(4) fl.member_prev[OF rep jf b(2)] by metis
  then have dg: "diag (list_unlink c j s) = diag s"
    by (cases "free_frame_lists s c = Some j") (simp_all add: list_unlink_def)
  note un = fl.rep_unlink[OF rep free_heads_disjoint jf b(2)] dg
  have bs': "bst s' i = (if i = h then BELONGED_FRAME else bst s i)" for i
    by (simp add: s'_def retire_frame_def)
  have bo': "i \<noteq> h \<Longrightarrow> border s' i = border s i" for i by (simp add: s'_def retire_frame_def)
  have fh: "free_heads {m} s' = (free_heads {b} s)(c := free_heads {b} s c - {j})"
    using hbj jb j(2) by (auto simp: free_heads_def fun_eq_iff bs' frame_states)
  have ah: "alloc_heads {m} s' = alloc_heads {b} s"
    using hbj j(2) by (auto simp: alloc_heads_def fun_eq_iff bs' bo' frame_states)
  have tr: "block_ok s' i k" if "block_ok s i k" for i k
    by (rule block_ok_transport[OF that]) (auto simp: bs')
  have "shape_ok {m} s'" unfolding shape_ok_def
  proof (intro allI impI conjI)
    fix i assume i: "i < TOTAL_FRAME"
    show "b_index (buddy_frame_array s' i) = i"
      using sh i by (auto simp: shape_ok_def s'_def retire_frame_def)
    assume im: "i \<notin> {m}" and st: "bst s' i \<ge> 0 \<or> bst s' i = ALLOCATED_FRAME"
    have ih: "i \<noteq> h" using st by (auto simp: bs' frame_states split: if_splits)
    with im hbj have ib: "i \<notin> {b}" by auto
    from st ih have "bst s i \<ge> 0 \<or> bst s i = ALLOCATED_FRAME" by (simp add: bs')
    from shapeD[OF sh i ib this] obtain k where k: "k \<le> MAX_ORDER" "block_at s i k" "block_ok s i k" .
    with tr[OF k(3)] ih show "\<exists>k\<le>MAX_ORDER. block_at s' i k \<and> block_ok s' i k"
      by (auto simp: block_at_def bs' bo')
  qed
  moreover have "lists_rep s' (free_heads {m} s')"
    unfolding fh unfolding s'_def
    by (rule fl.rep_frame[OF un(1)])
       (use hbj j(2) in \<open>auto simp: free_heads_def retire_frame_def split: if_splits\<close>)
  moreover have "coalesced {m} s'" by (rule coalesced_mono[OF co]) (auto simp: fh)
  moreover have "block_ok s' m (Suc c)"
  proof -
    have "block_ok s' m c" "block_ok s h c" using hbj tr b(3) jok by auto
    then have lo: "\<And>x. m < x \<Longrightarrow> x < h \<Longrightarrow> bst s' x = BELONGED_FRAME"
      and hi: "\<And>x. h < x \<Longrightarrow> x < h + 2 ^ c \<Longrightarrow> bst s' x = BELONGED_FRAME"
      and top: "h + 2 ^ c \<le> TOTAL_FRAME"
      using mh by (auto simp: block_ok_def bs')
    have "bst s' x = BELONGED_FRAME" if "m < x" "x < h + 2 ^ c" for x
      using lo hi that by (cases x h rule: linorder_cases) (auto simp: bs')
    with mh top show ?thesis by (simp add: block_ok_def)
  qed
  ultimately show "float_inv m (Suc c) s'"
    using b(1,4) c j hbj \<open>m \<noteq> h\<close> by (auto simp: float_inv_def gen_inv_def bs' frame_states)
  have "frames m (Suc c) = frames b c \<union> frames j c" using hbj mh by (auto simp: frames_split)
  moreover have "gen_free {m} s' \<union> frames j c = gen_free {b} s"
    using heads_frames_remove[of j "free_heads {b} s" c] jf by (simp add: gen_free_def fh)
  ultimately show "gen_free {m} s' \<union> frames m (Suc c) = gen_free {b} s \<union> frames b c" by auto
  show "alloc_heads {m} s' = alloc_heads {b} s" by (rule ah)
  show "diag s' = diag s" using un by (simp add: s'_def retire_frame_def)
qed

text \<open>Putting the merged block on its list.\<close>

lemma finish_free_step:
  assumes inv: "float_inv b c s"
    and exit: "\<not> (c < MAX_ORDER \<and> b XOR 2 ^ c < TOTAL_FRAME \<and> bst s (b XOR 2 ^ c) = int c)"
  defines "s1 \<equiv> upd_frame b (\<lambda>x. x\<lparr>b_status := int c\<rparr>) s"
  defines "s' \<equiv> list_push c b s1"
  shows "buddy_inv s'" "free_frames s' = gen_free {b} s \<union> frames b c"
    "alloc_heads {} s' = alloc_heads {b} s" "diag s' = diag s"
proof -
  have sh: "shape_ok {b} s" and rep: "lists_rep s (free_heads {b} s)" and co: "coalesced {b} s"
    and b: "b < TOTAL_FRAME" "c \<le> MAX_ORDER" "block_ok s b c" "bst s b \<noteq> BELONGED_FRAME"
    using inv by (auto simp: float_inv_def gen_inv_def)
  have bs': "bst s' i = (if i = b then int c else bst s i)" for i by (simp add: s'_def s1_def)
  have bo': "border s' i = border s i" for i by (simp add: s'_def s1_def)
  have fh: "free_heads {} s' = (free_heads {b} s)(c := insert b (free_heads {b} s c))"
    using b(1) by (auto simp: free_heads_def fun_eq_iff bs')
  have ah: "alloc_heads {} s' = alloc_heads {b} s"
    by (auto simp: alloc_heads_def fun_eq_iff bs' bo' frame_states)
  have tr: "block_ok s' i k" if "block_ok s i k" for i k
    by (rule block_ok_transport[OF that]) (use b(4) in \<open>auto simp: bs'\<close>)
  have bout: "b \<notin> free_heads {b} s l" for l by (simp add: free_heads_def)
  have "lists_rep s1 (free_heads {b} s)"
    by (rule fl.rep_frame[OF rep]) (auto simp: s1_def)
  then have "lists_rep s' (free_heads {} s')"
    unfolding fh unfolding s'_def
    by (rule fl.rep_push) (use b bout in \<open>auto simp: free_heads_def\<close>)
  moreover have "shape_ok {} s'" unfolding shape_ok_def
  proof (intro allI impI conjI)
    fix i assume i: "i < TOTAL_FRAME"
    show "b_index (buddy_frame_array s' i) = i" using sh i by (auto simp: shape_ok_def s'_def s1_def)
    assume st: "bst s' i \<ge> 0 \<or> bst s' i = ALLOCATED_FRAME"
    show "\<exists>k\<le>MAX_ORDER. block_at s' i k \<and> block_ok s' i k"
    proof (cases "i = b")
      case True
      with b(2) tr[OF b(3)] show ?thesis by (intro exI[of _ c]) (simp add: block_at_def bs')
    next
      case False
      with st have "bst s i \<ge> 0 \<or> bst s i = ALLOCATED_FRAME" "i \<notin> {b}" by (auto simp: bs')
      from shapeD[OF sh i this(2,1)] obtain k where k: "k \<le> MAX_ORDER" "block_at s i k" "block_ok s i k" .
      with tr[OF k(3)] False show ?thesis by (auto simp: block_at_def bs' bo')
    qed
  qed
  moreover have "coalesced {} s'" unfolding coalesced_def
  proof (intro allI impI ballI)
    fix k i assume k: "k < MAX_ORDER" and i: "i \<in> free_heads {} s' k"
    show "i XOR 2 ^ k \<notin> free_heads {} s' k"
    proof
      assume x: "i XOR 2 ^ k \<in> free_heads {} s' k"
      show False
      proof (cases "k = c \<and> (i = b \<or> i XOR 2 ^ k = b)")
        case True
        then have "b XOR 2 ^ c \<in> free_heads {} s' c" using i x by (metis buddy_invol_nat)
        moreover have "b XOR 2 ^ c \<noteq> b"
          using buddy_cases_nat[of c b] b(3) by (auto simp: block_ok_def)
        ultimately show False using exit k True by (auto simp: free_heads_def bs')
      next
        case False
        with i x have "i \<in> free_heads {b} s k" "i XOR 2 ^ k \<in> free_heads {b} s k"
          by (auto simp: fh split: if_splits)
        with co k show False by (auto simp: coalesced_def)
      qed
    qed
  qed
  ultimately show "buddy_inv s'" by (simp add: buddy_inv_def gen_inv_def)
  show "free_frames s' = gen_free {b} s \<union> frames b c"
    by (simp add: free_frames_def gen_free_def fh heads_frames_insert)
  show "alloc_heads {} s' = alloc_heads {b} s" by (rule ah)
  show "diag s' = diag s" by (simp add: s'_def s1_def)
qed

section \<open>The loops\<close>

lemma split_loop_inv:
  assumes "float_inv b c s" "order \<le> c"
  shows "float_inv b order (split_loop order b c s) \<and>
    gen_free {b} (split_loop order b c s) \<union> frames b order = gen_free {b} s \<union> frames b c \<and>
    alloc_heads {b} (split_loop order b c s) = alloc_heads {b} s \<and>
    diag (split_loop order b c s) = diag s"
  using assms
proof (induction c arbitrary: s)
  case (Suc c)
  show ?case
  proof (cases "order = Suc c")
    case False
    with Suc.prems(2) have oc: "order \<le> c" by simp
    note st = split_step[OF Suc.prems(1)]
    from Suc.IH[OF st(1) oc] st oc show ?thesis
      by (simp add: Let_def frames_split Un_ac)
  qed (use Suc.prems in simp)
qed simp

lemma merge_loop_inv:
  assumes "float_inv b c s" "merge_loop c b s = (c', b', s')"
  shows "float_inv b' c' s' \<and> gen_free {b'} s' \<union> frames b' c' = gen_free {b} s \<union> frames b c \<and>
    alloc_heads {b'} s' = alloc_heads {b} s \<and> diag s' = diag s \<and>
    \<not> (c' < MAX_ORDER \<and> b' XOR 2 ^ c' < TOTAL_FRAME \<and> bst s' (b' XOR 2 ^ c') = int c')"
  using assms
proof (induction c b s rule: merge_loop.induct)
  case (1 c b s)
  let ?j = "b XOR 2 ^ c"
  show ?case
  proof (cases "c < MAX_ORDER \<and> ?j < TOTAL_FRAME \<and> bst s ?j = int c")
    case False
    with "1.prems" show ?thesis by (subst (asm) merge_loop.simps) (auto simp: Let_def)
  next
    case True
    note st = merge_step[OF "1.prems"(1)]
    show ?thesis
    proof (cases "?j < b")
      case True
      with \<open>c < MAX_ORDER \<and> ?j < TOTAL_FRAME \<and> bst s ?j = int c\<close> "1.prems"(2)
      have eq: "merge_loop (Suc c) ?j (retire_frame b (list_unlink c ?j s)) = (c', b', s')"
        by (subst (asm) merge_loop.simps) (simp add: Let_def)
      from "1.IH"(1)[OF refl _ refl True _ eq] st \<open>c < MAX_ORDER \<and> _\<close> True
      show ?thesis by (simp add: min_absorb2 max_absorb1)
    next
      case False
      with \<open>c < MAX_ORDER \<and> ?j < TOTAL_FRAME \<and> bst s ?j = int c\<close> "1.prems"(2)
      have eq: "merge_loop (Suc c) b (retire_frame ?j (list_unlink c ?j s)) = (c', b', s')"
        by (subst (asm) merge_loop.simps) (simp add: Let_def)
      from "1.IH"(2)[OF refl _ refl False _ eq] st \<open>c < MAX_ORDER \<and> _\<close> False
      show ?thesis by (simp add: min_absorb1 max_absorb2)
    qed
  qed
qed

section \<open>Allocation and freeing\<close>

lemma free_list_empty_iff:
  assumes "buddy_inv s" "k \<le> MAX_ORDER"
  shows "free_frame_lists s k = None \<longleftrightarrow> free_heads {} s k = {}"
proof -
  from assms obtain xs where "dll (bnxt s) (bprv s) None (free_frame_lists s k) xs"
      "set xs = free_heads {} s k"
    by (auto simp: buddy_inv_def gen_inv_def fl.rep_def)
  then show ?thesis by (cases xs) auto
qed

definition alloc_post :: "nat \<Rightarrow> kmem \<Rightarrow> kmem \<times> nat option \<Rightarrow> bool" where
  "alloc_post order s r \<longleftrightarrow> (case r of
     (s', None) \<Rightarrow> s' = report Allocate_fail s
   | (s', Some i) \<Rightarrow> order \<le> MAX_ORDER \<and> buddy_inv s' \<and> i < TOTAL_FRAME \<and> 2 ^ order dvd i \<and>
       frames i order \<subseteq> free_frames s \<and> free_frames s' = free_frames s - frames i order \<and>
       alloc_heads {} s' = (alloc_heads {} s)(order := insert i (alloc_heads {} s order)) \<and>
       bst s' i = ALLOCATED_FRAME \<and> border s' i = int order \<and> diag s' = diag s)"

lemma alloc_take:
  assumes inv: "buddy_inv s" and h: "free_frame_lists s i = Some b" and i: "i \<le> MAX_ORDER" "order \<le> i"
  defines "s1 \<equiv> split_loop order b i (list_pop i b s)"
  defines "s2 \<equiv> upd_frame b (\<lambda>x. x\<lparr>b_status := ALLOCATED_FRAME, b_next := None, b_prev := None,
                             b_allocated_order := int order\<rparr>) s1"
  shows "alloc_post order s (s2, Some b)"
proof -
  note pop = pop_step[OF inv h i(1)]
  note sp = split_loop_inv[OF pop(1) i(2), folded s1_def]
  note fin = finish_alloc_step[OF conjunct1[OF sp], folded s2_def]
  have fl: "float_inv b order s1" using sp by simp
  have "free_frames s2 \<union> frames b order = free_frames s" using pop(2) sp fin(2) by simp
  moreover have "free_frames s2 \<inter> frames b order = {}" using float_disjoint(1)[OF fl] fin(2) by simp
  moreover have "b < TOTAL_FRAME" "2 ^ order dvd b" using fl by (auto simp: float_inv_def block_ok_def)
  ultimately show ?thesis
    using i sp fin pop by (auto simp: alloc_post_def s2_def)
qed

lemma alloc_scan_post:
  assumes "buddy_inv s" "order \<le> i"
  shows "alloc_post order s (alloc_scan order i s) \<and>
    (snd (alloc_scan order i s) = None \<longleftrightarrow> (\<forall>k. i \<le> k \<and> k \<le> MAX_ORDER \<longrightarrow> free_heads {} s k = {}))"
  using assms
proof (induction order i s rule: alloc_scan.induct)
  case (1 order i s)
  show ?case
  proof (cases "i > MAX_ORDER")
    case True
    then show ?thesis by (subst (1 2) alloc_scan.simps) (auto simp: alloc_post_def)
  next
    case iM: False
    show ?thesis
    proof (cases "free_frame_lists s i")
      case None
      then have eq: "alloc_scan order i s = alloc_scan order (Suc i) s"
        using iM by (subst alloc_scan.simps) simp
      have "free_heads {} s i = {}" using None free_list_empty_iff "1.prems"(1) iM by simp
      then have "(\<forall>k. i \<le> k \<and> k \<le> MAX_ORDER \<longrightarrow> free_heads {} s k = {}) \<longleftrightarrow>
          (\<forall>k. Suc i \<le> k \<and> k \<le> MAX_ORDER \<longrightarrow> free_heads {} s k = {})"
        by (metis Suc_leD Suc_leI le_neq_implies_less)
      with "1.IH"[OF iM None "1.prems"(1)] "1.prems"(2) eq show ?thesis by simp
    next
      case (Some b)
      have ix: "b_index (buddy_frame_array s b) = b"
        using pop_step(4)[OF "1.prems"(1) Some] iM by simp
      have "free_heads {} s i \<noteq> {}" using Some free_list_empty_iff "1.prems"(1) iM
        by (metis not_le option.distinct(1))
      with alloc_take[OF "1.prems"(1) Some _ "1.prems"(2)] iM Some ix show ?thesis
        by (subst (1 2) alloc_scan.simps) (auto simp: Let_def)
    qed
  qed
qed

lemma alloc_heads_insert_frames:
  "alloc_heads {} s' = (alloc_heads {} s)(k := insert i (alloc_heads {} s k)) \<Longrightarrow>
    allocated_frames s' = allocated_frames s \<union> frames i k"
  by (simp add: allocated_frames_def gen_alloc_def heads_frames_insert)

lemma buddy_allocate_post:
  assumes "buddy_inv s"
  shows "alloc_post order s (buddy_allocate order s)"
    and "snd (buddy_allocate order s) = None \<longleftrightarrow>
      (\<forall>k. order \<le> k \<and> k \<le> MAX_ORDER \<longrightarrow> free_heads {} s k = {})"
  using alloc_scan_post[OF assms order_refl, of order]
  by (auto simp: buddy_allocate_def alloc_post_def)

definition free_post :: "nat \<Rightarrow> kmem \<Rightarrow> kmem \<Rightarrow> bool" where
  "free_post b s s' \<longleftrightarrow> (\<exists>k. border s b = int k \<and> buddy_inv s' \<and> frames b k \<subseteq> allocated_frames s \<and>
     free_frames s' = free_frames s \<union> frames b k \<and> b \<in> alloc_heads {} s k \<and>
     alloc_heads {} s' = (alloc_heads {} s)(k := alloc_heads {} s k - {b}) \<and>
     allocated_frames s' = allocated_frames s - frames b k \<and> diag s' = diag s)"

lemma buddy_free_post:
  assumes "buddy_inv s" "b < TOTAL_FRAME" "bst s b = ALLOCATED_FRAME"
  shows "free_post b s (buddy_free b s)"
proof -
  let ?s1 = "upd_frame b (\<lambda>x. x\<lparr>b_status := border s b\<rparr>) s"
  obtain c where c: "border s b = int c" "float_inv b c ?s1" "gen_free {b} ?s1 = free_frames s"
    "b \<in> alloc_heads {} s c" "alloc_heads {b} ?s1 = (alloc_heads {} s)(c := alloc_heads {} s c - {b})"
    "diag ?s1 = diag s"
    using begin_free_step[OF assms] by blast
  obtain c' b' s2 where m: "merge_loop c b ?s1 = (c', b', s2)" by (metis prod_cases3)
  note mi = merge_loop_inv[OF c(2) m]
  have fl: "float_inv b' c' s2" using mi by simp
  note fin = finish_free_step[OF fl]
  have eq: "buddy_free b s = list_push c' b' (upd_frame b' (\<lambda>x. x\<lparr>b_status := int c'\<rparr>) s2)"
    using assms(3) m c(1) by (simp add: buddy_free_def Let_def)
  have "gen_alloc {b} ?s1 \<inter> frames b c = {}" using float_disjoint(2)[OF c(2)] .
  moreover have "gen_alloc {b} ?s1 \<union> frames b c = allocated_frames s"
    using heads_frames_remove[of b "alloc_heads {} s" c] c(4)
    by (simp add: allocated_frames_def gen_alloc_def c(5))
  ultimately have al: "gen_alloc {b} ?s1 = allocated_frames s - frames b c" "frames b c \<subseteq> allocated_frames s"
    by auto
  have "alloc_heads {} (buddy_free b s) = alloc_heads {b} ?s1" using fin(3) mi unfolding eq by metis
  moreover from this have "allocated_frames (buddy_free b s) = gen_alloc {b} ?s1"
    by (simp add: allocated_frames_def gen_alloc_def)
  ultimately show ?thesis
    using fin mi c al unfolding eq free_post_def by (intro exI[of _ c]) simp
qed

section \<open>The free blocks are the maximal aligned free regions\<close>

lemma aligned_nested:
  assumes "2 ^ k dvd (i::nat)" "2 ^ l dvd h" "k \<le> l" "x \<in> frames i k" "x \<in> frames h l"
  shows "frames i k \<subseteq> frames h l"
proof -
  let ?p = "2 ^ k :: nat"
  obtain m where i: "i = ?p * m" using assms(1) by blast
  have "?p dvd h" using assms(2,3) by (rule power_le_dvd)
  then obtain n where h: "h = ?p * n" by blast
  have "?p dvd h + 2 ^ l" using \<open>?p dvd h\<close> assms(3) by (simp add: le_imp_power_dvd)
  then obtain u where u: "h + 2 ^ l = ?p * u" by blast
  have x: "?p * m \<le> x" "x < ?p * Suc m" "?p * n \<le> x" "x < ?p * u"
    using assms(4,5) i h u by (auto simp: frames_def)
  from x(3,2) have "?p * n < ?p * Suc m" by linarith
  then have "n \<le> m" by (simp only: nat_mult_less_cancel_disj) simp
  from x(1,4) have "?p * m < ?p * u" by linarith
  then have "Suc m \<le> u" by (simp only: nat_mult_less_cancel_disj) simp
  have "h \<le> i" using \<open>n \<le> m\<close> i h by simp
  moreover have "i + ?p \<le> h + 2 ^ l"
    using mult_le_mono2[OF \<open>Suc m \<le> u\<close>, of ?p] i u by simp
  ultimately show ?thesis by (auto simp: frames_def)
qed

lemma free_region_in_block:
  assumes inv: "buddy_inv s" and "2 ^ k dvd i" "frames i k \<subseteq> free_frames s" "k \<le> MAX_ORDER"
  shows "\<exists>l h. k \<le> l \<and> h \<in> free_heads {} s l \<and> frames i k \<subseteq> frames h l"
  using assms(2-)
proof (induction k arbitrary: i)
  case 0
  then have "i \<in> free_frames s" by auto
  then obtain l h where "h \<in> free_heads {} s l" "i \<in> frames h l"
    by (auto simp: free_frames_def gen_free_def in_heads_frames)
  then show ?case by (intro exI[of _ l] exI[of _ h]) (auto simp: frames_def)
next
  case (Suc k)
  have sh: "shape_ok {} s" and co: "coalesced {} s"
    using inv by (auto simp: buddy_inv_def gen_inv_def)
  have dvi: "2 ^ k dvd i" using Suc.prems(1) by (rule power_le_dvd) simp
  then have dvj: "2 ^ k dvd i + 2 ^ k" by simp
  have grow: ?case if "Suc k \<le> l" "h \<in> free_heads {} s l" "x \<in> frames i (Suc k)" "x \<in> frames h l" for l h x
  proof -
    have "2 ^ l dvd h" using shape_free_head[OF sh that(2)] by (simp add: block_ok_def)
    from aligned_nested[OF Suc.prems(1) this that(1,3,4)] that(1,2) show ?thesis by blast
  qed
  have same: "h = j" if "h \<in> free_heads {} s k" "2 ^ k dvd j" "frames j k \<subseteq> frames h k" for h j
  proof -
    have "2 ^ k dvd h" using shape_free_head[OF sh that(1)] by (simp add: block_ok_def)
    moreover have "j \<in> frames h k" using that(3) head_in_frames by blast
    ultimately have "frames h k \<subseteq> frames j k"
      using aligned_nested[OF _ that(2) order_refl, of h j] head_in_frames[of j k] by blast
    then have "h \<in> frames j k" using head_in_frames by blast
    with \<open>j \<in> frames h k\<close> show ?thesis by (simp add: frames_def)
  qed
  from Suc.IH[OF dvi] Suc.prems(2,3) obtain l1 h1 where
    1: "k \<le> l1" "h1 \<in> free_heads {} s l1" "frames i k \<subseteq> frames h1 l1"
    by (auto simp: frames_split)
  from Suc.IH[OF dvj] Suc.prems(2,3) obtain l2 h2 where
    2: "k \<le> l2" "h2 \<in> free_heads {} s l2" "frames (i + 2 ^ k) k \<subseteq> frames h2 l2"
    by (auto simp: frames_split)
  consider "Suc k \<le> l1" | "Suc k \<le> l2" | "l1 = k" "l2 = k" using 1(1) 2(1) by linarith
  then show ?case
  proof cases
    assume "Suc k \<le> l1"
    moreover have "i \<in> frames h1 l1" using 1(3) head_in_frames by blast
    ultimately show ?case using grow[of l1 h1 i] 1(2) head_in_frames by blast
  next
    assume "Suc k \<le> l2"
    moreover have "i + 2 ^ k \<in> frames h2 l2" using 2(3) head_in_frames by blast
    moreover have "i + 2 ^ k \<in> frames i (Suc k)" by (simp add: frames_def)
    ultimately show ?case using grow[of l2 h2 "i + 2 ^ k"] 2(2) by blast
  next
    assume "l1 = k" "l2 = k"
    with 1 2 same[OF _ dvi] same[OF _ dvj] have "i \<in> free_heads {} s k" "i + 2 ^ k \<in> free_heads {} s k" by auto
    moreover have "i XOR 2 ^ k = i + 2 ^ k" using buddy_cases_nat[OF dvi] Suc.prems(1) by auto
    moreover have "k < MAX_ORDER" using Suc.prems(3) by simp
    ultimately have False using co unfolding coalesced_def by metis
    then show ?case ..
  qed
qed

text \<open>An aligned region of free frames is enough for an allocation of its size to succeed.\<close>

lemma alloc_complete:
  assumes "buddy_inv s" "2 ^ k dvd i" "frames i k \<subseteq> free_frames s" "k \<le> MAX_ORDER"
  shows "snd (buddy_allocate k s) \<noteq> None"
proof -
  obtain l h where "k \<le> l" "h \<in> free_heads {} s l" using free_region_in_block[OF assms] by blast
  moreover have "l \<le> MAX_ORDER"
    using shape_free_head[of "{}" s h l] calculation assms(1) by (simp add: buddy_inv_def gen_inv_def)
  ultimately show ?thesis using buddy_allocate_post(2)[OF assms(1), of k] by blast
qed

lemma free_heads_subset_canonical:
  assumes s: "buddy_inv s" and t: "buddy_inv t" and fr: "free_frames s = free_frames t"
  shows "free_heads {} s k \<subseteq> free_heads {} t k"
proof
  have shs: "shape_ok {} s" and sht: "shape_ok {} t" using s t by (auto simp: buddy_inv_def gen_inv_def)
  have region: "2 ^ l dvd j \<and> frames j l \<subseteq> free_frames u \<and> l \<le> MAX_ORDER"
    if "buddy_inv u" "j \<in> free_heads {} u l" for u j l
  proof -
    have "frames j l \<subseteq> free_frames u"
      using that(2) in_heads_frames[of _ "free_heads {} u"] unfolding free_frames_def gen_free_def by blast
    with that shape_free_head[of "{}" u j l] show ?thesis
      by (auto simp: buddy_inv_def gen_inv_def block_ok_def)
  qed
  fix i assume i: "i \<in> free_heads {} s k"
  then obtain l h where 1: "k \<le> l" "h \<in> free_heads {} t l" "frames i k \<subseteq> frames h l"
    using free_region_in_block[OF t] region[OF s i] fr by metis
  then obtain m g where 2: "l \<le> m" "g \<in> free_heads {} s m" "frames h l \<subseteq> frames g m"
    using free_region_in_block[OF s] region[OF t 1(2)] fr by metis
  have "i = g"
  proof (rule ccontr)
    assume "i \<noteq> g"
    have "frames i k \<inter> frames g m = {}"
      using shape_free_head[OF shs i] shape_free_head[OF shs 2(2)] \<open>i \<noteq> g\<close>
        free_head_not_belonged[OF i] free_head_not_belonged[OF 2(2)] by (intro blocks_disjoint) auto
    with 1(3) 2(3) head_in_frames[of i k] show False by blast
  qed
  then have "m = k" using i 2(2) by (auto simp: free_heads_def)
  with 1 2 have "l = k" by simp
  have "frames i k \<subseteq> frames h k" "frames h k \<subseteq> frames i k"
    using 1(3) 2(3) \<open>i = g\<close> \<open>m = k\<close> \<open>l = k\<close> by simp_all
  then have "i \<in> frames h k" "h \<in> frames i k" using head_in_frames by blast+
  then have "h = i" by (auto simp: frames_def)
  with 1(2) \<open>l = k\<close> show "i \<in> free_heads {} t k" by simp
qed

lemma free_heads_canonical:
  assumes "buddy_inv s" "buddy_inv t" "free_frames s = free_frames t"
  shows "free_heads {} s k = free_heads {} t k"
  using free_heads_subset_canonical assms by (metis subset_antisym)

section \<open>Counting\<close>

lemma count_list_dll: "dll nxt prv p h xs \<Longrightarrow> count_list nxt h n = Some (n + length xs)"
proof (induction xs arbitrary: p h n)
  case Nil
  then show ?case by (simp add: count_list.simps)
next
  case (Cons x xs)
  then have "count_list nxt h n = count_list nxt (nxt x) (Suc n)"
    by (subst count_list.simps) simp
  with Cons.IH[of "Some x" "nxt x" "Suc n"] Cons.prems show ?case by simp
qed

lemma print_order_count:
  assumes "buddy_inv s"
  shows "print_order k s = Some (card (if k \<le> MAX_ORDER then free_heads {} s k else {}))"
proof (cases "k \<le> MAX_ORDER")
  case True
  with assms obtain xs where xs: "dll (bnxt s) (bprv s) None (free_frame_lists s k) xs"
      "set xs = free_heads {} s k"
    by (auto simp: buddy_inv_def gen_inv_def fl.rep_def)
  then have "length xs = card (free_heads {} s k)"
    using dll_distinct[OF xs(1)] distinct_card by metis
  with count_list_dll[OF xs(1), of 0] True show ?thesis by (simp add: print_order_def)
qed (simp add: print_order_def)

end
