(* ===== verification/Memory_Inv.thy ===== *)
theory Memory_Inv
  imports Memory Buddy_Inv
begin

text \<open>
  Correctness of the rest of the allocator: size rounding, the arithmetic between addresses and
  frame numbers, the bump allocator, and the slab allocator.  \<open>kmem_inv\<close> extends the buddy
  invariant with the slab pages; \<open>live\<close> is the set of slots in use.
\<close>

section \<open>Request sizes\<close>

lemma order_loop_bounds:
  assumes "\<And>j. j < k \<Longrightarrow> 2 ^ j < n"
  shows "n \<le> 2 ^ order_loop n k \<and> (\<forall>j < order_loop n k. 2 ^ j < n)"
  using assms
proof (induction n k rule: order_loop.induct)
  case (1 n k)
  show ?case
  proof (cases "2 ^ k < n")
    case True
    from "1.IH"[OF True] "1.prems" True show ?thesis
      by (subst (1 2) order_loop.simps) (auto simp: less_Suc_eq)
  next
    case False
    with "1.prems" show ?thesis by (subst (1 2) order_loop.simps) auto
  qed
qed

lemma ceil_div_le: "(a + 4095) div 4096 \<le> (b::nat) \<longleftrightarrow> a \<le> 4096 * b"
  by arith

lemma size2order_sum:
  fixes sz :: "32 word"
  assumes "unat sz + 4095 < 2 ^ 32"
  shows "unat (sz + of_nat FRAME_SIZE - 1) = unat sz + 4095"
proof -
  have "sz + of_nat FRAME_SIZE - 1 = sz + 4095" by (simp add: FRAME_SIZE_def)
  with assms show ?thesis by (simp add: unat_word_ariths)
qed

text \<open>The order is the least one whose block holds the request, unless rounding up wraps.\<close>

lemma size2order_least:
  fixes sz :: "32 word"
  assumes "sz \<noteq> 0" "unat sz + 4095 < 2 ^ 32"
  shows "unat sz \<le> FRAME_SIZE * 2 ^ size2order sz"
    and "\<And>j. j < size2order sz \<Longrightarrow> FRAME_SIZE * 2 ^ j < unat sz"
proof -
  let ?n = "(unat sz + 4095) div 4096"
  have e: "size2order sz = order_loop ?n 0"
    using assms size2order_sum[OF assms(2)] by (simp add: size2order_def FRAME_SIZE_def)
  have "?n \<le> 2 ^ order_loop ?n 0" "\<forall>j < order_loop ?n 0. 2 ^ j < ?n"
    using order_loop_bounds[of 0 ?n] by auto
  then show "unat sz \<le> FRAME_SIZE * 2 ^ size2order sz"
    and "\<And>j. j < size2order sz \<Longrightarrow> FRAME_SIZE * 2 ^ j < unat sz"
    using ceil_div_le[of "unat sz"] unfolding e FRAME_SIZE_def by (auto simp: not_le[symmetric])
qed

lemma size2order_wraps:
  fixes sz :: "32 word"
  assumes "2 ^ 32 \<le> unat sz + 4095"
  shows "size2order sz = 0"
proof -
  have lt: "unat sz < 2 ^ 32" using unsigned_less[of sz, where ?'a = nat] by simp
  have "unat (sz + 4095) = (unat sz + 4095) mod 2 ^ 32"
    by (simp add: unat_word_ariths)
  also have "unat sz + 4095 = unat sz + 4095 - 2 ^ 32 + 2 ^ 32" using assms by simp
  also have "\<dots> mod 2 ^ 32 = (unat sz + 4095 - 2 ^ 32) mod 2 ^ 32" by (rule mod_add_self2)
  also have "\<dots> = unat sz + 4095 - 2 ^ 32" by (rule mod_less) (use lt in simp)
  finally have "unat (sz + 4095) < 4096" using lt by simp
  then have "unat (sz + of_nat FRAME_SIZE - 1) div FRAME_SIZE = 0" by (simp add: FRAME_SIZE_def add.commute)
  then show ?thesis by (simp add: size2order_def order_loop.simps)
qed

section \<open>Addresses and frame numbers\<close>

lemma unat_frame_offset:
  assumes "i < TOTAL_FRAME" "d < 4096"
  shows "unat (of_nat i * 4096 + of_nat d :: 64 word) = i * 4096 + d"
proof -
  have "of_nat i * 4096 + of_nat d = (of_nat (i * 4096 + d) :: 64 word)" by simp
  moreover have "i * 4096 + d < 2 ^ 64" using assms by (simp add: TOTAL_FRAME_def)
  ultimately show ?thesis by (simp only: unsigned_of_nat) (simp add: take_bit_nat_eq_self)
qed

lemma address2index_inside:
  assumes "i < TOTAL_FRAME" "d < 4096"
  shows "int_of_ulong (address2index (index2address (of_nat i) + of_nat d)) = int i"
proof -
  have "address2index (index2address (of_nat i) + of_nat d) = (of_nat i * 4096 + of_nat d) div 4096"
    by (simp add: address2index_def index2address_def FRAME_SIZE_def algebra_simps)
  moreover have "unat ((of_nat i * 4096 + of_nat d :: 64 word) div 4096) = i"
    using unat_frame_offset[OF assms] assms(2) by (simp add: unat_div)
  ultimately have u: "unat (address2index (index2address (of_nat i) + of_nat d)) = i" by simp
  then have "address2index (index2address (of_nat i) + of_nat d) = of_nat i"
    by (metis of_nat_unat ucast_id)
  moreover have "sint (ucast (of_nat i :: 64 word) :: 32 word) = int i"
  proof -
    have "i < 2 ^ 64" using assms(1) by (simp add: TOTAL_FRAME_def)
    then have "ucast (of_nat i :: 64 word) = (of_nat i :: 32 word)"
      by (simp add: unsigned_of_nat take_bit_nat_eq_self)
    moreover have "sint (of_nat i :: 32 word) = int i"
      using assms(1) by (simp add: sint_uint TOTAL_FRAME_def unsigned_of_nat take_bit_nat_eq_self
          signed_of_nat signed_take_bit_int_eq_self)
    ultimately show ?thesis by simp
  qed
  ultimately show ?thesis by (simp add: int_of_ulong_def)
qed

lemma address2index_base:
  "i < TOTAL_FRAME \<Longrightarrow> int_of_ulong (address2index (index2address (of_nat i))) = int i"
  using address2index_inside[of i 0] by simp

section \<open>The buddy system leaves the slab fields alone\<close>

definition slab_view ::
  "kmem \<Rightarrow> (nat \<Rightarrow> slab_t) \<times> (nat \<Rightarrow> nat ptr) \<times> (nat \<Rightarrow> nat ptr) \<times> (nat \<Rightarrow> bool)" where
  "slab_view s = (slab_frame_array s, slab_start_list s,
     \<lambda>i. b_slab_ptr (buddy_frame_array s i), \<lambda>i. b_is_slab_page (buddy_frame_array s i))"

lemma slab_viewD:
  assumes "slab_view s = slab_view t"
  shows "slab_frame_array s = slab_frame_array t" "slab_start_list s = slab_start_list t"
    "b_slab_ptr (buddy_frame_array s i) = b_slab_ptr (buddy_frame_array t i)"
    "b_is_slab_page (buddy_frame_array s i) = b_is_slab_page (buddy_frame_array t i)"
  using assms by (auto simp: slab_view_def fun_eq_iff)

lemma slab_view_steps [simp]:
  "slab_view (list_push k i s) = slab_view s" "slab_view (list_pop k i s) = slab_view s"
  "slab_view (list_unlink k i s) = slab_view s" "slab_view (retire_frame i s) = slab_view s"
  "slab_view (report m s) = slab_view s"
  by (auto simp: slab_view_def retire_frame_def)

lemma slab_view_upd [simp]:
  assumes "\<And>b. b_slab_ptr (f b) = b_slab_ptr b" "\<And>b. b_is_slab_page (f b) = b_is_slab_page b"
  shows "slab_view (upd_frame i f s) = slab_view s"
  using assms by (auto simp: slab_view_def)

lemma slab_view_split [simp]: "slab_view (split_loop order b c s) = slab_view s"
  by (induction c arbitrary: s) (simp_all add: Let_def)

lemma slab_view_alloc [simp]: "slab_view (fst (buddy_allocate order s)) = slab_view s"
proof -
  have "slab_view (fst (alloc_scan order i s)) = slab_view s" for i
    by (induction order i s rule: alloc_scan.induct)
      (subst alloc_scan.simps, auto simp: Let_def split: option.splits)
  then show ?thesis by (simp add: buddy_allocate_def)
qed

lemma slab_view_merge: "merge_loop c b s = (c', b', s') \<Longrightarrow> slab_view s' = slab_view s"
proof (induction c b s rule: merge_loop.induct)
  case (1 c b s)
  show ?case
  proof (cases "c < MAX_ORDER \<and> b XOR 2 ^ c < TOTAL_FRAME \<and> bst s (b XOR 2 ^ c) = int c")
    case True
    then show ?thesis
      using "1.IH"[OF refl _ refl] "1.prems"
      by (subst (asm) (3) merge_loop.simps) (simp add: Let_def split: if_splits)
  next
    case False
    with "1.prems" show ?thesis by (subst (asm) merge_loop.simps) (auto simp: Let_def)
  qed
qed

lemma slab_view_free [simp]: "slab_view (buddy_free b s) = slab_view s"
  by (auto simp: buddy_free_def Let_def dest: slab_view_merge split: prod.splits)

section \<open>Slots of a page\<close>

lemma slot_used_bit: "slot_used p i \<longleftrightarrow> bit (s_bitmap p (i div 8)) (i mod 8)"
  by (simp add: slot_used_def push_bit_eq_mult and_exp_eq_0_iff_not_bit)

lemma div_mod_8: "i div 8 = j div 8 \<Longrightarrow> i mod 8 = j mod (8::nat) \<Longrightarrow> i = j"
  by (metis div_mult_mod_eq)

lemma slot_used_set [simp]: "slot_used (set_slot i p) j \<longleftrightarrow> j = i \<or> slot_used p j"
proof -
  have "i mod 8 < LENGTH(8)" by simp
  then show ?thesis
    by (auto simp: slot_used_bit set_slot_def bit_or_iff bit_exp_iff dest: div_mod_8)
qed

lemma slot_used_clear [simp]: "slot_used (clear_slot i p) j \<longleftrightarrow> j \<noteq> i \<and> slot_used p j"
proof -
  have "i mod 8 < LENGTH(8)" "j mod 8 < LENGTH(8)" by simp_all
  then show ?thesis
    by (auto simp: slot_used_bit clear_slot_def bit_and_iff bit_not_iff bit_exp_iff
        dest: div_mod_8)
qed

lemma set_slot_sel [simp]:
  "s_available (set_slot i p) = s_available p" "s_slab_type (set_slot i p) = s_slab_type p"
  "s_slab_size (set_slot i p) = s_slab_size p" "s_start_address (set_slot i p) = s_start_address p"
  "s_total_slabs (set_slot i p) = s_total_slabs p" "s_free_slabs (set_slot i p) = s_free_slabs p"
  "s_next (set_slot i p) = s_next p" "s_prev (set_slot i p) = s_prev p"
  by (simp_all add: set_slot_def)

lemma clear_slot_sel [simp]:
  "s_available (clear_slot i p) = s_available p" "s_slab_type (clear_slot i p) = s_slab_type p"
  "s_slab_size (clear_slot i p) = s_slab_size p" "s_start_address (clear_slot i p) = s_start_address p"
  "s_total_slabs (clear_slot i p) = s_total_slabs p" "s_free_slabs (clear_slot i p) = s_free_slabs p"
  "s_next (clear_slot i p) = s_next p" "s_prev (clear_slot i p) = s_prev p"
  by (simp_all add: clear_slot_def)

lemma slot_used_upd [simp]:
  "slot_used (p\<lparr>s_free_slabs := n\<rparr>) = slot_used p" "slot_used (p\<lparr>s_next := q\<rparr>) = slot_used p"
  "slot_used (p\<lparr>s_prev := q\<rparr>) = slot_used p"
  by (simp_all add: fun_eq_iff slot_used_def)

section \<open>Size classes\<close>

definition nslots :: "nat \<Rightarrow> nat" where "nslots t = FRAME_SIZE div slab_sizes ! t"

lemma class_table:
  assumes "t < 9"
  shows "slab_sizes ! t * nslots t = 4096 \<and> 8 \<le> slab_sizes ! t \<and> 2 \<le> nslots t \<and> nslots t \<le> 512"
proof -
  from assms have "t = 0 \<or> t = 1 \<or> t = 2 \<or> t = 3 \<or> t = 4 \<or> t = 5 \<or> t = 6 \<or> t = 7 \<or> t = 8"
    by linarith
  then show ?thesis by (elim disjE) (simp_all add: nslots_def FRAME_SIZE_def slab_sizes_def)
qed

lemma slab_class_Some:
  assumes "slab_class n = Some t"
  shows "t < 9 \<and> n \<le> slab_sizes ! t \<and> (\<forall>j < t. slab_sizes ! j < n)"
proof -
  from assms obtain i where i: "i < 10" "[0..<10] ! i = t" "n \<le> slab_sizes ! t"
    "\<forall>j < i. \<not> n \<le> slab_sizes ! ([0..<10] ! j)"
    by (auto simp: slab_class_def find_Some_iff SLAB_TYPE_def)
  then have t: "t < 10" "n \<le> slab_sizes ! t" "\<forall>j < t. slab_sizes ! j < n" by (auto simp: not_le)
  have "t \<noteq> 9"
  proof
    assume "t = 9"
    with t(2) have "n = 0" by (simp add: slab_sizes_def)
    with t(3) \<open>t = 9\<close> show False by (auto dest: spec[of _ 0])
  qed
  with t show ?thesis by auto
qed

lemma slab_class_fits: "n \<le> 2048 \<Longrightarrow> \<exists>t. slab_class n = Some t"
proof (rule ccontr)
  assume n: "n \<le> 2048" and "\<nexists>t. slab_class n = Some t"
  then have "slab_class n = None" by auto
  then have "\<forall>i < 10. \<not> n \<le> slab_sizes ! i"
    by (auto simp: slab_class_def find_None_iff SLAB_TYPE_def)
  then have "\<not> n \<le> slab_sizes ! 8" by simp
  with n show False by (simp add: slab_sizes_def)
qed

lemma slab_class_large:
  assumes "2048 < n"
  shows "slab_class n = None"
proof -
  have "\<not> n \<le> slab_sizes ! i" if "i < 10" for i
  proof -
    have "\<forall>x \<in> set slab_sizes. \<not> n \<le> x" using assms by (simp add: slab_sizes_def)
    moreover have "slab_sizes ! i \<in> set slab_sizes" using that by (simp add: slab_sizes_def del: list.set)
    ultimately show ?thesis by blast
  qed
  then show ?thesis by (auto simp: slab_class_def find_None_iff SLAB_TYPE_def)
qed

end
