(* ===== verification/Slab_Inv.thy ===== *)
theory Slab_Inv
  imports Memory_Inv
begin

text \<open>
  The slab allocator: every page on a class list is an allocated frame of the buddy system whose
  counters agree with its bitmap, and \<open>slab_allocate\<close> / \<open>slab_free\<close> add one unused slot to and
  remove one used slot from the set \<open>live\<close> of slots in use.  The allocator's whole invariant is
  \<open>kmem_inv\<close>; the last section lifts it to \<open>kmalloc\<close> and \<open>kfree\<close>.
\<close>

section \<open>The class lists\<close>

lemma slab_push_sel [simp]:
  "slab_start_list (slab_push t p s) = (slab_start_list s)(t := Some p)"
  "buddy_frame_array (slab_push t p s) = buddy_frame_array s"
  "free_frame_lists (slab_push t p s) = free_frame_lists s" "diag (slab_push t p s) = diag s"
  "s_available (slab_frame_array (slab_push t p s) x) = s_available (slab_frame_array s x)"
  "s_slab_type (slab_frame_array (slab_push t p s) x) = s_slab_type (slab_frame_array s x)"
  "s_slab_size (slab_frame_array (slab_push t p s) x) = s_slab_size (slab_frame_array s x)"
  "s_start_address (slab_frame_array (slab_push t p s) x) = s_start_address (slab_frame_array s x)"
  "s_total_slabs (slab_frame_array (slab_push t p s) x) = s_total_slabs (slab_frame_array s x)"
  "s_free_slabs (slab_frame_array (slab_push t p s) x) = s_free_slabs (slab_frame_array s x)"
  "slot_used (slab_frame_array (slab_push t p s) x) = slot_used (slab_frame_array s x)"
  by (auto simp: slab_push_def Let_def slot_used_def fun_eq_iff split: option.splits)

lemma slab_unlink_sel [simp]:
  "buddy_frame_array (slab_unlink t p s) = buddy_frame_array s"
  "free_frame_lists (slab_unlink t p s) = free_frame_lists s" "diag (slab_unlink t p s) = diag s"
  "s_available (slab_frame_array (slab_unlink t p s) x) = s_available (slab_frame_array s x)"
  "s_slab_type (slab_frame_array (slab_unlink t p s) x) = s_slab_type (slab_frame_array s x)"
  "s_slab_size (slab_frame_array (slab_unlink t p s) x) = s_slab_size (slab_frame_array s x)"
  "s_start_address (slab_frame_array (slab_unlink t p s) x) = s_start_address (slab_frame_array s x)"
  "s_total_slabs (slab_frame_array (slab_unlink t p s) x) = s_total_slabs (slab_frame_array s x)"
  "s_free_slabs (slab_frame_array (slab_unlink t p s) x) = s_free_slabs (slab_frame_array s x)"
  "slot_used (slab_frame_array (slab_unlink t p s) x) = slot_used (slab_frame_array s x)"
  by (auto simp: slab_unlink_def Let_def slot_used_def fun_eq_iff split: option.splits)

interpretation sl: ilist "\<lambda>s i. s_next (slab_frame_array s i)" "\<lambda>s i. s_prev (slab_frame_array s i)"
  slab_start_list slab_push slab_unlink
  by unfold_locales (auto simp: slab_push_def slab_unlink_def Let_def split: option.splits)

section \<open>The invariant\<close>

definition used_slots :: "kmem \<Rightarrow> nat \<Rightarrow> nat \<Rightarrow> nat set" where
  "used_slots s p t = {i. i < nslots t \<and> slot_used (slab_frame_array s p) i}"

definition page_ok :: "kmem \<Rightarrow> nat \<Rightarrow> nat \<Rightarrow> bool" where
  "page_ok s p t \<longleftrightarrow> (let q = slab_frame_array s p in
     t < 9 \<and> s_slab_type q = int t \<and> s_slab_size q = int (slab_sizes ! t) \<and>
     s_start_address q = index2address (of_nat p) \<and> s_total_slabs q = int (nslots t) \<and>
     s_free_slabs q = int (nslots t) - int (card (used_slots s p t)) \<and> used_slots s p t \<noteq> {} \<and>
     b_slab_ptr (buddy_frame_array s p) = Some p \<and> p \<in> alloc_heads {} s 0)"

definition slab_pages :: "kmem \<Rightarrow> nat \<Rightarrow> nat set" where
  "slab_pages s t = {p. p < TOTAL_FRAME \<and> s_available (slab_frame_array s p) = 0 \<and>
     s_slab_type (slab_frame_array s p) = int t}"

text \<open>A frame is a page in order, or marked free for use as one.\<close>

definition frame_ok :: "kmem \<Rightarrow> nat \<Rightarrow> bool" where
  "frame_ok s p \<longleftrightarrow>
     (b_is_slab_page (buddy_frame_array s p) \<longleftrightarrow> s_available (slab_frame_array s p) = 0) \<and>
     (if s_available (slab_frame_array s p) = 0
      then page_ok s p (nat (s_slab_type (slab_frame_array s p)))
      else s_available (slab_frame_array s p) = 1 \<and> s_slab_size (slab_frame_array s p) = -1)"

definition pages_ok :: "kmem \<Rightarrow> bool" where
  "pages_ok s \<longleftrightarrow> (\<forall>p < TOTAL_FRAME. frame_ok s p)"

definition kmem_inv :: "kmem \<Rightarrow> bool" where
  "kmem_inv s \<longleftrightarrow> buddy_inv s \<and> sl.rep 8 s (slab_pages s) \<and> pages_ok s"

definition live :: "kmem \<Rightarrow> (nat \<times> nat) set" where
  "live s = {(p, i). p < TOTAL_FRAME \<and> s_available (slab_frame_array s p) = 0 \<and>
     int i < s_total_slabs (slab_frame_array s p) \<and> slot_used (slab_frame_array s p) i}"

text \<open>The address of a slot of a page.\<close>

definition slot_address :: "kmem \<Rightarrow> nat \<times> nat \<Rightarrow> 64 word" where
  "slot_address s = (\<lambda>(p, i). index2address (of_nat p) +
     of_nat (i * nat (s_slab_size (slab_frame_array s p))))"

lemma slab_pages_disjoint: "k \<noteq> l \<Longrightarrow> slab_pages s k \<inter> slab_pages s l = {}"
  by (auto simp: slab_pages_def)

text \<open>What the invariant says of a live page.\<close>

lemma page_okD:
  assumes "page_ok s p t"
  shows "t < 9" "s_slab_type (slab_frame_array s p) = int t"
    "s_slab_size (slab_frame_array s p) = int (slab_sizes ! t)"
    "s_start_address (slab_frame_array s p) = index2address (of_nat p)"
    "s_total_slabs (slab_frame_array s p) = int (nslots t)"
    "s_free_slabs (slab_frame_array s p) = int (nslots t) - int (card (used_slots s p t))"
    "used_slots s p t \<noteq> {}" "b_slab_ptr (buddy_frame_array s p) = Some p"
    "p \<in> alloc_heads {} s 0"
  using assms by (auto simp: page_ok_def Let_def)

lemma pages_okD:
  assumes "pages_ok s" "p < TOTAL_FRAME" "s_available (slab_frame_array s p) = 0"
  obtains t where "page_ok s p t" "p \<in> slab_pages s t" "t \<le> 8"
proof -
  let ?t = "nat (s_slab_type (slab_frame_array s p))"
  from assms have ok: "page_ok s p ?t" by (simp add: pages_ok_def frame_ok_def)
  show thesis
  proof (rule that[OF ok])
    show "p \<in> slab_pages s ?t" using assms(2,3) page_okD(2)[OF ok] by (simp add: slab_pages_def)
    show "?t \<le> 8" using page_okD(1)[OF ok] by simp
  qed
qed

lemma used_slots_finite [simp]: "finite (used_slots s p t)"
  by (simp add: used_slots_def)

lemma card_used_le: "card (used_slots s p t) \<le> nslots t"
proof -
  have "card (used_slots s p t) \<le> card {i. i < nslots t}"
    by (rule card_mono) (auto simp: used_slots_def)
  then show ?thesis by simp
qed

section \<open>What the buddy invariant depends on\<close>

definition core :: "kmem \<Rightarrow> (nat \<Rightarrow> int \<times> nat \<times> nat ptr \<times> nat ptr \<times> int) \<times> (nat \<Rightarrow> nat ptr)" where
  "core s = (\<lambda>i. (bst s i, b_index (buddy_frame_array s i), bnxt s i, bprv s i, border s i),
     free_frame_lists s)"

lemma core_cong:
  assumes "core s = core t"
  shows "buddy_inv s = buddy_inv t" "alloc_heads X s = alloc_heads X t" "free_frames s = free_frames t"
    "free_heads X s = free_heads X t" "allocated_frames s = allocated_frames t"
proof -
  have f: "bst s i = bst t i" "b_index (buddy_frame_array s i) = b_index (buddy_frame_array t i)"
    "b_next (buddy_frame_array s i) = b_next (buddy_frame_array t i)"
    "b_prev (buddy_frame_array s i) = b_prev (buddy_frame_array t i)"
    "border s i = border t i" "free_frame_lists s = free_frame_lists t" for i
    using assms by (auto simp: core_def fun_eq_iff)
  show fh: "free_heads X s = free_heads X t" for X by (simp add: free_heads_def fun_eq_iff f)
  show ah: "alloc_heads X s = alloc_heads X t" for X by (simp add: alloc_heads_def fun_eq_iff f)
  show "free_frames s = free_frames t" by (simp add: free_frames_def gen_free_def fh)
  show "allocated_frames s = allocated_frames t" by (simp add: allocated_frames_def gen_alloc_def ah)
  show "buddy_inv s = buddy_inv t"
    by (simp add: buddy_inv_def gen_inv_def shape_ok_def fl.rep_def coalesced_def block_at_def
        block_ok_def fh f)
qed

lemma core_upd_slab [simp]: "core (upd_slab i f s) = core s"
  by (simp add: core_def)

lemma core_slab_push [simp]: "core (slab_push t p s) = core s"
  by (simp add: core_def)

lemma core_slab_unlink [simp]: "core (slab_unlink t p s) = core s"
  by (simp add: core_def)

lemma core_report [simp]: "core (report m s) = core s"
  by (simp add: core_def)

lemma core_upd_frame [simp]:
  assumes "\<And>b. b_status (f b) = b_status b" "\<And>b. b_index (f b) = b_index b"
    "\<And>b. b_next (f b) = b_next b" "\<And>b. b_prev (f b) = b_prev b"
    "\<And>b. b_allocated_order (f b) = b_allocated_order b"
  shows "core (upd_frame i f s) = core s"
  using assms by (auto simp: core_def fun_eq_iff)

section \<open>Finding a slot\<close>

lemma first_free_Some:
  "first_free p = Some i \<Longrightarrow> int i < s_total_slabs p \<and> \<not> slot_used p i"
  by (auto simp: first_free_def find_Some_iff)

lemma first_free_exists:
  "i < nat (s_total_slabs p) \<Longrightarrow> \<not> slot_used p i \<Longrightarrow> \<exists>j. first_free p = Some j"
  by (cases "first_free p") (auto simp: first_free_def find_None_iff)

lemma find_slot_dll:
  assumes "dll (\<lambda>i. s_next (a i)) prv q h xs"
  shows "(\<exists>p i. find_slot a h = Some (Some (p, i)) \<and> p \<in> set xs \<and> first_free (a p) = Some i) \<or>
    (find_slot a h = Some None \<and> (\<forall>p \<in> set xs. s_free_slabs (a p) > 0 \<longrightarrow> first_free (a p) = None))"
  using assms
proof (induction xs arbitrary: q h)
  case Nil
  then show ?case by (simp add: find_slot.simps)
next
  case (Cons x xs)
  then have h: "h = Some x" and d: "dll (\<lambda>i. s_next (a i)) prv (Some x) (s_next (a x)) xs" by auto
  show ?case
  proof (cases "s_free_slabs (a x) > 0 \<and> first_free (a x) \<noteq> None")
    case True
    with h show ?thesis by (subst (1 2) find_slot.simps) auto
  next
    case False
    with h have eq: "find_slot a h = find_slot a (s_next (a x))"
      by (subst find_slot.simps) auto
    from Cons.IH[OF d] False show ?thesis unfolding eq by auto
  qed
qed

end
