(* ===== verification/Slab_Ops.thy ===== *)
theory Slab_Ops
  imports Slab_Inv
begin

text \<open>
  \<open>slab_allocate\<close> and \<open>slab_free\<close> under the allocator's invariant: the walk over a class list
  ends, a successful allocation adds one slot to \<open>live\<close> and returns its address, and freeing the
  address of a live slot takes it away again, giving the page back to the buddy system when it
  was the last one.
\<close>

section \<open>Changing the slots of one page\<close>

lemma page_ok_cong:
  assumes "page_ok s p t"
    and "slab_frame_array s' p = slab_frame_array s p"
    and "b_slab_ptr (buddy_frame_array s' p) = b_slab_ptr (buddy_frame_array s p)"
    and "p \<in> alloc_heads {} s 0 \<Longrightarrow> p \<in> alloc_heads {} s' 0"
  shows "page_ok s' p t"
  using assms by (simp add: page_ok_def used_slots_def Let_def)

text \<open>As above when only the links of the page changed.\<close>

lemma page_ok_links:
  assumes "page_ok s p t"
    and "s_slab_type (slab_frame_array s' p) = s_slab_type (slab_frame_array s p)"
      "s_slab_size (slab_frame_array s' p) = s_slab_size (slab_frame_array s p)"
      "s_start_address (slab_frame_array s' p) = s_start_address (slab_frame_array s p)"
      "s_total_slabs (slab_frame_array s' p) = s_total_slabs (slab_frame_array s p)"
      "s_free_slabs (slab_frame_array s' p) = s_free_slabs (slab_frame_array s p)"
      "slot_used (slab_frame_array s' p) = slot_used (slab_frame_array s p)"
    and "b_slab_ptr (buddy_frame_array s' p) = b_slab_ptr (buddy_frame_array s p)"
    and "p \<in> alloc_heads {} s 0 \<Longrightarrow> p \<in> alloc_heads {} s' 0"
  shows "page_ok s' p t"
  using assms by (simp add: page_ok_def used_slots_def Let_def)

lemma frame_ok_other:
  assumes "frame_ok s p" "slab_frame_array s' p = slab_frame_array s p"
    "b_slab_ptr (buddy_frame_array s' p) = b_slab_ptr (buddy_frame_array s p)"
    "b_is_slab_page (buddy_frame_array s' p) = b_is_slab_page (buddy_frame_array s p)"
    "p \<in> alloc_heads {} s 0 \<Longrightarrow> p \<in> alloc_heads {} s' 0"
  shows "frame_ok s' p"
  using assms page_ok_cong[of s p _ s'] by (auto simp: frame_ok_def)

lemma kmem_inv_upd_page:
  assumes inv: "kmem_inv s" and p: "p < TOTAL_FRAME" "s_available (slab_frame_array s p) = 0"
    and keep: "\<And>q. s_available (f q) = s_available q" "\<And>q. s_slab_type (f q) = s_slab_type q"
      "\<And>q. s_next (f q) = s_next q" "\<And>q. s_prev (f q) = s_prev q"
    and ok: "page_ok (upd_slab p f s) p t"
  shows "kmem_inv (upd_slab p f s)"
proof -
  let ?s = "upd_slab p f s"
  have c: "core ?s = core s" by simp
  have sp: "slab_pages ?s k = slab_pages s k" for k
    by (auto simp: slab_pages_def keep)
  have "sl.rep 8 ?s (slab_pages ?s)"
    using inv unfolding kmem_inv_def by (elim conjE, elim sl.rep_frame) (auto simp: sp keep)
  moreover have "frame_ok ?s x" if x: "x < TOTAL_FRAME" for x
  proof (cases "x = p")
    case True
    have "page_ok ?s p (nat (s_slab_type (slab_frame_array ?s p)))" using page_okD(2)[OF ok] ok by simp
    moreover have "b_is_slab_page (buddy_frame_array ?s p)"
      using inv p by (simp add: kmem_inv_def pages_ok_def frame_ok_def)
    moreover have "s_available (slab_frame_array ?s p) = 0" using p(2) keep(1) by simp
    ultimately show ?thesis unfolding True frame_ok_def by (simp only: if_True simp_thms)
  next
    case False
    show ?thesis
    proof (rule frame_ok_other)
      show "frame_ok s x" using inv x by (simp add: kmem_inv_def pages_ok_def)
      show "x \<in> alloc_heads {} ?s 0" if "x \<in> alloc_heads {} s 0" using that core_cong(2)[OF c] by simp
    qed (use False in simp_all)
  qed
  ultimately show ?thesis
    using inv core_cong(1)[OF c] by (simp add: kmem_inv_def pages_ok_def)
qed

lemma page_of_class:
  assumes "kmem_inv s" "p \<in> slab_pages s t"
  shows "page_ok s p t" "p < TOTAL_FRAME" "s_available (slab_frame_array s p) = 0"
  using assms by (auto simp: kmem_inv_def pages_ok_def frame_ok_def slab_pages_def)

lemma page_alloc_head:
  assumes "page_ok s p t"
  shows "p < TOTAL_FRAME" "bst s p = ALLOCATED_FRAME" "border s p = 0" "p \<in> allocated_frames s"
proof -
  have h: "p \<in> alloc_heads {} s 0" using page_okD(9)[OF assms] .
  then show "p < TOTAL_FRAME" "bst s p = ALLOCATED_FRAME" "border s p = 0"
    by (simp_all add: alloc_heads_def)
  from h show "p \<in> allocated_frames s"
    unfolding allocated_frames_def gen_alloc_def in_heads_frames using head_in_frames by blast
qed

lemma live_page:
  assumes "kmem_inv s" "(p, i) \<in> live s"
  obtains t where "page_ok s p t" "p \<in> slab_pages s t" "i \<in> used_slots s p t" "p < TOTAL_FRAME"
    "s_available (slab_frame_array s p) = 0"
proof -
  from assms(2) have p: "p < TOTAL_FRAME" "s_available (slab_frame_array s p) = 0"
    "int i < s_total_slabs (slab_frame_array s p)" "slot_used (slab_frame_array s p) i"
    by (auto simp: live_def)
  from assms(1) p obtain t where t: "page_ok s p t" "p \<in> slab_pages s t"
    unfolding kmem_inv_def by (meson pages_okD)
  with p that show thesis using page_okD(5)[OF t(1)] by (auto simp: used_slots_def)
qed

text \<open>The heads of allocated blocks that are not slab pages, and the sizes of the slots in use, stay.\<close>

definition plain_heads :: "kmem \<Rightarrow> nat \<Rightarrow> nat set" where
  "plain_heads s k = {b \<in> alloc_heads {} s k. \<not> b_is_slab_page (buddy_frame_array s b)}"

definition rest_same :: "kmem \<Rightarrow> kmem \<Rightarrow> bool" where
  "rest_same s s' \<longleftrightarrow> plain_heads s' = plain_heads s \<and>
     (\<forall>p i. (p, i) \<in> live s \<and> (p, i) \<in> live s' \<longrightarrow> s_slab_size (slab_frame_array s' p) = s_slab_size (slab_frame_array s p))"

lemma rest_same_core:
  assumes "core s' = core s" "\<And>x. b_is_slab_page (buddy_frame_array s' x) = b_is_slab_page (buddy_frame_array s x)"
    "\<And>x. s_slab_size (slab_frame_array s' x) = s_slab_size (slab_frame_array s x)"
  shows "rest_same s s'"
  using assms core_cong(2)[OF assms(1)] by (simp add: rest_same_def plain_heads_def fun_eq_iff)

lemma free_frame_no_head:
  assumes "buddy_inv s" "b \<in> free_frames s"
  shows "b \<notin> alloc_heads {} s k"
proof
  assume "b \<in> alloc_heads {} s k"
  then have "b \<in> allocated_frames s"
    unfolding allocated_frames_def gen_alloc_def in_heads_frames using head_in_frames by blast
  then show False using assms free_alloc_disjoint by blast
qed

section \<open>Allocation\<close>

definition slab_post :: "nat \<Rightarrow> kmem \<Rightarrow> kmem \<times> 64 word \<Rightarrow> bool" where
  "slab_post sz s r \<longleftrightarrow> (case r of (s', a) \<Rightarrow> kmem_inv s' \<and>
     ((a = -1 \<and> live s' = live s \<and> s' = report Allocate_fail s \<and> free_frames s = {}) \<or>
      (\<exists>p i. (p, i) \<notin> live s \<and> live s' = insert (p, i) (live s) \<and> a = slot_address s' (p, i) \<and>
         int sz \<le> s_slab_size (slab_frame_array s' p) \<and> diag s' = diag s \<and>
         allocated_frames s' = allocated_frames s \<union> {p} \<and> rest_same s s')))"

lemma slab_postI:
  assumes "kmem_inv s'" "(p, i) \<notin> live s" "live s' = insert (p, i) (live s)" "a = slot_address s' (p, i)"
    "int sz \<le> s_slab_size (slab_frame_array s' p)" "diag s' = diag s"
    "allocated_frames s' = allocated_frames s \<union> {p}" "rest_same s s'"
  shows "slab_post sz s (s', a)"
  unfolding slab_post_def using assms by blast

lemma take_slot_post:
  assumes inv: "kmem_inv s" and p: "p \<in> slab_pages s t" and i: "first_free (slab_frame_array s p) = Some i"
    and sz: "sz \<le> slab_sizes ! t"
  shows "slab_post sz s (upd_slab p (\<lambda>q. (set_slot i q)\<lparr>s_free_slabs := s_free_slabs q - 1\<rparr>) s,
    s_start_address (slab_frame_array s p) + of_nat (i * slab_sizes ! t))"
proof -
  note pg = page_of_class[OF inv p]
  note d = page_okD[OF pg(1)]
  let ?s = "upd_slab p (\<lambda>q. (set_slot i q)\<lparr>s_free_slabs := s_free_slabs q - 1\<rparr>) s"
  have c: "core ?s = core s" by simp
  from first_free_Some[OF i] d(5) have i': "i < nslots t" "\<not> slot_used (slab_frame_array s p) i" by auto
  then have us: "used_slots ?s p t = insert i (used_slots s p t)" "i \<notin> used_slots s p t"
    by (auto simp: used_slots_def)
  have "page_ok ?s p t"
    using d us core_cong(2)[OF c] by (simp add: page_ok_def Let_def)
  with inv pg have "kmem_inv ?s" by (intro kmem_inv_upd_page) auto
  moreover have "live ?s = insert (p, i) (live s)"
  proof -
    have "(x, j) \<in> live ?s \<longleftrightarrow> (x, j) = (p, i) \<or> (x, j) \<in> live s" for x j
      using i' pg d(5) by (cases "x = p") (auto simp: live_def)
    then show ?thesis by auto
  qed
  moreover have "(p, i) \<notin> live s" using i' by (simp add: live_def)
  moreover have "allocated_frames ?s = allocated_frames s \<union> {p}"
    using core_cong(5)[OF c] page_alloc_head(4)[OF pg(1)] by auto
  moreover have "s_start_address (slab_frame_array s p) + of_nat (i * slab_sizes ! t) = slot_address ?s (p, i)"
    using d(3,4) by (simp add: slot_address_def)
  moreover have "int sz \<le> s_slab_size (slab_frame_array ?s p)" "diag ?s = diag s"
    using d(3) sz by simp_all
  moreover have "rest_same s ?s" by (rule rest_same_core) simp_all
  ultimately show ?thesis by (intro slab_postI)
qed

text \<open>A frame the buddy system hands out carries no page.\<close>

lemma free_frame_no_page:
  assumes inv: "kmem_inv s" and b: "b < TOTAL_FRAME" "b \<in> free_frames s"
  shows "s_available (slab_frame_array s b) = 1" "s_slab_size (slab_frame_array s b) = -1"
    "\<not> b_is_slab_page (buddy_frame_array s b)" "b \<notin> slab_pages s t"
proof -
  have "s_available (slab_frame_array s b) \<noteq> 0"
  proof
    assume "s_available (slab_frame_array s b) = 0"
    with inv b(1) obtain t where "page_ok s b t" unfolding kmem_inv_def by (meson pages_okD)
    then have "b \<in> allocated_frames s" by (rule page_alloc_head)
    moreover have "free_frames s \<inter> allocated_frames s = {}"
      using inv free_alloc_disjoint by (simp add: kmem_inv_def)
    ultimately show False using b(2) by blast
  qed
  moreover have "frame_ok s b" using inv b(1) by (simp add: kmem_inv_def pages_ok_def)
  ultimately show "s_available (slab_frame_array s b) = 1" "s_slab_size (slab_frame_array s b) = -1"
    "\<not> b_is_slab_page (buddy_frame_array s b)" "b \<notin> slab_pages s t"
    by (auto simp: frame_ok_def slab_pages_def)
qed

lemma page_ok_other_links:
  assumes "frame_ok s p"
    and "s_available (slab_frame_array s' p) = s_available (slab_frame_array s p)"
      "s_slab_type (slab_frame_array s' p) = s_slab_type (slab_frame_array s p)"
      "s_slab_size (slab_frame_array s' p) = s_slab_size (slab_frame_array s p)"
      "s_start_address (slab_frame_array s' p) = s_start_address (slab_frame_array s p)"
      "s_total_slabs (slab_frame_array s' p) = s_total_slabs (slab_frame_array s p)"
      "s_free_slabs (slab_frame_array s' p) = s_free_slabs (slab_frame_array s p)"
      "slot_used (slab_frame_array s' p) = slot_used (slab_frame_array s p)"
    and "b_slab_ptr (buddy_frame_array s' p) = b_slab_ptr (buddy_frame_array s p)"
      "b_is_slab_page (buddy_frame_array s' p) = b_is_slab_page (buddy_frame_array s p)"
    and "s_available (slab_frame_array s p) = 0 \<Longrightarrow> p \<in> alloc_heads {} s 0 \<Longrightarrow> p \<in> alloc_heads {} s' 0"
  shows "frame_ok s' p"
proof (cases "s_available (slab_frame_array s p) = 0")
  case True
  then have "page_ok s p (nat (s_slab_type (slab_frame_array s p)))" using assms(1) by (simp add: frame_ok_def)
  then have "page_ok s' p (nat (s_slab_type (slab_frame_array s p)))"
    by (rule page_ok_links) (use assms True in simp_all)
  with assms True show ?thesis unfolding frame_ok_def by simp
next
  case False
  with assms show ?thesis by (simp add: frame_ok_def)
qed

definition page_fields :: "nat \<Rightarrow> nat \<Rightarrow> slab_t \<Rightarrow> slab_t" where
  "page_fields t b p = p\<lparr>s_available := 0, s_slab_type := int t, s_slab_size := int (slab_sizes ! t),
     s_start_address := index2address (of_nat b), s_total_slabs := int (nslots t),
     s_free_slabs := int (nslots t), s_bitmap := (\<lambda>j. if j < 64 then 0 else s_bitmap p j)\<rparr>"

lemma page_fields_sel [simp]:
  "s_available (page_fields t b p) = 0" "s_slab_type (page_fields t b p) = int t"
  "s_slab_size (page_fields t b p) = int (slab_sizes ! t)"
  "s_start_address (page_fields t b p) = index2address (of_nat b)"
  "s_total_slabs (page_fields t b p) = int (nslots t)" "s_free_slabs (page_fields t b p) = int (nslots t)"
  "s_next (page_fields t b p) = s_next p" "s_prev (page_fields t b p) = s_prev p"
  "slot_used (page_fields t b p) i \<longleftrightarrow> i \<ge> 512 \<and> slot_used p i"
  by (auto simp: page_fields_def slot_used_def)

text \<open>With the descriptor marked free, \<open>new_slab_page\<close> reports nothing.\<close>

lemma new_slab_page_eq:
  assumes "s_available (slab_frame_array s b) = 1" "s_slab_size (slab_frame_array s b) = -1"
  shows "new_slab_page t b s =
    (upd_slab b (\<lambda>p. (set_slot 0 p)\<lparr>s_free_slabs := s_free_slabs p - 1\<rparr>)
       (slab_push t b (upd_slab b (page_fields t b)
         (upd_frame b (\<lambda>b'. b'\<lparr>b_slab_ptr := Some b, b_is_slab_page := True\<rparr>) s))),
     index2address (of_nat b))"
proof -
  have "(\<lambda>p. p\<lparr>s_available := 0, s_slab_type := int t, s_slab_size := int (slab_sizes ! t),
    s_start_address := index2address (of_nat b), s_total_slabs := int (FRAME_SIZE div slab_sizes ! t),
    s_free_slabs := int (FRAME_SIZE div slab_sizes ! t),
    s_bitmap := (\<lambda>j. if j < 64 then 0 else s_bitmap p j)\<rparr>) = page_fields t b"
    by (simp add: page_fields_def nslots_def fun_eq_iff)
  then show ?thesis unfolding new_slab_page_def Let_def by (simp add: assms)
qed

lemma new_slab_page_rep:
  assumes inv: "kmem_inv s" and b: "b < TOTAL_FRAME" "b \<in> free_frames s" and t: "t < 9"
    and sv: "slab_view s1 = slab_view s"
  shows "sl.rep 8 (fst (new_slab_page t b s1)) ((slab_pages s)(t := insert b (slab_pages s t)))"
proof -
  note nf = free_frame_no_page[OF inv b]
  let ?s3 = "upd_slab b (page_fields t b)
    (upd_frame b (\<lambda>b'. b'\<lparr>b_slab_ptr := Some b, b_is_slab_page := True\<rparr>) s1)"
  have "sl.rep 8 s (slab_pages s)" using inv by (simp add: kmem_inv_def)
  then have "sl.rep 8 ?s3 (slab_pages s)"
    by (rule sl.rep_frame) (use nf(4) in \<open>auto simp: slab_viewD[OF sv]\<close>)
  then have "sl.rep 8 (slab_push t b ?s3) ((slab_pages s)(t := insert b (slab_pages s t)))"
    by (rule sl.rep_push) (use nf(4) slab_pages_disjoint t in auto)
  then show ?thesis
    by (subst new_slab_page_eq) (use nf in \<open>auto simp: slab_viewD[OF sv] elim!: sl.rep_frame\<close>)
qed

lemma new_slab_page_fields:
  fixes t :: nat
  assumes "s_available (slab_frame_array s b) = 1" "s_slab_size (slab_frame_array s b) = -1"
  defines "s' \<equiv> fst (new_slab_page t b s)"
  shows "core s' = core s" "diag s' = diag s" "snd (new_slab_page t b s) = index2address (of_nat b)"
    "s_available (slab_frame_array s' x) = (if x = b then 0 else s_available (slab_frame_array s x))"
    "s_slab_type (slab_frame_array s' x) = (if x = b then int t else s_slab_type (slab_frame_array s x))"
    "s_slab_size (slab_frame_array s' x) =
       (if x = b then int (slab_sizes ! t) else s_slab_size (slab_frame_array s x))"
    "s_start_address (slab_frame_array s' x) =
       (if x = b then index2address (of_nat b) else s_start_address (slab_frame_array s x))"
    "s_total_slabs (slab_frame_array s' x) =
       (if x = b then int (nslots t) else s_total_slabs (slab_frame_array s x))"
    "s_free_slabs (slab_frame_array s' x) =
       (if x = b then int (nslots t) - 1 else s_free_slabs (slab_frame_array s x))"
    "x \<noteq> b \<Longrightarrow> slot_used (slab_frame_array s' x) = slot_used (slab_frame_array s x)"
    "i < 512 \<Longrightarrow> slot_used (slab_frame_array s' b) i \<longleftrightarrow> i = 0"
    "b_slab_ptr (buddy_frame_array s' x) = (if x = b then Some b else b_slab_ptr (buddy_frame_array s x))"
    "b_is_slab_page (buddy_frame_array s' x) \<longleftrightarrow> x = b \<or> b_is_slab_page (buddy_frame_array s x)"
  unfolding s'_def new_slab_page_eq[OF assms(1,2)] by (simp_all add: fun_eq_iff)

lemma new_page_post:
  assumes inv: "kmem_inv s" and al: "buddy_allocate 0 s = (s1, Some b)" and t: "t < 9"
    and sz: "sz \<le> slab_sizes ! t"
  shows "slab_post sz s (new_slab_page t b s1)"
proof -
  have "buddy_inv s" using inv by (simp add: kmem_inv_def)
  from buddy_allocate_post(1)[OF this, of 0] al
  have ap: "buddy_inv s1" "b < TOTAL_FRAME" "frames b 0 \<subseteq> free_frames s"
    "alloc_heads {} s1 = (alloc_heads {} s)(0 := insert b (alloc_heads {} s 0))" "diag s1 = diag s"
    by (auto simp: alloc_post_def)
  have bf: "b \<in> free_frames s" using ap(3) by (auto simp: frames_def)
  have sv: "slab_view s1 = slab_view s" using slab_view_alloc[of 0 s] al by simp
  note nf = free_frame_no_page[OF inv ap(2) bf]
  note fd = new_slab_page_fields[where s = s1 and b = b and t = t, unfolded slab_viewD[OF sv], OF nf(1,2)]
  define s' where "s' = fst (new_slab_page t b s1)"
  note f = fd[folded s'_def]
  note cc = core_cong[OF f(1)]
  note ct = class_table[OF t]
  have us: "used_slots s' b t = {0}"
    using f(11) ct by (auto simp: used_slots_def)
  have ah: "alloc_heads {} s' 0 = insert b (alloc_heads {} s 0)" using cc(2) ap(4) by simp
  have ok: "page_ok s' b t" using t f us ah by (simp add: page_ok_def Let_def)
  have "frame_ok s' x" if x: "x < TOTAL_FRAME" for x
  proof (cases "x = b")
    case True
    with ok f show ?thesis by (simp add: frame_ok_def)
  next
    case False
    have "frame_ok s x" using inv x by (simp add: kmem_inv_def pages_ok_def)
    then show ?thesis by (rule page_ok_other_links) (use False f ah in simp_all)
  qed
  moreover have "slab_pages s' = (slab_pages s)(t := insert b (slab_pages s t))"
    using f ap(2) nf(1) by (auto simp: slab_pages_def fun_eq_iff)
  ultimately have "kmem_inv s'"
    using new_slab_page_rep[OF inv ap(2) bf t sv] ap(1) cc(1)
    by (simp add: kmem_inv_def pages_ok_def s'_def)
  moreover have "(x, j) \<in> live s' \<longleftrightarrow> (x, j) = (b, 0) \<or> (x, j) \<in> live s" for x j
    using f nf(1) ap(2) ct by (cases "x = b") (auto simp: live_def)
  then have "live s' = insert (b, 0) (live s)" by auto
  moreover have "allocated_frames s' = allocated_frames s \<union> {b}"
    using cc(5) alloc_heads_insert_frames[OF ap(4)] by (simp add: frames_def)
  moreover have "rest_same s s'"
  proof -
    have "b \<notin> alloc_heads {} s k" for k by (rule free_frame_no_head[OF _ bf]) (use inv in \<open>simp add: kmem_inv_def\<close>)
    then have "plain_heads s' = plain_heads s"
      using cc(2) ap(4) by (auto simp: plain_heads_def fun_eq_iff f(13) split: if_splits)
    moreover have "p \<noteq> b" if "(p, i) \<in> live s" for p i using that nf(1) by (auto simp: live_def)
    ultimately show ?thesis by (auto simp: rest_same_def f(6))
  qed
  ultimately have "slab_post sz s (s', index2address (of_nat b))"
    using nf(1) ap(5) f sz by (intro slab_postI[of s' b 0]) (auto simp: live_def slot_address_def)
  then show ?thesis using f(3) unfolding s'_def by (metis prod.collapse)
qed

lemma kmem_inv_report [simp]: "kmem_inv (report m s) = kmem_inv s"
proof -
  have c: "core (report m s) = core s" by simp
  have "page_ok (report m s) p t = page_ok s p t" for p t
    by (simp add: page_ok_def used_slots_def core_cong(2)[OF c])
  then have "pages_ok (report m s) = pages_ok s" by (simp add: pages_ok_def frame_ok_def)
  moreover have "slab_pages (report m s) = slab_pages s" by (simp add: slab_pages_def fun_eq_iff)
  ultimately show ?thesis by (simp add: kmem_inv_def sl.rep_def core_cong(1)[OF c])
qed

lemma live_report [simp]: "live (report m s) = live s"
  by (simp add: live_def)

lemma slab_allocate_post:
  assumes inv: "kmem_inv s" and sz: "sz \<le> 2048"
  shows "\<exists>r. slab_allocate sz s = Some r \<and> slab_post sz s r"
proof -
  obtain t where t: "slab_class sz = Some t" using slab_class_fits[OF sz] ..
  have t': "t < 9" "sz \<le> slab_sizes ! t" using slab_class_Some[OF t] by auto
  obtain xs where xs: "dll (\<lambda>i. s_next (slab_frame_array s i)) (\<lambda>i. s_prev (slab_frame_array s i)) None
      (slab_start_list s t) xs" "set xs = slab_pages s t"
    using inv t'(1) sl.repD[of 8 s "slab_pages s" t] unfolding kmem_inv_def by auto
  from find_slot_dll[OF xs(1)] show ?thesis
  proof (elim disjE exE conjE)
    fix p i assume "find_slot (slab_frame_array s) (slab_start_list s t) = Some (Some (p, i))"
      "p \<in> set xs" "first_free (slab_frame_array s p) = Some i"
    with take_slot_post[OF inv _ _ t'(2)] t xs(2) show ?thesis by (simp add: slab_allocate_def)
  next
    assume full: "find_slot (slab_frame_array s) (slab_start_list s t) = Some None"
    obtain s1 r where al: "buddy_allocate 0 s = (s1, r)" by fastforce
    show ?thesis
    proof (cases r)
      case None
      with al inv buddy_allocate_post(1)[of s 0] have "s1 = report Allocate_fail s"
        by (auto simp: kmem_inv_def alloc_post_def)
      moreover have "free_frames s = {}"
      proof (rule ccontr)
        assume "free_frames s \<noteq> {}"
        then obtain x where "frames x 0 \<subseteq> free_frames s" by (auto simp: frames_def)
        with alloc_complete[of s 0 x] inv al None show False by (simp add: kmem_inv_def)
      qed
      ultimately show ?thesis using None al full t inv by (simp add: slab_allocate_def slab_post_def)
    next
      case (Some b)
      with al full t new_page_post[OF inv _ t'] show ?thesis by (simp add: slab_allocate_def)
    qed
  qed
qed

section \<open>Freeing\<close>

lemma unat_index2address:
  assumes "p < TOTAL_FRAME" "d \<le> 4096"
  shows "unat (index2address (of_nat p) + of_nat d) = 0xffff000000000000 + p * 4096 + d"
proof -
  have "index2address (of_nat p) + of_nat d = of_nat (0xffff000000000000 + p * 4096 + d)"
    by (simp add: index2address_def BUDDY_MEMORY_BASE_def FRAME_SIZE_def)
  moreover have "0xffff000000000000 + p * 4096 + d < 2 ^ 64"
    using assms by (simp add: TOTAL_FRAME_def)
  ultimately show ?thesis by (simp only: unsigned_of_nat) (simp add: take_bit_nat_eq_self)
qed

lemma unat_small: "n < 2 ^ 31 \<Longrightarrow> unat (of_nat n :: 64 word) = n"
  by (simp add: unsigned_of_nat take_bit_nat_eq_self)

lemma of_nat_eq_0_small: "n < 2 ^ 31 \<Longrightarrow> (of_nat n :: 64 word) = 0 \<longleftrightarrow> n = 0"
  using unat_small[of n] by (auto simp: unat_eq_zero[symmetric])

lemma int_of_ulong_small: "n < 2 ^ 31 \<Longrightarrow> int_of_ulong (of_nat n) = int n"
proof -
  assume n: "n < 2 ^ 31"
  then have "ucast (of_nat n :: 64 word) = (of_nat n :: 32 word)"
    by (simp add: unsigned_of_nat take_bit_nat_eq_self)
  moreover have "sint (of_nat n :: 32 word) = int n"
    using n by (simp add: sint_uint unsigned_of_nat take_bit_nat_eq_self
        signed_of_nat signed_take_bit_int_eq_self)
  ultimately show ?thesis by (simp add: int_of_ulong_def)
qed

lemma of_nat_div_64: "a < 2 ^ 31 \<Longrightarrow> b < 2 ^ 31 \<Longrightarrow> (of_nat a :: 64 word) div of_nat b = of_nat (a div b)"
  by (simp add: word_div_def unsigned_of_nat take_bit_int_eq_self take_bit_nat_eq_self flip: of_nat_div)

lemma of_nat_mod_64: "a < 2 ^ 31 \<Longrightarrow> b < 2 ^ 31 \<Longrightarrow> (of_nat a :: 64 word) mod of_nat b = of_nat (a mod b)"
  by (simp add: word_mod_def unsigned_of_nat take_bit_int_eq_self take_bit_nat_eq_self flip: of_nat_mod)

text \<open>What happens to an address inside a page: three refusals (only two can be reached) and the
  release of the slot.\<close>

lemma slab_free_inside:
  assumes ok: "page_ok s p t" and p: "p < TOTAL_FRAME" and d: "d < 4096"
  defines "i \<equiv> d div slab_sizes ! t"
  defines "s1 \<equiv> upd_slab p (\<lambda>x. (clear_slot i x)\<lparr>s_free_slabs := s_free_slabs x + 1\<rparr>) s"
  shows "slab_free (Some p) (index2address (of_nat p) + of_nat d) s =
    (if d mod slab_sizes ! t \<noteq> 0 then report Slab_unaligned s
     else if \<not> slot_used (slab_frame_array s p) i then report Slab_unallocated s
     else if card (used_slots s p t) = 1 then slab_release p s1 else s1)"
proof -
  note pd = page_okD[OF ok]
  note ct = class_table[OF pd(1)]
  let ?sz = "slab_sizes ! t" and ?b = "index2address (of_nat p)"
  have szb: "?sz < 2 ^ 31" "0 < ?sz"
  proof -
    have "?sz * 1 \<le> ?sz * nslots t" by (rule mult_le_mono2) (use ct in linarith)
    also have "\<dots> = 4096" using ct by blast
    finally show "?sz < 2 ^ 31" by simp
    show "0 < ?sz" using ct by linarith
  qed
  have lo: "?b \<le> ?b + of_nat d"
    using unat_index2address[OF p, of d] unat_index2address[OF p, of 0] d by (simp add: word_le_nat_alt)
  have hi: "?b + of_nat d < ?b + of_nat FRAME_SIZE"
    using unat_index2address[OF p, of d] unat_index2address[OF p, of 4096] d
    by (simp add: word_less_nat_alt FRAME_SIZE_def)
  have sw: "of_int (s_slab_size (slab_frame_array s p)) = (of_nat ?sz :: 64 word)" by (simp add: pd(3))
  have md: "(?b + of_nat d - ?b) mod of_nat ?sz = (of_nat (d mod ?sz) :: 64 word)"
    using d szb by (simp add: of_nat_mod_64)
  have m0: "(of_nat (d mod ?sz) :: 64 word) = 0 \<longleftrightarrow> d mod ?sz = 0"
    by (rule of_nat_eq_0_small) (rule le_less_trans[OF mod_less_eq_dividend], use d in simp)
  have "i \<le> d" by (simp add: i_def)
  also have "d < 2 ^ 31" using d by simp
  finally have ix: "int_of_ulong ((?b + of_nat d - ?b) div of_nat ?sz) = int i"
    using d szb int_of_ulong_small[of i] by (simp add: of_nat_div_64 i_def)
  have inb: "i < nslots t" using d ct szb(2) unfolding i_def
    by (metis less_mult_imp_div_less mult.commute)
  have full: "s_free_slabs (slab_frame_array s p) + 1 = int (nslots t) \<longleftrightarrow>
      card (used_slots s p t) = Suc 0"
    unfolding pd(6) by auto
  show ?thesis
    unfolding slab_free_def Let_def option.case pd(4) sw md m0 ix
    using lo hi inb by (simp add: pd(5) full s1_def)
qed

lemma reset_slab_sel [simp]:
  "s_available (reset_slab q) = 1" "s_slab_size (reset_slab q) = -1" "s_next (reset_slab q) = None"
  "s_prev (reset_slab q) = None"
  by (simp_all add: reset_slab_def)

definition slab_free_post :: "nat \<Rightarrow> nat \<Rightarrow> kmem \<Rightarrow> kmem \<Rightarrow> bool" where
  "slab_free_post p i s s' \<longleftrightarrow> kmem_inv s' \<and> live s' = live s - {(p, i)} \<and> diag s' = diag s \<and>
     allocated_frames s' =
       (if \<exists>j. j \<noteq> i \<and> (p, j) \<in> live s then allocated_frames s else allocated_frames s - {p}) \<and> rest_same s s'"

lemma live_of_page:
  assumes "kmem_inv s" "p \<in> slab_pages s t"
  shows "(p, j) \<in> live s \<longleftrightarrow> j \<in> used_slots s p t"
  using page_of_class[OF assms] page_okD(5)[of s p t] by (auto simp: live_def used_slots_def)

lemma keep_page_post:
  assumes inv: "kmem_inv s" and p: "p \<in> slab_pages s t" and i: "i \<in> used_slots s p t"
    and c1: "card (used_slots s p t) \<noteq> 1"
  shows "slab_free_post p i s (upd_slab p (\<lambda>x. (clear_slot i x)\<lparr>s_free_slabs := s_free_slabs x + 1\<rparr>) s)"
proof -
  note pg = page_of_class[OF inv p]
  note d = page_okD[OF pg(1)]
  let ?s = "upd_slab p (\<lambda>x. (clear_slot i x)\<lparr>s_free_slabs := s_free_slabs x + 1\<rparr>) s"
  have c: "core ?s = core s" by simp
  have us: "used_slots ?s p t = used_slots s p t - {i}" by (auto simp: used_slots_def)
  have more: "used_slots s p t - {i} \<noteq> {}"
  proof
    assume "used_slots s p t - {i} = {}"
    with i have "used_slots s p t = {i}" by blast
    with c1 show False by simp
  qed
  have "card (used_slots s p t) = Suc (card (used_slots s p t - {i}))"
    using i by (metis card_Suc_Diff1 used_slots_finite)
  then have "page_ok ?s p t"
    using d us more core_cong(2)[OF c] by (simp add: page_ok_def Let_def)
  with inv pg have "kmem_inv ?s" by (intro kmem_inv_upd_page) auto
  moreover have "(x, j) \<in> live ?s \<longleftrightarrow> (x, j) \<in> live s \<and> (x, j) \<noteq> (p, i)" for x j
    by (cases "x = p") (auto simp: live_def)
  then have "live ?s = live s - {(p, i)}" by auto
  moreover have "\<exists>j. j \<noteq> i \<and> (p, j) \<in> live s" using more live_of_page[OF inv p] by blast
  moreover have "rest_same s ?s" by (rule rest_same_core) simp_all
  ultimately show ?thesis using core_cong(5)[OF c] by (simp add: slab_free_post_def)
qed

lemma release_page_rep:
  assumes inv: "kmem_inv s" and p: "p \<in> slab_pages s t"
    and v: "\<And>x. s_next (slab_frame_array s2 x) = s_next (slab_frame_array s x)"
      "\<And>x. s_prev (slab_frame_array s2 x) = s_prev (slab_frame_array s x)"
      "slab_start_list s2 = slab_start_list s"
  shows "sl.rep 8 (upd_slab p reset_slab (slab_unlink t p s2)) ((slab_pages s)(t := slab_pages s t - {p}))"
    and "slab_start_list s2 t \<noteq> Some p \<Longrightarrow> s_prev (slab_frame_array s2 p) \<noteq> None"
proof -
  have t: "t \<le> 8" using page_okD(1)[OF page_of_class(1)[OF inv p]] by simp
  have rep: "sl.rep 8 s (slab_pages s)" using inv by (simp add: kmem_inv_def)
  then have r2: "sl.rep 8 s2 (slab_pages s)" by (rule sl.rep_frame) (simp_all add: v)
  then have "sl.rep 8 (slab_unlink t p s2) ((slab_pages s)(t := slab_pages s t - {p}))"
    by (rule sl.rep_unlink) (use slab_pages_disjoint p t in auto)
  moreover have "p \<notin> slab_pages s k" if "k \<noteq> t" for k
    using p slab_pages_disjoint[OF that, of s] by auto
  ultimately show "sl.rep 8 (upd_slab p reset_slab (slab_unlink t p s2))
      ((slab_pages s)(t := slab_pages s t - {p}))"
    by (elim sl.rep_frame) (auto split: if_splits)
  show "s_prev (slab_frame_array s2 p) \<noteq> None" if "slab_start_list s2 t \<noteq> Some p"
    using sl.member_prev[OF r2 p t that] by auto
qed

lemma release_page_post:
  assumes inv: "kmem_inv s" and p: "p \<in> slab_pages s t" and one: "used_slots s p t = {i}"
  shows "slab_free_post p i s (slab_release p
    (upd_slab p (\<lambda>x. (clear_slot i x)\<lparr>s_free_slabs := s_free_slabs x + 1\<rparr>) s))"
proof -
  note pg = page_of_class[OF inv p]
  note d = page_okD[OF pg(1)]
  note ah = page_alloc_head[OF pg(1)]
  let ?s1 = "upd_slab p (\<lambda>x. (clear_slot i x)\<lparr>s_free_slabs := s_free_slabs x + 1\<rparr>) s"
  let ?s1b = "upd_frame p (\<lambda>b. b\<lparr>b_slab_ptr := None, b_is_slab_page := False\<rparr>) ?s1"
  define s2 where "s2 = buddy_free p ?s1b"
  define s' where "s' = upd_slab p reset_slab (slab_unlink t p s2)"
  have c1: "core ?s1b = core s" by (simp add: core_upd_frame)
  note cc1 = core_cong[OF c1]
  have "buddy_inv ?s1b" using inv cc1(1) by (simp add: kmem_inv_def)
  then have "free_post p ?s1b s2" unfolding s2_def by (rule buddy_free_post) (use ah in simp_all)
  then have fp: "buddy_inv s2" "alloc_heads {} s2 = (alloc_heads {} s)(0 := alloc_heads {} s 0 - {p})"
    "allocated_frames s2 = allocated_frames s - frames p 0" "diag s2 = diag s"
    using ah(3) cc1 by (auto simp: free_post_def)
  have "slab_view s2 = slab_view ?s1b" by (simp add: s2_def)
  note sv = slab_viewD[OF this]
  have nx: "s_next (slab_frame_array s2 x) = s_next (slab_frame_array s x)"
    "s_prev (slab_frame_array s2 x) = s_prev (slab_frame_array s x)"
    "slab_start_list s2 = slab_start_list s" for x
    by (simp_all add: sv)
  note rr = release_page_rep[OF inv p nx]
  have "slab_release p ?s1 = s'"
    unfolding slab_release_def Let_def s'_def s2_def[symmetric]
    using d pg(2) rr(2) sv(1) by (auto simp: address2index_base s2_def)
  have c: "core s' = core s2" by (simp add: s'_def)
  note cc = core_cong[OF c]
  have fld: "s_available (slab_frame_array s' x) = (if x = p then 1 else s_available (slab_frame_array s x))"
    "x \<noteq> p \<Longrightarrow> s_slab_type (slab_frame_array s' x) = s_slab_type (slab_frame_array s x)"
    "x \<noteq> p \<Longrightarrow> s_start_address (slab_frame_array s' x) = s_start_address (slab_frame_array s x)"
    "s_slab_size (slab_frame_array s' x) = (if x = p then -1 else s_slab_size (slab_frame_array s x))"
    "x \<noteq> p \<Longrightarrow> s_total_slabs (slab_frame_array s' x) = s_total_slabs (slab_frame_array s x)"
    "x \<noteq> p \<Longrightarrow> s_free_slabs (slab_frame_array s' x) = s_free_slabs (slab_frame_array s x)"
    "x \<noteq> p \<Longrightarrow> slot_used (slab_frame_array s' x) = slot_used (slab_frame_array s x)"
    "b_is_slab_page (buddy_frame_array s' x) \<longleftrightarrow> x \<noteq> p \<and> b_is_slab_page (buddy_frame_array s x)"
    "x \<noteq> p \<Longrightarrow> b_slab_ptr (buddy_frame_array s' x) = b_slab_ptr (buddy_frame_array s x)" for x
    by (simp_all add: s'_def sv)
  have fr: "frame_ok s' x" if x: "x < TOTAL_FRAME" for x
  proof (cases "x = p")
    case True
    with fld[of p] show ?thesis by (simp add: frame_ok_def)
  next
    case False
    have "frame_ok s x" using inv x by (simp add: kmem_inv_def pages_ok_def)
    then show ?thesis
      by (rule page_ok_other_links) (use False fld[of x] cc(2) fp(2) in simp_all)
  qed
  have sp: "slab_pages s' = (slab_pages s)(t := slab_pages s t - {p})"
  proof
    fix k
    have "p \<in> slab_pages s k \<Longrightarrow> k = t" using p slab_pages_disjoint[of k t s] by auto
    moreover have "x \<in> slab_pages s' k \<longleftrightarrow> x \<noteq> p \<and> x \<in> slab_pages s k" for x
      using fld[of x] by (auto simp: slab_pages_def)
    ultimately show "slab_pages s' k = ((slab_pages s)(t := slab_pages s t - {p})) k" by auto
  qed
  have ki: "kmem_inv s'"
    using rr(1) fp(1) cc(1) fr sp by (simp add: kmem_inv_def pages_ok_def s'_def)
  have "(x, j) \<in> live s' \<longleftrightarrow> (x, j) \<in> live s \<and> (x, j) \<noteq> (p, i)" for x j
  proof (cases "x = p")
    case True
    then show ?thesis using fld[of p] live_of_page[OF inv p] one by (simp add: live_def)
  next
    case False
    with fld[of x] show ?thesis by (simp add: live_def)
  qed
  then have lv: "live s' = live s - {(p, i)}" by auto
  have "\<not> (\<exists>j. j \<noteq> i \<and> (p, j) \<in> live s)" using live_of_page[OF inv p] one by auto
  moreover have "rest_same s s'"
  proof -
    have "p \<notin> alloc_heads {} s k" if "k \<noteq> 0" for k using that ah(3) by (simp add: alloc_heads_def)
    then have "alloc_heads {} s' k = alloc_heads {} s k - {p}" for k using cc(2) fp(2) by (cases "k = 0") auto
    moreover have "b_is_slab_page (buddy_frame_array s p)" using inv pg(2,3) by (simp add: kmem_inv_def pages_ok_def frame_ok_def)
    ultimately have "plain_heads s' = plain_heads s" by (auto simp: plain_heads_def fun_eq_iff fld(8))
    moreover have "q \<noteq> p" if "(q, j) \<in> live s'" for q j using that fld(1)[of p] by (auto simp: live_def)
    ultimately show ?thesis by (auto simp: rest_same_def fld(4))
  qed
  ultimately show ?thesis unfolding \<open>slab_release p ?s1 = s'\<close> slab_free_post_def
    using ki lv cc(5) fp(3,4) by (auto simp: s'_def frames_def)
qed

lemma slab_free_live:
  assumes inv: "kmem_inv s" and l: "(p, i) \<in> live s"
  shows "slab_free_post p i s (slab_free (Some p) (slot_address s (p, i)) s)"
proof -
  obtain t where t: "page_ok s p t" "p \<in> slab_pages s t" "i \<in> used_slots s p t" "p < TOTAL_FRAME"
    using live_page[OF inv l] .
  note ct = class_table[OF page_okD(1)[OF t(1)]]
  let ?d = "i * slab_sizes ! t"
  have z: "0 < slab_sizes ! t" using ct by linarith
  have "i < nslots t" using t(3) by (simp add: used_slots_def)
  then have d: "?d < 4096" using ct z by (metis mult.commute nat_mult_less_cancel1)
  have a: "slot_address s (p, i) = index2address (of_nat p) + of_nat ?d"
    using page_okD(3)[OF t(1)] by (simp add: slot_address_def)
  have u: "slot_used (slab_frame_array s p) i" using t(3) by (simp add: used_slots_def)
  have dv: "?d div slab_sizes ! t = i" "?d mod slab_sizes ! t = 0" using z by simp_all
  note fi = slab_free_inside[OF t(1,4) d, unfolded dv]
  show ?thesis
  proof (cases "card (used_slots s p t) = 1")
    case True
    with t(3) have "used_slots s p t = {i}" by (auto simp: card_1_singleton_iff)
    from release_page_post[OF inv t(2) this] show ?thesis unfolding a fi using True u by simp
  next
    case False
    from keep_page_post[OF inv t(2,3) False] show ?thesis unfolding a fi using False u by simp
  qed
qed

end
