(* ===== verification/Buddy_Init.thy ===== *)
theory Buddy_Init
  imports Buddy_Inv
begin

text \<open>
  \<open>buddy_init\<close> establishes the allocator's invariant and makes every frame that was not
  reserved free.  The scan from the largest order down claims aligned runs of untouched frames;
  its invariant \<open>scan_inv\<close> records that no untouched run of an order already scanned is left,
  which is why no two buddies are ever left side by side unmerged.
\<close>

definition uninit :: "kmem \<Rightarrow> nat set" where
  "uninit s = {i. i < TOTAL_FRAME \<and> bst s i = UNINIT_FRAME}"

definition no_run :: "nat \<Rightarrow> nat set \<Rightarrow> bool" where
  "no_run k U \<longleftrightarrow> (\<forall>i. 2 ^ k dvd i \<and> i + 2 ^ k \<le> TOTAL_FRAME \<longrightarrow> \<not> frames i k \<subseteq> U)"

definition base_inv :: "nat set \<Rightarrow> kmem \<Rightarrow> bool" where
  "base_inv R s \<longleftrightarrow> buddy_inv s \<and> allocated_frames s = {} \<and>
     (\<forall>i < TOTAL_FRAME. bst s i = RESERVED_FRAME \<longleftrightarrow> i \<in> R) \<and>
     free_frames s \<union> uninit s = {..<TOTAL_FRAME} - R \<and> diag s = []"

definition scan_inv :: "nat set \<Rightarrow> nat \<Rightarrow> kmem \<Rightarrow> bool" where
  "scan_inv R n s \<longleftrightarrow> base_inv R s \<and> (\<forall>k < n. free_heads {} s k = {}) \<and>
     (n \<le> MAX_ORDER \<longrightarrow> no_run n (uninit s))"

definition inner_inv :: "nat set \<Rightarrow> nat \<Rightarrow> nat set \<Rightarrow> nat \<Rightarrow> kmem \<Rightarrow> bool" where
  "inner_inv R k U i s \<longleftrightarrow> base_inv R s \<and> (\<forall>l < k. free_heads {} s l = {}) \<and>
     (k < MAX_ORDER \<longrightarrow> no_run (Suc k) U) \<and> uninit s \<subseteq> U \<and>
     (\<forall>h \<in> free_heads {} s k. frames h k \<subseteq> U) \<and> 2 ^ k dvd i \<and>
     (\<forall>h < i. 2 ^ k dvd h \<and> h + 2 ^ k \<le> TOTAL_FRAME \<longrightarrow> \<not> frames h k \<subseteq> uninit s)"

lemma set_belonged_sel [simp]:
  "bst (set_belonged i s) j = (if j = i then BELONGED_FRAME else bst s j)"
  "border (set_belonged i s) j = border s j"
  "b_index (buddy_frame_array (set_belonged i s) j) = b_index (buddy_frame_array s j)"
  "b_next (buddy_frame_array (set_belonged i s) j) = b_next (buddy_frame_array s j)"
  "b_prev (buddy_frame_array (set_belonged i s) j) = b_prev (buddy_frame_array s j)"
  "b_slab_ptr (buddy_frame_array (set_belonged i s) j) = b_slab_ptr (buddy_frame_array s j)"
  "b_is_slab_page (buddy_frame_array (set_belonged i s) j) = b_is_slab_page (buddy_frame_array s j)"
  "free_frame_lists (set_belonged i s) = free_frame_lists s"
  "slab_frame_array (set_belonged i s) = slab_frame_array s"
  "slab_start_list (set_belonged i s) = slab_start_list s"
  "diag (set_belonged i s) = diag s"
  by (auto simp: set_belonged_def)

lemma fold_set_belonged_sel [simp]:
  "bst (fold (\<lambda>j. set_belonged (i + j)) js s) x =
     (if x \<in> (\<lambda>j. i + j) ` set js then BELONGED_FRAME else bst s x)"
  "border (fold (\<lambda>j. set_belonged (i + j)) js s) x = border s x"
  "b_index (buddy_frame_array (fold (\<lambda>j. set_belonged (i + j)) js s) x) = b_index (buddy_frame_array s x)"
  "b_next (buddy_frame_array (fold (\<lambda>j. set_belonged (i + j)) js s) x) = b_next (buddy_frame_array s x)"
  "b_prev (buddy_frame_array (fold (\<lambda>j. set_belonged (i + j)) js s) x) = b_prev (buddy_frame_array s x)"
  "free_frame_lists (fold (\<lambda>j. set_belonged (i + j)) js s) = free_frame_lists s"
  "diag (fold (\<lambda>j. set_belonged (i + j)) js s) = diag s"
  by (induction js arbitrary: s) auto

lemma image_interior: "(\<lambda>j. i + j) ` set [1..<2 ^ k] = {x. i < x \<and> x < i + 2 ^ k}" for i :: nat
  by (auto simp: image_iff intro: bexI[of _ "_ - i"])

lemma free_not_uninit: "buddy_inv s \<Longrightarrow> free_frames s \<inter> uninit s = {}"
proof -
  assume "buddy_inv s"
  then have sh: "shape_ok {} s" by (simp add: buddy_inv_def gen_inv_def)
  have "frames i k \<inter> uninit s = {}" if "i \<in> free_heads {} s k" for i k
  proof -
    from shape_free_head[OF sh that] have ok: "block_ok s i k" by simp
    have "bst s x \<noteq> UNINIT_FRAME" if "x \<in> frames i k" for x
    proof (cases "x = i")
      case True
      with \<open>i \<in> free_heads {} s k\<close> show ?thesis by (auto simp: free_heads_def frame_states)
    next
      case False
      with that ok show ?thesis by (auto simp: block_ok_def frames_def frame_states)
    qed
    then show ?thesis by (auto simp: uninit_def)
  qed
  then show ?thesis unfolding free_frames_def gen_free_def by (rule heads_frames_disjoint)
qed

text \<open>Claiming a block keeps the inner invariant.\<close>

lemma claim_block:
  assumes inv: "inner_inv R k U i s" and k: "k \<le> MAX_ORDER" and top: "i + 2 ^ k \<le> TOTAL_FRAME"
    and run: "frames i k \<subseteq> uninit s"
  defines "s1 \<equiv> upd_frame i (\<lambda>b. b\<lparr>b_status := int k\<rparr>) s"
  defines "s' \<equiv> fold (\<lambda>j. set_belonged (i + j)) [1..<2 ^ k] (list_push k i s1)"
  shows "inner_inv R k U (i + 2 ^ k) s'"
proof -
  have base: "base_inv R s" and low: "\<forall>l < k. free_heads {} s l = {}"
    and nr: "k < MAX_ORDER \<longrightarrow> no_run (Suc k) U" and uU: "uninit s \<subseteq> U"
    and hU: "\<forall>h \<in> free_heads {} s k. frames h k \<subseteq> U" and dv: "2 ^ k dvd i"
    and dn: "\<forall>h < i. 2 ^ k dvd h \<and> h + 2 ^ k \<le> TOTAL_FRAME \<longrightarrow> \<not> frames h k \<subseteq> uninit s"
    using inv by (auto simp: inner_inv_def)
  have bi: "buddy_inv s" using base by (simp add: base_inv_def)
  have sh: "shape_ok {} s" and rep: "lists_rep s (free_heads {} s)" and co: "coalesced {} s"
    using bi by (auto simp: buddy_inv_def gen_inv_def)
  have un: "x \<in> frames i k \<Longrightarrow> bst s x = UNINIT_FRAME \<and> x < TOTAL_FRAME" for x
    using run by (auto simp: uninit_def)
  have ii: "bst s i = UNINIT_FRAME" "i < TOTAL_FRAME" using un[of i] by simp_all
  have bs': "bst s' x = (if x = i then int k else if x \<in> frames i k then BELONGED_FRAME else bst s x)" for x
    unfolding s'_def fold_set_belonged_sel image_interior by (auto simp: s1_def frames_def)
  have bo': "border s' x = border s x" for x by (simp add: s'_def s1_def)
  have fh: "free_heads {} s' = (free_heads {} s)(k := insert i (free_heads {} s k))"
    using ii un by (auto simp: free_heads_def fun_eq_iff bs' frame_states)
  have ah: "alloc_heads {} s' = alloc_heads {} s"
    using ii un by (fastforce simp: alloc_heads_def fun_eq_iff bs' bo' frame_states)
  have us: "uninit s' = uninit s - frames i k"
    using ii by (auto simp: uninit_def bs' frame_states)
  have "lists_rep s1 (free_heads {} s)"
    by (rule fl.rep_frame[OF rep]) (auto simp: s1_def)
  moreover have "i \<notin> free_heads {} s l" for l using ii by (auto simp: free_heads_def frame_states)
  ultimately have "lists_rep (list_push k i s1) (free_heads {} s')"
    unfolding fh by (intro fl.rep_push) (use k in \<open>auto simp: free_heads_def\<close>)
  then have "lists_rep s' (free_heads {} s')"
    by (rule fl.rep_frame) (auto simp: s'_def)
  moreover have "shape_ok {} s'" unfolding shape_ok_def
  proof (intro allI impI conjI)
    fix x assume x: "x < TOTAL_FRAME"
    show "b_index (buddy_frame_array s' x) = x" using sh x by (simp add: shape_ok_def s'_def s1_def)
    assume st: "bst s' x \<ge> 0 \<or> bst s' x = ALLOCATED_FRAME"
    show "\<exists>l\<le>MAX_ORDER. block_at s' x l \<and> block_ok s' x l"
    proof (cases "x = i")
      case True
      have "block_ok s' i k" using dv top by (auto simp: block_ok_def bs' frames_def)
      with True k show ?thesis by (intro exI[of _ k]) (simp add: block_at_def bs')
    next
      case False
      with st have out: "x \<notin> frames i k" and "bst s x \<ge> 0 \<or> bst s x = ALLOCATED_FRAME"
        by (auto simp: bs' frame_states split: if_splits)
      from shapeD[OF sh x _ this(2)] obtain l where l: "l \<le> MAX_ORDER" "block_at s x l" "block_ok s x l"
        by blast
      have "block_ok s' x l"
        using un by (intro block_ok_transport[OF l(3)]) (auto simp: bs' frame_states)
      with l False out show ?thesis by (auto simp: block_at_def bs' bo')
    qed
  qed
  moreover have "coalesced {} s'" unfolding coalesced_def
  proof (intro allI impI ballI notI)
    fix l x assume l: "l < MAX_ORDER" and x: "x \<in> free_heads {} s' l" "x XOR 2 ^ l \<in> free_heads {} s' l"
    show False
    proof (cases "l = k \<and> (x = i \<or> x XOR 2 ^ l = i)")
      case True
      then have j: "i XOR 2 ^ k \<in> free_heads {} s' k" using x by (metis buddy_invol_nat)
      have "i XOR 2 ^ k \<noteq> i" using buddy_cases_nat[OF dv] by auto
      with j have j: "i XOR 2 ^ k \<in> free_heads {} s k" by (simp add: fh)
      have jr: "(i XOR 2 ^ k) + 2 ^ k \<le> TOTAL_FRAME"
        using shape_free_head[OF sh j] by (simp add: block_ok_def)
      have fr: "frames (i XOR 2 ^ k) k \<subseteq> U" "frames i k \<subseteq> U" using hU j run uU by auto
      have "no_run (Suc k) U" using nr l True by simp
      then show False
        using buddy_cases_nat[OF dv] fr jr top unfolding no_run_def
        by (auto simp: frames_split dest!: spec[of _ "min i (i XOR 2 ^ k)"])
    next
      case False
      with x have "x \<in> free_heads {} s l" "x XOR 2 ^ l \<in> free_heads {} s l"
        by (auto simp: fh split: if_splits)
      with co l show False by (auto simp: coalesced_def)
    qed
  qed
  ultimately have bi': "buddy_inv s'" by (simp add: buddy_inv_def gen_inv_def)
  have ff: "free_frames s' = free_frames s \<union> frames i k"
    by (simp add: free_frames_def gen_free_def fh heads_frames_insert)
  have res: "bst s' x = RESERVED_FRAME \<longleftrightarrow> x \<in> R" if "x < TOTAL_FRAME" for x
  proof -
    have "bst s x = RESERVED_FRAME \<longleftrightarrow> x \<in> R" using base that by (simp add: base_inv_def)
    moreover have "x \<in> frames i k \<Longrightarrow> bst s x \<noteq> RESERVED_FRAME" using un by (simp add: frame_states)
    ultimately show ?thesis using head_in_frames[of i k] by (auto simp: bs' frame_states)
  qed
  have "free_frames s' \<union> uninit s' = free_frames s \<union> uninit s" using ff us run by blast
  then have cov: "free_frames s' \<union> uninit s' = {..<TOTAL_FRAME} - R" using base by (simp add: base_inv_def)
  have al: "allocated_frames s' = {}"
    using base by (simp add: base_inv_def allocated_frames_def gen_alloc_def ah)
  have dg: "diag s' = []" using base by (simp add: base_inv_def s'_def s1_def)
  have "base_inv R s'" using bi' res cov al dg by (simp add: base_inv_def)
  moreover have "\<not> frames h k \<subseteq> uninit s'"
    if "h < i + 2 ^ k" "2 ^ k dvd h" "h + 2 ^ k \<le> TOTAL_FRAME" for h
  proof (cases "h < i")
    case True
    with dn that us show ?thesis by blast
  next
    case False
    have "h \<in> frames i k" using False that(1) by (simp add: frames_def)
    moreover have "h \<in> frames h k" by simp
    ultimately show ?thesis using us by blast
  qed
  ultimately show ?thesis
    using low nr uU hU dv us run fh by (auto simp: inner_inv_def)
qed

lemma frames_subset_uninit:
  assumes "i + 2 ^ k \<le> TOTAL_FRAME"
  shows "frames i k \<subseteq> uninit s \<longleftrightarrow> list_all (\<lambda>j. bst s (i + j) = UNINIT_FRAME) [0..<2 ^ k]"
proof
  assume "frames i k \<subseteq> uninit s"
  then have all: "\<And>x. x \<in> frames i k \<Longrightarrow> bst s x = UNINIT_FRAME"
    unfolding uninit_def by blast
  have "bst s (i + j) = UNINIT_FRAME" if "j \<in> set [0..<2 ^ k]" for j
    using that by (intro all) (simp add: frames_def)
  then show "list_all (\<lambda>j. bst s (i + j) = UNINIT_FRAME) [0..<2 ^ k]"
    by (simp only: list_all_iff) blast
next
  assume a: "list_all (\<lambda>j. bst s (i + j) = UNINIT_FRAME) [0..<2 ^ k]"
  show "frames i k \<subseteq> uninit s"
  proof
    fix x assume x: "x \<in> frames i k"
    then have "x - i \<in> set [0..<2 ^ k]" "i + (x - i) = x" by (auto simp: frames_def)
    moreover from this(1) a have "bst s (i + (x - i)) = UNINIT_FRAME"
      unfolding list_all_iff by blast
    ultimately have "bst s x = UNINIT_FRAME" by simp
    with x assms show "x \<in> uninit s" by (auto simp: uninit_def frames_def)
  qed
qed

lemma init_block_inner:
  assumes inv: "inner_inv R k U i s" and k: "k \<le> MAX_ORDER"
  shows "inner_inv R k U (i + 2 ^ k) (init_block k i s)"
proof (cases "i + 2 ^ k \<le> TOTAL_FRAME \<and> frames i k \<subseteq> uninit s")
  case True
  then have "bst s i = UNINIT_FRAME" using head_in_frames[of i k] unfolding uninit_def by blast
  moreover have "list_all (\<lambda>j. bst s (i + j) = UNINIT_FRAME) [0..<2 ^ k]"
    using True frames_subset_uninit by blast
  ultimately show ?thesis using True claim_block[OF inv k] by (simp add: init_block_def)
next
  case False
  have "bst s i = UNINIT_FRAME" if "list_all (\<lambda>j. bst s (i + j) = UNINIT_FRAME) [0..<2 ^ k]"
    using that unfolding list_all_iff by (auto dest: bspec[of _ _ 0])
  with False have "init_block k i s = s"
    by (auto simp: init_block_def frames_subset_uninit)
  moreover have "\<not> frames h k \<subseteq> uninit s"
    if h: "h < i + 2 ^ k" "2 ^ k dvd h" "h + 2 ^ k \<le> TOTAL_FRAME" for h
  proof (cases "h < i")
    case True
    with inv h show ?thesis by (auto simp: inner_inv_def)
  next
    case hi: False
    have "2 ^ k dvd i" using inv by (simp add: inner_inv_def)
    with hi h(2) have "2 ^ k dvd h - i" by (simp add: dvd_diff_nat)
    moreover have "h - i < 2 ^ k" using h(1) hi by simp
    ultimately have "\<not> 0 < h - i" by (metis nat_dvd_not_less)
    with hi have "h = i" by simp
    with False h(3) show ?thesis by simp
  qed
  ultimately show ?thesis using inv by (auto simp: inner_inv_def)
qed

lemma init_scan_inner:
  assumes "inner_inv R k U i s" "k \<le> MAX_ORDER"
  shows "\<exists>i'. TOTAL_FRAME \<le> i' \<and> inner_inv R k U i' (init_scan k i s)"
  using assms
proof (induction k i s rule: init_scan.induct)
  case (1 k i s)
  show ?case
  proof (cases "i < TOTAL_FRAME")
    case True
    from "1.IH"[OF True init_block_inner[OF "1.prems"] "1.prems"(2)] True show ?thesis
      by (subst init_scan.simps) simp
  next
    case False
    with "1.prems"(1) show ?thesis by (subst init_scan.simps) (intro exI[of _ i], simp)
  qed
qed

lemma init_scan_inv:
  assumes inv: "scan_inv R (Suc k) s" and k: "k \<le> MAX_ORDER"
  shows "scan_inv R k (init_scan k 0 s)"
proof -
  have "inner_inv R k (uninit s) 0 s"
    using inv by (auto simp: scan_inv_def inner_inv_def)
  from init_scan_inner[OF this k] obtain i' where i': "TOTAL_FRAME \<le> i'"
    "inner_inv R k (uninit s) i' (init_scan k 0 s)" by blast
  then show ?thesis unfolding scan_inv_def inner_inv_def no_run_def
    by (metis add_leD1 le_less_trans less_le_trans less_add_same_cancel1 zero_less_numeral zero_less_power
        order_less_le_trans)
qed

lemma fold_init_scan:
  assumes "scan_inv R n s" "n \<le> Suc MAX_ORDER"
  shows "scan_inv R 0 (fold (\<lambda>k. init_scan k 0) (rev [0..<n]) s)"
  using assms
proof (induction n arbitrary: s)
  case (Suc n)
  from Suc.IH[OF init_scan_inv[OF Suc.prems(1)]] Suc.prems(2) show ?case by simp
qed simp

definition reset_frame :: "nat \<Rightarrow> buddy_t \<Rightarrow> buddy_t" where
  "reset_frame i b = b\<lparr>b_index := i,
            b_status := (if b_status b \<noteq> RESERVED_FRAME then UNINIT_FRAME else b_status b),
            b_next := None, b_prev := None, b_allocated_order := -1,
            b_slab_ptr := None, b_is_slab_page := False\<rparr>"

lemma fold_init_frame:
  "fold init_frame [0..<n] s =
     s\<lparr>buddy_frame_array := (\<lambda>i. if i < n then reset_frame i (buddy_frame_array s i)
                                 else buddy_frame_array s i)\<rparr>"
proof (induction n)
  case (Suc n)
  then show ?case
    by (simp add: init_frame_def upd_frame_def reset_frame_def[symmetric] fun_eq_iff less_Suc_eq
        cong: if_cong)
qed simp

text \<open>The allocator after boot: the invariant holds, nothing is allocated and the free frames
  are exactly the frames that were not reserved.\<close>

lemma buddy_init_inv:
  assumes "diag s = []"
  defines "R \<equiv> {i. i < TOTAL_FRAME \<and> bst s i = RESERVED_FRAME}"
  shows "buddy_inv (buddy_init s)" "free_frames (buddy_init s) = {..<TOTAL_FRAME} - R"
    "allocated_frames (buddy_init s) = {}" "diag (buddy_init s) = []"
proof -
  let ?s1 = "s\<lparr>free_frame_lists := (\<lambda>i. if i \<le> MAX_ORDER then None else free_frame_lists s i)\<rparr>"
  let ?s2 = "fold init_frame [0..<TOTAL_FRAME] ?s1"
  have st: "bst ?s2 i = (if i \<in> R then RESERVED_FRAME else UNINIT_FRAME)" if "i < TOTAL_FRAME" for i
    using that by (simp add: fold_init_frame reset_frame_def R_def)
  have fh: "free_heads {} ?s2 k = {}" for k
    using st by (auto simp: free_heads_def frame_states split: if_splits)
  have ah: "alloc_heads {} ?s2 k = {}" for k
    using st by (auto simp: alloc_heads_def frame_states split: if_splits)
  have "shape_ok {} ?s2" unfolding shape_ok_def
  proof (intro allI impI conjI)
    fix i assume i: "i < TOTAL_FRAME"
    show "b_index (buddy_frame_array ?s2 i) = i" using i by (simp add: fold_init_frame reset_frame_def)
    assume "bst ?s2 i \<ge> 0 \<or> bst ?s2 i = ALLOCATED_FRAME"
    with st[OF i] show "\<exists>k\<le>MAX_ORDER. block_at ?s2 i k \<and> block_ok ?s2 i k"
      by (auto simp: frame_states split: if_splits)
  qed
  moreover have "lists_rep ?s2 (free_heads {} ?s2)"
    unfolding fl.rep_def fh by (simp add: fold_init_frame)
  moreover have "coalesced {} ?s2" by (simp add: coalesced_def fh)
  ultimately have "buddy_inv ?s2" by (simp add: buddy_inv_def gen_inv_def)
  moreover have "free_frames ?s2 = {}" "allocated_frames ?s2 = {}"
    by (auto simp: free_frames_def gen_free_def allocated_frames_def gen_alloc_def in_heads_frames fh ah)
  moreover have "uninit ?s2 = {..<TOTAL_FRAME} - R"
    using st by (auto simp: uninit_def frame_states split: if_splits)
  moreover have "diag ?s2 = []" using assms(1) by (simp add: fold_init_frame)
  ultimately have "scan_inv R (Suc MAX_ORDER) ?s2"
    using st fh by (auto simp: scan_inv_def base_inv_def frame_states split: if_splits)
  from fold_init_scan[OF this order_refl] have inv: "scan_inv R 0 (buddy_init s)"
    by (simp add: buddy_init_def)
  then have "base_inv R (buddy_init s)" and nr: "no_run 0 (uninit (buddy_init s))"
    by (auto simp: scan_inv_def)
  moreover have "uninit (buddy_init s) = {}"
    using nr by (auto simp: no_run_def frames_def uninit_def)
  ultimately show "buddy_inv (buddy_init s)" "free_frames (buddy_init s) = {..<TOTAL_FRAME} - R"
    "allocated_frames (buddy_init s) = {}" "diag (buddy_init s) = []"
    by (auto simp: base_inv_def)
qed

end
