(* ===== verification/Kmalloc.thy ===== *)
theory Kmalloc
  imports Slab_Ops Buddy_Init
begin

text \<open>
  The interface the kernel uses: \<open>kmalloc\<close>, \<open>kfree\<close> and \<open>init_allocator\<close> keep the whole
  allocator's invariant \<open>kmem_inv\<close>, a page allocation returns a block of free frames large enough
  for the request, freeing it restores the free set, and an address that is not the start of
  anything allocated is only reported.
\<close>

section \<open>The buddy operations keep the slab pages\<close>

lemma kmem_inv_transport:
  assumes inv: "kmem_inv s" and b: "buddy_inv s'" and sv: "slab_view s' = slab_view s"
    and ah: "\<And>p. p < TOTAL_FRAME \<Longrightarrow> s_available (slab_frame_array s p) = 0 \<Longrightarrow>
      p \<in> alloc_heads {} s 0 \<Longrightarrow> p \<in> alloc_heads {} s' 0"
  shows "kmem_inv s'" "live s' = live s"
proof -
  note v = slab_viewD[OF sv]
  have "frame_ok s' p" if p: "p < TOTAL_FRAME" for p
  proof (rule page_ok_other_links)
    show "frame_ok s p" using inv p by (simp add: kmem_inv_def pages_ok_def)
  qed (use ah[OF p] in \<open>simp_all add: v\<close>)
  moreover have "slab_pages s' = slab_pages s" by (simp add: slab_pages_def v fun_eq_iff)
  moreover have "sl.rep 8 s' (slab_pages s)"
    using inv unfolding kmem_inv_def by (elim conjE) (erule sl.rep_frame, simp_all add: v)
  ultimately show "kmem_inv s'" using b by (simp add: kmem_inv_def pages_ok_def)
  show "live s' = live s" by (simp add: live_def v)
qed

lemma buddy_allocate_kmem:
  assumes "kmem_inv s"
  shows "kmem_inv (fst (buddy_allocate k s))" "live (fst (buddy_allocate k s)) = live s"
proof -
  have bi: "buddy_inv s" using assms by (simp add: kmem_inv_def)
  obtain s' r where al: "buddy_allocate k s = (s', r)" by fastforce
  have post: "alloc_post k s (s', r)" using buddy_allocate_post(1)[OF bi, of k] al by simp
  have "kmem_inv s' \<and> live s' = live s"
  proof (cases r)
    case None
    with post assms show ?thesis by (simp add: alloc_post_def)
  next
    case (Some b)
    with post have "buddy_inv s'"
      "alloc_heads {} s' = (alloc_heads {} s)(k := insert b (alloc_heads {} s k))"
      by (auto simp: alloc_post_def)
    moreover have "slab_view s' = slab_view s" using slab_view_alloc[of k s] al by simp
    ultimately show ?thesis using kmem_inv_transport[OF assms] by auto
  qed
  then show "kmem_inv (fst (buddy_allocate k s))" "live (fst (buddy_allocate k s)) = live s"
    using al by simp_all
qed

text \<open>Freeing a block that is not a slab page.\<close>

lemma buddy_free_kmem:
  assumes inv: "kmem_inv s" and b: "b < TOTAL_FRAME" "bst s b = ALLOCATED_FRAME"
    and ns: "\<not> b_is_slab_page (buddy_frame_array s b)"
  shows "kmem_inv (buddy_free b s)" "live (buddy_free b s) = live s"
proof -
  have bi: "buddy_inv s" using inv by (simp add: kmem_inv_def)
  from buddy_free_post[OF bi b] obtain k where f: "buddy_inv (buddy_free b s)"
    "alloc_heads {} (buddy_free b s) = (alloc_heads {} s)(k := alloc_heads {} s k - {b})"
    by (auto simp: free_post_def)
  have nb: "s_available (slab_frame_array s b) \<noteq> 0"
    using inv b(1) ns by (auto simp: kmem_inv_def pages_ok_def frame_ok_def)
  have "p \<in> alloc_heads {} (buddy_free b s) 0"
    if "s_available (slab_frame_array s p) = 0" "p \<in> alloc_heads {} s 0" for p
    using that nb by (cases "p = b") (auto simp: f(2))
  then show "kmem_inv (buddy_free b s)" "live (buddy_free b s) = live s"
    using kmem_inv_transport[OF inv f(1) slab_view_free] by blast+
qed

section \<open>\<open>kmalloc\<close>\<close>

text \<open>The tenth size class is zero, so every request for at least one byte is served in pages.\<close>

lemma kmalloc_page: "sz \<noteq> 0 \<Longrightarrow> kmalloc sz s = Some (malloc_b sz s)"
  by (simp add: kmalloc_def slab_sizes_def SLAB_TYPE_def unat_eq_zero)

lemma kmalloc_zero: "kmalloc 0 s = malloc_s 0 s"
  by (simp add: kmalloc_def)

text \<open>The bytes of a block of frames.\<close>

definition block_bytes :: "nat \<Rightarrow> nat \<Rightarrow> nat set" where
  "block_bytes b k = {unat BUDDY_MEMORY_BASE + FRAME_SIZE * b ..< unat BUDDY_MEMORY_BASE + FRAME_SIZE * (b + 2 ^ k)}"

definition page_post :: "32 word \<Rightarrow> kmem \<Rightarrow> kmem \<Rightarrow> 64 word \<Rightarrow> bool" where
  "page_post sz s s' a \<longleftrightarrow> (\<exists>b. let k = size2order sz in
     a = index2address (of_nat b) \<and> a \<noteq> 0 \<and> b < TOTAL_FRAME \<and> 2 ^ k dvd b \<and>
     frames b k \<subseteq> free_frames s \<and> free_frames s' = free_frames s - frames b k \<and>
     allocated_frames s' = allocated_frames s \<union> frames b k \<and>
     b \<in> alloc_heads {} s' k \<and> \<not> b_is_slab_page (buddy_frame_array s' b) \<and>
     alloc_heads {} s' = (alloc_heads {} s)(k := insert b (alloc_heads {} s k)) \<and>
     slab_view s' = slab_view s \<and> diag s' = diag s \<and> kmem_inv s' \<and> live s' = live s \<and>
     (unat sz + 4095 < 2 ^ 32 \<longrightarrow> {unat a ..< unat a + unat sz} \<subseteq> block_bytes b k))"

lemma index2address_nonzero: "b < TOTAL_FRAME \<Longrightarrow> index2address (of_nat b) \<noteq> 0"
  using unat_index2address[of b 0] by auto

lemma malloc_b_post:
  assumes inv: "kmem_inv s" and sz: "sz \<noteq> 0"
  shows "(malloc_b sz s = (report Allocate_fail s, 0) \<and> snd (buddy_allocate (size2order sz) s) = None) \<or>
    (\<exists>s' a. malloc_b sz s = (s', a) \<and> page_post sz s s' a)"
proof -
  let ?k = "size2order sz"
  have bi: "buddy_inv s" using inv by (simp add: kmem_inv_def)
  obtain s' r where al: "buddy_allocate ?k s = (s', r)" by fastforce
  have post: "alloc_post ?k s (s', r)" using buddy_allocate_post(1)[OF bi, of ?k] al by simp
  have ki: "kmem_inv s'" "live s' = live s" using buddy_allocate_kmem[OF inv, of ?k] al by simp_all
  show ?thesis
  proof (cases r)
    case None
    with post al show ?thesis by (simp add: malloc_b_def alloc_post_def)
  next
    case (Some b)
    have p: "buddy_inv s'" "b < TOTAL_FRAME" "2 ^ ?k dvd b" "frames b ?k \<subseteq> free_frames s"
      "free_frames s' = free_frames s - frames b ?k" "diag s' = diag s"
      and ah: "alloc_heads {} s' = (alloc_heads {} s)(?k := insert b (alloc_heads {} s ?k))"
      using post Some by (simp_all add: alloc_post_def)
    have mb: "malloc_b sz s = (s', index2address (of_nat b))" by (simp add: malloc_b_def al Some)
    have "b \<in> free_frames s" using p(4) head_in_frames by blast
    then have "\<not> b_is_slab_page (buddy_frame_array s b)"
      using free_frame_no_page(3)[OF inv p(2)] by blast
    moreover have sv: "slab_view s' = slab_view s" using slab_view_alloc[of ?k s] al by simp
    ultimately have ns: "\<not> b_is_slab_page (buddy_frame_array s' b)"
      using slab_viewD(4)[OF sv, of b] by simp
    have ua: "unat (index2address (of_nat b)) = 0xffff000000000000 + b * 4096"
      using unat_index2address[OF p(2), of 0] by simp
    have "{unat (index2address (of_nat b)) ..< unat (index2address (of_nat b)) + unat sz} \<subseteq>
        block_bytes b ?k" if "unat sz + 4095 < 2 ^ 32"
      using size2order_least(1)[OF sz that]
      by (auto simp: ua block_bytes_def BUDDY_MEMORY_BASE_def FRAME_SIZE_def)
    then have "page_post sz s s' (index2address (of_nat b))"
      unfolding page_post_def Let_def
      using p ki ns sv ah index2address_nonzero[OF p(2)] alloc_heads_insert_frames[OF ah] fun_cong[OF ah, of ?k]
      by (intro exI[of _ b] conjI) simp_all
    with mb show ?thesis by blast
  qed
qed

text \<open>A block of the right order is found whenever an aligned free region of that size exists.\<close>

lemma malloc_b_complete:
  assumes inv: "kmem_inv s" and sz: "sz \<noteq> 0" and r: "2 ^ size2order sz dvd i"
    "frames i (size2order sz) \<subseteq> free_frames s" "size2order sz \<le> MAX_ORDER"
  shows "\<exists>s' a. malloc_b sz s = (s', a) \<and> page_post sz s s' a"
proof -
  have "buddy_inv s" using inv by (simp add: kmem_inv_def)
  from alloc_complete[OF this r] malloc_b_post[OF inv sz] show ?thesis
    by (elim disjE conjE) simp_all
qed

lemma slot_address_inside:
  assumes inv: "kmem_inv s" and l: "(p, i) \<in> live s"
  obtains d where "slot_address s (p, i) = index2address (of_nat p) + of_nat d" "d < 4096" "p < TOTAL_FRAME"
proof -
  obtain t where t: "page_ok s p t" "i \<in> used_slots s p t" "p < TOTAL_FRAME"
    using live_page[OF inv l] .
  note ct = class_table[OF page_okD(1)[OF t(1)]]
  have z: "0 < slab_sizes ! t" using ct by linarith
  have "i < nslots t" using t(2) by (simp add: used_slots_def)
  then have "i * slab_sizes ! t < 4096" using ct z by (metis mult.commute nat_mult_less_cancel1)
  moreover have "slot_address s (p, i) = index2address (of_nat p) + of_nat (i * slab_sizes ! t)"
    using page_okD(3)[OF t(1)] by (simp add: slot_address_def)
  ultimately show thesis using that t(3) by blast
qed

lemma malloc_s_post:
  assumes inv: "kmem_inv s" and sz: "unat sz \<le> 2048"
  shows "\<exists>s' a. malloc_s sz s = Some (s', a) \<and> kmem_inv s' \<and>
    (a = 0 \<and> s' = report Slab_allocate_fail (report Allocate_fail s) \<or>
     (\<exists>p i. (p, i) \<notin> live s \<and> live s' = insert (p, i) (live s) \<and> a = slot_address s' (p, i) \<and> a \<noteq> 0 \<and>
        int (unat sz) \<le> s_slab_size (slab_frame_array s' p) \<and> diag s' = diag s \<and> rest_same s s'))"
proof -
  obtain s' a where al: "slab_allocate (unat sz) s = Some (s', a)" and post: "slab_post (unat sz) s (s', a)"
    using slab_allocate_post[OF inv sz] by auto
  show ?thesis
  proof (cases "a = -1")
    case True
    then have "a = -1 \<and> live s' = live s \<and> s' = report Allocate_fail s \<or> (\<exists>p i. (p, i) \<in> live s' \<and>
        a = slot_address s' (p, i))" using post unfolding slab_post_def by blast
    moreover have "slot_address s' (p, i) \<noteq> -1" if "(p, i) \<in> live s'" for p i
    proof -
      have "kmem_inv s'" using post by (simp add: slab_post_def)
      from this that obtain d where d: "slot_address s' (p, i) = index2address (of_nat p) + of_nat d"
        "d < 4096" "p < TOTAL_FRAME" by (rule slot_address_inside)
      then have "unat (slot_address s' (p, i)) < 2 ^ 64 - 1"
        using unat_index2address[of p d] by (simp add: TOTAL_FRAME_def)
      moreover have "unat (-1 :: 64 word) = 2 ^ 64 - 1" by (simp add: unsigned_minus_1_eq_mask mask_eq_exp_minus_1)
      ultimately show ?thesis by force
    qed
    ultimately have "live s' = live s" "s' = report Allocate_fail s" using True by blast+
    then show ?thesis using True al post by (simp add: malloc_s_def slab_post_def)
  next
    case False
    with post obtain p i where h: "kmem_inv s'" "(p, i) \<notin> live s" "live s' = insert (p, i) (live s)"
      "a = slot_address s' (p, i)" "int (unat sz) \<le> s_slab_size (slab_frame_array s' p)" "diag s' = diag s" "rest_same s s'"
      unfolding slab_post_def by blast
    obtain d where "a = index2address (of_nat p) + of_nat d" "d < 4096" "p < TOTAL_FRAME"
      using slot_address_inside[OF h(1), of p i] h(3,4) by blast
    then have "a \<noteq> 0" using unat_index2address[of p d] by auto
    then show ?thesis using h False al by (auto simp: malloc_s_def)
  qed
qed

section \<open>\<open>kfree\<close>\<close>

text \<open>\<open>kfree\<close> sees only the frame an address lies in.\<close>

lemma kfree_inside:
  assumes b: "b < TOTAL_FRAME" and d: "d < 4096"
  shows "kfree (index2address (of_nat b) + of_nat d) s =
    (if b_is_slab_page (buddy_frame_array s b)
     then (case b_slab_ptr (buddy_frame_array s b) of None \<Rightarrow> Some (report Slab_not_slab s)
       | Some p \<Rightarrow> Some (slab_free (Some p) (index2address (of_nat b) + of_nat d) s))
     else if bst s b = ALLOCATED_FRAME then Some (buddy_free b s) else Some (report Buddy_free_fail s))"
proof -
  have "index2address (of_nat b) + of_nat d \<noteq> 0" using unat_index2address[of b d] b d by auto
  then show ?thesis
    using b address2index_inside[OF b d] by (simp add: kfree_def free_s_def free_b_def Let_def)
qed

lemma kfree_page:
  assumes inv: "kmem_inv s" and post: "page_post sz s s' a"
  shows "\<exists>s''. kfree a s' = Some s'' \<and> kmem_inv s'' \<and> free_frames s'' = free_frames s \<and>
    free_heads {} s'' = free_heads {} s \<and> allocated_frames s'' = allocated_frames s \<and>
    live s'' = live s \<and> diag s'' = diag s"
proof -
  from post obtain b where b: "a = index2address (of_nat b)" "b < TOTAL_FRAME"
    "frames b (size2order sz) \<subseteq> free_frames s" "free_frames s' = free_frames s - frames b (size2order sz)"
    "allocated_frames s' = allocated_frames s \<union> frames b (size2order sz)"
    "b \<in> alloc_heads {} s' (size2order sz)" "\<not> b_is_slab_page (buddy_frame_array s' b)" "diag s' = diag s"
    "kmem_inv s'" "live s' = live s"
    unfolding page_post_def Let_def by blast
  let ?s = "buddy_free b s'" and ?k = "size2order sz"
  have st: "bst s' b = ALLOCATED_FRAME" "border s' b = int ?k" using b(6) by (auto simp: alloc_heads_def)
  have kf: "kfree a s' = Some ?s"
    using kfree_inside[OF b(2), of 0 s'] b(1,7) st(1) by simp
  have bi: "buddy_inv s" "buddy_inv s'" using inv b(9) by (simp_all add: kmem_inv_def)
  have fp: "buddy_inv ?s" "free_frames ?s = free_frames s' \<union> frames b ?k"
    "allocated_frames ?s = allocated_frames s' - frames b ?k" "diag ?s = diag s'"
    using buddy_free_post[OF bi(2) b(2) st(1)] st(2) by (auto simp: free_post_def)
  have ff: "free_frames ?s = free_frames s" using fp(2) b(3,4) by blast
  moreover have "free_heads {} ?s = free_heads {} s"
    using free_heads_canonical[OF fp(1) bi(1) ff] by (simp add: fun_eq_iff)
  moreover have "allocated_frames ?s = allocated_frames s"
    using fp(3) b(3,5) free_alloc_disjoint[OF bi(1)] by blast
  moreover note buddy_free_kmem[OF b(9,2) st(1) b(7)]
  ultimately show ?thesis using kf b(8,10) fp(4) by simp
qed

text \<open>Freeing the same page address twice: the second call only prints.\<close>

lemma kfree_page_twice:
  assumes inv: "kmem_inv s" and post: "page_post sz s s' a" and kf: "kfree a s' = Some s''"
  shows "kfree a s'' = Some (report Buddy_free_fail s'')"
proof -
  from post obtain b where b: "a = index2address (of_nat b)" "b < TOTAL_FRAME"
    "b \<in> alloc_heads {} s' (size2order sz)" "\<not> b_is_slab_page (buddy_frame_array s' b)" "kmem_inv s'"
    unfolding page_post_def Let_def by blast
  have st: "bst s' b = ALLOCATED_FRAME" using b(3) by (auto simp: alloc_heads_def)
  have s'': "s'' = buddy_free b s'" using kf kfree_inside[OF b(2), of 0 s'] b(1,4) st by simp
  have bi: "buddy_inv s'" using b(5) by (simp add: kmem_inv_def)
  from buddy_free_post[OF bi b(2) st] obtain k where k: "border s' b = int k" "buddy_inv s''"
    "alloc_heads {} s'' = (alloc_heads {} s')(k := alloc_heads {} s' k - {b})"
    unfolding free_post_def s'' by blast
  have "b \<notin> alloc_heads {} s'' l" for l
    using k(1) by (cases "l = k") (auto simp: k(3), simp add: alloc_heads_def)
  have "bst s'' b \<noteq> ALLOCATED_FRAME"
  proof
    assume a: "bst s'' b = ALLOCATED_FRAME"
    have "shape_ok {} s''" using k(2) by (simp add: buddy_inv_def gen_inv_def)
    with a b(2) obtain l where "block_at s'' b l" by (auto elim: shapeD)
    with a b(2) have "b \<in> alloc_heads {} s'' l" by (auto simp: block_at_def alloc_heads_def frame_states)
    with \<open>b \<notin> alloc_heads {} s'' l\<close> show False ..
  qed
  moreover have "\<not> b_is_slab_page (buddy_frame_array s'' b)"
    using b(4) slab_viewD(4)[OF slab_view_free, of b s' b] by (simp add: s'')
  ultimately show ?thesis using kfree_inside[OF b(2), of 0 s''] b(1) by simp
qed

lemma kfree_slot:
  assumes inv: "kmem_inv s" and l: "(p, i) \<in> live s"
  shows "\<exists>s'. kfree (slot_address s (p, i)) s = Some s' \<and> slab_free_post p i s s'"
proof -
  obtain t where t: "page_ok s p t" "s_available (slab_frame_array s p) = 0" "p < TOTAL_FRAME"
    using live_page[OF inv l] .
  obtain d where d: "slot_address s (p, i) = index2address (of_nat p) + of_nat d" "d < 4096"
    using slot_address_inside[OF inv l] .
  have "b_is_slab_page (buddy_frame_array s p)"
    using inv t(2,3) by (simp add: kmem_inv_def pages_ok_def frame_ok_def)
  with kfree_inside[OF t(3) d(2), of s] page_okD(8)[OF t(1)] slab_free_live[OF inv l] show ?thesis
    by (simp add: d(1))
qed

end
