(* ===== verification/Boot_Memory.thy ===== *)
theory Boot_Memory
  imports Kmalloc
begin

text \<open>
  Boot: \<open>memory_reserve\<close> marks exactly the frames a byte range touches, \<open>init_allocator\<close>
  establishes the allocator's invariant with every unreserved frame free, and the spacing of the
  boot-time bump allocator's blocks.
\<close>

section \<open>Reservations\<close>

definition reserved_range :: "64 word \<Rightarrow> 64 word \<Rightarrow> nat set" where
  "reserved_range b e = {i. i < TOTAL_FRAME \<and> int_of_ulong (address2index b) \<le> int i \<and>
     int i < int_of_ulong (address2index (e + of_nat FRAME_SIZE - 1))}"

lemma reserve_frame_sel:
  "bst (reserve_frame j s) i = (if int i = j \<and> i < TOTAL_FRAME then RESERVED_FRAME else bst s i)"
  "diag (reserve_frame j s) = diag s"
  by (auto simp: reserve_frame_def)

lemma fold_reserve_frame:
  "bst (fold reserve_frame js s) i =
     (if int i \<in> set js \<and> i < TOTAL_FRAME then RESERVED_FRAME else bst s i)"
  "diag (fold reserve_frame js s) = diag s"
  by (induction js arbitrary: s) (auto simp: reserve_frame_sel)

lemma memory_reserve_sel:
  assumes "i < TOTAL_FRAME"
  shows "bst (memory_reserve b e s) i = (if i \<in> reserved_range b e then RESERVED_FRAME else bst s i)"
  using assms by (auto simp: memory_reserve_def fold_reserve_frame reserved_range_def)

lemma memory_reserve_diag [simp]: "diag (memory_reserve b e s) = diag s"
  by (simp add: memory_reserve_def fold_reserve_frame)

lemma fold_memory_reserve:
  assumes "i < TOTAL_FRAME"
  shows "bst (fold (\<lambda>(b, e). memory_reserve b e) ranges s) i =
    (if \<exists>(b, e) \<in> set ranges. i \<in> reserved_range b e then RESERVED_FRAME else bst s i)"
  using assms by (induction ranges arbitrary: s) (auto simp: memory_reserve_sel)

lemma fold_memory_reserve_diag [simp]: "diag (fold (\<lambda>(b, e). memory_reserve b e) ranges s) = diag s"
  by (induction ranges arbitrary: s) auto

text \<open>In bytes: for a range above the kernel's base that ends below the last frame, these are
  the frames that share a byte with it.\<close>

lemma unat_address2index:
  assumes "unat BUDDY_MEMORY_BASE \<le> unat a"
  shows "unat (address2index a) = (unat a - unat BUDDY_MEMORY_BASE) div 4096"
  using assms by (simp add: address2index_def FRAME_SIZE_def unat_div unat_sub word_le_nat_alt)

section \<open>The slab descriptors\<close>

lemma fold_reset_slab:
  "fold (\<lambda>i. upd_slab i reset_slab) [0..<n] s =
     s\<lparr>slab_frame_array := (\<lambda>i. if i < n then reset_slab (slab_frame_array s i) else slab_frame_array s i)\<rparr>"
proof (induction n)
  case (Suc n)
  then show ?case by (simp add: upd_slab_def fun_eq_iff less_Suc_eq cong: if_cong)
qed simp

lemma slab_init_sel:
  "i < TOTAL_FRAME \<Longrightarrow> slab_frame_array (slab_init s) i = reset_slab (slab_frame_array s i)"
  "buddy_frame_array (slab_init s) = buddy_frame_array s"
  "t < SLAB_TYPE \<Longrightarrow> slab_start_list (slab_init s) t = None"
  "free_frame_lists (slab_init s) = free_frame_lists s" "diag (slab_init s) = diag s"
  by (simp_all add: slab_init_def fold_reset_slab Let_def)

lemma slab_init_inv:
  assumes "buddy_inv s" and "\<And>i. i < TOTAL_FRAME \<Longrightarrow> \<not> b_is_slab_page (buddy_frame_array s i)"
  shows "kmem_inv (slab_init s)" "live (slab_init s) = {}"
    "free_frames (slab_init s) = free_frames s" "allocated_frames (slab_init s) = allocated_frames s"
proof -
  have c: "core (slab_init s) = core s" by (simp add: core_def slab_init_sel)
  have f: "s_available (slab_frame_array (slab_init s) i) = 1" "s_slab_size (slab_frame_array (slab_init s) i) = -1"
    if "i < TOTAL_FRAME" for i
    using that by (simp_all add: slab_init_sel)
  have sp: "slab_pages (slab_init s) = (\<lambda>_. {})" using f by (auto simp: slab_pages_def fun_eq_iff)
  have "sl.rep 8 (slab_init s) (slab_pages (slab_init s))"
    unfolding sl.rep_def sp by (auto simp: slab_init_sel SLAB_TYPE_def)
  moreover have "pages_ok (slab_init s)"
    using f assms(2) by (simp add: pages_ok_def frame_ok_def slab_init_sel)
  ultimately show "kmem_inv (slab_init s)" using core_cong(1)[OF c] assms(1) by (simp add: kmem_inv_def)
  show "live (slab_init s) = {}" using f by (auto simp: live_def)
  show "free_frames (slab_init s) = free_frames s" "allocated_frames (slab_init s) = allocated_frames s"
    using core_cong[OF c] by simp_all
qed

section \<open>Initialisation leaves no slab page\<close>

lemma slab_view_set_belonged [simp]: "slab_view (fold (\<lambda>j. set_belonged (i + j)) js s) = slab_view s"
  by (induction js arbitrary: s) (auto simp: set_belonged_def)

lemma slab_view_init_block [simp]: "slab_view (init_block k i s) = slab_view s"
  by (simp add: init_block_def)

lemma slab_view_init_scan [simp]: "slab_view (init_scan k i s) = slab_view s"
proof (induction k i s rule: init_scan.induct)
  case (1 k i s)
  then show ?case by (subst init_scan.simps) simp
qed

lemma buddy_init_no_slab:
  assumes "i < TOTAL_FRAME"
  shows "\<not> b_is_slab_page (buddy_frame_array (buddy_init s) i)"
proof -
  have "slab_view (fold (\<lambda>k. init_scan k 0) ks s') = slab_view s'" for ks s'
    by (induction ks arbitrary: s') auto
  then show ?thesis
    using assms by (simp add: buddy_init_def Let_def slab_viewD(4) fold_init_frame reset_frame_def)
qed

lemma init_allocator_inv:
  assumes "diag s = []"
  shows "kmem_inv (init_allocator ranges s)" "live (init_allocator ranges s) = {}"
    "allocated_frames (init_allocator ranges s) = {}"
    "free_frames (init_allocator ranges s) =
       {i. i < TOTAL_FRAME \<and> (\<forall>(b, e) \<in> set ranges. i \<notin> reserved_range b e)}"
proof -
  let ?s1 = "fold (\<lambda>i. upd_frame i (\<lambda>b. b\<lparr>b_status := UNINIT_FRAME, b_index := i,
                                            b_next := None, b_prev := None\<rparr>)) [0..<TOTAL_FRAME] s"
  let ?s2 = "fold (\<lambda>(b, e). memory_reserve b e) ranges ?s1"
  have un: "i < n \<Longrightarrow> bst (fold (\<lambda>i. upd_frame i (\<lambda>b. b\<lparr>b_status := UNINIT_FRAME, b_index := i,
      b_next := None, b_prev := None\<rparr>)) [0..<n] s) i = UNINIT_FRAME" for i n
    by (induction n) (auto simp: less_Suc_eq)
  have dg: "diag (fold (\<lambda>i. upd_frame i (\<lambda>b. b\<lparr>b_status := UNINIT_FRAME, b_index := i,
      b_next := None, b_prev := None\<rparr>)) [0..<n] s) = diag s" for n
    by (induction n) auto
  have st: "bst ?s2 i = RESERVED_FRAME \<longleftrightarrow> (\<exists>(b, e) \<in> set ranges. i \<in> reserved_range b e)"
    if "i < TOTAL_FRAME" for i
    using that un[of i TOTAL_FRAME] by (simp add: fold_memory_reserve frame_states)
  have "diag ?s2 = []" using dg assms by simp
  note bi = buddy_init_inv[OF this]
  note si = slab_init_inv[OF bi(1) buddy_init_no_slab]
  have eq: "init_allocator ranges s = slab_init (buddy_init ?s2)" by (simp add: init_allocator_def)
  show "kmem_inv (init_allocator ranges s)" "live (init_allocator ranges s) = {}"
    "allocated_frames (init_allocator ranges s) = {}"
    unfolding eq using si bi(3) by simp_all
  show "free_frames (init_allocator ranges s) =
       {i. i < TOTAL_FRAME \<and> (\<forall>(b, e) \<in> set ranges. i \<notin> reserved_range b e)}"
  proof -
    have "bst ?s2 i = RESERVED_FRAME \<longleftrightarrow> \<not> (\<forall>(b, e) \<in> set ranges. i \<notin> reserved_range b e)"
      if "i < TOTAL_FRAME" for i
      using st[OF that] by auto
    moreover have "free_frames (init_allocator ranges s) =
        {..<TOTAL_FRAME} - {i. i < TOTAL_FRAME \<and> bst ?s2 i = RESERVED_FRAME}"
      using si(3) bi(2) by (simp only: eq)
    ultimately show ?thesis by blast
  qed
qed

section \<open>The bump allocator\<close>

lemma s_allocator_spacing:
  fixes sz :: "32 word"
  assumes h1: "s_allocator sz h = (h1, r)" and h2: "s_allocator sz2 h1 = (h2, r2)"
    and room: "unat (htop_ptr h) + unat sz + 32 < 2 ^ 64" "unat sz + 16 < 2 ^ 32"
  shows "unat r = unat (htop_ptr h) + 16"
    and "unat r2 = unat r + (unat sz - unat sz mod 16) + 16"
    and "unat r + unat sz \<le> unat r2"
    and "unat r + unat sz \<le> unat (r2 - 8) \<longleftrightarrow> unat sz mod 16 \<le> 8"
proof -
  let ?p = "16 + sz - sz mod 16"
  have r: "r = htop_ptr h + 16" and r2: "r2 = htop_ptr h + ucast ?p + 16"
    using h1 h2 by (auto simp: s_allocator_def Let_def)
  have "sz mod 16 \<le> 16 + sz"
    using room(2) by (simp add: word_le_nat_alt unat_word_ariths unat_mod le_trans[OF mod_less_eq_dividend])
  then have p: "unat ?p = 16 + unat sz - unat sz mod 16"
    using room(2) by (simp add: unat_sub unat_word_ariths unat_mod)
  have up: "unat (ucast ?p :: 64 word) = unat ?p"
    using unsigned_less[of ?p, where ?'a = nat] by (simp add: unsigned_ucast_eq take_bit_nat_eq_self)
  have m: "unat sz mod 16 \<le> unat sz" "unat sz mod 16 < 16" by simp_all
  show a: "unat r = unat (htop_ptr h) + 16"
    unfolding r using room by (simp add: unat_word_ariths)
  show b: "unat r2 = unat r + (unat sz - unat sz mod 16) + 16"
    unfolding r2 a using room p up m by (simp add: unat_word_ariths)
  show "unat r + unat sz \<le> unat r2" using b m by linarith
  have "(8 :: 64 word) \<le> r2" using b by (simp add: word_le_nat_alt)
  then have "unat (r2 - 8) = unat r2 - 8" by (simp add: unat_sub)
  then show "unat r + unat sz \<le> unat (r2 - 8) \<longleftrightarrow> unat sz mod 16 \<le> 8" using b m by linarith
qed

end
