(* ===== verification/Heap.thy ===== *)
theory Heap
  imports Kmalloc
begin

text \<open>
  The interface through which the rest of the kernel sees its memory allocator: which addresses
  are live, that a new one is fresh, that freeing a live address ends exactly its life, and that
  the byte ranges of live addresses never overlap.  The allocator of theory \<open>Memory\<close> is the
  provider; the clients are the task queue, the timer list, threads and the file system.
\<close>

section \<open>The interface\<close>

locale heap =
  fixes inv :: "'s \<Rightarrow> bool" and live :: "'s \<Rightarrow> 'a set" and extent :: "'s \<Rightarrow> 'a \<Rightarrow> nat set"
    and null :: 'a and bytes_at :: "'a \<Rightarrow> 'n \<Rightarrow> nat set" and valid_size :: "'n \<Rightarrow> bool"
    and alloc :: "'n \<Rightarrow> 's \<Rightarrow> ('s \<times> 'a) option" and free :: "'a \<Rightarrow> 's \<Rightarrow> 's option"
  assumes null_dead: "inv s \<Longrightarrow> null \<notin> live s"
    and extent_disjoint: "inv s \<Longrightarrow> a \<in> live s \<Longrightarrow> b \<in> live s \<Longrightarrow> a \<noteq> b \<Longrightarrow> extent s a \<inter> extent s b = {}"
    and alloc_total: "inv s \<Longrightarrow> valid_size n \<Longrightarrow> \<exists>s' a. alloc n s = Some (s', a)"
    and alloc_inv: "inv s \<Longrightarrow> valid_size n \<Longrightarrow> alloc n s = Some (s', a) \<Longrightarrow> inv s'"
    and alloc_null: "inv s \<Longrightarrow> valid_size n \<Longrightarrow> alloc n s = Some (s', null) \<Longrightarrow> live s' = live s"
    and alloc_fresh: "inv s \<Longrightarrow> valid_size n \<Longrightarrow> alloc n s = Some (s', a) \<Longrightarrow> a \<noteq> null \<Longrightarrow>
        a \<notin> live s \<and> live s' = insert a (live s)"
    and alloc_bytes: "inv s \<Longrightarrow> valid_size n \<Longrightarrow> alloc n s = Some (s', a) \<Longrightarrow> a \<noteq> null \<Longrightarrow>
        bytes_at a n \<subseteq> extent s' a"
    and alloc_frame: "inv s \<Longrightarrow> valid_size n \<Longrightarrow> alloc n s = Some (s', a) \<Longrightarrow> b \<in> live s \<Longrightarrow>
        extent s' b = extent s b"
    and free_ok: "inv s \<Longrightarrow> a \<in> live s \<Longrightarrow> \<exists>s'. free a s = Some s' \<and> inv s' \<and> live s' = live s - {a}"
    and free_frame: "inv s \<Longrightarrow> a \<in> live s \<Longrightarrow> free a s = Some s' \<Longrightarrow> b \<in> live s \<Longrightarrow> b \<noteq> a \<Longrightarrow>
        extent s' b = extent s b"
begin

text \<open>A client that keeps a list of what it was given and frees only from that list.\<close>

inductive client :: "('a \<times> 'n) list \<Rightarrow> 's \<Rightarrow> ('a \<times> 'n) list \<Rightarrow> 's \<Rightarrow> bool" where
  idle: "client own s own s"
| got: "client own s own' s' \<Longrightarrow> valid_size n \<Longrightarrow> alloc n s' = Some (s'', a) \<Longrightarrow> a \<noteq> null \<Longrightarrow>
    client own s ((a, n) # own') s''"
| refused: "client own s own' s' \<Longrightarrow> valid_size n \<Longrightarrow> alloc n s' = Some (s'', null) \<Longrightarrow>
    client own s own' s''"
| gave: "client own s (xs @ (a, n) # ys) s' \<Longrightarrow> free a s' = Some s'' \<Longrightarrow> client own s (xs @ ys) s''"

text \<open>What the client holds is live, pairwise different, and the ranges it asked for are inside
  pairwise disjoint extents.\<close>

definition holds :: "('a \<times> 'n) list \<Rightarrow> 's \<Rightarrow> bool" where
  "holds own s \<longleftrightarrow> inv s \<and> distinct (map fst own) \<and> (\<forall>(a, n) \<in> set own. a \<in> live s \<and> bytes_at a n \<subseteq> extent s a)"

lemma holds_bytes_disjoint:
  assumes "holds own s" "(a, n) \<in> set own" "(b, k) \<in> set own" "a \<noteq> b"
  shows "bytes_at a n \<inter> bytes_at b k = {}"
  using assms extent_disjoint[of s a b] unfolding holds_def by blast

lemma client_holds: "client own s own' s' \<Longrightarrow> holds own s \<Longrightarrow> holds own' s'"
proof (induction rule: client.induct)
  case (idle own s)
  then show ?case .
next
  case (got own s own' s' n s'' a)
  then have h: "holds own' s'" by blast
  then have i: "inv s'" by (simp add: holds_def)
  note al = alloc_fresh[OF i got.hyps(2,3,4)]
  have "a \<notin> fst ` set own'" using h al unfolding holds_def by auto
  moreover have "b \<in> live s'' \<and> bytes_at b k \<subseteq> extent s'' b" if "(b, k) \<in> set own'" for b k
  proof -
    from h that have "b \<in> live s'" "bytes_at b k \<subseteq> extent s' b" by (auto simp: holds_def)
    then show ?thesis using al alloc_frame[OF i got.hyps(2,3)] by auto
  qed
  ultimately show ?case
    using h alloc_inv[OF i got.hyps(2,3)] alloc_bytes[OF i got.hyps(2,3,4)] al by (auto simp: holds_def)
next
  case (refused own s own' s' n s'')
  then have h: "holds own' s'" by blast
  then have i: "inv s'" by (simp add: holds_def)
  have "b \<in> live s'' \<and> bytes_at b k \<subseteq> extent s'' b" if "(b, k) \<in> set own'" for b k
  proof -
    from h that have "b \<in> live s'" "bytes_at b k \<subseteq> extent s' b" by (auto simp: holds_def)
    then show ?thesis
      using alloc_null[OF i refused.hyps(2,3)] alloc_frame[OF i refused.hyps(2,3)] by simp
  qed
  then show ?case using h alloc_inv[OF i refused.hyps(2,3)] by (auto simp: holds_def)
next
  case (gave own s xs a n ys s' s'')
  then have h: "holds (xs @ (a, n) # ys) s'" by blast
  then have i: "inv s'" "a \<in> live s'" by (auto simp: holds_def)
  from free_ok[OF i] gave.hyps(2) have f: "inv s''" "live s'' = live s' - {a}" by auto
  have "b \<in> live s'' \<and> bytes_at b k \<subseteq> extent s'' b" if b: "(b, k) \<in> set (xs @ ys)" for b k
  proof -
    have "b \<noteq> a" using h b by (auto simp: holds_def rev_image_eqI)
    moreover have "b \<in> live s' \<and> bytes_at b k \<subseteq> extent s' b"
      using h b unfolding holds_def by fastforce
    ultimately show ?thesis using f free_frame[OF i gave.hyps(2)] by auto
  qed
  then show ?case using h f by (auto simp: holds_def)
qed

end

section \<open>The kernel allocator as a heap\<close>

definition blocks :: "kmem \<Rightarrow> 64 word set" where
  "blocks s = {a. \<exists>b k. a = index2address (of_nat b) \<and> b \<in> alloc_heads {} s k \<and>
     \<not> b_is_slab_page (buddy_frame_array s b)}"

definition frame_of :: "64 word \<Rightarrow> nat" where
  "frame_of a = (unat a - unat BUDDY_MEMORY_BASE) div 4096"

definition block_extent :: "kmem \<Rightarrow> 64 word \<Rightarrow> nat set" where
  "block_extent s a = block_bytes (frame_of a) (nat (border s (frame_of a)))"

definition bytes_from :: "64 word \<Rightarrow> 32 word \<Rightarrow> nat set" where
  "bytes_from a n = {unat a ..< unat a + unat n}"

text \<open>Sizes for which rounding up to frames does not wrap.\<close>

definition request_ok :: "32 word \<Rightarrow> bool" where
  "request_ok n \<longleftrightarrow> n \<noteq> 0 \<and> unat n + 4095 < 2 ^ 32"

lemma frame_of_index2address [simp]: "b < TOTAL_FRAME \<Longrightarrow> frame_of (index2address (of_nat b)) = b"
  using unat_index2address[of b 0] by (simp add: frame_of_def BUDDY_MEMORY_BASE_def)

lemma alloc_heads_lt: "b \<in> alloc_heads {} s k \<Longrightarrow> b < TOTAL_FRAME"
  by (simp add: alloc_heads_def)

lemma blocks_image: "blocks s = (\<lambda>b. index2address (of_nat b)) `
    {b. (\<exists>k. b \<in> alloc_heads {} s k) \<and> \<not> b_is_slab_page (buddy_frame_array s b)}"
  unfolding blocks_def by blast

lemma in_blocks: "b < TOTAL_FRAME \<Longrightarrow> index2address (of_nat b) \<in> blocks s \<longleftrightarrow>
    (\<exists>k. b \<in> alloc_heads {} s k) \<and> \<not> b_is_slab_page (buddy_frame_array s b)"
  using alloc_heads_lt frame_of_index2address unfolding blocks_def by (smt (verit) mem_Collect_eq)

lemma blocksE:
  assumes "a \<in> blocks s"
  obtains b k where "a = index2address (of_nat b)" "b < TOTAL_FRAME" "b \<in> alloc_heads {} s k"
    "\<not> b_is_slab_page (buddy_frame_array s b)" "block_extent s a = block_bytes b k"
    "bst s b = ALLOCATED_FRAME"
proof -
  from assms obtain b k where b: "a = index2address (of_nat b)" "b \<in> alloc_heads {} s k"
    "\<not> b_is_slab_page (buddy_frame_array s b)" unfolding blocks_def by blast
  have "b < TOTAL_FRAME" "border s b = int k" "bst s b = ALLOCATED_FRAME"
    using b(2) by (simp_all add: alloc_heads_def)
  with b that show thesis by (simp add: block_extent_def)
qed

lemma block_bytes_disjoint:
  assumes "frames b k \<inter> frames c l = {}"
  shows "block_bytes b k \<inter> block_bytes c l = {}"
proof -
  have "x div 4096 \<in> frames b k" if "x \<in> {4096 * b ..< 4096 * (b + 2 ^ k)}" for x b k
    using that by (auto simp: frames_def less_mult_imp_div_less mult.commute)
  moreover have "x - unat BUDDY_MEMORY_BASE \<in> {4096 * b ..< 4096 * (b + 2 ^ k)}" if "x \<in> block_bytes b k" for x b k
    using that by (auto simp: block_bytes_def FRAME_SIZE_def)
  ultimately show ?thesis using assms by blast
qed

lemma extents_disjoint:
  assumes inv: "kmem_inv s" and a: "a \<in> blocks s" and b: "b \<in> blocks s" and ne: "a \<noteq> b"
  shows "block_extent s a \<inter> block_extent s b = {}"
proof -
  obtain i k where i: "a = index2address (of_nat i)" "i \<in> alloc_heads {} s k" "block_extent s a = block_bytes i k"
    "bst s i = ALLOCATED_FRAME" using a by (rule blocksE)
  obtain j l where j: "b = index2address (of_nat j)" "j \<in> alloc_heads {} s l" "block_extent s b = block_bytes j l"
    "bst s j = ALLOCATED_FRAME" using b by (rule blocksE)
  have sh: "shape_ok {} s" using inv by (simp add: kmem_inv_def buddy_inv_def gen_inv_def)
  have "block_ok s i k" "block_ok s j l"
    using block_at_ok(2)[OF sh] i(2) j(2) by (auto simp: alloc_heads_def block_at_def)
  moreover have "i \<noteq> j" using ne i(1) j(1) by auto
  ultimately have "frames i k \<inter> frames j l = {}"
    using i(4) j(4) by (intro blocks_disjoint) (auto simp: frame_states)
  then show ?thesis unfolding i(3) j(3) by (rule block_bytes_disjoint)
qed

text \<open>What an allocation changes: the one new block.\<close>

lemma page_post_blocks:
  assumes inv: "kmem_inv s" and post: "page_post sz s s' a"
  shows "a \<notin> blocks s" "blocks s' = insert a (blocks s)"
    "\<And>b. b \<in> blocks s \<Longrightarrow> block_extent s' b = block_extent s b"
    "request_ok sz \<Longrightarrow> bytes_from a sz \<subseteq> block_extent s' a"
proof -
  let ?k = "size2order sz"
  from post obtain b where b: "a = index2address (of_nat b)" "b < TOTAL_FRAME"
    "frames b ?k \<subseteq> free_frames s" "\<not> b_is_slab_page (buddy_frame_array s' b)"
    "alloc_heads {} s' = (alloc_heads {} s)(?k := insert b (alloc_heads {} s ?k))"
    "slab_view s' = slab_view s"
    "unat sz + 4095 < 2 ^ 32 \<longrightarrow> {unat a ..< unat a + unat sz} \<subseteq> block_bytes b ?k"
    unfolding page_post_def Let_def by blast
  have "b \<in> free_frames s" using b(3) head_in_frames by blast
  moreover have "b \<notin> free_frames s" if "b \<in> alloc_heads {} s k" for k
  proof -
    have "b \<in> allocated_frames s" using that head_in_frames
      unfolding allocated_frames_def gen_alloc_def heads_frames_def by blast
    moreover have "buddy_inv s" using inv by (simp add: kmem_inv_def)
    ultimately show ?thesis using free_alloc_disjoint by blast
  qed
  ultimately have nb: "b \<notin> alloc_heads {} s k" for k by blast
  have pg: "b_is_slab_page (buddy_frame_array s' c) = b_is_slab_page (buddy_frame_array s c)" for c
    using slab_viewD(4)[OF b(6), of c] by simp
  show na: "a \<notin> blocks s" using nb in_blocks[OF b(2)] b(1) by blast
  have head: "c \<in> alloc_heads {} s' l \<longleftrightarrow> l = ?k \<and> c = b \<or> c \<in> alloc_heads {} s l" for c l
    by (simp add: b(5))
  then have heads: "(\<exists>k. c \<in> alloc_heads {} s' k) \<longleftrightarrow> c = b \<or> (\<exists>k. c \<in> alloc_heads {} s k)" for c
    by blast
  have "{c. (\<exists>k. c \<in> alloc_heads {} s' k) \<and> \<not> b_is_slab_page (buddy_frame_array s' c)} =
      insert b {c. (\<exists>k. c \<in> alloc_heads {} s k) \<and> \<not> b_is_slab_page (buddy_frame_array s c)}"
    unfolding heads using b(4) pg by (auto simp only: pg)
  then show "blocks s' = insert a (blocks s)" by (simp only: blocks_image image_insert b(1))
  have oa: "border s' b = int ?k" using fun_cong[OF b(5), of ?k] by (auto simp: alloc_heads_def)
  show "block_extent s' c = block_extent s c" if c: "c \<in> blocks s" for c
  proof -
    obtain j k where j: "c = index2address (of_nat j)" "j < TOTAL_FRAME" "j \<in> alloc_heads {} s k"
      using c by (rule blocksE)
    then have "j \<in> alloc_heads {} s' k" using head by blast
    then have "border s' j = int k" "border s j = int k" using j(3) by (auto simp: alloc_heads_def)
    then show ?thesis using j(1,2) by (simp add: block_extent_def)
  qed
  show "bytes_from a sz \<subseteq> block_extent s' a" if "request_ok sz"
    using that b(1,2,7) oa by (simp add: request_ok_def bytes_from_def block_extent_def)
qed

lemma kfree_blocks:
  assumes inv: "kmem_inv s" and a: "a \<in> blocks s" and kf: "kfree a s = Some s'"
  shows "blocks s' = blocks s - {a}" "\<And>b. b \<in> blocks s \<Longrightarrow> b \<noteq> a \<Longrightarrow> block_extent s' b = block_extent s b"
proof -
  obtain i k where i: "a = index2address (of_nat i)" "i < TOTAL_FRAME" "i \<in> alloc_heads {} s k"
    "\<not> b_is_slab_page (buddy_frame_array s i)" "bst s i = ALLOCATED_FRAME" using a by (rule blocksE)
  have s': "s' = buddy_free i s" using kf kfree_inside[OF i(2), of 0 s] i(1,4,5) by simp
  have bi: "buddy_inv s" using inv by (simp add: kmem_inv_def)
  have "border s i = int k" using i(3) by (simp add: alloc_heads_def)
  with buddy_free_post[OF bi i(2,5)] have ah:
    "alloc_heads {} s' = (alloc_heads {} s)(k := alloc_heads {} s k - {i})"
    by (auto simp: free_post_def s')
  have un: "l = k" if "i \<in> alloc_heads {} s l" for l
    using that i(3) by (simp add: alloc_heads_def)
  have pg: "b_is_slab_page (buddy_frame_array s' c) = b_is_slab_page (buddy_frame_array s c)" for c
    using slab_viewD(4)[OF slab_view_free, of i s c] by (simp add: s')
  have heads: "c \<in> alloc_heads {} s' l \<longleftrightarrow> c \<noteq> i \<and> c \<in> alloc_heads {} s l" for c l
    using un by (auto simp: ah)
  have "x \<in> blocks s' \<longleftrightarrow> x \<noteq> a \<and> x \<in> blocks s" for x
  proof (cases "\<exists>c < TOTAL_FRAME. x = index2address (of_nat c)")
    case True
    then obtain c where c: "c < TOTAL_FRAME" "x = index2address (of_nat c)" by blast
    have "x = a \<longleftrightarrow> c = i" using c i(1,2) frame_of_index2address by metis
    then show ?thesis using c heads pg by (simp add: in_blocks)
  next
    case False
    then show ?thesis by (meson blocksE)
  qed
  then show "blocks s' = blocks s - {a}" by blast
  show "block_extent s' c = block_extent s c" if c: "c \<in> blocks s" and ne: "c \<noteq> a" for c
  proof -
    obtain j l where j: "c = index2address (of_nat j)" "j < TOTAL_FRAME" "j \<in> alloc_heads {} s l"
      using c by (rule blocksE)
    then have "j \<in> alloc_heads {} s' l" using heads ne i(1) by blast
    then have "border s' j = int l" "border s j = int l" using j(3) by (auto simp: alloc_heads_def)
    then show ?thesis using j(1,2) by (simp add: block_extent_def)
  qed
qed

lemma kmalloc_cases:
  assumes "kmem_inv s" "request_ok n" "kmalloc n s = Some (s', a)"
  shows "a = 0 \<and> s' = report Allocate_fail s \<or> a \<noteq> 0 \<and> page_post n s s' a"
proof -
  have n: "n \<noteq> 0" using assms(2) by (simp add: request_ok_def)
  have mb: "malloc_b n s = (s', a)" using assms(3) kmalloc_page[OF n] by simp
  have "page_post n s s' a \<Longrightarrow> a \<noteq> 0" by (auto simp: page_post_def Let_def)
  then show ?thesis using malloc_b_post[OF assms(1) n] mb by auto
qed

lemma blocks_report [simp]: "blocks (report d s) = blocks s"
  by (simp add: blocks_def report_def alloc_heads_def)

lemma block_extent_report [simp]: "block_extent (report d s) a = block_extent s a"
  by (simp add: block_extent_def report_def)

interpretation kheap: heap kmem_inv blocks block_extent 0 bytes_from request_ok kmalloc kfree
proof unfold_locales
  fix s :: kmem and a b :: "64 word" and n :: "32 word" and s'
  assume inv: "kmem_inv s"
  show "0 \<notin> blocks s" using index2address_nonzero by (metis blocksE)
  show "a \<in> blocks s \<Longrightarrow> b \<in> blocks s \<Longrightarrow> a \<noteq> b \<Longrightarrow> block_extent s a \<inter> block_extent s b = {}"
    by (rule extents_disjoint[OF inv])
  show "request_ok n \<Longrightarrow> \<exists>s' a. kmalloc n s = Some (s', a)"
    by (simp add: request_ok_def kmalloc_page)
  note kc = kmalloc_cases[OF inv]
  show "kmem_inv s'" if "request_ok n" "kmalloc n s = Some (s', a)"
    using kc[OF that] inv by (auto simp: page_post_def Let_def)
  show "blocks s' = blocks s" if "request_ok n" "kmalloc n s = Some (s', 0)"
    using kc[OF that] by simp
  show "a \<notin> blocks s \<and> blocks s' = insert a (blocks s)"
    if "request_ok n" "kmalloc n s = Some (s', a)" "a \<noteq> 0"
    using kc[OF that(1,2)] that(3) page_post_blocks(1,2)[OF inv] by blast
  show "bytes_from a n \<subseteq> block_extent s' a" if "request_ok n" "kmalloc n s = Some (s', a)" "a \<noteq> 0"
    using kc[OF that(1,2)] that(1,3) page_post_blocks(4)[OF inv] by blast
  show "block_extent s' b = block_extent s b"
    if "request_ok n" "kmalloc n s = Some (s', a)" "b \<in> blocks s"
    using kc[OF that(1,2)] page_post_blocks(3)[OF inv _ that(3)] by auto
  show "\<exists>s'. kfree a s = Some s' \<and> kmem_inv s' \<and> blocks s' = blocks s - {a}" if a: "a \<in> blocks s"
  proof -
    obtain i k where i: "a = index2address (of_nat i)" "i < TOTAL_FRAME"
      "\<not> b_is_slab_page (buddy_frame_array s i)" "bst s i = ALLOCATED_FRAME" using a by (rule blocksE)
    then have "kfree a s = Some (buddy_free i s)" using kfree_inside[OF i(2), of 0 s] by simp
    then show ?thesis using buddy_free_kmem(1)[OF inv i(2,4,3)] kfree_blocks(1)[OF inv a] by blast
  qed
  show "block_extent s' b = block_extent s b"
    if "a \<in> blocks s" "kfree a s = Some s'" "b \<in> blocks s" "b \<noteq> a"
    using kfree_blocks(2)[OF inv that(1,2)] that(3,4) by blast
qed

section \<open>Requests of every size\<close>

text \<open>A request of 0 bytes is served by the slab allocator: the client then holds a slot.  Blocks and slots
  together are a heap for every request whose size does not wrap when it is rounded up.\<close>

definition any_request :: "32 word \<Rightarrow> bool" where
  "any_request n \<longleftrightarrow> unat n + 4095 < 2 ^ 32"

definition units :: "kmem \<Rightarrow> 64 word set" where
  "units s = blocks s \<union> slot_address s ` live s"

definition unit_extent :: "kmem \<Rightarrow> 64 word \<Rightarrow> nat set" where
  "unit_extent s a = (if a \<in> blocks s then block_extent s a
     else {unat a ..< unat a + nat (s_slab_size (slab_frame_array s (frame_of a)))})"

lemma blocks_plain: "blocks s = {a. \<exists>b k. a = index2address (of_nat b) \<and> b \<in> plain_heads s k}"
  unfolding blocks_def plain_heads_def by blast

lemma same_heads:
  assumes "plain_heads s' = plain_heads s"
  shows "blocks s' = blocks s" "a \<in> blocks s \<Longrightarrow> block_extent s' a = block_extent s a"
proof -
  show "blocks s' = blocks s" unfolding blocks_plain assms ..
  assume "a \<in> blocks s"
  then obtain b k where b: "a = index2address (of_nat b)" "b < TOTAL_FRAME" "b \<in> plain_heads s k"
    unfolding blocks_plain plain_heads_def alloc_heads_def by blast
  have "border s' b = int k" "border s b = int k"
    using b(3) fun_cong[OF assms, of k] by (auto simp: plain_heads_def alloc_heads_def)
  then show "block_extent s' a = block_extent s a" using b(1,2) by (simp add: block_extent_def)
qed

text \<open>A slot in use: where it lies in its page.\<close>

lemma slot_place:
  assumes inv: "kmem_inv s" and l: "(p, i) \<in> live s"
  obtains n where "s_slab_size (slab_frame_array s p) = int n" "0 < n" "i * n + n \<le> 4096" "p < TOTAL_FRAME"
    "unat (slot_address s (p, i)) = 0xffff000000000000 + p * 4096 + i * n" "p \<in> alloc_heads {} s 0"
    "b_is_slab_page (buddy_frame_array s p)" "frame_of (slot_address s (p, i)) = p"
proof -
  obtain t where t: "page_ok s p t" "i \<in> used_slots s p t" "p < TOTAL_FRAME" "s_available (slab_frame_array s p) = 0"
    using live_page[OF inv l] .
  note ct = class_table[OF page_okD(1)[OF t(1)]]
  let ?n = "slab_sizes ! t"
  have z: "0 < ?n" using ct by linarith
  have "Suc i \<le> nslots t" using t(2) by (simp add: used_slots_def Suc_le_eq)
  then have "?n * Suc i \<le> ?n * nslots t" by (rule mult_le_mono2)
  then have le: "i * ?n + ?n \<le> 4096" using ct by (simp add: mult.commute)
  have a: "slot_address s (p, i) = index2address (of_nat p) + of_nat (i * ?n)"
    using page_okD(3)[OF t(1)] by (simp add: slot_address_def)
  have u: "unat (slot_address s (p, i)) = 0xffff000000000000 + p * 4096 + i * ?n"
    unfolding a using le by (intro unat_index2address[OF t(3)]) simp
  have "frame_of (slot_address s (p, i)) = (4096 * p + i * ?n) div 4096"
    unfolding frame_of_def u by (simp add: BUDDY_MEMORY_BASE_def mult.commute)
  also have "\<dots> = p" using le z by (intro div_nat_eqI) simp_all
  finally show thesis
    using that[of ?n] z le t u page_okD(3,9)[OF t(1)] inv by (simp add: kmem_inv_def pages_ok_def frame_ok_def)
qed

lemma slot_no_block:
  assumes inv: "kmem_inv s" and l: "(p, i) \<in> live s"
  shows "slot_address s (p, i) \<notin> blocks s"
proof
  assume "slot_address s (p, i) \<in> blocks s"
  then obtain b where b: "slot_address s (p, i) = index2address (of_nat b)" "b < TOTAL_FRAME" "\<not> b_is_slab_page (buddy_frame_array s b)"
    by (rule blocksE)
  obtain n where "frame_of (slot_address s (p, i)) = p" "b_is_slab_page (buddy_frame_array s p)" by (rule slot_place[OF inv l])
  then show False using b by simp
qed

lemma unit_slot_inj:
  assumes inv: "kmem_inv s" and l: "(p, i) \<in> live s" "(q, j) \<in> live s" and e: "slot_address s (p, i) = slot_address s (q, j)"
  shows "p = q \<and> i = j"
proof -
  obtain n where n: "s_slab_size (slab_frame_array s p) = int n" "0 < n"
    "unat (slot_address s (p, i)) = 0xffff000000000000 + p * 4096 + i * n" "frame_of (slot_address s (p, i)) = p"
    by (rule slot_place[OF inv l(1)])
  obtain m where m: "s_slab_size (slab_frame_array s q) = int m"
    "unat (slot_address s (q, j)) = 0xffff000000000000 + q * 4096 + j * m" "frame_of (slot_address s (q, j)) = q"
    by (rule slot_place[OF inv l(2)])
  have "p = q" using n(4) m(3) e by simp
  moreover from this have "m = n" using n(1) m(1) by simp
  moreover have "p * 4096 + i * n = q * 4096 + j * m" using n(3) m(2) unfolding e by simp
  ultimately show ?thesis using n(2) by simp
qed

lemma block_bytes_base: "block_bytes b k = {0xffff000000000000 + 4096 * b ..< 0xffff000000000000 + 4096 * (b + 2 ^ k)}"
  by (simp add: block_bytes_def BUDDY_MEMORY_BASE_def FRAME_SIZE_def)

lemma slot_extent:
  assumes inv: "kmem_inv s" and l: "(p, i) \<in> live s"
  shows "unit_extent s (slot_address s (p, i)) \<subseteq> block_bytes p 0"
proof -
  obtain n where n: "s_slab_size (slab_frame_array s p) = int n" "i * n + n \<le> 4096"
    "unat (slot_address s (p, i)) = 0xffff000000000000 + p * 4096 + i * n" "frame_of (slot_address s (p, i)) = p"
    by (rule slot_place[OF inv l])
  then show ?thesis by (auto simp: unit_extent_def slot_no_block[OF inv l] block_bytes_base)
qed

lemma block_slot_disjoint:
  assumes inv: "kmem_inv s" and a: "a \<in> blocks s" and l: "(p, i) \<in> live s"
  shows "unit_extent s a \<inter> unit_extent s (slot_address s (p, i)) = {}"
proof -
  obtain j k where j: "j \<in> alloc_heads {} s k" "block_extent s a = block_bytes j k" "bst s j = ALLOCATED_FRAME"
    "\<not> b_is_slab_page (buddy_frame_array s j)" using a by (rule blocksE)
  obtain n where p: "p \<in> alloc_heads {} s 0" "b_is_slab_page (buddy_frame_array s p)" by (rule slot_place[OF inv l])
  have sh: "shape_ok {} s" using inv by (simp add: kmem_inv_def buddy_inv_def gen_inv_def)
  have "block_ok s j k" "block_ok s p 0"
    using block_at_ok(2)[OF sh] j(1) p(1) by (auto simp: alloc_heads_def block_at_def)
  moreover have "j \<noteq> p" using j(4) p(2) by auto
  moreover have "bst s p = ALLOCATED_FRAME" using p(1) by (simp add: alloc_heads_def)
  ultimately have "frames j k \<inter> frames p 0 = {}"
    using j(3) by (intro blocks_disjoint) (auto simp: frame_states)
  from block_bytes_disjoint[OF this] show ?thesis
    using slot_extent[OF inv l] a j(2) by (auto simp: unit_extent_def)
qed

lemma slots_disjoint:
  assumes inv: "kmem_inv s" and l: "(p, i) \<in> live s" "(q, j) \<in> live s" and ne: "(p, i) \<noteq> (q, j)"
  shows "unit_extent s (slot_address s (p, i)) \<inter> unit_extent s (slot_address s (q, j)) = {}"
proof (cases "p = q")
  case False
  then have "block_bytes p 0 \<inter> block_bytes q 0 = {}" by (intro block_bytes_disjoint) (simp add: frames_def)
  then show ?thesis using slot_extent[OF inv l(1)] slot_extent[OF inv l(2)] by blast
next
  case True
  obtain n where n: "s_slab_size (slab_frame_array s p) = int n" "0 < n"
    "unat (slot_address s (p, i)) = 0xffff000000000000 + p * 4096 + i * n" "frame_of (slot_address s (p, i)) = p"
    by (rule slot_place[OF inv l(1)])
  obtain m where m: "s_slab_size (slab_frame_array s q) = int m"
    "unat (slot_address s (q, j)) = 0xffff000000000000 + q * 4096 + j * m" "frame_of (slot_address s (q, j)) = q"
    by (rule slot_place[OF inv l(2)])
  have "m = n" using n(1) m(1) True by simp
  have "Suc i * n \<le> j * n \<or> Suc j * n \<le> i * n"
    using ne True by (cases "i < j") (auto simp del: mult_Suc intro!: mult_le_mono1)
  then have "i * n + n \<le> j * n \<or> j * n + n \<le> i * n" by (simp only: mult_Suc add.commute[of n])
  then show ?thesis
    using n m \<open>m = n\<close> True slot_no_block[OF inv l(1)] slot_no_block[OF inv l(2)] by (auto simp: unit_extent_def)
qed

text \<open>What the slab allocator's operations leave: the blocks, and the slots they do not take or give.\<close>

lemma rest_same_units:
  assumes inv: "kmem_inv s" "kmem_inv s'" and r: "rest_same s s'"
  shows "blocks s' = blocks s" "a \<in> blocks s \<Longrightarrow> unit_extent s' a = unit_extent s a"
    "(p, i) \<in> live s \<Longrightarrow> (p, i) \<in> live s' \<Longrightarrow> slot_address s' (p, i) = slot_address s (p, i) \<and>
       unit_extent s' (slot_address s (p, i)) = unit_extent s (slot_address s (p, i))"
proof -
  have h: "plain_heads s' = plain_heads s" using r by (simp add: rest_same_def)
  show bl: "blocks s' = blocks s" by (rule same_heads(1)[OF h])
  show "a \<in> blocks s \<Longrightarrow> unit_extent s' a = unit_extent s a" using same_heads[OF h] by (simp add: unit_extent_def)
  assume l: "(p, i) \<in> live s" "(p, i) \<in> live s'"
  then have z: "s_slab_size (slab_frame_array s' p) = s_slab_size (slab_frame_array s p)" using r by (auto simp: rest_same_def)
  then have a: "slot_address s' (p, i) = slot_address s (p, i)" by (simp add: slot_address_def)
  have "frame_of (slot_address s (p, i)) = p" by (rule slot_place[OF inv(1) l(1)])
  then show "slot_address s' (p, i) = slot_address s (p, i) \<and> unit_extent s' (slot_address s (p, i)) = unit_extent s (slot_address s (p, i))"
    using a z bl slot_no_block[OF inv(1) l(1)] by (simp add: unit_extent_def)
qed

text \<open>What the page allocator's operations leave: the slots.\<close>

lemma same_view_slots:
  assumes "slab_view s' = slab_view s"
  shows "live s' = live s" "slot_address s' = slot_address s"
    "s_slab_size (slab_frame_array s' p) = s_slab_size (slab_frame_array s p)"
  using slab_viewD[OF assms] by (simp_all add: live_def slot_address_def fun_eq_iff)

lemma units_report [simp]: "units (report d s) = units s" "unit_extent (report d s) a = unit_extent s a"
proof -
  have "slot_address (report d s) = slot_address s" by (simp add: slot_address_def report_def fun_eq_iff)
  then show "units (report d s) = units s" by (simp add: units_def)
  have "slab_frame_array (report d s) = slab_frame_array s" by (simp add: report_def)
  then show "unit_extent (report d s) a = unit_extent s a" by (simp add: unit_extent_def)
qed

lemma page_post_units:
  assumes inv: "kmem_inv s" and post: "page_post n s s' a"
  shows "a \<notin> units s" "units s' = insert a (units s)" "\<And>b. b \<in> units s \<Longrightarrow> unit_extent s' b = unit_extent s b"
    "unat n + 4095 < 2 ^ 32 \<Longrightarrow> n \<noteq> 0 \<Longrightarrow> bytes_from a n \<subseteq> unit_extent s' a"
proof -
  have inv': "kmem_inv s'" and sv: "slab_view s' = slab_view s" using post by (auto simp: page_post_def Let_def)
  note b = page_post_blocks[OF inv post] and v = same_view_slots[OF sv]
  have na: "a \<noteq> slot_address s (p, i)" if "(p, i) \<in> live s" for p i
    using slot_no_block[OF inv', of p i] that b(2) v(1,2) by auto
  show na': "a \<notin> units s" using b(1) na by (auto simp: units_def)
  show "units s' = insert a (units s)" using b(2) v(1,2) by (simp add: units_def)
  show "unit_extent s' c = unit_extent s c" if "c \<in> units s" for c
  proof -
    have "c \<noteq> a" using that na' by auto
    then show ?thesis using b(2,3) v(3) by (simp add: unit_extent_def)
  qed
  show "unat n + 4095 < 2 ^ 32 \<Longrightarrow> n \<noteq> 0 \<Longrightarrow> bytes_from a n \<subseteq> unit_extent s' a"
    using b(2,4) by (simp add: unit_extent_def request_ok_def)
qed

lemma kmalloc_units:
  assumes inv: "kmem_inv s" and n: "any_request n" and k: "kmalloc n s = Some (s', a)"
  shows "kmem_inv s' \<and> (if a = 0 then units s' = units s else a \<notin> units s \<and> units s' = insert a (units s) \<and> bytes_from a n \<subseteq> unit_extent s' a) \<and>
    (\<forall>b \<in> units s. unit_extent s' b = unit_extent s b)"
proof (cases "n = 0")
  case False
  then have "request_ok n" using n by (simp add: request_ok_def any_request_def)
  from kmalloc_cases[OF inv this k] consider "a = 0" "s' = report Allocate_fail s" | "a \<noteq> 0" "page_post n s s' a" by blast
  then show ?thesis
  proof cases
    case 1
    then show ?thesis using inv by simp
  next
    case 2
    then have "kmem_inv s'" by (auto simp: page_post_def Let_def)
    then show ?thesis using page_post_units[OF inv 2(2)] 2(1) False n by (simp add: any_request_def)
  qed
next
  case True
  then have m: "malloc_s 0 s = Some (s', a)" using k kmalloc_zero by simp
  from malloc_s_post[OF inv, of 0] m consider "a = 0" "s' = report Slab_allocate_fail (report Allocate_fail s)"
    | p i where "kmem_inv s'" "(p, i) \<notin> live s" "live s' = insert (p, i) (live s)" "a = slot_address s' (p, i)" "a \<noteq> 0" "rest_same s s'"
    by auto
  then show ?thesis
  proof cases
    case 1
    then show ?thesis using inv by simp
  next
    case (2 p i)
    note r = rest_same_units[OF inv 2(1,6)]
    have im: "slot_address s' ` live s = slot_address s ` live s" using r(3) 2(3) by (intro image_cong) auto
    have "a \<notin> slot_address s ` live s"
    proof
      assume "a \<in> slot_address s ` live s"
      then obtain q j where q: "(q, j) \<in> live s" "a = slot_address s' (q, j)" using im by fastforce
      then show False using unit_slot_inj[OF 2(1), of p i q j] 2(2-4) by auto
    qed
    then have na: "a \<notin> units s" using slot_no_block[OF 2(1), of p i] 2(3,4) r(1) by (auto simp: units_def)
    moreover have "units s' = insert a (units s)" using r(1) im 2(3,4) by (simp add: units_def)
    moreover have "unit_extent s' b = unit_extent s b" if "b \<in> units s" for b
      using that r(2,3) 2(3) by (auto simp: units_def)
    ultimately show ?thesis using 2(1,5) True by (simp add: bytes_from_def)
  qed
qed

lemma kfree_units:
  assumes inv: "kmem_inv s" and a: "a \<in> units s"
  shows "\<exists>s'. kfree a s = Some s' \<and> kmem_inv s' \<and> units s' = units s - {a} \<and>
    (\<forall>b \<in> units s - {a}. unit_extent s' b = unit_extent s b)"
proof (cases "a \<in> blocks s")
  case True
  obtain i k where i: "a = index2address (of_nat i)" "i < TOTAL_FRAME"
    "\<not> b_is_slab_page (buddy_frame_array s i)" "bst s i = ALLOCATED_FRAME" using True by (rule blocksE)
  let ?s = "buddy_free i s"
  have f: "kfree a s = Some ?s" using kfree_inside[OF i(2), of 0 s] i by simp
  note b = kfree_blocks[OF inv True f] and v = same_view_slots[OF slab_view_free[of i s]]
  have na: "slot_address s (p, j) \<noteq> a" if "(p, j) \<in> live s" for p j using slot_no_block[OF inv that] True by auto
  have "units ?s = units s - {a}" using b(1) v(1,2) na by (auto simp: units_def)
  moreover have "unit_extent ?s c = unit_extent s c" if "c \<in> units s - {a}" for c
    using that b v(3) by (auto simp: units_def unit_extent_def)
  ultimately show ?thesis using f buddy_free_kmem(1)[OF inv i(2,4,3)] by blast
next
  case False
  then obtain p i where l: "(p, i) \<in> live s" "a = slot_address s (p, i)" using a by (auto simp: units_def)
  obtain s' where s': "kfree a s = Some s'" "kmem_inv s'" "live s' = live s - {(p, i)}" "rest_same s s'"
    using kfree_slot[OF inv l(1)] l(2) by (auto simp: slab_free_post_def)
  note r = rest_same_units[OF inv s'(2,4)]
  have im: "slot_address s' ` live s' = slot_address s ` (live s - {(p, i)})" using r(3) s'(3) by (intro image_cong) auto
  also have "\<dots> = slot_address s ` live s - {a}" using unit_slot_inj[OF inv l(1)] l by (auto, metis+)
  finally have "units s' = units s - {a}" using r(1) False by (auto simp: units_def)
  moreover have "unit_extent s' b = unit_extent s b" if "b \<in> units s - {a}" for b
  proof (cases "b \<in> blocks s")
    case True
    then show ?thesis by (rule r(2))
  next
    case False
    then obtain q j where q: "(q, j) \<in> live s" "b = slot_address s (q, j)" using \<open>b \<in> units s - {a}\<close> by (auto simp: units_def)
    moreover have "(q, j) \<in> live s'" using q that l(2) s'(3) by auto
    ultimately show ?thesis using r(3) by blast
  qed
  ultimately show ?thesis using s'(1,2) by blast
qed

interpretation kall: heap kmem_inv units unit_extent 0 bytes_from any_request kmalloc kfree
proof unfold_locales
  fix s :: kmem and a b :: "64 word" and n :: "32 word" and s'
  assume inv: "kmem_inv s"
  show "0 \<notin> units s"
  proof
    assume "0 \<in> units s"
    then consider "0 \<in> blocks s" | p i where "(p, i) \<in> live s" "0 = slot_address s (p, i)" by (auto simp: units_def)
    then show False
    proof cases
      case 1
      then show False using kheap.null_dead[OF inv] by blast
    next
      case (2 p i)
      obtain n where "unat (slot_address s (p, i)) = 0xffff000000000000 + p * 4096 + i * n" by (rule slot_place[OF inv 2(1)])
      then show False unfolding 2(2)[symmetric] by simp
    qed
  qed
  show "unit_extent s a \<inter> unit_extent s b = {}" if u: "a \<in> units s" "b \<in> units s" "a \<noteq> b"
  proof -
    have slot: "\<exists>p i. (p, i) \<in> live s \<and> c = slot_address s (p, i)" if "c \<in> units s" "c \<notin> blocks s" for c
      using that by (auto simp: units_def)
    consider "a \<in> blocks s" "b \<in> blocks s" | "a \<in> blocks s" "b \<notin> blocks s" | "a \<notin> blocks s" "b \<in> blocks s"
      | "a \<notin> blocks s" "b \<notin> blocks s" by blast
    then show ?thesis
    proof cases
      case 1
      then show ?thesis using extents_disjoint[OF inv 1 u(3)] by (simp add: unit_extent_def)
    next
      case 2
      then show ?thesis using slot[OF u(2)] block_slot_disjoint[OF inv 2(1)] by blast
    next
      case 3
      then show ?thesis using slot[OF u(1)] block_slot_disjoint[OF inv 3(2)] by blast
    next
      case 4
      then show ?thesis using slot[OF u(1)] slot[OF u(2)] slots_disjoint[OF inv] u(3) by blast
    qed
  qed
  show "any_request n \<Longrightarrow> \<exists>s' a. kmalloc n s = Some (s', a)"
    using malloc_s_post[OF inv, of 0] by (cases "n = 0") (auto simp: kmalloc_page kmalloc_zero)
  note ku = kmalloc_units[OF inv]
  show "kmem_inv s'" if "any_request n" "kmalloc n s = Some (s', a)" using ku[OF that] by blast
  show "units s' = units s" if "any_request n" "kmalloc n s = Some (s', 0)" using ku[OF that] by simp
  show "a \<notin> units s \<and> units s' = insert a (units s)" if "any_request n" "kmalloc n s = Some (s', a)" "a \<noteq> 0"
    using ku[OF that(1,2)] that(3) by simp
  show "bytes_from a n \<subseteq> unit_extent s' a" if "any_request n" "kmalloc n s = Some (s', a)" "a \<noteq> 0"
    using ku[OF that(1,2)] that(3) by simp
  show "unit_extent s' b = unit_extent s b" if "any_request n" "kmalloc n s = Some (s', a)" "b \<in> units s"
    using ku[OF that(1,2)] that(3) by blast
  show "\<exists>s'. kfree a s = Some s' \<and> kmem_inv s' \<and> units s' = units s - {a}" if "a \<in> units s"
    using kfree_units[OF inv that] by blast
  show "unit_extent s' b = unit_extent s b" if "a \<in> units s" "kfree a s = Some s'" "b \<in> units s" "b \<noteq> a"
    using kfree_units[OF inv that(1)] that(2-4) by auto
qed

section \<open>Scripts of calls\<close>

text \<open>A sequence of \<open>kmalloc\<close> and \<open>kfree\<close> calls by a client that frees what it got: \<open>Op_free k\<close>
  frees the \<open>k\<close>-th address it holds.  The result is what it holds at the end, with the sizes it
  asked for.\<close>

datatype heap_op = Op_malloc "32 word" | Op_free nat

fun heap_script :: "heap_op list \<Rightarrow> (64 word \<times> 32 word) list \<Rightarrow> kmem \<Rightarrow> ((64 word \<times> 32 word) list \<times> kmem) option" where
  "heap_script [] own s = Some (own, s)"
| "heap_script (Op_malloc n # ops) own s =
     (case kmalloc n s of None \<Rightarrow> None
      | Some (s', a) \<Rightarrow> heap_script ops (if a = 0 then own else (a, n) # own) s')"
| "heap_script (Op_free k # ops) own s =
     (if k < length own then
        (case kfree (fst (own ! k)) s of None \<Rightarrow> None
         | Some s' \<Rightarrow> heap_script ops (take k own @ drop (Suc k) own) s')
      else heap_script ops own s)"

primrec op_ok :: "heap_op \<Rightarrow> bool" where
  "op_ok (Op_malloc n) = any_request n"
| "op_ok (Op_free k) = True"

lemma heap_script_holds:
  "list_all op_ok ops \<Longrightarrow> kall.holds own s \<Longrightarrow>
    \<exists>own' s'. heap_script ops own s = Some (own', s') \<and> kall.holds own' s'"
proof (induction ops own s rule: heap_script.induct)
  case (2 n ops own s)
  have ok: "any_request n" "list_all op_ok ops" using "2.prems"(1) by simp_all
  have i: "kmem_inv s" using "2.prems"(2) by (simp add: kall.holds_def)
  obtain s' a where a: "kmalloc n s = Some (s', a)" using kall.alloc_total[OF i ok(1)] by blast
  have "kall.client own s (if a = 0 then own else (a, n) # own) s'"
    using kall.got[OF kall.idle ok(1) a] kall.refused[OF kall.idle ok(1)] a by simp
  from kall.client_holds[OF this "2.prems"(2)] "2.IH"[OF a refl ok(2)] a show ?case by simp
next
  case (3 k ops own s)
  have ok: "list_all op_ok ops" using "3.prems"(1) by simp
  show ?case
  proof (cases "k < length own")
    case True
    obtain a n where an: "own ! k = (a, n)" by fastforce
    have own: "own = take k own @ (a, n) # drop (Suc k) own" using True an by (metis id_take_nth_drop)
    then have "(a, n) \<in> set own" using True an by (metis nth_mem)
    then have "kmem_inv s" "a \<in> units s" using "3.prems"(2) by (auto simp: kall.holds_def)
    then obtain s' where f: "kfree a s = Some s'" using kall.free_ok by blast
    have "kall.client own s (take k own @ drop (Suc k) own) s'"
      using own kall.gave[OF _ f] kall.idle by metis
    from kall.client_holds[OF this "3.prems"(2)] "3.IH"(1)[OF True _ ok] True f an show ?thesis by simp
  next
    case False
    with "3.IH"(2)[OF False ok "3.prems"(2)] show ?thesis by simp
  qed
qed simp

end
