(* ===== verification/Memory_Props.thy ===== *)
theory Memory_Props
  imports Boot_Memory Heap
begin

text \<open>
  The properties of the memory allocator, each with a witness on the state \<open>booted\<close>: the
  allocator after a boot that reserves frame 0.
\<close>

section \<open>A concrete machine\<close>

definition blank_mem :: kmem where
  "blank_mem = \<lparr>buddy_frame_array = (\<lambda>i. \<lparr>b_status = 0, b_index = 0, b_next = None, b_prev = None,
       b_allocated_order = 0, b_slab_ptr = None, b_is_slab_page = False\<rparr>),
     free_frame_lists = (\<lambda>_. None),
     slab_frame_array = (\<lambda>_. \<lparr>s_available = 0, s_slab_type = 0, s_slab_size = 0, s_start_address = 0,
       s_total_slabs = 0, s_free_slabs = 0, s_bitmap = (\<lambda>_. 0), s_next = None, s_prev = None\<rparr>),
     slab_start_list = (\<lambda>_. None), diag = []\<rparr>"

definition booted :: kmem where
  "booted = init_allocator [(0xffff000000000000, 0xffff000000001000)] blank_mem"

lemma reserved_frame_0: "reserved_range 0xffff000000000000 0xffff000000001000 = {0}"
proof -
  have "address2index 0xffff000000000000 = of_nat 0"
    by (simp add: address2index_def BUDDY_MEMORY_BASE_def FRAME_SIZE_def)
  moreover have "unat (address2index (0xffff000000001000 + of_nat FRAME_SIZE - 1)) = 1"
    by (subst unat_address2index) (simp_all add: BUDDY_MEMORY_BASE_def FRAME_SIZE_def)
  then have "address2index (0xffff000000001000 + of_nat FRAME_SIZE - 1) = of_nat 1"
    by (metis of_nat_unat ucast_id)
  ultimately show ?thesis
    using int_of_ulong_small[of 0] int_of_ulong_small[of 1] by (auto simp: reserved_range_def)
qed

lemma booted_inv: "kmem_inv booted" "buddy_inv booted" "live booted = {}" "allocated_frames booted = {}"
  "free_frames booted = {1..<TOTAL_FRAME}"
proof -
  have "diag blank_mem = []" by (simp add: blank_mem_def)
  note b = init_allocator_inv[OF this, of "[(0xffff000000000000, 0xffff000000001000)]", folded booted_def]
  from b show "kmem_inv booted" "live booted = {}" "allocated_frames booted = {}" by simp_all
  then show "buddy_inv booted" by (simp add: kmem_inv_def)
  have "free_frames booted = {i. i < TOTAL_FRAME \<and> i \<notin> {0}}"
    using b(4) by (simp only: list.set ball_simps case_prod_conv reserved_frame_0 simp_thms)
  also have "\<dots> = {1..<TOTAL_FRAME}" by auto
  finally show "free_frames booted = {1..<TOTAL_FRAME}" .
qed

lemma booted_region: "frames 2 1 \<subseteq> free_frames booted"
  by (auto simp: booted_inv frames_def TOTAL_FRAME_def)

text \<open>A block of two frames, allocated.\<close>

definition booted_alloc :: "kmem \<times> nat option" where
  "booted_alloc = buddy_allocate 1 booted"

lemma booted_alloc_some:
  obtains s' b where "booted_alloc = (s', Some b)" "alloc_post 1 booted (s', Some b)"
proof -
  have "snd booted_alloc \<noteq> None"
    unfolding booted_alloc_def
    by (rule alloc_complete[OF booted_inv(2) _ booted_region]) (simp_all add: MAX_ORDER_def)
  then obtain s' b where "booted_alloc = (s', Some b)" by (metis option.exhaust prod.collapse)
  with buddy_allocate_post(1)[OF booted_inv(2), of 1] that show thesis by (simp add: booted_alloc_def)
qed

section \<open>The buddy system\<close>

text \<open>C1: \<open>buddy_allocate\<close> on a well-formed allocator either prints its message and changes
  nothing, or returns the aligned head of a block of \<open>2 ^ order\<close> frames, all of them free before:
  the block is taken from the free frames and added to the allocated ones, everything else
  stays, and the free lists stay well formed and coalesced.\<close>

theorem buddy_allocate_correct:
  assumes "buddy_inv s"
  shows "case buddy_allocate order s of
      (s', None) \<Rightarrow> s' = report Allocate_fail s
    | (s', Some i) \<Rightarrow> buddy_inv s' \<and> i < TOTAL_FRAME \<and> 2 ^ order dvd i \<and>
        frames i order \<subseteq> free_frames s \<and> frames i order \<inter> allocated_frames s = {} \<and>
        free_frames s' = free_frames s - frames i order \<and>
        allocated_frames s' = allocated_frames s \<union> frames i order \<and>
        bst s' i = ALLOCATED_FRAME \<and> border s' i = int order \<and> diag s' = diag s"
proof -
  obtain s' r where e: "buddy_allocate order s = (s', r)" by fastforce
  from buddy_allocate_post(1)[OF assms, of order] free_alloc_disjoint[OF assms] show ?thesis
    unfolding e by (auto simp: alloc_post_def alloc_heads_insert_frames split: option.splits)
qed

theorem buddy_allocate_correct_witness:
  "case buddy_allocate 1 booted of
      (s', None) \<Rightarrow> s' = report Allocate_fail booted
    | (s', Some i) \<Rightarrow> buddy_inv s' \<and> i < TOTAL_FRAME \<and> 2 ^ 1 dvd i \<and>
        frames i 1 \<subseteq> free_frames booted \<and> frames i 1 \<inter> allocated_frames booted = {} \<and>
        free_frames s' = free_frames booted - frames i 1 \<and>
        allocated_frames s' = allocated_frames booted \<union> frames i 1 \<and>
        bst s' i = ALLOCATED_FRAME \<and> border s' i = int 1 \<and> diag s' = diag booted"
  by (rule buddy_allocate_correct[OF booted_inv(2)])

text \<open>C32: Allocation is complete: it fails exactly when no aligned run of \<open>2 ^ order\<close> frames is
  free, so coalescing never leaves a request unserved that the free memory could serve.\<close>

theorem buddy_allocate_complete:
  assumes "buddy_inv s" "order \<le> MAX_ORDER"
  shows "snd (buddy_allocate order s) = None \<longleftrightarrow>
    (\<forall>i. 2 ^ order dvd i \<longrightarrow> \<not> frames i order \<subseteq> free_frames s)"
proof
  assume "snd (buddy_allocate order s) = None"
  then show "\<forall>i. 2 ^ order dvd i \<longrightarrow> \<not> frames i order \<subseteq> free_frames s"
    using alloc_complete[OF assms(1) _ _ assms(2)] by blast
next
  assume none: "\<forall>i. 2 ^ order dvd i \<longrightarrow> \<not> frames i order \<subseteq> free_frames s"
  show "snd (buddy_allocate order s) = None"
  proof (rule ccontr)
    assume "snd (buddy_allocate order s) \<noteq> None"
    then obtain s' i where "buddy_allocate order s = (s', Some i)" by (metis option.exhaust prod.collapse)
    with buddy_allocate_post(1)[OF assms(1), of order] none show False by (auto simp: alloc_post_def)
  qed
qed

theorem buddy_allocate_complete_witness: "snd (buddy_allocate 1 booted) \<noteq> None"
proof -
  have "2 ^ 1 dvd (2::nat)" by simp
  with buddy_allocate_complete[OF booted_inv(2), of 1] booted_region show ?thesis
    by (auto simp: MAX_ORDER_def)
qed

text \<open>C2: \<open>buddy_free\<close> of the head of an allocated block of order \<open>k\<close> gives exactly its \<open>2 ^ k\<close>
  frames back, prints nothing, and keeps the invariant: in particular no two free buddies are
  left unmerged.\<close>

theorem buddy_free_correct:
  assumes "buddy_inv s" "b < TOTAL_FRAME" "bst s b = ALLOCATED_FRAME"
  shows "\<exists>k. border s b = int k \<and> frames b k \<subseteq> allocated_frames s \<and> buddy_inv (buddy_free b s) \<and>
    free_frames (buddy_free b s) = free_frames s \<union> frames b k \<and>
    allocated_frames (buddy_free b s) = allocated_frames s - frames b k \<and>
    diag (buddy_free b s) = diag s"
  using buddy_free_post[OF assms] by (auto simp: free_post_def)

theorem buddy_free_correct_witness:
  "\<exists>s b k. bst s b = ALLOCATED_FRAME \<and> border s b = int k \<and> k = 1 \<and> buddy_inv (buddy_free b s) \<and>
    free_frames (buddy_free b s) = free_frames s \<union> frames b k"
proof -
  obtain s' b where a: "alloc_post 1 booted (s', Some b)" by (rule booted_alloc_some)
  then have p: "buddy_inv s'" "b < TOTAL_FRAME" "bst s' b = ALLOCATED_FRAME" "border s' b = 1"
    by (auto simp: alloc_post_def)
  from buddy_free_correct[OF p(1-3)] p(3,4) show ?thesis
    by (intro exI[of _ s'] exI[of _ b] exI[of _ 1]) auto
qed

text \<open>C29: After boot the whole allocator is well formed, nothing is allocated, no slot is in
  use, and the free frames are exactly the frames that no reservation touches.\<close>

theorem init_allocator_correct:
  assumes "diag s = []"
  shows "kmem_inv (init_allocator ranges s) \<and> live (init_allocator ranges s) = {} \<and>
    allocated_frames (init_allocator ranges s) = {} \<and>
    free_frames (init_allocator ranges s) = {i. i < TOTAL_FRAME \<and> (\<forall>(b, e) \<in> set ranges.
      \<not> (int_of_ulong (address2index b) \<le> int i \<and>
         int i < int_of_ulong (address2index (e + of_nat FRAME_SIZE - 1))))}"
  using init_allocator_inv[OF assms, of ranges] by (auto simp: reserved_range_def)

theorem init_allocator_correct_witness:
  "kmem_inv (init_allocator [(0xffff000000080000, 0xffff000000100000)] blank_mem)"
proof -
  have "diag blank_mem = []" by (simp add: blank_mem_def)
  from init_allocator_correct[OF this] show ?thesis by blast
qed

text \<open>\<open>print_order\<close> terminates on a well-formed allocator and returns the number of free
  blocks of that order.\<close>

theorem print_order_correct:
  assumes "buddy_inv s"
  shows "print_order k s = Some (card {i. i < TOTAL_FRAME \<and> k \<le> MAX_ORDER \<and> bst s i = int k})"
  using print_order_count[OF assms, of k] by (auto simp: free_heads_def split: if_splits)

theorem print_order_correct_witness:
  "print_order 30 booted = Some 0 \<and> (\<exists>n. print_order 4 booted = Some n)"
  using print_order_correct[OF booted_inv(2), of 30] print_order_correct[OF booted_inv(2), of 4]
  by (simp add: MAX_ORDER_def)

section \<open>The slab allocator\<close>

text \<open>C30: \<open>slab_allocate\<close> always returns (the walk over a class list ends).  For a request of at
  most 2048 bytes it either fails, which happens only when no frame is free, changing nothing but the messages, or
  puts one slot that was not in use into use and returns its address, from a class whose slots
  hold the request; larger requests are refused.\<close>

theorem slab_allocate_correct:
  assumes "kmem_inv s"
  shows "\<exists>s' a. slab_allocate sz s = Some (s', a) \<and> kmem_inv s' \<and>
    (if sz > 2048 then s' = s \<and> a = -1
     else (a = -1 \<and> live s' = live s \<and> s' = report Allocate_fail s \<and> free_frames s = {}) \<or>
       (\<exists>p i. (p, i) \<notin> live s \<and> live s' = insert (p, i) (live s) \<and> a = slot_address s' (p, i) \<and>
          int sz \<le> s_slab_size (slab_frame_array s' p) \<and> diag s' = diag s \<and>
          allocated_frames s' = allocated_frames s \<union> {p}))"
proof (cases "sz > 2048")
  case True
  with assms show ?thesis by (simp add: slab_allocate_def slab_class_large)
next
  case False
  with slab_allocate_post[OF assms, of sz] show ?thesis by (auto simp: slab_post_def)
qed

theorem slab_allocate_correct_witness:
  "\<exists>s' a. slab_allocate 24 booted = Some (s', a) \<and> kmem_inv s'"
  using slab_allocate_correct[OF booted_inv(1), of 24] by blast

text \<open>C31: \<open>kfree\<close> of the address of a slot in use puts exactly that slot out of use, gives the
  page back to the buddy system when it was the last slot in use on it, prints nothing and keeps
  the allocator well formed.\<close>

theorem kfree_slot_correct:
  assumes "kmem_inv s" "(p, i) \<in> live s"
  shows "\<exists>s'. kfree (slot_address s (p, i)) s = Some s' \<and> kmem_inv s' \<and> live s' = live s - {(p, i)} \<and>
    diag s' = diag s \<and>
    allocated_frames s' =
      (if \<exists>j. j \<noteq> i \<and> (p, j) \<in> live s then allocated_frames s else allocated_frames s - {p})"
  using kfree_slot[OF assms] unfolding slab_free_post_def by blast

text \<open>One slot in use after a first allocation on \<open>booted\<close>.\<close>

lemma booted_slot:
  obtains s p i where "kmem_inv s" "(p, i) \<in> live s"
proof -
  obtain s' a where "slab_post 8 booted (s', a)"
    using slab_allocate_post[OF booted_inv(1), of 8] by auto
  moreover have "free_frames booted \<noteq> {}" by (simp add: booted_inv(5) TOTAL_FRAME_def)
  ultimately show thesis using that unfolding slab_post_def by blast
qed

theorem kfree_slot_correct_witness:
  "\<exists>s p i s'. (p, i) \<in> live s \<and> kfree (slot_address s (p, i)) s = Some s' \<and> (p, i) \<notin> live s'"
proof -
  obtain s p i where "kmem_inv s" "(p, i) \<in> live s" by (rule booted_slot)
  from this kfree_slot_correct[OF this] show ?thesis by blast
qed

section \<open>The kernel's interface\<close>

text \<open>C27: A non-zero request never reaches the slab allocator: \<open>kmalloc\<close> is the page allocator.  It
  returns the address of an aligned block of free frames, of the order the size is rounded to, that
  contains the whole request (for sizes up to \<open>2 ^ 32 - 4096\<close>), or the null pointer after printing one
  message and changing nothing; and it returns an address exactly when the order is at most
  \<open>MAX_ORDER\<close> and an aligned run of frames of that order is free.\<close>

theorem kmalloc_correct:
  fixes sz :: "32 word"
  assumes "kmem_inv s" "sz \<noteq> 0"
  shows "\<exists>s' a. kmalloc sz s = Some (s', a) \<and> kmem_inv s' \<and> live s' = live s \<and>
    (a = 0 \<and> s' = report Allocate_fail s \<or>
     (\<exists>b. let k = size2order sz in a = index2address (of_nat b) \<and> a \<noteq> 0 \<and> 2 ^ k dvd b \<and>
        frames b k \<subseteq> free_frames s \<and> free_frames s' = free_frames s - frames b k \<and>
        allocated_frames s' = allocated_frames s \<union> frames b k \<and> diag s' = diag s \<and>
        (unat sz + 4095 < 2 ^ 32 \<longrightarrow> {unat a ..< unat a + unat sz} \<subseteq> block_bytes b k))) \<and>
    (a \<noteq> 0 \<longleftrightarrow> size2order sz \<le> MAX_ORDER \<and>
       (\<exists>i. 2 ^ size2order sz dvd i \<and> frames i (size2order sz) \<subseteq> free_frames s))"
proof -
  note k = kmalloc_page[OF assms(2), of s]
  have bi: "buddy_inv s" using assms(1) by (simp add: kmem_inv_def)
  from malloc_b_post[OF assms] show ?thesis
  proof (elim disjE exE conjE)
    assume "malloc_b sz s = (report Allocate_fail s, 0)" and "snd (buddy_allocate (size2order sz) s) = None"
    moreover from this have "\<not> frames i (size2order sz) \<subseteq> free_frames s"
      if "2 ^ size2order sz dvd i" "size2order sz \<le> MAX_ORDER" for i
      using alloc_complete[OF bi that(1)] that(2) by auto
    ultimately show ?thesis using k assms(1) by simp
  next
    fix s' a assume m: "malloc_b sz s = (s', a)" and p: "page_post sz s s' a"
    from p have "a \<noteq> 0" "kmem_inv s'" "live s' = live s" by (auto simp: page_post_def Let_def)
    moreover from p obtain b where b: "let k = size2order sz in a = index2address (of_nat b) \<and> a \<noteq> 0 \<and> 2 ^ k dvd b \<and>
        frames b k \<subseteq> free_frames s \<and> free_frames s' = free_frames s - frames b k \<and>
        allocated_frames s' = allocated_frames s \<union> frames b k \<and> diag s' = diag s \<and>
        (unat sz + 4095 < 2 ^ 32 \<longrightarrow> {unat a ..< unat a + unat sz} \<subseteq> block_bytes b k)"
      unfolding page_post_def Let_def by blast
    moreover have "size2order sz \<le> MAX_ORDER"
    proof (rule ccontr)
      assume "\<not> size2order sz \<le> MAX_ORDER"
      then have "snd (buddy_allocate (size2order sz) s) = None" by (simp add: buddy_allocate_def)
      then show False using m \<open>a \<noteq> 0\<close> by (auto simp: malloc_b_def split: prod.splits)
    qed
    ultimately show ?thesis using k m
      by (intro exI[of _ s'] exI[of _ a] conjI disjI2 exI[of _ b]) (auto simp: Let_def)
  qed
qed

theorem kmalloc_correct_witness: "\<exists>s' a. kmalloc 5000 booted = Some (s', a) \<and> kmem_inv s'"
  using kmalloc_correct[OF booted_inv(1), of 5000] by force

text \<open>A successful allocation of two frames on \<open>booted\<close>.\<close>

lemma size2order_5000: "size2order 5000 = 1"
proof -
  have "unat ((5000 :: 32 word) + of_nat FRAME_SIZE - 1) = 9095" by (simp add: FRAME_SIZE_def)
  then show ?thesis by (simp add: size2order_def FRAME_SIZE_def order_loop.simps)
qed

lemma booted_page:
  obtains s' a where "malloc_b 5000 booted = (s', a)" "page_post 5000 booted s' a"
  using malloc_b_complete[OF booted_inv(1), of 5000 2] booted_region
  by (auto simp: size2order_5000 MAX_ORDER_def)

text \<open>C28: Allocating and freeing a page block is the identity on the free memory: \<open>kfree\<close> of an
  address that \<open>kmalloc\<close> just returned restores the free frames, the free block lists of every
  order, the allocated frames, the slots in use and the messages; freeing it once more prints
  one message and changes nothing.\<close>

theorem kmalloc_kfree_roundtrip:
  assumes "kmem_inv s" "sz \<noteq> 0" "kmalloc sz s = Some (s', a)" "a \<noteq> 0"
  shows "\<exists>t. kfree a s' = Some t \<and> kmem_inv t \<and> free_frames t = free_frames s \<and>
    (\<forall>k. free_heads {} t k = free_heads {} s k) \<and> allocated_frames t = allocated_frames s \<and>
    live t = live s \<and> diag t = diag s \<and> kfree a t = Some (report Buddy_free_fail t)"
proof -
  have p: "page_post sz s s' a"
    using malloc_b_post[OF assms(1,2)] kmalloc_page[OF assms(2), of s] assms(3,4) by auto
  from kfree_page[OF assms(1) p] kfree_page_twice[OF assms(1) p] show ?thesis by auto
qed

theorem kmalloc_kfree_roundtrip_witness:
  "\<exists>s' a t. kmalloc 5000 booted = Some (s', a) \<and> kfree a s' = Some t \<and> free_frames t = free_frames booted"
proof -
  obtain s' a where m: "malloc_b 5000 booted = (s', a)" "page_post 5000 booted s' a"
    by (rule booted_page)
  then have "kmalloc 5000 booted = Some (s', a)" "a \<noteq> 0"
    using kmalloc_page[of 5000 booted] by (auto simp: page_post_def Let_def)
  with kmalloc_kfree_roundtrip[OF booted_inv(1) _ this] show ?thesis by fastforce
qed

text \<open>\<open>kfree\<close> of any address inside a frame that neither heads an allocated block nor is a
  slab page prints one message and leaves the allocator as it was: reserved, free and interior
  frames cannot be freed.\<close>

theorem kfree_rejects:
  assumes "b < TOTAL_FRAME" "d < 4096" "\<not> b_is_slab_page (buddy_frame_array s b)"
    "bst s b \<noteq> ALLOCATED_FRAME"
  shows "kfree (index2address (of_nat b) + of_nat d) s = Some (report Buddy_free_fail s)"
  using kfree_inside[where s = s, OF assms(1,2)] assms(3,4) by simp

theorem kfree_rejects_witness:
  "kfree (index2address (of_nat 3) + of_nat 16) blank_mem = Some (report Buddy_free_fail blank_mem)"
  by (rule kfree_rejects) (simp_all add: TOTAL_FRAME_def blank_mem_def frame_states)

text \<open>\<open>size2order\<close> is the least order whose block holds the request, for every size up to
  \<open>2 ^ 32 - 4096\<close>; above that the 32-bit rounding wraps and the order is 0.\<close>

theorem size2order_correct:
  fixes sz :: "32 word"
  assumes "sz \<noteq> 0"
  shows "if unat sz + 4095 < 2 ^ 32
    then unat sz \<le> FRAME_SIZE * 2 ^ size2order sz \<and> (\<forall>j < size2order sz. FRAME_SIZE * 2 ^ j < unat sz)
    else size2order sz = 0"
  using size2order_least[OF assms] size2order_wraps[of sz] by (simp add: not_less)

theorem size2order_correct_witness: "5000 \<le> FRAME_SIZE * 2 ^ size2order 5000 \<and> size2order 0xffffffff = 0"
  using size2order_correct[of 5000] size2order_correct[of "0xffffffff"] by simp

text \<open>Consecutive blocks of the boot-time allocator do not overlap, but its padding rounds
  down: the header of the next block lies inside the block before it exactly when the size is
  more than 8 above a multiple of 16.\<close>

theorem s_allocator_overlap:
  fixes sz sz2 :: "32 word"
  assumes "s_allocator sz h = (h1, r)" "s_allocator sz2 h1 = (h2, r2)"
    "unat (htop_ptr h) + unat sz + 32 < 2 ^ 64" "unat sz + 16 < 2 ^ 32"
  shows "unat r + unat sz \<le> unat r2 \<and>
    (unat (r2 - 8) < unat r + unat sz \<longleftrightarrow> unat sz mod 16 > 8)"
  using s_allocator_spacing[OF assms] by (simp add: not_le[symmetric])

theorem s_allocator_overlap_witness:
  "\<exists>r h1 r2 h2. s_allocator 12 \<lparr>htop_ptr = 0x100000, headers = []\<rparr> = (h1, r) \<and>
     s_allocator 4 h1 = (h2, r2) \<and> unat (r2 - 8) < unat r + 12"
proof -
  obtain h1 r h2 r2 where e: "s_allocator 12 \<lparr>htop_ptr = 0x100000, headers = []\<rparr> = (h1, r)"
    "s_allocator 4 h1 = (h2, r2)" by fastforce
  from s_allocator_overlap[OF e] e show ?thesis by auto
qed

section \<open>Sequences of calls\<close>

text \<open>C3: any sequence of \<open>kmalloc\<close> calls with sizes up to \<open>2 ^ 32 - 4096\<close>, 0 included, which the slab
  allocator serves, and of \<open>kfree\<close> calls of addresses got from them runs to its end on a well-formed
  allocator and keeps it well formed; the addresses held at the end are different, the byte ranges
  asked for are pairwise disjoint, and every one of them can be freed.\<close>

theorem kmalloc_sequences_disjoint:
  assumes "kmem_inv s" "list_all op_ok ops"
  shows "\<exists>own s'. heap_script ops [] s = Some (own, s') \<and> kmem_inv s' \<and>
    distinct (map fst own) \<and> (\<forall>a \<in> fst ` set own. \<exists>t. kfree a s' = Some t \<and> kmem_inv t \<and> units t = units s' - {a}) \<and>
    (\<forall>i j. i < j \<and> j < length own \<longrightarrow>
      {unat (fst (own ! i)) ..< unat (fst (own ! i)) + unat (snd (own ! i))} \<inter>
      {unat (fst (own ! j)) ..< unat (fst (own ! j)) + unat (snd (own ! j))} = {})"
proof -
  have "kall.holds [] s" using assms(1) by (simp add: kall.holds_def)
  from heap_script_holds[OF assms(2) this] obtain own s' where h: "heap_script ops [] s = Some (own, s')"
    "kall.holds own s'" by blast
  have "bytes_from (fst (own ! i)) (snd (own ! i)) \<inter> bytes_from (fst (own ! j)) (snd (own ! j)) = {}"
    if ij: "i < j" "j < length own" for i j
  proof (rule kall.holds_bytes_disjoint[OF h(2)])
    show "(fst (own ! i), snd (own ! i)) \<in> set own" "(fst (own ! j), snd (own ! j)) \<in> set own" using ij by simp_all
    have "distinct (map fst own)" using h(2) by (simp add: kall.holds_def)
    then show "fst (own ! i) \<noteq> fst (own ! j)" using nth_eq_iff_index_eq[of "map fst own" i j] ij by simp
  qed
  moreover have "\<exists>t. kfree a s' = Some t \<and> kmem_inv t \<and> units t = units s' - {a}" if "a \<in> fst ` set own" for a
    by (rule kall.free_ok) (use h(2) that in \<open>auto simp: kall.holds_def\<close>)
  ultimately show ?thesis using h by (auto simp: kall.holds_def bytes_from_def)
qed

theorem kmalloc_sequences_disjoint_witness:
  "\<exists>own s'. heap_script [Op_malloc 5000, Op_malloc 0, Op_free 1, Op_malloc 100] [] booted = Some (own, s') \<and> kmem_inv s'"
  using kmalloc_sequences_disjoint[OF booted_inv(1), of "[Op_malloc 5000, Op_malloc 0, Op_free 1, Op_malloc 100]"]
  by (auto simp: any_request_def)

end
