(* ===== verification/Path.thy ===== *)
theory Path
  imports Prelude
begin

text \<open>
  \<open>get_absolute_path\<close> of \<open>kernel/src/vfs.c\<close>: joining a relative path to the working directory and
  resolving \<open>.\<close> and \<open>..\<close> in one pass over the characters.  The reference is a fold over the
  path's components with a stack; the theory proves that the pass computes it.
\<close>

section \<open>The pass over the characters\<close>

definition MAX_PATH_NAME :: nat where "MAX_PATH_NAME = 255"

abbreviation slash :: char where "slash \<equiv> CHR ''/''"
abbreviation dot :: char where "dot \<equiv> CHR ''.''"

text \<open>\<open>while (idx > 0 && absolute_path[idx] != '/') idx--\<close>.\<close>

primrec back_loop :: "string \<Rightarrow> nat \<Rightarrow> nat" where
  "back_loop a 0 = 0"
| "back_loop a (Suc idx) = (if a ! Suc idx \<noteq> slash then back_loop a idx else Suc idx)"

text \<open>The written part of \<open>absolute_path\<close>, of length \<open>idx\<close>, after a \<open>..\<close>.\<close>

definition pop_component :: "string \<Rightarrow> string" where
  "pop_component a = (if length a > 0 then take (back_loop a (length a - 1)) a else a)"

function resolve_loop :: "string \<Rightarrow> nat \<Rightarrow> string \<Rightarrow> string" where
  "resolve_loop t i a =
     (if i < length t then
        if i + 2 < length t \<and> t ! i = slash \<and> t ! (i + 1) = dot \<and> t ! (i + 2) = slash
        then resolve_loop t (i + 2) a
        else if i + 1 < length t \<and> t ! i = slash \<and> t ! (i + 1) = dot \<and> i + 2 = length t
        then resolve_loop t (i + 2) a
        else if i + 3 < length t \<and> t ! i = slash \<and> t ! (i + 1) = dot \<and> t ! (i + 2) = dot \<and>
          t ! (i + 3) = slash
        then resolve_loop t (i + 3) (pop_component a)
        else if i + 2 < length t \<and> t ! i = slash \<and> t ! (i + 1) = dot \<and> t ! (i + 2) = dot \<and>
          i + 3 = length t
        then resolve_loop t (i + 3) (pop_component a)
        else resolve_loop t (i + 1) (if length a < MAX_PATH_NAME then a @ [t ! i] else a)
      else a)"
  by pat_completeness auto
termination
  by (relation "measure (\<lambda>(t, i, a). length t - i)") auto

declare resolve_loop.simps [simp del]

definition resolve :: "string \<Rightarrow> string" where
  "resolve temp_path = (let a = resolve_loop temp_path 0 [] in if a = [] then ''/'' else a)"

text \<open>The new contents of \<open>path\<close>.  \<open>None\<close>: an empty working directory makes the code read the
  byte before it.\<close>

definition get_absolute_path :: "string \<Rightarrow> string \<Rightarrow> string option" where
  "get_absolute_path path curr_working_dir =
     (if path = [] \<or> path ! 0 \<noteq> slash then
        if length curr_working_dir + length path + 2 > MAX_PATH_NAME then Some path
        else if curr_working_dir = [] then None
        else Some (resolve (curr_working_dir @
               (if curr_working_dir \<noteq> ''/'' \<and> last curr_working_dir \<noteq> slash then ''/'' else '''') @ path))
      else if length path > MAX_PATH_NAME then Some path
      else Some (resolve path))"

section \<open>The reference\<close>

text \<open>The pieces between slashes, empty ones included.\<close>

fun components :: "string \<Rightarrow> string list" where
  "components [] = [[]]"
| "components (c # cs) =
     (if c = slash then [] # components cs
      else (case components cs of [] \<Rightarrow> [[c]] | x # xs \<Rightarrow> (c # x) # xs))"

definition step_component :: "string list \<Rightarrow> string \<Rightarrow> string list" where
  "step_component st c = (if c = ''.'' then st else if c = ''..'' then butlast st else st @ [c])"

definition normalise :: "string list \<Rightarrow> string list" where
  "normalise cs = foldl step_component [] cs"

definition render :: "string list \<Rightarrow> string" where
  "render st = concat (map (\<lambda>c. slash # c) st)"

definition plain :: "string list \<Rightarrow> bool" where
  "plain st \<longleftrightarrow> (\<forall>c \<in> set st. slash \<notin> set c)"

section \<open>Components\<close>

lemma render_snoc [simp]: "render (st @ [c]) = render st @ slash # c"
  by (simp add: render_def)

lemma render_Nil [simp]: "render [] = []"
  by (simp add: render_def)

lemma components_nonempty [simp]: "components s \<noteq> []"
  by (induction s rule: components.induct) (auto split: list.splits)

lemma components_plain: "plain (components s)"
  by (induction s rule: components.induct) (auto simp: plain_def split: list.splits)

lemma components_render: "render (components s) = slash # s"
  by (induction s rule: components.induct) (auto simp: render_def split: list.splits)

lemma components_append: "slash \<notin> set c \<Longrightarrow> components (c @ slash # s) = c # components s"
  by (induction c) auto

lemma components_single: "slash \<notin> set c \<Longrightarrow> components c = [c]"
  by (induction c) auto

lemma components_of_render: "st \<noteq> [] \<Longrightarrow> plain st \<Longrightarrow> components (tl (render st)) = st"
proof (induction st)
  case (Cons c st)
  show ?case
  proof (cases st)
    case Nil
    with Cons.prems show ?thesis by (simp add: render_def plain_def components_single)
  next
    case (Cons d ds)
    then have "render st = slash # tl (render st)" by (simp add: render_def)
    then have "render (c # st) = slash # c @ slash # tl (render st)"
      by (simp add: render_def)
    with Cons.IH Cons.prems Cons show ?thesis by (simp add: plain_def components_append)
  qed
qed simp

lemma step_component_plain: "plain st \<Longrightarrow> slash \<notin> set c \<Longrightarrow> plain (step_component st c)"
  by (auto simp: plain_def step_component_def dest: in_set_butlastD)

section \<open>Going up one directory\<close>

lemma back_loop_stays:
  "k \<le> n \<Longrightarrow> (\<And>j. k < j \<Longrightarrow> j \<le> n \<Longrightarrow> a ! j \<noteq> slash) \<Longrightarrow> k = 0 \<or> a ! k = slash \<Longrightarrow> back_loop a n = k"
  by (induction n) (auto simp: le_Suc_eq)

lemma pop_component_render:
  assumes "plain st"
  shows "pop_component (render st) = render (butlast st)"
proof (cases st rule: rev_cases)
  case Nil
  then show ?thesis by (simp add: pop_component_def)
next
  case (snoc st' c)
  let ?a = "render st' @ slash # c"
  have "back_loop ?a (length ?a - 1) = length (render st')"
  proof (rule back_loop_stays)
    fix j assume j: "length (render st') < j" "j \<le> length ?a - 1"
    then obtain k where "j = length (render st') + Suc k" "k < length c"
      by (metis add.assoc add_Suc_right diff_Suc_1 le_imp_less_Suc length_Cons length_append
          less_imp_Suc_add nat_add_left_cancel_less Suc_less_eq)
    then have "?a ! j = c ! k" by (simp add: nth_append)
    moreover have "slash \<notin> set c" using assms snoc by (simp add: plain_def)
    ultimately show "?a ! j \<noteq> slash" using \<open>k < length c\<close> by (metis nth_mem)
  qed (simp_all add: nth_append)
  then show ?thesis using snoc by (simp add: pop_component_def)
qed

section \<open>The pass computes the fold\<close>

text \<open>Characters that are not a slash are copied.\<close>

lemma resolve_loop_copy:
  assumes "t = u @ c @ r" "slash \<notin> set c" "i = length u" "length a \<le> i" "length t \<le> MAX_PATH_NAME"
  shows "resolve_loop t i a = resolve_loop t (i + length c) (a @ c)"
  using assms
proof (induction c arbitrary: u i a)
  case (Cons x c)
  have x: "t ! i = x" "i < length t" "x \<noteq> slash" using Cons.prems by auto
  then have "resolve_loop t i a = resolve_loop t (i + 1) (a @ [x])"
    using Cons.prems by (subst resolve_loop.simps) auto
  also have "\<dots> = resolve_loop t (i + 1 + length c) ((a @ [x]) @ c)"
    by (rule Cons.IH[of "u @ [x]"]) (use Cons.prems in auto)
  finally show ?case by simp
qed simp

text \<open>One component, up to the next slash or the end.\<close>

lemma resolve_loop_component:
  assumes t: "t = u @ slash # c @ r" and c: "slash \<notin> set c" and i: "i = length u"
    and r: "r = [] \<or> hd r = slash" and st: "plain st" and la: "length (render st) \<le> i"
    and lt: "length t \<le> MAX_PATH_NAME"
  shows "resolve_loop t i (render st) = resolve_loop t (i + 1 + length c) (render (step_component st c))"
proof -
  have nth: "t ! i = slash" "i < length t" "\<And>k. k < length c \<Longrightarrow> t ! (i + 1 + k) = c ! k"
    "\<And>k. k < length r \<Longrightarrow> t ! (i + 1 + length c + k) = r ! k" "length t = i + 1 + length c + length r"
    using t i by (auto simp: nth_append)
  have r0: "r \<noteq> [] \<Longrightarrow> t ! (i + 1 + length c) = slash"
    using nth(4)[of 0] r by (cases r) auto
  consider (dot) "c = [dot]" | (dots) "c = [dot, dot]" | (other) "c \<noteq> [dot]" "c \<noteq> [dot, dot]" by blast
  then show ?thesis
  proof cases
    case dot
    have "t ! (i + 1) = dot" using nth(3)[of 0] dot by simp
    moreover have "i + 2 < length t \<and> t ! (i + 2) = slash \<or> i + 2 = length t"
      using r0 nth(5) dot by (cases r) (auto simp: ac_simps)
    ultimately show ?thesis using nth(1,2) dot
      by (subst resolve_loop.simps) (auto simp: step_component_def ac_simps)
  next
    case dots
    have d: "t ! (i + 1) = dot" "t ! (i + 2) = dot" using nth(3)[of 0] nth(3)[of 1] dots by simp_all
    moreover have "i + 3 < length t \<and> t ! (i + 3) = slash \<or> i + 3 = length t"
      using r0 nth(5) dots by (cases r) (auto simp: ac_simps numeral_eq_Suc)
    ultimately have "resolve_loop t i (render st) = resolve_loop t (i + 3) (pop_component (render st))"
      using nth(1,2) by (subst resolve_loop.simps) auto
    then show ?thesis using dots pop_component_render[OF st]
      by (simp add: step_component_def ac_simps numeral_eq_Suc)
  next
    case other
    have t1: "0 < length c \<Longrightarrow> t ! (i + 1) = c ! 0" and t2: "1 < length c \<Longrightarrow> t ! (i + 2) = c ! 1"
      and t3: "2 < length c \<Longrightarrow> t ! (i + 3) = c ! 2"
      using nth(3)[of 0] nth(3)[of 1] nth(3)[of 2] by (simp_all add: numeral_eq_Suc)
    have e: "i + 1 + length c < length t \<Longrightarrow> t ! (i + 1 + length c) = slash" using r0 nth(5) by simp
    have e0: "length c = 0 \<Longrightarrow> i + 1 < length t \<Longrightarrow> t ! (i + 1) = slash" using e by simp
    have e1: "length c = 1 \<Longrightarrow> i + 2 < length t \<Longrightarrow> t ! (i + 2) = slash" using e by (simp add: numeral_eq_Suc)
    have ns: "k < length c \<Longrightarrow> c ! k \<noteq> slash" for k using c by (metis nth_mem)
    have l1: "length c = 1 \<Longrightarrow> c ! 0 \<noteq> dot" using other(1) by (cases c) auto
    have l2: "length c = 2 \<Longrightarrow> c ! 0 = dot \<Longrightarrow> c ! 1 \<noteq> dot"
    proof -
      assume "length c = 2" "c ! 0 = dot"
      then obtain x y where "c = [x, y]" by (metis length_0_conv length_Suc_conv numeral_2_eq_2)
      with \<open>c ! 0 = dot\<close> other(2) show "c ! 1 \<noteq> dot" by simp
    qed
    have cs: "length c = 0 \<or> length c = 1 \<or> length c = 2 \<or> 2 < length c" by linarith
    have n1: "\<not> (i + 2 < length t \<and> t ! (i + 1) = dot \<and> t ! (i + 2) = slash)"
      using cs t1 t2 e0 l1 ns[of 1] by (elim disjE) auto
    have n2: "\<not> (t ! (i + 1) = dot \<and> i + 2 = length t)"
    proof
      assume a: "t ! (i + 1) = dot \<and> i + 2 = length t"
      then have "length c \<le> 1" using nth(5) by linarith
      then have "length c = 0 \<or> length c = 1" by linarith
      then show False using a e0 t1 l1 by (elim disjE) simp_all
    qed
    have n3: "\<not> (i + 3 < length t \<and> t ! (i + 1) = dot \<and> t ! (i + 2) = dot \<and> t ! (i + 3) = slash)"
      using cs t1 t2 t3 e0 e1 l2 ns[of 2] by (elim disjE) auto
    have n4: "\<not> (i + 2 < length t \<and> t ! (i + 1) = dot \<and> t ! (i + 2) = dot \<and> i + 3 = length t)"
    proof
      assume a: "i + 2 < length t \<and> t ! (i + 1) = dot \<and> t ! (i + 2) = dot \<and> i + 3 = length t"
      then have "length c \<le> 2" using nth(5) by linarith
      then have "length c = 0 \<or> length c = 1 \<or> length c = 2" by linarith
      then show False using a e0 e1 t1 t2 l2 by (elim disjE) simp_all
    qed
    have "resolve_loop t i (render st) = resolve_loop t (i + 1) (render st @ [slash])"
      using nth(1,2) n1 n2 n3 n4 la lt by (subst resolve_loop.simps) auto
    also have "\<dots> = resolve_loop t (i + 1 + length c) ((render st @ [slash]) @ c)"
      by (rule resolve_loop_copy[of t "u @ [slash]" c r]) (use t i c la lt in auto)
    finally show ?thesis using other by (simp add: step_component_def)
  qed
qed

lemma length_step_component:
  "length (render (step_component st c)) \<le> length (render st) + 1 + length c"
proof -
  have "length (render (butlast st)) \<le> length (render st)" by (cases st rule: rev_cases) simp_all
  then show ?thesis by (simp add: step_component_def)
qed

lemma render_Cons: "render (c # cs) = slash # c @ render cs"
  by (simp add: render_def)

lemma render_hd: "render cs = [] \<or> hd (render cs) = slash"
  by (cases cs) (simp_all add: render_Cons)

lemma resolve_loop_components:
  assumes "t = u @ render cs" "plain cs" "plain st" "length (render st) \<le> length u" "length t \<le> MAX_PATH_NAME"
  shows "resolve_loop t (length u) (render st) = render (foldl step_component st cs)"
  using assms
proof (induction cs arbitrary: u st)
  case Nil
  then show ?case by (simp add: resolve_loop.simps)
next
  case (Cons c cs)
  have c: "slash \<notin> set c" "plain cs" using Cons.prems(2) by (simp_all add: plain_def)
  have "resolve_loop t (length u) (render st) =
      resolve_loop t (length u + 1 + length c) (render (step_component st c))"
    by (rule resolve_loop_component[where u = u and r = "render cs"])
      (use Cons.prems c render_hd in \<open>auto simp: render_Cons\<close>)
  also have "length u + 1 + length c = length (u @ slash # c)" by simp
  also have "resolve_loop t (length (u @ slash # c)) (render (step_component st c)) =
      render (foldl step_component (step_component st c) cs)"
  proof (rule Cons.IH)
    show "plain (step_component st c)" using Cons.prems(3) c(1) by (rule step_component_plain)
    show "length (render (step_component st c)) \<le> length (u @ slash # c)"
      using length_step_component[of st c] Cons.prems(4) by simp
  qed (use Cons.prems c in \<open>auto simp: render_Cons\<close>)
  finally show ?case by simp
qed

text \<open>The absolute path of a list of components: the root when nothing is left.\<close>

definition path_of :: "string list \<Rightarrow> string" where
  "path_of st = (if st = [] then ''/'' else render st)"

lemma render_eq_Nil [simp]: "render st = [] \<longleftrightarrow> st = []"
  by (cases st) (simp_all add: render_Cons)

lemma resolve_correct:
  assumes "length t \<le> MAX_PATH_NAME" "t = slash # s"
  shows "resolve t = path_of (normalise (components s))"
proof -
  have "t = [] @ render (components s)" using assms(2) by (simp add: components_render)
  from resolve_loop_components[OF this components_plain, of "[]"] assms(1)
  have "resolve_loop t 0 [] = render (normalise (components s))"
    by (simp add: normalise_def plain_def)
  then show ?thesis by (simp add: resolve_def path_of_def)
qed

text \<open>Normalised paths: no \<open>.\<close> and no \<open>..\<close> is left, and normalising again changes nothing.\<close>

definition normal :: "string list \<Rightarrow> bool" where
  "normal st \<longleftrightarrow> plain st \<and> ''.'' \<notin> set st \<and> ''..'' \<notin> set st"

lemma foldl_normal: "normal st \<Longrightarrow> plain cs \<Longrightarrow> normal (foldl step_component st cs)"
proof (induction cs arbitrary: st)
  case (Cons c cs)
  have "normal (step_component st c)"
    using Cons.prems by (auto simp: normal_def plain_def step_component_def dest: in_set_butlastD)
  with Cons show ?case by (simp add: plain_def)
qed simp

lemma normalise_normal: "plain cs \<Longrightarrow> normal (normalise cs)"
  using foldl_normal[of "[]" cs] by (simp add: normalise_def normal_def plain_def)

lemma normalise_id: "normal st \<Longrightarrow> normalise st = st"
proof -
  have "normal cs \<Longrightarrow> foldl step_component st cs = st @ cs" for st cs
    by (induction cs arbitrary: st) (auto simp: normal_def plain_def step_component_def)
  then show "normal st \<Longrightarrow> normalise st = st" by (simp add: normalise_def)
qed

lemma length_foldl_render:
  "length (render (foldl step_component st cs)) \<le> length (render st) + length (render cs)"
proof (induction cs arbitrary: st)
  case (Cons c cs)
  from Cons.IH[of "step_component st c"] length_step_component[of st c] show ?case
    by (simp add: render_Cons)
qed simp

lemma length_normalise: "length (render (normalise cs)) \<le> length (render cs)"
  using length_foldl_render[of "[]" cs] by (simp add: normalise_def)

lemma path_of_slash: "\<exists>s. path_of st = slash # s"
  by (cases st) (simp_all add: path_of_def render_Cons)

lemma path_of_length: "length (path_of (normalise (components s))) \<le> length (slash # s)"
  using length_normalise[of "components s"] by (auto simp: path_of_def components_render)

lemma resolve_idem:
  assumes "length t \<le> MAX_PATH_NAME" "t = slash # s"
  shows "resolve (resolve t) = resolve t"
proof -
  let ?st = "normalise (components s)"
  have n: "normal ?st" using components_plain by (rule normalise_normal)
  have e: "resolve t = path_of ?st" using assms by (rule resolve_correct)
  have l: "length (path_of ?st) \<le> MAX_PATH_NAME" using path_of_length[of s] assms by simp
  show ?thesis
  proof (cases "?st = []")
    case True
    then have "resolve t = ''/''" by (simp add: e path_of_def)
    moreover have "resolve ''/'' = path_of (normalise (components []))"
      by (rule resolve_correct) (simp_all add: MAX_PATH_NAME_def)
    then have "resolve ''/'' = ''/''" by (simp add: normalise_def step_component_def path_of_def render_Cons)
    ultimately show ?thesis by simp
  next
    case False
    then have p: "path_of ?st = slash # tl (render ?st)"
      by (cases ?st) (simp_all add: path_of_def render_Cons)
    have "resolve (path_of ?st) = path_of (normalise (components (tl (render ?st))))"
      using resolve_correct[OF l p] .
    also have "components (tl (render ?st)) = ?st"
      using False n by (intro components_of_render) (simp_all add: normal_def)
    also have "normalise ?st = ?st" using n by (rule normalise_id)
    finally show ?thesis by (simp add: e)
  qed
qed

text \<open>Every working directory the kernel starts from is absolute and short enough; so is the
  result, which therefore serves as the next working directory.\<close>

definition cwd_ok :: "string \<Rightarrow> bool" where
  "cwd_ok d \<longleftrightarrow> d \<noteq> [] \<and> d ! 0 = slash \<and> length d \<le> MAX_PATH_NAME"

lemma cwd_okE:
  assumes "cwd_ok d"
  obtains s where "d = slash # s"
  using assms by (cases d) (auto simp: cwd_ok_def)

text \<open>The path that is resolved: the argument itself, or joined to the working directory.\<close>

definition joined :: "string \<Rightarrow> string \<Rightarrow> string" where
  "joined path d = (if path \<noteq> [] \<and> path ! 0 = slash then path
     else d @ (if last d \<noteq> slash then ''/'' else '''') @ path)"

definition fits :: "string \<Rightarrow> string \<Rightarrow> bool" where
  "fits path d \<longleftrightarrow> (if path \<noteq> [] \<and> path ! 0 = slash then length path \<le> MAX_PATH_NAME
     else length d + length path + 2 \<le> MAX_PATH_NAME)"

lemma get_absolute_path_joined:
  assumes "cwd_ok d" "fits path d"
  obtains s where "joined path d = slash # s" "length (slash # s) \<le> MAX_PATH_NAME"
    "get_absolute_path path d = Some (path_of (normalise (components s)))"
proof -
  obtain r where r: "d = slash # r" using assms(1) by (rule cwd_okE)
  obtain s where s: "joined path d = slash # s"
  proof (cases "path \<noteq> [] \<and> path ! 0 = slash")
    case True
    then obtain p where "path = slash # p" by (cases path) auto
    with that show thesis by (simp add: joined_def)
  next
    case False
    with that r show thesis unfolding joined_def by simp
  qed
  have l: "length (joined path d) \<le> MAX_PATH_NAME"
    using assms by (auto simp: joined_def fits_def cwd_ok_def split: if_splits)
  have "get_absolute_path path d = Some (resolve (joined path d))"
    using assms r by (auto simp: get_absolute_path_def joined_def fits_def)
  with resolve_correct[OF l s] have "get_absolute_path path d = Some (path_of (normalise (components s)))"
    by simp
  with that[OF s] l s show thesis by simp
qed

end
