(* ===== verification/Cstring.thy ===== *)
theory Cstring
  imports Prelude
begin

text \<open>
  \<open>kernel/src/string.c\<close> and \<open>kernel/src/utils.c\<close>: byte memory, C strings, copying, comparing and
  number conversion.  Memory maps 64-bit addresses to bytes; a \<open>char*\<close> is an address and
  \<open>char\<close> is unsigned, as on AArch64.  Walks to a terminator are partial functions: \<open>None\<close> is a
  walk that never ends.
\<close>

section \<open>Memory and C strings\<close>

type_synonym mem = "64 word \<Rightarrow> 8 word"
type_synonym addr = "64 word"

text \<open>The string at \<open>p\<close>: its bytes, none of them zero, and a terminator.\<close>

primrec cstr :: "mem \<Rightarrow> addr \<Rightarrow> 8 word list \<Rightarrow> bool" where
  "cstr m p [] = (m p = 0)"
| "cstr m p (x # xs) = (x \<noteq> 0 \<and> m p = x \<and> cstr m (p + 1) xs)"

text \<open>The bytes of the string at an address.\<close>

partial_function (option) get_text :: "mem \<Rightarrow> addr \<Rightarrow> 8 word list option" where
  "get_text m p = (if m p = 0 then Some [] else Option.bind (get_text m (p + 1)) (\<lambda>xs. Some (m p # xs)))"

section \<open>Lengths\<close>

partial_function (option) strlen_loop :: "mem \<Rightarrow> addr \<Rightarrow> 64 word \<Rightarrow> 64 word option" where
  "strlen_loop m str count = (if m str = 0 then Some count else strlen_loop m (str + 1) (count + 1))"

definition strlen :: "mem \<Rightarrow> addr \<Rightarrow> 64 word option" where
  "strlen m str = strlen_loop m str 0"

partial_function (option) utils_strlen_loop :: "mem \<Rightarrow> addr \<Rightarrow> 64 word \<Rightarrow> 64 word option" where
  "utils_strlen_loop m s i = (if m (s + i) = 0 then Some i else utils_strlen_loop m s (i + 1))"

definition utils_strlen :: "mem \<Rightarrow> addr \<Rightarrow> 64 word option" where
  "utils_strlen m s = utils_strlen_loop m s 0"

section \<open>Comparing\<close>

definition byte_diff :: "8 word \<Rightarrow> 8 word \<Rightarrow> int" where
  "byte_diff c1 c2 = uint c1 - uint c2"

partial_function (option) strcmp :: "mem \<Rightarrow> addr \<Rightarrow> addr \<Rightarrow> int option" where
  "strcmp m p1 p2 =
     (let c1 = m p1; c2 = m p2
      in if c1 = 0 then Some (byte_diff c1 c2)
         else if c1 = c2 then strcmp m (p1 + 1) (p2 + 1)
         else Some (byte_diff c1 c2))"

text \<open>The tail loop of \<open>strncmp\<close>; \<open>r\<close> is the value of \<open>c1 - c2\<close> on entry.\<close>

primrec strncmp_tail :: "mem \<Rightarrow> addr \<Rightarrow> addr \<Rightarrow> nat \<Rightarrow> int \<Rightarrow> int" where
  "strncmp_tail m s1 s2 0 r = r"
| "strncmp_tail m s1 s2 (Suc n) r =
     (let c1 = m s1; c2 = m s2
      in if c1 = 0 \<or> c1 \<noteq> c2 then byte_diff c1 c2
         else strncmp_tail m (s1 + 1) (s2 + 1) n (byte_diff c1 c2))"

text \<open>One unrolled step: \<open>Inl\<close> the value returned, \<open>Inr\<close> when the bytes agree.\<close>

definition strncmp_step :: "mem \<Rightarrow> addr \<Rightarrow> addr \<Rightarrow> int + int" where
  "strncmp_step m s1 s2 =
     (let c1 = m s1; c2 = m s2 in if c1 = 0 \<or> c1 \<noteq> c2 then Inl (byte_diff c1 c2) else Inr (byte_diff c1 c2))"

text \<open>The \<open>do ... while (--n4 > 0)\<close> loop, for \<open>n4 > 0\<close>, then the tail.\<close>

primrec strncmp_quads :: "mem \<Rightarrow> addr \<Rightarrow> addr \<Rightarrow> nat \<Rightarrow> nat \<Rightarrow> int \<Rightarrow> int" where
  "strncmp_quads m s1 s2 0 n r = strncmp_tail m s1 s2 n r"
| "strncmp_quads m s1 s2 (Suc n4) n r =
     (case strncmp_step m s1 s2 of Inl v \<Rightarrow> v | Inr _ \<Rightarrow>
      case strncmp_step m (s1 + 1) (s2 + 1) of Inl v \<Rightarrow> v | Inr _ \<Rightarrow>
      case strncmp_step m (s1 + 2) (s2 + 2) of Inl v \<Rightarrow> v | Inr _ \<Rightarrow>
      case strncmp_step m (s1 + 3) (s2 + 3) of Inl v \<Rightarrow> v | Inr r' \<Rightarrow>
      strncmp_quads m (s1 + 4) (s2 + 4) n4 n r')"

definition strncmp :: "mem \<Rightarrow> addr \<Rightarrow> addr \<Rightarrow> 64 word \<Rightarrow> int" where
  "strncmp m s1 s2 n =
     (if n \<ge> 4 then strncmp_quads m s1 s2 (unat (drop_bit 2 n)) (unat (n AND 3)) 0
      else strncmp_tail m s1 s2 (unat n) 0)"

section \<open>Copying and filling\<close>

text \<open>The byte loop runs upwards, so a source that overlaps the destination from below is
  overwritten while it is read.\<close>

primrec copy_loop :: "addr \<Rightarrow> addr \<Rightarrow> nat \<Rightarrow> mem \<Rightarrow> mem" where
  "copy_loop d s 0 m = m"
| "copy_loop d s (Suc n) m = copy_loop (d + 1) (s + 1) n (m(d := m s))"

definition memcpy :: "addr \<Rightarrow> addr \<Rightarrow> 64 word \<Rightarrow> mem \<Rightarrow> mem" where
  "memcpy dest src len m = copy_loop dest src (unat len) m"

definition utils_memcpy :: "addr \<Rightarrow> addr \<Rightarrow> 32 word \<Rightarrow> mem \<Rightarrow> mem" where
  "utils_memcpy dst src len m = copy_loop dst src (unat len) m"

primrec fill_loop :: "addr \<Rightarrow> 8 word \<Rightarrow> nat \<Rightarrow> mem \<Rightarrow> mem" where
  "fill_loop s c 0 m = m"
| "fill_loop s c (Suc n) m = (fill_loop s c n m)(s + of_nat n := c)"

definition memset :: "addr \<Rightarrow> 32 word \<Rightarrow> 64 word \<Rightarrow> mem \<Rightarrow> mem" where
  "memset s c n m = fill_loop s (ucast c) (unat n) m"

definition utils_memset :: "addr \<Rightarrow> 32 word \<Rightarrow> 64 word \<Rightarrow> mem \<Rightarrow> mem" where
  "utils_memset s c n m = fill_loop s (ucast c) (unat n) m"

definition strcpy :: "addr \<Rightarrow> addr \<Rightarrow> mem \<Rightarrow> mem option" where
  "strcpy dest src m = (case strlen m src of None \<Rightarrow> None | Some n \<Rightarrow> Some (memcpy dest src (n + 1) m))"

definition strcat :: "addr \<Rightarrow> addr \<Rightarrow> mem \<Rightarrow> mem option" where
  "strcat dest src m = (case strlen m dest of None \<Rightarrow> None | Some n \<Rightarrow> strcpy (dest + n) src m)"

section \<open>Searching and splitting\<close>

text \<open>The result of \<open>strchr\<close>: outer \<open>None\<close> no end, inner \<open>None\<close> the null pointer.\<close>

partial_function (option) strchr :: "mem \<Rightarrow> addr \<Rightarrow> 8 word \<Rightarrow> addr option option" where
  "strchr m s c = (if m s = c then Some (Some s) else if m s \<noteq> 0 then strchr m (s + 1) c else Some None)"

partial_function (option) str_SepbySpace :: "mem \<Rightarrow> addr \<Rightarrow> (mem \<times> addr) option" where
  "str_SepbySpace m head =
     (if m head = 0 then Some (m, head)
      else if m head = 0x20 then Some (m(head := 0), head + 1)
      else str_SepbySpace m (head + 1))"

section \<open>Numbers\<close>

text \<open>\<open>None\<close> is signed overflow, undefined in C (or a walk without end).  \<open>res * 10 + str[i] - '0'\<close>
  adds the character before it subtracts \<open>'0'\<close>.\<close>

partial_function (option) atoi_loop :: "mem \<Rightarrow> addr \<Rightarrow> int \<Rightarrow> int option" where
  "atoi_loop m p res =
     (if m p = 0 then Some res
      else if m p > 0x39 \<or> m p < 0x30 then Some res
      else if res * 10 + uint (m p) > 2 ^ 31 - 1 then None
      else atoi_loop m (p + 1) (res * 10 + uint (m p) - 0x30))"

definition atoi :: "mem \<Rightarrow> addr \<Rightarrow> int option" where
  "atoi m str = atoi_loop m str 0"

primrec HexStr2Int_loop :: "mem \<Rightarrow> addr \<Rightarrow> nat \<Rightarrow> 64 word \<Rightarrow> 64 word" where
  "HexStr2Int_loop m s 0 num = num"
| "HexStr2Int_loop m s (Suc n) num =
     (let num1 = num * 16; c = m s;
          num2 = (if 0x30 \<le> c \<and> c \<le> 0x39 then num1 + (ucast c - 0x30)
                  else if 0x41 \<le> c \<and> c \<le> 0x46 then num1 + (ucast c - 0x41 + 10)
                  else if 0x61 \<le> c \<and> c \<le> 0x66 then num1 + (ucast c - 0x61 + 10) else num1)
      in HexStr2Int_loop m (s + 1) n num2)"

definition utils_HexStr2Int :: "mem \<Rightarrow> addr \<Rightarrow> nat \<Rightarrow> 64 word" where
  "utils_HexStr2Int m s char_size = HexStr2Int_loop m s char_size 0"

primrec DecStr2Int_loop :: "mem \<Rightarrow> addr \<Rightarrow> nat \<Rightarrow> 64 word \<Rightarrow> 64 word" where
  "DecStr2Int_loop m s 0 num = num"
| "DecStr2Int_loop m s (Suc n) num =
     (let c = m s in if 0x30 \<le> c \<and> c \<le> 0x39 then DecStr2Int_loop m (s + 1) n (num * 10 + (ucast c - 0x30))
      else 0)"

definition utils_DecStr2Int :: "mem \<Rightarrow> addr \<Rightarrow> nat \<Rightarrow> 64 word" where
  "utils_DecStr2Int m s char_size = DecStr2Int_loop m s char_size 0"

definition utils_align :: "64 word \<Rightarrow> 64 word \<Rightarrow> 64 word" where
  "utils_align sz s =
     (if s = 0 \<or> s AND (s - 1) \<noteq> 0 then sz
      else (let mask = s - 1 in (sz + mask) AND NOT mask))"

definition utils_change_endian_32 :: "32 word \<Rightarrow> 32 word" where
  "utils_change_endian_32 val =
     (drop_bit 24 val AND 0x000000FF) OR (drop_bit 8 val AND 0x0000FF00) OR
     (push_bit 8 val AND 0x00FF0000) OR (push_bit 24 val AND 0xFF000000)"

definition utils_change_endian_64 :: "64 word \<Rightarrow> 64 word" where
  "utils_change_endian_64 val =
     (drop_bit 56 val AND 0x00000000000000FF) OR (drop_bit 40 val AND 0x000000000000FF00) OR
     (drop_bit 24 val AND 0x0000000000FF0000) OR (drop_bit 8 val AND 0x00000000FF000000) OR
     (push_bit 8 val AND 0x000000FF00000000) OR (push_bit 24 val AND 0x0000FF0000000000) OR
     (push_bit 40 val AND 0x00FF000000000000) OR (push_bit 56 val AND 0xFF00000000000000)"

text \<open>\<open>utils_int_to_str\<close>: the digits are written from the least significant one, then the buffer is
  reversed in place; the characters before the terminator are returned.  \<open>None\<close> is \<open>-value\<close> of
  the least \<open>int\<close>, which overflows.\<close>

function digits_loop :: "nat \<Rightarrow> 8 word list \<Rightarrow> 8 word list" where
  "digits_loop value str =
     (if value \<noteq> 0 then digits_loop (value div 10) (str @ [of_nat (value mod 10) + 0x30]) else str)"
  by pat_completeness auto
termination
  by (relation "measure fst") auto

declare digits_loop.simps [simp del]

primrec reverse_loop :: "nat \<Rightarrow> 8 word list \<Rightarrow> 8 word list" where
  "reverse_loop 0 str = str"
| "reverse_loop (Suc i) str =
     (let s = reverse_loop i str; temp = s ! i; j = length s - i - 1
      in (s[i := s ! j])[j := temp])"

definition utils_int_to_str :: "32 word \<Rightarrow> 8 word list option" where
  "utils_int_to_str value =
     (if value = 0 then Some [0x30]
      else if sint value = - (2 ^ 31) then None
      else
        (let is_negative = sint value < 0;
             str = digits_loop (nat \<bar>sint value\<bar>) [];
             str1 = (if is_negative then str @ [0x2D] else str)
         in Some (reverse_loop (length str1 div 2) str1)))"

text \<open>\<open>utils_string_compare\<close> skips carriage returns, line feeds and terminators before every
  comparison, past the end of either string if need be.\<close>

definition skipped :: "8 word \<Rightarrow> bool" where
  "skipped c \<longleftrightarrow> c = 0x0D \<or> c = 0x0A \<or> c = 0"

partial_function (option) skip_loop :: "mem \<Rightarrow> addr \<Rightarrow> addr option" where
  "skip_loop m p = (if skipped (m p) then skip_loop m (p + 1) else Some p)"

partial_function (option) utils_string_compare :: "mem \<Rightarrow> addr \<Rightarrow> addr \<Rightarrow> bool option" where
  "utils_string_compare m str1 str2 =
     (if m str1 \<noteq> 0 \<or> m str2 \<noteq> 0 then
        (case skip_loop m str1 of None \<Rightarrow> None | Some p \<Rightarrow>
         case skip_loop m str2 of None \<Rightarrow> None | Some q \<Rightarrow>
           if m p = 0 \<and> m q = 0 then Some True
           else if m p \<noteq> m q then Some False
           else utils_string_compare m (p + 1) (q + 1))
      else Some True)"

end
