(* ===== verification/Cstring_Inv.thy ===== *)
theory Cstring_Inv
  imports Cstring "HOL-Library.List_Lexorder"
begin

text \<open>
  Correctness of the string routines over the predicate \<open>cstr\<close>: lengths, comparison as the
  lexicographic order of the bytes, the unrolled \<open>strncmp\<close> against its plain loop, copying and
  its frame, number parsing and printing, byte swapping and alignment.
\<close>

section \<open>C strings\<close>

lemma cstr_unique: "cstr m p xs \<Longrightarrow> cstr m p ys \<Longrightarrow> xs = ys"
  by (induction xs arbitrary: p ys) (case_tac ys, auto)+

lemma cstr_nz: "cstr m p xs \<Longrightarrow> 0 \<notin> set xs"
  by (induction xs arbitrary: p) auto

lemma cstr_cong:
  "(\<And>i. i \<le> length xs \<Longrightarrow> m (p + of_nat i) = m' (q + of_nat i)) \<Longrightarrow> cstr m p xs = cstr m' q xs"
proof (induction xs arbitrary: p q)
  case Nil
  from Nil[of 0] show ?case by simp
next
  case (Cons x xs)
  have "cstr m (p + 1) xs = cstr m' (q + 1) xs"
    by (rule Cons.IH) (use Cons.prems[of "Suc _"] in \<open>simp add: ac_simps\<close>)
  with Cons.prems[of 0] show ?case by simp
qed

lemma cstr_at: "cstr m p xs \<Longrightarrow> i \<le> length xs \<Longrightarrow> m (p + of_nat i) = (if i < length xs then xs ! i else 0)"
proof (induction xs arbitrary: p i)
  case (Cons x xs)
  show ?case
  proof (cases i)
    case (Suc j)
    with Cons.IH[of "p + 1" j] Cons.prems show ?thesis by (simp add: ac_simps)
  qed (use Cons in simp)
qed simp

lemma strlen_loop_cstr: "cstr m p xs \<Longrightarrow> strlen_loop m p n = Some (n + of_nat (length xs))"
proof (induction xs arbitrary: p n)
  case Nil
  then show ?case by (simp add: strlen_loop.simps)
next
  case (Cons x xs)
  then show ?case by (subst strlen_loop.simps) (simp add: ac_simps)
qed

lemma strlen_cstr: "cstr m p xs \<Longrightarrow> strlen m p = Some (of_nat (length xs))"
  by (simp add: strlen_def strlen_loop_cstr)

lemma utils_strlen_loop_cstr: "cstr m (s + i) xs \<Longrightarrow> utils_strlen_loop m s i = Some (i + of_nat (length xs))"
proof (induction xs arbitrary: i)
  case Nil
  then show ?case by (simp add: utils_strlen_loop.simps)
next
  case (Cons x xs)
  from Cons.IH[of "i + 1"] Cons.prems show ?case
    by (subst utils_strlen_loop.simps) (simp add: ac_simps)
qed

lemma utils_strlen_cstr: "cstr m p xs \<Longrightarrow> utils_strlen m p = Some (of_nat (length xs))"
  using utils_strlen_loop_cstr[of m p 0 xs] by (simp add: utils_strlen_def)

section \<open>Comparison\<close>

lemma byte_diff_sign [simp]:
  "byte_diff a b = 0 \<longleftrightarrow> a = b" "byte_diff a b < 0 \<longleftrightarrow> a < b" "0 < byte_diff a b \<longleftrightarrow> b < a"
  by (auto simp: byte_diff_def word_less_def word_uint_eq_iff)

lemma strcmp_cstr:
  assumes "cstr m p xs" "cstr m q ys"
  shows "\<exists>r. strcmp m p q = Some r \<and> (r = 0 \<longleftrightarrow> xs = ys) \<and> (r < 0 \<longleftrightarrow> xs < ys)"
  using assms
proof (induction xs arbitrary: p q ys)
  case Nil
  then show ?case by (subst strcmp.simps) (cases ys, auto simp: word_gt_0)
next
  case (Cons x xs)
  show ?case
  proof (cases ys)
    case Nil
    with Cons.prems show ?thesis by (subst strcmp.simps) (auto simp: byte_diff_def not_less word_uint_eq_iff)
  next
    case (Cons y zs)
    show ?thesis
    proof (cases "x = y")
      case True
      from Cons.IH[of "p + 1" "q + 1" zs] Cons.prems Cons True show ?thesis
        by (subst strcmp.simps) simp
    next
      case False
      with Cons.prems Cons show ?thesis by (subst strcmp.simps) auto
    qed
  qed
qed

lemma strncmp_tail_step:
  "strncmp_tail m p q (Suc n) r =
     (case strncmp_step m p q of Inl v \<Rightarrow> v | Inr r' \<Rightarrow> strncmp_tail m (p + 1) (q + 1) n r')"
  by (simp add: strncmp_step_def Let_def)

declare strncmp_tail.simps(2) [simp del]

lemma strncmp_quads_tail: "strncmp_quads m p q n4 n r = strncmp_tail m p q (4 * n4 + n) r"
proof (induction n4 arbitrary: p q r)
  case (Suc n4)
  have "4 * Suc n4 + n = Suc (Suc (Suc (Suc (4 * n4 + n))))" by simp
  then show ?case
    by (simp only: strncmp_tail_step) (simp add: Suc.IH ac_simps split: sum.splits)
qed simp

text \<open>Unrolling four times does not change the result.\<close>

lemma strncmp_unrolled: "strncmp m p q n = strncmp_tail m p q (unat n) 0"
proof (cases "n \<ge> 4")
  case True
  have "unat (n AND 3) = unat n mod 4"
  proof -
    have "n AND 3 = take_bit 2 n" by (simp add: take_bit_eq_mask mask_eq_exp_minus_1)
    then show ?thesis by (simp only: unsigned_take_bit_eq) (simp add: take_bit_eq_mod)
  qed
  moreover have "unat (drop_bit 2 n) = unat n div 4" by (simp add: drop_bit_eq_div unat_div)
  ultimately have "4 * unat (drop_bit 2 n) + unat (n AND 3) = unat n" by simp
  then show ?thesis using True by (simp add: strncmp_def strncmp_quads_tail)
qed (simp add: strncmp_def)

lemma strncmp_tail_cstr:
  assumes "cstr m p xs" "cstr m q ys"
  shows "(strncmp_tail m p q n 0 = 0 \<longleftrightarrow> take n xs = take n ys) \<and>
    (strncmp_tail m p q n 0 < 0 \<longleftrightarrow> take n xs < take n ys)"
  using assms
proof (induction n arbitrary: p q xs ys)
  case (Suc n)
  show ?case
  proof (cases xs; cases ys)
    fix x xs' y ys' assume l: "xs = x # xs'" "ys = y # ys'"
    show ?thesis
    proof (cases "x = y")
      case True
      with Suc.IH[of "p + 1" xs' "q + 1" ys'] Suc.prems l show ?thesis
        by (simp add: strncmp_tail_step strncmp_step_def Let_def byte_diff_def)
    next
      case False
      with Suc.prems l show ?thesis by (auto simp: strncmp_tail_step strncmp_step_def Let_def)
    qed
  qed (use Suc.prems in \<open>auto simp: strncmp_tail_step strncmp_step_def Let_def word_gt_0 not_less\<close>)
qed simp

section \<open>Copying\<close>

text \<open>The destination range of \<open>n\<close> bytes from \<open>d\<close>.\<close>

definition range_of :: "addr \<Rightarrow> nat \<Rightarrow> addr set" where
  "range_of d n = (\<lambda>i. d + of_nat i) ` {..<n}"

lemma range_of_Suc: "range_of d (Suc n) = insert d (range_of (d + 1) n)"
proof -
  have "{..<Suc n} = insert 0 (Suc ` {..<n})" by (rule lessThan_Suc_eq_insert_0)
  then show ?thesis by (simp add: range_of_def image_image ac_simps)
qed

lemma range_of_iff: "a \<in> range_of d n \<longleftrightarrow> (\<exists>i < n. a = d + of_nat i)"
  by (auto simp: range_of_def)

lemma copy_loop_other: "a \<notin> range_of d n \<Longrightarrow> copy_loop d s n m a = m a"
  by (induction n arbitrary: d s m) (auto simp: range_of_Suc)

lemma unat_of_nat_64: "i < 2 ^ 64 \<Longrightarrow> unat (of_nat i :: 64 word) = i"
  by (simp add: unsigned_of_nat take_bit_nat_eq_self)

lemma of_nat_neq: "i < 2 ^ 64 \<Longrightarrow> i \<noteq> 0 \<Longrightarrow> (of_nat i :: 64 word) \<noteq> 0"
  using unat_of_nat_64[of i] unsigned_0 by metis

text \<open>A copy into a range that does not meet the source is exact.\<close>

lemma copy_loop_disjoint:
  assumes "n < 2 ^ 64" "range_of d n \<inter> range_of s n = {}" "i < n"
  shows "copy_loop d s n m (d + of_nat i) = m (s + of_nat i)"
  using assms
proof (induction n arbitrary: d s m i)
  case (Suc n)
  have dn: "d \<notin> range_of (d + 1) n"
  proof
    assume "d \<in> range_of (d + 1) n"
    then obtain j where "j < n" "(of_nat (Suc j) :: 64 word) = 0"
      by (auto simp: range_of_iff algebra_simps)
    with of_nat_neq[of "Suc j"] Suc.prems(1) show False by simp
  qed
  have disj: "range_of (d + 1) n \<inter> range_of (s + 1) n = {}" and ds: "d \<notin> range_of (s + 1) n"
    using Suc.prems(2) by (auto simp: range_of_Suc)
  show ?case
  proof (cases i)
    case 0
    then show ?thesis using dn by (simp add: copy_loop_other)
  next
    case (Suc j)
    then have "s + 1 + of_nat j \<in> range_of (s + 1) n" using Suc.prems(3) by (auto simp: range_of_iff)
    then have "s + 1 + of_nat j \<noteq> d" using ds by metis
    moreover have "copy_loop (d + 1) (s + 1) n (m(d := m s)) (d + 1 + of_nat j) =
        (m(d := m s)) (s + 1 + of_nat j)"
      by (rule Suc.IH) (use Suc Suc.prems disj in auto)
    ultimately show ?thesis using Suc by (simp add: ac_simps)
  qed
qed simp

lemma strcpy_cstr:
  assumes "cstr m s xs" "length xs + 1 < 2 ^ 64"
    "range_of d (length xs + 1) \<inter> range_of s (length xs + 1) = {}"
  shows "\<exists>m'. strcpy d s m = Some m' \<and> cstr m' d xs \<and> cstr m' s xs \<and>
    (\<forall>a. a \<notin> range_of d (length xs + 1) \<longrightarrow> m' a = m a)"
proof -
  let ?n = "length xs + 1"
  have "unat (of_nat (length xs) + 1 :: 64 word) = ?n"
    using unat_of_nat_64[OF assms(2)] by (simp add: ac_simps)
  then have eq: "strcpy d s m = Some (copy_loop d s ?n m)"
    using strlen_cstr[OF assms(1)] by (simp add: strcpy_def memcpy_def)
  have "cstr (copy_loop d s ?n m) d xs = cstr m s xs"
    by (rule cstr_cong) (use copy_loop_disjoint[OF assms(2,3)] in auto)
  moreover have "cstr (copy_loop d s ?n m) s xs = cstr m s xs"
  proof (rule cstr_cong)
    fix i assume "i \<le> length xs"
    then have "i < ?n" by simp
    then have "s + of_nat i \<in> range_of s ?n" unfolding range_of_iff by blast
    with assms(3) have "s + of_nat i \<notin> range_of d ?n" by blast
    then show "copy_loop d s ?n m (s + of_nat i) = m (s + of_nat i)" by (rule copy_loop_other)
  qed
  ultimately show ?thesis using eq assms(1) copy_loop_other[of _ d ?n s m] by auto
qed

lemma fill_loop_at: "n < 2 ^ 64 \<Longrightarrow> fill_loop s c n m a = (if a \<in> range_of s n then c else m a)"
proof (induction n)
  case (Suc n)
  have "range_of s (Suc n) = insert (s + of_nat n) (range_of s n)"
    by (auto simp: range_of_def lessThan_Suc)
  with Suc show ?case by auto
qed (simp add: range_of_def)

section \<open>Byte order and alignment\<close>

lemma endian32_bit:
  assumes "n < 32"
  shows "bit (utils_change_endian_32 v) n \<longleftrightarrow> bit v (8 * (3 - n div 8) + n mod 8)"
proof -
  have "list_all (\<lambda>n. bit (utils_change_endian_32 v) n \<longleftrightarrow> bit v (8 * (3 - n div 8) + n mod 8)) [0..<32]"
    by (simp add: upt_rec utils_change_endian_32_def bit_simps, simp add: eval_nat_numeral)
  with assms show ?thesis by (simp add: list_all_iff)
qed

lemma endian32_invol: "utils_change_endian_32 (utils_change_endian_32 v) = v"
proof (rule bit_word_eqI)
  fix n assume n: "n < LENGTH(32)"
  let ?k = "8 * (3 - n div 8) + n mod 8"
  have k: "?k < 32" "?k div 8 = 3 - n div 8" "?k mod 8 = n mod 8" using n by auto
  have "8 * (3 - ?k div 8) + ?k mod 8 = n" using n unfolding k(2,3) by auto
  with n k(1) show "bit (utils_change_endian_32 (utils_change_endian_32 v)) n = bit v n"
    by (simp add: endian32_bit)
qed

lemma endian64_bit:
  assumes "n < 64"
  shows "bit (utils_change_endian_64 v) n \<longleftrightarrow> bit v (8 * (7 - n div 8) + n mod 8)"
proof -
  have "list_all (\<lambda>n. bit (utils_change_endian_64 v) n \<longleftrightarrow> bit v (8 * (7 - n div 8) + n mod 8)) [0..<64]"
    by (simp add: upt_rec utils_change_endian_64_def bit_simps, simp add: eval_nat_numeral)
  with assms show ?thesis by (simp add: list_all_iff)
qed

lemma endian64_invol: "utils_change_endian_64 (utils_change_endian_64 v) = v"
proof (rule bit_word_eqI)
  fix n assume n: "n < LENGTH(64)"
  let ?k = "8 * (7 - n div 8) + n mod 8"
  have k: "?k < 64" "?k div 8 = 7 - n div 8" "?k mod 8 = n mod 8" using n by auto
  have "8 * (7 - ?k div 8) + ?k mod 8 = n" using n unfolding k(2,3) by auto
  with n k(1) show "bit (utils_change_endian_64 (utils_change_endian_64 v)) n = bit v n"
    by (simp add: endian64_bit)
qed

text \<open>\<open>utils_align\<close> rounds up to a multiple of a power of two.\<close>

lemma utils_align_pow2:
  assumes k: "k < 64" and room: "unat sz + 2 ^ k \<le> 2 ^ 64"
  shows "unat (utils_align sz (2 ^ k)) = (unat sz + 2 ^ k - 1) div 2 ^ k * 2 ^ k"
proof -
  have m: "(2 ^ k :: 64 word) - 1 = mask k" by (simp add: mask_eq_exp_minus_1)
  have nz: "(2 ^ k :: 64 word) \<noteq> 0" using k by (simp add: exp_eq_zero_iff)
  have z: "(2 ^ k :: 64 word) AND mask k = 0"
    by (rule bit_word_eqI) (auto simp: bit_simps)
  have um: "unat (mask k :: 64 word) = 2 ^ k - 1"
  proof -
    have "(mask k :: 64 word) = of_nat (2 ^ k - 1)" by (simp add: mask_eq_exp_minus_1 of_nat_diff)
    moreover have "(2::nat) ^ k - 1 < 2 ^ 64" using k power_strict_increasing[of k 64 "2::nat"] by simp
    ultimately show ?thesis using unat_of_nat_64 by metis
  qed
  have s: "unat (sz + mask k) = unat sz + 2 ^ k - 1"
    using room by (simp add: unat_word_ariths um)
  have "utils_align sz (2 ^ k) = (sz + mask k) AND NOT (mask k)"
    using nz z by (simp add: utils_align_def m Let_def)
  also have "\<dots> = push_bit k (drop_bit k (sz + mask k))"
    by (rule bit_word_eqI) (auto simp: bit_simps)
  finally have e: "utils_align sz (2 ^ k) = push_bit k (drop_bit k (sz + mask k))" .
  have "unat (push_bit k (drop_bit k w)) = unat w div 2 ^ k * 2 ^ k" for w :: "64 word"
  proof -
    have "unat w div 2 ^ k * 2 ^ k < 2 ^ 64"
      by (rule le_less_trans[OF div_times_less_eq_dividend]) (use unsigned_less[of w, where ?'a = nat] in simp)
    have L: "LENGTH(64) = 64" by simp
    from \<open>unat w div 2 ^ k * 2 ^ k < 2 ^ 64\<close>
    have "take_bit 64 (push_bit k (drop_bit k (unat w))) = unat w div 2 ^ k * 2 ^ k"
      by (simp add: push_bit_eq_mult drop_bit_eq_div take_bit_nat_eq_self)
    moreover have "unat (drop_bit k w) = drop_bit k (unat w)"
      by (rule unat_drop_bit_eq)
    ultimately show ?thesis using unsigned_push_bit_eq[of k "drop_bit k w", where ?'a = nat] L by (simp only:)
  qed
  then show ?thesis by (simp add: e s)
qed

section \<open>Decimal numbers\<close>

definition digit :: "8 word \<Rightarrow> bool" where
  "digit c \<longleftrightarrow> 0x30 \<le> c \<and> c \<le> 0x39"

definition dec_step :: "int \<Rightarrow> 8 word \<Rightarrow> int" where
  "dec_step v c = 10 * v + (uint c - 0x30)"

definition dec_val :: "8 word list \<Rightarrow> int" where
  "dec_val = foldl dec_step 0"

lemma digit_range: "digit c \<Longrightarrow> 0x30 \<le> uint c \<and> uint c \<le> 0x39"
  by (simp add: digit_def word_le_def)

lemma dec_step_mono: "digit c \<Longrightarrow> 0 \<le> v \<Longrightarrow> v \<le> dec_step v c"
  using digit_range[of c] by (simp add: dec_step_def)

lemma foldl_dec_mono: "list_all digit xs \<Longrightarrow> 0 \<le> v \<Longrightarrow> v \<le> foldl dec_step v xs"
proof (induction xs arbitrary: v)
  case (Cons c xs)
  then have "v \<le> dec_step v c" by (simp add: dec_step_mono)
  moreover from this Cons have "dec_step v c \<le> foldl dec_step (dec_step v c) xs" by simp
  ultimately show ?case by simp
qed simp

lemma atoi_loop_cstr:
  assumes "cstr m p xs" "list_all digit xs" "0 \<le> v" "foldl dec_step v xs + 0x30 \<le> 2 ^ 31 - 1"
  shows "atoi_loop m p v = Some (foldl dec_step v xs)"
  using assms
proof (induction xs arbitrary: p v)
  case Nil
  then show ?case by (simp add: atoi_loop.simps)
next
  case (Cons c xs)
  have c: "digit c" "0 \<le> dec_step v c" using Cons.prems dec_step_mono[of c v] by auto
  have le: "dec_step v c \<le> foldl dec_step v (c # xs)"
    using foldl_dec_mono[of xs "dec_step v c"] Cons.prems c by simp
  have "v * 10 + uint c = dec_step v c + 0x30" by (simp add: dec_step_def)
  then have no: "\<not> v * 10 + uint c > 2 ^ 31 - 1" using le Cons.prems(4) by simp
  have "\<not> (c > 0x39 \<or> c < 0x30)" using c(1) by (simp add: digit_def not_less)
  then have "atoi_loop m p v = atoi_loop m (p + 1) (v * 10 + uint c - 0x30)"
    using Cons.prems(1) no by (subst atoi_loop.simps) simp
  also have "v * 10 + uint c - 0x30 = dec_step v c" by (simp add: dec_step_def)
  finally show ?case using Cons.IH[of "p + 1" "dec_step v c"] Cons.prems c by simp
qed

lemma atoi_cstr:
  assumes "cstr m p xs" "list_all digit xs" "dec_val xs + 0x30 \<le> 2 ^ 31 - 1"
  shows "atoi m p = Some (dec_val xs)"
  using atoi_loop_cstr[OF assms(1,2), of 0] assms(3) by (simp add: atoi_def dec_val_def)

text \<open>The digits come out least significant first.\<close>

primrec lsb_val :: "8 word list \<Rightarrow> nat" where
  "lsb_val [] = 0"
| "lsb_val (c # cs) = (unat c - 0x30) + 10 * lsb_val cs"

lemma digit_of_nat:
  assumes "d < 10"
  shows "digit (of_nat d + 0x30)" "unat (of_nat d + 0x30 :: 8 word) = d + 0x30"
proof -
  have "unat (of_nat d :: 8 word) = d" using assms by (simp add: unsigned_of_nat take_bit_nat_eq_self)
  then show u: "unat (of_nat d + 0x30 :: 8 word) = d + 0x30" using assms by (simp add: unat_word_ariths)
  show "digit (of_nat d + 0x30)" using u assms by (simp add: digit_def word_le_nat_alt)
qed

lemma digits_loop_spec:
  "\<exists>ds. digits_loop v str = str @ ds \<and> list_all digit ds \<and> lsb_val ds = v \<and> (ds = [] \<longleftrightarrow> v = 0)"
proof (induction v str rule: digits_loop.induct)
  case (1 v str)
  show ?case
  proof (cases "v = 0")
    case True
    then show ?thesis by (simp add: digits_loop.simps)
  next
    case False
    let ?c = "of_nat (v mod 10) + 0x30 :: 8 word"
    from "1.IH"[OF False] obtain ds where ds: "digits_loop (v div 10) (str @ [?c]) = (str @ [?c]) @ ds"
      "list_all digit ds" "lsb_val ds = v div 10" by blast
    have "lsb_val (?c # ds) = v mod 10 + 10 * (v div 10)"
      using digit_of_nat(2)[of "v mod 10"] ds(3) by simp
    then show ?thesis using False ds digit_of_nat(1)[of "v mod 10"]
      by (subst digits_loop.simps) (auto intro!: exI[of _ "?c # ds"])
  qed
qed

lemma dec_val_rev: "list_all digit ds \<Longrightarrow> dec_val (rev ds) = int (lsb_val ds)"
proof (induction ds)
  case (Cons c ds)
  have "0x30 \<le> unat c" using digit_range[of c] Cons.prems by (simp add: digit_def word_le_nat_alt)
  with Cons show ?case by (simp add: dec_val_def dec_step_def)
qed (simp add: dec_val_def)

lemma reverse_loop_nth:
  assumes "2 * i \<le> length str" "k < length str"
  shows "length (reverse_loop i str) = length str \<and> reverse_loop i str ! k =
    (if k < i \<or> length str - i \<le> k then str ! (length str - 1 - k) else str ! k)"
  using assms
proof (induction i arbitrary: k)
  case (Suc i)
  have l: "length (reverse_loop i str) = length str" using Suc.IH[of k] Suc.prems by simp
  have i: "reverse_loop i str ! i = str ! i" using Suc.IH[of i] Suc.prems by auto
  have j: "reverse_loop i str ! (length str - i - 1) = str ! (length str - i - 1)"
    using Suc.IH[of "length str - i - 1"] Suc.prems by auto
  show ?case
    using Suc.IH[of k] Suc.prems i j l by (auto simp: Let_def nth_list_update)
qed simp

lemma reverse_loop_rev: "reverse_loop (length str div 2) str = rev str"
proof (rule nth_equalityI)
  show l: "length (reverse_loop (length str div 2) str) = length (rev str)"
    using reverse_loop_nth[of "length str div 2" str 0] by (cases str) auto
  fix k assume "k < length (reverse_loop (length str div 2) str)"
  with l have k: "k < length str" by simp
  have "str ! k = str ! (length str - 1 - k)"
    if "\<not> (k < length str div 2 \<or> length str - length str div 2 \<le> k)"
  proof -
    from that k have "length str - 1 - k = k" by linarith
    then show ?thesis by simp
  qed
  with reverse_loop_nth[of "length str div 2" str k] k
  show "reverse_loop (length str div 2) str ! k = rev str ! k" by (simp add: rev_nth)
qed

lemma utils_int_to_str_spec:
  assumes "sint v \<noteq> - (2 ^ 31)"
  shows "\<exists>ds. utils_int_to_str v = Some ((if sint v < 0 then [0x2D] else []) @ ds) \<and>
    list_all digit ds \<and> ds \<noteq> [] \<and> dec_val ds = \<bar>sint v\<bar>"
proof (cases "v = 0")
  case True
  then show ?thesis by (simp add: utils_int_to_str_def digit_def dec_val_def dec_step_def)
next
  case False
  then have nz: "sint v \<noteq> 0" using signed_word_eqI[of v 0] by auto
  obtain ds where ds: "digits_loop (nat \<bar>sint v\<bar>) [] = ds" "list_all digit ds" "lsb_val ds = nat \<bar>sint v\<bar>"
    "ds \<noteq> []"
    using digits_loop_spec[of "nat \<bar>sint v\<bar>" "[]"] nz by auto
  have "utils_int_to_str v = Some ((if sint v < 0 then [0x2D] else []) @ rev ds)"
    using False assms ds(1) reverse_loop_rev[of "if sint v < 0 then ds @ [0x2D] else ds"]
    by (auto simp: utils_int_to_str_def Let_def split: if_splits)
  moreover have "dec_val (rev ds) = \<bar>sint v\<bar>" using dec_val_rev[OF ds(2)] ds(3) by simp
  ultimately show ?thesis using ds(2,4) by (intro exI[of _ "rev ds"]) simp
qed

end
