(* ===== verification/Printf.thy ===== *)
theory Printf
  imports Cstring_Inv
begin

text \<open>
  \<open>vsprintf\<close> of \<open>kernel/src/string.c\<close>.  A format is the list of its bytes before the terminator,
  the variable arguments are a list of typed values, and the result is the list of bytes written
  before the terminator.  The three ways the code leaves the buffer undefined are errors: the
  \<open>return -1\<close> that skips the terminator, a conversion cut off by the end of the format (the code
  steps over the terminator and reads on) and a missing or ill-typed argument.
\<close>

definition VSPRINT_MAX_BUF_SIZE :: nat where "VSPRINT_MAX_BUF_SIZE = 0x100"

datatype arg = Arg_int "32 word" | Arg_long "64 word" | Arg_str "8 word list option"

datatype printf_error = Buffer_full | Past_end | Bad_argument

text \<open>The size modifier: its value and the rest of the format.\<close>

fun size_modifier :: "8 word list \<Rightarrow> nat \<Rightarrow> nat \<times> 8 word list" where
  "size_modifier [] n = (n, [])"
| "size_modifier (c # cs) n =
     (if 0x30 \<le> c \<and> c \<le> 0x39 then size_modifier cs (n * 10 + unat (c - 0x30)) else (n, c # cs))"

text \<open>The digit loop of \<open>%d\<close>: at least one digit, from the least significant on, put in front.\<close>

function dec_loop :: "nat \<Rightarrow> 8 word list \<Rightarrow> 8 word list" where
  "dec_loop v acc =
     (let acc' = (of_nat (v mod 10) + 0x30) # acc in if v div 10 \<noteq> 0 then dec_loop (v div 10) acc' else acc')"
  by pat_completeness auto
termination
  by (relation "measure fst") auto

declare dec_loop.simps [simp del]

definition format_dec :: "nat \<Rightarrow> 32 word \<Rightarrow> 8 word list" where
  "format_dec len v =
     (let ds = dec_loop (nat \<bar>sint v\<bar>) [];
          ds1 = (if sint v < 0 then 0x2D # ds else ds)
      in if 0 < len \<and> len < 18 then replicate (len - length ds1) 0x20 @ ds1 else ds1)"

definition hex_digit :: "nat \<Rightarrow> 8 word" where
  "hex_digit n = of_nat n + (if n > 9 then 0x37 else 0x30)"

text \<open>The digit loop of \<open>%x\<close>: \<open>arg >>= 4\<close> shifts a signed long, so a negative value never becomes
  zero and the loop ends after 16 digits.\<close>

fun hex_loop :: "nat \<Rightarrow> int \<Rightarrow> 8 word list \<Rightarrow> 8 word list" where
  "hex_loop 0 v acc = acc"
| "hex_loop (Suc i) v acc =
     (let acc' = hex_digit (nat (v mod 16)) # acc
      in if v div 16 \<noteq> 0 \<and> i > 0 then hex_loop i (v div 16) acc' else acc')"

definition format_hex :: "nat \<Rightarrow> 64 word \<Rightarrow> 8 word list" where
  "format_hex len v =
     (let ds = hex_loop 16 (sint v) []
      in if 0 < len \<and> len \<le> 16 then replicate (len - length ds) 0x30 @ ds else ds)"

definition null_text :: "8 word list" where
  "null_text = [0x28, 0x6E, 0x75, 0x6C, 0x6C, 0x29]"   \<comment> \<open>\<open>(null)\<close>\<close>

lemma size_modifier_length: "length (snd (size_modifier cs n)) \<le> length cs"
  by (induction cs n rule: size_modifier.induct) auto

definition skip_l :: "8 word list \<Rightarrow> 8 word list" where
  "skip_l f = (case f of [] \<Rightarrow> [] | c # cs \<Rightarrow> if c = 0x6C then cs else f)"

lemma skip_l_length: "length (skip_l f) \<le> length f"
  by (cases f) (auto simp: skip_l_def)

lemma conversion_rest:
  assumes "(len, f1) = size_modifier fmt 0" "k # f3 = skip_l f1"
  shows "length f3 < length fmt"
proof -
  have "length f1 \<le> length fmt" using size_modifier_length[of fmt 0] assms(1) by (metis snd_conv)
  moreover have "Suc (length f3) = length (skip_l f1)" using assms(2) by (metis length_Cons)
  ultimately show ?thesis using skip_l_length[of f1] by linarith
qed

text \<open>One conversion: the text it writes and the arguments left.\<close>

definition conversion :: "8 word \<Rightarrow> nat \<Rightarrow> arg list \<Rightarrow> printf_error + (8 word list \<times> arg list)" where
  "conversion k len args =
     (if k = 0x63 then (case args of Arg_int v # as \<Rightarrow> Inr ([ucast v], as) | _ \<Rightarrow> Inl Bad_argument)
      else if k = 0x64 then
        (case args of Arg_int v # as \<Rightarrow> Inr (format_dec len v, as) | _ \<Rightarrow> Inl Bad_argument)
      else if k = 0x78 then
        (case args of Arg_long v # as \<Rightarrow> Inr (format_hex len v, as) | _ \<Rightarrow> Inl Bad_argument)
      else if k = 0x73 then
        (case args of Arg_str s # as \<Rightarrow> Inr (case s of None \<Rightarrow> null_text | Some t \<Rightarrow> t, as)
         | _ \<Rightarrow> Inl Bad_argument)
      else Inr ([], args))"

function vsprintf_loop :: "8 word list \<Rightarrow> arg list \<Rightarrow> 8 word list \<Rightarrow> printf_error + 8 word list" where
  "vsprintf_loop [] args out = Inr out"
| "vsprintf_loop (c # fmt) args out =
     (if length out > VSPRINT_MAX_BUF_SIZE - 0x10 then Inl Buffer_full
      else if c \<noteq> 0x25 then vsprintf_loop fmt args (out @ [c])
      else if fmt \<noteq> [] \<and> hd fmt = 0x25 then vsprintf_loop (tl fmt) args (out @ [0x25])
      else
        (let (len, f1) = size_modifier fmt 0 in
         case skip_l f1 of [] \<Rightarrow> Inl Past_end
         | k # f3 \<Rightarrow>
           (case conversion k len args of Inl e \<Rightarrow> Inl e
            | Inr (text, rest) \<Rightarrow> vsprintf_loop f3 rest (out @ text))))"
  by pat_completeness auto
termination
proof (relation "measure (\<lambda>(fmt, args, out). length fmt)", goal_cases)
  case (3 c fmt args out)
  then show ?case by (cases fmt) auto
qed (auto dest!: conversion_rest)

declare vsprintf_loop.simps(2) [simp del]

definition vsprintf :: "8 word list \<Rightarrow> arg list \<Rightarrow> printf_error + 8 word list" where
  "vsprintf fmt args = vsprintf_loop fmt args []"

section \<open>Bounds and plain formats\<close>

lemma dec_loop_length: "v < 10 ^ Suc k \<Longrightarrow> length (dec_loop v acc) \<le> length acc + Suc k"
proof (induction k arbitrary: v acc)
  case 0
  then show ?case by (subst dec_loop.simps) (simp add: Let_def)
next
  case (Suc k)
  have "v div 10 < 10 ^ Suc k" using Suc.prems by (simp add: less_mult_imp_div_less mult.commute)
  from Suc.IH[OF this, of "(of_nat (v mod 10) + 0x30) # acc"] show ?case
    by (subst dec_loop.simps) (simp add: Let_def)
qed

lemma format_dec_length: "length (format_dec len v) \<le> 17"
proof -
  have "- (2 ^ 31) \<le> sint v" "sint v < 2 ^ 31"
    using sint_greater_eq[of v] sint_lt[of v] by simp_all
  then have "nat \<bar>sint v\<bar> < 10 ^ Suc 9" by simp
  from dec_loop_length[OF this, of "[]"] show ?thesis by (auto simp: format_dec_def Let_def)
qed

lemma hex_loop_length: "length (hex_loop i v acc) \<le> length acc + i"
proof (induction i v acc rule: hex_loop.induct)
  case (2 i v acc)
  from 2[OF refl] show ?case by (auto simp: Let_def)
qed simp

lemma format_hex_length: "length (format_hex len v) \<le> 16"
  using hex_loop_length[of 16 "sint v" "[]"] by (auto simp: format_hex_def Let_def)

lemma conversion_bounds:
  assumes "conversion k len args = Inr (text, rest)" "\<And>s. Arg_str s \<notin> set args"
  shows "length text \<le> 17 \<and> (\<forall>s. Arg_str s \<notin> set rest)"
  using assms format_dec_length[of len] format_hex_length[of len]
  by (auto simp: conversion_def le_SucI numeral_eq_Suc split: if_splits list.splits arg.splits)

text \<open>Without string arguments the output never grows beyond 257 bytes.\<close>

lemma vsprintf_loop_length:
  assumes "vsprintf_loop fmt args out = Inr r" "\<And>s. Arg_str s \<notin> set args" "length out \<le> 257"
  shows "length r \<le> 257"
  using assms
proof (induction fmt arbitrary: args out rule: length_induct)
  case (1 fmt)
  have IH: "length r \<le> 257" if "length fmt' < length fmt" "vsprintf_loop fmt' args' out' = Inr r"
    "\<And>s. Arg_str s \<notin> set args'" "length out' \<le> 257" for fmt' args' out'
    using "1.IH" that by blast
  show ?case
  proof (cases fmt)
    case Nil
    with "1.prems" show ?thesis by simp
  next
    case (Cons c f)
    note eq = "1.prems"(1)[unfolded Cons vsprintf_loop.simps(2) VSPRINT_MAX_BUF_SIZE_def]
    have lo: "length out \<le> 240" using eq by (simp split: if_splits)
    consider (copy) "c \<noteq> 0x25" | (percent) "c = 0x25" "f \<noteq> []" "hd f = 0x25"
      | (conv) "c = 0x25" "\<not> (f \<noteq> [] \<and> hd f = 0x25)" by blast
    then show ?thesis
    proof cases
      case copy
      with eq lo show ?thesis by (intro IH[of f args "out @ [c]"]) (use Cons "1.prems"(2) in auto)
    next
      case percent
      with eq lo show ?thesis
        by (intro IH[of "tl f" args "out @ [0x25]"]) (use Cons "1.prems"(2) in \<open>auto simp: less_Suc_eq_le\<close>)
    next
      case conv
      obtain len f1 where f1: "size_modifier f 0 = (len, f1)" by fastforce
      from eq conv lo f1 obtain k f3 w rest where k: "skip_l f1 = k # f3"
        "conversion k len args = Inr (w, rest)" "vsprintf_loop f3 rest (out @ w) = Inr r"
        by (auto split: list.splits sum.splits)
      note cb = conversion_bounds[OF k(2) "1.prems"(2)]
      from conversion_rest[OF f1[symmetric] k(1)[symmetric]] k(3) cb lo show ?thesis
        by (intro IH[of f3 rest "out @ w"]) (use Cons in auto)
    qed
  qed
qed

lemma vsprintf_plain_loop:
  "0x25 \<notin> set fmt \<Longrightarrow> length out + length fmt \<le> 241 \<Longrightarrow> vsprintf_loop fmt args out = Inr (out @ fmt)"
  by (induction fmt arbitrary: out) (auto simp: vsprintf_loop.simps(2) VSPRINT_MAX_BUF_SIZE_def)

end
