(* ===== verification/Uart.thy ===== *)
theory Uart
  imports Printf
begin

text \<open>
  The mini UART driver \<open>kernel/src/uart1.c\<close>: two ring buffers between the kernel and the interrupt
  handlers, the polled send and receive, and the printing routines.  The device is the list of
  bytes it has still to deliver, the list of bytes written to its data register and its
  interrupt enable register; the GPIO and baud rate set-up of \<open>uart_init\<close> is left out.  A wait
  for the device or for the other side of a ring is a step that has to be tried again.
\<close>

section \<open>Ring buffers\<close>

record ring =
  rbuf :: "nat \<Rightarrow> 8 word"
  widx :: nat
  ridx :: nat

definition ring_empty :: "ring \<Rightarrow> bool" where
  "ring_empty q \<longleftrightarrow> ridx q = widx q"

definition ring_full :: "ring \<Rightarrow> bool" where
  "ring_full q \<longleftrightarrow> (widx q + 1) mod VSPRINT_MAX_BUF_SIZE = ridx q"

definition ring_put :: "8 word \<Rightarrow> ring \<Rightarrow> ring" where
  "ring_put c q =
     (let q1 = q\<lparr>rbuf := (rbuf q)(widx q := c), widx := widx q + 1\<rparr>
      in if widx q1 \<ge> VSPRINT_MAX_BUF_SIZE then q1\<lparr>widx := 0\<rparr> else q1)"

definition ring_get :: "ring \<Rightarrow> ring \<times> 8 word" where
  "ring_get q =
     (let r = rbuf q (ridx q); q1 = q\<lparr>ridx := ridx q + 1\<rparr>
      in (if ridx q1 \<ge> VSPRINT_MAX_BUF_SIZE then q1\<lparr>ridx := 0\<rparr> else q1, r))"

section \<open>The driver\<close>

record uart =
  tx :: ring
  rx :: ring
  ier :: "32 word"              \<comment> \<open>\<open>AUX_MU_IER_REG\<close>: bit 0 receive, bit 1 transmit\<close>
  irqs1 :: "32 word"            \<comment> \<open>\<open>ENABLE_IRQS_1\<close>\<close>
  wire_in :: "8 word list"      \<comment> \<open>bytes the device will still deliver\<close>
  wire_out :: "8 word list"     \<comment> \<open>bytes written to \<open>AUX_MU_IO_REG\<close>\<close>
  uart_recv_echo_flag :: bool

definition rx_irq_on :: "uart \<Rightarrow> uart" where "rx_irq_on s = s\<lparr>ier := ier s OR 1\<rparr>"
definition rx_irq_off :: "uart \<Rightarrow> uart" where "rx_irq_off s = s\<lparr>ier := ier s AND NOT 1\<rparr>"
definition tx_irq_on :: "uart \<Rightarrow> uart" where "tx_irq_on s = s\<lparr>ier := ier s OR 2\<rparr>"
definition tx_irq_off :: "uart \<Rightarrow> uart" where "tx_irq_off s = s\<lparr>ier := ier s AND NOT 2\<rparr>"

definition uart_send :: "8 word \<Rightarrow> uart \<Rightarrow> uart" where
  "uart_send c s = s\<lparr>wire_out := wire_out s @ [c]\<rparr>"

text \<open>\<open>None\<close>: no byte has arrived, the polling loop goes on.\<close>

definition uart_recv :: "uart \<Rightarrow> (uart \<times> 8 word) option" where
  "uart_recv s =
     (case wire_in s of [] \<Rightarrow> None
      | r # rest \<Rightarrow>
        (let s1 = s\<lparr>wire_in := rest\<rparr>;
             s2 = (if uart_recv_echo_flag s1 then
                     (let e = uart_send r s1
                      in if r = 0x0D then uart_send 0x0A (uart_send 0x0D e) else e)
                   else s1)
         in Some (s2, if r = 0x0D then 0x0A else r)))"

text \<open>The asynchronous calls: \<open>Inl\<close> is the state after one more round of the waiting loop.\<close>

definition uart_async_getc :: "uart \<Rightarrow> uart + uart \<times> 8 word" where
  "uart_async_getc s =
     (let s1 = rx_irq_on s in
      if ring_empty (rx s1) then Inl (rx_irq_on s1)
      else (case ring_get (rx s1) of (q, r) \<Rightarrow> Inr (s1\<lparr>rx := q\<rparr>, r)))"

definition uart_async_putc :: "8 word \<Rightarrow> uart \<Rightarrow> uart + uart" where
  "uart_async_putc c s =
     (if ring_full (tx s) then Inl (tx_irq_on s) else Inr (tx_irq_on (s\<lparr>tx := ring_put c (tx s)\<rparr>)))"

definition uart_r_irq_handler :: "uart \<Rightarrow> uart option" where
  "uart_r_irq_handler s =
     (if ring_full (rx s) then Some (rx_irq_off s)
      else case uart_recv s of None \<Rightarrow> None
        | Some (s1, r) \<Rightarrow> Some (rx_irq_on (s1\<lparr>rx := ring_put r (rx s1)\<rparr>)))"

definition uart_w_irq_handler :: "uart \<Rightarrow> uart" where
  "uart_w_irq_handler s =
     (if ring_empty (tx s) then tx_irq_off s
      else case ring_get (tx s) of (q, c) \<Rightarrow> tx_irq_on (uart_send c (s\<lparr>tx := q\<rparr>)))"

definition uart_interrupt_enable :: "uart \<Rightarrow> uart" where
  "uart_interrupt_enable s = (tx_irq_on (rx_irq_on s))\<lparr>irqs1 := irqs1 s OR push_bit 29 1\<rparr>"

definition uart_interrupt_disable :: "uart \<Rightarrow> uart" where
  "uart_interrupt_disable s = tx_irq_off (rx_irq_off s)"

section \<open>Printing\<close>

text \<open>The bytes sent for a text: a carriage return before every line feed.\<close>

definition crlf :: "8 word list \<Rightarrow> 8 word list" where
  "crlf str = concat (map (\<lambda>c. if c = 0x0A then [0x0D, c] else [c]) str)"

text \<open>The loops over the buffer stop at the first terminator, which \<open>%c\<close> can put there.\<close>

definition uart_sendline :: "8 word list \<Rightarrow> arg list \<Rightarrow> uart \<Rightarrow> printf_error + uart" where
  "uart_sendline fmt args s =
     (case vsprintf fmt args of Inl e \<Rightarrow> Inl e | Inr str \<Rightarrow> Inr (fold uart_send (crlf (takeWhile (\<lambda>c. c \<noteq> 0) str)) s))"

text \<open>\<open>uart_puts\<close> queues the bytes one by one and stops where it would have to wait.\<close>

fun put_all :: "8 word list \<Rightarrow> uart \<Rightarrow> uart + uart" where
  "put_all [] s = Inr s"
| "put_all (c # cs) s = (case uart_async_putc c s of Inl s1 \<Rightarrow> Inl s1 | Inr s1 \<Rightarrow> put_all cs s1)"

definition uart_puts :: "8 word list \<Rightarrow> arg list \<Rightarrow> uart \<Rightarrow> printf_error + (uart + uart)" where
  "uart_puts fmt args s =
     (case vsprintf fmt args of Inl e \<Rightarrow> Inl e | Inr str \<Rightarrow> Inr (put_all (crlf (takeWhile (\<lambda>c. c \<noteq> 0) str)) s))"

definition uart_2hex :: "32 word \<Rightarrow> uart \<Rightarrow> uart" where
  "uart_2hex d s =
     fold (\<lambda>c. uart_send (hex_digit (unat (drop_bit c d AND 0xF)))) [28, 24, 20, 16, 12, 8, 4, 0] s"

definition hex_text :: "64 word \<Rightarrow> 8 word list" where
  "hex_text value = 0x30 # 0x78 #
     map (\<lambda>i. hex_digit (unat (drop_bit ((15 - i) * 4) value AND 0xF))) [0..<16]"

definition uart_binary_to_hex_long :: "64 word \<Rightarrow> uart \<Rightarrow> printf_error + uart" where
  "uart_binary_to_hex_long value s = uart_sendline (hex_text value) [] s"

end
