(* ===== verification/Fifo.thy ===== *)
theory Fifo
  imports Prelude
begin

text \<open>
  The interface of a bounded first-in first-out buffer that a producer and a consumer share: the
  UART's transmit and receive rings.  The provider promises what each operation does to the list
  of items; the client gets that over any interleaving of operations the items come out in the
  order they went in.
\<close>

datatype 'a fifo_op = Put 'a | Get

locale bounded_fifo =
  fixes ok :: "'q \<Rightarrow> bool" and items :: "'q \<Rightarrow> 'a list"
    and put :: "'a \<Rightarrow> 'q \<Rightarrow> 'q" and get :: "'q \<Rightarrow> 'q \<times> 'a"
    and full :: "'q \<Rightarrow> bool" and empty :: "'q \<Rightarrow> bool" and capacity :: nat
  assumes full_iff: "ok q \<Longrightarrow> full q \<longleftrightarrow> length (items q) = capacity"
    and empty_iff: "ok q \<Longrightarrow> empty q \<longleftrightarrow> items q = []"
    and put_ok: "ok q \<Longrightarrow> \<not> full q \<Longrightarrow> ok (put c q)"
    and put_items: "ok q \<Longrightarrow> \<not> full q \<Longrightarrow> items (put c q) = items q @ [c]"
    and get_ok: "ok q \<Longrightarrow> \<not> empty q \<Longrightarrow> ok (fst (get q))"
    and get_items: "ok q \<Longrightarrow> \<not> empty q \<Longrightarrow> items q = snd (get q) # items (fst (get q))"
    and bounded: "ok q \<Longrightarrow> length (items q) \<le> capacity"
begin

text \<open>Running operations, those that would block being skipped: the final buffer, what was
  accepted and what came out.\<close>

fun run :: "'a fifo_op list \<Rightarrow> 'q \<Rightarrow> 'q \<times> 'a list \<times> 'a list" where
  "run [] q = (q, [], [])"
| "run (Put c # ops) q =
     (if full q then run ops q
      else case run ops (put c q) of (q', ins, outs) \<Rightarrow> (q', c # ins, outs))"
| "run (Get # ops) q =
     (if empty q then run ops q
      else case run ops (fst (get q)) of (q', ins, outs) \<Rightarrow> (q', ins, snd (get q) # outs))"

lemma run_fifo:
  assumes "ok q" "run ops q = (q', ins, outs)"
  shows "ok q' \<and> items q @ ins = outs @ items q'"
  using assms
proof (induction ops q arbitrary: q' ins outs rule: run.induct)
  case (2 c ops q)
  show ?case
  proof (cases "full q")
    case False
    obtain i where "run ops (put c q) = (q', i, outs)" "ins = c # i"
      using "2.prems" False by (auto split: prod.splits)
    with "2.IH"(2)[OF False _ this(1)] put_ok put_items "2.prems"(1) False show ?thesis by simp
  qed (use 2 in simp)
next
  case (3 ops q)
  show ?case
  proof (cases "empty q")
    case False
    obtain out where "run ops (fst (get q)) = (q', ins, out)" "outs = snd (get q) # out"
      using "3.prems" False by (auto split: prod.splits)
    with "3.IH"(2)[OF False _ this(1)] get_ok get_items[of q] "3.prems"(1) False show ?thesis by simp
  qed (use 3 in simp)
qed simp

lemma put_length: "ok q \<Longrightarrow> \<not> full q \<Longrightarrow> length (items (put c q)) = Suc (length (items q))"
  by (simp add: put_items)

end

end
