(* ===== verification/Uart_Inv.thy ===== *)
theory Uart_Inv
  imports Uart Fifo
begin

text \<open>
  Both UART rings implement the bounded buffer of theory \<open>Fifo\<close> with 255 places, and over any
  interleaving of the kernel's calls with the interrupt handlers no byte is lost, duplicated or
  reordered in either direction.
\<close>

section \<open>The rings are bounded buffers\<close>

definition ring_ok :: "ring \<Rightarrow> bool" where
  "ring_ok q \<longleftrightarrow> widx q < 256 \<and> ridx q < 256"

definition ring_count :: "ring \<Rightarrow> nat" where
  "ring_count q = (widx q + 256 - ridx q) mod 256"

definition ring_items :: "ring \<Rightarrow> 8 word list" where
  "ring_items q = map (\<lambda>k. rbuf q ((ridx q + k) mod 256)) [0..<ring_count q]"

lemma wrap_Suc: "i < 256 \<Longrightarrow> (if i + 1 \<ge> 256 then 0 else i + 1) = (i + 1) mod (256::nat)"
  by (cases "i = 255") auto

lemma ring_put_sel:
  assumes "ring_ok q"
  shows "widx (ring_put c q) = (widx q + 1) mod 256" "ridx (ring_put c q) = ridx q"
    "rbuf (ring_put c q) = (rbuf q)(widx q := c)"
  using assms wrap_Suc[of "widx q"] by (auto simp: ring_put_def ring_ok_def VSPRINT_MAX_BUF_SIZE_def Let_def)

lemma ring_get_sel:
  assumes "ring_ok q"
  shows "ridx (fst (ring_get q)) = (ridx q + 1) mod 256" "widx (fst (ring_get q)) = widx q"
    "rbuf (fst (ring_get q)) = rbuf q" "snd (ring_get q) = rbuf q (ridx q)"
  using assms wrap_Suc[of "ridx q"] by (auto simp: ring_get_def ring_ok_def VSPRINT_MAX_BUF_SIZE_def Let_def)

lemma count_if: "w < 256 \<Longrightarrow> r < 256 \<Longrightarrow>
    (w + 256 - r) mod 256 = (if r \<le> w then w - r else w + 256 - (r::nat))"
proof (cases "r \<le> w")
  case True
  assume "w < 256"
  moreover from True have "w + 256 - r = (w - r) + 256" by simp
  ultimately show ?thesis using True by (simp only: mod_add_self2) simp
qed simp

lemma add_if: "r < 256 \<Longrightarrow> k \<le> 256 \<Longrightarrow> (r + k) mod 256 = (if r + k < 256 then r + k else r + k - (256::nat))"
  by (simp add: le_mod_geq)

lemma ring_arith:
  fixes w r k :: nat
  assumes "w < 256" "r < 256"
  shows "k < (w + 256 - r) mod 256 \<Longrightarrow> (r + k) mod 256 \<noteq> w"
    and "(w + 1) mod 256 \<noteq> r \<Longrightarrow> ((w + 1) mod 256 + 256 - r) mod 256 = Suc ((w + 256 - r) mod 256)"
    and "(r + (w + 256 - r) mod 256) mod 256 = w"
    and "r \<noteq> w \<Longrightarrow> (w + 256 - r) mod 256 = Suc ((w + 256 - (r + 1) mod 256) mod 256)"
    and "(w + 1) mod 256 = r \<longleftrightarrow> (w + 256 - r) mod 256 = 255"
    and "r = w \<longleftrightarrow> (w + 256 - r) mod 256 = 0"
proof -
  have w1: "(w + 1) mod 256 = (if w = 255 then 0 else w + 1)" and r1: "(r + 1) mod 256 = (if r = 255 then 0 else r + 1)"
    using assms by auto
  have l: "(w + 1) mod 256 < 256" "(r + 1) mod 256 < 256" by simp_all
  show "k < (w + 256 - r) mod 256 \<Longrightarrow> (r + k) mod 256 \<noteq> w"
    using assms add_if[of r k] by (auto simp: count_if split: if_splits)
  show "(w + 1) mod 256 \<noteq> r \<Longrightarrow> ((w + 1) mod 256 + 256 - r) mod 256 = Suc ((w + 256 - r) mod 256)"
    unfolding count_if[OF l(1) assms(2)] count_if[OF assms] unfolding w1 using assms by (auto split: if_splits)
  show "(r + (w + 256 - r) mod 256) mod 256 = w"
    unfolding count_if[OF assms] using assms by (auto simp: le_mod_geq)
  show "r \<noteq> w \<Longrightarrow> (w + 256 - r) mod 256 = Suc ((w + 256 - (r + 1) mod 256) mod 256)"
    unfolding count_if[OF assms] count_if[OF assms(1) l(2)] unfolding r1 using assms by (auto split: if_splits)
  show "(w + 1) mod 256 = r \<longleftrightarrow> (w + 256 - r) mod 256 = 255"
    unfolding count_if[OF assms] w1 using assms by (auto split: if_splits)
  show "r = w \<longleftrightarrow> (w + 256 - r) mod 256 = 0"
    unfolding count_if[OF assms] using assms by (auto split: if_splits)
qed

lemma ring_put_items:
  assumes ok: "ring_ok q" and nf: "\<not> ring_full q"
  shows "ring_items (ring_put c q) = ring_items q @ [c]"
proof -
  have w: "widx q < 256" "ridx q < 256" using ok by (auto simp: ring_ok_def)
  have n: "(widx q + 1) mod 256 \<noteq> ridx q" using nf by (simp add: ring_full_def VSPRINT_MAX_BUF_SIZE_def)
  have cnt: "ring_count (ring_put c q) = Suc (ring_count q)"
    using ring_arith(2)[OF w n] by (simp add: ring_count_def ring_put_sel[OF ok])
  have last: "(ridx q + ring_count q) mod 256 = widx q"
    using ring_arith(3)[OF w] by (simp add: ring_count_def)
  have "rbuf (ring_put c q) ((ridx q + k) mod 256) = rbuf q ((ridx q + k) mod 256)" if "k < ring_count q" for k
    using ring_arith(1)[OF w] that by (simp add: ring_put_sel[OF ok] ring_count_def)
  then show ?thesis using last
    by (simp add: ring_items_def cnt ring_put_sel[OF ok])
qed

lemma ring_get_items:
  assumes ok: "ring_ok q" and ne: "\<not> ring_empty q"
  shows "ring_items q = snd (ring_get q) # ring_items (fst (ring_get q))"
proof -
  have w: "widx q < 256" "ridx q < 256" using ok by (auto simp: ring_ok_def)
  have cnt: "ring_count q = Suc (ring_count (fst (ring_get q)))"
    using ring_arith(4)[OF w] ne by (simp add: ring_count_def ring_get_sel[OF ok] ring_empty_def)
  show ?thesis unfolding ring_items_def cnt
    using w(2) by (subst upt_conv_Cons, simp, subst map_Suc_upt[symmetric])
      (simp add: ring_get_sel[OF ok] o_def mod_simps)
qed

interpretation rings: bounded_fifo ring_ok ring_items ring_put ring_get ring_full ring_empty 255
proof unfold_locales
  fix q c assume ok: "ring_ok q"
  then have w: "widx q < 256" "ridx q < 256" by (auto simp: ring_ok_def)
  have l: "length (ring_items q) = ring_count q" by (simp add: ring_items_def)
  show "ring_full q \<longleftrightarrow> length (ring_items q) = 255"
    using ring_arith(5)[OF w] by (simp add: l ring_full_def VSPRINT_MAX_BUF_SIZE_def ring_count_def)
  show "ring_empty q \<longleftrightarrow> ring_items q = []"
    using ring_arith(6)[OF w] by (simp add: ring_items_def ring_empty_def ring_count_def)
  show "ring_ok (ring_put c q)" using w by (simp add: ring_ok_def ring_put_sel[OF ok])
  show "ring_ok (fst (ring_get q))" using w by (simp add: ring_ok_def ring_get_sel[OF ok])
  show "length (ring_items q) \<le> 255"
    unfolding l ring_count_def using mod_less_divisor[of 256 "widx q + 256 - ridx q"] by linarith
  show "\<not> ring_full q \<Longrightarrow> ring_items (ring_put c q) = ring_items q @ [c]" using ok by (rule ring_put_items)
  show "\<not> ring_empty q \<Longrightarrow> ring_items q = snd (ring_get q) # ring_items (fst (ring_get q))"
    using ok by (rule ring_get_items)
qed

section \<open>Interleavings\<close>

text \<open>What can happen: a call by the kernel that completes or waits one more round, one of the two
  interrupt handlers, and a byte arriving.  The handlers run between the kernel's steps because
  the ring updates are inside \<open>disable_interrupt\<close> sections.\<close>

datatype uart_event = Ev_putc "8 word" | Ev_getc "8 word" | Ev_wait | Ev_wirq | Ev_rirq | Ev_arrive "8 word"

inductive uart_step :: "uart \<Rightarrow> uart_event \<Rightarrow> uart \<Rightarrow> bool" where
  putc: "uart_async_putc c s = Inr s' \<Longrightarrow> uart_step s (Ev_putc c) s'"
| putc_wait: "uart_async_putc c s = Inl s' \<Longrightarrow> uart_step s Ev_wait s'"
| getc: "uart_async_getc s = Inr (s', r) \<Longrightarrow> uart_step s (Ev_getc r) s'"
| getc_wait: "uart_async_getc s = Inl s' \<Longrightarrow> uart_step s Ev_wait s'"
| wirq: "uart_step s Ev_wirq (uart_w_irq_handler s)"
| rirq: "uart_r_irq_handler s = Some s' \<Longrightarrow> uart_step s Ev_rirq s'"
| arrive: "uart_step s (Ev_arrive c) (s\<lparr>wire_in := wire_in s @ [c]\<rparr>)"

inductive uart_run :: "uart \<Rightarrow> uart_event list \<Rightarrow> uart \<Rightarrow> bool" where
  nil: "uart_run s [] s"
| step: "uart_step s e s' \<Longrightarrow> uart_run s' es s'' \<Longrightarrow> uart_run s (e # es) s''"

inductive_cases uart_run_elims: "uart_run s [] s'" "uart_run s (e # es) s'"

definition uart_ok :: "uart \<Rightarrow> bool" where
  "uart_ok s \<longleftrightarrow> ring_ok (tx s) \<and> ring_ok (rx s)"

definition cr :: "8 word \<Rightarrow> 8 word" where
  "cr c = (if c = 0x0D then 0x0A else c)"

text \<open>The bytes a trace writes, reads and receives.\<close>

definition puts_of :: "uart_event list \<Rightarrow> 8 word list" where
  "puts_of es = concat (map (\<lambda>e. case e of Ev_putc c \<Rightarrow> [c] | _ \<Rightarrow> []) es)"

definition gets_of :: "uart_event list \<Rightarrow> 8 word list" where
  "gets_of es = concat (map (\<lambda>e. case e of Ev_getc c \<Rightarrow> [c] | _ \<Rightarrow> []) es)"

definition arrivals_of :: "uart_event list \<Rightarrow> 8 word list" where
  "arrivals_of es = concat (map (\<lambda>e. case e of Ev_arrive c \<Rightarrow> [c] | _ \<Rightarrow> []) es)"

lemma irq_bits_sel [simp]:
  "tx (rx_irq_on s) = tx s" "rx (rx_irq_on s) = rx s" "wire_in (rx_irq_on s) = wire_in s"
  "wire_out (rx_irq_on s) = wire_out s" "uart_recv_echo_flag (rx_irq_on s) = uart_recv_echo_flag s"
  "tx (rx_irq_off s) = tx s" "rx (rx_irq_off s) = rx s" "wire_in (rx_irq_off s) = wire_in s"
  "wire_out (rx_irq_off s) = wire_out s" "uart_recv_echo_flag (rx_irq_off s) = uart_recv_echo_flag s"
  "tx (tx_irq_on s) = tx s" "rx (tx_irq_on s) = rx s" "wire_in (tx_irq_on s) = wire_in s"
  "wire_out (tx_irq_on s) = wire_out s" "uart_recv_echo_flag (tx_irq_on s) = uart_recv_echo_flag s"
  "tx (tx_irq_off s) = tx s" "rx (tx_irq_off s) = rx s" "wire_in (tx_irq_off s) = wire_in s"
  "wire_out (tx_irq_off s) = wire_out s" "uart_recv_echo_flag (tx_irq_off s) = uart_recv_echo_flag s"
  "tx (uart_send c s) = tx s" "rx (uart_send c s) = rx s" "wire_in (uart_send c s) = wire_in s"
  "wire_out (uart_send c s) = wire_out s @ [c]" "uart_recv_echo_flag (uart_send c s) = uart_recv_echo_flag s"
  by (simp_all add: rx_irq_on_def rx_irq_off_def tx_irq_on_def tx_irq_off_def uart_send_def)

lemma uart_recv_Some:
  assumes "uart_recv s = Some (s', r)"
  obtains c where "wire_in s = c # wire_in s'" "r = cr c" "tx s' = tx s" "rx s' = rx s"
    "uart_recv_echo_flag s' = uart_recv_echo_flag s"
    "\<not> uart_recv_echo_flag s \<Longrightarrow> wire_out s' = wire_out s"
  using assms that
  by (cases "wire_in s") (auto simp: uart_recv_def Let_def cr_def split: if_splits)

lemmas ring_laws = rings.put_ok rings.put_items rings.get_ok

lemma uart_step_inv:
  assumes "uart_step s e s'" "uart_ok s"
  shows "uart_ok s' \<and> uart_recv_echo_flag s' = uart_recv_echo_flag s \<and>
    (\<not> uart_recv_echo_flag s \<longrightarrow>
      wire_out s' @ ring_items (tx s') = wire_out s @ ring_items (tx s) @ puts_of [e]) \<and>
    gets_of [e] @ ring_items (rx s') @ map cr (wire_in s') =
      ring_items (rx s) @ map cr (wire_in s) @ map cr (arrivals_of [e])"
  using assms
proof (induction rule: uart_step.induct)
  case (putc c s s')
  then show ?case
    by (auto simp: uart_async_putc_def uart_ok_def puts_of_def gets_of_def arrivals_of_def ring_laws split: if_splits)
next
  case (putc_wait c s s')
  then show ?case
    by (auto simp: uart_async_putc_def uart_ok_def puts_of_def gets_of_def arrivals_of_def split: if_splits)
next
  case (getc s s' r)
  then have ok: "ring_ok (rx s)" "\<not> ring_empty (rx s)"
    and e: "s' = (rx_irq_on s)\<lparr>rx := fst (ring_get (rx s))\<rparr>" "r = snd (ring_get (rx s))"
    by (auto simp: uart_async_getc_def uart_ok_def Let_def split: if_splits prod.splits)
  from rings.get_items[OF ok] rings.get_ok[OF ok] getc.prems show ?case
    by (simp add: e uart_ok_def puts_of_def gets_of_def arrivals_of_def)
next
  case (getc_wait s s')
  then show ?case
    by (auto simp: uart_async_getc_def uart_ok_def puts_of_def gets_of_def arrivals_of_def Let_def split: if_splits prod.splits)
next
  case (wirq s)
  show ?case
  proof (cases "ring_empty (tx s)")
    case True
    with wirq show ?thesis
      by (simp add: uart_w_irq_handler_def uart_ok_def puts_of_def gets_of_def arrivals_of_def)
  next
    case False
    with wirq have ok: "ring_ok (tx s)" "\<not> ring_empty (tx s)" by (auto simp: uart_ok_def)
    obtain q c where g: "ring_get (tx s) = (q, c)" by fastforce
    from rings.get_items[OF ok] rings.get_ok[OF ok] wirq g False show ?thesis
      by (simp add: uart_w_irq_handler_def uart_ok_def puts_of_def gets_of_def arrivals_of_def)
  qed
next
  case (rirq s s')
  show ?case
  proof (cases "ring_full (rx s)")
    case True
    with rirq show ?thesis
      by (auto simp: uart_r_irq_handler_def uart_ok_def puts_of_def gets_of_def arrivals_of_def)
  next
    case False
    with rirq obtain s1 r where r: "uart_recv s = Some (s1, r)"
      "s' = rx_irq_on (s1\<lparr>rx := ring_put r (rx s1)\<rparr>)"
      by (auto simp: uart_r_irq_handler_def split: option.splits)
    from uart_recv_Some[OF r(1)] obtain c where c: "wire_in s = c # wire_in s1" "r = cr c" "tx s1 = tx s"
      "rx s1 = rx s" "uart_recv_echo_flag s1 = uart_recv_echo_flag s"
      "\<not> uart_recv_echo_flag s \<Longrightarrow> wire_out s1 = wire_out s" by metis
    have ok: "ring_ok (tx s)" "ring_ok (rx s)" using rirq.prems by (simp_all add: uart_ok_def)
    from rings.put_ok[OF ok(2) False, of r] rings.put_items[OF ok(2) False, of r] ok c show ?thesis
      by (simp add: r(2) uart_ok_def puts_of_def gets_of_def arrivals_of_def)
  qed
next
  case (arrive s c)
  then show ?case by (simp add: uart_ok_def puts_of_def gets_of_def arrivals_of_def)
qed

lemma trace_Cons:
  "puts_of (e # es) = puts_of [e] @ puts_of es" "gets_of (e # es) = gets_of [e] @ gets_of es"
  "arrivals_of (e # es) = arrivals_of [e] @ arrivals_of es"
  by (simp_all add: puts_of_def gets_of_def arrivals_of_def)

lemma uart_run_inv:
  assumes "uart_run s es s'" "uart_ok s"
  shows "uart_ok s' \<and>
    (\<not> uart_recv_echo_flag s \<longrightarrow>
      wire_out s' @ ring_items (tx s') = wire_out s @ ring_items (tx s) @ puts_of es) \<and>
    gets_of es @ ring_items (rx s') @ map cr (wire_in s') =
      ring_items (rx s) @ map cr (wire_in s) @ map cr (arrivals_of es)"
  using assms
proof (induction rule: uart_run.induct)
  case (nil s)
  then show ?case by (simp add: puts_of_def gets_of_def arrivals_of_def)
next
  case (step s e s' es s'')
  note st = uart_step_inv[OF step.hyps(1) step.prems]
  note ih = step.IH[OF conjunct1[OF st]]
  have rx: "gets_of [e] @ ring_items (rx s') @ map cr (wire_in s') =
      ring_items (rx s) @ map cr (wire_in s) @ map cr (arrivals_of [e])" using st by blast
  have "gets_of (e # es) @ ring_items (rx s'') @ map cr (wire_in s'') =
      gets_of [e] @ ring_items (rx s') @ map cr (wire_in s') @ map cr (arrivals_of es)"
    using ih by (simp add: trace_Cons(2)[of e es])
  also have "\<dots> = ring_items (rx s) @ map cr (wire_in s) @ map cr (arrivals_of (e # es))"
    using arg_cong[OF rx, of "\<lambda>l. l @ map cr (arrivals_of es)"] by (simp add: trace_Cons(3)[of e es])
  finally have "gets_of (e # es) @ ring_items (rx s'') @ map cr (wire_in s'') =
      ring_items (rx s) @ map cr (wire_in s) @ map cr (arrivals_of (e # es))" .
  moreover have "wire_out s'' @ ring_items (tx s'') = wire_out s @ ring_items (tx s) @ puts_of (e # es)"
    if "\<not> uart_recv_echo_flag s"
    using st ih that by (simp add: trace_Cons(1)[of e es])
  ultimately show ?case using ih by blast
qed

section \<open>Printing\<close>

lemma fold_uart_send: "wire_out (fold uart_send cs s) = wire_out s @ cs"
  by (induction cs arbitrary: s) auto

lemma uart_sendline_plain:
  assumes "0x25 \<notin> set str" "0 \<notin> set str" "length str \<le> 241"
  shows "\<exists>s'. uart_sendline str args s = Inr s' \<and> wire_out s' = wire_out s @ crlf str"
proof -
  have t: "takeWhile (\<lambda>c. c \<noteq> 0) str = str" using assms(2) by (simp add: takeWhile_eq_all_conv) metis
  show ?thesis using vsprintf_plain_loop[of str "[]" args] assms
    by (simp add: uart_sendline_def vsprintf_def fold_uart_send t)
qed

end
