(* ===== verification/Text_Props.thy ===== *)
theory Text_Props
  imports Path Uart_Inv
begin

text \<open>
  The properties of strings, numbers, paths, formatted output and the UART driver, with their
  witnesses.  The witnesses of the string functions use \<open>text_mem\<close>, a memory that holds a few
  strings.
\<close>

section \<open>A concrete memory\<close>

definition put_text :: "addr \<Rightarrow> 8 word list \<Rightarrow> mem \<Rightarrow> mem" where
  "put_text p xs m = (\<lambda>a. if unat (a - p) < length xs then xs ! unat (a - p) else if a = p + of_nat (length xs) then 0 else m a)"

text \<open>\<open>abc\<close> at 16, \<open>abd\<close> at 32 and \<open>2047\<close> at 48, zeros elsewhere.\<close>

definition text_mem :: mem where
  "text_mem = (\<lambda>_. 0)(16 := 0x61, 17 := 0x62, 18 := 0x63, 32 := 0x61, 33 := 0x62, 34 := 0x64,
     48 := 0x32, 49 := 0x30, 50 := 0x34, 51 := 0x37)"

lemma text_mem_strings:
  "cstr text_mem 16 [0x61, 0x62, 0x63]" "cstr text_mem 32 [0x61, 0x62, 0x64]"
  "cstr text_mem 48 [0x32, 0x30, 0x34, 0x37]"
  by (simp_all add: text_mem_def)

section \<open>Strings\<close>

text \<open>\<open>strcmp\<close> on two terminated strings returns, with a negative, zero or positive value
  exactly as the first is lexicographically below, equal to or above the second.\<close>

theorem strcmp_correct:
  assumes "cstr m p xs" "cstr m q ys"
  shows "\<exists>r. strcmp m p q = Some r \<and> (r < 0 \<longleftrightarrow> xs < ys) \<and> (r = 0 \<longleftrightarrow> xs = ys) \<and> (r > 0 \<longleftrightarrow> xs > ys)"
proof -
  obtain r where "strcmp m p q = Some r" "r = 0 \<longleftrightarrow> xs = ys" "r < 0 \<longleftrightarrow> xs < ys"
    using strcmp_cstr[OF assms] by blast
  then show ?thesis by (intro exI[of _ r]) (use less_linear[of xs ys] in auto)
qed

theorem strcmp_correct_witness: "\<exists>r < 0. strcmp text_mem 16 32 = Some r"
  using strcmp_correct[OF text_mem_strings(1,2)] by (auto simp: word_less_def)

text \<open>\<open>strncmp\<close>, whose main loop is unrolled four times, is the byte-by-byte comparison, and
  compares exactly the first \<open>n\<close> bytes of the two strings.\<close>

theorem strncmp_correct:
  assumes "cstr m p xs" "cstr m q ys"
  shows "strncmp m p q n = strncmp_tail m p q (unat n) 0 \<and>
    (strncmp m p q n = 0 \<longleftrightarrow> take (unat n) xs = take (unat n) ys) \<and>
    (strncmp m p q n < 0 \<longleftrightarrow> take (unat n) xs < take (unat n) ys)"
  using strncmp_tail_cstr[OF assms, of "unat n"] by (simp add: strncmp_unrolled)

theorem strncmp_correct_witness: "strncmp text_mem 16 32 2 = 0 \<and> strncmp text_mem 16 32 7 < 0"
  using strncmp_correct[OF text_mem_strings(1,2), of 2] strncmp_correct[OF text_mem_strings(1,2), of 7]
  by (simp add: word_less_def)

lemma string_compare_common:
  assumes "cstr m p (us @ xs)" "cstr m q (us @ ys)" "list_all (\<lambda>c. \<not> skipped c) us"
  shows "utils_string_compare m p q =
    utils_string_compare m (p + of_nat (length us)) (q + of_nat (length us))"
  using assms
proof (induction us arbitrary: p q)
  case (Cons c us)
  have "skip_loop m p = Some p" "skip_loop m q = Some q"
    using Cons.prems by (subst skip_loop.simps; simp)+
  then have "utils_string_compare m p q = utils_string_compare m (p + 1) (q + 1)"
    using Cons.prems by (subst utils_string_compare.simps) simp
  with Cons.IH[of "p + 1" "q + 1"] Cons.prems show ?case by (simp add: ac_simps)
qed simp

lemma cstr_suffix: "cstr m p (us @ xs) \<Longrightarrow> cstr m (p + of_nat (length us)) xs"
proof (induction us arbitrary: p)
  case (Cons c us)
  then show ?case using Cons.IH[of "p + 1"] by (simp add: ac_simps)
qed simp

text \<open>\<open>strcpy\<close> into a range apart from the source ends, leaves the source as it is, makes
  the destination the same string and touches no other byte.\<close>

theorem strcpy_correct:
  assumes "cstr m s xs" "length xs + 1 < 2 ^ 64"
    "range_of d (length xs + 1) \<inter> range_of s (length xs + 1) = {}"
  shows "\<exists>m'. strcpy d s m = Some m' \<and> cstr m' d xs \<and> cstr m' s xs \<and>
    (\<forall>a. a \<in> range_of d (length xs + 1) \<or> m' a = m a)"
  using strcpy_cstr[OF assms] by blast

theorem strcpy_correct_witness:
  "\<exists>m'. strcpy 64 16 text_mem = Some m' \<and> cstr m' 64 [0x61, 0x62, 0x63] \<and> cstr m' 16 [0x61, 0x62, 0x63]"
proof -
  have "{..<Suc (Suc (Suc (Suc 0)))} = {0, 1, 2, 3}" by auto
  then have "range_of 64 (length [0x61 :: 8 word, 0x62, 0x63] + 1) \<inter> range_of 16 (length [0x61 :: 8 word, 0x62, 0x63] + 1) = {}"
    by (simp add: range_of_def)
  from strcpy_correct[OF text_mem_strings(1) _ this] show ?thesis by auto
qed

text \<open>\<open>utils_string_compare\<close> answers yes on equal lines and no on lines whose first
  difference comes before the end of either.  (Nothing is promised when one line is a proper
  prefix of the other: the code then reads on past the terminator of the shorter one.)\<close>

theorem utils_string_compare_correct:
  assumes "cstr m p xs" "cstr m q ys" "list_all (\<lambda>c. \<not> skipped c) xs" "list_all (\<lambda>c. \<not> skipped c) ys"
    "xs = us @ xs'" "ys = us @ ys'" "xs' = [] \<and> ys' = [] \<or> xs' \<noteq> [] \<and> ys' \<noteq> [] \<and> hd xs' \<noteq> hd ys'"
  shows "utils_string_compare m p q = Some (xs = ys)"
proof -
  let ?p = "p + of_nat (length us)" and ?q = "q + of_nat (length us)"
  have c: "cstr m ?p xs'" "cstr m ?q ys'" using assms(1,2,5,6) cstr_suffix by blast+
  have e: "utils_string_compare m p q = utils_string_compare m ?p ?q"
    using string_compare_common[of m p us xs' q ys'] assms by simp
  show ?thesis
  proof (cases "xs' = []")
    case True
    with assms(5-7) c show ?thesis by (subst e, subst utils_string_compare.simps) simp
  next
    case False
    with assms(7) obtain a as b bs where s: "xs' = a # as" "ys' = b # bs" "a \<noteq> b"
      by (metis list.exhaust list.sel(1))
    have k: "\<not> skipped a" "\<not> skipped b" using assms(3-6) s by simp_all
    have "skip_loop m ?p = Some ?p" "skip_loop m ?q = Some ?q"
      using c s k by (subst skip_loop.simps; simp)+
    then show ?thesis using assms(5,6) c s k
      by (subst e, subst utils_string_compare.simps) simp
  qed
qed

theorem utils_string_compare_correct_witness:
  "utils_string_compare text_mem 16 32 = Some False \<and> utils_string_compare text_mem 16 16 = Some True"
proof -
  have k: "list_all (\<lambda>c. \<not> skipped c) [0x61, 0x62, 0x63]" "list_all (\<lambda>c. \<not> skipped c) [0x61, 0x62, 0x64]"
    by (simp_all add: skipped_def)
  have "utils_string_compare text_mem 16 32 = Some ([0x61, 0x62, 0x63] = [0x61, 0x62, 0x64 :: 8 word])"
    by (rule utils_string_compare_correct[OF text_mem_strings(1,2) k, of "[0x61, 0x62]" "[0x63]" "[0x64]"]) simp_all
  moreover have "utils_string_compare text_mem 16 16 = Some ([0x61, 0x62, 0x63] = [0x61, 0x62, 0x63 :: 8 word])"
    by (rule utils_string_compare_correct[OF text_mem_strings(1,1) k(1,1), of "[0x61, 0x62, 0x63]" "[]" "[]"]) simp_all
  ultimately show ?thesis by simp
qed

section \<open>Numbers\<close>

text \<open>The text \<open>utils_int_to_str\<close> makes of a number is a sign and decimal digits of that
  number; placed in memory, \<open>atoi\<close> reads a non-negative number back unchanged, as long as the
  next character can be added without overflow.\<close>

theorem int_to_str_atoi:
  assumes "0 \<le> sint v" "sint v + 0x30 \<le> 2 ^ 31 - 1" "utils_int_to_str v = Some ds" "cstr m p ds"
  shows "atoi m p = Some (sint v)"
proof -
  have "sint v \<noteq> - (2 ^ 31)" using assms(1) by auto
  from utils_int_to_str_spec[OF this] assms(1,3) have "list_all digit ds" "dec_val ds = sint v" by auto
  with atoi_cstr[OF assms(4)] assms(2) show ?thesis by simp
qed

lemma int_to_str_2047: "utils_int_to_str 2047 = Some [0x32, 0x30, 0x34, 0x37]"
proof -
  have "digits_loop 2047 [] = [0x37, 0x34, 0x30, 0x32]"
    by (simp add: digits_loop.simps[of 2047] digits_loop.simps[of 204] digits_loop.simps[of 20]
        digits_loop.simps[of 2] digits_loop.simps[of 0])
  moreover have "reverse_loop 2 [0x37, 0x34, 0x30, 0x32 :: 8 word] = [0x32, 0x30, 0x34, 0x37]"
    by (simp add: numeral_2_eq_2 Let_def)
  ultimately show ?thesis by (simp add: utils_int_to_str_def Let_def)
qed

theorem int_to_str_atoi_witness: "atoi text_mem 48 = Some 2047"
  using int_to_str_atoi[OF _ _ int_to_str_2047 text_mem_strings(3)] by simp

text \<open>The endian conversions move byte \<open>i\<close> to byte \<open>3 - i\<close> (\<open>7 - i\<close>) and are their own
  inverses.\<close>

theorem change_endian_correct:
  shows "utils_change_endian_32 (utils_change_endian_32 v) = v \<and>
    utils_change_endian_64 (utils_change_endian_64 w) = w \<and>
    (bit (utils_change_endian_32 v) (n mod 32) \<longleftrightarrow> bit v (8 * (3 - n mod 32 div 8) + n mod 8)) \<and>
    (bit (utils_change_endian_64 w) (n mod 64) \<longleftrightarrow> bit w (8 * (7 - n mod 64 div 8) + n mod 8))"
proof -
  have m: "n mod 32 mod 8 = n mod 8" "n mod 64 mod 8 = n mod 8" by (simp_all add: mod_mod_cancel)
  show ?thesis using endian32_invol endian64_invol endian32_bit[of "n mod 32" v] endian64_bit[of "n mod 64" w]
    by (simp add: m)
qed

text \<open>\<open>utils_align\<close> rounds a size up to the next multiple of a power of two, and gives any
  other alignment back unchanged.\<close>

theorem utils_align_correct:
  assumes "k < 64" "unat sz + 2 ^ k \<le> 2 ^ 64"
  shows "2 ^ k dvd unat (utils_align sz (2 ^ k)) \<and> unat sz \<le> unat (utils_align sz (2 ^ k)) \<and>
    unat (utils_align sz (2 ^ k)) < unat sz + 2 ^ k"
proof -
  let ?n = "unat sz + 2 ^ k - 1"
  have e: "unat (utils_align sz (2 ^ k)) = ?n div 2 ^ k * 2 ^ k" using assms by (rule utils_align_pow2)
  have "?n div 2 ^ k * 2 ^ k + ?n mod 2 ^ k = ?n" by (rule div_mult_mod_eq)
  moreover have "?n mod 2 ^ k < 2 ^ k" by simp
  ultimately have "unat sz \<le> ?n div 2 ^ k * 2 ^ k \<and> ?n div 2 ^ k * 2 ^ k < unat sz + 2 ^ k" by linarith
  moreover have "2 ^ k dvd ?n div 2 ^ k * 2 ^ k" by simp
  ultimately show ?thesis unfolding e by blast
qed

theorem utils_align_correct_witness:
  "4 dvd unat (utils_align 13 4) \<and> 13 \<le> unat (utils_align 13 4) \<and> unat (utils_align 13 4) < 17"
  using utils_align_correct[of 2 13] by simp

section \<open>Paths\<close>

text \<open>C26: \<open>get_absolute_path\<close> on a path that fits computes the reference: join the path to the
  working directory unless it is absolute, split at the slashes, drop every \<open>.\<close>, let every
  \<open>..\<close> remove the component before it, and print what is left.\<close>

theorem get_absolute_path_correct:
  assumes "cwd_ok d" "fits path d"
  shows "get_absolute_path path d = Some (path_of (normalise (components (tl (joined path d)))))"
proof -
  obtain s where "joined path d = slash # s" "get_absolute_path path d = Some (path_of (normalise (components s)))"
    using assms by (rule get_absolute_path_joined)
  then show ?thesis by simp
qed

theorem get_absolute_path_correct_witness:
  "get_absolute_path ''../dev/./uart'' ''/a/b'' = Some ''/a/dev/uart''"
  using get_absolute_path_correct[of "''/a/b''" "''../dev/./uart''"]
  by (simp add: cwd_ok_def fits_def MAX_PATH_NAME_def joined_def normalise_def step_component_def path_of_def render_def)

text \<open>The absolute path of a fitting path is absolute, no longer than \<open>MAX_PATH_NAME\<close>, has
  no \<open>.\<close> or \<open>..\<close> component, and is its own absolute path: after \<open>chdir\<close> the working directory is
  again one that the kernel can start from.\<close>

theorem get_absolute_path_stable:
  assumes "cwd_ok d" "fits path d" "get_absolute_path path d = Some a"
  shows "cwd_ok a \<and> get_absolute_path a d = Some a \<and> (a = ''/'' \<or> normal (components (tl a)))"
proof -
  obtain s where s: "joined path d = slash # s" "length (slash # s) \<le> MAX_PATH_NAME"
    "get_absolute_path path d = Some (path_of (normalise (components s)))"
    using assms(1,2) by (rule get_absolute_path_joined)
  let ?st = "normalise (components s)"
  have a: "a = path_of ?st" using s(3) assms(3) by simp
  have r: "a = resolve (slash # s)" using resolve_correct[OF s(2)] a by simp
  obtain t where t: "a = slash # t" using path_of_slash a by metis
  have l: "length a \<le> MAX_PATH_NAME" using order_trans[OF path_of_length[of s] s(2)] a by simp
  have "resolve a = a" using resolve_idem[OF s(2)] r by simp
  then have "get_absolute_path a d = Some a" using t l by (simp add: get_absolute_path_def)
  moreover have "cwd_ok a" using t l by (simp add: cwd_ok_def)
  moreover have "a = ''/'' \<or> normal (components (tl a))"
  proof (cases "?st = []")
    case False
    have n: "normal ?st" using components_plain by (rule normalise_normal)
    then have "components (tl (render ?st)) = ?st"
      using False by (intro components_of_render) (simp_all add: normal_def)
    with n False a show ?thesis by (simp add: path_of_def)
  qed (simp add: a path_of_def)
  ultimately show ?thesis by blast
qed

theorem get_absolute_path_stable_witness: "cwd_ok ''/a/dev/uart''"
  using get_absolute_path_stable[of "''/a/b''" "''../dev/./uart''" "''/a/dev/uart''"]
    get_absolute_path_correct[of "''/a/b''" "''../dev/./uart''"]
  by (simp add: cwd_ok_def fits_def MAX_PATH_NAME_def)

section \<open>Formatted output\<close>

text \<open>C38: formatting without string arguments never produces more than 257 bytes, one more than
  the callers' buffers hold; a text of up to 241 bytes without conversions is copied as it is.
  (The witness is an output of 257 bytes.)\<close>

theorem vsprintf_bounds:
  assumes "\<forall>s. Arg_str s \<notin> set args"
  shows "(case vsprintf fmt args of Inl _ \<Rightarrow> True | Inr r \<Rightarrow> length r \<le> 257) \<and>
    (0x25 \<in> set lit \<or> length lit > 241 \<or> vsprintf lit args = Inr lit)"
proof -
  have "length r \<le> 257" if "vsprintf fmt args = Inr r" for r
    using vsprintf_loop_length[of fmt args "[]" r] assms that by (simp add: vsprintf_def)
  moreover have "vsprintf lit args = Inr lit" if "0x25 \<notin> set lit" "length lit \<le> 241"
    using vsprintf_plain_loop[of lit "[]" args] that by (simp add: vsprintf_def)
  ultimately show ?thesis
    by (cases "length lit \<le> 241"; cases "vsprintf fmt args") auto
qed

theorem vsprintf_bounds_witness:
  "vsprintf [0x68, 0x69] [Arg_int 7] = Inr [0x68, 0x69] \<and> vsprintf (replicate 240 0x61 @ [0x25, 0x31, 0x37, 0x64]) [Arg_int 7] =
    Inr (replicate 240 0x61 @ replicate 16 0x20 @ [0x37])"
proof -
  have "vsprintf_loop (replicate n 0x61 @ f) args out = vsprintf_loop f args (out @ replicate n 0x61)"
    if "length out + n \<le> 241" for n f args out using that
  proof (induction n arbitrary: out)
    case (Suc n)
    then show ?case
      using Suc.IH[of "out @ [0x61]"] by (simp add: vsprintf_loop.simps(2) VSPRINT_MAX_BUF_SIZE_def)
  qed simp
  then have "vsprintf (replicate 240 0x61 @ [0x25, 0x31, 0x37, 0x64]) [Arg_int 7] =
      vsprintf_loop [0x25, 0x31, 0x37, 0x64] [Arg_int 7] (replicate 240 0x61)"
    by (simp add: vsprintf_def)
  also have "\<dots> = Inr (replicate 240 0x61 @ replicate 16 0x20 @ [0x37])"
    by (simp add: vsprintf_loop.simps VSPRINT_MAX_BUF_SIZE_def skip_l_def conversion_def format_dec_def
        dec_loop.simps[of 7] Let_def)
  finally show ?thesis using vsprintf_bounds[of "[Arg_int 7]" "[0x68, 0x69]" "[0x68, 0x69]"] by simp
qed

section \<open>The UART driver\<close>

text \<open>C37: over any interleaving of \<open>uart_async_putc\<close>, \<open>uart_async_getc\<close>, the two interrupt
  handlers and arriving bytes, waits included, no byte is lost, repeated or reordered: with the
  echo off, what was sent plus what waits in the transmit ring is what was sent and waited before
  plus what was put; and what was read plus what waits is what waited before plus what arrived,
  carriage returns turned into line feeds.\<close>

theorem uart_fifo:
  assumes "uart_run s es s'" "uart_ok s" "\<not> uart_recv_echo_flag s"
  shows "uart_ok s' \<and>
    wire_out s' @ ring_items (tx s') = wire_out s @ ring_items (tx s) @ puts_of es \<and>
    gets_of es @ ring_items (rx s') @ map cr (wire_in s') =
      ring_items (rx s) @ map cr (wire_in s) @ map cr (arrivals_of es)"
  using uart_run_inv[OF assms(1,2)] assms(3) by blast

definition quiet_uart :: uart where
  "quiet_uart = \<lparr>tx = \<lparr>rbuf = (\<lambda>_. 0), widx = 255, ridx = 255\<rparr>, rx = \<lparr>rbuf = (\<lambda>_. 0), widx = 0, ridx = 0\<rparr>,
     ier = 0, irqs1 = 0, wire_in = [], wire_out = [], uart_recv_echo_flag = False\<rparr>"

theorem uart_fifo_witness:
  "\<exists>s'. uart_run quiet_uart [Ev_putc 0x41, Ev_arrive 0x0D, Ev_wirq, Ev_putc 0x42] s' \<and>
    wire_out s' @ ring_items (tx s') = [0x41, 0x42] \<and> ring_items (rx s') @ map cr (wire_in s') = [0x0A]"
proof -
  obtain s1 where 1: "uart_async_putc 0x41 quiet_uart = Inr s1"
    by (simp add: uart_async_putc_def quiet_uart_def ring_full_def VSPRINT_MAX_BUF_SIZE_def)
  let ?s2 = "s1\<lparr>wire_in := wire_in s1 @ [0x0D]\<rparr>"
  let ?s3 = "uart_w_irq_handler ?s2"
  obtain s4 where 4: "uart_async_putc 0x42 ?s3 = Inr s4"
    using 1 by (auto simp: uart_async_putc_def quiet_uart_def ring_full_def VSPRINT_MAX_BUF_SIZE_def
        uart_w_irq_handler_def ring_empty_def ring_get_def ring_put_def Let_def tx_irq_on_def uart_send_def)
  have r: "uart_run quiet_uart [Ev_putc 0x41, Ev_arrive 0x0D, Ev_wirq, Ev_putc 0x42] s4"
    by (intro uart_run.step[OF putc[OF 1]] uart_run.step[OF arrive] uart_run.step[OF wirq]
        uart_run.step[OF putc[OF 4]] uart_run.nil)
  have "uart_ok quiet_uart" "\<not> uart_recv_echo_flag quiet_uart" "ring_items (tx quiet_uart) = []"
    "ring_items (rx quiet_uart) = []" "wire_in quiet_uart = []" "wire_out quiet_uart = []"
    by (simp_all add: quiet_uart_def uart_ok_def ring_ok_def ring_items_def ring_count_def)
  with uart_fifo[OF r] show ?thesis
    by (intro exI[of _ s4]) (simp add: r puts_of_def gets_of_def arrivals_of_def cr_def)
qed

text \<open>\<open>uart_sendline\<close> of a short text without conversions writes exactly the text to the
  line, each line feed preceded by a carriage return.\<close>

theorem uart_sendline_correct:
  assumes "0x25 \<notin> set str" "0 \<notin> set str" "length str \<le> 241"
  shows "\<exists>s'. uart_sendline str args s = Inr s' \<and>
    wire_out s' = wire_out s @ concat (map (\<lambda>c. if c = 0x0A then [0x0D, 0x0A] else [c]) str)"
proof -
  have "crlf str = concat (map (\<lambda>c. if c = 0x0A then [0x0D, 0x0A] else [c]) str)"
    by (simp add: crlf_def cong: if_cong)
  with uart_sendline_plain[OF assms, of args s] show ?thesis by simp
qed

theorem uart_sendline_correct_witness:
  "\<exists>s'. uart_sendline [0x68, 0x0A] [] quiet_uart = Inr s' \<and> wire_out s' = [0x68, 0x0D, 0x0A]"
  using uart_sendline_correct[of "[0x68, 0x0A]" "[]" quiet_uart] by (simp add: quiet_uart_def)

end
