(* ===== verification/Kstate.thy ===== *)
theory Kstate
  imports Kmalloc Uart
begin

text \<open>
  The kernel's state outside the memory allocator: the interrupt nesting counter
  (\<open>exception.c\<close>), the interrupt task queue (\<open>irqtask.c\<close>), the timer list (\<open>timer.c\<close>), threads and
  their run queue (\<open>sched.c\<close>), page tables (\<open>mmu.c\<close>) and the file system objects (\<open>vfs.h\<close>,
  \<open>tmpfs.h\<close>, \<open>initramfs.h\<close>).

  Objects obtained from \<open>kmalloc\<close> live in one map per type from addresses to records; a pointer
  to them is an address option, \<open>None\<close> being the null pointer.  Threads are elements of the array
  \<open>threads\<close>, a \<open>thread_t*\<close> is an index.  \<open>bytes\<close> is the byte memory that holds file data and
  user pages, \<open>words\<close> the memory of the page tables, \<open>trapframes\<close> the trap frames on the kernel stacks by
  their address.  A function pointer is an element of a
  datatype with one constructor per function the kernel stores, and a number for user code.
\<close>

section \<open>Queues of tasks and timers\<close>

datatype kfun = Uart_w_irq_handler | Uart_r_irq_handler | Core_timer_handler | Schedule_timer
  | Signal_default_handler | Uart_puts | User_code "64 word"

record irqtask_t =
  t_priority :: "64 word"
  t_function :: kfun
  t_next :: "addr ptr"
  t_prev :: "addr ptr"

record timer_event_t =
  te_next :: "addr ptr"
  te_prev :: "addr ptr"
  te_time :: "64 word"
  te_callback :: kfun
  te_args :: addr

section \<open>Threads\<close>

record thread_context_t =
  x_regs :: "nat \<Rightarrow> 64 word"     \<comment> \<open>\<open>x19\<close> to \<open>x28\<close>\<close>
  c_fp :: "64 word"
  c_lr :: "64 word"
  c_sp :: "64 word"
  c_pgd :: addr

record vm_area_t =
  virt_addr :: "64 word"
  phys_addr :: "64 word"
  area_size :: "64 word"
  rwx :: "64 word"
  is_alloced :: bool

definition THREAD_FREE :: int where "THREAD_FREE = 0"
definition THREAD_ACTIVE :: int where "THREAD_ACTIVE = 1"
definition THREAD_ZOMBIE :: int where "THREAD_ZOMBIE = 2"
definition MAX_THREAD_COUNT :: nat where "MAX_THREAD_COUNT = 32768"
definition USTACK_SIZE :: "64 word" where "USTACK_SIZE = 0x4000"
definition KSTACK_SIZE :: "64 word" where "KSTACK_SIZE = 0x4000"
definition SIGNAL_MAX :: nat where "SIGNAL_MAX = 64"
definition MAX_FD :: nat where "MAX_FD = 16"

text \<open>\<open>vma_list\<close> is the chain of areas in order, each with the address of its structure.\<close>

record thread_t =
  ctx :: thread_context_t
  t_data :: addr
  datasize :: "32 word"
  t_status :: int
  pid :: int
  user_sp :: addr
  kernel_sp :: addr
  signal_sp :: addr
  signal_handler :: "nat \<Rightarrow> kfun"
  sigcount :: "nat \<Rightarrow> int"
  curr_signal_handler :: kfun
  signal_is_checking :: bool
  signal_saved_context :: thread_context_t
  vma_list :: "(addr \<times> vm_area_t) list"
  th_prev :: "nat ptr"
  th_next :: "nat ptr"
  curr_working_dir :: string
  fd_table :: "nat \<Rightarrow> addr ptr"

section \<open>Files\<close>

datatype fsnode_type = dir_t | file_t

text \<open>The operation tables: those of the file systems and of the devices, and the elements of
  \<open>reg_dev\<close>, into which \<open>register_dev\<close> copies a table.\<close>

datatype f_ops_t = Tmpfs_file_ops | Initramfs_file_ops | Dev_uart_ops | Dev_framebuffer_ops | Reg_dev nat
datatype v_ops_t = Tmpfs_vnode_ops | Initramfs_vnode_ops

record vnode =
  v_mount :: "addr ptr"
  v_ops :: v_ops_t
  f_ops :: f_ops_t
  internal :: addr

record filehandle =
  f_vnode :: addr
  f_pos :: "64 word"
  fh_ops :: f_ops_t
  f_flags :: "32 word"

text \<open>The \<open>setup_mount\<close> functions, and a registered file system.\<close>

datatype setup_t = Tmpfs_setup_mount | Initramfs_setup_mount

record filesystem =
  fs_name :: string
  fs_setup :: setup_t

record mount =
  m_root :: addr
  m_fs :: nat

text \<open>\<open>tmpfs_inode\<close>, and \<open>initramfs_inode\<close>, whose name is a pointer into the archive.\<close>

record inode =
  i_type :: fsnode_type
  i_name :: string
  i_entry :: "nat \<Rightarrow> addr ptr"
  i_data :: addr
  i_datasize :: "64 word"

record rinode =
  r_type :: fsnode_type
  r_name :: addr
  r_entry :: "nat \<Rightarrow> addr ptr"
  r_data :: addr
  r_datasize :: "64 word"

section \<open>The saved registers of an exception\<close>

text \<open>The trap frame that the exception entry pushes on the kernel stack.\<close>

record trapframe_t =
  xreg :: "nat \<Rightarrow> 64 word"           \<comment> \<open>\<open>x0\<close> to \<open>x30\<close>\<close>
  spsr_el1 :: "64 word"
  elr_el1 :: "64 word"
  sp_el0 :: "64 word"

section \<open>The kernel\<close>

record kern =
  mem :: kmem
  con :: uart
  bytes :: Cstring.mem
  words :: "addr \<Rightarrow> 64 word"
  nested_interrupt_cnt :: "64 word"
  irq_masked :: bool
  itasks :: "addr \<Rightarrow> irqtask_t"
  task_head :: addr
  task_tail :: addr
  curr_task_priority :: int
  tevents :: "addr \<Rightarrow> timer_event_t"
  timer_head :: addr
  timer_tail :: addr
  cntpct :: "64 word"
  cntfrq :: "64 word"
  timer_cval :: "64 word"
  core_timer_on :: bool          \<comment> \<open>\<open>CORE0_TIMER_IRQ_CTRL\<close>\<close>
  threads :: "nat \<Rightarrow> thread_t"
  curr_thread :: nat
  RQ_head :: "nat ptr"
  RQ_tail :: "nat ptr"
  files :: "addr \<Rightarrow> filehandle"
  vnodes :: "addr \<Rightarrow> vnode"
  inodes :: "addr \<Rightarrow> inode"
  rinodes :: "addr \<Rightarrow> rinode"
  mounts :: "addr \<Rightarrow> mount"
  rootfs :: addr
  reg_fs :: "nat \<Rightarrow> filesystem option"
  reg_dev :: "nat \<Rightarrow> f_ops_t option"
  fb_width :: "32 word"
  fb_height :: "32 word"
  fb_pitch :: "32 word"
  fb_isrgb :: "32 word"
  lfb :: addr
  pt :: "nat \<Rightarrow> 32 word"           \<comment> \<open>the mailbox buffer of \<open>mbox.c\<close>\<close>
  CPIO_DEFAULT_START :: addr
  CPIO_DEFAULT_END :: addr
  dtb_base :: addr
  SAFE_DEMO :: bool
  trapframes :: "addr \<Rightarrow> trapframe_t"

section \<open>Interrupt masking\<close>

definition enable_interrupt :: "kern \<Rightarrow> kern" where
  "enable_interrupt s =
     (let s1 = (if nested_interrupt_cnt s > 0
                then s\<lparr>nested_interrupt_cnt := nested_interrupt_cnt s - 1\<rparr> else s)
      in if nested_interrupt_cnt s1 = 0 then s1\<lparr>irq_masked := False\<rparr> else s1)"

definition disable_interrupt :: "kern \<Rightarrow> kern" where
  "disable_interrupt s =
     (let s1 = (if nested_interrupt_cnt s = 0 then s\<lparr>irq_masked := True\<rparr> else s)
      in s1\<lparr>nested_interrupt_cnt := nested_interrupt_cnt s1 + 1\<rparr>)"

definition el1_interrupt_enable :: "kern \<Rightarrow> kern" where
  "el1_interrupt_enable s = s\<lparr>irq_masked := False\<rparr>"

definition el1_interrupt_disable :: "kern \<Rightarrow> kern" where
  "el1_interrupt_disable s = s\<lparr>irq_masked := True\<rparr>"

text \<open>Only the two masking fields change.\<close>

lemma enable_disable_upd:
  "enable_interrupt s = s\<lparr>nested_interrupt_cnt := nested_interrupt_cnt (enable_interrupt s),
     irq_masked := irq_masked (enable_interrupt s)\<rparr>"
  "disable_interrupt s = s\<lparr>nested_interrupt_cnt := nested_interrupt_cnt (disable_interrupt s),
     irq_masked := irq_masked (disable_interrupt s)\<rparr>"
  by (simp_all add: enable_interrupt_def disable_interrupt_def Let_def)

lemma masking_frame [simp]:
  "mem (enable_interrupt s) = mem s" "mem (disable_interrupt s) = mem s"
  "con (enable_interrupt s) = con s" "con (disable_interrupt s) = con s"
  "bytes (enable_interrupt s) = bytes s" "bytes (disable_interrupt s) = bytes s"
  "words (enable_interrupt s) = words s" "words (disable_interrupt s) = words s"
  "itasks (enable_interrupt s) = itasks s" "itasks (disable_interrupt s) = itasks s"
  "task_head (enable_interrupt s) = task_head s" "task_head (disable_interrupt s) = task_head s"
  "task_tail (enable_interrupt s) = task_tail s" "task_tail (disable_interrupt s) = task_tail s"
  "curr_task_priority (enable_interrupt s) = curr_task_priority s"
  "curr_task_priority (disable_interrupt s) = curr_task_priority s"
  "tevents (enable_interrupt s) = tevents s" "tevents (disable_interrupt s) = tevents s"
  "timer_head (enable_interrupt s) = timer_head s" "timer_head (disable_interrupt s) = timer_head s"
  "timer_tail (enable_interrupt s) = timer_tail s" "timer_tail (disable_interrupt s) = timer_tail s"
  "cntpct (enable_interrupt s) = cntpct s" "cntpct (disable_interrupt s) = cntpct s"
  "cntfrq (enable_interrupt s) = cntfrq s" "cntfrq (disable_interrupt s) = cntfrq s"
  "timer_cval (enable_interrupt s) = timer_cval s" "timer_cval (disable_interrupt s) = timer_cval s"
  "threads (enable_interrupt s) = threads s" "threads (disable_interrupt s) = threads s"
  "curr_thread (enable_interrupt s) = curr_thread s" "curr_thread (disable_interrupt s) = curr_thread s"
  "RQ_head (enable_interrupt s) = RQ_head s" "RQ_head (disable_interrupt s) = RQ_head s"
  "RQ_tail (enable_interrupt s) = RQ_tail s" "RQ_tail (disable_interrupt s) = RQ_tail s"
  by (subst enable_disable_upd, simp)+

lemma masking_frame_files [simp]:
  "files (enable_interrupt s) = files s" "files (disable_interrupt s) = files s"
  "vnodes (enable_interrupt s) = vnodes s" "vnodes (disable_interrupt s) = vnodes s"
  "inodes (enable_interrupt s) = inodes s" "inodes (disable_interrupt s) = inodes s"
  "rinodes (enable_interrupt s) = rinodes s" "rinodes (disable_interrupt s) = rinodes s"
  "mounts (enable_interrupt s) = mounts s" "mounts (disable_interrupt s) = mounts s"
  "rootfs (enable_interrupt s) = rootfs s" "rootfs (disable_interrupt s) = rootfs s"
  "reg_fs (enable_interrupt s) = reg_fs s" "reg_fs (disable_interrupt s) = reg_fs s"
  "reg_dev (enable_interrupt s) = reg_dev s" "reg_dev (disable_interrupt s) = reg_dev s"
  "SAFE_DEMO (enable_interrupt s) = SAFE_DEMO s" "SAFE_DEMO (disable_interrupt s) = SAFE_DEMO s"
  "fb_pitch (enable_interrupt s) = fb_pitch s" "fb_pitch (disable_interrupt s) = fb_pitch s"
  "fb_height (enable_interrupt s) = fb_height s" "fb_height (disable_interrupt s) = fb_height s"
  "lfb (enable_interrupt s) = lfb s" "lfb (disable_interrupt s) = lfb s"
  "fb_width (enable_interrupt s) = fb_width s" "fb_width (disable_interrupt s) = fb_width s"
  "fb_isrgb (enable_interrupt s) = fb_isrgb s" "fb_isrgb (disable_interrupt s) = fb_isrgb s"
  "pt (enable_interrupt s) = pt s" "pt (disable_interrupt s) = pt s"
  "CPIO_DEFAULT_END (enable_interrupt s) = CPIO_DEFAULT_END s" "CPIO_DEFAULT_END (disable_interrupt s) = CPIO_DEFAULT_END s"
  "dtb_base (enable_interrupt s) = dtb_base s" "dtb_base (disable_interrupt s) = dtb_base s"
  "CPIO_DEFAULT_START (enable_interrupt s) = CPIO_DEFAULT_START s"
  "CPIO_DEFAULT_START (disable_interrupt s) = CPIO_DEFAULT_START s"
  by (subst enable_disable_upd, simp)+

text \<open>A balanced section: the counter comes back, and interrupts are unmasked at the end exactly
  when the section is the outermost one.\<close>

lemma enable_cnt: "nested_interrupt_cnt (enable_interrupt s) =
    (if nested_interrupt_cnt s = 0 then 0 else nested_interrupt_cnt s - 1)"
  by (simp add: enable_interrupt_def Let_def word_neq_0_conv)

lemma disable_cnt: "nested_interrupt_cnt (disable_interrupt s) = nested_interrupt_cnt s + 1"
  by (simp add: disable_interrupt_def Let_def)

section \<open>Memory calls\<close>

text \<open>\<open>kmalloc\<close> and \<open>kfree\<close> with their interrupt section.  \<open>None\<close> is an index out of bounds inside the
  allocator.\<close>

definition kalloc :: "32 word \<Rightarrow> kern \<Rightarrow> (kern \<times> addr) option" where
  "kalloc sz s =
     (let s0 = disable_interrupt s in
      case kmalloc sz (mem s0) of None \<Rightarrow> None
      | Some (m, a) \<Rightarrow> Some (enable_interrupt (s0\<lparr>mem := m\<rparr>), a))"

text \<open>Callers write through the result of \<open>kmalloc\<close> without a test; \<open>None\<close> also covers the null
  result they would write through.\<close>

definition knew :: "32 word \<Rightarrow> kern \<Rightarrow> (kern \<times> addr) option" where
  "knew sz s = (case kalloc sz s of None \<Rightarrow> None | Some (s1, a) \<Rightarrow> if a = 0 then None else Some (s1, a))"

definition krelease :: "addr \<Rightarrow> kern \<Rightarrow> kern option" where
  "krelease a s =
     (if a = 0 then Some s
      else
        (let s0 = disable_interrupt s in
         case kfree a (mem s0) of None \<Rightarrow> None
         | Some m \<Rightarrow> Some (enable_interrupt (s0\<lparr>mem := m\<rparr>))))"

section \<open>Messages\<close>

text \<open>\<open>uart_sendline\<close> with a literal message; none of them contains a conversion.\<close>

definition ascii :: "string \<Rightarrow> 8 word list" where
  "ascii = map (\<lambda>c. of_nat (of_char c))"

definition crnl :: string where "crnl = [CHR 0x0D, CHR 0x0A]"

definition klog :: "string \<Rightarrow> kern \<Rightarrow> kern" where
  "klog msg s = s\<lparr>con := fold uart_send (crlf (ascii msg)) (con s)\<rparr>"

definition klog_hex :: "64 word \<Rightarrow> kern \<Rightarrow> kern" where
  "klog_hex v s = s\<lparr>con := fold uart_send (hex_text v) (con s)\<rparr>"

text \<open>\<open>uart_sendline\<close> with a string that comes from the user as its format; \<open>None\<close> when the string's
  conversions read arguments that were not passed, or the buffer is left without a terminator.\<close>

definition klog_text :: "string \<Rightarrow> kern \<Rightarrow> kern option" where
  "klog_text msg s = (case uart_sendline (ascii msg) [] (con s) of Inl _ \<Rightarrow> None | Inr c \<Rightarrow> Some (s\<lparr>con := c\<rparr>))"

section \<open>What the memory calls keep\<close>

text \<open>The state without the allocator, the console and the interrupt mask.\<close>

definition quiet :: "kern \<Rightarrow> kern" where
  "quiet s = s\<lparr>mem := undefined, con := undefined, nested_interrupt_cnt := 0, irq_masked := False\<rparr>"

lemma quiet_frame [simp]:
  "quiet (enable_interrupt s) = quiet s" "quiet (disable_interrupt s) = quiet s"
  "quiet (s\<lparr>mem := m\<rparr>) = quiet s" "quiet (klog msg s) = quiet s" "quiet (klog_hex v s) = quiet s"
  by (subst enable_disable_upd, simp add: quiet_def, subst enable_disable_upd, simp add: quiet_def,
      simp_all add: quiet_def klog_def klog_hex_def)

lemma klog_mem [simp]: "mem (klog msg s) = mem s" "mem (klog_hex v s) = mem s"
  by (simp_all add: klog_def klog_hex_def)

text \<open>Equal quiet parts: every field but those four agrees.\<close>

lemma quiet_sel:
  "itasks (quiet s) = itasks s" "task_head (quiet s) = task_head s"
    "task_tail (quiet s) = task_tail s" "curr_task_priority (quiet s) = curr_task_priority s"
    "tevents (quiet s) = tevents s" "timer_head (quiet s) = timer_head s"
    "timer_tail (quiet s) = timer_tail s" "cntpct (quiet s) = cntpct s"
    "cntfrq (quiet s) = cntfrq s" "timer_cval (quiet s) = timer_cval s"
    "threads (quiet s) = threads s" "curr_thread (quiet s) = curr_thread s"
    "RQ_head (quiet s) = RQ_head s" "RQ_tail (quiet s) = RQ_tail s" "words (quiet s) = words s"
    "bytes (quiet s) = bytes s" "files (quiet s) = files s" "vnodes (quiet s) = vnodes s"
    "inodes (quiet s) = inodes s" "rinodes (quiet s) = rinodes s" "mounts (quiet s) = mounts s" "rootfs (quiet s) = rootfs s"
    "reg_fs (quiet s) = reg_fs s" "reg_dev (quiet s) = reg_dev s" "fb_pitch (quiet s) = fb_pitch s"
    "fb_height (quiet s) = fb_height s" "lfb (quiet s) = lfb s"
    "fb_width (quiet s) = fb_width s" "fb_isrgb (quiet s) = fb_isrgb s" "pt (quiet s) = pt s" "CPIO_DEFAULT_END (quiet s) = CPIO_DEFAULT_END s" "dtb_base (quiet s) = dtb_base s"
    "CPIO_DEFAULT_START (quiet s) = CPIO_DEFAULT_START s" "SAFE_DEMO (quiet s) = SAFE_DEMO s"
  by (simp_all add: quiet_def)

lemma quietD:
  assumes "quiet s' = quiet s"
  shows "itasks s' = itasks s" "task_head s' = task_head s" "task_tail s' = task_tail s"
    "curr_task_priority s' = curr_task_priority s" "tevents s' = tevents s"
    "timer_head s' = timer_head s" "timer_tail s' = timer_tail s" "cntpct s' = cntpct s"
    "cntfrq s' = cntfrq s" "timer_cval s' = timer_cval s" "threads s' = threads s"
    "curr_thread s' = curr_thread s" "RQ_head s' = RQ_head s" "RQ_tail s' = RQ_tail s"
    "words s' = words s" "bytes s' = bytes s" "files s' = files s" "vnodes s' = vnodes s"
    "inodes s' = inodes s" "rinodes s' = rinodes s" "mounts s' = mounts s" "rootfs s' = rootfs s"
    "reg_fs s' = reg_fs s" "reg_dev s' = reg_dev s" "fb_pitch s' = fb_pitch s"
    "fb_height s' = fb_height s" "lfb s' = lfb s"
    "fb_width s' = fb_width s" "fb_isrgb s' = fb_isrgb s" "pt s' = pt s" "CPIO_DEFAULT_END s' = CPIO_DEFAULT_END s" "dtb_base s' = dtb_base s"
    "CPIO_DEFAULT_START s' = CPIO_DEFAULT_START s" "SAFE_DEMO s' = SAFE_DEMO s"
  using arg_cong[OF assms, of itasks] arg_cong[OF assms, of task_head] arg_cong[OF assms, of task_tail]
  arg_cong[OF assms, of curr_task_priority] arg_cong[OF assms, of tevents]
  arg_cong[OF assms, of timer_head] arg_cong[OF assms, of timer_tail] arg_cong[OF assms, of cntpct]
  arg_cong[OF assms, of cntfrq] arg_cong[OF assms, of timer_cval] arg_cong[OF assms, of threads]
  arg_cong[OF assms, of curr_thread] arg_cong[OF assms, of RQ_head] arg_cong[OF assms, of RQ_tail]
  arg_cong[OF assms, of words] arg_cong[OF assms, of bytes] arg_cong[OF assms, of files]
  arg_cong[OF assms, of vnodes] arg_cong[OF assms, of inodes] arg_cong[OF assms, of rinodes] arg_cong[OF assms, of mounts]
  arg_cong[OF assms, of rootfs] arg_cong[OF assms, of reg_fs] arg_cong[OF assms, of reg_dev]
  arg_cong[OF assms, of fb_pitch] arg_cong[OF assms, of fb_height] arg_cong[OF assms, of lfb]
  arg_cong[OF assms, of fb_width] arg_cong[OF assms, of fb_isrgb] arg_cong[OF assms, of pt] arg_cong[OF assms, of CPIO_DEFAULT_END] arg_cong[OF assms, of dtb_base]
  arg_cong[OF assms, of CPIO_DEFAULT_START] arg_cong[OF assms, of SAFE_DEMO]
  by (simp_all only: quiet_sel)

end
