(* ===== verification/Kheap.thy ===== *)
theory Kheap
  imports Heap Kstate
begin

text \<open>
  The allocator as the rest of the kernel calls it: \<open>kalloc\<close> and \<open>krelease\<close> on the kernel state
  satisfy the heap interface again, and keep everything but the allocator and the interrupt mask.
\<close>

lemma kalloc_SomeD:
  assumes "kalloc n s = Some (s', a)"
  obtains "kmalloc n (mem s) = Some (mem s', a)" "quiet s' = quiet s" "con s' = con s"
    "nested_interrupt_cnt s' = nested_interrupt_cnt (enable_interrupt (disable_interrupt s))"
proof -
  obtain m where m: "kmalloc n (mem s) = Some (m, a)"
    "s' = enable_interrupt ((disable_interrupt s)\<lparr>mem := m\<rparr>)"
    using assms by (auto simp: kalloc_def Let_def split: option.splits)
  show thesis by (rule that) (simp_all add: m enable_cnt)
qed

lemma krelease_SomeD:
  assumes "krelease a s = Some s'" "a \<noteq> 0"
  obtains "kfree a (mem s) = Some (mem s')" "quiet s' = quiet s" "con s' = con s"
    "nested_interrupt_cnt s' = nested_interrupt_cnt (enable_interrupt (disable_interrupt s))"
proof -
  obtain m where m: "kfree a (mem s) = Some m" "s' = enable_interrupt ((disable_interrupt s)\<lparr>mem := m\<rparr>)"
    using assms by (auto simp: krelease_def Let_def split: option.splits)
  show thesis by (rule that) (simp_all add: m enable_cnt)
qed

lemma cnt_balanced [simp]:
  "nested_interrupt_cnt s \<noteq> -1 \<Longrightarrow>
    nested_interrupt_cnt (enable_interrupt (disable_interrupt s)) = nested_interrupt_cnt s"
  by (simp add: enable_cnt disable_cnt add_eq_0_iff2)

lemma kalloc_Some: "kmalloc n (mem s) = Some (m, a) \<Longrightarrow> \<exists>s'. kalloc n s = Some (s', a)"
  by (simp add: kalloc_def Let_def)

lemma krelease_Some: "a \<noteq> 0 \<Longrightarrow> kfree a (mem s) = Some m \<Longrightarrow> \<exists>s'. krelease a s = Some s'"
  by (simp add: krelease_def Let_def)

definition heap_ok :: "kern \<Rightarrow> bool" where
  "heap_ok s \<longleftrightarrow> kmem_inv (mem s)"

definition kblocks :: "kern \<Rightarrow> addr set" where
  "kblocks s = blocks (mem s)"

definition kextent :: "kern \<Rightarrow> addr \<Rightarrow> nat set" where
  "kextent s = block_extent (mem s)"

interpretation kh: heap heap_ok kblocks kextent 0 bytes_from request_ok kalloc krelease
proof unfold_locales
  fix s :: kern and a b :: addr and n :: "32 word" and s'
  assume ok: "heap_ok s"
  then have inv: "kmem_inv (mem s)" by (simp add: heap_ok_def)
  note defs = heap_ok_def kblocks_def kextent_def
  show "0 \<notin> kblocks s" using kheap.null_dead[OF inv] by (simp add: defs)
  show "a \<in> kblocks s \<Longrightarrow> b \<in> kblocks s \<Longrightarrow> a \<noteq> b \<Longrightarrow> kextent s a \<inter> kextent s b = {}"
    using kheap.extent_disjoint[OF inv] by (simp add: defs)
  show "request_ok n \<Longrightarrow> \<exists>s' a. kalloc n s = Some (s', a)"
    using kheap.alloc_total[OF inv] kalloc_Some by metis
  show "heap_ok s'" if "request_ok n" "kalloc n s = Some (s', a)"
    using that(2) by (rule kalloc_SomeD) (simp add: defs kheap.alloc_inv[OF inv that(1)])
  show "kblocks s' = kblocks s" if "request_ok n" "kalloc n s = Some (s', 0)"
    using that(2) by (rule kalloc_SomeD) (simp add: defs kheap.alloc_null[OF inv that(1)])
  show "a \<notin> kblocks s \<and> kblocks s' = insert a (kblocks s)"
    if "request_ok n" "kalloc n s = Some (s', a)" "a \<noteq> 0"
    using that(2) by (rule kalloc_SomeD) (use kheap.alloc_fresh[OF inv that(1) _ that(3)] in \<open>simp add: defs\<close>)
  show "bytes_from a n \<subseteq> kextent s' a" if "request_ok n" "kalloc n s = Some (s', a)" "a \<noteq> 0"
    using that(2) by (rule kalloc_SomeD) (use kheap.alloc_bytes[OF inv that(1) _ that(3)] in \<open>simp add: defs\<close>)
  show "kextent s' b = kextent s b" if "request_ok n" "kalloc n s = Some (s', a)" "b \<in> kblocks s"
    using that(2) by (rule kalloc_SomeD) (use kheap.alloc_frame[OF inv that(1)] that(3) in \<open>simp add: defs\<close>)
  show "\<exists>s'. krelease a s = Some s' \<and> heap_ok s' \<and> kblocks s' = kblocks s - {a}" if a: "a \<in> kblocks s"
  proof -
    have nz: "a \<noteq> 0" using kheap.null_dead[OF inv] a by (auto simp: defs)
    have "a \<in> blocks (mem s)" using a by (simp only: kblocks_def)
    from kheap.free_ok[OF inv this] obtain m where
      m: "kfree a (mem s) = Some m" "kmem_inv m" "blocks m = blocks (mem s) - {a}" by blast
    then obtain s' where s': "krelease a s = Some s'" using krelease_Some[OF nz] by blast
    from s' nz have "mem s' = m" by (rule krelease_SomeD) (use m(1) in simp)
    with s' m(2,3) show ?thesis by (simp add: defs)
  qed
  show "kextent s' b = kextent s b" if "a \<in> kblocks s" "krelease a s = Some s'" "b \<in> kblocks s" "b \<noteq> a"
  proof -
    have nz: "a \<noteq> 0" using kheap.null_dead[OF inv] that(1) by (auto simp: defs)
    from that(2) nz show ?thesis
      by (rule krelease_SomeD) (use kheap.free_frame[OF inv] that in \<open>simp add: defs\<close>)
  qed
qed

text \<open>What the callers use.\<close>

lemma knew_spec:
  assumes "heap_ok s" "request_ok n" "knew n s = Some (s', a)"
  shows "heap_ok s'" "a \<noteq> 0" "a \<notin> kblocks s" "kblocks s' = insert a (kblocks s)"
    "quiet s' = quiet s" "con s' = con s" "bytes_from a n \<subseteq> kextent s' a"
    "\<And>b. b \<in> kblocks s \<Longrightarrow> kextent s' b = kextent s b"
    "nested_interrupt_cnt s \<noteq> -1 \<Longrightarrow> nested_interrupt_cnt s' = nested_interrupt_cnt s"
proof -
  have k: "kalloc n s = Some (s', a)" "a \<noteq> 0" using assms(3) by (auto simp: knew_def split: option.splits if_splits)
  show "heap_ok s'" using kh.alloc_inv[OF assms(1,2) k(1)] .
  show "a \<noteq> 0" by (rule k(2))
  show "a \<notin> kblocks s" "kblocks s' = insert a (kblocks s)" using kh.alloc_fresh[OF assms(1,2) k] by simp_all
  show "bytes_from a n \<subseteq> kextent s' a" using kh.alloc_bytes[OF assms(1,2) k] .
  show "\<And>b. b \<in> kblocks s \<Longrightarrow> kextent s' b = kextent s b" using kh.alloc_frame[OF assms(1,2) k(1)] .
  show "quiet s' = quiet s" "con s' = con s"
    "nested_interrupt_cnt s \<noteq> -1 \<Longrightarrow> nested_interrupt_cnt s' = nested_interrupt_cnt s"
    using k(1) by (auto elim: kalloc_SomeD)
qed

lemma krelease_spec:
  assumes "heap_ok s" "a \<in> kblocks s"
  obtains s' where "krelease a s = Some s'" "heap_ok s'" "kblocks s' = kblocks s - {a}"
    "quiet s' = quiet s" "con s' = con s"
    "\<And>b. b \<in> kblocks s \<Longrightarrow> b \<noteq> a \<Longrightarrow> kextent s' b = kextent s b"
    "nested_interrupt_cnt s \<noteq> -1 \<Longrightarrow> nested_interrupt_cnt s' = nested_interrupt_cnt s"
proof -
  obtain s' where s': "krelease a s = Some s'" "heap_ok s'" "kblocks s' = kblocks s - {a}"
    using kh.free_ok[OF assms] by blast
  have nz: "a \<noteq> 0" using kh.null_dead[OF assms(1)] assms(2) by auto
  show thesis
    by (rule krelease_SomeD[OF s'(1) nz], rule that[OF s'])
      (use kh.free_frame[OF assms s'(1)] in auto)
qed

text \<open>Heap facts depend on the allocator only.\<close>

lemma heap_cong:
  assumes "mem s' = mem s"
  shows "heap_ok s' = heap_ok s" "kblocks s' = kblocks s" "kextent s' = kextent s"
  using assms by (simp_all add: heap_ok_def kblocks_def kextent_def)

lemma heap_masking [simp]:
  "heap_ok (enable_interrupt s) = heap_ok s" "heap_ok (disable_interrupt s) = heap_ok s"
  "kblocks (enable_interrupt s) = kblocks s" "kblocks (disable_interrupt s) = kblocks s"
  "kextent (enable_interrupt s) = kextent s" "kextent (disable_interrupt s) = kextent s"
  by (simp_all add: heap_ok_def kblocks_def kextent_def)

section \<open>Room\<close>

text \<open>With a free frame left, a request of at most a frame succeeds and takes one frame.\<close>

definition roomy :: "nat \<Rightarrow> kern \<Rightarrow> bool" where
  "roomy n s \<longleftrightarrow> n \<le> card (free_frames (mem s))"

lemma size2order_frame:
  assumes "sz \<noteq> 0" "unat sz \<le> 4096"
  shows "size2order sz = 0"
proof (rule ccontr)
  assume "size2order sz \<noteq> 0"
  moreover have "\<forall>j < size2order sz. FRAME_SIZE * 2 ^ j < unat sz"
    using size2order_least[OF assms(1)] assms(2) by simp
  ultimately have "FRAME_SIZE * 2 ^ 0 < unat sz" by blast
  then show False using assms(2) by (simp add: FRAME_SIZE_def)
qed

lemma knew_room:
  assumes ok: "heap_ok s" and rm: "roomy (Suc n) s" and sz: "sz \<noteq> 0" "unat sz \<le> 4096"
  obtains s' a where "knew sz s = Some (s', a)" "roomy n s'"
proof -
  have inv: "kmem_inv (mem s)" using ok by (simp add: heap_ok_def)
  have c: "Suc n \<le> card (free_frames (mem s))" using rm by (simp add: roomy_def)
  then have fin: "finite (free_frames (mem s))" by (metis card.infinite not_less_eq_eq zero_le)
  obtain i where "i \<in> free_frames (mem s)" using c by fastforce
  note o = size2order_frame[OF sz]
  have "2 ^ size2order sz dvd i" "frames i (size2order sz) \<subseteq> free_frames (mem s)" "size2order sz \<le> MAX_ORDER"
    using \<open>i \<in> free_frames (mem s)\<close> by (simp_all add: o frames_def)
  from malloc_b_complete[OF inv sz(1) this] obtain m a where
    m: "malloc_b sz (mem s) = (m, a)" "page_post sz (mem s) m a" by blast
  from m(2) obtain b where b: "a \<noteq> 0" "frames b 0 \<subseteq> free_frames (mem s)" "free_frames m = free_frames (mem s) - frames b 0"
    unfolding page_post_def Let_def o by blast
  have "b \<in> free_frames (mem s)" "free_frames m = free_frames (mem s) - {b}" using b by (simp_all add: frames_def)
  then have "Suc (card (free_frames m)) = card (free_frames (mem s))" using fin by (metis card_Suc_Diff1)
  then have r: "n \<le> card (free_frames m)" using c by simp
  have "kmalloc sz (mem s) = Some (m, a)" using kmalloc_page[OF sz(1)] m(1) by simp
  then have "knew sz s = Some (enable_interrupt ((disable_interrupt s)\<lparr>mem := m\<rparr>), a)"
    using b(1) by (simp add: knew_def kalloc_def Let_def)
  then show thesis by (rule that) (simp add: roomy_def r)
qed

end
