(* ===== verification/Sentinel.thy ===== *)
theory Sentinel
  imports Prelude
begin

text \<open>
  The interface of a priority queue kept as a doubly linked list between two sentinel nodes: the
  interrupt task queue and the timer list.  The provider promises what its search, its linking
  and its unlinking do to the pointer fields; the client gets that the list always holds the
  expected sequence, sorted by key and first-in first-out among equal keys.
\<close>

section \<open>Chains\<close>

text \<open>From the node \<open>c\<close> the \<open>nxt\<close> pointers lead through \<open>xs\<close> and the \<open>prv\<close> pointers lead back.\<close>

primrec chain :: "('a \<Rightarrow> 'a ptr) \<Rightarrow> ('a \<Rightarrow> 'a ptr) \<Rightarrow> 'a \<Rightarrow> 'a list \<Rightarrow> bool" where
  "chain nxt prv c [] = True"
| "chain nxt prv c (x # xs) = (nxt c = Some x \<and> prv x = Some c \<and> chain nxt prv x xs)"

lemma chain_append: "chain nxt prv c (us @ vs) \<longleftrightarrow> chain nxt prv c us \<and> chain nxt prv (last (c # us)) vs"
  by (induction us arbitrary: c) auto

lemma chain_cong:
  assumes "\<And>y. y \<in> set (butlast (c # xs)) \<Longrightarrow> nxt' y = nxt y" "\<And>y. y \<in> set xs \<Longrightarrow> prv' y = prv y"
  shows "chain nxt' prv' c xs = chain nxt prv c xs"
  using assms
proof (induction xs arbitrary: c)
  case (Cons x xs)
  have "nxt' c = nxt c" "prv' x = prv x" using Cons.prems by simp_all
  moreover have "chain nxt' prv' x xs = chain nxt prv x xs"
    by (rule Cons.IH) (use Cons.prems in \<open>auto split: if_splits\<close>)
  ultimately show ?case by simp
qed simp

lemma last_in_front: "last (c # us) \<in> set (c # us)"
  by (rule last_in_set) simp

lemma chain_link:
  assumes ch: "chain nxt prv c (us @ n # vs)" and d: "distinct (c # us @ n # vs)" "x \<notin> set (c # us @ n # vs)"
    and nx: "\<And>y. nxt' y = (if y = x then Some n else if y = last (c # us) then Some x else nxt y)"
    and pv: "\<And>y. prv' y = (if y = x then Some (last (c # us)) else if y = n then Some x else prv y)"
  shows "chain nxt' prv' c (us @ x # n # vs)"
proof -
  let ?p = "last (c # us)"
  have c: "chain nxt prv c us" "chain nxt prv n vs" using ch by (simp_all add: chain_append)
  have p: "?p \<in> set (c # us)" by (rule last_in_front)
  have "?p \<notin> set (butlast (c # us))" using d(1) by (intro distinct_last_notin_butlast) simp_all
  then have "nxt' y = nxt y" if y: "y \<in> set (butlast (c # us))" for y
  proof -
    have "y \<in> set (c # us)" "y \<noteq> ?p" using y \<open>?p \<notin> _\<close> by (auto dest: in_set_butlastD simp del: butlast.simps)
    moreover have "y \<noteq> x" using calculation(1) d(2) by auto
    ultimately show ?thesis using nx[of y] by simp
  qed
  moreover have "y \<in> set us \<Longrightarrow> prv' y = prv y" for y using d pv[of y] by auto
  ultimately have 1: "chain nxt' prv' c us" using c(1) by (subst chain_cong[where nxt = nxt and prv = prv])
  have "y \<in> set (butlast (n # vs)) \<Longrightarrow> nxt' y = nxt y" for y
    using d p nx[of y] in_set_butlastD[of y "n # vs"] by auto
  moreover have "y \<in> set vs \<Longrightarrow> prv' y = prv y" for y using d pv[of y] by auto
  ultimately have 2: "chain nxt' prv' n vs" using c(2) by (subst chain_cong[where nxt = nxt and prv = prv])
  have "n \<noteq> x" "?p \<noteq> x" using d(2) p by auto
  then show ?thesis using 1 2 nx pv by (simp add: chain_append)
qed

lemma chain_unlink:
  assumes ch: "chain nxt prv c (us @ x # n # vs)" and d: "distinct (c # us @ x # n # vs)"
    and nx: "\<And>y. y \<noteq> x \<Longrightarrow> nxt' y = (if y = last (c # us) then Some n else nxt y)"
    and pv: "\<And>y. y \<noteq> x \<Longrightarrow> prv' y = (if y = n then Some (last (c # us)) else prv y)"
  shows "chain nxt' prv' c (us @ n # vs)"
proof -
  let ?p = "last (c # us)"
  have c: "chain nxt prv c us" "chain nxt prv n vs" using ch by (simp_all add: chain_append)
  have p: "?p \<in> set (c # us)" by (rule last_in_front)
  have "?p \<notin> set (butlast (c # us))" using d by (intro distinct_last_notin_butlast) simp_all
  then have "nxt' y = nxt y" if y: "y \<in> set (butlast (c # us))" for y
  proof -
    have "y \<in> set (c # us)" "y \<noteq> ?p" using y \<open>?p \<notin> _\<close> by (auto dest: in_set_butlastD simp del: butlast.simps)
    moreover have "y \<noteq> x" using calculation(1) d by auto
    ultimately show ?thesis using nx[of y] by simp
  qed
  moreover have "prv' y = prv y" if y: "y \<in> set us" for y
  proof -
    have "y \<noteq> x" "y \<noteq> n" using y d by auto
    then show ?thesis using pv by simp
  qed
  ultimately have 1: "chain nxt' prv' c us" using c(1) by (subst chain_cong[where nxt = nxt and prv = prv])
  have "nxt' y = nxt y" if y: "y \<in> set (butlast (n # vs))" for y
  proof -
    have "y \<in> set (n # vs)" using y by (rule in_set_butlastD)
    then have "y \<noteq> x" "y \<noteq> ?p" using d p by auto
    then show ?thesis using nx by simp
  qed
  moreover have "prv' y = prv y" if y: "y \<in> set vs" for y
  proof -
    have "y \<noteq> x" "y \<noteq> n" using y d by auto
    then show ?thesis using pv by simp
  qed
  ultimately have 2: "chain nxt' prv' n vs" using c(2) by (subst chain_cong[where nxt = nxt and prv = prv])
  have "n \<noteq> x" "?p \<noteq> x" using d p by auto
  then show ?thesis using 1 2 nx[of ?p] pv[of n] by (simp add: chain_append)
qed

section \<open>Stable insertion by key\<close>

definition ins_by :: "('a \<Rightarrow> 'k::linorder) \<Rightarrow> 'a \<Rightarrow> 'a list \<Rightarrow> 'a list" where
  "ins_by f x xs = takeWhile (\<lambda>y. f y \<le> f x) xs @ x # dropWhile (\<lambda>y. f y \<le> f x) xs"

lemma set_ins_by [simp]: "set (ins_by f x xs) = insert x (set xs)"
  unfolding ins_by_def by (metis Un_insert_right list.simps(15) set_append takeWhile_dropWhile_id)

lemma length_ins_by: "length (ins_by f x xs) = Suc (length xs)"
proof -
  have "length (takeWhile (\<lambda>y. f y \<le> f x) xs) + length (dropWhile (\<lambda>y. f y \<le> f x) xs) = length xs"
    by (simp only: length_append[symmetric] takeWhile_dropWhile_id)
  then show ?thesis by (simp add: ins_by_def)
qed

lemma distinct_ins_by: "distinct xs \<Longrightarrow> x \<notin> set xs \<Longrightarrow> distinct (ins_by f x xs)"
  unfolding ins_by_def
  by (metis distinct.simps(2) distinct_append takeWhile_dropWhile_id Un_iff disjoint_insert(1) list.simps(15) set_append)

lemma sorted_ins_by:
  assumes "sorted (map f xs)"
  shows "sorted (map f (ins_by f x xs))"
proof -
  let ?P = "\<lambda>y. f y \<le> f x"
  have t: "sorted (map f (takeWhile ?P xs))" "sorted (map f (dropWhile ?P xs))"
    using assms takeWhile_dropWhile_id[of ?P xs] by (metis map_append sorted_append)+
  have "f x \<le> f y" if "y \<in> set (dropWhile ?P xs)" for y
  proof -
    have ne: "dropWhile ?P xs \<noteq> []" using that by (metis empty_iff list.set(1))
    have h: "\<not> f (hd (dropWhile ?P xs)) \<le> f x" using hd_dropWhile[OF ne] .
    have "f (hd (dropWhile ?P xs)) \<le> f y"
      using t(2) that ne by (cases "dropWhile ?P xs") (auto simp: sorted_iff_nth_mono_less)
    with h show ?thesis by simp
  qed
  moreover have "f y \<le> f x" if "y \<in> set (takeWhile ?P xs)" for y using set_takeWhileD[OF that] by simp
  ultimately show ?thesis using t by (force simp: ins_by_def sorted_append)
qed

lemma ins_by_cong: "(\<And>y. y \<in> insert x (set xs) \<Longrightarrow> f y = g y) \<Longrightarrow> ins_by f x xs = ins_by g x xs"
  unfolding ins_by_def by (intro arg_cong2[where f = "(@)"] arg_cong2[where f = Cons] takeWhile_cong dropWhile_cong) auto

section \<open>The interface\<close>

locale sentinel_queue =
  fixes nxt :: "'s \<Rightarrow> 'a \<Rightarrow> 'a ptr" and prv :: "'s \<Rightarrow> 'a \<Rightarrow> 'a ptr" and key :: "'s \<Rightarrow> 'a \<Rightarrow> 'k::linorder"
    and front :: "'s \<Rightarrow> 'a" and rear :: "'s \<Rightarrow> 'a"
    and seek :: "'s \<Rightarrow> 'k \<Rightarrow> 'a \<Rightarrow> 'a option" and link :: "'a \<Rightarrow> 'a \<Rightarrow> 's \<Rightarrow> 's" and unlink :: "'a \<Rightarrow> 's \<Rightarrow> 's"
  assumes seek_end: "nxt s c = Some (rear s) \<Longrightarrow> seek s k c = Some c"
    and seek_stop: "nxt s c = Some n \<Longrightarrow> n \<noteq> rear s \<Longrightarrow> k < key s n \<Longrightarrow> seek s k c = Some c"
    and seek_on: "nxt s c = Some n \<Longrightarrow> n \<noteq> rear s \<Longrightarrow> \<not> k < key s n \<Longrightarrow> seek s k c = seek s k n"
    and link_ends: "front (link c x s) = front s" "rear (link c x s) = rear s" "key (link c x s) = key s"
    and link_nxt: "nxt s c = Some n \<Longrightarrow> x \<noteq> c \<Longrightarrow> x \<noteq> n \<Longrightarrow> n \<noteq> c \<Longrightarrow>
        nxt (link c x s) y = (if y = x then Some n else if y = c then Some x else nxt s y)"
    and link_prv: "nxt s c = Some n \<Longrightarrow> x \<noteq> c \<Longrightarrow> x \<noteq> n \<Longrightarrow> n \<noteq> c \<Longrightarrow>
        prv (link c x s) y = (if y = x then Some c else if y = n then Some x else prv s y)"
    and unlink_ends: "front (unlink x s) = front s" "rear (unlink x s) = rear s" "key (unlink x s) = key s"
    and first_nxt: "nxt s (front s) = Some x \<Longrightarrow> prv s x = Some (front s) \<Longrightarrow> nxt s x = Some n \<Longrightarrow>
        x \<noteq> front s \<Longrightarrow> n \<noteq> x \<Longrightarrow> n \<noteq> front s \<Longrightarrow> y \<noteq> x \<Longrightarrow>
        nxt (unlink x s) y = (if y = front s then Some n else nxt s y)"
    and first_prv: "nxt s (front s) = Some x \<Longrightarrow> prv s x = Some (front s) \<Longrightarrow> nxt s x = Some n \<Longrightarrow>
        x \<noteq> front s \<Longrightarrow> n \<noteq> x \<Longrightarrow> n \<noteq> front s \<Longrightarrow> y \<noteq> x \<Longrightarrow>
        prv (unlink x s) y = (if y = n then Some (front s) else prv s y)"
begin

definition rep :: "'s \<Rightarrow> 'a list \<Rightarrow> bool" where
  "rep s xs \<longleftrightarrow> distinct (front s # xs @ [rear s]) \<and> chain (nxt s) (prv s) (front s) (xs @ [rear s])"

definition ordered :: "'s \<Rightarrow> 'a list \<Rightarrow> bool" where
  "ordered s xs \<longleftrightarrow> rep s xs \<and> sorted (map (key s) xs)"

lemma rep_unique:
  assumes "rep s xs" "rep s ys"
  shows "xs = ys"
proof -
  have "chain (nxt s) (prv s) c (xs @ [b]) \<Longrightarrow> chain (nxt s) (prv s) c (ys @ [b]) \<Longrightarrow>
      b \<notin> set xs \<Longrightarrow> b \<notin> set ys \<Longrightarrow> xs = ys" for c b
  proof (induction xs arbitrary: c ys)
    case Nil
    then show ?case by (cases ys) auto
  next
    case (Cons x xs)
    then show ?case by (cases ys) auto
  qed
  with assms show ?thesis unfolding rep_def by auto
qed

lemma rep_first: "rep s xs \<Longrightarrow> nxt s (front s) = Some (hd (xs @ [rear s]))"
  by (cases xs) (auto simp: rep_def)

lemma rep_empty: "rep s xs \<Longrightarrow> nxt s (front s) = Some (rear s) \<longleftrightarrow> xs = []"
  by (cases xs) (auto simp: rep_def)

lemma rep_cong:
  assumes "rep s xs" and "front s' = front s" "rear s' = rear s"
    and "\<And>y. y \<in> insert (front s) (set xs) \<Longrightarrow> nxt s' y = nxt s y"
    and "\<And>y. y \<in> insert (rear s) (set xs) \<Longrightarrow> prv s' y = prv s y"
  shows "rep s' xs"
proof -
  have "chain (nxt s') (prv s') (front s) (xs @ [rear s]) = chain (nxt s) (prv s) (front s) (xs @ [rear s])"
    by (rule chain_cong) (use assms(4,5) in auto)
  with assms(1-3) show ?thesis by (simp add: rep_def)
qed

lemma rep_linked:
  assumes "rep s xs" "x \<in> set xs"
  shows "prv s x \<noteq> None \<and> nxt s x \<noteq> None"
proof -
  obtain us ws where xs: "xs = us @ x # ws" using assms(2) by (meson split_list)
  obtain n vs where w: "ws @ [rear s] = n # vs" by (cases "ws @ [rear s]") auto
  have "chain (nxt s) (prv s) (front s) (us @ x # n # vs)" using assms(1) by (simp add: rep_def xs w)
  then show ?thesis by (simp add: chain_append)
qed

lemma seek_chain:
  "chain (nxt s) (prv s) c (ys @ [rear s]) \<Longrightarrow> rear s \<notin> set ys \<Longrightarrow>
    seek s k c = Some (last (c # takeWhile (\<lambda>y. key s y \<le> k) ys))"
proof (induction ys arbitrary: c)
  case Nil
  then show ?case by (simp add: seek_end)
next
  case (Cons y ys)
  then have n: "nxt s c = Some y" "y \<noteq> rear s" by auto
  show ?case
  proof (cases "k < key s y")
    case True
    then have "\<not> key s y \<le> k" by simp
    with seek_stop[OF n True] show ?thesis by simp
  next
    case False
    then have "key s y \<le> k" by simp
    with seek_on[OF n False] Cons show ?thesis by simp
  qed
qed

text \<open>Searching and linking inserts the new node after the last node whose key is not greater.\<close>

lemma insert_rep:
  assumes rep: "rep s xs" and x: "x \<noteq> front s" "x \<noteq> rear s" "x \<notin> set xs"
  obtains c where "seek s (key s x) (front s) = Some c" "c \<in> insert (front s) (set xs)"
    "rep (link c x s) (ins_by (key s) x xs)" "nxt s c = Some (hd (dropWhile (\<lambda>y. key s y \<le> key s x) xs @ [rear s]))"
proof -
  let ?P = "\<lambda>y. key s y \<le> key s x"
  let ?us = "takeWhile ?P xs" and ?ws = "dropWhile ?P xs @ [rear s]"
  let ?c = "last (front s # ?us)"
  obtain n vs where w: "?ws = n # vs" by (cases ?ws) auto
  have xs: "xs @ [rear s] = ?us @ n # vs" using w by (metis append.assoc takeWhile_dropWhile_id)
  have d: "distinct (front s # ?us @ n # vs)" and ch: "chain (nxt s) (prv s) (front s) (?us @ n # vs)"
    using rep unfolding rep_def xs by simp_all
  have xn: "x \<notin> set (front s # ?us @ n # vs)" using x unfolding xs[symmetric] by simp
  have c: "nxt s ?c = Some n" using ch by (simp add: chain_append)
  have sk: "seek s (key s x) (front s) = Some ?c"
    using seek_chain[of s "front s" xs] rep by (simp add: rep_def)
  have "?c \<in> set (front s # ?us)" by (rule last_in_front)
  then have cin: "?c \<in> insert (front s) (set xs)" using set_takeWhileD[of ?c ?P xs] by auto
  have ne: "x \<noteq> ?c" "x \<noteq> n" "n \<noteq> ?c" using xn d last_in_front[of "front s" ?us] by auto
  have "chain (nxt (link ?c x s)) (prv (link ?c x s)) (front s) (?us @ x # n # vs)"
    using chain_link[OF ch d xn] link_nxt[OF c ne] link_prv[OF c ne] by blast
  moreover have "distinct (front s # ?us @ x # n # vs)" using d xn by auto
  ultimately have "rep (link ?c x s) (ins_by (key s) x xs)"
    unfolding rep_def link_ends ins_by_def w[symmetric] by (simp add: w[symmetric])
  with sk cin c that w show thesis by simp
qed

lemma insert_ordered:
  assumes ord: "ordered s xs" and x: "x \<noteq> front s" "x \<noteq> rear s" "x \<notin> set xs"
  obtains c where "seek s (key s x) (front s) = Some c" "c \<in> insert (front s) (set xs)"
    "ordered (link c x s) (ins_by (key s) x xs)" "nxt s c = Some (hd (dropWhile (\<lambda>y. key s y \<le> key s x) xs @ [rear s]))"
proof -
  have "rep s xs" "sorted (map (key s) xs)" using ord by (simp_all add: ordered_def)
  with insert_rep[OF this(1) x] that sorted_ins_by show thesis unfolding ordered_def link_ends by metis
qed

text \<open>Taking the first node out.\<close>

lemma unlink_first:
  assumes rep: "rep s (x # xs)"
  shows "rep (unlink x s) xs"
proof -
  obtain n vs where w: "xs @ [rear s] = n # vs" by (cases "xs @ [rear s]") auto
  have d: "distinct (front s # [] @ x # n # vs)" and ch: "chain (nxt s) (prv s) (front s) ([] @ x # n # vs)"
    using rep unfolding rep_def append_Cons w by simp_all
  have f: "nxt s (front s) = Some x" "prv s x = Some (front s)" "nxt s x = Some n" "x \<noteq> front s" "n \<noteq> x" "n \<noteq> front s"
    using ch d by auto
  have "chain (nxt (unlink x s)) (prv (unlink x s)) (front s) ([] @ n # vs)"
    by (rule chain_unlink[OF ch d]) (simp_all add: first_nxt[OF f] first_prv[OF f])
  with d show ?thesis unfolding rep_def unlink_ends w by simp
qed

lemma unlink_first_ordered: "ordered s (x # xs) \<Longrightarrow> ordered (unlink x s) xs"
  using unlink_first unfolding ordered_def by (simp add: unlink_ends)

end

text \<open>A list that can also give up a node in its middle.\<close>

locale sentinel_list = sentinel_queue nxt prv key front rear seek link unlink
  for nxt :: "'s \<Rightarrow> 'a \<Rightarrow> 'a ptr" and prv and key :: "'s \<Rightarrow> 'a \<Rightarrow> 'k::linorder" and front rear seek link unlink +
  assumes mid_nxt: "prv s x = Some p \<Longrightarrow> nxt s x = Some n \<Longrightarrow> p \<noteq> x \<Longrightarrow> n \<noteq> x \<Longrightarrow> n \<noteq> p \<Longrightarrow> y \<noteq> x \<Longrightarrow>
        nxt (unlink x s) y = (if y = p then Some n else nxt s y)"
    and mid_prv: "prv s x = Some p \<Longrightarrow> nxt s x = Some n \<Longrightarrow> p \<noteq> x \<Longrightarrow> n \<noteq> x \<Longrightarrow> n \<noteq> p \<Longrightarrow> y \<noteq> x \<Longrightarrow>
        prv (unlink x s) y = (if y = n then Some p else prv s y)"
begin

lemma unlink_rep:
  assumes rep: "rep s xs" and x: "x \<in> set xs"
  shows "rep (unlink x s) (remove1 x xs)"
proof -
  obtain us ws where xs: "xs = us @ x # ws" "x \<notin> set us" using x by (meson split_list_first)
  obtain n vs where w: "ws @ [rear s] = n # vs" by (cases "ws @ [rear s]") auto
  have e: "xs @ [rear s] = us @ x # n # vs" using xs w by simp
  have d: "distinct (front s # us @ x # n # vs)" and ch: "chain (nxt s) (prv s) (front s) (us @ x # n # vs)"
    using rep unfolding rep_def e by simp_all
  have f: "prv s x = Some (last (front s # us))" "nxt s x = Some n" using ch by (simp_all add: chain_append)
  have ne: "last (front s # us) \<noteq> x" "n \<noteq> x" "n \<noteq> last (front s # us)"
    using d last_in_front[of "front s" us] by auto
  have "chain (nxt (unlink x s)) (prv (unlink x s)) (front s) (us @ n # vs)"
    by (rule chain_unlink[OF ch d]) (erule mid_nxt[OF f ne], erule mid_prv[OF f ne])
  moreover have "remove1 x xs @ [rear s] = us @ n # vs" using xs w by (simp add: remove1_middle)
  ultimately show ?thesis using d unfolding rep_def unlink_ends by simp
qed

lemma unlink_ordered: "ordered s xs \<Longrightarrow> x \<in> set xs \<Longrightarrow> ordered (unlink x s) (remove1 x xs)"
  using unlink_rep sorted_map_remove1[of "key s" xs x] unfolding ordered_def by (simp add: unlink_ends)

end

end
