(* ===== verification/Timer.thy ===== *)
theory Timer
  imports Kheap Sentinel
begin

text \<open>
  The software timers of \<open>kernel/src/timer.c\<close>: events between two sentinels, sorted by the tick they
  are due at, and the comparator of the generic timer.  A tick counter read is the field \<open>cntpct\<close>,
  which the hardware advances between the kernel's steps.  A write to \<open>cntp_tval_el0\<close> sets the
  comparator to the counter plus the low 32 bits of the value, taken as a signed number.  A string
  argument is the list of its bytes.  \<open>None\<close> is a write through a null pointer or a wait that
  never ends.
\<close>

section \<open>The list of events\<close>

definition set_event :: "(timer_event_t \<Rightarrow> timer_event_t) \<Rightarrow> addr \<Rightarrow> kern \<Rightarrow> kern" where
  "set_event f a s = s\<lparr>tevents := (tevents s)(a := f (tevents s a))\<rparr>"

definition timer_list_init :: "kern \<Rightarrow> kern option" where
  "timer_list_init s =
     (case knew 40 s of None \<Rightarrow> None | Some (s1, h) \<Rightarrow>
      case knew 40 s1 of None \<Rightarrow> None | Some (s2, t) \<Rightarrow>
        (let s3 = s2\<lparr>timer_head := h, timer_tail := t\<rparr>;
             s4 = set_event (\<lambda>e. e\<lparr>te_next := Some t, te_prev := Some h\<rparr>) h s3;
             s5 = set_event (\<lambda>e. e\<lparr>te_next := Some t, te_prev := Some h\<rparr>) t s4;
             s6 = set_event (\<lambda>e. e\<lparr>te_time := 0\<rparr>) h s5
         in Some (set_event (\<lambda>e. e\<lparr>te_time := 0xFFFFFFFFFFFFFFFF\<rparr>) t s6)))"

definition is_timer_list_empty :: "kern \<Rightarrow> bool" where
  "is_timer_list_empty s \<longleftrightarrow> te_next (tevents s (timer_head s)) = Some (timer_tail s)"

partial_function (option) timer_seek :: "kern \<Rightarrow> 64 word \<Rightarrow> addr \<Rightarrow> addr option" where
  "timer_seek s t c =
     (case te_next (tevents s c) of None \<Rightarrow> None
      | Some n \<Rightarrow> if n = timer_tail s then Some c
          else if te_time (tevents s n) > t then Some c else timer_seek s t n)"

definition timer_link :: "addr \<Rightarrow> addr \<Rightarrow> kern \<Rightarrow> kern" where
  "timer_link c a s =
     (let n = te_next (tevents s c);
          s1 = set_event (\<lambda>e. e\<lparr>te_next := n, te_prev := Some c\<rparr>) a s;
          s2 = (case n of None \<Rightarrow> s1 | Some m \<Rightarrow> set_event (\<lambda>e. e\<lparr>te_prev := Some a\<rparr>) m s1)
      in set_event (\<lambda>e. e\<lparr>te_next := Some a\<rparr>) c s2)"

definition timer_unlink :: "addr \<Rightarrow> kern \<Rightarrow> kern" where
  "timer_unlink a s =
     (case (te_prev (tevents s a), te_next (tevents s a)) of
        (Some p, Some n) \<Rightarrow> set_event (\<lambda>e. e\<lparr>te_prev := Some p\<rparr>) n (set_event (\<lambda>e. e\<lparr>te_next := Some n\<rparr>) p s)
      | _ \<Rightarrow> s)"

section \<open>Ticks and the comparator\<close>

definition get_tick_plus_s :: "64 word \<Rightarrow> kern \<Rightarrow> 64 word" where
  "get_tick_plus_s second s = cntpct s + cntfrq s * second"

definition set_core_timer_interrupt :: "64 word \<Rightarrow> kern \<Rightarrow> kern" where
  "set_core_timer_interrupt expired_time s =
     s\<lparr>timer_cval := cntpct s + scast (ucast (cntfrq s * expired_time) :: 32 word)\<rparr>"

definition set_core_timer_interrupt_by_tick :: "64 word \<Rightarrow> kern \<Rightarrow> kern" where
  "set_core_timer_interrupt_by_tick tick s = s\<lparr>timer_cval := tick\<rparr>"

definition core_timer_enable :: "kern \<Rightarrow> kern" where "core_timer_enable s = s\<lparr>core_timer_on := True\<rparr>"
definition core_timer_disable :: "kern \<Rightarrow> kern" where "core_timer_disable s = s\<lparr>core_timer_on := False\<rparr>"

section \<open>Adding and running timers\<close>

primrec put_bytes :: "addr \<Rightarrow> 8 word list \<Rightarrow> Cstring.mem \<Rightarrow> Cstring.mem" where
  "put_bytes p [] m = m"
| "put_bytes p (x # xs) m = put_bytes (p + 1) xs (m(p := x))"

definition add_timer :: "kfun \<Rightarrow> 64 word \<Rightarrow> 8 word list \<Rightarrow> bool \<Rightarrow> kern \<Rightarrow> kern option" where
  "add_timer callback timeout args bytick s =
     (case knew 40 s of None \<Rightarrow> None | Some (s1, a) \<Rightarrow>
      case knew (of_nat (length args + 1)) s1 of None \<Rightarrow> None | Some (s2, p) \<Rightarrow>
        (let s3 = s2\<lparr>bytes := put_bytes p (args @ [0]) (bytes s2)\<rparr>;
             t = (if \<not> bytick then get_tick_plus_s timeout s3 else get_tick_plus_s 0 s3 + timeout);
             s4 = set_event (\<lambda>e. e\<lparr>te_args := p, te_time := t, te_callback := callback\<rparr>) a s3;
             s5 = disable_interrupt s4
         in case timer_seek s5 t (timer_head s5) of None \<Rightarrow> None
            | Some c \<Rightarrow>
                (let s6 = timer_link c a s5;
                     s7 = (if te_next (tevents s6 (timer_head s6)) = Some a
                           then set_core_timer_interrupt_by_tick t s6 else s6)
                 in Some (enable_interrupt s7))))"

definition schedule_timer :: "kern \<Rightarrow> kern option" where
  "schedule_timer s = add_timer Schedule_timer (drop_bit 5 (cntfrq s)) [] True s"

text \<open>The callbacks the kernel registers: \<open>schedule_timer\<close>, and \<open>uart_puts\<close> with the message.\<close>

definition timer_call :: "kfun \<Rightarrow> addr \<Rightarrow> kern \<Rightarrow> kern option" where
  "timer_call callback args s =
     (case callback of
        Schedule_timer \<Rightarrow> schedule_timer s
      | Uart_puts \<Rightarrow>
          (case get_text (bytes s) args of None \<Rightarrow> None | Some msg \<Rightarrow>
             (case uart_puts msg [] (con s) of Inr (Inr c) \<Rightarrow> Some (s\<lparr>con := c\<rparr>) | _ \<Rightarrow> None))
      | _ \<Rightarrow> None)"

text \<open>An event that is not linked on both sides would be an access through the null pointer.\<close>

definition timer_event_callback :: "addr \<Rightarrow> kern \<Rightarrow> kern option" where
  "timer_event_callback e s =
     (case timer_call (te_callback (tevents s e)) (te_args (tevents s e)) s of None \<Rightarrow> None
      | Some s1 \<Rightarrow>
          if te_prev (tevents s1 e) = None \<or> te_next (tevents s1 e) = None then None
          else (let s2 = timer_unlink e s1 in
           case krelease (te_args (tevents s2 e)) s2 of None \<Rightarrow> None | Some s3 \<Rightarrow>
           case krelease e s3 of None \<Rightarrow> None | Some s4 \<Rightarrow>
             if \<not> is_timer_list_empty s4 then
               (case te_next (tevents s4 (timer_head s4)) of None \<Rightarrow> None
                | Some n \<Rightarrow> Some (set_core_timer_interrupt_by_tick (te_time (tevents s4 n)) s4))
             else Some (set_core_timer_interrupt 10000 s4)))"

definition core_timer_handler :: "kern \<Rightarrow> kern option" where
  "core_timer_handler s =
     (let s0 = disable_interrupt s in
      if is_timer_list_empty s0 then Some (enable_interrupt (set_core_timer_interrupt 10000 s0))
      else case te_next (tevents s0 (timer_head s0)) of None \<Rightarrow> None
        | Some e \<Rightarrow> (case timer_event_callback e s0 of None \<Rightarrow> None | Some s1 \<Rightarrow> Some (enable_interrupt s1)))"

section \<open>The list as a sorted sentinel list\<close>

lemma set_event_sel [simp]:
  "tevents (set_event f a s) = (tevents s)(a := f (tevents s a))"
  "timer_head (set_event f a s) = timer_head s" "timer_tail (set_event f a s) = timer_tail s"
  "mem (set_event f a s) = mem s" "timer_cval (set_event f a s) = timer_cval s"
  "cntpct (set_event f a s) = cntpct s" "cntfrq (set_event f a s) = cntfrq s"
  by (simp_all add: set_event_def)

definition ev_next :: "kern \<Rightarrow> addr \<Rightarrow> addr ptr" where "ev_next s a = te_next (tevents s a)"
definition ev_prev :: "kern \<Rightarrow> addr \<Rightarrow> addr ptr" where "ev_prev s a = te_prev (tevents s a)"
definition ev_time :: "kern \<Rightarrow> addr \<Rightarrow> 64 word" where "ev_time s a = te_time (tevents s a)"

lemmas ev_defs = ev_next_def ev_prev_def ev_time_def

lemma timer_seek_unfold: "ev_next s c = Some n \<Longrightarrow> timer_seek s t c =
    (if n = timer_tail s then Some c else if ev_time s n > t then Some c else timer_seek s t n)"
  by (subst timer_seek.simps) (simp add: ev_defs)

interpretation tl: sentinel_list ev_next ev_prev ev_time timer_head timer_tail timer_seek timer_link timer_unlink
proof unfold_locales
  fix s :: kern and c n x p y :: addr and k :: "64 word"
  show "ev_next s c = Some (timer_tail s) \<Longrightarrow> timer_seek s k c = Some c"
    by (simp add: timer_seek_unfold)
  show "ev_next s c = Some n \<Longrightarrow> n \<noteq> timer_tail s \<Longrightarrow> k < ev_time s n \<Longrightarrow> timer_seek s k c = Some c"
    by (simp add: timer_seek_unfold)
  show "ev_next s c = Some n \<Longrightarrow> n \<noteq> timer_tail s \<Longrightarrow> \<not> k < ev_time s n \<Longrightarrow>
      timer_seek s k c = timer_seek s k n"
    by (simp add: timer_seek_unfold)
  show "timer_head (timer_link c x s) = timer_head s" "timer_tail (timer_link c x s) = timer_tail s"
    by (simp_all add: timer_link_def Let_def split: option.split)
  show "ev_time (timer_link c x s) = ev_time s"
    by (auto simp: timer_link_def Let_def ev_time_def fun_eq_iff split: option.split)
  show "ev_next s c = Some n \<Longrightarrow> x \<noteq> c \<Longrightarrow> x \<noteq> n \<Longrightarrow> n \<noteq> c \<Longrightarrow>
      ev_next (timer_link c x s) y = (if y = x then Some n else if y = c then Some x else ev_next s y)"
    by (simp add: timer_link_def Let_def ev_defs)
  show "ev_next s c = Some n \<Longrightarrow> x \<noteq> c \<Longrightarrow> x \<noteq> n \<Longrightarrow> n \<noteq> c \<Longrightarrow>
      ev_prev (timer_link c x s) y = (if y = x then Some c else if y = n then Some x else ev_prev s y)"
    by (simp add: timer_link_def Let_def ev_defs)
  show "timer_head (timer_unlink x s) = timer_head s" "timer_tail (timer_unlink x s) = timer_tail s"
    by (simp_all add: timer_unlink_def split: option.split)
  show "ev_time (timer_unlink x s) = ev_time s"
    by (auto simp: timer_unlink_def ev_time_def fun_eq_iff split: option.split)
  have nx: "ev_prev s x = Some p \<Longrightarrow> ev_next s x = Some n \<Longrightarrow> n \<noteq> p \<Longrightarrow>
      ev_next (timer_unlink x s) y = (if y = p then Some n else ev_next s y)" for p
    by (simp add: timer_unlink_def ev_defs)
  have pv: "ev_prev s x = Some p \<Longrightarrow> ev_next s x = Some n \<Longrightarrow> n \<noteq> p \<Longrightarrow>
      ev_prev (timer_unlink x s) y = (if y = n then Some p else ev_prev s y)" for p
    by (simp add: timer_unlink_def ev_defs)
  show "ev_next s (timer_head s) = Some x \<Longrightarrow> ev_prev s x = Some (timer_head s) \<Longrightarrow> ev_next s x = Some n \<Longrightarrow>
      x \<noteq> timer_head s \<Longrightarrow> n \<noteq> x \<Longrightarrow> n \<noteq> timer_head s \<Longrightarrow> y \<noteq> x \<Longrightarrow>
      ev_next (timer_unlink x s) y = (if y = timer_head s then Some n else ev_next s y)"
    using nx by simp
  show "ev_next s (timer_head s) = Some x \<Longrightarrow> ev_prev s x = Some (timer_head s) \<Longrightarrow> ev_next s x = Some n \<Longrightarrow>
      x \<noteq> timer_head s \<Longrightarrow> n \<noteq> x \<Longrightarrow> n \<noteq> timer_head s \<Longrightarrow> y \<noteq> x \<Longrightarrow>
      ev_prev (timer_unlink x s) y = (if y = n then Some (timer_head s) else ev_prev s y)"
    using pv by simp
  show "ev_prev s x = Some p \<Longrightarrow> ev_next s x = Some n \<Longrightarrow> p \<noteq> x \<Longrightarrow> n \<noteq> x \<Longrightarrow> n \<noteq> p \<Longrightarrow> y \<noteq> x \<Longrightarrow>
      ev_next (timer_unlink x s) y = (if y = p then Some n else ev_next s y)"
    using nx by simp
  show "ev_prev s x = Some p \<Longrightarrow> ev_next s x = Some n \<Longrightarrow> p \<noteq> x \<Longrightarrow> n \<noteq> x \<Longrightarrow> n \<noteq> p \<Longrightarrow> y \<noteq> x \<Longrightarrow>
      ev_prev (timer_unlink x s) y = (if y = n then Some p else ev_prev s y)"
    using pv by simp
qed

end
