(* ===== verification/Timer_Inv.thy ===== *)
theory Timer_Inv
  imports Timer
begin

text \<open>
  The timer list as a client of the heap and of the sorted sentinel list: its invariant, and what
  adding a timer and running the timer interrupt do to it.
\<close>

section \<open>The invariant\<close>

text \<open>The list holds the events \<open>xs\<close>; the sentinels, the events and their arguments are different
  live blocks.\<close>

definition ev_args :: "kern \<Rightarrow> addr \<Rightarrow> addr" where "ev_args s a = te_args (tevents s a)"
definition ev_call :: "kern \<Rightarrow> addr \<Rightarrow> kfun" where "ev_call s a = te_callback (tevents s a)"

definition timer_blocks :: "kern \<Rightarrow> addr list \<Rightarrow> addr list" where
  "timer_blocks s xs = timer_head s # timer_tail s # xs @ map (ev_args s) xs"

definition timers_at :: "kern \<Rightarrow> addr list \<Rightarrow> bool" where
  "timers_at s xs \<longleftrightarrow> heap_ok s \<and> tl.ordered s xs \<and> distinct (timer_blocks s xs) \<and>
     set (timer_blocks s xs) \<subseteq> kblocks s"

text \<open>Only the events, the sentinels and the heap matter.\<close>

lemma timers_at_cong:
  assumes "timers_at s xs" "tevents s' = tevents s" "timer_head s' = timer_head s" "timer_tail s' = timer_tail s"
    and "heap_ok s'" "set (timer_blocks s xs) \<subseteq> kblocks s'"
  shows "timers_at s' xs"
proof -
  have "ev_next s' = ev_next s" "ev_prev s' = ev_prev s" "ev_time s' = ev_time s" "ev_args s' = ev_args s"
    using assms(2) by (simp_all add: fun_eq_iff ev_defs ev_args_def)
  moreover from this have "timer_blocks s' xs = timer_blocks s xs" using assms(3,4) by (simp add: timer_blocks_def)
  ultimately show ?thesis using assms unfolding timers_at_def tl.ordered_def tl.rep_def by simp
qed

lemma timers_at_mem: "timers_at s xs \<Longrightarrow> tevents s' = tevents s \<Longrightarrow> timer_head s' = timer_head s \<Longrightarrow>
    timer_tail s' = timer_tail s \<Longrightarrow> mem s' = mem s \<Longrightarrow> timers_at s' xs"
  by (rule timers_at_cong) (auto simp: timers_at_def heap_cong[of s' s])

lemma timers_at_unique: "timers_at s xs \<Longrightarrow> timers_at s ys \<Longrightarrow> xs = ys"
  unfolding timers_at_def tl.ordered_def using tl.rep_unique by blast

lemma timers_at_empty: "timers_at s xs \<Longrightarrow> is_timer_list_empty s \<longleftrightarrow> xs = []"
  using tl.rep_empty[of s xs] unfolding timers_at_def tl.ordered_def is_timer_list_empty_def ev_next_def by blast

lemma ordered_first:
  assumes "tl.ordered s ys" "ys \<noteq> []"
  shows "te_next (tevents s (timer_head s)) = Some (hd ys)"
proof -
  have "ev_next s (timer_head s) = Some (hd (ys @ [timer_tail s]))"
    using assms(1) tl.rep_first by (simp add: tl.ordered_def)
  then show ?thesis using assms(2) unfolding ev_next_def by simp
qed

lemma timers_at_first: "timers_at s (x # xs) \<Longrightarrow> te_next (tevents s (timer_head s)) = Some x"
  using ordered_first[of s "x # xs"] by (simp add: timers_at_def)

lemma request_small [simp]: "0 < n \<Longrightarrow> n \<le> 65536 \<Longrightarrow> request_ok (of_nat n)"
  by (simp add: request_ok_def unsigned_of_nat take_bit_nat_eq_self of_nat_eq_0_iff
      word_of_nat_eq_0_iff nat_dvd_not_less)

lemma request_40 [simp]: "request_ok 40" "request_ok 32" "request_ok 16" "request_ok 56"
  by (simp_all add: request_ok_def)

text \<open>Either \<open>kmalloc\<close> answers null, or \<open>knew\<close> gives an address.\<close>

lemma knew_total:
  assumes "heap_ok s" "request_ok n"
  shows "(\<exists>s'. kalloc n s = Some (s', 0)) \<or> (\<exists>s' a. knew n s = Some (s', a))"
proof -
  obtain s' a where "kalloc n s = Some (s', a)" using kh.alloc_total[OF assms] by blast
  then show ?thesis by (cases "a = 0") (auto simp: knew_def)
qed

section \<open>Initialisation\<close>

lemma timer_list_init_at:
  assumes ok: "heap_ok s" and "timer_list_init s = Some s'"
  shows "timers_at s' [] \<and> kblocks s \<subseteq> kblocks s' \<and> con s' = con s"
proof -
  obtain s1 h s2 t where k: "knew 40 s = Some (s1, h)" "knew 40 s1 = Some (s2, t)"
    using assms(2) by (auto simp: timer_list_init_def split: option.splits)
  note n1 = knew_spec[OF ok request_40(1) k(1)]
  note n2 = knew_spec[OF n1(1) request_40(1) k(2)]
  have ht: "h \<noteq> t" using n1(4) n2(3) by auto
  have s': "timer_head s' = h" "timer_tail s' = t" "mem s' = mem s2" "con s' = con s2"
    "ev_next s' h = Some t" "ev_prev s' t = Some h"
    using assms(2) k ht by (auto simp: timer_list_init_def Let_def ev_defs set_event_def)
  have "tl.ordered s' []" unfolding tl.ordered_def tl.rep_def using s' ht by simp
  then show ?thesis using s' ht n1(4,6) n2(1,4,6) heap_cong[OF s'(3)]
    by (auto simp: timers_at_def timer_blocks_def)
qed

section \<open>Adding a timer\<close>

lemma ordered_cong:
  assumes "tl.ordered s xs" "timer_head s' = timer_head s" "timer_tail s' = timer_tail s"
    and "\<And>y. y \<in> set (timer_head s # timer_tail s # xs) \<Longrightarrow> tevents s' y = tevents s y"
  shows "tl.ordered s' xs"
proof -
  have r: "tl.rep s xs" "sorted (map (ev_time s) xs)" using assms(1) by (simp_all add: tl.ordered_def)
  have "tl.rep s' xs" by (rule tl.rep_cong[OF r(1)]) (use assms in \<open>auto simp: ev_defs\<close>)
  moreover have "map (ev_time s') xs = map (ev_time s) xs" using assms(4) by (simp add: ev_defs)
  ultimately show ?thesis using r(2) unfolding tl.ordered_def by metis
qed

lemma timer_link_fields [simp]:
  "mem (timer_link c a s) = mem s" "ev_args (timer_link c a s) = ev_args s"
  "ev_call (timer_link c a s) = ev_call s" "timer_head (timer_link c a s) = timer_head s"
  "timer_tail (timer_link c a s) = timer_tail s" "cntpct (timer_link c a s) = cntpct s"
  "timer_cval (timer_link c a s) = timer_cval s" "ev_time (timer_link c a s) = ev_time s"
  by (auto simp: timer_link_def Let_def ev_args_def ev_call_def ev_time_def fun_eq_iff split: option.split)

lemma timer_unlink_fields [simp]:
  "mem (timer_unlink a s) = mem s" "ev_args (timer_unlink a s) = ev_args s"
  "ev_call (timer_unlink a s) = ev_call s" "timer_head (timer_unlink a s) = timer_head s"
  "timer_tail (timer_unlink a s) = timer_tail s" "ev_time (timer_unlink a s) = ev_time s"
  by (auto simp: timer_unlink_def ev_args_def ev_call_def ev_time_def fun_eq_iff split: option.split)

text \<open>The tick a new timer is due at.\<close>

definition due :: "64 word \<Rightarrow> bool \<Rightarrow> kern \<Rightarrow> 64 word" where
  "due timeout bytick s = cntpct s + (if bytick then timeout else cntfrq s * timeout)"

text \<open>The event filled in, with interrupts off, and the state once it is linked after \<open>c\<close>.\<close>

definition armed :: "kfun \<Rightarrow> 64 word \<Rightarrow> 8 word list \<Rightarrow> addr \<Rightarrow> addr \<Rightarrow> kern \<Rightarrow> kern" where
  "armed cb t args a p s = disable_interrupt (set_event (\<lambda>e. e\<lparr>te_args := p, te_time := t, te_callback := cb\<rparr>) a
     (s\<lparr>bytes := put_bytes p (args @ [0]) (bytes s)\<rparr>))"

definition linked :: "64 word \<Rightarrow> addr \<Rightarrow> addr \<Rightarrow> kern \<Rightarrow> kern" where
  "linked t a c s = (let s6 = timer_link c a s in enable_interrupt
     (if te_next (tevents s6 (timer_head s6)) = Some a then set_core_timer_interrupt_by_tick t s6 else s6))"

lemma add_timer_alloc:
  assumes "knew 40 s = Some (s1, a)" "knew (of_nat (length args + 1)) s1 = Some (s2, p)"
    and "s5 = armed cb (due timeout bytick s2) args a p s2"
  shows "add_timer cb timeout args bytick s =
    map_option (\<lambda>c. linked (due timeout bytick s2) a c s5) (timer_seek s5 (due timeout bytick s2) (timer_head s5))"
proof -
  let ?s3 = "s2\<lparr>bytes := put_bytes p (args @ [0]) (bytes s2)\<rparr>"
  have t: "(if \<not> bytick then get_tick_plus_s timeout ?s3 else get_tick_plus_s 0 ?s3 + timeout) = due timeout bytick s2"
    by (simp add: due_def get_tick_plus_s_def)
  show ?thesis unfolding add_timer_def assms(1,2) option.case prod.case Let_def t armed_def[symmetric] assms(3)[symmetric]
    by (simp add: linked_def Let_def split: option.split)
qed

lemma armed_fields:
  assumes "quiet s1 = quiet s" "quiet s2 = quiet s1"
  shows "timer_head (armed cb t args a p s2) = timer_head s" "timer_tail (armed cb t args a p s2) = timer_tail s"
    "mem (armed cb t args a p s2) = mem s2" "con (armed cb t args a p s2) = con s2"
    "tevents (armed cb t args a p s2) = (tevents s)(a := (tevents s a)\<lparr>te_args := p, te_time := t, te_callback := cb\<rparr>)"
    "timer_cval (armed cb t args a p s2) = timer_cval s" "cntpct (armed cb t args a p s2) = cntpct s"
    "cntfrq (armed cb t args a p s2) = cntfrq s"
  by (simp_all add: armed_def quietD[OF assms(1)] quietD[OF assms(2)], simp_all add: set_event_def)

lemma due_quiet: "quiet s1 = quiet s \<Longrightarrow> quiet s2 = quiet s1 \<Longrightarrow> due timeout bytick s2 = due timeout bytick s"
  by (simp add: due_def quietD[of s2 s1] quietD[of s1 s])

lemma armed_ordered:
  assumes "tl.ordered s xs" "a \<notin> set (timer_head s # timer_tail s # xs)" "quiet s1 = quiet s" "quiet s2 = quiet s1"
  shows "tl.ordered (armed cb t args a p s2) xs"
proof (rule ordered_cong[OF assms(1)])
  show "tevents (armed cb t args a p s2) y = tevents s y" if "y \<in> set (timer_head s # timer_tail s # xs)" for y
    using that assms(2) by (cases "y = a") (simp_all add: armed_fields[OF assms(3,4)])
qed (simp_all add: armed_fields[OF assms(3,4)])

definition add_timer_post :: "kfun \<Rightarrow> 64 word \<Rightarrow> bool \<Rightarrow> addr list \<Rightarrow> kern \<Rightarrow> kern \<Rightarrow> bool" where
  "add_timer_post cb timeout bytick xs s s' \<longleftrightarrow> (\<exists>a. a \<notin> kblocks s \<and> ev_call s' a = cb \<and>
     ev_time s' a = due timeout bytick s \<and> timers_at s' (ins_by (ev_time s') a xs) \<and>
     (\<forall>x \<in> set xs. ev_call s' x = ev_call s x \<and> ev_time s' x = ev_time s x \<and> ev_args s' x = ev_args s x) \<and>
     timer_cval s' = (if hd (ins_by (ev_time s') a xs) = a then due timeout bytick s else timer_cval s) \<and>
     kblocks s \<subseteq> kblocks s' \<and> cntpct s' = cntpct s \<and> cntfrq s' = cntfrq s \<and> con s' = con s \<and>
     set (timer_blocks s' (ins_by (ev_time s') a xs)) \<inter> kblocks s = set (timer_blocks s xs))"

lemma add_timer_at:
  assumes at: "timers_at s xs" and len: "length args < 65536" and r: "add_timer cb timeout args bytick s = Some s'"
  shows "add_timer_post cb timeout bytick xs s s'"
proof -
  obtain s1 a s2 p where k: "knew 40 s = Some (s1, a)" "knew (of_nat (length args + 1)) s1 = Some (s2, p)"
    using r by (auto simp: add_timer_def split: option.splits)
  have ok: "heap_ok s" using at by (simp add: timers_at_def)
  note n1 = knew_spec[OF ok request_40(1) k(1)]
  have rq: "request_ok (of_nat (length args + 1) :: 32 word)" by (rule request_small) (use len in simp_all)
  note n2 = knew_spec[OF n1(1) rq k(2)]
  note q1 = quietD[OF n1(5)] and q2 = quietD[OF n2(5)]
  let ?t = "due timeout bytick s"
  define s5 where "s5 = armed cb ?t args a p s2"
  note f5 = armed_fields[OF n1(5) n2(5), of cb ?t args a p, folded s5_def]
  have nx: "a \<notin> set (timer_blocks s xs)" "p \<notin> set (timer_blocks s xs)" "p \<noteq> a" "a \<notin> kblocks s"
    using at n1(3,4) n2(3,4) by (auto simp: timers_at_def)
  have k5: "ev_time s5 a = ?t" "ev_call s5 a = cb" "ev_args s5 a = p"
    "\<And>y. y \<noteq> a \<Longrightarrow> ev_time s5 y = ev_time s y \<and> ev_call s5 y = ev_call s y \<and> ev_args s5 y = ev_args s y"
    by (simp_all add: ev_defs ev_call_def ev_args_def f5)
  have an: "a \<noteq> timer_head s5" "a \<noteq> timer_tail s5" "a \<notin> set xs" using nx(1) f5 by (auto simp: timer_blocks_def)
  have "tl.ordered s5 xs"
    unfolding s5_def by (rule armed_ordered[OF _ _ n1(5) n2(5)]) (use at an f5 in \<open>auto simp: timers_at_def\<close>)
  from tl.insert_ordered[OF this an] obtain c where c: "timer_seek s5 ?t (timer_head s5) = Some c"
    "tl.ordered (timer_link c a s5) (ins_by (ev_time s5) a xs)"
    unfolding k5 by blast
  let ?s6 = "timer_link c a s5" and ?ys = "ins_by (ev_time s5) a xs"
  have "Some s' = Some (linked ?t a c s5)"
    using add_timer_alloc[OF k, of s5 cb timeout bytick] r c(1) by (simp add: due_quiet[OF n1(5) n2(5)] s5_def)
  then have s': "s' = enable_interrupt (if te_next (tevents ?s6 (timer_head ?s6)) = Some a
        then set_core_timer_interrupt_by_tick ?t ?s6 else ?s6)"
    by (simp add: linked_def Let_def)
  have f6: "tevents s' = tevents ?s6" "timer_head s' = timer_head s" "timer_tail s' = timer_tail s" "mem s' = mem s2"
    "cntpct s' = cntpct s" "cntfrq s' = cntfrq ?s6" "con s' = con ?s6"
    unfolding s' by (simp_all add: set_core_timer_interrupt_by_tick_def f5)
  have f7: "cntfrq ?s6 = cntfrq s" "con ?s6 = con s"
    by (simp_all add: timer_link_def Let_def set_event_def f5 n1(6) n2(6) split: option.split)
  have tm: "ev_time s' = ev_time s5" "ev_call s' = ev_call s5" "ev_args s' = ev_args s5"
  proof -
    have "ev_time s' = ev_time ?s6" "ev_call s' = ev_call ?s6" "ev_args s' = ev_args ?s6"
      by (simp_all only: fun_eq_iff ev_time_def ev_call_def ev_args_def f6(1) simp_thms)
    then show "ev_time s' = ev_time s5" "ev_call s' = ev_call s5" "ev_args s' = ev_args s5" by simp_all
  qed
  have "tl.ordered s' ?ys" by (rule ordered_cong[OF c(2)]) (simp_all add: f6 f5)
  moreover have kb: "kblocks s' = insert p (insert a (kblocks s))" "heap_ok s'"
    using n1(4) n2(1,4) heap_cong[OF f6(4)] by simp_all
  have "ev_args s5 ` set xs = ev_args s ` set xs" using k5(4) an(3) by (intro image_cong) metis+
  then have bl: "set (timer_blocks s' ?ys) = insert a (insert p (set (timer_blocks s xs)))"
    using k5(3) by (auto simp: timer_blocks_def f6 tm)
  have dist: "distinct (timer_blocks s' ?ys)"
  proof -
    have d: "distinct (timer_blocks s xs)" using at by (simp add: timers_at_def)
    have "card (set (timer_blocks s' ?ys)) = Suc (Suc (length (timer_blocks s xs)))"
      unfolding bl using nx distinct_card[OF d] by simp
    moreover have "length ?ys = Suc (length xs)"
      by (simp add: ins_by_def) (metis length_append takeWhile_dropWhile_id)
    ultimately show ?thesis by (intro card_distinct) (simp add: timer_blocks_def)
  qed
  ultimately have at': "timers_at s' ?ys" using at bl dist kb by (auto simp: timers_at_def)
  have "te_next (tevents ?s6 (timer_head ?s6)) = Some (hd ?ys)"
    by (rule ordered_first[OF c(2)]) (simp add: ins_by_def)
  then have cv: "timer_cval s' = (if hd ?ys = a then ?t else timer_cval s)"
    unfolding s' by (simp add: set_core_timer_interrupt_by_tick_def f5)
  have "p \<notin> kblocks s" using n1(4) n2(3) by blast
  then have own: "set (timer_blocks s' ?ys) \<inter> kblocks s = set (timer_blocks s xs)"
    using bl nx(4) at by (auto simp: timers_at_def)
  have "\<forall>x \<in> set xs. ev_call s5 x = ev_call s x \<and> ev_time s5 x = ev_time s x \<and> ev_args s5 x = ev_args s x" using k5(4) an(3) by metis
  then show ?thesis unfolding add_timer_post_def
    using at' cv nx(4) tm k5(1,2) f6(5-7) f7 kb(1) own
    by (intro exI[of _ a]) auto
qed

text \<open>It returns unless the allocator has nothing left: then \<open>kmalloc\<close> answers null and the code
  writes through it.\<close>

lemma add_timer_total:
  assumes at: "timers_at s xs" and len: "length args < 65536"
  shows "(\<exists>s'. add_timer cb timeout args bytick s = Some s') \<or> (\<exists>s'. kalloc 40 s = Some (s', 0)) \<or>
    (\<exists>s1 a s'. knew 40 s = Some (s1, a) \<and> kalloc (of_nat (length args + 1)) s1 = Some (s', 0))"
proof -
  have ok: "heap_ok s" using at by (simp add: timers_at_def)
  have rq: "request_ok (of_nat (length args + 1) :: 32 word)" by (rule request_small) (use len in simp_all)
  consider (null) s' where "kalloc 40 s = Some (s', 0)" | (one) s1 a where "knew 40 s = Some (s1, a)"
    using knew_total[OF ok request_40(1)] by blast
  then show ?thesis
  proof cases
    case one
    note n1 = knew_spec[OF ok request_40(1) one]
    consider (null) s' where "kalloc (of_nat (length args + 1)) s1 = Some (s', 0)"
      | (two) s2 p where "knew (of_nat (length args + 1)) s1 = Some (s2, p)"
      using knew_total[OF n1(1) rq] by blast
    then show ?thesis
    proof cases
      case two
      note n2 = knew_spec[OF n1(1) rq two]
      note q1 = quietD[OF n1(5)] and q2 = quietD[OF n2(5)]
      have "a \<notin> set (timer_blocks s xs)" using at n1(3) by (auto simp: timers_at_def)
      then have an: "a \<noteq> timer_head s" "a \<noteq> timer_tail s" "a \<notin> set xs" by (auto simp: timer_blocks_def)
      let ?t = "due timeout bytick s2"
      let ?s5 = "armed cb ?t args a p s2"
      note f5 = armed_fields[OF n1(5) n2(5), of cb ?t args a p]
      have "tl.ordered ?s5 xs"
        by (rule armed_ordered[OF _ _ n1(5) n2(5)]) (use at an in \<open>auto simp: timers_at_def\<close>)
      from tl.insert_ordered[OF this, of a] an obtain c where "timer_seek ?s5 (ev_time ?s5 a) (timer_head ?s5) = Some c"
        unfolding f5(1,2) by blast
      moreover have "ev_time ?s5 a = ?t" by (simp add: ev_time_def f5)
      ultimately show ?thesis using add_timer_alloc[OF one two refl] by simp
    qed (use one in blast)
  qed blast
qed

section \<open>The timer interrupt\<close>

text \<open>Finishing the event \<open>e\<close> once its callback has returned.\<close>

lemma timer_event_finish:
  assumes at: "timers_at s1 ys" and e: "e \<in> set ys"
  obtains s3 s4 where "krelease (ev_args s1 e) (timer_unlink e s1) = Some s3" "krelease e s3 = Some s4"
    "timers_at s4 (remove1 e ys)" "kblocks s4 = kblocks s1 - {e, ev_args s1 e}"
    "tevents s4 = tevents (timer_unlink e s1)" "con s4 = con s1" "cntpct s4 = cntpct s1" "cntfrq s4 = cntfrq s1"
    "timer_head s4 = timer_head s1" "timer_tail s4 = timer_tail s1"
proof -
  let ?p = "ev_args s1 e" and ?s2 = "timer_unlink e s1"
  have d: "distinct (timer_blocks s1 ys)" "set (timer_blocks s1 ys) \<subseteq> kblocks s1" "heap_ok s1" "tl.ordered s1 ys"
    using at by (simp_all add: timers_at_def)
  have "?p \<in> ev_args s1 ` set ys" using e by (rule imageI)
  then have pe: "?p \<in> kblocks s1" "e \<in> kblocks s1" "?p \<noteq> e"
    using d(1,2) e by (auto simp: timer_blocks_def simp del: image_eqI)
  have h2: "heap_ok ?s2" "kblocks ?s2 = kblocks s1" using d(3) heap_cong[of ?s2 s1] by simp_all
  obtain s3 where s3: "krelease ?p ?s2 = Some s3" "heap_ok s3" "kblocks s3 = kblocks s1 - {?p}" "quiet s3 = quiet ?s2"
    "con s3 = con ?s2" using krelease_spec[OF h2(1), of ?p] pe h2(2) by metis
  obtain s4 where s4: "krelease e s3 = Some s4" "heap_ok s4" "kblocks s4 = kblocks s3 - {e}" "quiet s4 = quiet s3"
    "con s4 = con s3" using krelease_spec[OF s3(2), of e] pe s3(3) by (metis Diff_iff empty_iff insert_iff)
  note q = quietD[OF trans[OF s4(4) s3(4)]]
  have kb: "kblocks s4 = kblocks s1 - {e, ?p}" using s3(3) s4(3) by blast
  have c2: "con ?s2 = con s1" "cntpct ?s2 = cntpct s1" "cntfrq ?s2 = cntfrq s1"
    by (simp_all add: timer_unlink_def set_event_def split: option.split)
  have o2: "tl.ordered ?s2 (remove1 e ys)" by (rule tl.unlink_ordered[OF d(4) e])
  have o4: "tl.ordered s4 (remove1 e ys)" by (rule ordered_cong[OF o2]) (simp_all add: q)
  have a4: "ev_args s4 = ev_args s1" using timer_unlink_fields(2)[of e s1]
    by (simp only: fun_eq_iff ev_args_def q simp_thms)
  obtain us vs where ys: "ys = us @ e # vs" "e \<notin> set us" using e by (meson split_list_first)
  have r: "remove1 e ys = us @ vs" using ys by (simp add: remove1_middle)
  have "distinct (timer_blocks s4 (us @ vs))" using d(1) ys by (auto simp: timer_blocks_def q a4)
  moreover have "set (timer_blocks s4 (us @ vs)) \<subseteq> kblocks s4"
  proof -
    have "set (timer_blocks s4 (us @ vs)) \<subseteq> set (timer_blocks s1 ys)" using ys by (auto simp: timer_blocks_def q a4)
    moreover have "e \<notin> set (timer_blocks s4 (us @ vs))" using d(1) ys by (simp add: timer_blocks_def q a4, metis)
    moreover have "?p \<notin> set (timer_blocks s4 (us @ vs))" using d(1) ys by (simp add: timer_blocks_def q a4, metis)
    ultimately show ?thesis using d(2) kb by blast
  qed
  ultimately have "timers_at s4 (remove1 e ys)" using s4(2) o4 by (simp add: timers_at_def r)
  moreover have "con s4 = con s1" "cntpct s4 = cntpct s1" "cntfrq s4 = cntfrq s1" using q c2 s3(5) s4(5) by simp_all
  moreover have "tevents s4 = tevents ?s2" "timer_head s4 = timer_head s1" "timer_tail s4 = timer_tail s1" by (simp_all add: q)
  ultimately show thesis using that[OF s3(1) s4(1) _ kb] by blast
qed

text \<open>The callbacks: \<open>schedule_timer\<close> adds itself again, \<open>uart_puts\<close> leaves the list alone.\<close>

lemma timer_call_at:
  assumes at: "timers_at s xs" and r: "timer_call cb p s = Some s1"
  shows "cb = Schedule_timer \<and> add_timer_post Schedule_timer (drop_bit 5 (cntfrq s)) True xs s s1 \<or>
    cb = Uart_puts \<and> timers_at s1 xs \<and> tevents s1 = tevents s \<and> kblocks s1 = kblocks s \<and>
      cntpct s1 = cntpct s \<and> cntfrq s1 = cntfrq s \<and> timer_blocks s1 xs = timer_blocks s xs"
proof (cases cb)
  case Schedule_timer
  with r have "add_timer Schedule_timer (drop_bit 5 (cntfrq s)) [] True s = Some s1"
    by (simp add: timer_call_def schedule_timer_def)
  from add_timer_at[OF at _ this] Schedule_timer show ?thesis by simp
next
  case Uart_puts
  with r obtain c where c: "s1 = s\<lparr>con := c\<rparr>"
    by (auto simp: timer_call_def split: option.splits sum.splits)
  have "timers_at s1 xs" by (rule timers_at_mem[OF at]) (simp_all add: c)
  moreover have "timer_blocks s1 xs = timer_blocks s xs" by (simp add: c timer_blocks_def ev_args_def)
  ultimately show ?thesis using Uart_puts by (simp add: c kblocks_def)
qed (use r in \<open>simp_all add: timer_call_def\<close>)

text \<open>What one run of the handler does: the first event is gone, a rescheduled one is in, and the
  comparator is set to the earliest event left.\<close>

definition handler_post :: "addr \<Rightarrow> addr list \<Rightarrow> kern \<Rightarrow> kern \<Rightarrow> addr list \<Rightarrow> bool" where
  "handler_post e xs s s' ys \<longleftrightarrow> timers_at s' ys \<and>
     (\<forall>x \<in> set xs. ev_call s' x = ev_call s x \<and> ev_time s' x = ev_time s x) \<and>
     (ev_call s e = Uart_puts \<and> ys = xs \<or>
      ev_call s e = Schedule_timer \<and> (\<exists>a. a \<notin> kblocks s \<and> ev_call s' a = Schedule_timer \<and>
        ev_time s' a = cntpct s + drop_bit 5 (cntfrq s) \<and> ys = remove1 e (ins_by (ev_time s') a (e # xs)))) \<and>
     timer_cval s' = (if ys = [] then cntpct s + scast (ucast (cntfrq s * 10000) :: 32 word) else ev_time s' (hd ys)) \<and>
     kblocks s - set (timer_blocks s (e # xs)) \<subseteq> kblocks s' - set (timer_blocks s' ys)"

definition rearm :: "kern \<Rightarrow> addr list \<Rightarrow> 64 word" where
  "rearm s ys = (if ys = [] then cntpct s + scast (ucast (cntfrq s * 10000) :: 32 word) else ev_time s (hd ys))"

lemma timer_event_rest:
  assumes c: "timer_call (ev_call s e) (ev_args s e) s = Some s1" and at: "timers_at s1 ys" "e \<in> set ys"
    and a: "ev_args s1 e = ev_args s e"
  obtains s5 where "timer_event_callback e s = Some s5" "timers_at s5 (remove1 e ys)"
    "ev_time s5 = ev_time s1" "ev_call s5 = ev_call s1" "timer_cval s5 = rearm s1 (remove1 e ys)"
    "kblocks s5 = kblocks s1 - {e, ev_args s1 e}" "set (timer_blocks s5 (remove1 e ys)) \<subseteq> set (timer_blocks s1 ys)"
proof -
  obtain s3 s4 where f: "krelease (ev_args s1 e) (timer_unlink e s1) = Some s3" "krelease e s3 = Some s4"
    "timers_at s4 (remove1 e ys)" "kblocks s4 = kblocks s1 - {e, ev_args s1 e}" "tevents s4 = tevents (timer_unlink e s1)"
    "con s4 = con s1" "cntpct s4 = cntpct s1" "cntfrq s4 = cntfrq s1" "timer_head s4 = timer_head s1" "timer_tail s4 = timer_tail s1"
    using timer_event_finish[OF at] .
  have e4: "ev_time s4 = ev_time s1" "ev_call s4 = ev_call s1"
    using timer_unlink_fields(3,6)[of e s1] by (simp_all only: fun_eq_iff ev_time_def ev_call_def f(5) simp_thms)
  have ar: "te_args (tevents (timer_unlink e s1) e) = ev_args s1 e"
    using fun_cong[OF timer_unlink_fields(2)[of e s1], of e] by (simp only: ev_args_def)
  have "te_prev (tevents s1 e) \<noteq> None \<and> te_next (tevents s1 e) \<noteq> None"
    using tl.rep_linked[of s1 ys e] at by (simp add: timers_at_def tl.ordered_def ev_prev_def ev_next_def)
  then have nn: "(te_prev (tevents s1 e) = None \<or> te_next (tevents s1 e) = None) = False" by blast
  have cb: "timer_event_callback e s = (if \<not> is_timer_list_empty s4 then
      (case te_next (tevents s4 (timer_head s4)) of None \<Rightarrow> None
       | Some n \<Rightarrow> Some (set_core_timer_interrupt_by_tick (te_time (tevents s4 n)) s4))
      else Some (set_core_timer_interrupt 10000 s4))"
    unfolding timer_event_callback_def c[unfolded ev_call_def ev_args_def] option.case nn if_False Let_def ar f(1,2) by (rule refl)
  define s5 where "s5 = s4\<lparr>timer_cval := rearm s1 (remove1 e ys)\<rparr>"
  have "timer_event_callback e s = Some s5"
  proof (cases "remove1 e ys")
    case Nil
    then show ?thesis using timers_at_empty[OF f(3)] unfolding cb
      by (simp add: set_core_timer_interrupt_def s5_def rearm_def f(7,8))
  next
    case (Cons n ns)
    have "te_next (tevents s4 (timer_head s4)) = Some n" by (rule timers_at_first[OF f(3)[unfolded Cons]])
    moreover have "te_time (tevents s4 n) = ev_time s1 n" using e4(1) by (metis ev_time_def)
    ultimately show ?thesis using timers_at_empty[OF f(3)] unfolding cb
      by (simp add: Cons set_core_timer_interrupt_by_tick_def s5_def rearm_def)
  qed
  moreover have "timers_at s5 (remove1 e ys)" by (rule timers_at_mem[OF f(3)]) (simp_all add: s5_def)
  moreover have "ev_time s5 = ev_time s1" "ev_call s5 = ev_call s1"
    using e4 by (simp_all add: fun_eq_iff ev_time_def ev_call_def s5_def)
  moreover have "set (timer_blocks s5 (remove1 e ys)) \<subseteq> set (timer_blocks s1 ys)"
  proof -
    have "ev_args s4 = ev_args s1"
      using timer_unlink_fields(2)[of e s1] by (simp only: fun_eq_iff ev_args_def f(5) simp_thms)
    moreover have "ev_args s5 = ev_args s4" by (simp add: fun_eq_iff ev_args_def s5_def)
    ultimately have "ev_args s5 = ev_args s1" "timer_head s5 = timer_head s1" "timer_tail s5 = timer_tail s1"
      using f(9,10) by (simp_all add: s5_def)
    then show ?thesis using set_remove1_subset[of e ys] by (auto simp: timer_blocks_def)
  qed
  ultimately show thesis using that f(4) by (simp add: s5_def kblocks_def)
qed

lemma core_timer_handler_at:
  assumes at: "timers_at s (e # xs)" and r: "core_timer_handler s = Some s'"
  shows "\<exists>ys. handler_post e xs s s' ys"
proof -
  let ?s0 = "disable_interrupt s"
  have at0: "timers_at ?s0 (e # xs)" by (rule timers_at_mem[OF at]) simp_all
  have nb: "\<not> is_timer_list_empty ?s0" "te_next (tevents ?s0 (timer_head ?s0)) = Some e"
    using timers_at_empty[OF at0] timers_at_first[OF at0] by simp_all
  obtain s5 where s5: "timer_event_callback e ?s0 = Some s5" "s' = enable_interrupt s5"
    using r nb by (auto simp: core_timer_handler_def Let_def split: option.splits)
  have ev0: "ev_call ?s0 = ev_call s" "ev_args ?s0 = ev_args s" "ev_time ?s0 = ev_time s" "kblocks ?s0 = kblocks s"
    by (simp_all add: fun_eq_iff ev_call_def ev_args_def ev_time_def)
  obtain s1 where s1: "timer_call (ev_call ?s0 e) (ev_args ?s0 e) ?s0 = Some s1"
    using s5(1) by (auto simp: timer_event_callback_def ev_call_def ev_args_def split: option.splits)
  have e': "ev_time s' = ev_time s5" "ev_call s' = ev_call s5" "timer_cval s' = timer_cval s5"
    by (simp_all add: s5 fun_eq_iff ev_time_def ev_call_def)
  have at': "timers_at s5 zs \<Longrightarrow> timers_at s' zs" for zs
    by (erule timers_at_mem) (simp_all add: s5)
  have blk: "kblocks s' = kblocks s5" "timer_blocks s' zs = timer_blocks s5 zs" for zs
    by (simp_all add: s5 timer_blocks_def ev_args_def)
  show ?thesis using timer_call_at[OF at0 s1]
  proof
    assume "ev_call ?s0 e = Schedule_timer \<and>
      add_timer_post Schedule_timer (drop_bit 5 (cntfrq ?s0)) True (e # xs) ?s0 s1"
    then obtain a where a: "ev_call s e = Schedule_timer" "a \<notin> kblocks s" "ev_call s1 a = Schedule_timer"
      "ev_time s1 a = cntpct s + drop_bit 5 (cntfrq s)" "timers_at s1 (ins_by (ev_time s1) a (e # xs))"
      "\<forall>x \<in> set (e # xs). ev_call s1 x = ev_call s x \<and> ev_time s1 x = ev_time s x \<and> ev_args s1 x = ev_args s x"
      "cntpct s1 = cntpct s" "cntfrq s1 = cntfrq s" "kblocks s \<subseteq> kblocks s1"
      "set (timer_blocks s1 (ins_by (ev_time s1) a (e # xs))) \<inter> kblocks s = set (timer_blocks s (e # xs))"
      unfolding add_timer_post_def ev0 by (auto simp: due_def timer_blocks_def ev0)
    let ?L = "ins_by (ev_time s1) a (e # xs)"
    obtain s6 where s6: "timer_event_callback e ?s0 = Some s6" "timers_at s6 (remove1 e ?L)"
      "ev_time s6 = ev_time s1" "ev_call s6 = ev_call s1" "timer_cval s6 = rearm s1 (remove1 e ?L)"
      "kblocks s6 = kblocks s1 - {e, ev_args s1 e}" "set (timer_blocks s6 (remove1 e ?L)) \<subseteq> set (timer_blocks s1 ?L)"
      by (rule timer_event_rest[OF s1 a(5)]) (use a(6) in \<open>simp_all add: ev0\<close>)
    have "s6 = s5" using s5(1) s6(1) by simp
    then have s': "timers_at s' (remove1 e ?L)" "ev_time s' = ev_time s1" "ev_call s' = ev_call s1"
      "timer_cval s' = rearm s1 (remove1 e ?L)" "kblocks s' = kblocks s1 - {e, ev_args s1 e}"
      "set (timer_blocks s' (remove1 e ?L)) \<subseteq> set (timer_blocks s1 ?L)"
      using s6 e' at' blk by simp_all
    have eb: "e \<in> set (timer_blocks s (e # xs))" "ev_args s1 e \<in> set (timer_blocks s (e # xs))"
      using a(6) by (simp_all add: timer_blocks_def)
    have fr: "kblocks s - set (timer_blocks s (e # xs)) \<subseteq> kblocks s' - set (timer_blocks s' (remove1 e ?L))"
      using eb s'(5,6) a(9,10) by blast
    have "handler_post e xs s s' (remove1 e ?L)" unfolding handler_post_def s'(2,3)
    proof (intro conjI disjI2 exI[of _ a])
      show "timer_cval s' = (if remove1 e ?L = [] then cntpct s + scast (ucast (cntfrq s * 10000) :: 32 word)
          else ev_time s1 (hd (remove1 e ?L)))" using s'(4) a(7,8) by (simp add: rearm_def)
    qed (use s'(1) a fr in simp_all)
    then show ?thesis by blast
  next
    assume "ev_call ?s0 e = Uart_puts \<and> timers_at s1 (e # xs) \<and> tevents s1 = tevents ?s0 \<and> kblocks s1 = kblocks ?s0 \<and>
      cntpct s1 = cntpct ?s0 \<and> cntfrq s1 = cntfrq ?s0 \<and> timer_blocks s1 (e # xs) = timer_blocks ?s0 (e # xs)"
    then have u: "ev_call s e = Uart_puts" "timers_at s1 (e # xs)" "ev_call s1 = ev_call s" "ev_time s1 = ev_time s"
      "ev_args s1 = ev_args s" "cntpct s1 = cntpct s" "cntfrq s1 = cntfrq s" "kblocks s1 = kblocks s"
      "timer_blocks s1 (e # xs) = timer_blocks s (e # xs)"
      by (simp_all add: ev0 fun_eq_iff ev_call_def ev_time_def ev_args_def, simp add: timer_blocks_def ev0)
    obtain s6 where s6: "timer_event_callback e ?s0 = Some s6" "timers_at s6 (remove1 e (e # xs))"
      "ev_time s6 = ev_time s1" "ev_call s6 = ev_call s1" "timer_cval s6 = rearm s1 (remove1 e (e # xs))"
      "kblocks s6 = kblocks s1 - {e, ev_args s1 e}" "set (timer_blocks s6 (remove1 e (e # xs))) \<subseteq> set (timer_blocks s1 (e # xs))"
      by (rule timer_event_rest[OF s1 u(2)]) (simp_all add: u(5) ev0)
    have "s6 = s5" using s5(1) s6(1) by simp
    moreover have "e \<in> set (timer_blocks s (e # xs))" "ev_args s1 e \<in> set (timer_blocks s (e # xs))"
      using u(5) by (simp_all add: timer_blocks_def)
    ultimately have "kblocks s - set (timer_blocks s (e # xs)) \<subseteq> kblocks s' - set (timer_blocks s' xs)"
      using u(8,9) s6(6,7) blk by auto
    with \<open>s6 = s5\<close> have "handler_post e xs s s' xs"
      using u s6 e' at'[of xs] by (simp add: handler_post_def rearm_def)
    then show ?thesis by blast
  qed
qed

section \<open>With room the calls return\<close>

lemma timer_init_room:
  assumes "heap_ok s" "roomy (Suc (Suc n)) s"
  obtains s' where "timer_list_init s = Some s'" "roomy n s'"
proof -
  have r40: "(40 :: 32 word) \<noteq> 0" "unat (40 :: 32 word) \<le> 4096" by simp_all
  obtain s1 h where s1: "knew 40 s = Some (s1, h)" "roomy (Suc n) s1" by (rule knew_room[OF assms r40])
  have "heap_ok s1" by (rule knew_spec(1)[OF assms(1) request_40(1) s1(1)])
  then obtain s2 t where s2: "knew 40 s1 = Some (s2, t)" "roomy n s2" by (rule knew_room[OF _ s1(2) r40])
  from that s1 s2 show thesis by (simp add: timer_list_init_def Let_def roomy_def)
qed

lemma add_timer_room:
  assumes at: "timers_at s xs" and rm: "roomy (Suc (Suc n)) s" and len: "length args < 4096"
  obtains s' where "add_timer cb t args bt s = Some s'" "roomy n s'"
proof -
  have ok: "heap_ok s" using at by (simp add: timers_at_def)
  have r40: "(40 :: 32 word) \<noteq> 0" "unat (40 :: 32 word) \<le> 4096" by simp_all
  let ?n = "of_nat (length args + 1) :: 32 word"
  have un: "unat ?n = length args + 1" using len by (simp add: unsigned_of_nat take_bit_nat_eq_self del: of_nat_add of_nat_Suc)
  then have rn: "?n \<noteq> 0" "unat ?n \<le> 4096" using len by auto
  obtain s1 a where s1: "knew 40 s = Some (s1, a)" "roomy (Suc n) s1" by (rule knew_room[OF ok rm r40])
  have ok1: "heap_ok s1" by (rule knew_spec(1)[OF ok request_40(1) s1(1)])
  obtain s2 p where s2: "knew ?n s1 = Some (s2, p)" "roomy n s2" by (rule knew_room[OF ok1 s1(2) rn])
  have "\<nexists>s'. kalloc 40 s = Some (s', 0)" "\<nexists>s'. kalloc ?n s1 = Some (s', 0)"
    using s1(1) s2(1) by (auto simp: knew_def split: option.splits)
  then obtain s' where s': "add_timer cb t args bt s = Some s'"
    using add_timer_total[OF at, of args cb t bt] len s1(1) by auto
  obtain c where "timer_seek (armed cb (due t bt s2) args a p s2) (due t bt s2) (timer_head (armed cb (due t bt s2) args a p s2)) = Some c"
      "s' = linked (due t bt s2) a c (armed cb (due t bt s2) args a p s2)"
    using trans[OF s'[symmetric] add_timer_alloc[OF s1(1) s2(1) refl]] by (auto dest!: sym[of "Some s'"])
  then have "mem s' = mem s2"
    by (simp add: linked_def Let_def armed_def set_core_timer_interrupt_by_tick_def)
  then show thesis using that[OF s'] s2(2) by (simp add: roomy_def)
qed

lemma core_timer_handler_room:
  assumes at: "timers_at s (e # xs)" and cb: "ev_call s e = Schedule_timer" and rm: "roomy 2 s"
  obtains s' where "core_timer_handler s = Some s'"
proof -
  let ?s0 = "disable_interrupt s"
  have at0: "timers_at ?s0 (e # xs)" by (rule timers_at_mem[OF at]) simp_all
  have rm0: "roomy (Suc (Suc 0)) ?s0" using rm by (simp add: roomy_def numeral_2_eq_2)
  obtain s1 where s1: "add_timer Schedule_timer (drop_bit 5 (cntfrq ?s0)) [] True ?s0 = Some s1"
    by (rule add_timer_room[OF at0 rm0]) auto
  then have c: "timer_call (ev_call ?s0 e) (ev_args ?s0 e) ?s0 = Some s1"
    using cb by (simp add: timer_call_def schedule_timer_def ev_call_def)
  have "add_timer_post Schedule_timer (drop_bit 5 (cntfrq ?s0)) True (e # xs) ?s0 s1"
    by (rule add_timer_at[OF at0 _ s1]) simp
  then obtain a where "timers_at s1 (ins_by (ev_time s1) a (e # xs))" "ev_args s1 e = ev_args ?s0 e"
    by (auto simp: add_timer_post_def)
  moreover have "e \<in> set (ins_by (ev_time s1) a (e # xs))" by simp
  ultimately obtain s5 where "timer_event_callback e ?s0 = Some s5" using timer_event_rest[OF c] by metis
  moreover have "\<not> is_timer_list_empty ?s0" "te_next (tevents ?s0 (timer_head ?s0)) = Some e"
    using timers_at_empty[OF at0] timers_at_first[OF at0] by simp_all
  ultimately show thesis using that by (simp add: core_timer_handler_def Let_def)
qed

end
