(* ===== verification/Irqtask.thy ===== *)
theory Irqtask
  imports Timer_Inv
begin

text \<open>
  The interrupt task queue \<open>kernel/src/irqtask.c\<close>: tasks between two sentinels, the smaller the
  number the more urgent, run from the front as long as they are more urgent than the running
  one.  What a task does is a parameter \<open>call\<close> of the loop; theory \<open>Irq\<close> gives the handlers
  the kernel enqueues.  The result of the loop includes the functions it called, in order.
\<close>

section \<open>The queue\<close>

definition set_task :: "(irqtask_t \<Rightarrow> irqtask_t) \<Rightarrow> addr \<Rightarrow> kern \<Rightarrow> kern" where
  "set_task f a s = s\<lparr>itasks := (itasks s)(a := f (itasks s a))\<rparr>"

definition irqtask_init_list :: "kern \<Rightarrow> kern option" where
  "irqtask_init_list s =
     (case knew 32 s of None \<Rightarrow> None | Some (s1, h) \<Rightarrow>
      case knew 32 s1 of None \<Rightarrow> None | Some (s2, t) \<Rightarrow>
        (let s3 = s2\<lparr>task_head := h, task_tail := t\<rparr>;
             s4 = set_task (\<lambda>x. x\<lparr>t_priority := -1, t_next := Some t, t_prev := None\<rparr>) h s3
         in Some (set_task (\<lambda>x. x\<lparr>t_priority := 9999, t_next := None, t_prev := Some h\<rparr>) t s4)))"

definition is_task_queue_empty :: "kern \<Rightarrow> bool" where
  "is_task_queue_empty s \<longleftrightarrow> t_next (itasks s (task_head s)) = Some (task_tail s)"

partial_function (option) task_seek :: "kern \<Rightarrow> 64 word \<Rightarrow> addr \<Rightarrow> addr option" where
  "task_seek s priority c =
     (case t_next (itasks s c) of None \<Rightarrow> Some c
      | Some n \<Rightarrow> if n \<noteq> task_tail s \<and> priority < t_priority (itasks s n) then Some c
          else if n = task_tail s then Some c
          else task_seek s priority n)"

definition task_link :: "addr \<Rightarrow> addr \<Rightarrow> kern \<Rightarrow> kern" where
  "task_link c a s =
     (let n = t_next (itasks s c);
          s1 = set_task (\<lambda>x. x\<lparr>t_next := n, t_prev := Some c\<rparr>) a s;
          s2 = set_task (\<lambda>x. x\<lparr>t_next := Some a\<rparr>) c s1
      in case n of None \<Rightarrow> s2 | Some m \<Rightarrow> set_task (\<lambda>x. x\<lparr>t_prev := Some a\<rparr>) m s2)"

definition irqtask_add :: "kfun \<Rightarrow> 64 word \<Rightarrow> kern \<Rightarrow> kern option" where
  "irqtask_add task_function priority s =
     (case knew 32 s of None \<Rightarrow> None | Some (s1, a) \<Rightarrow>
        (let s2 = set_task (\<lambda>x. x\<lparr>t_priority := priority, t_function := task_function\<rparr>) a s1;
             s3 = disable_interrupt s2
         in case task_seek s3 priority (task_head s3) of None \<Rightarrow> None
            | Some c \<Rightarrow> Some (enable_interrupt (task_link c a s3))))"

text \<open>Taking the first task \<open>a\<close> out.\<close>

definition task_unlink :: "addr \<Rightarrow> kern \<Rightarrow> kern" where
  "task_unlink a s =
     (let s1 = set_task (\<lambda>x. x\<lparr>t_next := t_next (itasks s a)\<rparr>) (task_head s) s
      in case t_next (itasks s1 a) of None \<Rightarrow> s1
         | Some n \<Rightarrow> set_task (\<lambda>x. x\<lparr>t_prev := Some (task_head s)\<rparr>) n s1)"

section \<open>Running tasks\<close>

partial_function (option) irqtask_run_preemptive ::
  "(kfun \<Rightarrow> kern \<Rightarrow> kern option) \<Rightarrow> kern \<Rightarrow> (kern \<times> kfun list) option" where
  "irqtask_run_preemptive call s =
     (let s0 = disable_interrupt s in
      if is_task_queue_empty s0 then Some (enable_interrupt s0, [])
      else case t_next (itasks s0 (task_head s0)) of None \<Rightarrow> None
        | Some a \<Rightarrow>
            if word_of_int (curr_task_priority s0) \<le> t_priority (itasks s0 a) then Some (enable_interrupt s0, [])
            else
              (let s1 = task_unlink a s0;
                   prev = curr_task_priority s1;
                   s2 = enable_interrupt (s1\<lparr>curr_task_priority := sint (ucast (t_priority (itasks s1 a)) :: 32 word)\<rparr>);
                   f = t_function (itasks s2 a)
               in case call f s2 of None \<Rightarrow> None | Some s3 \<Rightarrow>
                  case krelease a (disable_interrupt s3) of None \<Rightarrow> None | Some s4 \<Rightarrow>
                  Option.bind (irqtask_run_preemptive call (enable_interrupt (s4\<lparr>curr_task_priority := prev\<rparr>)))
                    (\<lambda>(s5, fs). Some (s5, f # fs))))"

section \<open>The queue as a sorted sentinel queue\<close>

lemma set_task_sel [simp]:
  "itasks (set_task f a s) = (itasks s)(a := f (itasks s a))"
  "task_head (set_task f a s) = task_head s" "task_tail (set_task f a s) = task_tail s"
  "mem (set_task f a s) = mem s" "curr_task_priority (set_task f a s) = curr_task_priority s"
  "tevents (set_task f a s) = tevents s" "timer_head (set_task f a s) = timer_head s"
  "timer_tail (set_task f a s) = timer_tail s"
  by (simp_all add: set_task_def)

definition tk_next :: "kern \<Rightarrow> addr \<Rightarrow> addr ptr" where "tk_next s a = t_next (itasks s a)"
definition tk_prev :: "kern \<Rightarrow> addr \<Rightarrow> addr ptr" where "tk_prev s a = t_prev (itasks s a)"
definition tk_prio :: "kern \<Rightarrow> addr \<Rightarrow> 64 word" where "tk_prio s a = t_priority (itasks s a)"
definition tk_fun :: "kern \<Rightarrow> addr \<Rightarrow> kfun" where "tk_fun s a = t_function (itasks s a)"

lemmas tk_defs = tk_next_def tk_prev_def tk_prio_def

lemma task_seek_unfold: "tk_next s c = Some n \<Longrightarrow> task_seek s k c =
    (if n = task_tail s then Some c else if k < tk_prio s n then Some c else task_seek s k n)"
  by (subst task_seek.simps) (simp add: tk_defs)

interpretation tq: sentinel_queue tk_next tk_prev tk_prio task_head task_tail task_seek task_link task_unlink
proof unfold_locales
  fix s :: kern and c n x y :: addr and k :: "64 word"
  show "tk_next s c = Some (task_tail s) \<Longrightarrow> task_seek s k c = Some c"
    by (simp add: task_seek_unfold)
  show "tk_next s c = Some n \<Longrightarrow> n \<noteq> task_tail s \<Longrightarrow> k < tk_prio s n \<Longrightarrow> task_seek s k c = Some c"
    by (simp add: task_seek_unfold)
  show "tk_next s c = Some n \<Longrightarrow> n \<noteq> task_tail s \<Longrightarrow> \<not> k < tk_prio s n \<Longrightarrow> task_seek s k c = task_seek s k n"
    by (simp add: task_seek_unfold)
  show "task_head (task_link c x s) = task_head s" "task_tail (task_link c x s) = task_tail s"
    by (simp_all add: task_link_def Let_def split: option.split)
  show "tk_prio (task_link c x s) = tk_prio s"
    by (auto simp: task_link_def Let_def tk_prio_def fun_eq_iff split: option.split)
  show "tk_next s c = Some n \<Longrightarrow> x \<noteq> c \<Longrightarrow> x \<noteq> n \<Longrightarrow> n \<noteq> c \<Longrightarrow>
      tk_next (task_link c x s) y = (if y = x then Some n else if y = c then Some x else tk_next s y)"
    by (simp add: task_link_def Let_def tk_defs)
  show "tk_next s c = Some n \<Longrightarrow> x \<noteq> c \<Longrightarrow> x \<noteq> n \<Longrightarrow> n \<noteq> c \<Longrightarrow>
      tk_prev (task_link c x s) y = (if y = x then Some c else if y = n then Some x else tk_prev s y)"
    by (simp add: task_link_def Let_def tk_defs)
  show "task_head (task_unlink x s) = task_head s" "task_tail (task_unlink x s) = task_tail s"
    by (simp_all add: task_unlink_def Let_def split: option.split)
  show "tk_prio (task_unlink x s) = tk_prio s"
    by (auto simp: task_unlink_def Let_def tk_prio_def fun_eq_iff split: option.split)
  show "tk_next s (task_head s) = Some x \<Longrightarrow> tk_prev s x = Some (task_head s) \<Longrightarrow> tk_next s x = Some n \<Longrightarrow>
      x \<noteq> task_head s \<Longrightarrow> n \<noteq> x \<Longrightarrow> n \<noteq> task_head s \<Longrightarrow> y \<noteq> x \<Longrightarrow>
      tk_next (task_unlink x s) y = (if y = task_head s then Some n else tk_next s y)"
    by (simp add: task_unlink_def Let_def tk_defs)
  show "tk_next s (task_head s) = Some x \<Longrightarrow> tk_prev s x = Some (task_head s) \<Longrightarrow> tk_next s x = Some n \<Longrightarrow>
      x \<noteq> task_head s \<Longrightarrow> n \<noteq> x \<Longrightarrow> n \<noteq> task_head s \<Longrightarrow> y \<noteq> x \<Longrightarrow>
      tk_prev (task_unlink x s) y = (if y = n then Some (task_head s) else tk_prev s y)"
    by (simp add: task_unlink_def Let_def tk_defs)
qed

section \<open>The invariant\<close>

definition task_blocks :: "kern \<Rightarrow> addr list \<Rightarrow> addr set" where
  "task_blocks s xs = set (task_head s # task_tail s # xs)"

definition tasks_at :: "kern \<Rightarrow> addr list \<Rightarrow> bool" where
  "tasks_at s xs \<longleftrightarrow> heap_ok s \<and> tq.ordered s xs \<and> task_blocks s xs \<subseteq> kblocks s"

lemma task_ordered_cong:
  assumes "tq.ordered s xs" "task_head s' = task_head s" "task_tail s' = task_tail s"
    and "\<And>y. y \<in> task_blocks s xs \<Longrightarrow> itasks s' y = itasks s y"
  shows "tq.ordered s' xs"
proof -
  have r: "tq.rep s xs" "sorted (map (tk_prio s) xs)" using assms(1) by (simp_all add: tq.ordered_def)
  have "tq.rep s' xs" by (rule tq.rep_cong[OF r(1)]) (use assms in \<open>auto simp: tk_defs task_blocks_def\<close>)
  moreover have "map (tk_prio s') xs = map (tk_prio s) xs" using assms(4) by (simp add: tk_defs task_blocks_def)
  ultimately show ?thesis using r(2) unfolding tq.ordered_def by metis
qed

lemma tasks_at_cong:
  assumes "tasks_at s xs" "itasks s' = itasks s" "task_head s' = task_head s" "task_tail s' = task_tail s"
    and "heap_ok s'" "task_blocks s xs \<subseteq> kblocks s'"
  shows "tasks_at s' xs"
  using assms task_ordered_cong[of s xs s'] by (simp add: tasks_at_def task_blocks_def)

lemma tasks_at_empty: "tasks_at s xs \<Longrightarrow> is_task_queue_empty s \<longleftrightarrow> xs = []"
  using tq.rep_empty[of s xs] unfolding tasks_at_def tq.ordered_def is_task_queue_empty_def tk_next_def by blast

lemma tasks_at_first: "tasks_at s (x # xs) \<Longrightarrow> t_next (itasks s (task_head s)) = Some x"
  using tq.rep_first[of s "x # xs"] unfolding tasks_at_def tq.ordered_def tk_next_def by simp

lemma task_link_fields [simp]:
  "mem (task_link c a s) = mem s" "tk_fun (task_link c a s) = tk_fun s" "task_head (task_link c a s) = task_head s"
  "task_tail (task_link c a s) = task_tail s" "tk_prio (task_link c a s) = tk_prio s"
  "tevents (task_link c a s) = tevents s" "timer_head (task_link c a s) = timer_head s"
  "timer_tail (task_link c a s) = timer_tail s" "curr_task_priority (task_link c a s) = curr_task_priority s"
  by (auto simp: task_link_def Let_def tk_fun_def tk_prio_def fun_eq_iff split: option.split)

lemma task_unlink_fields [simp]:
  "mem (task_unlink a s) = mem s" "tk_fun (task_unlink a s) = tk_fun s" "task_head (task_unlink a s) = task_head s"
  "task_tail (task_unlink a s) = task_tail s" "tk_prio (task_unlink a s) = tk_prio s"
  "tevents (task_unlink a s) = tevents s" "timer_head (task_unlink a s) = timer_head s"
  "timer_tail (task_unlink a s) = timer_tail s" "curr_task_priority (task_unlink a s) = curr_task_priority s"
  by (auto simp: task_unlink_def Let_def tk_fun_def tk_prio_def fun_eq_iff split: option.split)

lemma tk_masked [simp]:
  "tk_fun (enable_interrupt s) = tk_fun s" "tk_prio (enable_interrupt s) = tk_prio s"
  "tk_fun (disable_interrupt s) = tk_fun s" "tk_prio (disable_interrupt s) = tk_prio s"
  "tk_fun (s\<lparr>curr_task_priority := p\<rparr>) = tk_fun s" "tk_prio (s\<lparr>curr_task_priority := p\<rparr>) = tk_prio s"
  by (simp_all add: fun_eq_iff tk_fun_def tk_prio_def)

lemma tk_cong: "itasks s' = itasks s \<Longrightarrow> tk_fun s' = tk_fun s \<and> tk_prio s' = tk_prio s"
  by (simp add: fun_eq_iff tk_fun_def tk_prio_def)

lemma irqtask_init_at:
  assumes ok: "heap_ok s" and "irqtask_init_list s = Some s'"
  shows "tasks_at s' [] \<and> kblocks s \<subseteq> kblocks s' \<and> task_blocks s' [] \<inter> kblocks s = {}"
proof -
  obtain s1 h s2 t where k: "knew 32 s = Some (s1, h)" "knew 32 s1 = Some (s2, t)"
    using assms(2) by (auto simp: irqtask_init_list_def split: option.splits)
  note n1 = knew_spec[OF ok request_40(2) k(1)]
  note n2 = knew_spec[OF n1(1) request_40(2) k(2)]
  have ht: "h \<noteq> t" using n1(4) n2(3) by auto
  have s': "task_head s' = h" "task_tail s' = t" "mem s' = mem s2" "tk_next s' h = Some t" "tk_prev s' t = Some h"
    using assms(2) k ht by (auto simp: irqtask_init_list_def Let_def tk_defs set_task_def)
  have "tq.ordered s' []" unfolding tq.ordered_def tq.rep_def using s' ht by simp
  then show ?thesis using s' n1(3,4) n2(1,3,4) heap_cong[OF s'(3)] by (auto simp: tasks_at_def task_blocks_def)
qed

text \<open>Adding a task: a new node behind every task that is at least as urgent.\<close>

definition irqtask_add_post :: "kfun \<Rightarrow> 64 word \<Rightarrow> addr list \<Rightarrow> kern \<Rightarrow> kern \<Rightarrow> bool" where
  "irqtask_add_post f p xs s s' \<longleftrightarrow> (\<exists>a. a \<notin> kblocks s \<and> tk_fun s' a = f \<and> tk_prio s' a = p \<and>
     tasks_at s' (ins_by (tk_prio s') a xs) \<and> kblocks s' = insert a (kblocks s) \<and>
     (\<forall>x \<in> set xs. tk_fun s' x = tk_fun s x \<and> tk_prio s' x = tk_prio s x) \<and>
     curr_task_priority s' = curr_task_priority s \<and> task_head s' = task_head s \<and> task_tail s' = task_tail s \<and>
     tevents s' = tevents s \<and> timer_head s' = timer_head s \<and> timer_tail s' = timer_tail s)"

lemma irqtask_add_at:
  assumes at: "tasks_at s xs"
  shows "(\<exists>s'. kalloc 32 s = Some (s', 0)) \<or> (\<exists>s'. irqtask_add f p s = Some s' \<and> irqtask_add_post f p xs s s')"
proof -
  have ok: "heap_ok s" using at by (simp add: tasks_at_def)
  consider s' where "kalloc 32 s = Some (s', 0)" | s1 a where "knew 32 s = Some (s1, a)"
    using knew_total[OF ok request_40(2)] by blast
  then show ?thesis
  proof cases
    case 2
    note n = knew_spec[OF ok request_40(2) 2] and q = quietD[OF knew_spec(5)[OF ok request_40(2) 2]]
    define s3 where "s3 = disable_interrupt (set_task (\<lambda>x. x\<lparr>t_priority := p, t_function := f\<rparr>) a s1)"
    have f3: "task_head s3 = task_head s" "task_tail s3 = task_tail s" "mem s3 = mem s1"
      "itasks s3 = (itasks s)(a := (itasks s a)\<lparr>t_priority := p, t_function := f\<rparr>)"
      "curr_task_priority s3 = curr_task_priority s" "tevents s3 = tevents s" "timer_head s3 = timer_head s"
      "timer_tail s3 = timer_tail s"
      by (simp_all add: s3_def q)
    have an: "a \<notin> task_blocks s xs" using at n(3) by (auto simp: tasks_at_def)
    have "itasks s3 y = itasks s y" if "y \<in> task_blocks s xs" for y using that an by (auto simp: f3(4))
    then have o3: "tq.ordered s3 xs"
      using at f3(1,2) by (intro task_ordered_cong[of s xs s3]) (simp_all add: tasks_at_def)
    have pa: "tk_prio s3 a = p" "tk_fun s3 a = f" by (simp_all add: tk_prio_def tk_fun_def f3)
    obtain c where c: "task_seek s3 p (task_head s3) = Some c" "tq.ordered (task_link c a s3) (ins_by (tk_prio s3) a xs)"
      using tq.insert_ordered[OF o3, of a] an unfolding pa(1) f3(1,2) task_blocks_def by auto
    let ?s' = "enable_interrupt (task_link c a s3)"
    have r: "irqtask_add f p s = Some ?s'"
      unfolding irqtask_add_def 2 option.case prod.case Let_def s3_def[symmetric] c(1) by (rule refl)
    have e: "tk_prio ?s' = tk_prio s3" "tk_fun ?s' = tk_fun s3" by simp_all
    have kb: "kblocks ?s' = insert a (kblocks s)" "heap_ok ?s'"
      using n(1,4) heap_cong[of ?s' s1] by (simp_all add: f3)
    have "tq.ordered ?s' (ins_by (tk_prio s3) a xs)" by (rule task_ordered_cong[OF c(2)]) simp_all
    then have "tasks_at ?s' (ins_by (tk_prio ?s') a xs)"
      using kb at unfolding e by (auto simp: tasks_at_def task_blocks_def f3)
    moreover have "tk_fun s3 x = tk_fun s x \<and> tk_prio s3 x = tk_prio s x" if "x \<in> set xs" for x
    proof -
      have "x \<noteq> a" using that an by (auto simp: task_blocks_def)
      then show ?thesis by (simp add: tk_fun_def tk_prio_def f3)
    qed
    ultimately have "irqtask_add_post f p xs s ?s'"
      using n(3) pa kb(1) e unfolding irqtask_add_post_def
      by (intro exI[of _ a]) (simp add: f3)
    with r show ?thesis by blast
  qed blast
qed

lemma irqtask_add_room:
  assumes at: "tasks_at s xs" and rm: "roomy (Suc n) s"
  obtains s' where "irqtask_add f p s = Some s'" "irqtask_add_post f p xs s s'" "roomy n s'"
    "threads s' = threads s" "curr_thread s' = curr_thread s" "RQ_head s' = RQ_head s" "RQ_tail s' = RQ_tail s"
    "cntpct s' = cntpct s" "cntfrq s' = cntfrq s"
proof -
  have ok: "heap_ok s" using at by (simp add: tasks_at_def)
  obtain s1 a where k: "knew 32 s = Some (s1, a)" "roomy n s1" by (rule knew_room[OF ok rm, of 32]) simp_all
  then have "\<nexists>s'. kalloc 32 s = Some (s', 0)" by (auto simp: knew_def split: option.splits)
  then obtain s' where s': "irqtask_add f p s = Some s'" "irqtask_add_post f p xs s s'"
    using irqtask_add_at[OF at, of f p] by (elim disjE exE conjE) blast+
  note q = quietD[OF knew_spec(5)[OF ok request_40(2) k(1)]]
  obtain c where "s' = enable_interrupt (task_link c a
      (disable_interrupt (set_task (\<lambda>x. x\<lparr>t_priority := p, t_function := f\<rparr>) a s1)))"
    using s'(1) k(1) by (auto simp: irqtask_add_def Let_def split: option.splits)
  then have "mem s' = mem s1 \<and> threads s' = threads s \<and> curr_thread s' = curr_thread s \<and> RQ_head s' = RQ_head s \<and>
    RQ_tail s' = RQ_tail s \<and> cntpct s' = cntpct s \<and> cntfrq s' = cntfrq s"
    by (simp add: task_link_def Let_def set_task_def q split: option.split)
  then show thesis using that[OF s'] k(2) by (simp add: roomy_def)
qed

section \<open>The interface to the tasks\<close>

text \<open>What the loop relies on: a task may work on blocks it owns and allocate new ones, and touches
  neither the queue nor the current priority.  \<open>good\<close> is the tasks' own invariant, which depends
  on nothing the loop changes.\<close>

locale task_body =
  fixes call :: "kfun \<Rightarrow> kern \<Rightarrow> kern option" and good :: "kern \<Rightarrow> bool" and own :: "kern \<Rightarrow> addr set"
  assumes call_good: "good s \<Longrightarrow> call f s = Some s' \<Longrightarrow> good s'"
    and good_heap: "good s \<Longrightarrow> heap_ok s \<and> own s \<subseteq> kblocks s"
    and call_queue: "good s \<Longrightarrow> call f s = Some s' \<Longrightarrow> itasks s' = itasks s \<and> task_head s' = task_head s \<and>
        task_tail s' = task_tail s \<and> curr_task_priority s' = curr_task_priority s"
    and call_blocks: "good s \<Longrightarrow> call f s = Some s' \<Longrightarrow> kblocks s - own s \<subseteq> kblocks s' - own s'"
    and good_cong: "good s \<Longrightarrow> tevents s' = tevents s \<Longrightarrow> timer_head s' = timer_head s \<Longrightarrow>
        timer_tail s' = timer_tail s \<Longrightarrow> heap_ok s' \<Longrightarrow> own s \<subseteq> kblocks s' \<Longrightarrow> good s' \<and> own s' = own s"
begin

definition ready :: "kern \<Rightarrow> addr list \<Rightarrow> bool" where
  "ready s xs \<longleftrightarrow> good s \<and> tasks_at s xs \<and> own s \<inter> task_blocks s xs = {}"

lemma ready_mask:
  assumes "ready s xs"
  shows "ready (disable_interrupt s) xs" "ready (enable_interrupt s) xs"
proof -
  have g: "good s" "tasks_at s xs" "own s \<inter> task_blocks s xs = {}" using assms by (simp_all add: ready_def)
  have h: "heap_ok s" "own s \<subseteq> kblocks s" "task_blocks s xs \<subseteq> kblocks s"
    using good_heap[OF g(1)] g(2) by (simp_all add: tasks_at_def)
  have d: "good (disable_interrupt s) \<and> own (disable_interrupt s) = own s"
    by (rule good_cong[OF g(1)]) (simp_all add: h)
  have e: "good (enable_interrupt s) \<and> own (enable_interrupt s) = own s"
    by (rule good_cong[OF g(1)]) (simp_all add: h)
  have "tasks_at (disable_interrupt s) xs" by (rule tasks_at_cong[OF g(2)]) (simp_all add: h)
  moreover have "tasks_at (enable_interrupt s) xs" by (rule tasks_at_cong[OF g(2)]) (simp_all add: h)
  ultimately show "ready (disable_interrupt s) xs" "ready (enable_interrupt s) xs"
    using d e g(3) by (simp_all add: ready_def task_blocks_def)
qed

text \<open>One round: the first task is taken out, called and released.\<close>

lemma run_round:
  assumes rd: "ready s (a # xs)" and c: "call (tk_fun s a) s2 = Some s3"
    and s2: "s2 = enable_interrupt ((task_unlink a (disable_interrupt s))\<lparr>curr_task_priority := p\<rparr>)"
  obtains s4 where "krelease a (disable_interrupt s3) = Some s4"
    "ready (enable_interrupt (s4\<lparr>curr_task_priority := curr_task_priority s\<rparr>)) xs"
    "itasks s4 = itasks s2"
proof -
  let ?s0 = "disable_interrupt s" and ?s1 = "task_unlink a (disable_interrupt s)"
  have rd0: "ready ?s0 (a # xs)" using ready_mask(1)[OF rd] .
  then have g0: "good ?s0" "tasks_at ?s0 (a # xs)" "own ?s0 \<inter> task_blocks ?s0 (a # xs) = {}" by (simp_all add: ready_def)
  have h0: "heap_ok ?s0" "own ?s0 \<subseteq> kblocks ?s0" using good_heap[OF g0(1)] by simp_all
  have o0: "tq.ordered ?s0 (a # xs)" "task_blocks ?s0 (a # xs) \<subseteq> kblocks ?s0" using g0(2) by (simp_all add: tasks_at_def)
  have m2: "mem s2 = mem ?s0" by (simp add: s2)
  have h2: "heap_ok s2" "kblocks s2 = kblocks ?s0" using h0(1) heap_cong[OF m2] by simp_all
  have g2: "good s2" "own s2 = own ?s0"
    using good_cong[OF g0(1), of s2] h2 h0(2) by (simp_all add: s2)
  have t2: "itasks s2 = itasks ?s1" "task_head s2 = task_head s" "task_tail s2 = task_tail s" by (simp_all add: s2)
  have b2: "task_blocks ?s0 (a # xs) \<subseteq> kblocks s2 - own s2" using o0(2) g0(3) h2(2) g2(2) by blast
  note c2 = call_good[OF g2(1) c] call_queue[OF g2(1) c] call_blocks[OF g2(1) c]
  let ?s3 = "disable_interrupt s3"
  have h3: "heap_ok ?s3" "own s3 \<subseteq> kblocks ?s3" using good_heap[OF c2(1)] by simp_all
  have g3: "good ?s3" "own ?s3 = own s3" using good_cong[OF c2(1), of ?s3] h3 by simp_all
  have b3: "task_blocks ?s0 (a # xs) \<subseteq> kblocks ?s3 - own ?s3" using b2 c2(3) g3(2) by auto
  then have "a \<in> kblocks ?s3" by (auto simp: task_blocks_def)
  then obtain s4 where s4: "krelease a ?s3 = Some s4" "heap_ok s4" "kblocks s4 = kblocks ?s3 - {a}" "quiet s4 = quiet ?s3"
    using krelease_spec[OF h3(1)] by metis
  note q4 = quietD[OF s4(4)]
  let ?s5 = "enable_interrupt (s4\<lparr>curr_task_priority := curr_task_priority s\<rparr>)"
  have h5: "heap_ok ?s5" "kblocks ?s5 = kblocks ?s3 - {a}" using s4(2,3) heap_cong[of ?s5 s4] by simp_all
  have na: "a \<notin> own ?s3" using b3 by (auto simp: task_blocks_def)
  have g5: "good ?s5" "own ?s5 = own ?s3"
    using good_cong[OF g3(1), of ?s5] h5 h3(2) g3(2) na by (auto simp: q4)
  have t5: "itasks ?s5 = itasks ?s1" "task_head ?s5 = task_head s" "task_tail ?s5 = task_tail s"
    using c2(2) t2 by (simp_all add: q4)
  have "tq.ordered ?s1 xs" by (rule tq.unlink_first_ordered[OF o0(1)])
  then have o5: "tq.ordered ?s5 xs" by (rule task_ordered_cong) (use t5 in simp_all)
  have d: "a \<notin> task_blocks ?s0 xs" using o0(1) by (auto simp: tq.ordered_def tq.rep_def task_blocks_def)
  have "task_blocks ?s5 xs = task_blocks ?s0 xs" using t5 by (simp add: task_blocks_def)
  then have "ready ?s5 xs"
    using g5 o5 h5 b3 d unfolding ready_def tasks_at_def by (auto simp: task_blocks_def)
  moreover have "itasks s4 = itasks s2" using c2(2) by (simp add: q4)
  ultimately show thesis using that[OF s4(1)] by simp
qed

text \<open>The loop takes the tasks that are more urgent than the running one, in queue order, and stops
  at the first that is not.\<close>

definition urgent :: "kern \<Rightarrow> addr \<Rightarrow> bool" where
  "urgent s a \<longleftrightarrow> tk_prio s a < word_of_int (curr_task_priority s)"

definition run_post :: "kern \<Rightarrow> addr list \<Rightarrow> kern \<Rightarrow> kfun list \<Rightarrow> bool" where
  "run_post s xs s' fs \<longleftrightarrow> fs = map (tk_fun s) (takeWhile (urgent s) xs) \<and> ready s' (dropWhile (urgent s) xs) \<and>
     curr_task_priority s' = curr_task_priority s \<and> (\<forall>x. tk_fun s' x = tk_fun s x \<and> tk_prio s' x = tk_prio s x)"

definition started :: "kern \<Rightarrow> addr \<Rightarrow> kern" where
  "started s a = enable_interrupt ((task_unlink a (disable_interrupt s))
     \<lparr>curr_task_priority := sint (ucast (tk_prio s a) :: 32 word)\<rparr>)"

lemma run_unfold:
  assumes rd: "ready s (a # xs)" and u: "urgent s a"
  shows "irqtask_run_preemptive call s =
    (case call (tk_fun s a) (started s a) of None \<Rightarrow> None | Some s3 \<Rightarrow>
     case krelease a (disable_interrupt s3) of None \<Rightarrow> None | Some s4 \<Rightarrow>
       Option.bind (irqtask_run_preemptive call (enable_interrupt (s4\<lparr>curr_task_priority := curr_task_priority s\<rparr>)))
         (\<lambda>(s5, fs). Some (s5, tk_fun s a # fs)))"
proof -
  let ?s0 = "disable_interrupt s" and ?s1 = "task_unlink a (disable_interrupt s)"
  have at0: "tasks_at ?s0 (a # xs)" using ready_mask(1)[OF rd] by (simp add: ready_def)
  have ne: "\<not> is_task_queue_empty ?s0" "t_next (itasks ?s0 (task_head ?s0)) = Some a"
    using tasks_at_empty[OF at0] tasks_at_first[OF at0] by simp_all
  have le: "\<not> word_of_int (curr_task_priority ?s0) \<le> t_priority (itasks ?s0 a)"
    using u by (simp add: urgent_def tk_prio_def)
  have "tk_prio ?s1 a = tk_prio s a" by simp
  then have p1: "t_priority (itasks ?s1 a) = tk_prio s a" "curr_task_priority ?s1 = curr_task_priority s"
    by (simp_all only: tk_prio_def[symmetric] task_unlink_fields masking_frame)
  have "tk_fun (started s a) a = tk_fun s a" by (simp add: started_def)
  then have f2: "t_function (itasks (started s a) a) = tk_fun s a" by (simp only: tk_fun_def[symmetric])
  show ?thesis
    by (subst irqtask_run_preemptive.simps) (simp only: Let_def ne le p1 started_def[symmetric] f2 if_False if_True
        not_True_eq_False not_False_eq_True option.case)
qed

lemma run_step:
  assumes rd: "ready s (a # xs)" and u: "urgent s a" and c: "call (tk_fun s a) (started s a) = Some s3"
  obtains s5 where "ready s5 xs" "curr_task_priority s5 = curr_task_priority s" "tk_fun s5 = tk_fun s" "tk_prio s5 = tk_prio s"
    "irqtask_run_preemptive call s = Option.bind (irqtask_run_preemptive call s5) (\<lambda>(s', fs). Some (s', tk_fun s a # fs))"
proof -
  obtain s4 where s4: "krelease a (disable_interrupt s3) = Some s4"
    "ready (enable_interrupt (s4\<lparr>curr_task_priority := curr_task_priority s\<rparr>)) xs" "itasks s4 = itasks (started s a)"
    by (rule run_round[OF rd c started_def])
  have "tk_fun s4 = tk_fun s" "tk_prio s4 = tk_prio s" using tk_cong[OF s4(3)] by (simp_all add: started_def)
  then show thesis using that[OF s4(2)] run_unfold[OF rd u] c s4(1) by simp
qed

lemma run_stop:
  assumes rd: "ready s xs" and st: "xs = [] \<or> \<not> urgent s (hd xs)"
  shows "irqtask_run_preemptive call s = Some (enable_interrupt (disable_interrupt s), [])"
proof -
  let ?s0 = "disable_interrupt s"
  have at0: "tasks_at ?s0 xs" using ready_mask(1)[OF rd] by (simp add: ready_def)
  show ?thesis
  proof (cases xs)
    case Nil
    with tasks_at_empty[OF at0] show ?thesis by (subst irqtask_run_preemptive.simps) (simp add: Let_def)
  next
    case (Cons a as)
    have "\<not> is_task_queue_empty ?s0" "t_next (itasks ?s0 (task_head ?s0)) = Some a"
      using tasks_at_empty[OF at0] tasks_at_first[OF at0[unfolded Cons]] Cons by simp_all
    moreover have "word_of_int (curr_task_priority ?s0) \<le> t_priority (itasks ?s0 a)"
      using st Cons by (simp add: urgent_def tk_prio_def not_less)
    ultimately show ?thesis by (subst irqtask_run_preemptive.simps) (simp add: Let_def)
  qed
qed

lemma run_correct:
  assumes "ready s xs" "irqtask_run_preemptive call s = Some (s', fs)"
  shows "run_post s xs s' fs"
  using assms
proof (induction xs arbitrary: s s' fs)
  case Nil
  with run_stop[OF Nil.prems(1)] ready_mask[OF ready_mask(1)[OF Nil.prems(1)]] show ?case
    by (auto simp: run_post_def)
next
  case (Cons a xs)
  show ?case
  proof (cases "urgent s a")
    case False
    with run_stop[OF Cons.prems(1)] Cons.prems(2) ready_mask(2)[OF ready_mask(1)[OF Cons.prems(1)]] show ?thesis
      by (auto simp: run_post_def)
  next
    case True
    obtain s3 where "call (tk_fun s a) (started s a) = Some s3"
      using run_unfold[OF Cons.prems(1) True] Cons.prems(2) by (auto split: option.splits)
    from run_step[OF Cons.prems(1) True this] obtain s5 where s5: "ready s5 xs"
      "curr_task_priority s5 = curr_task_priority s" "tk_fun s5 = tk_fun s" "tk_prio s5 = tk_prio s"
      "irqtask_run_preemptive call s = Option.bind (irqtask_run_preemptive call s5) (\<lambda>(s', fs). Some (s', tk_fun s a # fs))"
      by blast
    from s5(5) Cons.prems(2) obtain gs where gs: "irqtask_run_preemptive call s5 = Some (s', gs)" "fs = tk_fun s a # gs"
      by (cases "irqtask_run_preemptive call s5") auto
    have "urgent s5 = urgent s" by (simp add: fun_eq_iff urgent_def s5)
    with Cons.IH[OF s5(1) gs(1)] gs(2) True s5 show ?thesis by (simp add: run_post_def)
  qed
qed

text \<open>The loop ends when every task in it does.\<close>

lemma run_total:
  assumes "\<And>f s a xs. f \<in> F \<Longrightarrow> ready s (a # xs) \<Longrightarrow> call f (started s a) \<noteq> None"
    and "ready s xs" "tk_fun s ` set xs \<subseteq> F"
  shows "irqtask_run_preemptive call s \<noteq> None"
  using assms(2,3)
proof (induction xs arbitrary: s)
  case Nil
  then show ?case using run_stop[OF Nil.prems(1)] by simp
next
  case (Cons a xs)
  show ?case
  proof (cases "urgent s a")
    case False
    then show ?thesis using run_stop[OF Cons.prems(1)] by simp
  next
    case True
    have "call (tk_fun s a) (started s a) \<noteq> None" by (rule assms(1)[OF _ Cons.prems(1)]) (use Cons.prems(2) in auto)
    then obtain s3 where "call (tk_fun s a) (started s a) = Some s3" by blast
    from run_step[OF Cons.prems(1) True this] obtain s5 where s5: "ready s5 xs" "tk_fun s5 = tk_fun s"
      "irqtask_run_preemptive call s = Option.bind (irqtask_run_preemptive call s5) (\<lambda>(s', fs). Some (s', tk_fun s a # fs))"
      by blast
    have "irqtask_run_preemptive call s5 \<noteq> None" by (rule Cons.IH[OF s5(1)]) (use Cons.prems s5(2) in simp)
    then show ?thesis using s5(3) by (cases "irqtask_run_preemptive call s5") auto
  qed
qed

end

end
