(* ===== verification/Runq.thy ===== *)
theory Runq
  imports Kheap
begin

text \<open>
  The run queue of \<open>kernel/src/sched.c\<close>: \<open>push_rq\<close>, \<open>pop_rq\<close>, \<open>schedule\<close> and \<open>thread_exit\<close>.  A
  thread is its index in \<open>threads\<close>.  \<open>schedule\<close> ends in \<open>switch_to\<close>, assembly that saves and
  loads registers and touches none of this state.
\<close>

section \<open>Operations\<close>

definition set_thread :: "(thread_t \<Rightarrow> thread_t) \<Rightarrow> nat \<Rightarrow> kern \<Rightarrow> kern" where
  "set_thread f i s = s\<lparr>threads := (threads s)(i := f (threads s i))\<rparr>"

definition push_rq :: "nat \<Rightarrow> kern \<Rightarrow> kern" where
  "push_rq th s =
     (let s0 = disable_interrupt s;
          s1 = (case RQ_tail s0 of
                  Some t \<Rightarrow> (set_thread (\<lambda>x. x\<lparr>th_next := Some th\<rparr>) t
                      (set_thread (\<lambda>x. x\<lparr>th_prev := Some t\<rparr>) th s0))\<lparr>RQ_tail := Some th\<rparr>
                | None \<Rightarrow> s0\<lparr>RQ_head := Some th, RQ_tail := Some th\<rparr>)
      in enable_interrupt (set_thread (\<lambda>x. x\<lparr>th_next := None\<rparr>) th s1))"

definition pop_rq :: "kern \<Rightarrow> kern \<times> nat option" where
  "pop_rq s =
     (let s0 = disable_interrupt s; target = RQ_head s0;
          s1 = (case RQ_head s0 of None \<Rightarrow> s0
                | Some h \<Rightarrow>
                    (let s' = (case th_next (threads s0 h) of None \<Rightarrow> s0\<lparr>RQ_tail := None\<rparr>
                               | Some n \<Rightarrow> set_thread (\<lambda>x. x\<lparr>th_prev := None\<rparr>) n s0)
                     in s'\<lparr>RQ_head := th_next (threads s' h)\<rparr>));
          s2 = (case target of None \<Rightarrow> s1
                | Some t \<Rightarrow> set_thread (\<lambda>x. x\<lparr>th_prev := None, th_next := None\<rparr>) t s1)
      in (enable_interrupt s2, target))"

definition zombie :: "kern \<Rightarrow> nat \<Rightarrow> bool" where
  "zombie s i \<longleftrightarrow> t_status (threads s i) = THREAD_ZOMBIE"

text \<open>The \<open>do ... while\<close> loop: the thread taken, or \<open>None\<close> inside when the queue is empty.\<close>

partial_function (option) pick_thread :: "kern \<Rightarrow> (kern \<times> nat option) option" where
  "pick_thread s =
     (case pop_rq s of (s1, target) \<Rightarrow>
        (case target of None \<Rightarrow> Some (s1, None)
         | Some t \<Rightarrow> if zombie s1 t then pick_thread (push_rq t s1) else Some (s1, Some t)))"

definition schedule :: "kern \<Rightarrow> kern option" where
  "schedule s =
     (let s0 = disable_interrupt s in
      if RQ_head s0 = None then Some (enable_interrupt s0)
      else
        (let off_thread = curr_thread s0 in
         case pick_thread s0 of None \<Rightarrow> None
         | Some (s1, None) \<Rightarrow> Some (enable_interrupt s1)
         | Some (s1, Some t) \<Rightarrow>
             (let s2 = s1\<lparr>curr_thread := t\<rparr>;
                  s3 = (if \<not> zombie s2 off_thread then push_rq off_thread s2 else s2)
              in Some (enable_interrupt s3))))"

definition thread_exit :: "kern \<Rightarrow> kern option" where
  "thread_exit s =
     (let s0 = disable_interrupt s;
          s1 = set_thread (\<lambda>x. x\<lparr>t_status := THREAD_ZOMBIE\<rparr>) (curr_thread s0) s0
      in schedule (enable_interrupt s1))"

section \<open>The interface of a ready queue\<close>

text \<open>The client is the loop that rotates dead entries to the end until it meets a live one.\<close>

locale ready_queue =
  fixes rep :: "'s \<Rightarrow> 't list \<Rightarrow> bool" and push :: "'t \<Rightarrow> 's \<Rightarrow> 's" and pop :: "'s \<Rightarrow> 's \<times> 't option"
    and dead :: "'s \<Rightarrow> 't \<Rightarrow> bool" and pick :: "'s \<Rightarrow> ('s \<times> 't option) option" and same :: "'s \<Rightarrow> 's \<Rightarrow> bool"
  assumes rep_distinct: "rep s xs \<Longrightarrow> distinct xs"
    and same_refl: "same s s" and same_trans: "same s t \<Longrightarrow> same t u \<Longrightarrow> same s u"
    and same_dead: "same s s' \<Longrightarrow> dead s' = dead s"
    and pop_nil: "rep s [] \<Longrightarrow> \<exists>s'. pop s = (s', None) \<and> rep s' [] \<and> same s s'"
    and pop_cons: "rep s (x # xs) \<Longrightarrow> \<exists>s'. pop s = (s', Some x) \<and> rep s' xs \<and> same s s'"
    and push_snoc: "rep s xs \<Longrightarrow> x \<notin> set xs \<Longrightarrow> rep (push x s) (xs @ [x]) \<and> same s (push x s)"
    and pick_unfold: "pick s = (case pop s of (s1, None) \<Rightarrow> Some (s1, None)
        | (s1, Some t) \<Rightarrow> if dead s1 t then pick (push t s1) else Some (s1, Some t))"
    and pick_stuck: "(\<And>s. J s \<Longrightarrow> \<exists>s1 t. pop s = (s1, Some t) \<and> dead s1 t \<and> J (push t s1)) \<Longrightarrow> J s \<Longrightarrow> pick s = None"
begin

lemma pick_rotate:
  assumes "rep s (x # xs)" "dead s x"
  obtains s' where "pick s = pick s'" "rep s' (xs @ [x])" "same s s'"
proof -
  obtain s1 where s1: "pop s = (s1, Some x)" "rep s1 xs" "same s s1" using pop_cons[OF assms(1)] by blast
  have "x \<notin> set xs" using rep_distinct[OF assms(1)] by simp
  with push_snoc[OF s1(2)] have p: "rep (push x s1) (xs @ [x])" "same s1 (push x s1)" by simp_all
  have "dead s1 x" using same_dead[OF s1(3)] assms(2) by simp
  then have "pick s = pick (push x s1)" using s1(1) by (subst pick_unfold) simp
  with that p same_trans[OF s1(3)] show thesis by blast
qed

lemma pick_live:
  assumes "rep s (zs @ t # ws)" "\<forall>z \<in> set zs. dead s z" "\<not> dead s t"
  shows "\<exists>s'. pick s = Some (s', Some t) \<and> rep s' (ws @ zs) \<and> same s s'"
  using assms
proof (induction zs arbitrary: s ws)
  case Nil
  obtain s1 where s1: "pop s = (s1, Some t)" "rep s1 ws" "same s s1" using pop_cons[of s t ws] Nil.prems(1) by auto
  moreover have "\<not> dead s1 t" using same_dead[OF s1(3)] Nil.prems(3) by simp
  ultimately show ?case by (subst pick_unfold) simp
next
  case (Cons z zs)
  obtain s' where s': "pick s = pick s'" "rep s' (zs @ t # ws @ [z])" "same s s'"
    using pick_rotate[of s z "zs @ t # ws"] Cons.prems by auto
  have "\<forall>z \<in> set zs. dead s' z" "\<not> dead s' t" using Cons.prems same_dead[OF s'(3)] by simp_all
  from Cons.IH[OF s'(2) this] show ?case using s'(1,3) same_trans by auto
qed

lemma pick_empty: "rep s [] \<Longrightarrow> \<exists>s'. pick s = Some (s', None) \<and> rep s' [] \<and> same s s'"
  using pop_nil[of s] by (subst pick_unfold) auto

text \<open>With dead entries only, the loop goes round for ever.\<close>

lemma pick_dead:
  assumes "rep s xs" "xs \<noteq> []" "\<forall>x \<in> set xs. dead s x"
  shows "pick s = None"
proof (rule pick_stuck[where J = "\<lambda>s. \<exists>xs. rep s xs \<and> xs \<noteq> [] \<and> (\<forall>x \<in> set xs. dead s x)"])
  fix s assume "\<exists>xs. rep s xs \<and> xs \<noteq> [] \<and> (\<forall>x \<in> set xs. dead s x)"
  then obtain x xs where x: "rep s (x # xs)" "dead s x" "\<forall>y \<in> set xs. dead s y" by (auto simp: neq_Nil_conv)
  obtain s1 where s1: "pop s = (s1, Some x)" "rep s1 xs" "same s s1" using pop_cons[OF x(1)] by blast
  have "x \<notin> set xs" using rep_distinct[OF x(1)] by simp
  with push_snoc[OF s1(2)] have p: "rep (push x s1) (xs @ [x])" "same s1 (push x s1)" by simp_all
  have d: "dead s1 = dead s" "dead (push x s1) = dead s" using same_dead s1(3) p(2) by metis+
  show "\<exists>s1 t. pop s = (s1, Some t) \<and> dead s1 t \<and> (\<exists>xs. rep (push t s1) xs \<and> xs \<noteq> [] \<and> (\<forall>x \<in> set xs. dead (push t s1) x))"
    using s1(1) p(1) x(2,3) d by (intro exI[of _ s1] exI[of _ x] conjI exI[of _ "xs @ [x]"]) auto
qed (use assms in blast)

end

section \<open>The run queue\<close>

definition tnext :: "kern \<Rightarrow> nat \<Rightarrow> nat ptr" where "tnext s i = th_next (threads s i)"
definition tprev :: "kern \<Rightarrow> nat \<Rightarrow> nat ptr" where "tprev s i = th_prev (threads s i)"

text \<open>A list of different threads; a thread outside has null links.\<close>

definition rq :: "kern \<Rightarrow> nat list \<Rightarrow> bool" where
  "rq s xs \<longleftrightarrow> dll (tnext s) (tprev s) None (RQ_head s) xs \<and> distinct xs \<and>
     RQ_tail s = (if xs = [] then None else Some (last xs)) \<and>
     (\<forall>i. i \<notin> set xs \<longrightarrow> tnext s i = None \<and> tprev s i = None)"

text \<open>Everything but the links of the threads, the queue's ends and the interrupt mask.\<close>

definition unlinked :: "thread_t \<Rightarrow> thread_t" where "unlinked x = x\<lparr>th_prev := None, th_next := None\<rparr>"

definition off_queue :: "kern \<Rightarrow> kern" where
  "off_queue s = s\<lparr>threads := \<lambda>i. unlinked (threads s i), RQ_head := None, RQ_tail := None,
     nested_interrupt_cnt := 0, irq_masked := False\<rparr>"

definition same_threads :: "kern \<Rightarrow> kern \<Rightarrow> bool" where
  "same_threads s s' \<longleftrightarrow> off_queue s' = off_queue s"

lemma unlinked_upd [simp]:
  "unlinked (x\<lparr>th_prev := p\<rparr>) = unlinked x" "unlinked (x\<lparr>th_next := p\<rparr>) = unlinked x"
  by (simp_all add: unlinked_def)

lemma unlinked_status: "t_status (unlinked x) = t_status x"
  by (simp add: unlinked_def)

lemma off_queue_frame [simp]:
  "off_queue (enable_interrupt s) = off_queue s" "off_queue (disable_interrupt s) = off_queue s"
  "off_queue (s\<lparr>RQ_head := h\<rparr>) = off_queue s" "off_queue (s\<lparr>RQ_tail := t\<rparr>) = off_queue s"
  by (subst enable_disable_upd, simp add: off_queue_def, subst enable_disable_upd, simp add: off_queue_def,
      simp_all add: off_queue_def)

lemma off_queue_link [simp]:
  "off_queue (set_thread (\<lambda>x. x\<lparr>th_prev := p\<rparr>) i s) = off_queue s"
  "off_queue (set_thread (\<lambda>x. x\<lparr>th_next := p\<rparr>) i s) = off_queue s"
  "off_queue (set_thread (\<lambda>x. x\<lparr>th_prev := p, th_next := q\<rparr>) i s) = off_queue s"
  by (auto simp: off_queue_def set_thread_def fun_eq_iff)

lemma off_queue_sel:
  "mem (off_queue s) = mem s" "con (off_queue s) = con s" "curr_thread (off_queue s) = curr_thread s"
  "unlinked (threads (off_queue s) i) = unlinked (threads s i)" "tevents (off_queue s) = tevents s"
  "itasks (off_queue s) = itasks s"
  by (simp_all add: off_queue_def) (simp add: unlinked_def)

lemma same_threadsD:
  assumes "same_threads s s'"
  shows "mem s' = mem s" "con s' = con s" "curr_thread s' = curr_thread s"
    "unlinked (threads s' i) = unlinked (threads s i)" "zombie s' = zombie s"
proof -
  note e = assms[unfolded same_threads_def]
  show "mem s' = mem s" "con s' = con s" "curr_thread s' = curr_thread s"
    using arg_cong[OF e, of mem] arg_cong[OF e, of con] arg_cong[OF e, of curr_thread] by (simp_all add: off_queue_sel)
  have "unlinked (threads s' i) = unlinked (threads s i)" for i
    using arg_cong[OF e, of "\<lambda>s. unlinked (threads s i)"] by (simp add: off_queue_sel)
  then show "unlinked (threads s' i) = unlinked (threads s i)" "zombie s' = zombie s"
    by (simp_all add: zombie_def fun_eq_iff) (metis unlinked_status)
qed

lemma set_thread_sel [simp]:
  "RQ_head (set_thread f i s) = RQ_head s" "RQ_tail (set_thread f i s) = RQ_tail s"
  "threads (set_thread f i s) = (threads s)(i := f (threads s i))" "curr_thread (set_thread f i s) = curr_thread s"
  by (simp_all add: set_thread_def)

lemma push_rq_fields:
  "tnext (push_rq th s) y = (if y = th then None else if RQ_tail s = Some y then Some th else tnext s y)"
  "tprev (push_rq th s) y = (if y = th \<and> RQ_tail s \<noteq> None then RQ_tail s else tprev s y)"
  "RQ_head (push_rq th s) = (if RQ_tail s = None then Some th else RQ_head s)"
  "RQ_tail (push_rq th s) = Some th" "same_threads s (push_rq th s)"
  by (auto simp: push_rq_def Let_def tnext_def tprev_def same_threads_def split: option.split)

lemma pop_rq_fields:
  assumes "pop_rq s = (s', t)"
  shows "t = RQ_head s" "same_threads s s'"
    "RQ_head s = None \<Longrightarrow> RQ_head s' = None \<and> RQ_tail s' = RQ_tail s \<and> tnext s' = tnext s \<and> tprev s' = tprev s"
    "RQ_head s = Some h \<Longrightarrow> tnext s h \<noteq> Some h \<Longrightarrow> RQ_head s' = tnext s h \<and>
      RQ_tail s' = (if tnext s h = None then None else RQ_tail s) \<and>
      tnext s' = (tnext s)(h := None) \<and>
      tprev s' = (\<lambda>y. if y = h \<or> tnext s h = Some y then None else tprev s y)"
  using assms
  by (auto simp: pop_rq_def Let_def tnext_def tprev_def same_threads_def fun_eq_iff split: option.splits)

section \<open>The run queue is a ready queue\<close>

lemma dll_snoc:
  assumes "dll nxt prv p h xs" "a \<notin> set xs" "nxt' a = None" "prv' a = (if xs = [] then p else Some (last xs))"
    and "\<And>x. x \<in> set xs \<Longrightarrow> nxt' x = (if x = last xs then Some a else nxt x)" "\<And>x. x \<in> set xs \<Longrightarrow> prv' x = prv x"
  shows "dll nxt' prv' p (if xs = [] then Some a else h) (xs @ [a])"
  using assms
proof (induction xs arbitrary: p h)
  case (Cons x xs)
  have d: "x \<notin> set xs" using Cons.prems(1) by (rule dll_not_in_tail)
  have "dll nxt' prv' (Some x) (if xs = [] then Some a else nxt x) (xs @ [a])"
    by (rule Cons.IH) (use Cons.prems in \<open>auto split: if_splits\<close>)
  moreover have "xs \<noteq> [] \<Longrightarrow> last xs \<noteq> x" using d last_in_set by metis
  ultimately show ?case using Cons.prems(1) Cons.prems(5)[of x] Cons.prems(6)[of x] by auto
qed simp

lemma rq_push:
  assumes "rq s xs" "x \<notin> set xs"
  shows "rq (push_rq x s) (xs @ [x])"
proof -
  note a = assms(1)[unfolded rq_def]
  have "dll (tnext (push_rq x s)) (tprev (push_rq x s)) None (if xs = [] then Some x else RQ_head s) (xs @ [x])"
  proof (rule dll_snoc)
    show "dll (tnext s) (tprev s) None (RQ_head s) xs" using a by simp
    show "x \<notin> set xs" by (rule assms(2))
    show "tnext (push_rq x s) x = None" by (simp add: push_rq_fields)
    show "tprev (push_rq x s) x = (if xs = [] then None else Some (last xs))"
      using a assms(2) by (simp add: push_rq_fields)
    fix y assume y: "y \<in> set xs"
    then have "y \<noteq> x" "RQ_tail s = Some (last xs)" using assms(2) a by auto
    then show "tnext (push_rq x s) y = (if y = last xs then Some x else tnext s y)" "tprev (push_rq x s) y = tprev s y"
      by (auto simp: push_rq_fields)
  qed
  moreover have "RQ_head (push_rq x s) = (if xs = [] then Some x else RQ_head s)" using a by (simp add: push_rq_fields)
  ultimately show ?thesis using a assms(2)
    by (simp add: rq_def push_rq_fields(1,2,4))
qed

lemma rq_pop:
  assumes "rq s (x # xs)" "pop_rq s = (s', t)"
  shows "t = Some x \<and> rq s' xs"
proof -
  note a = assms(1)[unfolded rq_def]
  have h: "RQ_head s = Some x" using a by simp
  have d: "dll (tnext s) (tprev s) (Some x) (tnext s x) xs" and x: "x \<notin> set xs" using a by simp_all
  have n: "tnext s x = (if xs = [] then None else Some (hd xs))" using dll_head[OF d] .
  then have ne: "tnext s x \<noteq> Some x" using x by (cases xs) auto
  note f = pop_rq_fields(4)[OF assms(2) h ne]
  have "dll (tnext s') (tprev s') None (tnext s x) xs"
    by (rule dll_pop[of "tnext s" "tprev s" None]) (use a h f in auto)
  then show ?thesis using a f n pop_rq_fields(1)[OF assms(2)] h by (auto simp: rq_def)
qed

lemma rq_pop_nil: "rq s [] \<Longrightarrow> pop_rq s = (s', t) \<Longrightarrow> t = None \<and> rq s' []"
  using pop_rq_fields[of s s' t] by (auto simp: rq_def)

lemma pick_thread_stuck:
  assumes J: "\<And>s. J s \<Longrightarrow> \<exists>s1 t. pop_rq s = (s1, Some t) \<and> zombie s1 t \<and> J (push_rq t s1)" and "J s"
  shows "pick_thread s = None"
proof (rule ccontr)
  assume "pick_thread s \<noteq> None"
  then obtain r where "pick_thread s = Some r" by blast
  then have "\<not> J s"
  proof (rule pick_thread.raw_induct[of "\<lambda>s r. \<not> J s", rotated])
    fix pick :: "kern \<Rightarrow> (kern \<times> nat option) option" and s r
    assume IH: "\<And>s r. pick s = Some r \<Longrightarrow> \<not> J s"
      and e: "(case pop_rq s of (s1, target) \<Rightarrow> (case target of None \<Rightarrow> Some (s1, None)
         | Some t \<Rightarrow> if zombie s1 t then pick (push_rq t s1) else Some (s1, Some t))) = Some r"
    show "\<not> J s"
    proof
      assume "J s"
      from J[OF this] obtain s1 t where st: "pop_rq s = (s1, Some t)" "zombie s1 t" "J (push_rq t s1)" by blast
      with e have "pick (push_rq t s1) = Some r" by simp
      from IH[OF this] st(3) show False by blast
    qed
  qed
  with \<open>J s\<close> show False by blast
qed

interpretation rdy: ready_queue rq push_rq pop_rq zombie pick_thread same_threads
proof unfold_locales
  fix s t u :: kern and xs :: "nat list" and x :: nat and J :: "kern \<Rightarrow> bool"
  show "rq s xs \<Longrightarrow> distinct xs" by (simp add: rq_def)
  show "same_threads s s" by (simp add: same_threads_def)
  show "same_threads s t \<Longrightarrow> same_threads t u \<Longrightarrow> same_threads s u" by (simp add: same_threads_def)
  show "same_threads s t \<Longrightarrow> zombie t = zombie s" by (rule same_threadsD(5))
  show "rq s [] \<Longrightarrow> \<exists>s'. pop_rq s = (s', None) \<and> rq s' [] \<and> same_threads s s'"
    using rq_pop_nil[of s] pop_rq_fields(2)[of s] by (metis prod.collapse)
  show "rq s (x # xs) \<Longrightarrow> \<exists>s'. pop_rq s = (s', Some x) \<and> rq s' xs \<and> same_threads s s'"
    using rq_pop[of s x xs] pop_rq_fields(2)[of s] by (metis prod.collapse)
  show "rq s xs \<Longrightarrow> x \<notin> set xs \<Longrightarrow> rq (push_rq x s) (xs @ [x]) \<and> same_threads s (push_rq x s)"
    using rq_push push_rq_fields(5) by blast
  show "pick_thread s = (case pop_rq s of (s1, None) \<Rightarrow> Some (s1, None)
      | (s1, Some t) \<Rightarrow> if zombie s1 t then pick_thread (push_rq t s1) else Some (s1, Some t))"
    by (subst pick_thread.simps) (auto split: prod.split option.split)
  show "(\<And>s. J s \<Longrightarrow> \<exists>s1 t. pop_rq s = (s1, Some t) \<and> zombie s1 t \<and> J (push_rq t s1)) \<Longrightarrow> J s \<Longrightarrow> pick_thread s = None"
    by (rule pick_thread_stuck)
qed

section \<open>\<open>schedule\<close>\<close>

lemma rq_mask [simp]: "rq (enable_interrupt s) xs = rq s xs" "rq (disable_interrupt s) xs = rq s xs"
  "rq (s\<lparr>curr_thread := i\<rparr>) xs = rq s xs"
  by (simp_all add: rq_def tnext_def[abs_def] tprev_def[abs_def])

lemma zombie_mask [simp]: "zombie (enable_interrupt s) = zombie s" "zombie (disable_interrupt s) = zombie s"
  "zombie (s\<lparr>curr_thread := i\<rparr>) = zombie s"
  by (simp_all add: zombie_def fun_eq_iff)

lemma rq_head: "rq s xs \<Longrightarrow> RQ_head s = None \<longleftrightarrow> xs = []"
  by (cases xs) (auto simp: rq_def)

lemma schedule_empty: "rq s [] \<Longrightarrow> schedule s = Some (enable_interrupt (disable_interrupt s))"
  using rq_head[of s "[]"] by (simp add: schedule_def Let_def)

lemma schedule_live:
  assumes q: "rq s (zs @ t # ws)" and z: "\<forall>i \<in> set zs. zombie s i" "\<not> zombie s t"
    and c: "curr_thread s \<notin> set (zs @ t # ws)"
  shows "\<exists>s'. schedule s = Some s' \<and> curr_thread s' = t \<and> zombie s' = zombie s \<and>
    rq s' (ws @ zs @ (if zombie s (curr_thread s) then [] else [curr_thread s])) \<and> mem s' = mem s \<and> con s' = con s \<and>
    (\<forall>i. unlinked (threads s' i) = unlinked (threads s i)) \<and> off_queue s' = off_queue (s\<lparr>curr_thread := t\<rparr>)"
proof -
  let ?s0 = "disable_interrupt s"
  have q0: "rq ?s0 (zs @ t # ws)" using q by simp
  obtain y where h: "RQ_head ?s0 = Some y" using rq_head[OF q0] by auto
  obtain s1 where s1: "pick_thread ?s0 = Some (s1, Some t)" "rq s1 (ws @ zs)" "same_threads ?s0 s1"
    using rdy.pick_live[OF q0] z by auto
  note d1 = same_threadsD[OF s1(3)]
  let ?s2 = "s1\<lparr>curr_thread := t\<rparr>"
  let ?s3 = "if \<not> zombie ?s2 (curr_thread s) then push_rq (curr_thread s) ?s2 else ?s2"
  have r: "schedule s = Some (enable_interrupt ?s3)" using h s1(1) by (simp add: schedule_def Let_def)
  have q2: "rq ?s2 (ws @ zs)" using s1(2) by simp
  have "rq ?s3 (ws @ zs @ (if zombie s (curr_thread s) then [] else [curr_thread s]))"
    using rq_push[OF q2, of "curr_thread s"] c d1(5) q2 by auto
  moreover have st: "same_threads ?s2 ?s3" using push_rq_fields(5) rdy.same_refl by simp
  note d3 = same_threadsD[OF st]
  moreover have "off_queue ?s3 = off_queue (s\<lparr>curr_thread := t\<rparr>)"
  proof -
    have "off_queue (s'\<lparr>curr_thread := t\<rparr>) = (off_queue s')\<lparr>curr_thread := t\<rparr>" for s' by (simp add: off_queue_def)
    then show ?thesis using st s1(3) by (simp add: same_threads_def)
  qed
  ultimately show ?thesis using r d1 d3 by (intro exI[of _ "enable_interrupt ?s3"]) simp
qed

lemma schedule_stuck:
  assumes "rq s xs" "xs \<noteq> []" "\<forall>i \<in> set xs. zombie s i"
  shows "schedule s = None"
proof -
  have "rq (disable_interrupt s) xs" using assms(1) by simp
  from rdy.pick_dead[OF this assms(2)] rq_head[OF this] assms show ?thesis
    by (simp add: schedule_def Let_def)
qed

section \<open>Many turns\<close>

primrec schedule_n :: "nat \<Rightarrow> kern \<Rightarrow> kern option" where
  "schedule_n 0 s = Some s"
| "schedule_n (Suc n) s = (case schedule s of None \<Rightarrow> None | Some s1 \<Rightarrow> schedule_n n s1)"

definition runnable :: "kern \<Rightarrow> nat list \<Rightarrow> nat list" where
  "runnable s xs = filter (\<lambda>i. \<not> zombie s i) xs"

lemma filter_eq_ConsD_append: "filter P xs = t # us \<Longrightarrow>
    \<exists>zs ws. xs = zs @ t # ws \<and> (\<forall>z \<in> set zs. \<not> P z) \<and> P t \<and> us = filter P ws"
  by (auto simp: filter_eq_Cons_iff)

lemma schedule_turn:
  assumes q: "rq s xs" and c: "curr_thread s \<notin> set xs" "\<not> zombie s (curr_thread s)" and l: "runnable s xs = t # us"
  shows "\<exists>s' ys. schedule s = Some s' \<and> rq s' ys \<and> curr_thread s' = t \<and> t \<notin> set ys \<and>
    insert t (set ys) = insert (curr_thread s) (set xs) \<and> zombie s' = zombie s \<and> runnable s' ys = us @ [curr_thread s]"
proof -
  obtain zs ws where xs: "xs = zs @ t # ws" "\<forall>z \<in> set zs. zombie s z" "\<not> zombie s t" "us = runnable s ws"
    using filter_eq_ConsD_append[OF l[unfolded runnable_def]] by (auto simp: runnable_def)
  obtain s' where s': "schedule s = Some s'" "curr_thread s' = t" "zombie s' = zombie s" "rq s' (ws @ zs @ [curr_thread s])"
    using schedule_live[of s zs t ws] q c xs by auto
  have d: "distinct xs" using q by (simp add: rq_def)
  have "runnable s' (ws @ zs @ [curr_thread s]) = us @ [curr_thread s]"
    using s'(3) xs(2,4) c(2) by (simp add: runnable_def)
  then show ?thesis using s' d c(1) xs(1)
    by (intro exI[of _ s'] exI[of _ "ws @ zs @ [curr_thread s]"]) auto
qed

lemma schedule_n_rotates:
  assumes "rq s xs" "curr_thread s \<notin> set xs" "\<not> zombie s (curr_thread s)" "runnable s xs \<noteq> []"
  shows "\<exists>s' ys. schedule_n n s = Some s' \<and> rq s' ys \<and> curr_thread s' \<notin> set ys \<and> zombie s' = zombie s \<and>
    curr_thread s' # runnable s' ys = rotate n (curr_thread s # runnable s xs)"
  using assms
proof (induction n arbitrary: s xs)
  case (Suc n)
  obtain t us where l: "runnable s xs = t # us" using Suc.prems(4) by (cases "runnable s xs") auto
  obtain s1 ys where s1: "schedule s = Some s1" "rq s1 ys" "curr_thread s1 = t" "t \<notin> set ys" "zombie s1 = zombie s"
    "runnable s1 ys = us @ [curr_thread s]"
    using schedule_turn[OF Suc.prems(1-3) l] by auto
  have "t \<in> set (runnable s xs)" using l by simp
  then have "\<not> zombie s t" by (simp add: runnable_def)
  then obtain s' zs where "schedule_n n s1 = Some s'" "rq s' zs" "curr_thread s' \<notin> set zs" "zombie s' = zombie s1"
    "curr_thread s' # runnable s' zs = rotate n (t # us @ [curr_thread s])"
    using Suc.IH[of s1 ys] s1(2-6) by auto
  moreover have "rotate n (t # us @ [curr_thread s]) = rotate (Suc n) (curr_thread s # t # us)"
    by (simp add: rotate1_rotate_swap)
  ultimately show ?case using s1 l by auto
qed auto

text \<open>Every runnable thread gets the processor.\<close>

lemma schedule_n_fair:
  assumes "rq s xs" "curr_thread s \<notin> set xs" "\<not> zombie s (curr_thread s)" and i: "i < length (runnable s xs)"
  shows "\<exists>s'. schedule_n (Suc i) s = Some s' \<and> curr_thread s' = runnable s xs ! i"
proof -
  have "runnable s xs \<noteq> []" using i by auto
  from schedule_n_rotates[OF assms(1-3) this, of "Suc i"] obtain s' ys where s': "schedule_n (Suc i) s = Some s'"
    "curr_thread s' # runnable s' ys = rotate (Suc i) (curr_thread s # runnable s xs)" by blast
  have "curr_thread s' = hd (rotate (Suc i) (curr_thread s # runnable s xs))" by (simp only: s'(2)[symmetric] list.sel)
  also have "\<dots> = (curr_thread s # runnable s xs) ! (Suc i)"
    using i by (subst hd_rotate_conv_nth) simp_all
  finally show ?thesis using s'(1) by simp
qed

section \<open>Leaving\<close>

text \<open>A thread that exits is marked and left out: nothing links to it, so a walk over the run queue
  never meets it.\<close>

lemma set_status_rq [simp]: "rq (set_thread (\<lambda>x. x\<lparr>t_status := v\<rparr>) i s) xs = rq s xs"
proof -
  have "tnext (set_thread (\<lambda>x. x\<lparr>t_status := v\<rparr>) i s) = tnext s" "tprev (set_thread (\<lambda>x. x\<lparr>t_status := v\<rparr>) i s) = tprev s"
    by (simp_all add: fun_eq_iff tnext_def tprev_def)
  then show ?thesis by (simp add: rq_def)
qed

lemma thread_exit_leaves:
  assumes q: "rq s xs" "curr_thread s \<notin> set xs" and l: "runnable s xs = t # us"
  shows "\<exists>s' ys. thread_exit s = Some s' \<and> rq s' ys \<and> curr_thread s' = t \<and> zombie s' (curr_thread s) \<and>
    curr_thread s \<notin> insert t (set ys) \<and> insert t (set ys) = set xs \<and> runnable s' ys = us"
proof -
  let ?s1 = "enable_interrupt (set_thread (\<lambda>x. x\<lparr>t_status := THREAD_ZOMBIE\<rparr>) (curr_thread s) (disable_interrupt s))"
  have e: "thread_exit s = schedule ?s1" by (simp add: thread_exit_def Let_def)
  have z: "zombie ?s1 i = (i = curr_thread s \<or> zombie s i)" for i by (auto simp: zombie_def)
  obtain zs ws where xs: "xs = zs @ t # ws" "\<forall>z \<in> set zs. zombie s z" "\<not> zombie s t" "us = runnable s ws"
    using filter_eq_ConsD_append[OF l[unfolded runnable_def]] by (auto simp: runnable_def)
  have tc: "t \<noteq> curr_thread s" "curr_thread s \<notin> set ws" using q(2) xs(1) by auto
  obtain s' where s': "schedule ?s1 = Some s'" "curr_thread s' = t" "zombie s' = zombie ?s1" "rq s' (ws @ zs)"
    using schedule_live[of ?s1 zs t ws] q xs z tc by auto
  have d: "distinct xs" using q by (simp add: rq_def)
  have "filter (\<lambda>i. \<not> zombie ?s1 i) ws = us" "filter (\<lambda>i. \<not> zombie ?s1 i) zs = []"
    using xs(2,4) tc(2) by (auto simp only: z runnable_def filter_empty_conv intro!: filter_cong)
  then have "runnable s' (ws @ zs) = us" by (simp add: runnable_def s'(3))
  then show ?thesis unfolding e using s' z xs(1) q(2) d tc
    by (intro exI[of _ s'] exI[of _ "ws @ zs"]) auto
qed

end
