(* ===== verification/Irq.thy ===== *)
theory Irq
  imports Irqtask Runq
begin

text \<open>
  The interrupt entry of \<open>kernel/src/exception.c\<close>: \<open>irq_router\<close> and \<open>irq_router2\<close>, with the
  handlers they put into the task queue.  The pending registers are read from a record.  After
  \<open>schedule\<close> the code goes on in the thread that was switched to, at the same place; the last
  step masks interrupts there.
\<close>

section \<open>The handlers\<close>

definition UART_IRQ_PRIORITY :: "64 word" where "UART_IRQ_PRIORITY = 1"
definition TIMER_IRQ_PRIORITY :: "64 word" where "TIMER_IRQ_PRIORITY = 0"

definition run_task :: "kfun \<Rightarrow> kern \<Rightarrow> kern option" where
  "run_task f s =
     (case f of
        Uart_w_irq_handler \<Rightarrow> Some (s\<lparr>con := uart_w_irq_handler (con s)\<rparr>)
      | Uart_r_irq_handler \<Rightarrow> map_option (\<lambda>c. s\<lparr>con := c\<rparr>) (uart_r_irq_handler (con s))
      | Core_timer_handler \<Rightarrow> core_timer_handler s
      | _ \<Rightarrow> None)"

section \<open>The routers\<close>

record irq_regs =
  pending_1 :: "32 word"            \<comment> \<open>\<open>IRQ_PENDING_1\<close>\<close>
  core0_source :: "32 word"         \<comment> \<open>\<open>CORE0_INTERRUPT_SOURCE\<close>\<close>
  aux_iir :: "32 word"              \<comment> \<open>\<open>AUX_MU_IIR_REG\<close>\<close>

definition add_and_run :: "kfun \<Rightarrow> 64 word \<Rightarrow> kern \<Rightarrow> kern option" where
  "add_and_run f p s = (case irqtask_add f p s of None \<Rightarrow> None
     | Some s1 \<Rightarrow> map_option fst (irqtask_run_preemptive run_task s1))"

definition timer_irq :: "irq_regs \<Rightarrow> bool" where
  "timer_irq r \<longleftrightarrow> core0_source r AND push_bit 1 1 \<noteq> 0"

definition uart_irq :: "irq_regs \<Rightarrow> bool" where
  "uart_irq r \<longleftrightarrow> pending_1 r AND push_bit 29 1 \<noteq> 0 \<and> core0_source r AND push_bit 8 1 \<noteq> 0"

definition irq_router :: "irq_regs \<Rightarrow> kern \<Rightarrow> kern option" where
  "irq_router r s =
     map_option el1_interrupt_disable
     (if uart_irq r then
        (if aux_iir r AND push_bit 1 1 \<noteq> 0 then
           add_and_run Uart_w_irq_handler UART_IRQ_PRIORITY (s\<lparr>con := tx_irq_off (con s)\<rparr>)
         else if aux_iir r AND push_bit 1 2 \<noteq> 0 then
           add_and_run Uart_r_irq_handler UART_IRQ_PRIORITY (s\<lparr>con := rx_irq_off (con s)\<rparr>)
         else Some s)
      else if timer_irq r then
        (case add_and_run Core_timer_handler TIMER_IRQ_PRIORITY (core_timer_disable s) of None \<Rightarrow> None
         | Some s1 \<Rightarrow> schedule (el1_interrupt_disable (core_timer_enable s1)))
      else Some s)"

definition irq_router2 :: "irq_regs \<Rightarrow> kern \<Rightarrow> kern option" where
  "irq_router2 r s =
     (if SAFE_DEMO s then
        (if timer_irq r then
           (case add_and_run Core_timer_handler TIMER_IRQ_PRIORITY (core_timer_disable s) of None \<Rightarrow> None
            | Some s1 \<Rightarrow> schedule (core_timer_enable s1))
         else Some s)
      else irq_router r s)"

section \<open>What the handlers keep\<close>

text \<open>The task queue and the run queue are no business of the timer code.\<close>

definition task_part :: "kern \<Rightarrow> (addr \<Rightarrow> irqtask_t) \<times> addr \<times> addr \<times> int \<times> (nat \<Rightarrow> thread_t) \<times> nat \<times> nat ptr \<times> nat ptr" where
  "task_part s = (itasks s, task_head s, task_tail s, curr_task_priority s, threads s, curr_thread s, RQ_head s, RQ_tail s)"

lemma task_part_upd [simp]:
  "task_part (set_event f a s) = task_part s" "task_part (s\<lparr>bytes := m\<rparr>) = task_part s"
  "task_part (enable_interrupt s) = task_part s" "task_part (disable_interrupt s) = task_part s"
  "task_part (set_core_timer_interrupt_by_tick t s) = task_part s"
  "task_part (set_core_timer_interrupt u s) = task_part s" "task_part (s\<lparr>con := c\<rparr>) = task_part s"
  by (simp_all add: task_part_def set_event_def set_core_timer_interrupt_by_tick_def set_core_timer_interrupt_def)

lemma task_part_quiet: "quiet s' = quiet s \<Longrightarrow> task_part s' = task_part s"
  by (simp add: task_part_def quietD[of s' s])

lemma knew_task_part: "knew n s = Some (s', a) \<Longrightarrow> task_part s' = task_part s"
  by (auto simp: knew_def split: option.splits if_splits elim!: kalloc_SomeD intro: task_part_quiet)

lemma krelease_task_part: "krelease a s = Some s' \<Longrightarrow> task_part s' = task_part s"
  by (cases "a = 0") (simp add: krelease_def, auto elim: krelease_SomeD intro: task_part_quiet)

lemma timer_link_task_part [simp]: "task_part (timer_link c a s) = task_part s"
  by (simp add: timer_link_def Let_def split: option.split)

lemma timer_unlink_task_part [simp]: "task_part (timer_unlink a s) = task_part s"
  by (simp add: timer_unlink_def split: option.split)

lemma add_timer_task_part: "add_timer cb t args bt s = Some s' \<Longrightarrow> task_part s' = task_part s"
  by (auto simp: add_timer_def Let_def split: option.splits dest!: knew_task_part)

lemma timer_call_task_part: "timer_call cb args s = Some s' \<Longrightarrow> task_part s' = task_part s"
  by (auto simp: timer_call_def schedule_timer_def split: kfun.splits option.splits sum.splits dest: add_timer_task_part)

lemma core_timer_handler_task_part: "core_timer_handler s = Some s' \<Longrightarrow> task_part s' = task_part s"
  by (auto simp: core_timer_handler_def timer_event_callback_def Let_def split: option.splits if_splits
      dest!: krelease_task_part timer_call_task_part)

lemma run_task_task_part: "run_task f s = Some s' \<Longrightarrow> task_part s' = task_part s"
  by (auto simp: run_task_def split: kfun.splits dest: core_timer_handler_task_part)

section \<open>The handlers satisfy the interface of tasks\<close>

definition timer_good :: "kern \<Rightarrow> bool" where "timer_good s \<longleftrightarrow> (\<exists>xs. timers_at s xs)"

definition timer_own :: "kern \<Rightarrow> addr set" where
  "timer_own s = {a. \<exists>xs. timers_at s xs \<and> a \<in> set (timer_blocks s xs)}"

lemma timer_own: "timers_at s xs \<Longrightarrow> timer_own s = set (timer_blocks s xs)"
  using timers_at_unique unfolding timer_own_def by blast

text \<open>A run of the timer interrupt that returns: the event's callback was one of the two.\<close>

lemma core_timer_step:
  assumes at: "timers_at s xs" and r: "core_timer_handler s = Some s'"
  obtains ys where "timers_at s' ys" "kblocks s - set (timer_blocks s xs) \<subseteq> kblocks s' - set (timer_blocks s' ys)"
proof (cases xs)
  case Nil
  have "is_timer_list_empty (disable_interrupt s)"
    using timers_at_empty[OF at] Nil by (simp add: is_timer_list_empty_def)
  with r have s': "s' = enable_interrupt (set_core_timer_interrupt 10000 (disable_interrupt s))"
    by (simp add: core_timer_handler_def Let_def)
  have "timers_at s' []" by (rule timers_at_mem) (use at Nil in \<open>auto simp: s' set_core_timer_interrupt_def\<close>)
  moreover have "kblocks s' = kblocks s" by (rule heap_cong) (simp add: s' set_core_timer_interrupt_def)
  moreover have "timer_blocks s' [] = timer_blocks s []"
    by (simp add: s' set_core_timer_interrupt_def timer_blocks_def)
  ultimately show thesis using that[of "[]"] Nil by simp
next
  case (Cons e es)
  from core_timer_handler_at[OF at[unfolded Cons] r] obtain ys where "handler_post e es s s' ys" by blast
  then show thesis using that[of ys] Cons by (simp add: handler_post_def)
qed

lemma run_task_at:
  assumes at: "timers_at s xs" and r: "run_task f s = Some s'"
  obtains ys where "timers_at s' ys" "kblocks s - set (timer_blocks s xs) \<subseteq> kblocks s' - set (timer_blocks s' ys)"
proof (cases "f = Core_timer_handler")
  case True
  with r core_timer_step[OF at] that show thesis by (auto simp: run_task_def)
next
  case False
  with r obtain c where s': "s' = s\<lparr>con := c\<rparr>" by (auto simp: run_task_def split: kfun.splits)
  have "timers_at s' xs" by (rule timers_at_mem[OF at]) (simp_all add: s')
  moreover have "kblocks s' = kblocks s" by (rule heap_cong) (simp add: s')
  moreover have "timer_blocks s' xs = timer_blocks s xs" by (simp add: s' timer_blocks_def ev_args_def)
  ultimately show thesis using that by simp
qed

interpretation ib: task_body run_task timer_good timer_own
proof unfold_locales
  fix s s' :: kern and f :: kfun
  show "timer_good s \<Longrightarrow> run_task f s = Some s' \<Longrightarrow> timer_good s'"
    unfolding timer_good_def using run_task_at by blast
  show "timer_good s \<Longrightarrow> heap_ok s \<and> timer_own s \<subseteq> kblocks s"
    unfolding timer_good_def timer_own_def by (auto simp: timers_at_def)
  show "timer_good s \<Longrightarrow> run_task f s = Some s' \<Longrightarrow> itasks s' = itasks s \<and> task_head s' = task_head s \<and>
      task_tail s' = task_tail s \<and> curr_task_priority s' = curr_task_priority s"
    using run_task_task_part[of f s s'] by (simp add: task_part_def)
  show "kblocks s - timer_own s \<subseteq> kblocks s' - timer_own s'" if g: "timer_good s" and r: "run_task f s = Some s'"
  proof -
    obtain xs where xs: "timers_at s xs" using g by (auto simp: timer_good_def)
    from run_task_at[OF xs r] obtain ys where "timers_at s' ys"
      "kblocks s - set (timer_blocks s xs) \<subseteq> kblocks s' - set (timer_blocks s' ys)" by blast
    with timer_own[OF xs] timer_own[of s' ys] show ?thesis by simp
  qed
  show "timer_good s' \<and> timer_own s' = timer_own s"
    if g: "timer_good s" and e: "tevents s' = tevents s" "timer_head s' = timer_head s" "timer_tail s' = timer_tail s"
      "heap_ok s'" "timer_own s \<subseteq> kblocks s'"
  proof -
    obtain xs where xs: "timers_at s xs" using g by (auto simp: timer_good_def)
    have "timers_at s' xs" by (rule timers_at_cong[OF xs]) (use e timer_own[OF xs] in simp_all)
    moreover have "timer_blocks s' xs = timer_blocks s xs" using e by (simp add: timer_blocks_def ev_args_def)
    ultimately show ?thesis using timer_own xs by (auto simp: timer_good_def)
  qed
qed

text \<open>The queue, the timers and the heap together.\<close>

lemma ready_iff: "ib.ready s xs \<longleftrightarrow> (\<exists>ys. timers_at s ys \<and> tasks_at s xs \<and> set (timer_blocks s ys) \<inter> task_blocks s xs = {})"
  unfolding ib.ready_def timer_good_def using timer_own by metis

section \<open>Entering a task and running what is due\<close>

text \<open>Nothing in the queue is more urgent than the task that runs.\<close>

definition settled :: "kern \<Rightarrow> addr list \<Rightarrow> bool" where
  "settled s xs \<longleftrightarrow> ib.ready s xs \<and> (\<forall>x \<in> set xs. \<not> ib.urgent s x)"

lemma add_ready:
  assumes rd: "ib.ready s xs" and post: "irqtask_add_post f p xs s s1"
  obtains a where "a \<notin> set xs" "ib.ready s1 (ins_by (tk_prio s1) a xs)" "tk_fun s1 a = f" "tk_prio s1 a = p"
    "\<forall>x \<in> set xs. tk_fun s1 x = tk_fun s x \<and> tk_prio s1 x = tk_prio s x" "curr_task_priority s1 = curr_task_priority s"
proof -
  obtain a where a: "a \<notin> kblocks s" "tk_fun s1 a = f" "tk_prio s1 a = p" "tasks_at s1 (ins_by (tk_prio s1) a xs)"
    "kblocks s1 = insert a (kblocks s)" "\<forall>x \<in> set xs. tk_fun s1 x = tk_fun s x \<and> tk_prio s1 x = tk_prio s x"
    "curr_task_priority s1 = curr_task_priority s" "task_head s1 = task_head s" "task_tail s1 = task_tail s"
    "tevents s1 = tevents s" "timer_head s1 = timer_head s" "timer_tail s1 = timer_tail s"
    using post unfolding irqtask_add_post_def by blast
  obtain ys where ys: "timers_at s ys" "tasks_at s xs" "set (timer_blocks s ys) \<inter> task_blocks s xs = {}"
    using rd by (auto simp: ready_iff)
  have sub: "set (timer_blocks s ys) \<subseteq> kblocks s" "task_blocks s xs \<subseteq> kblocks s" using ys by (simp_all add: timers_at_def tasks_at_def)
  have "timers_at s1 ys" by (rule timers_at_cong[OF ys(1)]) (use a sub in \<open>auto simp: tasks_at_def\<close>)
  moreover have "timer_blocks s1 ys = timer_blocks s ys" using a by (simp add: timer_blocks_def ev_args_def)
  moreover have "task_blocks s1 (ins_by (tk_prio s1) a xs) = insert a (task_blocks s xs)"
    using a(8,9) by (auto simp: task_blocks_def)
  ultimately have "ib.ready s1 (ins_by (tk_prio s1) a xs)" unfolding ready_iff using a(1,4) ys(3) sub by (intro exI[of _ ys]) auto
  moreover have "a \<notin> set xs" using a(1) sub(2) by (auto simp: task_blocks_def)
  ultimately show thesis using that a by blast
qed

lemma ins_by_front: "\<forall>x \<in> set xs. key a < (key x :: 'k::linorder) \<Longrightarrow> ins_by key a xs = a # xs"
  by (cases xs) (auto simp: ins_by_def not_le[symmetric])

text \<open>From a settled queue: a more urgent task runs at once and alone; any other waits, and the queue
  stays settled.\<close>

lemma add_and_run_settled:
  assumes st: "settled s xs" and r: "add_and_run f p s = Some s'"
  shows "curr_task_priority s' = curr_task_priority s \<and>
    (if p < word_of_int (curr_task_priority s)
     then settled s' xs \<and> (\<exists>s1. irqtask_add f p s = Some s1 \<and> irqtask_run_preemptive run_task s1 = Some (s', [f]))
     else \<exists>a. a \<notin> set xs \<and> tk_fun s' a = f \<and> tk_prio s' a = p \<and> settled s' (ins_by (tk_prio s') a xs) \<and>
       (\<exists>s1. irqtask_add f p s = Some s1 \<and> irqtask_run_preemptive run_task s1 = Some (s', [])))"
proof -
  let ?p = "word_of_int (curr_task_priority s) :: 64 word"
  have rd: "ib.ready s xs" and ge: "\<And>x. x \<in> set xs \<Longrightarrow> ?p \<le> tk_prio s x"
    using st by (auto simp: settled_def ib.urgent_def not_less)
  obtain s1 fs where s1: "irqtask_add f p s = Some s1" "irqtask_run_preemptive run_task s1 = Some (s', fs)"
    using r by (auto simp: add_and_run_def split: option.splits)
  have at: "tasks_at s xs" using rd by (simp add: ib.ready_def)
  have "\<nexists>t. kalloc 32 s = Some (t, 0)" using s1(1) by (auto simp: irqtask_add_def knew_def split: option.splits)
  with irqtask_add_at[OF at, of f p] s1(1) have "irqtask_add_post f p xs s s1" by auto
  from add_ready[OF rd this] obtain a where a: "a \<notin> set xs" "ib.ready s1 (ins_by (tk_prio s1) a xs)" "tk_fun s1 a = f"
    "tk_prio s1 a = p" "\<forall>x \<in> set xs. tk_fun s1 x = tk_fun s x \<and> tk_prio s1 x = tk_prio s x"
    "curr_task_priority s1 = curr_task_priority s" .
  have post: "ib.run_post s1 (ins_by (tk_prio s1) a xs) s' fs" by (rule ib.run_correct[OF a(2) s1(2)])
  have pr: "tk_prio s' = tk_prio s1" "tk_fun s' = tk_fun s1" "curr_task_priority s' = curr_task_priority s1"
    using post by (auto simp: ib.run_post_def fun_eq_iff)
  have u: "ib.urgent s1 x \<longleftrightarrow> tk_prio s1 x < ?p" "ib.urgent s' x \<longleftrightarrow> tk_prio s1 x < ?p" for x
    by (simp_all add: ib.urgent_def a(6) pr)
  have nu: "\<not> ib.urgent s1 x" if "x \<in> set xs" for x using that ge a(5) by (simp add: u not_less)
  show ?thesis
  proof (cases "p < ?p")
    case True
    have "ins_by (tk_prio s1) a xs = a # xs"
    proof (rule ins_by_front, rule ballI)
      fix x assume x: "x \<in> set xs"
      then show "tk_prio s1 a < tk_prio s1 x" using True ge[OF x] a(4,5) by simp
    qed
    moreover have "takeWhile (ib.urgent s1) (a # xs) = [a]" "dropWhile (ib.urgent s1) (a # xs) = xs"
      using True a(4) nu by (cases xs; simp add: u)+
    ultimately have "fs = [f]" "ib.ready s' xs" using post a(3) by (simp_all add: ib.run_post_def)
    then show ?thesis using True s1 a(6) pr(3) nu u by (simp add: settled_def)
  next
    case False
    then have na: "\<not> ib.urgent s1 x" if "x \<in> set (ins_by (tk_prio s1) a xs)" for x using that nu a(4) u by auto
    then have "takeWhile (ib.urgent s1) (ins_by (tk_prio s1) a xs) = []"
      "dropWhile (ib.urgent s1) (ins_by (tk_prio s1) a xs) = ins_by (tk_prio s1) a xs"
      by (cases "ins_by (tk_prio s1) a xs"; simp)+
    with post have "fs = []" "ib.ready s' (ins_by (tk_prio s1) a xs)" by (simp_all add: ib.run_post_def)
    then have "settled s' (ins_by (tk_prio s') a xs)" using na u pr by (simp add: settled_def)
    with \<open>fs = []\<close> False s1 a(1,3,4,6) pr show ?thesis by (intro conjI) (simp_all, intro exI[of _ a], simp)
  qed
qed

lemma add_and_run_total:
  assumes st: "settled s xs" and rm: "roomy 1 s"
    and ret: "\<And>s1 a. irqtask_add f p s = Some s1 \<Longrightarrow> run_task f (ib.started s1 a) \<noteq> None"
  shows "\<exists>s'. add_and_run f p s = Some s'"
proof -
  have rd: "ib.ready s xs" and ge: "\<And>x. x \<in> set xs \<Longrightarrow> word_of_int (curr_task_priority s) \<le> tk_prio s x"
    using st by (auto simp: settled_def ib.urgent_def not_less)
  have at: "tasks_at s xs" using rd by (simp add: ib.ready_def)
  have rm': "roomy (Suc 0) s" using rm by simp
  obtain s1 where s1: "irqtask_add f p s = Some s1" "irqtask_add_post f p xs s s1" by (rule irqtask_add_room[OF at rm'])
  obtain a where a: "ib.ready s1 (ins_by (tk_prio s1) a xs)" "tk_fun s1 a = f"
    "\<forall>x \<in> set xs. tk_fun s1 x = tk_fun s x \<and> tk_prio s1 x = tk_prio s x" "curr_task_priority s1 = curr_task_priority s"
    using add_ready[OF rd s1(2)] by metis
  have nu: "\<not> ib.urgent s1 x" if "x \<in> set xs" for x using that ge a(3,4) by (simp add: ib.urgent_def not_less)
  show ?thesis
  proof (cases "ib.urgent s1 a")
    case True
    have "ins_by (tk_prio s1) a xs = a # xs"
      by (rule ins_by_front) (use True nu in \<open>force simp: ib.urgent_def not_less\<close>)
    with a(1) have rd1: "ib.ready s1 (a # xs)" by simp
    obtain s3 where "run_task (tk_fun s1 a) (ib.started s1 a) = Some s3" using ret[OF s1(1), of a] a(2) by auto
    from ib.run_step[OF rd1 True this] obtain s5 where s5: "ib.ready s5 xs" "curr_task_priority s5 = curr_task_priority s1"
      "tk_prio s5 = tk_prio s1" "irqtask_run_preemptive run_task s1 =
        Option.bind (irqtask_run_preemptive run_task s5) (\<lambda>(s', fs). Some (s', tk_fun s1 a # fs))" by blast
    have "xs = [] \<or> \<not> ib.urgent s5 (hd xs)" using nu[of "hd xs"] s5(2,3) by (cases xs) (auto simp: ib.urgent_def)
    with ib.run_stop[OF s5(1)] s5(4) s1(1) show ?thesis by (simp add: add_and_run_def)
  next
    case False
    have "\<not> ib.urgent s1 (hd (ins_by (tk_prio s1) a xs))"
    proof -
      have "hd (ins_by (tk_prio s1) a xs) \<in> set (ins_by (tk_prio s1) a xs)" by (rule hd_in_set) (simp add: ins_by_def)
      then show ?thesis using False nu by auto
    qed
    with ib.run_stop[OF a(1)] s1(1) show ?thesis by (simp add: add_and_run_def)
  qed
qed

section \<open>The timer interrupt\<close>

text \<open>The queue and the timers depend on these fields only; the scheduler touches none of them.\<close>

lemma ready_part:
  assumes "ib.ready s xs" "mem s' = mem s" "tevents s' = tevents s" "timer_head s' = timer_head s" "timer_tail s' = timer_tail s"
    "itasks s' = itasks s" "task_head s' = task_head s" "task_tail s' = task_tail s"
  shows "ib.ready s' xs"
proof -
  obtain ys where ys: "timers_at s ys" "tasks_at s xs" "set (timer_blocks s ys) \<inter> task_blocks s xs = {}"
    using assms(1) by (auto simp: ready_iff)
  have "timers_at s' ys" by (rule timers_at_mem[OF ys(1) assms(3-5,2)])
  moreover have "tasks_at s' xs"
    by (rule tasks_at_cong[OF ys(2) assms(6-8)]) (use ys(2) heap_cong[OF assms(2)] in \<open>simp_all add: tasks_at_def\<close>)
  moreover have "timer_blocks s' ys = timer_blocks s ys" "task_blocks s' xs = task_blocks s xs"
    by (simp_all add: assms timer_blocks_def ev_args_def task_blocks_def)
  ultimately show ?thesis using ys(3) unfolding ready_iff by (intro exI[of _ ys]) simp
qed

definition sched_part :: "kern \<Rightarrow> kmem \<times> (addr \<Rightarrow> timer_event_t) \<times> addr \<times> addr \<times> (addr \<Rightarrow> irqtask_t) \<times> addr \<times> addr \<times>
    64 word \<times> bool" where
  "sched_part s = (mem s, tevents s, timer_head s, timer_tail s, itasks s, task_head s, task_tail s, timer_cval s, core_timer_on s)"

lemma sched_part_upd [simp]:
  "sched_part (set_thread f i s) = sched_part s" "sched_part (s\<lparr>RQ_head := h\<rparr>) = sched_part s"
  "sched_part (s\<lparr>RQ_tail := h\<rparr>) = sched_part s" "sched_part (s\<lparr>curr_thread := c\<rparr>) = sched_part s"
  by (simp_all add: sched_part_def set_thread_def)

lemma sched_part_mask [simp]: "sched_part (enable_interrupt s) = sched_part s" "sched_part (disable_interrupt s) = sched_part s"
  by (simp_all add: sched_part_def enable_interrupt_def disable_interrupt_def Let_def)

lemma push_rq_sched_part [simp]: "sched_part (push_rq t s) = sched_part s"
  by (simp add: push_rq_def Let_def split: option.split)

lemma pop_rq_sched_part: "pop_rq s = (s', t) \<Longrightarrow> sched_part s' = sched_part s"
  by (auto simp: pop_rq_def Let_def split: option.splits)

lemma pick_thread_sched_part: "pick_thread s = Some r \<Longrightarrow> sched_part (fst r) = sched_part s"
proof (rule pick_thread.raw_induct[of "\<lambda>s r. sched_part (fst r) = sched_part s", rotated])
  fix pick :: "kern \<Rightarrow> (kern \<times> nat option) option" and s r
  assume IH: "\<And>s r. pick s = Some r \<Longrightarrow> sched_part (fst r) = sched_part s"
    and e: "(case pop_rq s of (s1, target) \<Rightarrow> (case target of None \<Rightarrow> Some (s1, None)
       | Some t \<Rightarrow> if zombie s1 t then pick (push_rq t s1) else Some (s1, Some t))) = Some r"
  obtain s1 target where p: "pop_rq s = (s1, target)" by fastforce
  show "sched_part (fst r) = sched_part s"
    using e pop_rq_sched_part[OF p] by (auto simp: p split: option.splits if_splits dest: IH)
qed

lemma schedule_sched_part: "schedule s = Some s' \<Longrightarrow> sched_part s' = sched_part s"
  by (auto simp: schedule_def Let_def split: option.splits if_splits dest!: pick_thread_sched_part)

lemma quiet_priority: "quiet (s\<lparr>curr_task_priority := p\<rparr>) = (quiet s)\<lparr>curr_task_priority := p\<rparr>"
  by (simp add: quiet_def)

lemma run_one:
  assumes rd: "ib.ready s [a]" and u: "ib.urgent s a" and c: "run_task (tk_fun s a) (ib.started s a) = Some s3"
  obtains s' where "irqtask_run_preemptive run_task s = Some (s', [tk_fun s a])" "ib.ready s' []"
    "quiet s' = quiet (s3\<lparr>curr_task_priority := curr_task_priority s\<rparr>)"
proof -
  obtain s4 where s4: "krelease a (disable_interrupt s3) = Some s4"
    "ib.ready (enable_interrupt (s4\<lparr>curr_task_priority := curr_task_priority s\<rparr>)) []"
    by (rule ib.run_round[OF rd c ib.started_def])
  let ?s5 = "enable_interrupt (s4\<lparr>curr_task_priority := curr_task_priority s\<rparr>)"
  have st: "irqtask_run_preemptive run_task ?s5 = Some (enable_interrupt (disable_interrupt ?s5), [])"
    by (rule ib.run_stop[OF s4(2)]) simp
  then have r: "irqtask_run_preemptive run_task s = Some (enable_interrupt (disable_interrupt ?s5), [tk_fun s a])"
    using ib.run_unfold[OF rd u] c s4(1) by simp
  have "quiet s4 = quiet (disable_interrupt s3)"
    using s4(1) by (cases "a = 0") (simp add: krelease_def, auto elim: krelease_SomeD)
  then have "quiet (s4\<lparr>curr_task_priority := curr_task_priority s\<rparr>) = quiet (s3\<lparr>curr_task_priority := curr_task_priority s\<rparr>)"
    by (simp add: quiet_priority)
  then show thesis using that[OF r] ib.ready_mask s4(2) by simp
qed

lemma timers_at_events:
  assumes "timers_at s xs" "timers_at s' ys" "tevents s' = tevents s" "timer_head s' = timer_head s" "timer_tail s' = timer_tail s"
  shows "ys = xs"
proof -
  have "tl.ordered s' xs" by (rule ordered_cong) (use assms in \<open>simp_all add: timers_at_def\<close>)
  then show ?thesis using assms(2) tl.rep_unique unfolding timers_at_def tl.ordered_def by blast
qed

text \<open>Running the handler of a tick through the queue.\<close>

lemma handler_post_tick:
  assumes at: "timers_at s (e # es)" and post: "handler_post e es s s' ys" and cb: "ev_call s e = Schedule_timer"
  obtains n where "n \<in> set ys" "ev_call s' n = Schedule_timer" "ev_time s' n = cntpct s + drop_bit 5 (cntfrq s)"
    "length ys = Suc (length es)" "set es \<subseteq> set ys" "timer_cval s' = ev_time s' (hd ys)"
proof -
  obtain n where n: "n \<notin> kblocks s" "ev_call s' n = Schedule_timer" "ev_time s' n = cntpct s + drop_bit 5 (cntfrq s)"
    "ys = remove1 e (ins_by (ev_time s') n (e # es))"
    and cv: "timer_cval s' = (if ys = [] then cntpct s + scast (ucast (cntfrq s * 10000) :: 32 word) else ev_time s' (hd ys))"
    using post cb unfolding handler_post_def by auto
  have d: "distinct (e # es)" "e \<in> kblocks s" "set es \<subseteq> kblocks s"
    using at by (auto simp: timers_at_def timer_blocks_def)
  have "distinct (ins_by (ev_time s') n (e # es))" by (rule distinct_ins_by[OF d(1)]) (use n(1) d in auto)
  then have st: "set ys = insert n (set es)" using n(1,4) d by auto
  have ln: "length ys = Suc (length es)" using n(4) by (simp add: length_remove1 length_ins_by)
  then have "timer_cval s' = ev_time s' (hd ys)" using cv by auto
  with that n(2,3) st ln show thesis by blast
qed

text \<open>Running the handler of a tick through the queue.\<close>

definition tick_post :: "addr list \<Rightarrow> kern \<Rightarrow> kern \<Rightarrow> addr list \<Rightarrow> bool" where
  "tick_post es s s' ys \<longleftrightarrow> timers_at s' ys \<and> length ys = Suc (length es) \<and> set es \<subseteq> set ys \<and>
     (\<forall>x \<in> set es. ev_call s' x = ev_call s x \<and> ev_time s' x = ev_time s x) \<and>
     (\<exists>n \<in> set ys. ev_call s' n = Schedule_timer \<and> ev_time s' n = cntpct s + drop_bit 5 (cntfrq s)) \<and>
     timer_cval s' = ev_time s' (hd ys)"

lemma timer_tick_runs:
  assumes rd: "ib.ready s []" and at: "timers_at s (e # es)" and cb: "ev_call s e = Schedule_timer"
    and rm: "roomy 3 s" and pr: "TIMER_IRQ_PRIORITY < word_of_int (curr_task_priority s)"
  obtains s' ys where "add_and_run Core_timer_handler TIMER_IRQ_PRIORITY s = Some s'" "ib.ready s' []"
    "tick_post es s s' ys" "threads s' = threads s" "curr_thread s' = curr_thread s" "RQ_head s' = RQ_head s"
    "RQ_tail s' = RQ_tail s"
proof -
  have ta: "tasks_at s []" using rd by (simp add: ib.ready_def)
  have rm': "roomy (Suc 2) s" using rm by simp
  obtain s1 where s1: "irqtask_add Core_timer_handler TIMER_IRQ_PRIORITY s = Some s1"
    "irqtask_add_post Core_timer_handler TIMER_IRQ_PRIORITY [] s s1" "roomy 2 s1"
    "threads s1 = threads s" "curr_thread s1 = curr_thread s" "RQ_head s1 = RQ_head s" "RQ_tail s1 = RQ_tail s"
    "cntpct s1 = cntpct s" "cntfrq s1 = cntfrq s"
    by (rule irqtask_add_room[OF ta rm'])
  obtain a where a: "ib.ready s1 [a]" "tk_fun s1 a = Core_timer_handler" "tk_prio s1 a = TIMER_IRQ_PRIORITY"
    "curr_task_priority s1 = curr_task_priority s"
    using add_ready[OF rd s1(2)] by (simp add: ins_by_def) metis
  have ev: "tevents s1 = tevents s" "timer_head s1 = timer_head s" "timer_tail s1 = timer_tail s" "kblocks s \<subseteq> kblocks s1"
    using s1(2) by (auto simp: irqtask_add_post_def)
  have at1: "timers_at s1 (e # es)"
    by (rule timers_at_cong[OF at ev(1-3)]) (use a(1) at ev(4) in \<open>auto simp: ib.ready_def tasks_at_def timers_at_def\<close>)
  let ?s2 = "ib.started s1 a"
  have f2: "tevents ?s2 = tevents s" "timer_head ?s2 = timer_head s" "timer_tail ?s2 = timer_tail s" "mem ?s2 = mem s1"
    by (simp_all add: ib.started_def ev)
  have f2': "cntpct ?s2 = cntpct s" "cntfrq ?s2 = cntfrq s" "threads ?s2 = threads s" "curr_thread ?s2 = curr_thread s"
    "RQ_head ?s2 = RQ_head s" "RQ_tail ?s2 = RQ_tail s"
    by (simp_all add: ib.started_def task_unlink_def Let_def set_task_def s1 split: option.split)
  have at2: "timers_at ?s2 (e # es)" by (rule timers_at_mem[OF at1]) (simp_all add: f2 ev)
  have ec: "ev_call ?s2 = ev_call s" "ev_time ?s2 = ev_time s" by (simp_all add: fun_eq_iff ev_call_def ev_time_def f2)
  have rm2: "roomy 2 ?s2" using s1(3) by (simp add: roomy_def f2)
  obtain s3 where s3: "core_timer_handler ?s2 = Some s3"
    by (rule core_timer_handler_room[OF at2 _ rm2]) (use cb ec in auto)
  obtain ys where post: "handler_post e es ?s2 s3 ys" using core_timer_handler_at[OF at2 s3] by blast
  have cb2: "ev_call ?s2 e = Schedule_timer" using cb ec by simp
  obtain n where n: "n \<in> set ys" "ev_call s3 n = Schedule_timer" "ev_time s3 n = cntpct ?s2 + drop_bit 5 (cntfrq ?s2)"
    "length ys = Suc (length es)" "set es \<subseteq> set ys" "timer_cval s3 = ev_time s3 (hd ys)"
    by (rule handler_post_tick[OF at2 post cb2])
  have tp: "task_part s3 = task_part ?s2" by (rule core_timer_handler_task_part[OF s3])
  have u: "ib.urgent s1 a" using pr a(3,4) by (simp add: ib.urgent_def)
  have rt: "run_task (tk_fun s1 a) ?s2 = Some s3" using s3 a(2) by (simp add: run_task_def)
  obtain s' where s': "irqtask_run_preemptive run_task s1 = Some (s', [tk_fun s1 a])" "ib.ready s' []"
    "quiet s' = quiet (s3\<lparr>curr_task_priority := curr_task_priority s1\<rparr>)"
    by (rule run_one[OF a(1) u rt])
  note q = quietD[OF s'(3)]
  have te: "tevents s' = tevents s3" "timer_head s' = timer_head s3" "timer_tail s' = timer_tail s3" using q by simp_all
  obtain zs where zs: "timers_at s' zs" using s'(2) by (auto simp: ready_iff)
  have p3: "timers_at s3 ys" using post by (simp add: handler_post_def)
  have zy: "zs = ys" by (rule timers_at_events[OF p3 zs te])
  have ec': "ev_call s' = ev_call s3" "ev_time s' = ev_time s3" by (simp_all add: fun_eq_iff ev_call_def ev_time_def te)
  have "tick_post es s s' ys"
    using zs zy n post f2' unfolding tick_post_def handler_post_def ec' ec by (auto simp: q)
  moreover have "add_and_run Core_timer_handler TIMER_IRQ_PRIORITY s = Some s'"
    using s1(1) s'(1) by (simp add: add_and_run_def)
  ultimately show thesis using that s'(2) tp f2' by (simp add: q task_part_def)
qed

end
