(* ===== verification/Kern_Props.thy ===== *)
theory Kern_Props
  imports Irq Memory_Props
begin

text \<open>
  The properties of interrupt masking, timers, interrupt tasks and the scheduler, each with a
  witness on a concrete kernel state.
\<close>

section \<open>A concrete kernel\<close>

definition blank_uart :: uart where
  "blank_uart = \<lparr>tx = \<lparr>rbuf = (\<lambda>_. 0), widx = 0, ridx = 0\<rparr>, rx = \<lparr>rbuf = (\<lambda>_. 0), widx = 0, ridx = 0\<rparr>,
     ier = 0, irqs1 = 0, wire_in = [], wire_out = [], uart_recv_echo_flag = True\<rparr>"

definition blank_ctx :: thread_context_t where
  "blank_ctx = \<lparr>x_regs = (\<lambda>_. 0), c_fp = 0, c_lr = 0, c_sp = 0, c_pgd = 0\<rparr>"

definition blank_thread :: thread_t where
  "blank_thread = \<lparr>ctx = blank_ctx, t_data = 0, datasize = 0, t_status = THREAD_FREE, pid = 0, user_sp = 0,
     kernel_sp = 0, signal_sp = 0, signal_handler = (\<lambda>_. Signal_default_handler), sigcount = (\<lambda>_. 0),
     curr_signal_handler = Signal_default_handler, signal_is_checking = False, signal_saved_context = blank_ctx,
     vma_list = [], th_prev = None, th_next = None, curr_working_dir = ''/'', fd_table = (\<lambda>_. None)\<rparr>"

definition boot_kern :: kern where
  "boot_kern = \<lparr>mem = booted, con = blank_uart, bytes = (\<lambda>_. 0), words = (\<lambda>_. 0), nested_interrupt_cnt = 0,
     irq_masked = False, itasks = (\<lambda>_. \<lparr>t_priority = 0, t_function = Uart_puts, t_next = None, t_prev = None\<rparr>),
     task_head = 0, task_tail = 0, curr_task_priority = 9999,
     tevents = (\<lambda>_. \<lparr>te_next = None, te_prev = None, te_time = 0, te_callback = Uart_puts, te_args = 0\<rparr>),
     timer_head = 0, timer_tail = 0, cntpct = 0, cntfrq = 62500000, timer_cval = 0, core_timer_on = False,
     threads = (\<lambda>_. blank_thread), curr_thread = 0, RQ_head = None, RQ_tail = None,
     files = (\<lambda>_. \<lparr>f_vnode = 0, f_pos = 0, fh_ops = Tmpfs_file_ops, f_flags = 0\<rparr>),
     vnodes = (\<lambda>_. \<lparr>v_mount = None, v_ops = Tmpfs_vnode_ops, f_ops = Tmpfs_file_ops, internal = 0\<rparr>),
     inodes = (\<lambda>_. \<lparr>i_type = dir_t, i_name = [], i_entry = (\<lambda>_. None), i_data = 0, i_datasize = 0\<rparr>),
     rinodes = (\<lambda>_. \<lparr>r_type = dir_t, r_name = 0, r_entry = (\<lambda>_. None), r_data = 0, r_datasize = 0\<rparr>),
     mounts = (\<lambda>_. \<lparr>m_root = 0, m_fs = 0\<rparr>), rootfs = 0, reg_fs = (\<lambda>_. None), reg_dev = (\<lambda>_. None), fb_width = 0,
     fb_height = 0, fb_pitch = 0, fb_isrgb = 0, lfb = 0, pt = (\<lambda>_. 0), CPIO_DEFAULT_START = 0,
     CPIO_DEFAULT_END = 0, dtb_base = 0, SAFE_DEMO = False,
     trapframes = (\<lambda>_. \<lparr>xreg = (\<lambda>_. 0), spsr_el1 = 0, elr_el1 = 0, sp_el0 = 0\<rparr>)\<rparr>"

lemma boot_kern_ok: "heap_ok boot_kern" "roomy 1000 boot_kern" "rq boot_kern []"
  by (simp_all add: heap_ok_def boot_kern_def booted_inv roomy_def TOTAL_FRAME_def rq_def
      tnext_def tprev_def blank_thread_def)

text \<open>A kernel with one tick scheduled, an empty task queue, and thread 0 running in front of 1 and 2.\<close>

lemma irqtask_init_room:
  assumes ok: "heap_ok s" and rm: "roomy (Suc (Suc n)) s"
  obtains s' where "irqtask_init_list s = Some s'" "roomy n s'" "tevents s' = tevents s" "timer_head s' = timer_head s"
    "timer_tail s' = timer_tail s" "curr_task_priority s' = curr_task_priority s" "cntfrq s' = cntfrq s"
proof -
  have r32: "(32 :: 32 word) \<noteq> 0" "unat (32 :: 32 word) \<le> 4096" by simp_all
  obtain s1 h where s1: "knew 32 s = Some (s1, h)" "roomy (Suc n) s1" by (rule knew_room[OF ok rm r32])
  have ok1: "heap_ok s1" by (rule knew_spec(1)[OF ok request_40(2) s1(1)])
  then obtain s2 t where s2: "knew 32 s1 = Some (s2, t)" "roomy n s2" by (rule knew_room[OF _ s1(2) r32])
  note q = quietD[OF knew_spec(5)[OF ok request_40(2) s1(1)]] quietD[OF knew_spec(5)[OF ok1 request_40(2) s2(1)]]
  from that s1 s2 show thesis by (simp add: irqtask_init_list_def Let_def roomy_def set_task_def q)
qed

lemma tick_kern:
  obtains s e where "timers_at s [e]" "ev_call s e = Schedule_timer" "roomy 900 s" "ib.ready s []" "curr_task_priority s = 9999"
proof -
  obtain s0 where s0: "timer_list_init boot_kern = Some s0" "roomy 998 s0"
    by (rule timer_init_room[OF boot_kern_ok(1)]) (use boot_kern_ok(2) in auto)
  have at0: "timers_at s0 []" using timer_list_init_at[OF boot_kern_ok(1) s0(1)] by simp
  have pr0: "task_part s0 = task_part boot_kern"
    using s0(1) by (auto simp: timer_list_init_def Let_def split: option.splits dest!: knew_task_part)
       (simp add: task_part_def set_event_def)
  obtain s1 where s1: "add_timer Schedule_timer 1 [] False s0 = Some s1" "roomy 996 s1"
    by (rule add_timer_room[OF at0, of 996 "[]"]) (use s0(2) in auto)
  have "add_timer_post Schedule_timer 1 False [] s0 s1" by (rule add_timer_at[OF at0 _ s1(1)]) simp
  then obtain a where a: "timers_at s1 [a]" "ev_call s1 a = Schedule_timer" by (auto simp: add_timer_post_def ins_by_def)
  then have ok1: "heap_ok s1" by (simp add: timers_at_def)
  have pr1: "curr_task_priority s1 = 9999"
    using add_timer_task_part[OF s1(1)] pr0 by (simp add: task_part_def boot_kern_def)
  obtain s where s: "irqtask_init_list s1 = Some s" "roomy 994 s" "tevents s = tevents s1" "timer_head s = timer_head s1"
    "timer_tail s = timer_tail s1" "curr_task_priority s = curr_task_priority s1"
    by (rule irqtask_init_room[OF ok1, of 994]) (use s1(2) in auto)
  have ta: "tasks_at s []" "kblocks s1 \<subseteq> kblocks s" "task_blocks s [] \<inter> kblocks s1 = {}"
    using irqtask_init_at[OF ok1 s(1)] by simp_all
  have at: "timers_at s [a]"
    by (rule timers_at_cong[OF a(1) s(3-5)]) (use ta a(1) in \<open>auto simp: tasks_at_def timers_at_def\<close>)
  have tb: "timer_blocks s [a] = timer_blocks s1 [a]" using s(3-5) by (simp add: timer_blocks_def ev_args_def)
  then have "set (timer_blocks s [a]) \<inter> task_blocks s [] = {}" using ta(3) a(1) by (auto simp: timers_at_def)
  then have "ib.ready s []" using at ta(1) by (auto simp: ready_iff)
  moreover have "ev_call s a = Schedule_timer" using a(2) s(3) by (simp add: ev_call_def)
  moreover have "roomy 900 s" using s(2) by (simp add: roomy_def)
  ultimately show thesis using that[OF at] s(6) pr1 by simp
qed

lemma add_threads:
  assumes "ib.ready s []" "timers_at s es" "s' = s\<lparr>threads := ths, curr_thread := c, RQ_head := h, RQ_tail := t\<rparr>"
  shows "ib.ready s' []" "timers_at s' es"
proof -
  have "timers_at s' xs" if "timers_at s xs" for xs by (rule timers_at_mem[OF that]) (simp_all add: assms(3))
  moreover have "tasks_at s' []" if "tasks_at s []"
    by (rule tasks_at_cong[OF that]) (use that heap_cong[of s' s] in \<open>simp_all add: assms(3) tasks_at_def\<close>)
  moreover have "timer_blocks s' xs = timer_blocks s xs" "task_blocks s' [] = task_blocks s []" for xs
    by (simp_all add: assms(3) timer_blocks_def ev_args_def task_blocks_def)
  ultimately show "ib.ready s' []" "timers_at s' es" using assms(1,2) by (auto simp: ready_iff)
qed

text \<open>Three threads: 0 runs, 1 and 2 wait, thread 2 as a zombie or not.\<close>

definition three :: "bool \<Rightarrow> nat \<Rightarrow> thread_t" where
  "three z i = blank_thread\<lparr>t_status := (if z \<and> i = 2 then THREAD_ZOMBIE else THREAD_ACTIVE),
     th_next := (if i = 1 then Some 2 else None), th_prev := (if i = 2 then Some 1 else None)\<rparr>"

lemma three_rq:
  assumes "s' = s\<lparr>threads := three z, curr_thread := 0, RQ_head := Some 1, RQ_tail := Some 2\<rparr>"
  shows "rq s' [1, 2]" "zombie s' i = (z \<and> i = 2)" "curr_thread s' = 0"
  by (simp_all add: assms rq_def tnext_def tprev_def three_def zombie_def THREAD_ZOMBIE_def THREAD_ACTIVE_def blank_thread_def)

section \<open>Interrupt masking\<close>

lemma disable_nest:
  "nested_interrupt_cnt s = 0 \<Longrightarrow> n < 2 ^ 64 \<Longrightarrow> 0 < n \<Longrightarrow>
    nested_interrupt_cnt ((disable_interrupt ^^ n) s) = of_nat n \<and> irq_masked ((disable_interrupt ^^ n) s)"
proof (induction n)
  case (Suc n)
  then show ?case
    by (cases "n = 0") (simp_all add: disable_interrupt_def Let_def add.commute split: if_splits)
qed simp

lemma enable_step:
  assumes "nested_interrupt_cnt s = 1 + c" "1 + c \<noteq> 0"
  shows "nested_interrupt_cnt (enable_interrupt s) = c \<and> irq_masked (enable_interrupt s) = (c \<noteq> 0 \<and> irq_masked s)"
  using assms by (simp add: enable_interrupt_def Let_def word_neq_0_conv)

lemma enable_nest:
  assumes "nested_interrupt_cnt s = of_nat n" "n < 2 ^ 64" "irq_masked s"
  shows "k \<le> n \<Longrightarrow> 0 < n \<Longrightarrow> nested_interrupt_cnt ((enable_interrupt ^^ k) s) = of_nat (n - k) \<and>
    irq_masked ((enable_interrupt ^^ k) s) = (k < n)"
proof (induction k)
  case (Suc k)
  let ?t = "(enable_interrupt ^^ k) s"
  have t: "nested_interrupt_cnt ?t = of_nat (n - k)" "irq_masked ?t" using Suc by simp_all
  obtain m where m: "n = Suc k + m" using Suc.prems(1) le_Suc_ex by blast
  have zero: "(of_nat l :: 64 word) = 0 \<longleftrightarrow> l = 0" if "l < 2 ^ 64" for l :: nat
    using that nat_dvd_not_less[of l "2 ^ 64"] by (auto simp: word_of_nat_eq_0_iff)
  have nz: "(1 + of_nat m :: 64 word) \<noteq> 0" "(of_nat m :: 64 word) = 0 \<longleftrightarrow> m = 0"
    using zero[of "Suc m"] zero[of m] assms(2) m by simp_all
  have e: "nested_interrupt_cnt ?t = 1 + of_nat m" "n - Suc k = m" "Suc k < n \<longleftrightarrow> m \<noteq> 0" using t(1) m by simp_all
  show ?case using enable_step[OF e(1) nz(1)] t(2) nz(2) e(2,3) by simp
qed (use assms in simp)

text \<open>Nested sections.  After \<open>n\<close> calls of \<open>disable_interrupt\<close> and \<open>k\<close> of \<open>enable_interrupt\<close>,
  interrupts are masked exactly while \<open>k < n\<close>, and the counter is the number of open sections.\<close>

theorem interrupt_nesting:
  assumes "nested_interrupt_cnt s = 0" "n < 2 ^ 64" "0 < n" "k \<le> n"
  shows "irq_masked ((enable_interrupt ^^ k) ((disable_interrupt ^^ n) s)) = (k < n) \<and>
    nested_interrupt_cnt ((enable_interrupt ^^ k) ((disable_interrupt ^^ n) s)) = of_nat (n - k)"
  using enable_nest[of "(disable_interrupt ^^ n) s" n k] disable_nest[OF assms(1-3)] assms(2-4) by simp

theorem interrupt_nesting_witness:
  "irq_masked ((enable_interrupt ^^ 1) ((disable_interrupt ^^ 2) boot_kern)) \<and>
   \<not> irq_masked ((enable_interrupt ^^ 2) ((disable_interrupt ^^ 2) boot_kern))"
  using interrupt_nesting[of boot_kern 2 1] interrupt_nesting[of boot_kern 2 2] by (simp add: boot_kern_def)

section \<open>Timers\<close>

text \<open>C18: \<open>add_timer\<close> inserts into the sorted list: on a well-formed list \<open>xs\<close>, with two free frames,
  it returns, the list becomes \<open>xs\<close> with one new event behind every event that is due no later, all
  other events are unchanged, and the comparator is set exactly when the new event became the
  first.\<close>

theorem add_timer_sorted:
  assumes at: "timers_at s xs" and rm: "roomy 2 s" and len: "length args < 4096"
  shows "\<exists>s' a. add_timer callback timeout args bytick s = Some s' \<and> a \<notin> set xs \<and>
    ev_call s' a = callback \<and> ev_time s' a = cntpct s + (if bytick then timeout else cntfrq s * timeout) \<and>
    timers_at s' (ins_by (ev_time s') a xs) \<and>
    (\<forall>x \<in> set xs. ev_call s' x = ev_call s x \<and> ev_time s' x = ev_time s x \<and> ev_args s' x = ev_args s x) \<and>
    timer_cval s' = (if hd (ins_by (ev_time s') a xs) = a then ev_time s' a else timer_cval s)"
proof -
  have rm': "roomy (Suc (Suc 0)) s" using rm by (simp add: numeral_2_eq_2)
  obtain s' where s': "add_timer callback timeout args bytick s = Some s'" by (rule add_timer_room[OF at rm' len])
  have "add_timer_post callback timeout bytick xs s s'" by (rule add_timer_at[OF at _ s']) (use len in simp)
  moreover have "set xs \<subseteq> kblocks s" using at by (auto simp: timers_at_def timer_blocks_def)
  ultimately show ?thesis unfolding add_timer_post_def due_def
    by (elim exE conjE) (intro exI conjI, rule s', auto)
qed

theorem add_timer_sorted_witness:
  "\<exists>s e s' a. timers_at s [e] \<and> add_timer Uart_puts 3 (ascii ''hi'') False s = Some s' \<and> timers_at s' (ins_by (ev_time s') a [e])"
proof -
  obtain s e where s: "timers_at s [e]" "roomy 900 s" by (rule tick_kern)
  from s(2) have "roomy 2 s" by (simp add: roomy_def)
  from add_timer_sorted[OF s(1) this, of "ascii ''hi''" Uart_puts 3 False] s(1) show ?thesis
    by (simp add: ascii_def) metis
qed

text \<open>C19: ticks go on for ever: when the first event due is a scheduler tick, the handler of the timer
  interrupt returns (two frames free), that event is gone, every other event is kept, a new tick a
  32nd of a second from now is in the list, and the comparator is set for the earliest event.\<close>

theorem core_timer_tick:
  assumes at: "timers_at s (e # es)" and cb: "ev_call s e = Schedule_timer" and rm: "roomy 2 s"
  shows "\<exists>s' ys n. core_timer_handler s = Some s' \<and> timers_at s' ys \<and> length ys = Suc (length es) \<and> set es \<subseteq> set ys \<and>
    (\<forall>x \<in> set es. ev_call s' x = ev_call s x \<and> ev_time s' x = ev_time s x) \<and>
    n \<in> set ys \<and> ev_call s' n = Schedule_timer \<and> ev_time s' n = cntpct s + drop_bit 5 (cntfrq s) \<and>
    timer_cval s' = ev_time s' (hd ys)"
proof -
  obtain s' where s': "core_timer_handler s = Some s'" by (rule core_timer_handler_room[OF at cb rm])
  obtain ys where post: "handler_post e es s s' ys" using core_timer_handler_at[OF at s'] by blast
  then have p: "timers_at s' ys" "\<forall>x \<in> set es. ev_call s' x = ev_call s x \<and> ev_time s' x = ev_time s x"
    by (auto simp: handler_post_def)
  obtain n where "n \<in> set ys" "ev_call s' n = Schedule_timer" "ev_time s' n = cntpct s + drop_bit 5 (cntfrq s)"
    "length ys = Suc (length es)" "set es \<subseteq> set ys" "timer_cval s' = ev_time s' (hd ys)"
    by (rule handler_post_tick[OF at post cb])
  with s' p show ?thesis by blast
qed

theorem core_timer_tick_witness:
  "\<exists>s s' ys n. core_timer_handler s = Some s' \<and> timers_at s' ys \<and> n \<in> set ys \<and> ev_call s' n = Schedule_timer"
proof -
  obtain s e where s: "timers_at s [e]" "ev_call s e = Schedule_timer" "roomy 900 s" by (rule tick_kern)
  from s(3) have "roomy 2 s" by (simp add: roomy_def)
  from core_timer_tick[OF s(1,2) this] show ?thesis by blast
qed

lemma scast_small:
  fixes w :: "32 word"
  assumes "unat w < 2 ^ 31"
  shows "(scast w :: 64 word) = ucast w"
proof -
  have "uint w = int (unat w)" by simp
  moreover have "int (unat w) < 2 ^ 31" using of_nat_less_iff[of "unat w" "2 ^ 31", where ?'a = int] assms by simp
  ultimately have "uint w < 2 ^ 31" by simp
  moreover have "- (2 ^ 31) \<le> uint w" by (rule order_trans[of _ 0]) simp_all
  ultimately have "signed_take_bit (LENGTH(32) - Suc 0) (uint w) = uint w"
    by (intro signed_take_bit_int_eq_self) simp_all
  then have "sint w = uint w" by (simp only: sint_uint)
  then show ?thesis by (simp only: scast_eq ucast_eq)
qed

lemma unat_ucast_up: "unat (ucast (w :: 32 word) :: 64 word) = unat w"
  using unsigned_less[of w, where ?'a = nat] by (simp add: unsigned_ucast_eq take_bit_nat_eq_self)

text \<open>The comparator write.  The timer fires after the asked number of seconds when the ticks fit
  into 31 bits; the 10000 seconds that stand for "no timer" do not fit at the frequencies of the
  board, and put the comparator in the past.\<close>

theorem core_timer_interrupt_range:
  "(unat (cntfrq s) * unat t < 2 ^ 31 \<longrightarrow>
      unat (timer_cval (set_core_timer_interrupt t s) - cntpct s) = unat (cntfrq s) * unat t) \<and>
   (cntfrq s = 62500000 \<or> cntfrq s = 19200000 \<longrightarrow>
      sint (timer_cval (set_core_timer_interrupt 10000 s) - cntpct s) < 0)"
proof
  have d: "timer_cval (set_core_timer_interrupt t s) - cntpct s = scast (ucast (cntfrq s * t) :: 32 word)" for t
    by (simp add: set_core_timer_interrupt_def)
  show "unat (cntfrq s) * unat t < 2 ^ 31 \<longrightarrow>
      unat (timer_cval (set_core_timer_interrupt t s) - cntpct s) = unat (cntfrq s) * unat t"
  proof
    assume a: "unat (cntfrq s) * unat t < 2 ^ 31"
    let ?w = "ucast (cntfrq s * t) :: 32 word"
    have u: "unat ?w = unat (cntfrq s) * unat t"
      using a by (simp add: unsigned_ucast_eq unat_word_ariths take_bit_nat_eq_self)
    then have "(scast ?w :: 64 word) = ucast ?w" using a by (intro scast_small) simp
    then show "unat (timer_cval (set_core_timer_interrupt t s) - cntpct s) = unat (cntfrq s) * unat t"
      using u by (simp only: d unat_ucast_up)
  qed
qed (auto simp: set_core_timer_interrupt_def)

theorem core_timer_interrupt_range_witness:
  "unat (timer_cval (set_core_timer_interrupt 3 boot_kern) - cntpct boot_kern) = 187500000 \<and>
   sint (timer_cval (set_core_timer_interrupt 10000 boot_kern) - cntpct boot_kern) < 0"
  using core_timer_interrupt_range[of boot_kern 3] by (simp add: boot_kern_def)

section \<open>Interrupt tasks\<close>

text \<open>C20: preemption.  Let nothing in the queue be more urgent than the running task, and let one frame be
  free for the new entry.  An interrupt whose task is more urgent then runs that task at once and
  nothing else, and any other waits behind the tasks of its own priority; either way nothing more
  urgent than the running task is left waiting, and the running priority is back.  The call returns
  whenever the task, started on the queue with its entry, does.\<close>

theorem irqtask_preemption:
  assumes st: "settled s xs" and rm: "roomy 1 s"
    and ret: "\<And>s1 a. irqtask_add f p s = Some s1 \<Longrightarrow> run_task f (ib.started s1 a) \<noteq> None"
  shows "\<exists>s' s1 fs. irqtask_add f p s = Some s1 \<and> irqtask_run_preemptive run_task s1 = Some (s', fs) \<and>
    add_and_run f p s = Some s' \<and> curr_task_priority s' = curr_task_priority s \<and>
    (if p < word_of_int (curr_task_priority s) then fs = [f] \<and> settled s' xs
     else fs = [] \<and> (\<exists>a. a \<notin> set xs \<and> tk_fun s' a = f \<and> tk_prio s' a = p \<and> settled s' (ins_by (tk_prio s') a xs)))"
proof -
  obtain s' where s': "add_and_run f p s = Some s'" using add_and_run_total[OF st rm ret] by blast
  from add_and_run_settled[OF st s'] s' show ?thesis by (cases "p < word_of_int (curr_task_priority s)") auto
qed

theorem irqtask_preemption_witness:
  "\<exists>s s'. add_and_run Uart_w_irq_handler UART_IRQ_PRIORITY s = Some s' \<and> settled s' []"
proof -
  obtain s e where s: "roomy 900 s" "ib.ready s []" "curr_task_priority s = 9999" by (rule tick_kern)
  have "settled s []" "roomy 1 s" using s by (simp_all add: settled_def roomy_def)
  from irqtask_preemption[OF this, of Uart_w_irq_handler UART_IRQ_PRIORITY] s(3) show ?thesis
    by (auto simp: run_task_def UART_IRQ_PRIORITY_def)
qed

section \<open>The timer interrupt\<close>

text \<open>C7: preemptive multitasking, end to end.  Let a timer interrupt find a scheduler tick due, no interrupt
  of the UART pending, the task queue empty and a running task less urgent than the timer's (idle),
  three frames free, the running thread alive and not in the queue (an exited one is dropped, one still
  in the queue cuts it), and a runnable thread \<open>t\<close> first in the queue.  The handler then returns in
  thread \<open>t\<close>, with the old thread behind all runnable threads, the next tick in the timer list and
  armed, the task queue empty again, the timer's interrupt enabled and interrupts masked for the
  return.\<close>

theorem irq_router_tick:
  assumes at: "timers_at s (e # es)" and rd: "ib.ready s []" and cb: "ev_call s e = Schedule_timer" and rm: "roomy 3 s"
    and pr: "TIMER_IRQ_PRIORITY < word_of_int (curr_task_priority s)" and ir: "timer_irq r" "\<not> uart_irq r"
    and q: "rq s xs" "curr_thread s \<notin> set xs" "\<not> zombie s (curr_thread s)" "runnable s xs = t # us"
  shows "\<exists>s' ys zs. irq_router r s = Some s' \<and> curr_thread s' = t \<and> rq s' zs \<and> runnable s' zs = us @ [curr_thread s] \<and>
    tick_post es s s' ys \<and> ib.ready s' [] \<and> core_timer_on s' \<and> irq_masked s'"
proof -
  let ?s0 = "core_timer_disable s"
  have m0: "mem ?s0 = mem s" "tevents ?s0 = tevents s" "timer_head ?s0 = timer_head s" "timer_tail ?s0 = timer_tail s"
    "itasks ?s0 = itasks s" "task_head ?s0 = task_head s" "task_tail ?s0 = task_tail s" "curr_task_priority ?s0 = curr_task_priority s"
    "threads ?s0 = threads s" "curr_thread ?s0 = curr_thread s" "RQ_head ?s0 = RQ_head s" "RQ_tail ?s0 = RQ_tail s"
    "cntpct ?s0 = cntpct s" "cntfrq ?s0 = cntfrq s"
    by (simp_all add: core_timer_disable_def)
  note irq = ready_part[OF rd m0(1-7)]
  have ev0: "ev_call ?s0 = ev_call s" "ev_time ?s0 = ev_time s" by (simp_all add: fun_eq_iff ev_call_def ev_time_def m0)
  have at0: "timers_at ?s0 (e # es)" by (rule timers_at_mem[OF at m0(2-4,1)])
  obtain s1 ys where s1: "add_and_run Core_timer_handler TIMER_IRQ_PRIORITY ?s0 = Some s1" "ib.ready s1 []"
    "tick_post es ?s0 s1 ys" "threads s1 = threads ?s0" "curr_thread s1 = curr_thread ?s0" "RQ_head s1 = RQ_head ?s0"
    "RQ_tail s1 = RQ_tail ?s0"
    by (rule timer_tick_runs[OF irq at0]) (use cb rm pr ev0 m0 in \<open>simp_all add: roomy_def\<close>)
  let ?s2 = "el1_interrupt_disable (core_timer_enable s1)"
  have th2: "threads ?s2 = threads s" "curr_thread ?s2 = curr_thread s" "RQ_head ?s2 = RQ_head s" "RQ_tail ?s2 = RQ_tail s"
    by (simp_all add: el1_interrupt_disable_def core_timer_enable_def s1 m0)
  have z2: "zombie ?s2 = zombie s" by (simp add: fun_eq_iff zombie_def th2)
  have q2: "rq ?s2 xs" using q(1) by (simp add: rq_def tnext_def[abs_def] tprev_def[abs_def] th2)
  have "runnable ?s2 xs = t # us" using q(4) by (simp add: runnable_def z2)
  from schedule_turn[OF q2 _ _ this] obtain s3 zs where s3: "schedule ?s2 = Some s3" "rq s3 zs" "curr_thread s3 = t"
    "runnable s3 zs = us @ [curr_thread s]"
    using q(2,3) by (auto simp: th2 z2)
  have sp: "sched_part s3 = sched_part ?s2" by (rule schedule_sched_part[OF s3(1)])
  let ?s' = "el1_interrupt_disable s3"
  have "irq_router r s = Some ?s'"
    using ir s1(1) s3(1) by (simp add: irq_router_def)
  moreover have "rq ?s' zs" "runnable ?s' zs = us @ [curr_thread s]" "curr_thread ?s' = t"
    using s3 by (simp_all add: el1_interrupt_disable_def rq_def tnext_def[abs_def] tprev_def[abs_def] runnable_def zombie_def)
  moreover have m': "mem ?s' = mem s1" "tevents ?s' = tevents s1" "timer_head ?s' = timer_head s1" "timer_tail ?s' = timer_tail s1"
    "itasks ?s' = itasks s1" "task_head ?s' = task_head s1" "task_tail ?s' = task_tail s1" "timer_cval ?s' = timer_cval s1"
    "core_timer_on ?s'"
    using sp by (simp_all add: sched_part_def el1_interrupt_disable_def core_timer_enable_def)
  have ev': "ev_call ?s' = ev_call s1" "ev_time ?s' = ev_time s1" by (simp_all add: fun_eq_iff ev_call_def ev_time_def m')
  have "tick_post es s ?s' ys"
    using s1(3) timers_at_mem[of s1 ys ?s'] m' unfolding tick_post_def ev' ev0 by (simp add: m0)
  moreover have "ib.ready ?s' []" by (rule ready_part[OF s1(2) m'(1-7)])
  ultimately show ?thesis using m'(9) by (intro exI[of _ ?s'] exI[of _ ys] exI[of _ zs]) (simp add: el1_interrupt_disable_def)
qed

theorem irq_router_tick_witness:
  "\<exists>s s' r. curr_thread s = 0 \<and> irq_router r s = Some s' \<and> curr_thread s' = 1 \<and> core_timer_on s'"
proof -
  obtain s e where s: "timers_at s [e]" "ev_call s e = Schedule_timer" "roomy 900 s" "ib.ready s []" "curr_task_priority s = 9999"
    by (rule tick_kern)
  define s1 where "s1 = s\<lparr>threads := three False, curr_thread := 0, RQ_head := Some 1, RQ_tail := Some 2\<rparr>"
  note t = add_threads[OF s(4,1) s1_def] three_rq[OF s1_def]
  let ?r = "\<lparr>pending_1 = 0, core0_source = 2, aux_iir = 0\<rparr>"
  have "runnable s1 [1, 2] = 1 # [2]" by (simp add: runnable_def t)
  moreover have "ev_call s1 e = Schedule_timer" "roomy 3 s1" "TIMER_IRQ_PRIORITY < word_of_int (curr_task_priority s1)"
    using s(2,3,5) by (simp_all add: s1_def ev_call_def roomy_def TIMER_IRQ_PRIORITY_def)
  moreover have "timer_irq ?r" "\<not> uart_irq ?r" by (simp_all add: timer_irq_def uart_irq_def)
  ultimately show ?thesis using irq_router_tick[OF t(2,1) _ _ _ _ _ t(3), of ?r 1 "[2]"] t(4,5) by auto
qed

section \<open>The scheduler\<close>

text \<open>C8: round robin.  While the running thread is alive and not queued, and some queued thread is
  alive, every call of \<open>schedule\<close> returns and rotates the ring of the live threads by one, whatever
  zombies stand between them; so the thread at position \<open>i\<close> of the live queue has the processor
  after \<open>i + 1\<close> calls.\<close>

theorem schedule_round_robin:
  assumes "rq s xs" "curr_thread s \<notin> set xs" "\<not> zombie s (curr_thread s)" "runnable s xs \<noteq> []"
  shows "(\<exists>s' ys. schedule_n n s = Some s' \<and> rq s' ys \<and> curr_thread s' \<notin> set ys \<and>
      curr_thread s' # runnable s' ys = rotate n (curr_thread s # runnable s xs)) \<and>
    (\<forall>i < length (runnable s xs). \<exists>s'. schedule_n (Suc i) s = Some s' \<and> curr_thread s' = runnable s xs ! i)"
  using schedule_n_rotates[OF assms, of n] schedule_n_fair[OF assms(1-3)] by blast

lemma three_threads:
  obtains s where "rq s [1, 2]" "curr_thread s = 0" "\<And>i. zombie s i = (z \<and> i = 2)"
  using three_rq[where z = z, OF refl] by blast

theorem schedule_round_robin_witness:
  "\<exists>s s'. curr_thread s = 0 \<and> schedule_n 2 s = Some s' \<and> curr_thread s' = 2"
proof -
  obtain s where s: "rq s [1, 2]" "curr_thread s = 0" "\<And>i. zombie s i = (False \<and> i = 2)" using three_threads[of False] by blast
  then have "runnable s [1, 2] = [1, 2]" by (simp add: runnable_def)
  then have "\<forall>i < length [1 :: nat, 2]. \<exists>s'. schedule_n (Suc i) s = Some s' \<and> curr_thread s' = [1, 2] ! i"
    using schedule_round_robin[OF s(1)] s(2,3) by (simp only:) auto
  then have "\<exists>s'. schedule_n 2 s = Some s' \<and> curr_thread s' = [1, 2] ! 1"
    unfolding numeral_2_eq_2 by (rule allE[of _ 1]) (simp del: schedule_n.simps)
  with s(2) show ?thesis by auto
qed

text \<open>With zombies only in the queue, \<open>schedule\<close> never returns, whoever called it.\<close>

theorem schedule_only_zombies:
  assumes "rq s xs" "xs \<noteq> []" "\<forall>i \<in> set xs. zombie s i"
  shows "schedule s = None"
  using schedule_stuck[OF assms] .

definition all_zombies :: kern where
  "all_zombies = boot_kern\<lparr>threads := (three False)(1 := (three False 1)\<lparr>t_status := THREAD_ZOMBIE, th_next := None\<rparr>,
     2 := blank_thread), RQ_head := Some 1, RQ_tail := Some 1\<rparr>"

theorem schedule_only_zombies_witness: "schedule all_zombies = None"
  by (rule schedule_only_zombies[of _ "[1]"])
    (simp_all add: all_zombies_def rq_def tnext_def tprev_def three_def zombie_def blank_thread_def THREAD_FREE_def)

section \<open>A thread that is current and queued\<close>

text \<open>The threads found by following \<open>next\<close> from the head.\<close>

primrec walk :: "(nat \<Rightarrow> nat ptr) \<Rightarrow> nat ptr \<Rightarrow> nat list \<Rightarrow> bool" where
  "walk nxt h [] = (h = None)"
| "walk nxt h (x # xs) = (h = Some x \<and> walk nxt (nxt x) xs)"

lemma walk_cut:
  "dll nxt prv p h (xs @ c # ys) \<Longrightarrow> nxt' c = None \<Longrightarrow> \<forall>x \<in> set xs. nxt' x = nxt x \<Longrightarrow> walk nxt' h (xs @ [c])"
  by (induction xs arbitrary: p h) auto


text \<open>Threads 0 and 1 and a child 2 of the running thread 1.\<close>

definition first_fork :: kern where
  "first_fork = boot_kern\<lparr>threads := (\<lambda>i. blank_thread\<lparr>t_status := THREAD_ACTIVE,
       th_next := (if i < 2 then Some (i + 1) else None), th_prev := (if i = 1 \<or> i = 2 then Some (i - 1) else None)\<rparr>),
     curr_thread := 1, RQ_head := Some 0, RQ_tail := Some 2\<rparr>"


end
