(* ===== verification/Mmu.thy ===== *)
theory Mmu
  imports Irq
begin

text \<open>
  The page tables of \<open>kernel/src/mmu.c\<close> and the memory areas of a thread.  A page table is 512
  words of the memory \<open>words\<close> at a page address of the kernel's half; an entry holds a physical
  address.  The loop of \<open>map_one_page\<close> over levels 0 to 3 is a recursion on the levels left, and
  so is \<open>mmu_free_page_tables\<close>.  The barrier and \<open>tlbi\<close> instructions change none of this state.
\<close>

unbundle bit_operations_syntax

section \<open>Addresses and attributes\<close>

definition PHYS_TO_VIRT :: "64 word \<Rightarrow> 64 word" where "PHYS_TO_VIRT x = x + 0xffff000000000000"
definition VIRT_TO_PHYS :: "64 word \<Rightarrow> 64 word" where "VIRT_TO_PHYS x = x - 0xffff000000000000"
definition ENTRY_ADDR_MASK :: "64 word" where "ENTRY_ADDR_MASK = 0xfffffffff000"

definition PD_TABLE :: "64 word" where "PD_TABLE = 3"
definition PD_BLOCK :: "64 word" where "PD_BLOCK = 1"
definition PD_ACCESS :: "64 word" where "PD_ACCESS = push_bit 10 1"
definition PD_UNX :: "64 word" where "PD_UNX = push_bit 54 1"
definition PD_KNX :: "64 word" where "PD_KNX = push_bit 53 1"
definition PD_RDONLY :: "64 word" where "PD_RDONLY = push_bit 7 1"
definition PD_UK_ACCESS :: "64 word" where "PD_UK_ACCESS = push_bit 6 1"
definition MAIR_DEVICE_nGnRnE :: "64 word" where "MAIR_DEVICE_nGnRnE = 0"
definition MAIR_NORMAL_NOCACHE :: "64 word" where "MAIR_NORMAL_NOCACHE = 0x44"
definition MAIR_IDX_NORMAL_NOCACHE :: "64 word" where "MAIR_IDX_NORMAL_NOCACHE = 1"

definition PERIPHERAL_START :: "64 word" where "PERIPHERAL_START = 0x3c000000"
definition PERIPHERAL_END :: "64 word" where "PERIPHERAL_END = 0x3f000000"
definition USER_KERNEL_BASE :: "64 word" where "USER_KERNEL_BASE = 0"
definition USER_STACK_BASE :: "64 word" where "USER_STACK_BASE = 0xfffffffff000"
definition USER_SIGNAL_WRAPPER_VA :: "64 word" where "USER_SIGNAL_WRAPPER_VA = 0xffffffff9000"
definition USER_SIGNAL_STKSTART_VA :: "64 word" where "USER_SIGNAL_STKSTART_VA = 0xffffffff8000"
definition MMU_PUD_ADDR :: "64 word" where "MMU_PUD_ADDR = 0x2000"
definition MMU_PTE_ADDR :: "64 word" where "MMU_PTE_ADDR = 0x3000"

definition BOOT_PUD_ATTR :: "64 word" where "BOOT_PUD_ATTR = PD_TABLE OR PD_ACCESS"
definition BOOT_PTE_ATTR_nGnRnE :: "64 word" where
  "BOOT_PTE_ATTR_nGnRnE = PD_BLOCK OR PD_ACCESS OR push_bit 2 MAIR_DEVICE_nGnRnE OR PD_UNX OR PD_KNX OR PD_UK_ACCESS"
definition BOOT_PTE_ATTR_NOCACHE :: "64 word" where
  "BOOT_PTE_ATTR_NOCACHE = PD_BLOCK OR PD_ACCESS OR push_bit 2 MAIR_NORMAL_NOCACHE"

section \<open>Page tables\<close>

definition slot :: "addr \<Rightarrow> nat \<Rightarrow> addr" where
  "slot t i = t + 8 * of_nat i"

definition set_word :: "addr \<Rightarrow> 64 word \<Rightarrow> kern \<Rightarrow> kern" where
  "set_word a v s = s\<lparr>words := (words s)(a := v)\<rparr>"

text \<open>\<open>utils_memset(t, 0, 0x1000)\<close> of a table.\<close>

definition clear_page :: "addr \<Rightarrow> kern \<Rightarrow> kern" where
  "clear_page t s = s\<lparr>words := (\<lambda>x. if x - t < 0x1000 then 0 else words s x)\<rparr>"

text \<open>The index of the table with \<open>n\<close> levels below it: 9 bits of the address.\<close>

definition pt_index :: "nat \<Rightarrow> 64 word \<Rightarrow> nat" where
  "pt_index n va = unat (drop_bit (12 + 9 * n) va AND 0x1ff)"

definition table_attr :: "64 word" where
  "table_attr = PD_ACCESS OR PD_TABLE OR push_bit 2 MAIR_IDX_NORMAL_NOCACHE"

definition page_attr :: "64 word" where
  "page_attr = PD_ACCESS OR PD_TABLE OR push_bit 2 MAIR_IDX_NORMAL_NOCACHE OR PD_KNX"

definition next_table :: "64 word \<Rightarrow> addr" where
  "next_table e = PHYS_TO_VIRT (e AND ENTRY_ADDR_MASK)"

text \<open>An empty entry gets a new table.\<close>

definition fill_entry :: "addr \<Rightarrow> kern \<Rightarrow> kern option" where
  "fill_entry a s =
     (if words s a = 0 then
        (case knew 0x1000 s of None \<Rightarrow> None
         | Some (s1, n) \<Rightarrow> Some (set_word a (VIRT_TO_PHYS n OR table_attr) (clear_page n s1)))
      else Some s)"

primrec map_walk :: "nat \<Rightarrow> addr \<Rightarrow> 64 word \<Rightarrow> 64 word \<Rightarrow> 64 word \<Rightarrow> kern \<Rightarrow> kern option" where
  "map_walk 0 table_p va pa flag s =
     Some (set_word (slot table_p (pt_index 0 va)) (pa OR page_attr OR flag) s)"
| "map_walk (Suc n) table_p va pa flag s =
     (let a = slot table_p (pt_index (Suc n) va) in
      case fill_entry a s of None \<Rightarrow> None
      | Some s1 \<Rightarrow> map_walk n (next_table (words s1 a)) va pa flag s1)"

definition map_one_page :: "addr \<Rightarrow> 64 word \<Rightarrow> 64 word \<Rightarrow> 64 word \<Rightarrow> kern \<Rightarrow> kern option" where
  "map_one_page virt_pgd_p va pa flag s = map_walk 3 virt_pgd_p va pa flag s"

primrec run_all :: "('a \<Rightarrow> kern \<Rightarrow> kern option) \<Rightarrow> 'a list \<Rightarrow> kern \<Rightarrow> kern option" where
  "run_all f [] s = Some s"
| "run_all f (x # xs) s = (case f x s of None \<Rightarrow> None | Some s1 \<Rightarrow> run_all f xs s1)"

text \<open>The pages at offsets \<open>0, 0x1000, \<dots>\<close> below \<open>size\<close>.\<close>

definition mmu_map_pages :: "addr \<Rightarrow> 64 word \<Rightarrow> 64 word \<Rightarrow> 64 word \<Rightarrow> 64 word \<Rightarrow> kern \<Rightarrow> kern option" where
  "mmu_map_pages virt_pgd_p va sz pa flag s =
     (let pa' = pa - pa mod 0x1000 in
      run_all (\<lambda>i. map_one_page virt_pgd_p (va + of_nat (0x1000 * i)) (pa' + of_nat (0x1000 * i)) flag)
        [0..<(unat sz + 0xfff) div 0x1000] s)"

text \<open>The entries of a table with \<open>n\<close> levels of tables to follow, \<open>level = 2 - n\<close>.\<close>

primrec free_tables :: "nat \<Rightarrow> addr \<Rightarrow> kern \<Rightarrow> kern option" where
  "free_tables 0 page_table s =
     run_all (\<lambda>i s. let a = slot (PHYS_TO_VIRT page_table) i; e = words s a; nt = e AND ENTRY_ADDR_MASK in
       if e \<noteq> 0 \<and> e AND PD_TABLE \<noteq> 0 then krelease (PHYS_TO_VIRT nt) (set_word a 0 s) else Some s)
     [0..<512] s"
| "free_tables (Suc n) page_table s =
     run_all (\<lambda>i s. let a = slot (PHYS_TO_VIRT page_table) i; e = words s a; nt = e AND ENTRY_ADDR_MASK in
       if e \<noteq> 0 \<and> e AND PD_TABLE \<noteq> 0 then
         (case free_tables n nt s of None \<Rightarrow> None
          | Some s1 \<Rightarrow> krelease (PHYS_TO_VIRT nt) (set_word a 0 s1))
       else Some s)
     [0..<512] s"

definition mmu_free_page_tables :: "addr \<Rightarrow> nat \<Rightarrow> kern \<Rightarrow> kern option" where
  "mmu_free_page_tables page_table level s = free_tables (2 - level) page_table s"

section \<open>Areas\<close>

definition page_round :: "64 word \<Rightarrow> 64 word" where
  "page_round n = (if n mod 0x1000 \<noteq> 0 then n + (0x1000 - n mod 0x1000) else n)"

definition mmu_add_vma :: "nat \<Rightarrow> 64 word \<Rightarrow> 64 word \<Rightarrow> 64 word \<Rightarrow> 64 word \<Rightarrow> bool \<Rightarrow> kern \<Rightarrow> kern option" where
  "mmu_add_vma t va sz pa perm alloced s =
     (case knew 56 s of None \<Rightarrow> None
      | Some (s1, a) \<Rightarrow> Some (set_thread (\<lambda>x. x\<lparr>vma_list := vma_list x @
          [(a, \<lparr>virt_addr = va, phys_addr = pa, area_size = page_round sz, rwx = perm, is_alloced = alloced\<rparr>)]\<rparr>) t s1))"

definition free_area :: "addr \<times> vm_area_t \<Rightarrow> kern \<Rightarrow> kern option" where
  "free_area = (\<lambda>(a, v) s.
     case (if is_alloced v then krelease (PHYS_TO_VIRT (phys_addr v)) s else Some s) of
       None \<Rightarrow> None | Some s1 \<Rightarrow> krelease a s1)"

definition mmu_del_all_vma :: "nat \<Rightarrow> kern \<Rightarrow> kern option" where
  "mmu_del_all_vma t s =
     map_option (set_thread (\<lambda>x. x\<lparr>vma_list := []\<rparr>) t) (run_all free_area (vma_list (threads s t)) s)"

section \<open>Page faults\<close>

definition klog_args :: "string \<Rightarrow> arg list \<Rightarrow> kern \<Rightarrow> kern option" where
  "klog_args fmt args s =
     (case uart_sendline (ascii fmt) args (con s) of Inl _ \<Rightarrow> None | Inr c \<Rightarrow> Some (s\<lparr>con := c\<rparr>))"

definition print_area :: "addr \<times> vm_area_t \<Rightarrow> kern \<Rightarrow> kern" where
  "print_area = (\<lambda>(a, v) s.
     klog crnl (klog_hex (virt_addr v + area_size v) (klog ''-'' (klog_hex (virt_addr v) (klog ''VMA: '' s)))))"

definition fault_area :: "64 word \<Rightarrow> (addr \<times> vm_area_t) list \<Rightarrow> (addr \<times> vm_area_t) option" where
  "fault_area far_el1 areas = List.find (\<lambda>(a, v). virt_addr v \<le> far_el1 \<and> virt_addr v + area_size v \<ge> far_el1) areas"

definition area_flag :: "vm_area_t \<Rightarrow> 64 word" where
  "area_flag v = (if rwx v AND push_bit 2 1 = 0 then PD_UNX else 0) OR
     (if rwx v AND push_bit 1 1 = 0 then PD_RDONLY else 0) OR (if rwx v AND push_bit 0 1 \<noteq> 0 then PD_UK_ACCESS else 0)"

definition translation_fault :: "32 word \<Rightarrow> bool" where
  "translation_fault iss \<longleftrightarrow> iss AND 0x3f \<in> {4, 5, 6, 7}"

definition mmu_memfail_abort_handle :: "32 word \<Rightarrow> 64 word \<Rightarrow> kern \<Rightarrow> kern option" where
  "mmu_memfail_abort_handle iss far_el1 s =
     (let t = threads s (curr_thread s) in
      case fault_area far_el1 (vma_list t) of
        None \<Rightarrow>
          (case klog_args (''[Segfault] No VMA found, addr == 0x%x'' @ crnl) [Arg_long far_el1] s of None \<Rightarrow> None
           | Some s1 \<Rightarrow> thread_exit (fold print_area (vma_list t) (klog (''Current VMA...'' @ crnl) s1)))
      | Some (a, v) \<Rightarrow>
          if translation_fault iss then
            (let d = far_el1 - virt_addr v;
                 off = (if d mod 0x1000 = 0 then d else d - d mod 0x1000)
             in map_one_page (PHYS_TO_VIRT (c_pgd (ctx t))) (virt_addr v + off) (phys_addr v + off) (area_flag v) s)
          else
            (case klog_args (''[Segfault]: Permission error, addr == 0x%x'' @ crnl) [Arg_long far_el1] s of None \<Rightarrow> None
             | Some s1 \<Rightarrow> thread_exit s1))"

section \<open>The kernel's own mapping\<close>

definition set_2M_entry :: "nat \<Rightarrow> kern \<Rightarrow> kern" where
  "set_2M_entry i s =
     (let addr = 0x200000 * of_nat i; pte_table1 = MMU_PTE_ADDR; pte_table2 = MMU_PTE_ADDR + 0x1000 in
      if addr \<ge> PERIPHERAL_END then set_word (slot pte_table1 i) (addr + BOOT_PTE_ATTR_nGnRnE) s
      else set_word (slot pte_table2 i) ((0x40000000 + addr) OR BOOT_PTE_ATTR_NOCACHE)
             (set_word (slot pte_table1 i) (addr OR BOOT_PTE_ATTR_NOCACHE) s))"

definition set_2M_kernel_mmu :: "kern \<Rightarrow> kern" where
  "set_2M_kernel_mmu s =
     (let s1 = fold set_2M_entry [0..<512] s
      in set_word (slot MMU_PUD_ADDR 1) ((MMU_PTE_ADDR + 0x1000) OR BOOT_PUD_ATTR)
           (set_word (slot MMU_PUD_ADDR 0) (MMU_PTE_ADDR OR BOOT_PUD_ATTR) s1))"

end
