(* ===== verification/Mmu_Inv.thy ===== *)
theory Mmu_Inv
  imports Mmu
begin

text \<open>
  Page tables as trees: what a table maps according to the hardware's walk, that mapping a page
  changes exactly one translation, and that freeing releases every table once.
\<close>

section \<open>Pages and entries\<close>

text \<open>A page of the kernel's half: its physical address fits the address field of an entry.\<close>

definition kpage :: "addr \<Rightarrow> bool" where
  "kpage a \<longleftrightarrow> VIRT_TO_PHYS a AND ENTRY_ADDR_MASK = VIRT_TO_PHYS a"

lemma phys_virt [simp]: "VIRT_TO_PHYS (PHYS_TO_VIRT x) = x" "PHYS_TO_VIRT (VIRT_TO_PHYS x) = x"
  by (simp_all add: PHYS_TO_VIRT_def VIRT_TO_PHYS_def)

lemma kpage_next [simp]: "kpage (next_table e)"
  by (simp add: kpage_def next_table_def and.assoc)

lemma mask_48: "ENTRY_ADDR_MASK = push_bit 12 (mask 36)"
  by (simp add: ENTRY_ADDR_MASK_def mask_eq_exp_minus_1)

lemma kpage_unat:
  assumes "kpage a"
  obtains k where "unat a = 0xffff000000000000 + 4096 * k" "k < 2 ^ 36"
proof -
  let ?p = "VIRT_TO_PHYS a"
  have "?p = push_bit 12 (take_bit 36 (drop_bit 12 ?p))"
  proof -
    have "?p = ?p AND push_bit 12 (mask 36)" using assms by (simp add: kpage_def mask_48)
    also have "\<dots> = push_bit 12 (take_bit 36 (drop_bit 12 ?p))"
      by (rule bit_word_eqI) (auto simp: bit_simps)
    finally show ?thesis .
  qed
  then have e: "unat ?p = unat (push_bit 12 (take_bit 36 (drop_bit 12 ?p)))" by simp
  let ?k = "unat (take_bit 36 (drop_bit 12 ?p))"
  have k: "?k < 2 ^ 36" by (metis unsigned_take_bit_eq take_bit_nat_less_exp)
  have "unat (push_bit 12 (take_bit 36 (drop_bit 12 ?p))) = 4096 * ?k"
    using k unat_mult_lem[of "take_bit 36 (drop_bit 12 ?p)" 4096] by (simp add: push_bit_eq_mult)
  with e have p: "unat ?p = 4096 * ?k" by simp
  have "a = ?p + 0xffff000000000000" by (simp add: VIRT_TO_PHYS_def)
  then have "unat a = unat (?p + 0xffff000000000000)" by simp
  also have "\<dots> = 4096 * ?k + 0xffff000000000000" using p k by (subst unat_add_lem[THEN iffD1]) simp_all
  finally show thesis using that[of ?k] k by simp
qed

lemma slot_unat: "kpage t \<Longrightarrow> i < 512 \<Longrightarrow> unat (slot t i) = unat t + 8 * i"
proof (erule kpage_unat)
  fix k assume k: "unat t = 0xffff000000000000 + 4096 * k" "k < 2 ^ 36" and i: "i < 512"
  have "unat (8 * of_nat i :: 64 word) = 8 * i" using i by (simp add: unat_word_ariths unsigned_of_nat take_bit_nat_eq_self)
  then show "unat (slot t i) = unat t + 8 * i" unfolding slot_def using k i by (subst unat_add_lem[THEN iffD1]) simp_all
qed

lemma slot_inj:
  assumes "kpage t" "kpage u" "i < 512" "j < 512"
  shows "slot t i = slot u j \<longleftrightarrow> t = u \<and> i = j"
proof
  assume "slot t i = slot u j"
  then have e: "unat t + 8 * i = unat u + 8 * j" using slot_unat assms by metis
  obtain k l where k: "unat t = 0xffff000000000000 + 4096 * k" "unat u = 0xffff000000000000 + 4096 * l"
    using kpage_unat assms(1,2) by metis
  have "(4096 * k + 8 * i) div 4096 = k" "(4096 * l + 8 * j) div 4096 = l" using assms(3,4) by simp_all
  moreover have "4096 * k + 8 * i = 4096 * l + 8 * j" using e k by simp
  ultimately have "k = l" by metis
  then show "t = u \<and> i = j" using e k by (simp add: word_unat_eq_iff)
qed simp

lemma words_set [simp]: "words (set_word a v s) = (words s)(a := v)"
  by (simp add: set_word_def)

lemma words_clear:
  assumes "kpage t" "kpage p" "i < 512"
  shows "words (clear_page t s) (slot p i) = (if p = t then 0 else words s (slot p i))"
proof -
  obtain k l where k: "unat t = 0xffff000000000000 + 4096 * k" "k < 2 ^ 36" "unat p = 0xffff000000000000 + 4096 * l" "l < 2 ^ 36"
    using kpage_unat assms(1,2) by metis
  have x: "unat (slot p i) = 0xffff000000000000 + 4096 * l + 8 * i" using slot_unat[OF assms(2,3)] k by simp
  have "slot p i - t < 0x1000 \<longleftrightarrow> p = t"
  proof (cases "l < k")
    case True
    then have "unat (slot p i) < unat t" using x k assms(3) by simp
    then have "unat (slot p i - t) = 2 ^ 64 - (unat t - unat (slot p i))"
      by (simp add: unat_sub_if_size word_size)
    then have "\<not> unat (slot p i - t) < 4096" using x k by simp
    then show ?thesis using True k by (auto simp: word_less_nat_alt)
  next
    case False
    then have "t \<le> slot p i" using x k by (simp add: word_le_nat_alt)
    then have "unat (slot p i - t) = 4096 * (l - k) + 8 * i" using x k False by (simp add: unat_sub diff_mult_distrib2)
    then have "slot p i - t < 0x1000 \<longleftrightarrow> l = k" using False assms(3) by (auto simp: word_less_nat_alt)
    then show ?thesis using k by (simp add: word_unat_eq_iff)
  qed
  then show ?thesis by (simp add: clear_page_def)
qed

lemma pt_index_less [simp]: "pt_index n va < 512"
proof -
  have "drop_bit (12 + 9 * n) va AND 0x1ff = take_bit 9 (drop_bit (12 + 9 * n) va)"
    by (simp add: take_bit_eq_mask mask_eq_exp_minus_1)
  then have "pt_index n va = take_bit 9 (unat (drop_bit (12 + 9 * n) va))" by (simp only: pt_index_def unsigned_take_bit_eq)
  then show ?thesis using take_bit_nat_less_exp[of 9 "unat (drop_bit (12 + 9 * n) va)"] by simp
qed

text \<open>The entry written for a new table leads to it.\<close>

lemma table_attr_bits: "table_attr = 0x407" "page_attr = 0x20000000000407"
  by (simp_all add: table_attr_def page_attr_def PD_ACCESS_def PD_TABLE_def MAIR_IDX_NORMAL_NOCACHE_def PD_KNX_def)

lemma next_table_new:
  assumes "kpage a"
  shows "next_table (VIRT_TO_PHYS a OR table_attr) = a"
proof -
  have "(VIRT_TO_PHYS a OR table_attr) AND ENTRY_ADDR_MASK = VIRT_TO_PHYS a"
    using assms by (simp add: bit.conj_disj_distrib2 kpage_def table_attr_bits ENTRY_ADDR_MASK_def)
  then show ?thesis by (simp add: next_table_def)
qed

lemma or_valid: "x AND 3 = 3 \<Longrightarrow> (y OR x) AND (3 :: 64 word) = 3"
  by (simp add: bit.conj_disj_distrib2)

section \<open>Trees of tables\<close>

text \<open>The tables reached from \<open>t\<close> with \<open>n\<close> levels below it; the tree is well formed when every entry
  in use is a valid table descriptor and no table is reached twice.\<close>

primrec pages :: "nat \<Rightarrow> (addr \<Rightarrow> 64 word) \<Rightarrow> addr \<Rightarrow> addr set" where
  "pages 0 w t = {t}"
| "pages (Suc n) w t = insert t (\<Union>i \<in> {i. i < 512 \<and> w (slot t i) \<noteq> 0}. pages n w (next_table (w (slot t i))))"

primrec tree :: "nat \<Rightarrow> (addr \<Rightarrow> 64 word) \<Rightarrow> addr \<Rightarrow> bool" where
  "tree 0 w t \<longleftrightarrow> True"
| "tree (Suc n) w t \<longleftrightarrow>
     (\<forall>i < 512. w (slot t i) \<noteq> 0 \<longrightarrow> w (slot t i) AND 3 = 3 \<and> tree n w (next_table (w (slot t i))) \<and>
        t \<notin> pages n w (next_table (w (slot t i)))) \<and>
     (\<forall>i < 512. \<forall>j < 512. i \<noteq> j \<longrightarrow> w (slot t i) \<noteq> 0 \<longrightarrow> w (slot t j) \<noteq> 0 \<longrightarrow>
        pages n w (next_table (w (slot t i))) \<inter> pages n w (next_table (w (slot t j))) = {})"

text \<open>The hardware's walk: a descriptor is valid when its low bits are 11.  (A block descriptor, low
  bits 01, never occurs in these tables.)\<close>

primrec translate :: "nat \<Rightarrow> (addr \<Rightarrow> 64 word) \<Rightarrow> addr \<Rightarrow> 64 word \<Rightarrow> 64 word option" where
  "translate 0 w t va = (let e = w (slot t (pt_index 0 va)) in if e AND 3 = 3 then Some e else None)"
| "translate (Suc n) w t va = (let e = w (slot t (pt_index (Suc n) va)) in
     if e AND 3 = 3 then translate n w (next_table e) va else None)"

lemma valid_nonzero: "e AND 3 = 3 \<Longrightarrow> e \<noteq> (0 :: 64 word)"
  by auto

text \<open>Only the slots of the tables in the tree matter.\<close>

definition agree :: "(addr \<Rightarrow> 64 word) \<Rightarrow> (addr \<Rightarrow> 64 word) \<Rightarrow> addr set \<Rightarrow> bool" where
  "agree w w' S \<longleftrightarrow> (\<forall>p \<in> S. \<forall>i < 512. w' (slot p i) = w (slot p i))"

lemma agree_sub: "agree w w' S \<Longrightarrow> T \<subseteq> S \<Longrightarrow> agree w w' T"
  by (auto simp: agree_def)

lemma pages_root [simp]: "t \<in> pages n w t"
  by (cases n) auto

lemma pages_sub: "i < 512 \<Longrightarrow> w (slot t i) \<noteq> 0 \<Longrightarrow> pages n w (next_table (w (slot t i))) \<subseteq> pages (Suc n) w t"
  by auto

lemma pages_kpage: "kpage t \<Longrightarrow> p \<in> pages n w t \<Longrightarrow> kpage p"
proof (induction n arbitrary: t)
  case (Suc n)
  then show ?case using Suc.IH[OF kpage_next] by auto
qed simp

lemma tree_cong:
  assumes "agree w w' (pages n w t)"
  shows "pages n w' t = pages n w t \<and> tree n w' t = tree n w t \<and> translate n w' t va = translate n w t va"
  using assms
proof (induction n arbitrary: t)
  case 0
  then show ?case by (simp add: agree_def)
next
  case (Suc n)
  have e: "w' (slot t i) = w (slot t i)" if "i < 512" for i using Suc.prems that by (simp add: agree_def)
  have c: "pages n w' (next_table (w (slot t i))) = pages n w (next_table (w (slot t i)))"
    "tree n w' (next_table (w (slot t i))) = tree n w (next_table (w (slot t i)))"
    "translate n w' (next_table (w (slot t i))) va = translate n w (next_table (w (slot t i))) va"
    if "i < 512" "w (slot t i) \<noteq> 0" for i
    using Suc.IH[of "next_table (w (slot t i))"] agree_sub[OF Suc.prems pages_sub[of i w t n, OF that]] by simp_all
  have "pages (Suc n) w' t = pages (Suc n) w t"
    using e c(1) by (simp only: pages.simps) (intro arg_cong2[where f = insert] refl SUP_cong, auto)
  moreover have "tree (Suc n) w' t = tree (Suc n) w t" using e c(1,2) by (simp cong: conj_cong)
  moreover have "translate (Suc n) w' t va = translate (Suc n) w t va"
    using e[OF pt_index_less] c(3)[OF pt_index_less] valid_nonzero by (auto simp: Let_def)
  ultimately show ?case by simp
qed

text \<open>A table of zeros is an empty tree.\<close>

lemma tree_empty:
  assumes "\<forall>i < 512. w (slot t i) = 0"
  shows "tree n w t" "pages n w t = {t}" "translate n w t va = None"
  using assms by (cases n; simp add: Let_def)+

section \<open>Mapping a page\<close>

text \<open>Fresh tables only are added, everything outside the tree keeps its contents, one translation is
  set and every address with another index keeps its own.\<close>

definition grows :: "nat \<Rightarrow> addr \<Rightarrow> kern \<Rightarrow> kern \<Rightarrow> bool" where
  "grows n t s s' \<longleftrightarrow> heap_ok s' \<and> tree n (words s') t \<and> pages n (words s') t \<subseteq> kblocks s' \<and> kblocks s \<subseteq> kblocks s' \<and>
     pages n (words s) t \<subseteq> pages n (words s') t \<and> pages n (words s') t \<inter> kblocks s \<subseteq> pages n (words s) t \<and>
     kblocks s' \<subseteq> kblocks s \<union> pages n (words s') t \<and>
     (\<forall>p. kpage p \<longrightarrow> p \<notin> pages n (words s') t \<longrightarrow> (\<forall>i < 512. words s' (slot p i) = words s (slot p i))) \<and>
     quiet (s'\<lparr>words := words s\<rparr>) = quiet s \<and> con s' = con s"

lemma growsD:
  assumes "grows n t s s'"
  shows "heap_ok s'" "tree n (words s') t" "pages n (words s') t \<subseteq> kblocks s'" "kblocks s \<subseteq> kblocks s'"
    "pages n (words s) t \<subseteq> pages n (words s') t" "pages n (words s') t \<inter> kblocks s \<subseteq> pages n (words s) t"
    "kblocks s' \<subseteq> kblocks s \<union> pages n (words s') t"
    "\<And>p i. kpage p \<Longrightarrow> p \<notin> pages n (words s') t \<Longrightarrow> i < 512 \<Longrightarrow> words s' (slot p i) = words s (slot p i)"
    "quiet (s'\<lparr>words := words s\<rparr>) = quiet s" "con s' = con s"
  using assms by (simp_all add: grows_def)

lemma quiet_words: "quiet (s\<lparr>words := w\<rparr>) = (quiet s)\<lparr>words := w\<rparr>"
  by (simp add: quiet_def)

lemma quiet_words_trans:
  assumes "quiet (s1\<lparr>words := words s\<rparr>) = quiet s" "quiet (s2\<lparr>words := words s1\<rparr>) = quiet s1"
  shows "quiet (s2\<lparr>words := words s\<rparr>) = quiet s"
proof -
  have "quiet (s2\<lparr>words := words s\<rparr>) = (quiet (s2\<lparr>words := words s1\<rparr>))\<lparr>words := words s\<rparr>" by (simp add: quiet_words)
  also have "\<dots> = quiet s" using assms by (simp add: quiet_words)
  finally show ?thesis .
qed

lemma grows_trans:
  assumes a: "grows n t s s1" and b: "grows n t s1 s2"
  shows "grows n t s s2"
proof -
  note d1 = growsD[OF a] and d2 = growsD[OF b]
  have "pages n (words s2) t \<inter> kblocks s \<subseteq> pages n (words s) t" using d1(4,6) d2(6) by blast
  moreover have "kblocks s2 \<subseteq> kblocks s \<union> pages n (words s2) t" using d1(7) d2(5,7) by blast
  moreover have "words s2 (slot p i) = words s (slot p i)" if "kpage p" "p \<notin> pages n (words s2) t" "i < 512" for p i
    using d1(8)[of p i] d2(8)[of p i] d2(5) that by auto
  moreover have "quiet (s2\<lparr>words := words s\<rparr>) = quiet s" by (rule quiet_words_trans[OF d1(9) d2(9)])
  ultimately show ?thesis using d1(4,5,10) d2(1-5,10) unfolding grows_def by auto
qed

text \<open>The allocator's answers are pages of the kernel's half.\<close>

lemma knew_kpage:
  assumes ok: "heap_ok s" and sz: "sz \<noteq> 0" and k: "knew sz s = Some (s', a)"
  shows "kpage a"
proof -
  obtain m where m: "kmalloc sz (mem s) = Some (m, a)" "a \<noteq> 0"
    using k by (auto simp: knew_def kalloc_def Let_def split: option.splits if_splits)
  then have "malloc_b sz (mem s) = (m, a)" using kmalloc_page[OF sz, of "mem s"] by simp
  with malloc_b_post[OF _ sz, of "mem s"] ok m(2) obtain b where b: "a = index2address (of_nat b)" "b < TOTAL_FRAME"
    by (auto simp: heap_ok_def page_post_def Let_def)
  have "VIRT_TO_PHYS a = push_bit 12 (of_nat b)"
    by (simp add: b index2address_def VIRT_TO_PHYS_def BUDDY_MEMORY_BASE_def FRAME_SIZE_def push_bit_eq_mult)
  moreover have "push_bit 12 (of_nat b :: 64 word) AND push_bit 12 (mask 36) = push_bit 12 (of_nat b)"
  proof -
    have "take_bit 36 (of_nat b :: 64 word) = of_nat b"
      using b(2) by (simp add: take_bit_of_nat take_bit_nat_eq_self TOTAL_FRAME_def)
    then show ?thesis by (simp add: take_bit_eq_mask flip: push_bit_and)
  qed
  ultimately show ?thesis by (simp add: kpage_def mask_48)
qed

lemma grows_refl: "heap_ok s \<Longrightarrow> tree n (words s) t \<Longrightarrow> pages n (words s) t \<subseteq> kblocks s \<Longrightarrow> grows n t s s"
  by (auto simp: grows_def)

lemma fill_entry_grows:
  assumes ok: "heap_ok s" and rm: "roomy (Suc m) s" and t: "kpage t" "tree (Suc n) (words s) t"
    and sub: "pages (Suc n) (words s) t \<subseteq> kblocks s" and i: "i < 512"
  shows "\<exists>s1. fill_entry (slot t i) s = Some s1 \<and> grows (Suc n) t s s1 \<and> words s1 (slot t i) \<noteq> 0 \<and> roomy m s1 \<and>
    (\<forall>va. translate (Suc n) (words s1) t va = translate (Suc n) (words s) t va)"
proof (cases "words s (slot t i) = 0")
  case False
  moreover have "roomy m s" using rm by (simp add: roomy_def)
  ultimately show ?thesis using grows_refl[OF ok t(2) sub] by (intro exI[of _ s]) (simp add: fill_entry_def)
next
  case True
  obtain s0 a where k: "knew 0x1000 s = Some (s0, a)" "roomy m s0"
    by (rule knew_room[OF ok rm, of "0x1000"]) simp_all
  have rq: "request_ok 0x1000" by (simp add: request_ok_def)
  note n0 = knew_spec[OF ok rq k(1)] and q0 = quietD[OF knew_spec(5)[OF ok rq k(1)]]
  have ap: "kpage a" by (rule knew_kpage[OF ok _ k(1)]) simp
  have at: "a \<noteq> t" "a \<notin> pages (Suc n) (words s) t" using n0(3) sub pages_root[of t "Suc n" "words s"] by auto
  define e where "e = VIRT_TO_PHYS a OR table_attr"
  define s1 where "s1 = set_word (slot t i) e (clear_page a s0)"
  have ev: "e AND 3 = 3" "next_table e = a"
    unfolding e_def using next_table_new[OF ap] by (auto intro!: or_valid simp: table_attr_bits)
  have w: "words s1 (slot p j) = (if p = t \<and> j = i then e else if p = a then 0 else words s (slot p j))"
    if "kpage p" "j < 512" for p j
    using slot_inj[OF that(1) t(1) that(2) i] words_clear[OF ap that] by (auto simp: s1_def q0)
  have ta: "tree n (words s1) a" "pages n (words s1) a = {a}" "translate n (words s1) a va = None" for va
    using tree_empty[of "words s1" a n] w[OF ap] at(1) by auto
  let ?nt = "\<lambda>j. next_table (words s (slot t j))"
  have c: "pages n (words s1) (?nt j) = pages n (words s) (?nt j) \<and> tree n (words s1) (?nt j) = tree n (words s) (?nt j) \<and>
      translate n (words s1) (?nt j) va = translate n (words s) (?nt j) va"
    if j: "j < 512" "words s (slot t j) \<noteq> 0" for j va
  proof (rule tree_cong)
    have "p \<noteq> t" "p \<noteq> a" "kpage p" if "p \<in> pages n (words s) (?nt j)" for p
      using t(2) at(2) j that pages_sub[of j "words s" t n] pages_kpage[OF kpage_next that] by auto
    then show "agree (words s) (words s1) (pages n (words s) (?nt j))" using w by (auto simp: agree_def)
  qed
  have wt: "words s1 (slot t j) = (if j = i then e else words s (slot t j))" if "j < 512" for j
    using w[OF t(1) that] at(1) by auto
  have en: "e \<noteq> 0" using ev(1) by (rule valid_nonzero)
  have "pages (Suc n) (words s1) t = insert a (pages (Suc n) (words s) t)"
  proof -
    have "{j. j < 512 \<and> words s1 (slot t j) \<noteq> 0} = insert i {j. j < 512 \<and> words s (slot t j) \<noteq> 0}"
      using wt en i by (auto split: if_splits)
    moreover have "pages n (words s1) (next_table (words s1 (slot t j))) = pages n (words s) (?nt j)"
      if "j < 512" "words s (slot t j) \<noteq> 0" for j
      using wt[OF that(1)] c[OF that] True that(2) by auto
    moreover have "pages n (words s1) (next_table (words s1 (slot t i))) = {a}" using wt[OF i] ev(2) ta(2) by simp
    ultimately show ?thesis by auto
  qed
  moreover have "tree (Suc n) (words s1) t"
  proof -
    have nta: "a \<notin> pages n (words s) (?nt j)" if "j < 512" "words s (slot t j) \<noteq> 0" for j
      using at(2) pages_sub[of j "words s" t n] that by auto
    show ?thesis unfolding tree.simps
    proof (intro conjI allI impI)
      fix j assume j: "j < 512" "words s1 (slot t j) \<noteq> 0"
      show "words s1 (slot t j) AND 3 = 3" "tree n (words s1) (next_table (words s1 (slot t j)))"
        "t \<notin> pages n (words s1) (next_table (words s1 (slot t j)))"
        using wt[OF j(1)] j ev ta at(1) c[OF j(1)] t(2) by (auto split: if_splits)
    next
      fix j k assume j: "j < 512" "words s1 (slot t j) \<noteq> 0" and k: "k < 512" "words s1 (slot t k) \<noteq> 0" and "j \<noteq> k"
      then show "pages n (words s1) (next_table (words s1 (slot t j))) \<inter> pages n (words s1) (next_table (words s1 (slot t k))) = {}"
        using wt[OF j(1)] wt[OF k(1)] ev(2) ta(2) c[OF j(1)] c[OF k(1)] nta[OF j(1)] nta[OF k(1)] t(2)
        by (auto split: if_splits)
    qed
  qed
  moreover have m1: "mem s1 = mem s0" "con s1 = con s0" by (simp_all add: s1_def set_word_def clear_page_def)
  moreover have "quiet (s1\<lparr>words := words s\<rparr>) = quiet s"
  proof -
    have "quiet (s1\<lparr>words := words s\<rparr>) = (quiet s0)\<lparr>words := words s\<rparr>" by (simp add: s1_def set_word_def clear_page_def quiet_def)
    also have "\<dots> = quiet s" using n0(5) by (simp add: quiet_def)
    finally show ?thesis .
  qed
  moreover have "translate (Suc n) (words s1) t va = translate (Suc n) (words s) t va" for va
    using wt[OF pt_index_less] ev ta(3) c[OF pt_index_less] True by (auto simp: Let_def dest: valid_nonzero)
  moreover have "fill_entry (slot t i) s = Some s1" using True k(1) by (simp add: fill_entry_def s1_def e_def)
  moreover have "words s1 (slot t i) \<noteq> 0" using wt[OF i] en by simp
  moreover have "roomy m s1" using k(2) m1 by (simp add: roomy_def)
  moreover have "words s1 (slot p j) = words s (slot p j)" if "kpage p" "p \<notin> insert a (pages (Suc n) (words s) t)" "j < 512" for p j
    using w[OF that(1,3)] that(2) pages_root[of t "Suc n" "words s"] by auto
  ultimately show ?thesis
    using n0(1,3,4,6) sub heap_cong[OF m1(1)] unfolding grows_def by (intro exI[of _ s1]) auto
qed

text \<open>Growing a subtree grows the tree.\<close>

lemma subtree_grows:
  assumes ok: "heap_ok s" and t: "kpage t" "tree (Suc n) (words s) t" and sub: "pages (Suc n) (words s) t \<subseteq> kblocks s"
    and i: "i < 512" "words s (slot t i) \<noteq> 0" and g: "grows n (next_table (words s (slot t i))) s s'"
  shows "grows (Suc n) t s s' \<and> (\<forall>va. translate (Suc n) (words s') t va =
    (if pt_index (Suc n) va = i then translate n (words s') (next_table (words s (slot t i))) va
     else translate (Suc n) (words s) t va))"
proof -
  let ?nt = "\<lambda>j. next_table (words s (slot t j))"
  note d = growsD[OF g]
  have kb: "pages n (words s) (?nt j) \<subseteq> kblocks s" "t \<notin> pages n (words s) (?nt j)" if "j < 512" "words s (slot t j) \<noteq> 0" for j
    using that t(2) sub pages_sub[of j "words s" t n] by auto
  have tk: "t \<in> kblocks s" using sub by auto
  then have tn: "t \<notin> pages n (words s') (?nt i)" using d(6) kb(2)[OF i] by auto
  have wt: "words s' (slot t j) = words s (slot t j)" if "j < 512" for j by (rule d(8)[OF t(1) tn that])
  have disj: "pages n (words s) (?nt j) \<inter> pages n (words s') (?nt i) = {}" if "j < 512" "words s (slot t j) \<noteq> 0" "j \<noteq> i" for j
  proof -
    have "pages n (words s) (?nt j) \<inter> pages n (words s) (?nt i) = {}" using t(2) that i by simp
    then show ?thesis using d(6) kb(1)[OF that(1,2)] by blast
  qed
  have c: "pages n (words s') (?nt j) = pages n (words s) (?nt j) \<and> tree n (words s') (?nt j) = tree n (words s) (?nt j) \<and>
      translate n (words s') (?nt j) va = translate n (words s) (?nt j) va"
    if j: "j < 512" "words s (slot t j) \<noteq> 0" "j \<noteq> i" for j va
  proof (rule tree_cong)
    show "agree (words s) (words s') (pages n (words s) (?nt j))"
      using d(8) disj[OF j] pages_kpage[OF kpage_next] unfolding agree_def by blast
  qed
  have pg: "pages (Suc n) (words s') t = insert t ((\<Union>j \<in> {j. j < 512 \<and> words s (slot t j) \<noteq> 0 \<and> j \<noteq> i}. pages n (words s) (?nt j)) \<union> pages n (words s') (?nt i))"
    using wt c i by (auto split: if_splits) metis+
  have pg0: "pages (Suc n) (words s) t = insert t ((\<Union>j \<in> {j. j < 512 \<and> words s (slot t j) \<noteq> 0 \<and> j \<noteq> i}. pages n (words s) (?nt j)) \<union> pages n (words s) (?nt i))"
    using i by auto
  have "tree (Suc n) (words s') t" unfolding tree.simps
  proof (intro conjI allI impI)
    fix j assume j: "j < 512" "words s' (slot t j) \<noteq> 0"
    show "words s' (slot t j) AND 3 = 3" "tree n (words s') (next_table (words s' (slot t j)))"
      "t \<notin> pages n (words s') (next_table (words s' (slot t j)))"
      using wt[OF j(1)] j c[OF j(1)] t(2) d(2) tn by (cases "j = i"; simp)+
  next
    fix j k assume j: "j < 512" "words s' (slot t j) \<noteq> 0" and k: "k < 512" "words s' (slot t k) \<noteq> 0" and jk: "j \<noteq> k"
    have j': "words s (slot t j) \<noteq> 0" and k': "words s (slot t k) \<noteq> 0" using j k wt by simp_all
    have e: "pages n (words s) (?nt j) \<inter> pages n (words s) (?nt k) = {}" using t(2) j(1) k(1) j' k' jk by simp
    show "pages n (words s') (next_table (words s' (slot t j))) \<inter> pages n (words s') (next_table (words s' (slot t k))) = {}"
      unfolding wt[OF j(1)] wt[OF k(1)]
      using e c[OF j(1) j'] c[OF k(1) k'] disj[OF j(1) j'] disj[OF k(1) k'] jk by (cases "j = i"; cases "k = i") auto
  qed
  moreover have "pages (Suc n) (words s') t \<subseteq> kblocks s'" unfolding pg using d(3,4) tk kb(1) by blast
  moreover have "pages (Suc n) (words s) t \<subseteq> pages (Suc n) (words s') t" unfolding pg pg0 using d(5) by blast
  moreover have "pages (Suc n) (words s') t \<inter> kblocks s \<subseteq> pages (Suc n) (words s) t" unfolding pg pg0 using d(6) by blast
  moreover have "kblocks s' \<subseteq> kblocks s \<union> pages (Suc n) (words s') t" unfolding pg using d(7) by blast
  moreover have "words s' (slot p j) = words s (slot p j)" if "kpage p" "p \<notin> pages (Suc n) (words s') t" "j < 512" for p j
    by (rule d(8)[OF that(1) _ that(3)]) (use that(2) pg in blast)
  ultimately have "grows (Suc n) t s s'" using d unfolding grows_def by blast
  moreover have "translate (Suc n) (words s') t va = (if pt_index (Suc n) va = i then translate n (words s') (?nt i) va
     else translate (Suc n) (words s) t va)" for va
  proof (cases "pt_index (Suc n) va = i")
    case True
    then show ?thesis using wt[OF i(1)] i t(2) by (simp add: Let_def)
  next
    case False
    then show ?thesis using wt[OF pt_index_less] c[OF pt_index_less _ False] valid_nonzero by (auto simp: Let_def)
  qed
  ultimately show ?thesis by blast
qed

lemma map_walk_spec:
  assumes "heap_ok s" "roomy (n + m) s" "kpage t" "tree n (words s) t" "pages n (words s) t \<subseteq> kblocks s"
  shows "\<exists>s'. map_walk n t va pa flag s = Some s' \<and> grows n t s s' \<and> roomy m s' \<and>
    translate n (words s') t va = Some (pa OR page_attr OR flag) \<and>
    (\<forall>va'. (\<exists>k \<le> n. pt_index k va' \<noteq> pt_index k va) \<longrightarrow> translate n (words s') t va' = translate n (words s) t va')"
  using assms
proof (induction n arbitrary: t s)
  case 0
  let ?s' = "set_word (slot t (pt_index 0 va)) (pa OR page_attr OR flag) s"
  have v: "(pa OR page_attr OR flag) AND 3 = 3"
  proof -
    have "page_attr AND 3 = 3" by (simp add: table_attr_bits)
    then have "(flag OR pa OR page_attr) AND 3 = 3" by (intro or_valid)
    then show ?thesis by (simp only: ac_simps)
  qed
  have "words ?s' (slot p i) = words s (slot p i)" if "kpage p" "p \<noteq> t" "i < 512" for p i
    using slot_inj[OF that(1) "0.prems"(3) that(3) pt_index_less] that(2) by simp
  moreover have "mem ?s' = mem s" "con ?s' = con s" "quiet (?s'\<lparr>words := words s\<rparr>) = quiet s" by (simp_all add: set_word_def)
  ultimately have "grows 0 t s ?s'" using "0.prems" heap_cong[of ?s' s] by (auto simp: grows_def)
  moreover have "translate 0 (words ?s') t va' = translate 0 (words s) t va'" if "pt_index 0 va' \<noteq> pt_index 0 va" for va'
    using slot_inj[OF "0.prems"(3,3) pt_index_less pt_index_less, of 0 va' 0 va] that by (simp add: Let_def)
  moreover have "translate 0 (words ?s') t va = Some (pa OR page_attr OR flag)" using v by (simp add: Let_def)
  moreover have "roomy m ?s'" using "0.prems"(2) by (simp add: roomy_def set_word_def)
  ultimately show ?case by (intro exI[of _ ?s'] conjI allI impI) (simp, assumption+, blast)
next
  case (Suc n)
  let ?i = "pt_index (Suc n) va"
  have rm: "roomy (Suc (n + m)) s" using Suc.prems(2) by simp
  obtain s1 where s1: "fill_entry (slot t ?i) s = Some s1" "grows (Suc n) t s s1" "words s1 (slot t ?i) \<noteq> 0" "roomy (n + m) s1"
    "\<And>va. translate (Suc n) (words s1) t va = translate (Suc n) (words s) t va"
    using fill_entry_grows[OF Suc.prems(1) rm Suc.prems(3-5) pt_index_less] by blast
  note d = growsD[OF s1(2)]
  let ?c = "next_table (words s1 (slot t ?i))"
  have c: "tree n (words s1) ?c" "pages n (words s1) ?c \<subseteq> kblocks s1"
    using d(2) s1(3) order_trans[OF pages_sub[of ?i "words s1" t n] d(3)] by simp_all
  from Suc.IH[OF d(1) s1(4) kpage_next c] obtain s' where s': "map_walk n ?c va pa flag s1 = Some s'" "grows n ?c s1 s'" "roomy m s'"
    "translate n (words s') ?c va = Some (pa OR page_attr OR flag)"
    "\<And>va'. (\<exists>k \<le> n. pt_index k va' \<noteq> pt_index k va) \<Longrightarrow> translate n (words s') ?c va' = translate n (words s1) ?c va'"
    by blast
  note g = subtree_grows[OF d(1) Suc.prems(3) d(2,3) pt_index_less s1(3) s'(2)]
  have "translate (Suc n) (words s') t va' = translate (Suc n) (words s) t va'"
    if "\<exists>k \<le> Suc n. pt_index k va' \<noteq> pt_index k va" for va'
  proof (cases "pt_index (Suc n) va' = ?i")
    case True
    then have "\<exists>k \<le> n. pt_index k va' \<noteq> pt_index k va" using that by (metis le_Suc_eq)
    then have e: "translate n (words s') ?c va' = translate n (words s1) ?c va'" by (rule s'(5))
    have "translate (Suc n) (words s') t va' = (if pt_index (Suc n) va' = ?i then translate n (words s') ?c va'
        else translate (Suc n) (words s1) t va')" using g by blast
    then have "translate (Suc n) (words s') t va' = translate n (words s1) ?c va'" by (simp only: True e simp_thms if_True)
    also have "\<dots> = translate (Suc n) (words s1) t va'" using True s1(3) d(2) by (simp add: Let_def)
    finally show ?thesis using s1(5) by simp
  next
    case False
    then show ?thesis using g s1(5) by simp
  qed
  then show ?case using s1(1) s'(1,3,4) g grows_trans[OF s1(2)] by (auto simp: Let_def)
qed

section \<open>Freeing the tables\<close>

text \<open>The tables below the root are released, each once, the root is left empty, and nothing outside
  the tree changes.\<close>

definition freed :: "nat \<Rightarrow> addr \<Rightarrow> kern \<Rightarrow> kern \<Rightarrow> bool" where
  "freed n t s s' \<longleftrightarrow> heap_ok s' \<and> kblocks s' = kblocks s - (pages n (words s) t - {t}) \<and>
     (n = 0 \<or> (\<forall>i < 512. words s' (slot t i) = 0)) \<and>
     (\<forall>p. kpage p \<longrightarrow> p \<notin> pages n (words s) t \<longrightarrow> (\<forall>i < 512. words s' (slot p i) = words s (slot p i))) \<and>
     quiet (s'\<lparr>words := words s\<rparr>) = quiet s \<and> con s' = con s"

text \<open>One entry of the root \<open>t\<close>.\<close>

definition below :: "nat \<Rightarrow> (addr \<Rightarrow> 64 word) \<Rightarrow> addr \<Rightarrow> addr set" where
  "below n w t = (\<Union>i \<in> {i. i < 512 \<and> w (slot t i) \<noteq> 0}. pages n w (next_table (w (slot t i))))"

lemma pages_Suc: "pages (Suc n) w t = insert t (below n w t)"
  by (simp add: below_def)

definition entry_freed :: "nat \<Rightarrow> addr \<Rightarrow> nat \<Rightarrow> kern \<Rightarrow> kern \<Rightarrow> bool" where
  "entry_freed n t i s s1 \<longleftrightarrow> heap_ok s1 \<and> tree (Suc n) (words s1) t \<and> below n (words s1) t \<subseteq> kblocks s1 \<and>
     below n (words s1) t \<subseteq> below n (words s) t \<and>
     kblocks s1 = kblocks s - (below n (words s) t - below n (words s1) t) \<and>
     words s1 (slot t i) = 0 \<and> (\<forall>j < 512. words s1 (slot t j) = words s (slot t j) \<or> words s1 (slot t j) = 0) \<and>
     (\<forall>p. kpage p \<longrightarrow> p \<notin> pages (Suc n) (words s) t \<longrightarrow> (\<forall>j < 512. words s1 (slot p j) = words s (slot p j))) \<and>
     quiet (s1\<lparr>words := words s\<rparr>) = quiet s \<and> con s1 = con s"

lemma free_entry:
  assumes ok: "heap_ok s" and t: "kpage t" "tree (Suc n) (words s) t" and sub: "below n (words s) t \<subseteq> kblocks s"
    and i: "i < 512" "words s (slot t i) \<noteq> 0" and f: "freed n (next_table (words s (slot t i))) s s0"
  shows "\<exists>s1. krelease (next_table (words s (slot t i))) (set_word (slot t i) 0 s0) = Some s1 \<and> entry_freed n t i s s1"
proof -
  let ?nt = "\<lambda>j. next_table (words s (slot t j))"
  have d: "heap_ok s0" "kblocks s0 = kblocks s - (pages n (words s) (?nt i) - {?nt i})"
    "\<And>p j. kpage p \<Longrightarrow> p \<notin> pages n (words s) (?nt i) \<Longrightarrow> j < 512 \<Longrightarrow> words s0 (slot p j) = words s (slot p j)"
    "quiet (s0\<lparr>words := words s\<rparr>) = quiet s" "con s0 = con s"
    using f by (simp_all add: freed_def)
  let ?s0 = "set_word (slot t i) 0 s0"
  have m0: "mem ?s0 = mem s0" by (simp add: set_word_def)
  have ps: "pages n (words s) (?nt j) \<subseteq> below n (words s) t" if "j < 512" "words s (slot t j) \<noteq> 0" for j
    using that by (auto simp: below_def)
  have "?nt i \<in> kblocks s" using ps[OF i] sub pages_root[of "?nt i" n "words s"] by blast
  then have "?nt i \<in> kblocks ?s0" using d(2) heap_cong[OF m0] by simp
  then obtain s1 where s1: "krelease (?nt i) ?s0 = Some s1" "heap_ok s1" "kblocks s1 = kblocks ?s0 - {?nt i}"
    "quiet s1 = quiet ?s0" "con s1 = con ?s0"
    using krelease_spec[of ?s0 "?nt i"] d(1) heap_cong[OF m0] by metis
  have kb: "kblocks s1 = kblocks s - pages n (words s) (?nt i)" using s1(3) d(2) heap_cong[OF m0] by auto
  have w: "words s1 (slot p j) = (if p = t \<and> j = i then 0 else words s (slot p j))"
    if "kpage p" "p \<notin> pages n (words s) (?nt i)" "j < 512" for p j
    using d(3)[OF that] slot_inj[OF that(1) t(1) that(3) i(1)] quietD(15)[OF s1(4)] by simp
  have tn: "t \<notin> pages n (words s) (?nt j)" if "j < 512" "words s (slot t j) \<noteq> 0" for j using t(2) that by simp
  have wt: "words s1 (slot t j) = (if j = i then 0 else words s (slot t j))" if "j < 512" for j
    using w[OF t(1) tn[OF i] that] by simp
  have dj: "pages n (words s) (?nt j) \<inter> pages n (words s) (?nt k) = {}"
    if "j < 512" "words s (slot t j) \<noteq> 0" "k < 512" "words s (slot t k) \<noteq> 0" "j \<noteq> k" for j k
    using t(2) that by simp
  have c: "pages n (words s1) (?nt j) = pages n (words s) (?nt j) \<and> tree n (words s1) (?nt j) = tree n (words s) (?nt j) \<and>
      translate n (words s1) (?nt j) 0 = translate n (words s) (?nt j) 0"
    if j: "j < 512" "words s (slot t j) \<noteq> 0" "j \<noteq> i" for j
  proof (rule tree_cong)
    have "p \<noteq> t" "kpage p" "p \<notin> pages n (words s) (?nt i)" if "p \<in> pages n (words s) (?nt j)" for p
      using tn[OF j(1,2)] dj[OF j(1,2) i j(3)] that pages_kpage[OF kpage_next that] by auto
    then show "agree (words s) (words s1) (pages n (words s) (?nt j))" using w by (simp add: agree_def)
  qed
  have bl: "below n (words s1) t = (\<Union>j \<in> {j. j < 512 \<and> words s (slot t j) \<noteq> 0 \<and> j \<noteq> i}. pages n (words s) (?nt j))"
  proof -
    have "{j. j < 512 \<and> words s1 (slot t j) \<noteq> 0} = {j. j < 512 \<and> words s (slot t j) \<noteq> 0 \<and> j \<noteq> i}"
      using wt by (auto split: if_splits)
    then show ?thesis unfolding below_def by (intro SUP_cong) (use wt c in auto)
  qed
  have bl0: "below n (words s) t = below n (words s1) t \<union> pages n (words s) (?nt i)"
    unfolding bl unfolding below_def using i by auto
  have bd: "below n (words s1) t \<inter> pages n (words s) (?nt i) = {}"
    unfolding bl using dj[OF _ _ i] by blast
  have "tree (Suc n) (words s1) t" unfolding tree.simps
  proof (intro conjI allI impI)
    fix j assume j: "j < 512" "words s1 (slot t j) \<noteq> 0"
    then have j': "words s (slot t j) \<noteq> 0" "j \<noteq> i" "words s1 (slot t j) = words s (slot t j)" using wt[OF j(1)] by (auto split: if_splits)
    show "words s1 (slot t j) AND 3 = 3" "tree n (words s1) (next_table (words s1 (slot t j)))"
      "t \<notin> pages n (words s1) (next_table (words s1 (slot t j)))"
      using j' t(2) j(1) c[OF j(1) j'(1,2)] tn[OF j(1) j'(1)] by simp_all
  next
    fix j k assume j: "j < 512" "words s1 (slot t j) \<noteq> 0" and k: "k < 512" "words s1 (slot t k) \<noteq> 0" and jk: "j \<noteq> k"
    have j': "words s (slot t j) \<noteq> 0" "j \<noteq> i" "words s1 (slot t j) = words s (slot t j)"
      and k': "words s (slot t k) \<noteq> 0" "k \<noteq> i" "words s1 (slot t k) = words s (slot t k)"
      using j k wt[OF j(1)] wt[OF k(1)] by (auto split: if_splits)
    show "pages n (words s1) (next_table (words s1 (slot t j))) \<inter> pages n (words s1) (next_table (words s1 (slot t k))) = {}"
      using c[OF j(1) j'(1,2)] c[OF k(1) k'(1,2)] dj[OF j(1) j'(1) k(1) k'(1) jk] j'(3) k'(3) by simp
  qed
  moreover have "below n (words s1) t \<subseteq> kblocks s1" using sub bl0 bd kb by blast
  moreover have "kblocks s1 = kblocks s - (below n (words s) t - below n (words s1) t)" using bl0 bd kb by blast
  moreover have "words s1 (slot p j) = words s (slot p j)" if "kpage p" "p \<notin> pages (Suc n) (words s) t" "j < 512" for p j
  proof -
    have "p \<notin> pages n (words s) (?nt i)" "p \<noteq> t" using that(2) ps[OF i] unfolding pages_Suc by blast+
    then show ?thesis using w[OF that(1) _ that(3)] by simp
  qed
  moreover have "quiet (s1\<lparr>words := words s\<rparr>) = quiet s"
  proof -
    have "quiet (s1\<lparr>words := words s\<rparr>) = quiet (s0\<lparr>words := words s\<rparr>)" using s1(4) by (simp add: quiet_words) (simp add: set_word_def quiet_def)
    then show ?thesis using d(4) by simp
  qed
  moreover have "con s1 = con s" using s1(5) d(5) by (simp add: set_word_def)
  ultimately show ?thesis using s1(1,2) bl0 wt i(1) unfolding entry_freed_def by (intro exI[of _ s1]) auto
qed

text \<open>All entries, one after the other.\<close>

definition entries_freed :: "nat \<Rightarrow> addr \<Rightarrow> nat list \<Rightarrow> kern \<Rightarrow> kern \<Rightarrow> bool" where
  "entries_freed n t is s s1 \<longleftrightarrow> heap_ok s1 \<and> tree (Suc n) (words s1) t \<and> below n (words s1) t \<subseteq> kblocks s1 \<and>
     below n (words s1) t \<subseteq> below n (words s) t \<and>
     kblocks s1 = kblocks s - (below n (words s) t - below n (words s1) t) \<and>
     (\<forall>i \<in> set is. words s1 (slot t i) = 0) \<and> (\<forall>j < 512. words s1 (slot t j) = words s (slot t j) \<or> words s1 (slot t j) = 0) \<and>
     (\<forall>p. kpage p \<longrightarrow> p \<notin> pages (Suc n) (words s) t \<longrightarrow> (\<forall>j < 512. words s1 (slot p j) = words s (slot p j))) \<and>
     quiet (s1\<lparr>words := words s\<rparr>) = quiet s \<and> con s1 = con s"

lemma entries_freed_step:
  assumes a: "entry_freed n t i s s1" and b: "entries_freed n t is s1 s2" and sub: "below n (words s) t \<subseteq> kblocks s"
    and i: "i < 512"
  shows "entries_freed n t (i # is) s s2"
proof -
  have a': "kblocks s1 = kblocks s - (below n (words s) t - below n (words s1) t)" "below n (words s1) t \<subseteq> below n (words s) t"
    "words s1 (slot t i) = 0" "\<And>j. j < 512 \<Longrightarrow> words s1 (slot t j) = words s (slot t j) \<or> words s1 (slot t j) = 0"
    "\<And>p j. kpage p \<Longrightarrow> p \<notin> pages (Suc n) (words s) t \<Longrightarrow> j < 512 \<Longrightarrow> words s1 (slot p j) = words s (slot p j)"
    "quiet (s1\<lparr>words := words s\<rparr>) = quiet s" "con s1 = con s"
    using a unfolding entry_freed_def by blast+
  have b': "heap_ok s2" "tree (Suc n) (words s2) t" "below n (words s2) t \<subseteq> kblocks s2"
    "kblocks s2 = kblocks s1 - (below n (words s1) t - below n (words s2) t)" "below n (words s2) t \<subseteq> below n (words s1) t"
    "\<And>k. k \<in> set is \<Longrightarrow> words s2 (slot t k) = 0"
    "\<And>j. j < 512 \<Longrightarrow> words s2 (slot t j) = words s1 (slot t j) \<or> words s2 (slot t j) = 0"
    "\<And>p j. kpage p \<Longrightarrow> p \<notin> pages (Suc n) (words s1) t \<Longrightarrow> j < 512 \<Longrightarrow> words s2 (slot p j) = words s1 (slot p j)"
    "quiet (s2\<lparr>words := words s1\<rparr>) = quiet s1" "con s2 = con s1"
    using b unfolding entries_freed_def by blast+
  have "words s2 (slot t i) = 0" using a'(3) b'(7)[OF i] by auto
  moreover have "words s2 (slot p j) = words s (slot p j)" if p: "kpage p" "p \<notin> pages (Suc n) (words s) t" "j < 512" for p j
  proof -
    have "p \<notin> pages (Suc n) (words s1) t" using p(2) a'(2) unfolding pages_Suc by blast
    then show ?thesis using a'(5)[OF p] b'(8)[OF p(1) _ p(3)] by simp
  qed
  moreover have "words s2 (slot t j) = words s (slot t j) \<or> words s2 (slot t j) = 0" if "j < 512" for j
    using a'(4)[OF that] b'(7)[OF that] by auto
  moreover have "quiet (s2\<lparr>words := words s\<rparr>) = quiet s" by (rule quiet_words_trans[OF a'(6) b'(9)])
  moreover have "kblocks s2 = kblocks s - (below n (words s) t - below n (words s2) t)"
    "below n (words s2) t \<subseteq> below n (words s) t"
    using a'(1,2) b'(4,5) sub by blast+
  ultimately show ?thesis using b'(1-3,6,10) a'(7) unfolding entries_freed_def by (intro conjI ballI allI impI) auto
qed

lemma run_entries:
  assumes st: "\<And>i s. i < 512 \<Longrightarrow> heap_ok s \<Longrightarrow> tree (Suc n) (words s) t \<Longrightarrow> below n (words s) t \<subseteq> kblocks s \<Longrightarrow>
      \<exists>s1. f i s = Some s1 \<and> entry_freed n t i s s1"
  shows "heap_ok s \<Longrightarrow> tree (Suc n) (words s) t \<Longrightarrow> below n (words s) t \<subseteq> kblocks s \<Longrightarrow> \<forall>i \<in> set is. i < 512 \<Longrightarrow>
      \<exists>s1. run_all f is s = Some s1 \<and> entries_freed n t is s s1"
proof (induction "is" arbitrary: s)
  case Nil
  then show ?case by (auto simp: entries_freed_def)
next
  case (Cons i "is")
  obtain s1 where s1: "f i s = Some s1" "entry_freed n t i s s1" using st[of i s] Cons.prems by auto
  have "heap_ok s1" "tree (Suc n) (words s1) t" "below n (words s1) t \<subseteq> kblocks s1" using s1(2) unfolding entry_freed_def by blast+
  then obtain s2 where s2: "run_all f is s1 = Some s2" "entries_freed n t is s1 s2" using Cons.IH[of s1] Cons.prems by auto
  have "entries_freed n t (i # is) s s2" by (rule entries_freed_step[OF s1(2) s2(2)]) (use Cons.prems in auto)
  with s1(1) s2(1) show ?case by simp
qed

lemma tree_root: "tree (Suc n) w t \<Longrightarrow> t \<notin> below n w t"
  by (auto simp: below_def)

lemma entries_freed_all:
  assumes "entries_freed n t [0..<512] s s1" "tree (Suc n) (words s) t"
  shows "freed (Suc n) t s s1"
proof -
  have z: "\<forall>i < 512. words s1 (slot t i) = 0" using assms(1) by (simp add: entries_freed_def)
  then have "below n (words s1) t = {}" by (simp add: below_def)
  moreover have "t \<notin> below n (words s) t" by (rule tree_root[OF assms(2)])
  ultimately show ?thesis using assms(1) z unfolding entries_freed_def freed_def pages_Suc by auto
qed

text \<open>A descriptor in use passes the code's test.\<close>

lemma valid_table: "e AND 3 = 3 \<Longrightarrow> e \<noteq> 0 \<and> e AND PD_TABLE \<noteq> (0 :: 64 word)"
  using valid_nonzero by (auto simp: PD_TABLE_def)

lemma upt_512: "\<forall>i \<in> set [0..<512]. i < 512"
  by simp

lemma free_tables_spec:
  assumes "heap_ok s" "kpage t" "tree (Suc n) (words s) t" "below n (words s) t \<subseteq> kblocks s"
  shows "\<exists>s'. free_tables n (VIRT_TO_PHYS t) s = Some s' \<and> freed (Suc n) t s s'"
  using assms
proof (induction n arbitrary: s t)
  case 0
  let ?f = "\<lambda>i s. let a = slot (PHYS_TO_VIRT (VIRT_TO_PHYS t)) i; e = words s a; nt = e AND ENTRY_ADDR_MASK in
       if e \<noteq> 0 \<and> e AND PD_TABLE \<noteq> 0 then krelease (PHYS_TO_VIRT nt) (set_word a 0 s) else Some s"
  have "\<exists>s1. ?f i s = Some s1 \<and> entry_freed 0 t i s s1"
    if i: "i < 512" and p: "heap_ok s" "tree (Suc 0) (words s) t" "below 0 (words s) t \<subseteq> kblocks s" for i s
  proof (cases "words s (slot t i) = 0")
    case True
    then show ?thesis using p by (auto simp: entry_freed_def)
  next
    case False
    have "freed 0 (next_table (words s (slot t i))) s s" using p(1) by (simp add: freed_def)
    from free_entry[OF p(1) "0.prems"(2) p(2,3) i False this] show ?thesis
      using p(2) i False valid_table by (simp add: Let_def next_table_def)
  qed
  from run_entries[of 0 t ?f, OF this "0.prems"(1,3,4) upt_512]
  obtain s1 where "run_all ?f [0..<512] s = Some s1" "entries_freed 0 t [0..<512] s s1" by blast
  with entries_freed_all "0.prems"(3) show ?case unfolding free_tables.simps by blast
next
  case (Suc n)
  let ?f = "\<lambda>i s. let a = slot (PHYS_TO_VIRT (VIRT_TO_PHYS t)) i; e = words s a; nt = e AND ENTRY_ADDR_MASK in
       if e \<noteq> 0 \<and> e AND PD_TABLE \<noteq> 0 then
         (case free_tables n nt s of None \<Rightarrow> None
          | Some s1 \<Rightarrow> krelease (PHYS_TO_VIRT nt) (set_word a 0 s1))
       else Some s"
  have "\<exists>s1. ?f i s = Some s1 \<and> entry_freed (Suc n) t i s s1"
    if i: "i < 512" and p: "heap_ok s" "tree (Suc (Suc n)) (words s) t" "below (Suc n) (words s) t \<subseteq> kblocks s" for i s
  proof (cases "words s (slot t i) = 0")
    case True
    then show ?thesis using p by (auto simp: entry_freed_def)
  next
    case False
    let ?c = "next_table (words s (slot t i))"
    have v: "words s (slot t i) AND 3 = 3" "tree (Suc n) (words s) ?c" using p(2) i False by simp_all
    have "below n (words s) ?c \<subseteq> below (Suc n) (words s) t" using i False unfolding below_def[of "Suc n"] pages_Suc by blast
    then have "below n (words s) ?c \<subseteq> kblocks s" using p(3) by blast
    from Suc.IH[OF p(1) kpage_next v(2) this] obtain s0 where
      s0: "free_tables n (VIRT_TO_PHYS ?c) s = Some s0" "freed (Suc n) ?c s s0" by blast
    from free_entry[OF p(1) Suc.prems(2) p(2,3) i False s0(2)] obtain s1 where
      s1: "krelease ?c (set_word (slot t i) 0 s0) = Some s1" "entry_freed (Suc n) t i s s1" by blast
    have "VIRT_TO_PHYS ?c = words s (slot t i) AND ENTRY_ADDR_MASK" by (simp add: next_table_def)
    then show ?thesis using s0(1) s1 valid_table[OF v(1)] by (simp add: Let_def next_table_def)
  qed
  from run_entries[of "Suc n" t ?f, OF this Suc.prems(1,3,4) upt_512]
  obtain s1 where "run_all ?f [0..<512] s = Some s1" "entries_freed (Suc n) t [0..<512] s s1" by blast
  with entries_freed_all Suc.prems(3) show ?case unfolding free_tables.simps by blast
qed

section \<open>Addresses with the same page\<close>

lemma translate_index: "\<forall>k \<le> n. pt_index k va' = pt_index k va \<Longrightarrow> translate n w t va' = translate n w t va"
  by (induction n arbitrary: t) (simp_all add: Let_def)

lemma pt_index_page:
  assumes "drop_bit 12 (take_bit 48 va') \<noteq> drop_bit 12 (take_bit 48 va)"
  shows "\<exists>k \<le> 3. pt_index k va' \<noteq> pt_index k va"
proof (rule ccontr)
  assume "\<not> ?thesis"
  then have "drop_bit (12 + 9 * k) va' AND 0x1ff = drop_bit (12 + 9 * k) va AND 0x1ff" if "k \<le> 3" for k
    using that by (simp add: pt_index_def word_unat_eq_iff)
  then have e: "take_bit 9 (drop_bit (12 + 9 * k) va') = take_bit 9 (drop_bit (12 + 9 * k) va)" if "k \<le> 3" for k
    using that by (simp add: take_bit_eq_mask mask_eq_exp_minus_1)
  have "bit va' (12 + i) = bit va (12 + i)" if "i < 36" for i
  proof -
    have "i div 9 \<le> 3" "i mod 9 < 9" "12 + 9 * (i div 9) + i mod 9 = 12 + i" using that by auto
    then show ?thesis using arg_cong[OF e[of "i div 9"], of "\<lambda>w. bit w (i mod 9)"] by (simp add: bit_simps add.commute)
  qed
  then have "drop_bit 12 (take_bit 48 va') = drop_bit 12 (take_bit 48 va)"
    by (intro bit_word_eqI) (auto simp: bit_simps)
  with assms show False by simp
qed

lemma pt_index_same: "drop_bit 12 va' = drop_bit 12 va \<Longrightarrow> pt_index k va' = pt_index k va"
proof -
  assume a: "drop_bit 12 va' = drop_bit 12 va"
  have "drop_bit (12 + 9 * k) w = drop_bit (9 * k) (drop_bit 12 w)" for w :: "64 word"
    by (simp only: drop_bit_drop_bit add.commute)
  then show ?thesis using a by (simp only: pt_index_def)
qed

lemma take_bit_sub: "take_bit 12 b = 0 \<Longrightarrow> take_bit 12 (a - b) = take_bit 12 (a :: 64 word)"
  by transfer (simp, metis diff_zero take_bit_diff take_bit_of_0)

text \<open>Rounding the distance from an aligned start rounds the address.\<close>

lemma page_of_distance:
  assumes "v mod 0x1000 = (0 :: 64 word)"
  shows "drop_bit 12 (v + ((far - v) - (far - v) mod 0x1000)) = drop_bit 12 far"
proof -
  have m: "x mod 0x1000 = take_bit 12 x" for x :: "64 word" by (simp add: take_bit_eq_mod)
  have "take_bit 12 (far - v) = take_bit 12 far"
    by (rule take_bit_sub) (use assms in \<open>simp add: m\<close>)
  then have "v + ((far - v) - (far - v) mod 0x1000) = far - take_bit 12 far" by (simp add: m)
  also have "\<dots> = push_bit 12 (drop_bit 12 far)"
    using bits_ident[of 12 far] by (simp add: algebra_simps)
  finally show ?thesis by (simp only:) (rule bit_word_eqI, auto simp: bit_simps dest: bit_imp_le_length)
qed

end
