(* ===== verification/Mmap.thy ===== *)
theory Mmap
  imports Mmu_Inv
begin

text \<open>
  The \<open>mmap\<close> system call of \<open>kernel/src/syscall.c\<close>.  The call with an occupied hint calls itself
  with the end of the area it met; whether this ends is a theorem.  The results are the state and
  the address put into \<open>x0\<close>; \<open>None\<close> also stands for writing through a null result of \<open>kmalloc\<close>.
\<close>

definition overlaps :: "64 word \<Rightarrow> 64 word \<Rightarrow> vm_area_t \<Rightarrow> bool" where
  "overlaps addr len v \<longleftrightarrow> \<not> (virt_addr v \<ge> addr + len \<or> virt_addr v + area_size v \<le> addr)"

definition mmap_log :: "64 word \<Rightarrow> 64 word \<Rightarrow> 32 word \<Rightarrow> 32 word \<Rightarrow> kern \<Rightarrow> kern" where
  "mmap_log addr len prot flags s =
     (let s1 = klog_hex addr (klog ''Syscall mmap, addr: '' s);
          s2 = klog_hex len (klog '', len: '' s1);
          s3 = klog_hex (scast prot) (klog '', prot: '' s2)
      in klog crnl (klog_hex (scast flags) (klog '', flags: '' s3)))"

definition prot_rwx :: "32 word \<Rightarrow> 64 word" where
  "prot_rwx prot = (if prot AND 1 \<noteq> 0 then 1 else 0) OR (if prot AND 2 \<noteq> 0 then 2 else 0) OR
     (if prot AND 4 \<noteq> 0 then 4 else 0)"

definition mmap_new :: "64 word \<Rightarrow> 64 word \<Rightarrow> 32 word \<Rightarrow> kern \<Rightarrow> (kern \<times> 64 word) option" where
  "mmap_new addr len prot s =
     (case knew (ucast len) s of None \<Rightarrow> None
      | Some (s1, p) \<Rightarrow>
          map_option (\<lambda>s2. (s2, addr))
            (mmu_add_vma (curr_thread s1) addr len (VIRT_TO_PHYS p) (prot_rwx prot) True
               (s1\<lparr>bytes := utils_memset p 0 len (bytes s1)\<rparr>)))"

partial_function (option) mmap :: "64 word \<Rightarrow> 64 word \<Rightarrow> 32 word \<Rightarrow> 32 word \<Rightarrow> kern \<Rightarrow> (kern \<times> 64 word) option" where
  "mmap addr len prot flags s =
     (case List.find (\<lambda>(a, v). overlaps (page_round addr) (page_round len) v)
        (vma_list (threads s (curr_thread s))) of
        Some (a, v) \<Rightarrow> mmap (virt_addr v + area_size v) (page_round len) prot flags (mmap_log addr len prot flags s)
      | None \<Rightarrow> mmap_new (page_round addr) (page_round len) prot (mmap_log addr len prot flags s))"

section \<open>Where the new area goes\<close>

lemma round_up_nat:
  assumes "(n :: nat) mod 4096 \<noteq> 0"
  shows "n + (4096 - n mod 4096) = (n + 4095) div 4096 * 4096"
proof -
  define k r where "k = n div 4096" and "r = n mod 4096"
  have n: "n = r + 4096 * k" and r: "0 < r" "r < 4096" using assms by (simp_all add: k_def r_def)
  have "(n + 4095) div 4096 = (r + 4095 + 4096 * k) div 4096" by (simp add: n add.commute add.left_commute)
  also have "\<dots> = k + 1" using r by (subst div_mult_self2) (simp_all add: div_nat_eqI)
  finally show ?thesis using n r by (simp add: r_def[symmetric])
qed

lemma page_round_unat:
  assumes "unat n \<le> 2 ^ 63"
  shows "unat (page_round n) = (unat n + 4095) div 4096 * 4096" "page_round n mod 0x1000 = 0"
proof -
  have m: "unat (n mod 0x1000) = unat n mod 4096" by (simp add: unat_mod)
  have z: "n mod 0x1000 = 0 \<longleftrightarrow> unat n mod 4096 = 0" by (simp add: m flip: unat_eq_0)
  show u: "unat (page_round n) = (unat n + 4095) div 4096 * 4096"
  proof (cases "unat n mod 4096 = 0")
    case True
    then obtain k where "unat n = 4096 * k" by auto
    then show ?thesis using True z by (simp add: page_round_def)
  next
    case False
    have s: "unat (0x1000 - n mod 0x1000) = 4096 - unat n mod 4096"
      using m by (subst unat_sub) (simp_all add: word_le_nat_alt less_imp_le)
    have "unat (page_round n) = unat n + (4096 - unat n mod 4096)"
      using False z s assms by (simp add: page_round_def) (subst unat_add_lem[THEN iffD1], simp_all)
    also have "\<dots> = (unat n + 4095) div 4096 * 4096" by (rule round_up_nat[OF False])
    finally show ?thesis .
  qed
  have "unat (page_round n mod 0x1000) = 0" by (simp add: unat_mod u)
  then show "page_round n mod 0x1000 = 0" by (simp only: unat_eq_0)
qed

lemma page_round_aligned: "n mod 0x1000 = 0 \<Longrightarrow> page_round n = n"
  by (simp add: page_round_def)

definition areas_ok :: "(addr \<times> vm_area_t) list \<Rightarrow> bool" where
  "areas_ok as \<longleftrightarrow> (\<forall>(a, v) \<in> set as. unat (virt_addr v) + unat (area_size v) \<le> 2 ^ 48 \<and>
     virt_addr v mod 0x1000 = 0 \<and> area_size v mod 0x1000 = 0)"

definition area_bytes :: "vm_area_t \<Rightarrow> nat set" where
  "area_bytes v = {unat (virt_addr v) ..< unat (virt_addr v) + unat (area_size v)}"

lemma area_end:
  assumes "areas_ok as" "(a, v) \<in> set as"
  shows "unat (virt_addr v + area_size v) = unat (virt_addr v) + unat (area_size v)"
    "unat (virt_addr v + area_size v) \<le> 2 ^ 48" "(virt_addr v + area_size v) mod 0x1000 = 0"
proof -
  have b: "unat (virt_addr v) + unat (area_size v) \<le> 2 ^ 48" "virt_addr v mod 0x1000 = 0" "area_size v mod 0x1000 = 0"
    using assms by (auto simp: areas_ok_def)
  show e: "unat (virt_addr v + area_size v) = unat (virt_addr v) + unat (area_size v)"
    using b(1) by (subst unat_add_lem[THEN iffD1]) simp_all
  show "unat (virt_addr v + area_size v) \<le> 2 ^ 48" using e b(1) by simp
  have "unat (virt_addr v) mod 4096 = 0" "unat (area_size v) mod 4096 = 0"
    using b(2,3) by (simp_all add: unat_mod flip: unat_eq_0)
  then have "unat ((virt_addr v + area_size v) mod 0x1000) = 0" by (simp add: unat_mod e mod_add_eq[symmetric])
  then show "(virt_addr v + area_size v) mod 0x1000 = 0" by (simp only: unat_eq_0)
qed

text \<open>Two intervals that the test calls apart are apart.\<close>

lemma not_overlaps:
  assumes "areas_ok as" "(a, v) \<in> set as" "unat addr + unat len < 2 ^ 64"
  shows "overlaps addr len v \<longleftrightarrow> unat (virt_addr v) < unat addr + unat len \<and> unat addr < unat (virt_addr v) + unat (area_size v)"
proof -
  have "unat (addr + len) = unat addr + unat len" using assms(3) by (subst unat_add_lem[THEN iffD1]) simp_all
  then show ?thesis using area_end(1)[OF assms(1,2)] by (auto simp: overlaps_def word_le_nat_alt)
qed

text \<open>Every call passes the end of an area, so there are no more calls than areas.\<close>

definition ahead :: "64 word \<Rightarrow> (addr \<times> vm_area_t) list \<Rightarrow> nat" where
  "ahead addr as = length (filter (\<lambda>(a, v). unat addr < unat (virt_addr v) + unat (area_size v)) as)"

lemma ahead_less:
  assumes "(a, v) \<in> set as" "unat addr < unat (virt_addr v) + unat (area_size v)"
    "unat (virt_addr v) + unat (area_size v) \<le> unat addr'"
  shows "ahead addr' as < ahead addr as"
proof -
  obtain us ws where as: "as = us @ (a, v) # ws" using assms(1) by (meson split_list)
  have m: "length (filter (\<lambda>(a, v). unat addr' < unat (virt_addr v) + unat (area_size v)) zs) \<le>
      length (filter (\<lambda>(a, v). unat addr < unat (virt_addr v) + unat (area_size v)) zs)" for zs :: "(addr \<times> vm_area_t) list"
    using assms(2,3) by (induction zs) auto
  from m[of us] m[of ws] show ?thesis using assms(2,3) by (simp add: ahead_def as)
qed

text \<open>What the logging keeps.\<close>

definition same_but_con :: "kern \<Rightarrow> kern \<Rightarrow> bool" where
  "same_but_con s s' \<longleftrightarrow> (\<exists>c. s' = s\<lparr>con := c\<rparr>)"

lemma mmap_log_same: "same_but_con s (mmap_log addr len prot flags s)"
  by (simp add: same_but_con_def mmap_log_def Let_def klog_def klog_hex_def) (rule exI, rule refl)

lemma same_but_conD:
  assumes "same_but_con s s'"
  shows "mem s' = mem s" "threads s' = threads s" "curr_thread s' = curr_thread s" "bytes s' = bytes s" "words s' = words s"
  using assms by (auto simp: same_but_con_def)

lemma same_but_con_refl: "same_but_con s s"
  unfolding same_but_con_def by (rule exI[of _ "con s"]) simp

lemma same_but_con_trans: "same_but_con s s' \<Longrightarrow> same_but_con s' s'' \<Longrightarrow> same_but_con s s''"
  by (auto simp: same_but_con_def)

lemma same_but_con_rq:
  assumes "same_but_con s s'"
  shows "rq s' xs = rq s xs" "runnable s' xs = runnable s xs" "zombie s' = zombie s"
  using assms by (auto simp: same_but_con_def rq_def tnext_def[abs_def] tprev_def[abs_def] runnable_def zombie_def[abs_def])

lemma find_None: "List.find P xs = None \<longleftrightarrow> (\<forall>x \<in> set xs. \<not> P x)"
  by (induction xs) auto

lemma find_Some: "List.find P xs = Some x \<Longrightarrow> x \<in> set xs \<and> P x"
  by (induction xs) (auto split: if_splits)

lemma mmap_places:
  assumes ok: "areas_ok as"
  shows "vma_list (threads s (curr_thread s)) = as \<Longrightarrow> unat addr \<le> 2 ^ 48 \<Longrightarrow> unat len \<le> 2 ^ 48 \<Longrightarrow>
    \<exists>addr' s'. mmap addr len prot flags s = mmap_new addr' (page_round len) prot s' \<and> same_but_con s s' \<and>
      addr' mod 0x1000 = 0 \<and> unat addr \<le> unat addr' \<and> unat addr' \<le> 2 ^ 48 \<and>
      (\<forall>(a, v) \<in> set as. \<not> overlaps addr' (page_round len) v)"
proof (induction "ahead (page_round addr) as" arbitrary: addr len s rule: less_induct)
  case less
  let ?addr = "page_round addr" and ?len = "page_round len" and ?s1 = "mmap_log addr len prot flags s"
  have ra: "unat ?addr = (unat addr + 4095) div 4096 * 4096" "?addr mod 0x1000 = 0"
    and rl: "unat ?len = (unat len + 4095) div 4096 * 4096" "?len mod 0x1000 = 0"
    using page_round_unat[of addr] page_round_unat[of len] less.prems(2,3) by simp_all
  have ub: "(n + 4095) div 4096 * 4096 \<le> 2 ^ 48" "n \<le> (n + 4095) div 4096 * 4096" if "n \<le> 2 ^ 48" for n :: nat
  proof -
    have "(n + 4095) div 4096 \<le> (2 ^ 48 + 4095) div 4096" by (rule div_le_mono) (use that in simp)
    then show "(n + 4095) div 4096 * 4096 \<le> 2 ^ 48" by simp
    have "n mod 4096 = 0 \<or> n + (4096 - n mod 4096) = (n + 4095) div 4096 * 4096" using round_up_nat by blast
    then show "n \<le> (n + 4095) div 4096 * 4096"
    proof
      assume "n mod 4096 = 0"
      then obtain k where "n = 4096 * k" by auto
      then show ?thesis by simp
    qed simp
  qed
  have bd: "unat ?addr \<le> 2 ^ 48" "unat addr \<le> unat ?addr" "unat ?len \<le> 2 ^ 48" "unat ?addr + unat ?len < 2 ^ 64"
    using ub[OF less.prems(2)] ub[OF less.prems(3)] ra rl by simp_all
  have s1: "same_but_con s ?s1" by (rule mmap_log_same)
  show ?case
  proof (cases "List.find (\<lambda>(a, v). overlaps ?addr ?len v) as")
    case None
    then have "mmap addr len prot flags s = mmap_new ?addr ?len prot ?s1"
      by (subst mmap.simps) (simp add: less.prems(1))
    moreover have "\<forall>(a, v) \<in> set as. \<not> overlaps ?addr ?len v" using None by (auto simp: find_None)
    ultimately show ?thesis using s1 ra(2) bd by (intro exI[of _ ?addr] exI[of _ ?s1] conjI)
  next
    case (Some av)
    obtain a v where av: "av = (a, v)" by fastforce
    have v: "(a, v) \<in> set as" "overlaps ?addr ?len v" using find_Some[OF Some] av by auto
    let ?e = "virt_addr v + area_size v"
    note e = area_end[OF ok v(1)]
    have "unat ?addr < unat (virt_addr v) + unat (area_size v)" using v(2) not_overlaps[OF ok v(1) bd(4)] by simp
    then have lt: "ahead (page_round ?e) as < ahead ?addr as" "unat ?addr \<le> unat ?e"
      using ahead_less[OF v(1)] page_round_aligned[OF e(3)] e(1) by simp_all
    have r: "mmap addr len prot flags s = mmap ?e ?len prot flags ?s1"
      by (subst mmap.simps) (simp add: less.prems(1) Some av)
    have p: "vma_list (threads ?s1 (curr_thread ?s1)) = as" using less.prems(1) same_but_conD[OF s1] by simp
    from less.hyps[OF lt(1) p e(2) bd(3)] obtain addr' s' where
      h: "mmap ?e ?len prot flags ?s1 = mmap_new addr' (page_round ?len) prot s'" "same_but_con ?s1 s'"
      "addr' mod 0x1000 = 0" "unat ?e \<le> unat addr'" "unat addr' \<le> 2 ^ 48"
      "\<forall>(a, v) \<in> set as. \<not> overlaps addr' (page_round ?len) v" by (elim exE conjE) (rule that)
    have "unat addr \<le> unat addr'" using bd(2) lt(2) h(4) by simp
    then show ?thesis using r h same_but_con_trans[OF s1 h(2)] unfolding page_round_aligned[OF rl(2)]
      by (intro exI[of _ addr'] exI[of _ s'] conjI) simp_all
  qed
qed

text \<open>The new area, once the allocation succeeds.\<close>

lemma mmap_new_spec:
  assumes k: "kmalloc (ucast len) (mem s) = Some (m, p)" "p \<noteq> 0" and ok: "heap_ok s" "request_ok (ucast len)"
    and rm: "1 \<le> card (free_frames m)"
  shows "\<exists>s' n. mmap_new addr len prot s = Some (s', addr) \<and> heap_ok s' \<and> kblocks s' = insert n (insert p (kblocks s)) \<and>
    vma_list (threads s' (curr_thread s)) = vma_list (threads s (curr_thread s)) @
      [(n, \<lparr>virt_addr = addr, phys_addr = VIRT_TO_PHYS p, area_size = page_round len, rwx = prot_rwx prot, is_alloced = True\<rparr>)] \<and>
    curr_thread s' = curr_thread s"
proof -
  obtain s1 where s1: "kalloc (ucast len) s = Some (s1, p)" using kalloc_Some[OF k(1)] by blast
  then have m1: "mem s1 = m" by (rule kalloc_SomeD) (use k(1) in simp)
  have n1: "knew (ucast len) s = Some (s1, p)" using s1 k(2) by (simp add: knew_def)
  note a = knew_spec[OF ok n1] and q1 = quietD[OF knew_spec(5)[OF ok n1]]
  let ?s2 = "s1\<lparr>bytes := utils_memset p 0 len (bytes s1)\<rparr>"
  have ok2: "heap_ok ?s2" using a(1) heap_cong(1)[of ?s2 s1] by simp
  have rm2: "roomy (Suc 0) ?s2" using rm m1 by (simp add: roomy_def)
  obtain s3 n where s3: "knew 56 ?s2 = Some (s3, n)" by (rule knew_room[OF ok2 rm2, of 56]) simp_all
  note b = knew_spec[OF ok2 request_40(4) s3] and q3 = quietD[OF knew_spec(5)[OF ok2 request_40(4) s3]]
  let ?v = "\<lparr>virt_addr = addr, phys_addr = VIRT_TO_PHYS p, area_size = page_round len, rwx = prot_rwx prot, is_alloced = True\<rparr>"
  let ?s4 = "set_thread (\<lambda>x. x\<lparr>vma_list := vma_list x @ [(n, ?v)]\<rparr>) (curr_thread s1) s3"
  have m4: "mem ?s4 = mem s3" by (simp add: set_thread_def)
  have "mmap_new addr len prot s = Some (?s4, addr)"
    by (simp add: mmap_new_def n1 mmu_add_vma_def s3)
  moreover have "kblocks ?s4 = insert n (insert p (kblocks s))" "heap_ok ?s4"
    using heap_cong[OF m4] a(4) b(1,4) heap_cong(2)[of ?s2 s1] by simp_all
  ultimately show ?thesis using q1 q3 by (intro exI[of _ ?s4] exI[of _ n]) simp
qed

section \<open>The messages of a page fault\<close>

lemma vsprintf_prefix:
  "0x25 \<notin> set lit \<Longrightarrow> length out + length lit \<le> 241 \<Longrightarrow> vsprintf_loop (lit @ f) args out = vsprintf_loop f args (out @ lit)"
  by (induction lit arbitrary: out) (auto simp: vsprintf_loop.simps(2) VSPRINT_MAX_BUF_SIZE_def)

lemma vsprintf_hex:
  assumes "0x25 \<notin> set a" "0x25 \<notin> set b" "length a + length b \<le> 200" "b = [] \<or> \<not> (0x30 \<le> hd b \<and> hd b \<le> 0x39)"
  shows "vsprintf (a @ 0x25 # 0x78 # b) [Arg_long v] = Inr (a @ format_hex 0 v @ b)"
proof -
  have "vsprintf (a @ 0x25 # 0x78 # b) [Arg_long v] = vsprintf_loop (0x25 # 0x78 # b) [Arg_long v] a"
    using vsprintf_prefix[of a "[]" "0x25 # 0x78 # b" "[Arg_long v]"] assms by (simp add: vsprintf_def)
  also have "\<dots> = vsprintf_loop b [] (a @ format_hex 0 v)"
    using assms(3) by (subst vsprintf_loop.simps(2)) (simp add: VSPRINT_MAX_BUF_SIZE_def skip_l_def conversion_def)
  also have "\<dots> = Inr ((a @ format_hex 0 v) @ b)"
    using assms format_hex_length[of 0 v] by (intro vsprintf_plain_loop) auto
  finally show ?thesis by simp
qed

lemma klog_args_hex:
  assumes "0x25 \<notin> set (ascii a)" "length a \<le> 100"
  shows "\<exists>s'. klog_args (a @ ''%x'' @ crnl) [Arg_long v] s = Some s' \<and> same_but_con s s'"
proof -
  have e: "ascii (a @ ''%x'' @ crnl) = ascii a @ 0x25 # 0x78 # ascii crnl" by (simp add: ascii_def)
  have "vsprintf (ascii a @ 0x25 # 0x78 # ascii crnl) [Arg_long v] = Inr (ascii a @ format_hex 0 v @ ascii crnl)"
    by (rule vsprintf_hex) (use assms in \<open>simp_all add: ascii_def crnl_def\<close>)
  then show ?thesis unfolding klog_args_def uart_sendline_def e by (auto simp: same_but_con_def)
qed

lemma klog_same: "same_but_con s (klog m s)" "same_but_con s (klog_hex v s)"
  by (auto simp: same_but_con_def klog_def klog_hex_def)

lemma print_areas_same: "same_but_con s (fold print_area as s)"
proof (induction as arbitrary: s)
  case (Cons av as)
  have "same_but_con s (print_area av s)"
    by (cases av) (simp add: print_area_def, intro klog_same[THEN same_but_con_trans[rotated]] same_but_con_refl)
  then show ?case using Cons.IH[of "print_area av s"] same_but_con_trans by auto
qed (simp add: same_but_con_refl)

end
