(* ===== verification/Mmu_Props.thy ===== *)
theory Mmu_Props
  imports Mmap Kern_Props
begin

text \<open>
  The properties of page tables, page faults and \<open>mmap\<close>, with witnesses on a kernel that has one
  empty table.
\<close>

section \<open>A kernel with an empty table\<close>

definition table_at :: "kern \<Rightarrow> addr \<Rightarrow> bool" where
  "table_at s pgd \<longleftrightarrow> heap_ok s \<and> kpage pgd \<and> tree 3 (words s) pgd \<and> pages 3 (words s) pgd \<subseteq> kblocks s"

lemma table_kern:
  obtains s pgd where "table_at s pgd" "roomy 900 s" "pages 3 (words s) pgd = {pgd}" "quiet (s\<lparr>words := words boot_kern\<rparr>) = quiet boot_kern"
proof -
  have rm: "roomy (Suc 900) boot_kern" using boot_kern_ok(2) by (simp add: roomy_def)
  obtain s0 a where k: "knew 0x1000 boot_kern = Some (s0, a)" "roomy 900 s0"
    by (rule knew_room[OF boot_kern_ok(1) rm, of "0x1000"]) simp_all
  have rq: "request_ok 0x1000" by (simp add: request_ok_def)
  note n0 = knew_spec[OF boot_kern_ok(1) rq k(1)]
  have ap: "kpage a" by (rule knew_kpage[OF boot_kern_ok(1) _ k(1)]) simp
  let ?s = "clear_page a s0"
  have m: "mem ?s = mem s0" by (simp add: clear_page_def)
  have z: "\<forall>i < 512. words ?s (slot a i) = 0" using words_clear[OF ap ap] by simp
  have "table_at ?s a" using n0(1,4) heap_cong[OF m] ap tree_empty[OF z] by (simp add: table_at_def del: tree.simps pages.simps)
  moreover have "quiet (?s\<lparr>words := words boot_kern\<rparr>) = quiet boot_kern"
  proof -
    have "quiet (?s\<lparr>words := words boot_kern\<rparr>) = (quiet s0)\<lparr>words := words boot_kern\<rparr>" by (simp add: clear_page_def quiet_def)
    also have "\<dots> = quiet boot_kern" using n0(5) by (simp add: quiet_def)
    finally show ?thesis .
  qed
  ultimately show thesis using that[of ?s a] k(2) tree_empty(2)[OF z] m by (simp add: roomy_def del: pages.simps)
qed

lemma table_at_grows: "table_at s pgd \<Longrightarrow> grows 3 pgd s s' \<Longrightarrow> table_at s' pgd"
  by (simp add: table_at_def growsD del: tree.simps pages.simps)

lemma map_one_page_grows:
  assumes "table_at s pgd" "roomy (3 + m) s"
  shows "\<exists>s'. map_one_page pgd va pa flag s = Some s' \<and> grows 3 pgd s s' \<and> roomy m s' \<and>
    translate 3 (words s') pgd va = Some (pa OR page_attr OR flag) \<and>
    (\<forall>va'. drop_bit 12 (take_bit 48 va') \<noteq> drop_bit 12 (take_bit 48 va) \<longrightarrow>
      translate 3 (words s') pgd va' = translate 3 (words s) pgd va')"
  using map_walk_spec[of s 3 m pgd va pa flag] assms pt_index_page unfolding table_at_def map_one_page_def by blast

section \<open>Page tables\<close>

text \<open>C5: \<open>map_one_page\<close> against the hardware's walk: with three free frames it returns, the page of
  \<open>va\<close> translates to \<open>pa\<close> with the page attributes and the flags, every other page of the 48-bit
  address space translates as before, and the tables are still a tree of separate allocated
  frames.\<close>

theorem map_one_page_correct:
  assumes "table_at s pgd" "roomy 3 s"
  shows "\<exists>s'. map_one_page pgd va pa flag s = Some s' \<and> table_at s' pgd \<and>
    translate 3 (words s') pgd va = Some (pa OR page_attr OR flag) \<and>
    (\<forall>va'. drop_bit 12 (take_bit 48 va') \<noteq> drop_bit 12 (take_bit 48 va) \<longrightarrow>
      translate 3 (words s') pgd va' = translate 3 (words s) pgd va')"
proof -
  have "roomy (3 + 0) s" using assms(2) by simp
  from map_one_page_grows[OF assms(1) this] table_at_grows[OF assms(1)] show ?thesis by blast
qed

theorem map_one_page_correct_witness:
  "\<exists>s s' pgd. map_one_page pgd 0xfffffffff000 0x80000 PD_UK_ACCESS s = Some s' \<and>
     translate 3 (words s') pgd 0xfffffffff123 = Some (0x80000 OR page_attr OR PD_UK_ACCESS)"
proof -
  obtain s pgd where s: "table_at s pgd" "roomy 900 s" by (rule table_kern)
  then have "roomy 3 s" by (simp add: roomy_def)
  from map_one_page_correct[OF s(1) this] obtain s' where s': "map_one_page pgd 0xfffffffff000 0x80000 PD_UK_ACCESS s = Some s'"
    "translate 3 (words s') pgd 0xfffffffff000 = Some (0x80000 OR page_attr OR PD_UK_ACCESS)" by blast
  have "translate 3 (words s') pgd 0xfffffffff123 = translate 3 (words s') pgd 0xfffffffff000"
    by (rule translate_index, intro allI impI, rule pt_index_same) simp
  with s' show ?thesis by auto
qed

lemma map_list:
  "table_at s pgd \<Longrightarrow> roomy (3 * length qs) s \<Longrightarrow> pages 3 (words s) pgd \<inter> K = {pgd} \<Longrightarrow> kblocks s \<subseteq> K \<union> pages 3 (words s) pgd \<Longrightarrow>
    K \<subseteq> kblocks s \<Longrightarrow>
    \<exists>s'. run_all (\<lambda>(va, pa, fl). map_one_page pgd va pa fl) qs s = Some s' \<and> table_at s' pgd \<and>
      pages 3 (words s') pgd \<inter> K = {pgd} \<and> kblocks s' \<subseteq> K \<union> pages 3 (words s') pgd \<and> K \<subseteq> kblocks s'"
proof (induction qs arbitrary: s)
  case (Cons q qs)
  obtain va pa fl where q: "q = (va, pa, fl)" by (cases q)
  have "roomy (3 + 3 * length qs) s" using Cons.prems(2) by simp
  from map_one_page_grows[OF Cons.prems(1) this] obtain s1 where s1: "map_one_page pgd va pa fl s = Some s1"
    "grows 3 pgd s s1" "roomy (3 * length qs) s1" by blast
  note d = growsD[OF s1(2)]
  have "pages 3 (words s1) pgd \<inter> K = {pgd}" using d(5,6) Cons.prems(3,5) pages_root by blast
  moreover have "kblocks s1 \<subseteq> K \<union> pages 3 (words s1) pgd" using d(5,7) Cons.prems(4) by blast
  moreover have "K \<subseteq> kblocks s1" using d(4) Cons.prems(5) by blast
  ultimately show ?case using Cons.IH[OF table_at_grows[OF Cons.prems(1) s1(2)] s1(3)] s1(1) q by auto
qed auto

text \<open>C34: mapping and freeing.  Let the page tables consist of an empty root only, and let three frames
  be free for each of the pages of a list (what the three tables of a page can take).  Mapping the list
  and then freeing the page tables returns, releases exactly the tables that were made (no leak, no
  double free), keeps the heap in order, and leaves the root mapping nothing.\<close>

theorem map_free_roundtrip:
  assumes t: "table_at s pgd" and rm: "roomy (3 * length qs) s" and e: "pages 3 (words s) pgd = {pgd}"
  shows "\<exists>s1 s2. run_all (\<lambda>(va, pa, fl). map_one_page pgd va pa fl) qs s = Some s1 \<and>
    mmu_free_page_tables (VIRT_TO_PHYS pgd) 0 s1 = Some s2 \<and> heap_ok s2 \<and> kblocks s2 = kblocks s \<and>
    (\<forall>va. translate 3 (words s2) pgd va = None)"
proof -
  have pk: "pgd \<in> kblocks s" using t e by (simp add: table_at_def del: tree.simps pages.simps)
  then have "pages 3 (words s) pgd \<inter> kblocks s = {pgd}" using e by auto
  from map_list[OF t rm this] obtain s1 where s1: "run_all (\<lambda>(va, pa, fl). map_one_page pgd va pa fl) qs s = Some s1"
    "table_at s1 pgd" "pages 3 (words s1) pgd \<inter> kblocks s = {pgd}" "kblocks s1 \<subseteq> kblocks s \<union> pages 3 (words s1) pgd"
    "kblocks s \<subseteq> kblocks s1" by blast
  have three: "(3 :: nat) = Suc 2" by simp
  have t1: "tree (Suc 2) (words s1) pgd" "pages (Suc 2) (words s1) pgd \<subseteq> kblocks s1" "heap_ok s1" "kpage pgd"
    using s1(2) unfolding table_at_def three by simp_all
  have b: "pgd \<notin> below 2 (words s1) pgd" by (rule tree_root[OF t1(1)])
  have "below 2 (words s1) pgd \<subseteq> kblocks s1" using t1(2) unfolding pages_Suc by blast
  from free_tables_spec[OF t1(3,4,1) this] obtain s2 where s2: "free_tables 2 (VIRT_TO_PHYS pgd) s1 = Some s2"
    "freed (Suc 2) pgd s1 s2" by blast
  then have "heap_ok s2" "kblocks s2 = kblocks s1 - (pages 3 (words s1) pgd - {pgd})" and z: "\<forall>i < 512. words s2 (slot pgd i) = 0"
    unfolding freed_def three by simp_all
  then have "kblocks s2 = kblocks s" "heap_ok s2" using s1(3-5) by blast+
  moreover have "translate 3 (words s2) pgd va = None" for va by (rule tree_empty(3)[OF z])
  ultimately show ?thesis using s1(1) s2(1) by (auto simp: mmu_free_page_tables_def)
qed

theorem map_free_roundtrip_witness:
  "\<exists>s pgd s1 s2. run_all (\<lambda>(va, pa, fl). map_one_page pgd va pa fl) [(0, 0x1000, 0), (0x40000000, 0x2000, 0), (0x1000, 0x3000, 0)] s = Some s1 \<and>
     mmu_free_page_tables (VIRT_TO_PHYS pgd) 0 s1 = Some s2 \<and> kblocks s2 = kblocks s"
proof -
  obtain s pgd where s: "table_at s pgd" "roomy 900 s" "pages 3 (words s) pgd = {pgd}" by (rule table_kern)
  let ?qs = "[(0 :: 64 word, 0x1000 :: 64 word, 0 :: 64 word), (0x40000000, 0x2000, 0), (0x1000, 0x3000, 0)]"
  have "roomy (3 * length ?qs) s" using s(2) by (simp add: roomy_def)
  from map_free_roundtrip[OF s(1) this s(3)] show ?thesis by blast
qed

section \<open>Page faults\<close>

text \<open>The handler takes the first area that the address is in, or that ends exactly at the address: the
  code compares the end of the area with \<open>>=\<close>.\<close>

definition ends_at :: "vm_area_t \<Rightarrow> addr \<Rightarrow> bool" where
  "ends_at v far \<longleftrightarrow> unat (virt_addr v) + unat (area_size v) = unat far"

definition passed :: "addr \<Rightarrow> (addr \<times> vm_area_t) list \<Rightarrow> bool" where
  "passed far as \<longleftrightarrow> (\<forall>(a, v) \<in> set as. unat far \<notin> area_bytes v \<and> \<not> ends_at v far)"

lemma area_test:
  assumes "areas_ok as" "(a, v) \<in> set as"
  shows "virt_addr v \<le> far \<and> virt_addr v + area_size v \<ge> far \<longleftrightarrow> unat far \<in> area_bytes v \<or> ends_at v far"
  using area_end(1)[OF assms] by (auto simp: area_bytes_def ends_at_def word_le_nat_alt)

lemma fault_area_None:
  assumes "areas_ok as"
  shows "fault_area far as = None \<longleftrightarrow> passed far as"
  using area_test[OF assms, of _ _ far] unfolding fault_area_def passed_def find_None_iff by fast

lemma fault_area_first:
  assumes "areas_ok (xs @ (a, v) # ys)" "passed far xs" "unat far \<in> area_bytes v \<or> ends_at v far"
  shows "fault_area far (xs @ (a, v) # ys) = Some (a, v)"
proof -
  have "areas_ok xs" using assms(1) by (simp add: areas_ok_def)
  then have "List.find (\<lambda>(a, v). virt_addr v \<le> far \<and> virt_addr v + area_size v \<ge> far) xs = None"
    using fault_area_None[of xs far] assms(2) by (simp add: fault_area_def)
  then have "List.find (\<lambda>(a, v). virt_addr v \<le> far \<and> virt_addr v + area_size v \<ge> far) (xs @ zs) =
      List.find (\<lambda>(a, v). virt_addr v \<le> far \<and> virt_addr v + area_size v \<ge> far) zs" for zs
    by (induction xs) (auto split: if_splits)
  then show ?thesis using area_test[OF assms(1), of a v far] assms(3) by (simp add: fault_area_def)
qed

lemma handler_maps:
  fixes s :: kern
  defines "t \<equiv> threads s (curr_thread s)"
  defines "pgd \<equiv> PHYS_TO_VIRT (c_pgd (ctx t))"
  assumes f: "fault_area far (vma_list t) = Some (a, v)" and iss: "translation_fault iss"
    and al: "virt_addr v mod 0x1000 = 0" and tb: "table_at s pgd" and rm: "roomy 3 s"
  shows "\<exists>s'. mmu_memfail_abort_handle iss far s = Some s' \<and> table_at s' pgd \<and> threads s' = threads s \<and>
    translate 3 (words s') pgd far =
      Some ((phys_addr v + (far - virt_addr v - (far - virt_addr v) mod 0x1000)) OR page_attr OR area_flag v) \<and>
    (\<forall>va. drop_bit 12 (take_bit 48 va) \<noteq> drop_bit 12 (take_bit 48 far) \<longrightarrow>
      translate 3 (words s') pgd va = translate 3 (words s) pgd va)"
proof -
  let ?d = "far - virt_addr v"
  let ?off = "?d - ?d mod 0x1000"
  have off: "(if ?d mod 0x1000 = 0 then ?d else ?d - ?d mod 0x1000) = ?off" by simp
  have rm': "roomy (3 + 0) s" using rm by simp
  have pg: "drop_bit 12 (virt_addr v + ?off) = drop_bit 12 far" by (rule page_of_distance[OF al])
  from map_one_page_grows[OF tb rm', of "virt_addr v + ?off" "phys_addr v + ?off" "area_flag v"] obtain s' where
    s': "map_one_page pgd (virt_addr v + ?off) (phys_addr v + ?off) (area_flag v) s = Some s'" "grows 3 pgd s s'"
    "translate 3 (words s') pgd (virt_addr v + ?off) = Some ((phys_addr v + ?off) OR page_attr OR area_flag v)"
    "\<forall>va. drop_bit 12 (take_bit 48 va) \<noteq> drop_bit 12 (take_bit 48 (virt_addr v + ?off)) \<longrightarrow>
      translate 3 (words s') pgd va = translate 3 (words s) pgd va" by blast
  have "mmu_memfail_abort_handle iss far s = Some s'"
    using f iss s'(1) by (simp add: mmu_memfail_abort_handle_def Let_def t_def pgd_def off)
  moreover have "threads s' = threads s"
    using quietD(11)[OF growsD(9)[OF s'(2)]] by simp
  moreover have "translate 3 (words s') pgd far = translate 3 (words s') pgd (virt_addr v + ?off)"
    by (rule translate_index, intro allI impI, rule pt_index_same) (simp only: pg)
  moreover have "drop_bit 12 (take_bit 48 far) = drop_bit 12 (take_bit 48 (virt_addr v + ?off))"
  proof -
    have "drop_bit 12 (take_bit 48 x) = take_bit 36 (drop_bit 12 x)" for x :: "64 word"
      by (rule bit_word_eqI) (auto simp: bit_simps)
    then show ?thesis using pg by simp
  qed
  ultimately show ?thesis using s'(3,4) table_at_grows[OF tb s'(2)] by auto
qed

text \<open>C4: demand paging.  Let the areas of the running thread be page aligned and below \<open>2 ^ 48\<close>, and
  let the fault address be in an area such that no earlier area of the list contains it or ends
  exactly there.  A translation fault then maps exactly the page of the fault address to the page at
  the same distance in the area's physical memory, with the area's permissions; every other page
  translates as before, the tables stay well formed and no thread changes.  Three free frames are
  enough.\<close>

theorem page_fault_maps:
  fixes s :: kern
  defines "t \<equiv> threads s (curr_thread s)"
  defines "pgd \<equiv> PHYS_TO_VIRT (c_pgd (ctx t))"
  assumes as: "vma_list t = xs @ (a, v) # ys" "areas_ok (vma_list t)" "passed far xs" "unat far \<in> area_bytes v"
    and iss: "translation_fault iss" and tb: "table_at s pgd" and rm: "roomy 3 s"
  shows "\<exists>s'. mmu_memfail_abort_handle iss far s = Some s' \<and> table_at s' pgd \<and> threads s' = threads s \<and>
    translate 3 (words s') pgd far =
      Some ((phys_addr v + (far - virt_addr v - (far - virt_addr v) mod 0x1000)) OR page_attr OR area_flag v) \<and>
    (\<forall>va. drop_bit 12 (take_bit 48 va) \<noteq> drop_bit 12 (take_bit 48 far) \<longrightarrow>
      translate 3 (words s') pgd va = translate 3 (words s) pgd va)"
proof -
  have "fault_area far (vma_list t) = Some (a, v)" using fault_area_first as by simp
  moreover have "virt_addr v mod 0x1000 = 0" using as(1,2) by (simp add: areas_ok_def)
  ultimately show ?thesis using handler_maps[of far s a v iss] iss tb rm unfolding t_def pgd_def by simp
qed

text \<open>The running thread with one area of two pages.\<close>

definition one_area :: "addr \<Rightarrow> nat \<Rightarrow> thread_t" where
  "one_area pgd i = (three False i)\<lparr>ctx := blank_ctx\<lparr>c_pgd := VIRT_TO_PHYS pgd\<rparr>,
     vma_list := [(0x5000, \<lparr>virt_addr = 0x10000, phys_addr = 0x80000, area_size = 0x2000, rwx = 7, is_alloced = False\<rparr>)]\<rparr>"

lemma area_kern:
  obtains s pgd where "table_at s pgd" "roomy 900 s" "threads s = one_area pgd" "curr_thread s = 0" "rq s [1, 2]"
    "\<And>i. \<not> zombie s i" "heap_ok s"
proof -
  obtain s0 pgd where s0: "table_at s0 pgd" "roomy 900 s0" by (rule table_kern)
  let ?s = "s0\<lparr>threads := one_area pgd, curr_thread := 0, RQ_head := Some 1, RQ_tail := Some 2\<rparr>"
  have "table_at ?s pgd" using s0(1) heap_cong[of ?s s0] by (simp add: table_at_def del: tree.simps pages.simps)
  moreover have "roomy 900 ?s" using s0(2) by (simp add: roomy_def)
  moreover have "rq ?s [1, 2]" "\<not> zombie ?s i" for i
    by (simp_all add: rq_def tnext_def tprev_def three_def zombie_def one_area_def THREAD_ZOMBIE_def THREAD_ACTIVE_def blank_thread_def)
  ultimately show thesis using that[of ?s pgd] by (simp add: table_at_def)
qed

theorem page_fault_maps_witness:
  "\<exists>s s' pgd. mmu_memfail_abort_handle 6 0x11234 s = Some s' \<and>
     translate 3 (words s') pgd 0x11234 = Some (0x81000 OR page_attr OR PD_UK_ACCESS)"
proof -
  obtain s pgd where s: "table_at s pgd" "roomy 900 s" "threads s = one_area pgd" "curr_thread s = 0" by (rule area_kern) blast
  have "roomy 3 s" using s(2) by (simp add: roomy_def)
  moreover have "PHYS_TO_VIRT (c_pgd (ctx (threads s (curr_thread s)))) = pgd" by (simp add: s one_area_def)
  ultimately show ?thesis
    using page_fault_maps[of s "[]" "0x5000" _ "[]" "0x11234" 6] s
    by (auto simp: one_area_def areas_ok_def passed_def area_bytes_def translation_fault_def area_flag_def)
qed

text \<open>C35: an access that no area of the running thread contains, and at which none ends exactly (the areas
  page aligned and below \<open>2 ^ 48\<close>), ends the thread: with a runnable thread queued and the running
  one not in the queue, the handler returns in the first runnable thread, the old one is a zombie
  and in no queue, and the other runnable threads keep their order.\<close>

theorem page_fault_kills:
  assumes as: "areas_ok (vma_list (threads s (curr_thread s)))" "passed far (vma_list (threads s (curr_thread s)))"
    and q: "rq s xs" "curr_thread s \<notin> set xs" "runnable s xs = t # us"
  shows "\<exists>s' ys. mmu_memfail_abort_handle iss far s = Some s' \<and> curr_thread s' = t \<and> zombie s' (curr_thread s) \<and>
    rq s' ys \<and> curr_thread s \<notin> insert t (set ys) \<and> runnable s' ys = us"
proof -
  have f: "fault_area far (vma_list (threads s (curr_thread s))) = None" using fault_area_None[OF as(1)] as(2) by simp
  have nl: "0x25 \<notin> set (ascii ''[Segfault] No VMA found, addr == 0x'')" by (simp add: ascii_def)
  obtain s1 where s1: "klog_args (''[Segfault] No VMA found, addr == 0x'' @ ''%x'' @ crnl) [Arg_long far] s = Some s1" "same_but_con s s1"
    using klog_args_hex[OF nl, of far s] by auto
  let ?s2 = "fold print_area (vma_list (threads s (curr_thread s))) (klog (''Current VMA...'' @ crnl) s1)"
  have s2: "same_but_con s ?s2" using same_but_con_trans[OF s1(2)] klog_same(1) print_areas_same same_but_con_trans by blast
  note c = same_but_con_rq[OF s2] same_but_conD(3)[OF s2]
  have "mmu_memfail_abort_handle iss far s = thread_exit ?s2"
    using f s1(1) by (simp add: mmu_memfail_abort_handle_def Let_def)
  moreover have "rq ?s2 xs" "curr_thread ?s2 = curr_thread s" "runnable ?s2 xs = t # us"
    using q by (simp_all only: c)
  ultimately show ?thesis using thread_exit_leaves[of ?s2 xs t us] q(2) by auto
qed

theorem page_fault_kills_witness:
  "\<exists>s s'. mmu_memfail_abort_handle 6 0x90000 s = Some s' \<and> curr_thread s' = 1 \<and> zombie s' 0"
proof -
  obtain s pgd where s: "threads s = one_area pgd" "curr_thread s = 0" "rq s [1, 2]" "\<And>i. \<not> zombie s i" by (rule area_kern) blast
  have "runnable s [1, 2] = 1 # [2]" using s(4) by (simp add: runnable_def)
  moreover have "areas_ok (vma_list (threads s (curr_thread s)))" "passed 0x90000 (vma_list (threads s (curr_thread s)))"
    by (simp_all add: s one_area_def areas_ok_def passed_def area_bytes_def ends_at_def)
  ultimately show ?thesis using page_fault_kills[OF _ _ s(3), of "0x90000" 1 "[2]" 6] s(2) by auto
qed


text \<open>The running thread with two areas, one directly behind the other.\<close>

definition two_areas :: "addr \<Rightarrow> nat \<Rightarrow> thread_t" where
  "two_areas pgd i = (one_area pgd i)\<lparr>vma_list := vma_list (one_area pgd i) @
     [(0x6000, \<lparr>virt_addr = 0x12000, phys_addr = 0x90000, area_size = 0x1000, rwx = 7, is_alloced = False\<rparr>)]\<rparr>"


section \<open>\<open>mmap\<close>\<close>

text \<open>C36: \<open>mmap\<close> ends, whatever areas the hint runs into.  Let the hint be at most \<open>2 ^ 48\<close>, the length
  between 1 and \<open>2 ^ 31 - 1\<close> (so that neither the end of the area wraps nor \<open>kmalloc\<close>, which takes 32
  bits, gets a length that was cut), the areas of the thread page aligned and below \<open>2 ^ 48\<close>, and
  let the allocation of the rounded length succeed and leave a free frame.  Then \<open>mmap\<close> returns a page-aligned
  address at or after the hint, the area list gets exactly one new area there, on the memory that was
  allocated, and its bytes are disjoint from the bytes of every area the thread had.\<close>

theorem mmap_disjoint:
  fixes s :: kern
  defines "as \<equiv> vma_list (threads s (curr_thread s))"
  assumes ok: "heap_ok s" "areas_ok as" and a: "unat addr \<le> 2 ^ 48" "len \<noteq> 0" "unat len < 2 ^ 31"
    and k: "kmalloc (ucast (page_round len)) (mem s) = Some (m, p)" "p \<noteq> 0" "1 \<le> card (free_frames m)"
  shows "\<exists>s' addr' n v. mmap addr len prot flags s = Some (s', addr') \<and> addr' mod 0x1000 = 0 \<and> unat addr \<le> unat addr' \<and>
    vma_list (threads s' (curr_thread s)) = as @ [(n, v)] \<and> virt_addr v = addr' \<and> area_size v = page_round len \<and>
    phys_addr v = VIRT_TO_PHYS p \<and> heap_ok s' \<and> (\<forall>(b, w) \<in> set as. area_bytes v \<inter> area_bytes w = {})"
proof -
  have ad: "vma_list (threads s (curr_thread s)) = as" by (simp only: as_def)
  have l: "unat len \<le> 2 ^ 48" "unat len \<le> 2 ^ 63" using a(3) by simp_all
  obtain addr' s1 where s1: "mmap addr len prot flags s = mmap_new addr' (page_round len) prot s1" "same_but_con s s1"
    "addr' mod 0x1000 = 0" "unat addr \<le> unat addr'" "unat addr' \<le> 2 ^ 48" "\<forall>(a, v) \<in> set as. \<not> overlaps addr' (page_round len) v"
    using mmap_places[OF ok(2) ad a(1) l(1), of prot flags] by (elim exE conjE) (rule that)
  note rl = page_round_unat[OF l(2)]
  have ub: "unat (page_round len) < 2 ^ 32 - 4096" "unat (page_round len) \<noteq> 0"
  proof -
    have "(unat len + 4095) div 4096 \<le> (2 ^ 31 + 4095) div 4096" by (rule div_le_mono) (use a(3) in simp)
    then show "unat (page_round len) < 2 ^ 32 - 4096" using rl(1) by simp
    have "0 < unat len" using a(2) by (simp add: unat_gt_0)
    then have "1 \<le> (unat len + 4095) div 4096" by (simp add: div_greater_zero_iff Suc_le_eq)
    then show "unat (page_round len) \<noteq> 0" using rl(1) by simp
  qed
  have u: "unat (ucast (page_round len) :: 32 word) = unat (page_round len)"
    using ub(1) by (simp add: unsigned_ucast_eq take_bit_nat_eq_self)
  have rq: "request_ok (ucast (page_round len))" using ub u by (auto simp: request_ok_def)
  note sc = same_but_conD[OF s1(2)]
  obtain s' n where n: "mmap_new addr' (page_round len) prot s1 = Some (s', addr')" "heap_ok s'"
    "vma_list (threads s' (curr_thread s)) = as @ [(n, \<lparr>virt_addr = addr', phys_addr = VIRT_TO_PHYS p,
       area_size = page_round (page_round len), rwx = prot_rwx prot, is_alloced = True\<rparr>)]"
    using mmap_new_spec[of "page_round len" s1 m p addr' prot] k ok(1) rq sc heap_cong(1)[OF sc(1)] as_def by auto
  have rr: "page_round (page_round len) = page_round len" by (rule page_round_aligned[OF rl(2)])
  have dj: "{unat addr' ..< unat addr' + unat (page_round len)} \<inter> area_bytes w = {}" if "(b, w) \<in> set as" for b w
  proof -
    have "unat addr' + unat (page_round len) < 2 ^ 64" using s1(5) ub(1) by simp
    from not_overlaps[OF ok(2) that this] s1(6) that show ?thesis by (auto simp: area_bytes_def)
  qed
  let ?v = "\<lparr>virt_addr = addr', phys_addr = VIRT_TO_PHYS p, area_size = page_round len, rwx = prot_rwx prot, is_alloced = True\<rparr>"
  have v: "area_bytes ?v = {unat addr' ..< unat addr' + unat (page_round len)}"
    by (simp only: area_bytes_def vm_area_t.simps)
  have d: "\<forall>(b, w) \<in> set as. area_bytes ?v \<inter> area_bytes w = {}"
    unfolding v using dj by (intro ballI) (simp only: split_paired_all prod.case)
  show ?thesis
    by (rule exI[of _ s'], rule exI[of _ addr'], rule exI[of _ n], rule exI, intro conjI, simp add: s1(1) n(1), rule s1(3),
        rule s1(4), rule n(3)[unfolded rr]) (use d n(2) in simp_all)
qed

theorem mmap_disjoint_witness:
  "\<exists>s s' addr' areas. vma_list (threads s 0) = areas \<and> length areas = 1 \<and> mmap 0x10000 100 3 0 s = Some (s', addr') \<and>
     length (vma_list (threads s' 0)) = 2"
proof -
  obtain s pgd where s: "table_at s pgd" "roomy 900 s" "threads s = one_area pgd" "curr_thread s = 0" by (rule area_kern) blast
  have ok: "heap_ok s" using s(1) by (simp add: table_at_def)
  have rm: "roomy (Suc 899) s" using s(2) by (simp add: roomy_def)
  obtain s1 p where k: "knew 0x1000 s = Some (s1, p)" "roomy 899 s1"
    by (rule knew_room[OF ok rm, of "0x1000"]) simp_all
  have pr: "page_round 100 = 0x1000" by (simp add: page_round_def)
  obtain m where m: "kmalloc 0x1000 (mem s) = Some (m, p)" "p \<noteq> 0" "m = mem s1"
  proof -
    have "kalloc 0x1000 s = Some (s1, p)" "p \<noteq> 0" using k(1) by (auto simp: knew_def split: option.splits if_splits)
    then show thesis using that by (auto elim: kalloc_SomeD)
  qed
  let ?v = "\<lparr>virt_addr = 0x10000, phys_addr = 0x80000, area_size = 0x2000, rwx = 7, is_alloced = False\<rparr> :: vm_area_t"
  have as: "vma_list (threads s (curr_thread s)) = [(0x5000, ?v)]" by (simp add: s one_area_def)
  have ar: "areas_ok (vma_list (threads s (curr_thread s)))" unfolding as by (simp add: areas_ok_def)
  have c: "1 \<le> card (free_frames m)" using k(2) m(3) by (simp add: roomy_def)
  have "kmalloc (ucast (page_round 100)) (mem s) = Some (m, p)" using m(1) by (simp add: pr)
  from mmap_disjoint[OF ok ar _ _ _ this m(2) c, of "0x10000" 3 0] obtain s' addr' n v where
    r: "mmap 0x10000 100 3 0 s = Some (s', addr')" "vma_list (threads s' (curr_thread s)) = vma_list (threads s (curr_thread s)) @ [(n, v)]"
    by auto
  show ?thesis
    by (rule exI[of _ s], rule exI[of _ s'], rule exI[of _ addr'], rule exI[of _ "[(0x5000, ?v)]"])
      (use r as s(4) in simp)
qed

end
