(* ===== verification/Tmpfs.thy ===== *)
theory Tmpfs
  imports Kheap Cstring_Inv
begin

text \<open>
  The in-memory file system \<open>kernel/src/tmpfs.c\<close>.  A vnode's operations get the address of the
  vnode; results are the new state and \<open>None\<close> for \<open>-1\<close> or \<open>Some\<close> of the value of \<open>*target\<close>.
  The outer \<open>None\<close> is undefined behaviour.  The array \<open>name\<close> of an inode has 15 bytes; the
  terminator of a name of 15 characters goes into the padding before \<open>entry\<close>.
\<close>

definition MAX_FILE_NAME :: nat where "MAX_FILE_NAME = 15"
definition MAX_DIR_ENTRY :: nat where "MAX_DIR_ENTRY = 16"

text \<open>\<open>sizeof\<close> of the structures that are allocated.\<close>

definition VNODE_SIZE :: "32 word" where "VNODE_SIZE = 32"
definition FILE_SIZE :: "32 word" where "FILE_SIZE = 32"
definition MOUNT_SIZE :: "32 word" where "MOUNT_SIZE = 16"
definition TMPFS_INODE_SIZE :: "32 word" where "TMPFS_INODE_SIZE = 168"

definition set_vnode :: "(vnode \<Rightarrow> vnode) \<Rightarrow> addr \<Rightarrow> kern \<Rightarrow> kern" where
  "set_vnode f a s = s\<lparr>vnodes := (vnodes s)(a := f (vnodes s a))\<rparr>"

definition set_inode :: "(inode \<Rightarrow> inode) \<Rightarrow> addr \<Rightarrow> kern \<Rightarrow> kern" where
  "set_inode f a s = s\<lparr>inodes := (inodes s)(a := f (inodes s a))\<rparr>"

definition set_file :: "(filehandle \<Rightarrow> filehandle) \<Rightarrow> addr \<Rightarrow> kern \<Rightarrow> kern" where
  "set_file f a s = s\<lparr>files := (files s)(a := f (files s a))\<rparr>"

definition empty_inode :: "fsnode_type \<Rightarrow> inode" where
  "empty_inode ty = \<lparr>i_type = ty, i_name = [], i_entry = (\<lambda>_. None), i_data = 0, i_datasize = 0\<rparr>"

definition tmpfs_create_vnode :: "fsnode_type \<Rightarrow> kern \<Rightarrow> (kern \<times> addr) option" where
  "tmpfs_create_vnode ty s =
     (case knew VNODE_SIZE s of None \<Rightarrow> None
      | Some (s1, v) \<Rightarrow>
          (let s2 = set_vnode (\<lambda>x. x\<lparr>f_ops := Tmpfs_file_ops, v_ops := Tmpfs_vnode_ops, v_mount := None\<rparr>) v s1 in
           case knew TMPFS_INODE_SIZE s2 of None \<Rightarrow> None
           | Some (s3, i) \<Rightarrow>
               (let s4 = set_inode (\<lambda>_. empty_inode ty) i s3 in
                case kalloc 0x1000 s4 of None \<Rightarrow> None
                | Some (s5, d) \<Rightarrow>
                    Some (set_vnode (\<lambda>x. x\<lparr>internal := i\<rparr>) v (set_inode (\<lambda>x. x\<lparr>i_data := d\<rparr>) i s5), v))))"

definition inode_of :: "kern \<Rightarrow> addr \<Rightarrow> inode" where
  "inode_of s v = inodes s (internal (vnodes s v))"

text \<open>The new mount's root.\<close>

definition tmpfs_setup_mount :: "nat \<Rightarrow> addr \<Rightarrow> kern \<Rightarrow> kern option" where
  "tmpfs_setup_mount fs mnt s =
     (case tmpfs_create_vnode dir_t (s\<lparr>mounts := (mounts s)(mnt := (mounts s mnt)\<lparr>m_fs := fs\<rparr>)\<rparr>) of None \<Rightarrow> None
      | Some (s1, v) \<Rightarrow> Some (s1\<lparr>mounts := (mounts s1)(mnt := (mounts s1 mnt)\<lparr>m_root := v\<rparr>)\<rparr>))"

section \<open>File operations\<close>

definition tmpfs_write :: "addr \<Rightarrow> addr \<Rightarrow> 64 word \<Rightarrow> kern \<Rightarrow> kern \<times> 32 word" where
  "tmpfs_write fh buf len s =
     (let f = files s fh; i = internal (vnodes s (f_vnode f));
          s1 = s\<lparr>bytes := memcpy (i_data (inodes s i) + f_pos f) buf len (bytes s)\<rparr>;
          pos = f_pos f + len;
          s2 = set_file (\<lambda>x. x\<lparr>f_pos := pos\<rparr>) fh s1
      in (if i_datasize (inodes s2 i) < pos then set_inode (\<lambda>x. x\<lparr>i_datasize := pos\<rparr>) i s2 else s2, ucast len))"

definition tmpfs_read :: "addr \<Rightarrow> addr \<Rightarrow> 64 word \<Rightarrow> kern \<Rightarrow> kern \<times> 32 word" where
  "tmpfs_read fh buf len s =
     (let f = files s fh; d = inode_of s (f_vnode f);
          n = (if len + f_pos f > i_datasize d then i_datasize d - f_pos f else len)
      in (set_file (\<lambda>x. x\<lparr>f_pos := f_pos f + n\<rparr>) fh (s\<lparr>bytes := memcpy buf (i_data d + f_pos f) n (bytes s)\<rparr>), ucast n))"

definition tmpfs_open :: "addr \<Rightarrow> addr \<Rightarrow> kern \<Rightarrow> kern" where
  "tmpfs_open node fh s = set_file (\<lambda>x. x\<lparr>f_vnode := node, fh_ops := f_ops (vnodes s node), f_pos := 0\<rparr>) fh s"

definition tmpfs_close :: "addr \<Rightarrow> kern \<Rightarrow> kern option" where
  "tmpfs_close fh s = krelease fh s"

definition tmpfs_lseek64 :: "addr \<Rightarrow> 64 word \<Rightarrow> int \<Rightarrow> kern \<Rightarrow> kern \<times> 64 word" where
  "tmpfs_lseek64 fh offset whence s =
     (if whence = 0 then (set_file (\<lambda>x. x\<lparr>f_pos := offset\<rparr>) fh s, offset) else (s, -1))"

definition tmpfs_getsize :: "addr \<Rightarrow> kern \<Rightarrow> 64 word" where
  "tmpfs_getsize vd s = i_datasize (inode_of s vd)"

section \<open>Directory operations\<close>

text \<open>The loops over the entries of a directory: the entry found, and the index at the end.\<close>

primrec scan_entries :: "(addr \<Rightarrow> bool) \<Rightarrow> (nat \<Rightarrow> addr ptr) \<Rightarrow> nat \<Rightarrow> nat \<Rightarrow> addr option \<times> nat" where
  "scan_entries same e 0 idx = (None, idx)"
| "scan_entries same e (Suc n) idx =
     (case e idx of None \<Rightarrow> (None, idx)
      | Some v \<Rightarrow> if same v then (Some v, idx) else scan_entries same e n (idx + 1))"

definition tmpfs_scan :: "kern \<Rightarrow> addr \<Rightarrow> string \<Rightarrow> addr option \<times> nat" where
  "tmpfs_scan s dir name =
     scan_entries (\<lambda>v. i_name (inode_of s v) = name) (i_entry (inode_of s dir)) MAX_DIR_ENTRY 0"

definition tmpfs_lookup :: "addr \<Rightarrow> string \<Rightarrow> kern \<Rightarrow> (kern \<times> addr option) option" where
  "tmpfs_lookup dir name s =
     (case fst (tmpfs_scan s dir name) of Some v \<Rightarrow> Some (s, Some v)
      | None \<Rightarrow>
          (case klog_text name (klog ''[tmpfs] tmpfs lookup \"does not\" found '' s) of None \<Rightarrow> None
           | Some s1 \<Rightarrow> Some (klog crnl s1, None)))"

text \<open>\<open>tmpfs_create\<close> and \<open>tmpfs_mkdir\<close> differ in the type of the new node and in their messages.\<close>

definition tmpfs_add :: "fsnode_type \<Rightarrow> string \<Rightarrow> string \<Rightarrow> addr \<Rightarrow> string \<Rightarrow> kern \<Rightarrow> (kern \<times> addr option) option" where
  "tmpfs_add ty not_dir exists dir name s =
     (let di = internal (vnodes s dir) in
      if i_type (inodes s di) \<noteq> dir_t then Some (klog (not_dir @ crnl) s, None)
      else
        (case tmpfs_scan s dir name of
           (Some v, _) \<Rightarrow> Some (klog (exists @ crnl) s, None)
         | (None, child_idx) \<Rightarrow>
             if child_idx = MAX_DIR_ENTRY then Some (klog (''[!!!] tmpfs dir entry full'' @ crnl) s, None)
             else if length name > MAX_FILE_NAME then Some (klog (''[!!!] tmpfs crate too long name file'' @ crnl) s, None)
             else
               (case tmpfs_create_vnode ty s of None \<Rightarrow> None
                | Some (s1, v) \<Rightarrow>
                    (let s2 = set_inode (\<lambda>x. x\<lparr>i_entry := (i_entry x)(child_idx := Some v)\<rparr>) di s1
                     in Some (set_inode (\<lambda>x. x\<lparr>i_name := name\<rparr>) (internal (vnodes s2 v)) s2, Some v)))))"

definition tmpfs_create :: "addr \<Rightarrow> string \<Rightarrow> kern \<Rightarrow> (kern \<times> addr option) option" where
  "tmpfs_create = tmpfs_add file_t ''[!!!] tmpfs create specified dir not dir_t'' ''[!!!] tmpfs create file exists''"

definition tmpfs_mkdir :: "addr \<Rightarrow> string \<Rightarrow> kern \<Rightarrow> (kern \<times> addr option) option" where
  "tmpfs_mkdir = tmpfs_add dir_t ''[!!!] tmpfs mkdir specified dir not dir_t'' ''[!!!] tmpfs create directory exists''"

end
