(* ===== verification/Cpio.thy ===== *)
theory Cpio
  imports Kheap Cstring_Inv
begin

text \<open>
  \<open>kernel/src/cpio.c\<close>: walking the "newc" archive of the initial RAM disk.  The header of a member
  is 110 bytes, its fields are eight hexadecimal digits each; the name follows the header and the
  data the name, both padded to four bytes.
\<close>

unbundle bit_operations_syntax

section \<open>Literals\<close>

text \<open>A string literal passed to a routine that works on addresses: it stands, with its
  terminator, at the end of the address space, where the machine has no memory.\<close>

definition LITERAL :: addr where "LITERAL = 0xffffffffffffff00"

definition with_literal :: "8 word list \<Rightarrow> mem \<Rightarrow> mem" where
  "with_literal lit m =
     (\<lambda>a. let i = unat (a - LITERAL) in if i < length lit then lit ! i else if i = length lit then 0 else m a)"

definition strncmp_lit :: "mem \<Rightarrow> addr \<Rightarrow> string \<Rightarrow> 64 word \<Rightarrow> int" where
  "strncmp_lit m p lit n = strncmp (with_literal (ascii lit) m) p LITERAL n"

text \<open>A string on the kernel's stack stands there too.\<close>

definition strcmp_text :: "mem \<Rightarrow> string \<Rightarrow> addr \<Rightarrow> int option" where
  "strcmp_text m text p = strcmp (with_literal (ascii text) m) LITERAL p"

definition compare_lit :: "mem \<Rightarrow> addr \<Rightarrow> string \<Rightarrow> bool option" where
  "compare_lit m p lit = utils_string_compare (with_literal (ascii lit) m) p LITERAL"

section \<open>Headers\<close>

definition CPIO_NEWC_HEADER_MAGIC :: string where "CPIO_NEWC_HEADER_MAGIC = ''070701''"

definition HEADER_SIZE :: nat where "HEADER_SIZE = 110"
definition c_filesize :: "addr \<Rightarrow> addr" where "c_filesize h = h + 54"
definition c_namesize :: "addr \<Rightarrow> addr" where "c_namesize h = h + 94"

text \<open>\<open>r\<close> is multiplied before the digit is looked at, also when there is none.\<close>

primrec parse_hex_loop :: "mem \<Rightarrow> addr \<Rightarrow> nat \<Rightarrow> 32 word \<Rightarrow> 32 word" where
  "parse_hex_loop m s 0 r = r"
| "parse_hex_loop m s (Suc n) r =
     (let r1 = r * 16; c = m s in
      if 0x30 \<le> c \<and> c \<le> 0x39 then parse_hex_loop m (s + 1) n (r1 + (ucast c - 0x30))
      else if 0x61 \<le> c \<and> c \<le> 0x66 then parse_hex_loop m (s + 1) n (r1 + (ucast c - 0x61 + 10))
      else if 0x41 \<le> c \<and> c \<le> 0x46 then parse_hex_loop m (s + 1) n (r1 + (ucast c - 0x41 + 10))
      else r1)"

definition parse_hex_str :: "mem \<Rightarrow> addr \<Rightarrow> nat \<Rightarrow> 32 word" where
  "parse_hex_str m s max_len = parse_hex_loop m s max_len 0"

definition align4 :: "32 word \<Rightarrow> 32 word" where
  "align4 offset = (if offset mod 4 = 0 then offset else offset + 4 - offset mod 4)"

text \<open>The values of \<open>pathname\<close>, \<open>filesize\<close>, \<open>data\<close> and \<open>next_header_pointer\<close>; \<open>None\<close> is the
  result \<open>-1\<close>, which leaves them alone.\<close>

definition cpio_newc_parse_header :: "mem \<Rightarrow> addr \<Rightarrow> (addr \<times> 32 word \<times> addr \<times> addr) option" where
  "cpio_newc_parse_header m h =
     (if strncmp_lit m h CPIO_NEWC_HEADER_MAGIC 6 \<noteq> 0 then None
      else
        (let filesize = parse_hex_str m (c_filesize h) 8;
             pathname = h + of_nat HEADER_SIZE;
             pathname_length = parse_hex_str m (c_namesize h) 8;
             offset = align4 (pathname_length + of_nat HEADER_SIZE);
             data = h + ucast offset;
             next_header = (if filesize = 0 then data else data + ucast (align4 filesize));
             next_header1 = (if strncmp_lit m pathname ''TRAILER!!!'' 11 = 0 then 0 else next_header)
         in Some (pathname, filesize, data, next_header1)))"

section \<open>Finding a member\<close>

definition member_sizes :: "mem \<Rightarrow> addr \<Rightarrow> 64 word \<times> 64 word" where
  "member_sizes m a =
     (let filename_size = utils_HexStr2Int m (c_namesize a) 8;
          file_size = utils_HexStr2Int m (c_filesize a) 8
      in (utils_align (of_nat HEADER_SIZE + filename_size) 4, utils_align file_size 4))"

text \<open>\<open>find_file\<close>: outer \<open>None\<close> a walk that does not end, inner \<open>None\<close> the null pointer.\<close>

partial_function (option) find_loop :: "mem \<Rightarrow> addr \<Rightarrow> addr \<Rightarrow> addr option option" where
  "find_loop m fname a =
     (case compare_lit m (a + of_nat HEADER_SIZE) ''TRAILER!!!'' of None \<Rightarrow> None
      | Some end_of_archive \<Rightarrow>
          if end_of_archive then Some None
          else
            (case utils_string_compare m (a + of_nat HEADER_SIZE) fname of None \<Rightarrow> None
             | Some same \<Rightarrow>
                 if same then Some (Some a)
                 else find_loop m fname (a + (fst (member_sizes m a) + snd (member_sizes m a)))))"

definition find_file :: "mem \<Rightarrow> addr \<Rightarrow> addr \<Rightarrow> addr option option" where
  "find_file m start fname = find_loop m fname start"

text \<open>The size is that of the padded data.  Outer \<open>None\<close> as before, inner \<open>None\<close> is the result 0.
  The function reads byte memory only; its message \<open>File not found\<close> in that case is printed by the model
  of its caller (\<open>Shell\<close>), where the console is.\<close>

definition cpio_find_program :: "mem \<Rightarrow> addr \<Rightarrow> addr \<Rightarrow> (32 word \<times> addr) option option" where
  "cpio_find_program m start filename =
     (case find_file m start filename of None \<Rightarrow> None
      | Some None \<Rightarrow> Some None
      | Some (Some target) \<Rightarrow>
          Some (Some (ucast (snd (member_sizes m target)), target + fst (member_sizes m target))))"

text \<open>\<open>cpio_ls\<close>: the names in order.\<close>

partial_function (option) ls_loop :: "mem \<Rightarrow> addr \<Rightarrow> addr list \<Rightarrow> addr list option" where
  "ls_loop m a names =
     (case compare_lit m (a + of_nat HEADER_SIZE) ''TRAILER!!!'' of None \<Rightarrow> None
      | Some end_of_archive \<Rightarrow>
          if end_of_archive then Some names
          else ls_loop m (a + (fst (member_sizes m a) + snd (member_sizes m a))) (names @ [a + of_nat HEADER_SIZE]))"

end
