(* ===== verification/Initramfs.thy ===== *)
theory Initramfs
  imports Tmpfs Cpio
begin

text \<open>
  The read-only file system \<open>kernel/src/initramfs.c\<close>: mounting it makes one file per member of the
  archive; its data stays in the archive.  A name is the address of the member's name.
\<close>

definition INITRAMFS_MAX_DIR_ENTRY :: nat where "INITRAMFS_MAX_DIR_ENTRY = 100"
definition INITRAMFS_INODE_SIZE :: "32 word" where "INITRAMFS_INODE_SIZE = 832"

definition set_rinode :: "(rinode \<Rightarrow> rinode) \<Rightarrow> addr \<Rightarrow> kern \<Rightarrow> kern" where
  "set_rinode f a s = s\<lparr>rinodes := (rinodes s)(a := f (rinodes s a))\<rparr>"

definition empty_rinode :: "fsnode_type \<Rightarrow> rinode" where
  "empty_rinode ty = \<lparr>r_type = ty, r_name = 0, r_entry = (\<lambda>_. None), r_data = 0, r_datasize = 0\<rparr>"

definition initramfs_create_vnode :: "addr ptr \<Rightarrow> fsnode_type \<Rightarrow> kern \<Rightarrow> (kern \<times> addr) option" where
  "initramfs_create_vnode mnt ty s =
     (case knew VNODE_SIZE s of None \<Rightarrow> None
      | Some (s1, v) \<Rightarrow>
          (let s2 = set_vnode (\<lambda>x. x\<lparr>f_ops := Initramfs_file_ops, v_ops := Initramfs_vnode_ops, v_mount := mnt\<rparr>) v s1 in
           case knew INITRAMFS_INODE_SIZE s2 of None \<Rightarrow> None
           | Some (s3, i) \<Rightarrow>
               (let s4 = set_rinode (\<lambda>_. empty_rinode ty) i s3 in
                case kalloc 0x1000 s4 of None \<Rightarrow> None
                | Some (s5, d) \<Rightarrow>
                    Some (set_vnode (\<lambda>x. x\<lparr>internal := i\<rparr>) v (set_rinode (\<lambda>x. x\<lparr>r_data := d\<rparr>) i s5), v))))"

text \<open>The loop over the archive.  \<open>None\<close>: more than 100 members write past the array of entries
  (or the loop does not end).\<close>

definition add_member :: "addr \<Rightarrow> nat \<Rightarrow> addr \<Rightarrow> 32 word \<Rightarrow> addr \<Rightarrow> kern \<Rightarrow> kern option" where
  "add_member ramdir_inode idx filepath filesize filedata s =
     (case initramfs_create_vnode None file_t s of None \<Rightarrow> None
      | Some (s1, filevnode) \<Rightarrow>
          if idx \<ge> INITRAMFS_MAX_DIR_ENTRY then None
          else Some (set_rinode (\<lambda>x. x\<lparr>r_entry := (r_entry x)(idx := Some filevnode)\<rparr>) ramdir_inode
            (set_rinode (\<lambda>x. x\<lparr>r_data := filedata, r_datasize := ucast filesize, r_name := filepath\<rparr>)
               (internal (vnodes s1 filevnode)) s1)))"

partial_function (option) setup_loop :: "addr \<Rightarrow> addr \<Rightarrow> nat \<Rightarrow> kern \<Rightarrow> kern option" where
  "setup_loop ramdir_inode header_pointer idx s =
     (if header_pointer = 0 then Some s
      else
        (case cpio_newc_parse_header (bytes s) header_pointer of
           None \<Rightarrow> Some (klog (''error'' @ crnl) s)
         | Some (filepath, filesize, filedata, next_header) \<Rightarrow>
             if next_header = 0 then Some s
             else
               (case add_member ramdir_inode idx filepath filesize filedata s of None \<Rightarrow> None
                | Some s1 \<Rightarrow> setup_loop ramdir_inode next_header (idx + 1) s1)))"

definition initramfs_setup_mount :: "nat \<Rightarrow> addr \<Rightarrow> kern \<Rightarrow> kern option" where
  "initramfs_setup_mount fs mnt s =
     (case initramfs_create_vnode None dir_t (s\<lparr>mounts := (mounts s)(mnt := (mounts s mnt)\<lparr>m_fs := fs\<rparr>)\<rparr>) of None \<Rightarrow> None
      | Some (s1, v) \<Rightarrow>
          (let s2 = s1\<lparr>mounts := (mounts s1)(mnt := (mounts s1 mnt)\<lparr>m_root := v\<rparr>)\<rparr>
           in setup_loop (internal (vnodes s2 v)) (CPIO_DEFAULT_START s2) 0 s2))"

definition rinode_of :: "kern \<Rightarrow> addr \<Rightarrow> rinode" where
  "rinode_of s v = rinodes s (internal (vnodes s v))"

section \<open>File operations\<close>

definition initramfs_write :: "addr \<Rightarrow> addr \<Rightarrow> 64 word \<Rightarrow> kern \<Rightarrow> kern \<times> 32 word" where
  "initramfs_write fh buf len s = (s, -1)"

definition initramfs_read :: "addr \<Rightarrow> addr \<Rightarrow> 64 word \<Rightarrow> kern \<Rightarrow> kern \<times> 32 word" where
  "initramfs_read fh buf len s =
     (let f = files s fh; d = rinode_of s (f_vnode f);
          n = (if len + f_pos f > r_datasize d then r_datasize d - f_pos f else len)
      in (set_file (\<lambda>x. x\<lparr>f_pos := f_pos f + n\<rparr>) fh (s\<lparr>bytes := memcpy buf (r_data d + f_pos f) n (bytes s)\<rparr>), ucast n))"

definition initramfs_open :: "addr \<Rightarrow> addr \<Rightarrow> kern \<Rightarrow> kern" where
  "initramfs_open node fh s = set_file (\<lambda>x. x\<lparr>f_vnode := node, fh_ops := f_ops (vnodes s node), f_pos := 0\<rparr>) fh s"

definition initramfs_close :: "addr \<Rightarrow> kern \<Rightarrow> kern option" where
  "initramfs_close fh s = krelease fh s"

definition initramfs_lseek64 :: "addr \<Rightarrow> 64 word \<Rightarrow> int \<Rightarrow> kern \<Rightarrow> kern \<times> 64 word" where
  "initramfs_lseek64 fh offset whence s =
     (if whence = 0 then (set_file (\<lambda>x. x\<lparr>f_pos := offset\<rparr>) fh s, offset) else (s, -1))"

definition initramfs_getsize :: "addr \<Rightarrow> kern \<Rightarrow> 64 word" where
  "initramfs_getsize vd s = r_datasize (rinode_of s vd)"

section \<open>Directory operations\<close>

text \<open>\<open>strcmp\<close> ends at the terminator of the component at the latest.\<close>

definition initramfs_scan :: "kern \<Rightarrow> addr \<Rightarrow> string \<Rightarrow> addr option \<times> nat" where
  "initramfs_scan s dir name =
     scan_entries (\<lambda>v. strcmp_text (bytes s) name (r_name (rinode_of s v)) = Some 0) (r_entry (rinode_of s dir))
       INITRAMFS_MAX_DIR_ENTRY 0"

text \<open>A failed lookup prints the name of the directory, which is the null pointer for the root of
  the mount: \<open>None\<close> is its use as a format.\<close>

definition initramfs_lookup :: "addr \<Rightarrow> string \<Rightarrow> kern \<Rightarrow> (kern \<times> addr option) option" where
  "initramfs_lookup dir name s =
     (case fst (initramfs_scan s dir name) of Some v \<Rightarrow> Some (s, Some v)
      | None \<Rightarrow>
          (case klog_text name (klog ''[initramfs] initramfs lookup \"does not\" found '' s) of None \<Rightarrow> None
           | Some s1 \<Rightarrow>
               if r_name (rinode_of s dir) = 0 then None
               else
                 (case get_text (bytes s) (r_name (rinode_of s dir)) of None \<Rightarrow> None
                  | Some nm \<Rightarrow>
                      (case uart_sendline nm [] (con (klog '' in '' s1)) of Inl _ \<Rightarrow> None
                       | Inr c \<Rightarrow> Some (klog crnl (s1\<lparr>con := c\<rparr>), None)))))"

definition initramfs_create :: "addr \<Rightarrow> string \<Rightarrow> kern \<Rightarrow> (kern \<times> addr option) option" where
  "initramfs_create dir name s = Some (s, None)"

definition initramfs_mkdir :: "addr \<Rightarrow> string \<Rightarrow> kern \<Rightarrow> (kern \<times> addr option) option" where
  "initramfs_mkdir dir name s = Some (s, None)"

end
