(* ===== verification/Mbox.thy ===== *)
theory Mbox
  imports Kheap
begin

text \<open>
  The mailbox calls of \<open>kernel/src/mbox.c\<close>.  The VideoCore is outside the program: \<open>gpu\<close> maps the
  message that is written to the mailbox register and the words of the buffer to the words it
  leaves in the buffer.  It is taken to answer; the loops that wait for it leave no trace.
\<close>

unbundle bit_operations_syntax

type_synonym gpu = "32 word \<Rightarrow> (nat \<Rightarrow> 32 word) \<Rightarrow> nat \<Rightarrow> 32 word"

definition MBOX_REQUEST_SUCCEED :: "32 word" where "MBOX_REQUEST_SUCCEED = 0x80000000"
definition MBOX_TAGS_ARM_TO_VC :: "32 word" where "MBOX_TAGS_ARM_TO_VC = 8"
definition GET_BOARD_REVISION :: "32 word" where "GET_BOARD_REVISION = 0x00010002"
definition GET_ARM_MEMORY :: "32 word" where "GET_ARM_MEMORY = 0x00010005"

text \<open>The address in the upper 28 bits, the channel in the lower 4.\<close>

definition mbox_message :: "32 word \<Rightarrow> 32 word \<Rightarrow> 32 word" where
  "mbox_message channel v = (v AND NOT 0xF) OR channel"

text \<open>The buffer is \<open>pt\<close>, whatever the address passed.\<close>

definition mbox_call :: "gpu \<Rightarrow> 32 word \<Rightarrow> 32 word \<Rightarrow> kern \<Rightarrow> kern \<times> bool" where
  "mbox_call gpu channel v s =
     (let s1 = s\<lparr>pt := gpu (mbox_message channel v) (pt s)\<rparr> in (s1, pt s1 1 = MBOX_REQUEST_SUCCEED))"

text \<open>A buffer in a local array at address \<open>a\<close>.\<close>

definition mailbox_call :: "gpu \<Rightarrow> addr \<Rightarrow> (nat \<Rightarrow> 32 word) \<Rightarrow> (nat \<Rightarrow> 32 word) \<times> bool" where
  "mailbox_call gpu a mailbox =
     (let r = gpu (mbox_message (8 AND 0xF) (ucast a)) mailbox in (r, r 1 = MBOX_REQUEST_SUCCEED))"

definition words_of :: "32 word list \<Rightarrow> nat \<Rightarrow> 32 word" where
  "words_of xs i = (if i < length xs then xs ! i else 0)"

definition get_board_revision :: "gpu \<Rightarrow> addr \<Rightarrow> 32 word" where
  "get_board_revision gpu a =
     (case mailbox_call gpu a (words_of [7 * 4, 0, GET_BOARD_REVISION, 4, 0, 0, 0]) of
        (r, ok) \<Rightarrow> if ok then r 5 else 0)"

text \<open>The base and the size, or the result 0.\<close>

definition get_arm_memory_info :: "gpu \<Rightarrow> addr \<Rightarrow> (32 word \<times> 32 word) option" where
  "get_arm_memory_info gpu a =
     (case mailbox_call gpu a (words_of [8 * 4, 0, GET_ARM_MEMORY, 8, 0, 0, 0, 0]) of
        (r, ok) \<Rightarrow> if ok then Some (r 5, r 6) else None)"

end
