(* ===== verification/Device.thy ===== *)
theory Device
  imports Tmpfs Mbox Mmu
begin

text \<open>
  The device files: \<open>kernel/src/dev_uart.c\<close> and \<open>kernel/src/dev_framebuffer.c\<close>, and the table of
  devices of \<open>kernel/src/vfs.c\<close>.  An asynchronous UART call that has to wait for the interrupt
  handler, and a length that overflows the loop's \<open>int\<close>, are \<open>None\<close>.
\<close>

section \<open>Registration\<close>

definition MAX_DEV_REG :: nat where "MAX_DEV_REG = 0x10"

text \<open>The loop runs to \<open>MAX_FS_REG\<close>; past the end of the array of \<open>MAX_DEV_REG\<close> elements its
  reads are out of bounds.\<close>

definition register_dev :: "f_ops_t \<Rightarrow> kern \<Rightarrow> (kern \<times> nat) option" where
  "register_dev fo s =
     (case List.find (\<lambda>i. reg_dev s i = None) [0..<MAX_DEV_REG] of None \<Rightarrow> None
      | Some i \<Rightarrow> Some (s\<lparr>reg_dev := (reg_dev s)(i \<mapsto> fo)\<rparr>, i))"

section \<open>The UART\<close>

definition init_dev_uart :: "kern \<Rightarrow> (kern \<times> nat) option" where
  "init_dev_uart s = register_dev Dev_uart_ops s"

primrec putc_loop :: "addr \<Rightarrow> nat \<Rightarrow> kern \<Rightarrow> kern option" where
  "putc_loop cbuf 0 s = Some s"
| "putc_loop cbuf (Suc n) s =
     (case uart_async_putc (bytes s cbuf) (con s) of Inl _ \<Rightarrow> None
      | Inr c \<Rightarrow> putc_loop (cbuf + 1) n (enable_interrupt ((disable_interrupt s)\<lparr>con := c\<rparr>)))"

primrec getc_loop :: "addr \<Rightarrow> nat \<Rightarrow> kern \<Rightarrow> kern option" where
  "getc_loop cbuf 0 s = Some s"
| "getc_loop cbuf (Suc n) s =
     (case uart_async_getc (con s) of Inl _ \<Rightarrow> None
      | Inr (c, r) \<Rightarrow>
          (let s1 = enable_interrupt ((disable_interrupt s)\<lparr>con := c\<rparr>)
           in getc_loop (cbuf + 1) n (s1\<lparr>bytes := (bytes s1)(cbuf := r)\<rparr>)))"

definition dev_uart_write :: "addr \<Rightarrow> addr \<Rightarrow> 64 word \<Rightarrow> kern \<Rightarrow> (kern \<times> 32 word) option" where
  "dev_uart_write fh buf len s =
     (if unat len \<ge> 2 ^ 31 then None else map_option (\<lambda>s1. (s1, ucast len)) (putc_loop buf (unat len) s))"

definition dev_uart_read :: "addr \<Rightarrow> addr \<Rightarrow> 64 word \<Rightarrow> kern \<Rightarrow> (kern \<times> 32 word) option" where
  "dev_uart_read fh buf len s =
     (if unat len \<ge> 2 ^ 31 then None else map_option (\<lambda>s1. (s1, ucast len)) (getc_loop buf (unat len) s))"

definition dev_uart_open :: "addr \<Rightarrow> addr \<Rightarrow> kern \<Rightarrow> kern" where
  "dev_uart_open node fh s = set_file (\<lambda>x. x\<lparr>f_vnode := node, fh_ops := Dev_uart_ops\<rparr>) fh s"

definition dev_uart_close :: "addr \<Rightarrow> kern \<Rightarrow> kern option" where
  "dev_uart_close fh s = krelease fh s"

definition dev_uart_op_deny :: "32 word" where "dev_uart_op_deny = -1"

section \<open>The frame buffer\<close>

text \<open>The request: physical and virtual size, offset, depth, pixel order, allocation, pitch.\<close>

definition fb_request :: "32 word list" where
  "fb_request =
     [35 * 4, 0, 0x48003, 8, 8, 1024, 768, 0x48004, 8, 8, 1024, 768, 0x48009, 8, 8, 0, 0, 0x48005, 4, 4, 32,
      0x48006, 4, 4, 1, 0x40001, 8, 8, 4096, 0, 0x40008, 4, 4, 0, 0]"

definition puts :: "string \<Rightarrow> kern \<Rightarrow> kern option" where
  "puts msg s = (case uart_puts (ascii msg) [] (con s) of Inr (Inr c) \<Rightarrow> Some (s\<lparr>con := c\<rparr>) | _ \<Rightarrow> None)"

definition init_dev_framebuffer :: "gpu \<Rightarrow> addr \<Rightarrow> kern \<Rightarrow> (kern \<times> nat) option" where
  "init_dev_framebuffer gpu pt_addr s =
     (case mbox_call gpu MBOX_TAGS_ARM_TO_VC (ucast pt_addr)
         (s\<lparr>pt := (\<lambda>i. if i < length fb_request then fb_request ! i else pt s i)\<rparr>) of
        (s1, ok) \<Rightarrow>
          (case (if ok \<and> pt s1 20 = 32 \<and> pt s1 28 \<noteq> 0 then
               (let s2 = s1\<lparr>pt := (pt s1)(28 := pt s1 28 AND 0x3FFFFFFF)\<rparr>
                in Some (s2\<lparr>fb_width := pt s2 5, fb_height := pt s2 6, fb_pitch := pt s2 33, fb_isrgb := pt s2 24,
                     lfb := PHYS_TO_VIRT (ucast (pt s2 28))\<rparr>))
             else puts (''Unable to set screen resolution to 1024x768x32'' @ [CHR 0x0A]) s1) of
             None \<Rightarrow> None | Some s3 \<Rightarrow> register_dev Dev_framebuffer_ops s3))"

text \<open>The size is a 32-bit product.\<close>

definition fb_size :: "kern \<Rightarrow> 64 word" where
  "fb_size s = ucast (fb_pitch s * fb_height s)"

definition dev_framebuffer_write :: "addr \<Rightarrow> addr \<Rightarrow> 64 word \<Rightarrow> kern \<Rightarrow> (kern \<times> 32 word) option" where
  "dev_framebuffer_write fh buf len s =
     (let s0 = disable_interrupt s; pos = f_pos (files s0 fh) in
      case (if len + pos > fb_size s0 then
              map_option (\<lambda>s1. (s1, fb_size s1 - pos)) (puts (''How come? dev_framebuffer_write to no where!'' @ crnl) s0)
            else Some (s0, len)) of
        None \<Rightarrow> None
      | Some (s1, n) \<Rightarrow>
          Some (enable_interrupt (set_file (\<lambda>x. x\<lparr>f_pos := pos + n\<rparr>) fh (s1\<lparr>bytes := memcpy (lfb s1 + pos) buf n (bytes s1)\<rparr>)), ucast n))"

definition dev_framebuffer_open :: "addr \<Rightarrow> addr \<Rightarrow> kern \<Rightarrow> kern" where
  "dev_framebuffer_open node fh s = set_file (\<lambda>x. x\<lparr>f_pos := 0, f_vnode := node, fh_ops := Dev_framebuffer_ops\<rparr>) fh s"

definition dev_framebuffer_close :: "addr \<Rightarrow> kern \<Rightarrow> kern option" where
  "dev_framebuffer_close fh s = krelease fh s"

definition dev_framebuffer_lseek64 :: "addr \<Rightarrow> 64 word \<Rightarrow> int \<Rightarrow> kern \<Rightarrow> kern \<times> 64 word" where
  "dev_framebuffer_lseek64 fh offset whence s =
     (if whence = 0 then (set_file (\<lambda>x. x\<lparr>f_pos := offset\<rparr>) fh s, offset) else (s, -1))"

definition dev_framebuffer_op_deny :: "32 word" where "dev_framebuffer_op_deny = -1"

end
