(* ===== verification/Vfs.thy ===== *)
theory Vfs
  imports Initramfs Device Path
begin

text \<open>
  The virtual file system \<open>kernel/src/vfs.c\<close>.  A call through an operation table is a case
  distinction on the table.  Paths are strings without their terminator.  The outer \<open>None\<close> is
  undefined behaviour: a buffer overflow, the use of a node that was never set, a call through
  a null pointer.
\<close>

unbundle bit_operations_syntax

definition O_CREAT :: "32 word" where "O_CREAT = 0x40"
definition MAX_FS_REG :: nat where "MAX_FS_REG = 0x50"

section \<open>Registered file systems\<close>

definition register_filesystem :: "filesystem \<Rightarrow> kern \<Rightarrow> kern \<times> int" where
  "register_filesystem fs s =
     (case List.find (\<lambda>i. reg_fs s i = None) [0..<MAX_FS_REG] of None \<Rightarrow> (s, -1)
      | Some i \<Rightarrow> (s\<lparr>reg_fs := (reg_fs s)(i \<mapsto> fs)\<rparr>, int i))"

definition register_tmpfs :: "kern \<Rightarrow> kern \<times> int" where
  "register_tmpfs s = register_filesystem \<lparr>fs_name = ''tmpfs'', fs_setup = Tmpfs_setup_mount\<rparr> s"

definition register_initramfs :: "kern \<Rightarrow> kern \<times> int" where
  "register_initramfs s = register_filesystem \<lparr>fs_name = ''initramfs'', fs_setup = Initramfs_setup_mount\<rparr> s"

text \<open>The search compares with the null name of a free element before it gets to the end.\<close>

primrec find_fs_loop :: "kern \<Rightarrow> string \<Rightarrow> nat \<Rightarrow> nat \<Rightarrow> nat option option" where
  "find_fs_loop s name 0 i = Some None"
| "find_fs_loop s name (Suc n) i =
     (case reg_fs s i of None \<Rightarrow> None
      | Some fs \<Rightarrow> if fs_name fs = name then Some (Some i) else find_fs_loop s name n (i + 1))"

definition find_filesystem :: "string \<Rightarrow> kern \<Rightarrow> nat option option" where
  "find_filesystem name s = find_fs_loop s name MAX_FS_REG 0"

definition setup_mount :: "nat \<Rightarrow> addr \<Rightarrow> kern \<Rightarrow> kern option" where
  "setup_mount fs mnt s =
     (case reg_fs s fs of None \<Rightarrow> None
      | Some f \<Rightarrow> (case fs_setup f of Tmpfs_setup_mount \<Rightarrow> tmpfs_setup_mount fs mnt s
                 | Initramfs_setup_mount \<Rightarrow> initramfs_setup_mount fs mnt s))"

section \<open>Operation tables\<close>

definition node_lookup :: "addr \<Rightarrow> string \<Rightarrow> kern \<Rightarrow> (kern \<times> addr option) option" where
  "node_lookup d name s =
     (case v_ops (vnodes s d) of Tmpfs_vnode_ops \<Rightarrow> tmpfs_lookup d name s
      | Initramfs_vnode_ops \<Rightarrow> initramfs_lookup d name s)"

definition node_create :: "addr \<Rightarrow> string \<Rightarrow> kern \<Rightarrow> (kern \<times> addr option) option" where
  "node_create d name s =
     (case v_ops (vnodes s d) of Tmpfs_vnode_ops \<Rightarrow> tmpfs_create d name s
      | Initramfs_vnode_ops \<Rightarrow> initramfs_create d name s)"

definition node_mkdir :: "addr \<Rightarrow> string \<Rightarrow> kern \<Rightarrow> (kern \<times> addr option) option" where
  "node_mkdir d name s =
     (case v_ops (vnodes s d) of Tmpfs_vnode_ops \<Rightarrow> tmpfs_mkdir d name s
      | Initramfs_vnode_ops \<Rightarrow> initramfs_mkdir d name s)"

definition ops_table :: "kern \<Rightarrow> f_ops_t \<Rightarrow> f_ops_t option" where
  "ops_table s t = (case t of Reg_dev n \<Rightarrow> reg_dev s n | _ \<Rightarrow> Some t)"

definition node_open :: "addr \<Rightarrow> addr \<Rightarrow> kern \<Rightarrow> kern option" where
  "node_open node fh s =
     (case ops_table s (f_ops (vnodes s node)) of None \<Rightarrow> None
      | Some t \<Rightarrow>
          (case t of Tmpfs_file_ops \<Rightarrow> Some (tmpfs_open node fh s)
           | Initramfs_file_ops \<Rightarrow> Some (initramfs_open node fh s)
           | Dev_uart_ops \<Rightarrow> Some (dev_uart_open node fh s)
           | Dev_framebuffer_ops \<Rightarrow> Some (dev_framebuffer_open node fh s)
           | Reg_dev n \<Rightarrow> None))"

text \<open>The \<open>getsize\<close> of the devices is a function of another type.\<close>

definition node_getsize :: "addr \<Rightarrow> kern \<Rightarrow> 64 word option" where
  "node_getsize node s =
     (case ops_table s (f_ops (vnodes s node)) of
        Some Tmpfs_file_ops \<Rightarrow> Some (tmpfs_getsize node s)
      | Some Initramfs_file_ops \<Rightarrow> Some (initramfs_getsize node s)
      | _ \<Rightarrow> None)"

definition vfs_close :: "addr \<Rightarrow> kern \<Rightarrow> kern option" where
  "vfs_close fh s =
     (case ops_table s (fh_ops (files s fh)) of None \<Rightarrow> None
      | Some t \<Rightarrow>
          (case t of Tmpfs_file_ops \<Rightarrow> tmpfs_close fh s
           | Initramfs_file_ops \<Rightarrow> initramfs_close fh s
           | Dev_uart_ops \<Rightarrow> dev_uart_close fh s
           | Dev_framebuffer_ops \<Rightarrow> dev_framebuffer_close fh s
           | Reg_dev n \<Rightarrow> None))"

definition vfs_write :: "addr \<Rightarrow> addr \<Rightarrow> 64 word \<Rightarrow> kern \<Rightarrow> (kern \<times> 32 word) option" where
  "vfs_write fh buf len s =
     (case ops_table s (fh_ops (files s fh)) of None \<Rightarrow> None
      | Some t \<Rightarrow>
          (case t of Tmpfs_file_ops \<Rightarrow> Some (tmpfs_write fh buf len s)
           | Initramfs_file_ops \<Rightarrow> Some (initramfs_write fh buf len s)
           | Dev_uart_ops \<Rightarrow> dev_uart_write fh buf len s
           | Dev_framebuffer_ops \<Rightarrow> dev_framebuffer_write fh buf len s
           | Reg_dev n \<Rightarrow> None))"

definition vfs_read :: "addr \<Rightarrow> addr \<Rightarrow> 64 word \<Rightarrow> kern \<Rightarrow> (kern \<times> 32 word) option" where
  "vfs_read fh buf len s =
     (case ops_table s (fh_ops (files s fh)) of None \<Rightarrow> None
      | Some t \<Rightarrow>
          (case t of Tmpfs_file_ops \<Rightarrow> Some (tmpfs_read fh buf len s)
           | Initramfs_file_ops \<Rightarrow> Some (initramfs_read fh buf len s)
           | Dev_uart_ops \<Rightarrow> dev_uart_read fh buf len s
           | Dev_framebuffer_ops \<Rightarrow> Some (s, dev_framebuffer_op_deny)
           | Reg_dev n \<Rightarrow> None))"

section \<open>Lookup\<close>

text \<open>\<open>while (dirnode->mount) dirnode = dirnode->mount->root\<close>.\<close>

partial_function (option) redirect :: "kern \<Rightarrow> addr \<Rightarrow> addr option" where
  "redirect s d =
     (case v_mount (vnodes s d) of None \<Rightarrow> Some d
      | Some m \<Rightarrow> redirect s (m_root (mounts s m)))"

text \<open>A finished component: the terminator goes to index \<open>length nm\<close> of an array of 16.\<close>

definition vfs_step :: "addr \<Rightarrow> string \<Rightarrow> kern \<Rightarrow> (kern \<times> addr option) option" where
  "vfs_step d nm s =
     (if length nm > MAX_FILE_NAME then None
      else
        (case node_lookup d nm s of None \<Rightarrow> None
         | Some (s1, None) \<Rightarrow> Some (s1, None)
         | Some (s1, Some v) \<Rightarrow> map_option (\<lambda>w. (s1, Some w)) (redirect s1 v)))"

fun lookup_loop :: "string \<Rightarrow> addr \<Rightarrow> string \<Rightarrow> kern \<Rightarrow> (kern \<times> addr option) option" where
  "lookup_loop [] d nm s = vfs_step d nm s"
| "lookup_loop (c # cs) d nm s =
     (if c = slash then
        (case vfs_step d nm s of None \<Rightarrow> None
         | Some (s1, None) \<Rightarrow> Some (s1, None)
         | Some (s1, Some d') \<Rightarrow> lookup_loop cs d' [] s1)
      else if length nm > MAX_FILE_NAME then None
      else lookup_loop cs d (nm @ [c]) s)"

definition fs_root :: "kern \<Rightarrow> addr" where
  "fs_root s = m_root (mounts s (rootfs s))"

definition vfs_lookup :: "string \<Rightarrow> kern \<Rightarrow> (kern \<times> addr option) option" where
  "vfs_lookup pathname s =
     (if pathname = [] then Some (s, Some (fs_root s))
      else lookup_loop (tl pathname) (fs_root s) [] s)"

section \<open>Opening, creating and mounting\<close>

definition last_slash :: "string \<Rightarrow> nat" where
  "last_slash p = foldl (\<lambda>k i. if p ! i = slash then i else k) 0 [0..<length p]"

text \<open>A new handle: \<open>Some\<close> of its address is the value stored through \<open>target\<close>.\<close>

definition open_node :: "addr \<Rightarrow> 32 word \<Rightarrow> kern \<Rightarrow> (kern \<times> addr option) option" where
  "open_node node flags s =
     (case knew FILE_SIZE s of None \<Rightarrow> None
      | Some (s1, fh) \<Rightarrow>
          (case node_open node fh s1 of None \<Rightarrow> None
           | Some s2 \<Rightarrow> Some (set_file (\<lambda>x. x\<lparr>f_flags := flags\<rparr>) fh s2, Some fh)))"

text \<open>The result of \<open>create\<close> is not looked at: when it fails, \<open>node\<close> is still the directory.\<close>

definition vfs_open :: "string \<Rightarrow> 32 word \<Rightarrow> kern \<Rightarrow> (kern \<times> addr option) option" where
  "vfs_open pathname flags s =
     (case vfs_lookup pathname s of None \<Rightarrow> None
      | Some (s1, Some node) \<Rightarrow> open_node node flags s1
      | Some (s1, None) \<Rightarrow>
          if flags AND O_CREAT = 0 then None
          else if length pathname > MAX_PATH_NAME then None
          else
            (let k = last_slash pathname; s2 = klog (''[vfs] OCREATE flag is specified'' @ crnl) s1 in
             case vfs_lookup (take k pathname) s2 of None \<Rightarrow> None
             | Some (s3, None) \<Rightarrow> Some (klog (''cannot ocreate no dir name'' @ crnl) s3, None)
             | Some (s3, Some dir) \<Rightarrow>
                 (case node_create dir (drop (k + 1) pathname) s3 of None \<Rightarrow> None
                  | Some (s4, r) \<Rightarrow> open_node (case r of None \<Rightarrow> dir | Some v \<Rightarrow> v) flags s4)))"

definition vfs_mkdir :: "string \<Rightarrow> kern \<Rightarrow> (kern \<times> int) option" where
  "vfs_mkdir pathname s =
     (let k = last_slash pathname in
      if pathname = [] \<or> k \<ge> MAX_PATH_NAME \<or> length pathname - (k + 1) \<ge> MAX_PATH_NAME then None
      else
        (case vfs_lookup (take k pathname) s of None \<Rightarrow> None
         | Some (s1, None) \<Rightarrow> Some (klog (''[vfs] vfs_mkdir cannot find old directory'' @ crnl) s1, -1)
         | Some (s1, Some dir) \<Rightarrow> map_option (\<lambda>(s2, r). (s2, 0)) (node_mkdir dir (drop (k + 1) pathname) s1)))"

definition vfs_mount :: "string \<Rightarrow> string \<Rightarrow> kern \<Rightarrow> (kern \<times> int) option" where
  "vfs_mount target filesystem s =
     (case find_filesystem filesystem s of None \<Rightarrow> None
      | Some None \<Rightarrow> Some (klog (''[vfs] vfs_mount cannot find filesystem'' @ crnl) s, -1)
      | Some (Some fs) \<Rightarrow>
          (case vfs_lookup target s of None \<Rightarrow> None
           | Some (s1, None) \<Rightarrow> Some (klog (''[vfs] vfs_mount cannot find target directory'' @ crnl) s1, -1)
           | Some (s1, Some dirnode) \<Rightarrow>
               (case knew MOUNT_SIZE s1 of None \<Rightarrow> None
                | Some (s2, m) \<Rightarrow>
                    map_option (\<lambda>s3. (s3, 0)) (setup_mount fs m (set_vnode (\<lambda>x. x\<lparr>v_mount := Some m\<rparr>) dirnode s2)))))"

text \<open>The handle allocated first is lost.\<close>

definition vfs_mknod :: "string \<Rightarrow> nat \<Rightarrow> kern \<Rightarrow> kern option" where
  "vfs_mknod pathname dev s =
     (case kalloc FILE_SIZE s of None \<Rightarrow> None
      | Some (s1, f0) \<Rightarrow>
          (case vfs_open pathname O_CREAT s1 of None \<Rightarrow> None
           | Some (s2, None) \<Rightarrow> None
           | Some (s2, Some f) \<Rightarrow> vfs_close f (set_vnode (\<lambda>x. x\<lparr>f_ops := Reg_dev dev\<rparr>) (f_vnode (files s2 f)) s2)))"

definition init_rootfs :: "gpu \<Rightarrow> addr \<Rightarrow> kern \<Rightarrow> kern option" where
  "init_rootfs gpu pt_addr s =
     (case register_tmpfs s of (s1, idx) \<Rightarrow> if idx < 0 then None else
      case knew MOUNT_SIZE s1 of None \<Rightarrow> None | Some (s2, r) \<Rightarrow>
      case setup_mount (nat idx) r (s2\<lparr>rootfs := r\<rparr>) of None \<Rightarrow> None | Some s3 \<Rightarrow>
      case vfs_mkdir ''/initramfs'' s3 of None \<Rightarrow> None | Some (s4, _) \<Rightarrow>
      case vfs_mount ''/initramfs'' ''initramfs'' (fst (register_initramfs s4)) of None \<Rightarrow> None | Some (s5, _) \<Rightarrow>
      case vfs_mkdir ''/dev'' s5 of None \<Rightarrow> None | Some (s6, _) \<Rightarrow>
      case init_dev_uart s6 of None \<Rightarrow> None | Some (s7, uart_id) \<Rightarrow>
      case vfs_mknod ''/dev/uart'' uart_id s7 of None \<Rightarrow> None | Some s8 \<Rightarrow>
      case init_dev_framebuffer gpu pt_addr s8 of None \<Rightarrow> None | Some (s9, framebuffer_id) \<Rightarrow>
      vfs_mknod ''/dev/framebuffer'' framebuffer_id s9)"

end
