(* ===== verification/Vfs_Inv.thy ===== *)
theory Vfs_Inv
  imports Vfs Tmpfs_Inv Mmap
begin

text \<open>
  The file system as a map from paths to nodes.  The interface of a directory is a locale: what a
  lookup returns in terms of the directory's entries; both file systems provide it, and so does
  the dispatch on the operation table.  \<open>vfs_lookup\<close>, a loop over characters, is a walk over
  components.
\<close>

section \<open>The interface of a directory\<close>

locale directory =
  fixes entry :: "kern \<Rightarrow> addr \<Rightarrow> string \<Rightarrow> addr option"
    and lookup :: "addr \<Rightarrow> string \<Rightarrow> kern \<Rightarrow> (kern \<times> addr option) option"
    and printable :: "kern \<Rightarrow> addr \<Rightarrow> string \<Rightarrow> bool"
  assumes hit: "entry s d n = Some v \<Longrightarrow> lookup d n s = Some (s, Some v)"
    and miss: "entry s d n = None \<Longrightarrow> printable s d n \<Longrightarrow> \<exists>s'. lookup d n s = Some (s', None) \<and> same_but_con s s'"
begin

lemma answers:
  assumes "printable s d n"
  shows "\<exists>s'. lookup d n s = Some (s', entry s d n) \<and> same_but_con s s'"
  by (cases "entry s d n") (use miss[OF _ assms] hit same_but_con_refl in auto)

lemma hit_iff:
  assumes "printable s d n"
  shows "(\<exists>s'. lookup d n s = Some (s', Some v)) \<longleftrightarrow> entry s d n = Some v"
  using answers[OF assms] hit by force

end

definition good_name :: "string \<Rightarrow> bool" where
  "good_name n \<longleftrightarrow> CHR ''%'' \<notin> set n \<and> slash \<notin> set n \<and> length n \<le> MAX_FILE_NAME"

lemma ascii_percent: "CHR ''%'' \<notin> set n \<Longrightarrow> 0x25 \<notin> set (ascii n)"
proof
  assume n: "CHR ''%'' \<notin> set n" and "0x25 \<in> set (ascii n)"
  then obtain c where c: "c \<in> set n" "(of_nat (of_char c) :: 8 word) = 0x25" by (auto simp: ascii_def)
  have "(of_char c :: nat) < 256" using of_char_mod_256[of c, where 'a = nat] by (metis mod_less_divisor zero_less_numeral)
  then have "unat (of_nat (of_char c) :: 8 word) = of_char c" by (simp add: unat_of_nat take_bit_nat_eq_self)
  then have "(of_char c :: nat) = of_char (CHR ''%'')" using c(2) by simp
  then have "c = CHR ''%''" by (simp only: of_char_eq_iff)
  with c n show False by simp
qed

lemma klog_text_ok:
  assumes "CHR ''%'' \<notin> set n" "length n \<le> 240"
  shows "\<exists>s'. klog_text n s = Some s' \<and> same_but_con s s'"
proof -
  have "vsprintf (ascii n) [] = Inr (ascii n)"
    using vsprintf_plain_loop[of "ascii n" "[]" "[]"] ascii_percent[OF assms(1)] assms(2)
    by (simp add: vsprintf_def ascii_def)
  then show ?thesis by (auto simp: klog_text_def uart_sendline_def same_but_con_def)
qed

definition tmpfs_entry :: "kern \<Rightarrow> addr \<Rightarrow> string \<Rightarrow> addr option" where
  "tmpfs_entry s d n = fst (tmpfs_scan s d n)"

definition initramfs_entry :: "kern \<Rightarrow> addr \<Rightarrow> string \<Rightarrow> addr option" where
  "initramfs_entry s d n = fst (initramfs_scan s d n)"

interpretation td: directory tmpfs_entry tmpfs_lookup "\<lambda>s d n. good_name n"
proof unfold_locales
  fix s d n v
  show "tmpfs_entry s d n = Some v \<Longrightarrow> tmpfs_lookup d n s = Some (s, Some v)"
    by (simp add: tmpfs_entry_def tmpfs_lookup_def)
  assume e: "tmpfs_entry s d n = None" and g: "good_name n"
  let ?s = "klog ''[tmpfs] tmpfs lookup \"does not\" found '' s"
  obtain s1 where s1: "klog_text n ?s = Some s1" "same_but_con ?s s1"
    using klog_text_ok[of n ?s] g by (auto simp: good_name_def MAX_FILE_NAME_def)
  have "same_but_con s (klog crnl s1)"
    by (rule same_but_con_trans[OF klog_same(1) same_but_con_trans[OF s1(2) klog_same(1)]])
  then show "\<exists>s'. tmpfs_lookup d n s = Some (s', None) \<and> same_but_con s s'"
    using e s1(1) by (simp add: tmpfs_entry_def tmpfs_lookup_def)
qed

text \<open>In the read-only file system a miss prints the directory's name.\<close>

definition named_dir :: "kern \<Rightarrow> addr \<Rightarrow> bool" where
  "named_dir s d \<longleftrightarrow> r_name (rinode_of s d) \<noteq> 0 \<and>
     (\<exists>nm. get_text (bytes s) (r_name (rinode_of s d)) = Some nm \<and> 0x25 \<notin> set nm \<and> length nm \<le> 240)"

interpretation rd: directory initramfs_entry initramfs_lookup "\<lambda>s d n. good_name n \<and> named_dir s d"
proof unfold_locales
  fix s d n v
  show "initramfs_entry s d n = Some v \<Longrightarrow> initramfs_lookup d n s = Some (s, Some v)"
    by (simp add: initramfs_entry_def initramfs_lookup_def)
  assume e: "initramfs_entry s d n = None" and g: "good_name n \<and> named_dir s d"
  let ?s = "klog ''[initramfs] initramfs lookup \"does not\" found '' s"
  obtain s1 where s1: "klog_text n ?s = Some s1" "same_but_con ?s s1"
    using klog_text_ok[of n ?s] g by (auto simp: good_name_def MAX_FILE_NAME_def)
  obtain nm where nm: "get_text (bytes s) (r_name (rinode_of s d)) = Some nm" "0x25 \<notin> set nm" "length nm \<le> 240"
    "r_name (rinode_of s d) \<noteq> 0" using g by (auto simp: named_dir_def)
  have "vsprintf nm [] = Inr nm" using vsprintf_plain_loop[of nm "[]" "[]"] nm by (simp add: vsprintf_def)
  then obtain c where "uart_sendline nm [] (con (klog '' in '' s1)) = Inr c" by (simp add: uart_sendline_def)
  moreover have "same_but_con s (klog crnl (s1\<lparr>con := c\<rparr>))"
    by (rule same_but_con_trans[OF klog_same(1) same_but_con_trans[OF s1(2) same_but_con_trans[OF _ klog_same(1)]]])
      (auto simp: same_but_con_def)
  ultimately show "\<exists>s'. initramfs_lookup d n s = Some (s', None) \<and> same_but_con s s'"
    using e s1(1) nm by (simp add: initramfs_entry_def initramfs_lookup_def)
qed

definition child :: "kern \<Rightarrow> addr \<Rightarrow> string \<Rightarrow> addr option" where
  "child s d n = (case v_ops (vnodes s d) of Tmpfs_vnode_ops \<Rightarrow> tmpfs_entry s d n | Initramfs_vnode_ops \<Rightarrow> initramfs_entry s d n)"

definition printable_miss :: "kern \<Rightarrow> addr \<Rightarrow> string \<Rightarrow> bool" where
  "printable_miss s d n \<longleftrightarrow> good_name n \<and> (v_ops (vnodes s d) = Initramfs_vnode_ops \<longrightarrow> named_dir s d)"

interpretation nd: directory child node_lookup printable_miss
  by unfold_locales
    (auto simp: child_def node_lookup_def printable_miss_def split: v_ops_t.splits intro: td.hit rd.hit td.miss rd.miss)

section \<open>Walks\<close>

fun walk :: "kern \<Rightarrow> addr \<Rightarrow> string list \<Rightarrow> addr option" where
  "walk s d [] = Some d"
| "walk s d (c # cs) =
     (case child s d c of None \<Rightarrow> None
      | Some v \<Rightarrow> (case redirect s v of None \<Rightarrow> None | Some w \<Rightarrow> walk s w cs))"

text \<open>A path that leads to no node because of a missing entry.\<close>

fun dead_end :: "kern \<Rightarrow> addr \<Rightarrow> string list \<Rightarrow> bool" where
  "dead_end s d [] = False"
| "dead_end s d (c # cs) =
     (case child s d c of None \<Rightarrow> printable_miss s d c
      | Some v \<Rightarrow> (case redirect s v of None \<Rightarrow> False | Some w \<Rightarrow> dead_end s w cs))"

definition short :: "string list \<Rightarrow> bool" where
  "short cs \<longleftrightarrow> (\<forall>c \<in> set cs. length c \<le> MAX_FILE_NAME)"

text \<open>The characters of the component that is being collected come first.\<close>

lemma lookup_loop_walk:
  "slash \<notin> set nm \<Longrightarrow> walk s d (components (nm @ cs)) = Some w \<Longrightarrow> short (components (nm @ cs)) \<Longrightarrow>
    lookup_loop cs d nm s = Some (s, Some w)"
proof (induction cs d nm s rule: lookup_loop.induct)
  case (1 d nm s)
  then show ?case
    by (auto simp: components_single vfs_step_def short_def split: option.splits dest: nd.hit)
next
  case (2 c cs d nm s)
  show ?case
  proof (cases "c = slash")
    case True
    then have e: "components (nm @ c # cs) = nm # components cs" using 2 by (simp add: components_append)
    then obtain v w' where v: "child s d nm = Some v" "redirect s v = Some w'" "walk s w' (components cs) = Some w"
      using "2.prems" by (auto split: option.splits)
    have vs: "vfs_step d nm s = Some (s, Some w')"
      using v nd.hit[OF v(1)] "2.prems"(3) e by (simp add: vfs_step_def short_def)
    then show ?thesis using "2.IH"(1)[OF True vs refl refl] vs v(3) "2.prems"(3) e True by (simp add: short_def)
  next
    case False
    have sl: "slash \<notin> set (nm @ [c])" using "2.prems"(1) False by simp
    obtain x xs where x: "components cs = x # xs" by (meson components_nonempty list.exhaust)
    have "components (nm @ c # cs) = (nm @ c # x) # xs" using sl False
    proof (induction nm)
      case (Cons a nm) then show ?case by auto
    qed (simp add: x)
    then have "\<not> length nm > MAX_FILE_NAME" using "2.prems"(3) by (simp add: short_def)
    then show ?thesis using "2.IH"(2)[OF False _ sl] "2.prems" False by simp
  qed
qed

lemma vfs_lookup_hit:
  assumes "walk s (fs_root s) cs = Some w" "plain cs" "short cs"
  shows "vfs_lookup (render cs) s = Some (s, Some w)"
proof (cases cs)
  case (Cons c cs')
  then have "render cs \<noteq> []" "components (tl (render cs)) = cs" using assms(2) components_of_render[of cs] by (auto simp: render_def)
  then show ?thesis using lookup_loop_walk[of "[]" s "fs_root s" "tl (render cs)" w] assms by (simp add: vfs_lookup_def)
qed (use assms in \<open>simp add: vfs_lookup_def render_def\<close>)

lemma lookup_loop_dead:
  "slash \<notin> set nm \<Longrightarrow> dead_end s d (components (nm @ cs)) \<Longrightarrow> short (components (nm @ cs)) \<Longrightarrow>
    \<exists>s'. lookup_loop cs d nm s = Some (s', None) \<and> same_but_con s s'"
proof (induction cs d nm s rule: lookup_loop.induct)
  case (1 d nm s)
  then show ?case using nd.miss[of s d nm]
    by (auto simp: components_single vfs_step_def short_def split: option.splits)
next
  case (2 c cs d nm s)
  show ?case
  proof (cases "c = slash")
    case True
    then have e: "components (nm @ c # cs) = nm # components cs" using 2 by (simp add: components_append)
    show ?thesis
    proof (cases "child s d nm")
      case None
      then obtain s' where "node_lookup d nm s = Some (s', None)" "same_but_con s s'"
        using nd.miss[of s d nm] "2.prems"(2) e by auto
      then show ?thesis using True "2.prems"(3) e by (simp add: vfs_step_def short_def)
    next
      case (Some v)
      then obtain w' where w: "redirect s v = Some w'" "dead_end s w' (components cs)"
        using "2.prems"(2) e by (auto split: option.splits)
      have vs: "vfs_step d nm s = Some (s, Some w')"
        using w nd.hit[OF Some] "2.prems"(3) e by (simp add: vfs_step_def short_def)
      then show ?thesis using "2.IH"(1)[OF True vs refl refl] w(2) "2.prems"(3) e True by (simp add: short_def)
    qed
  next
    case False
    have sl: "slash \<notin> set (nm @ [c])" using "2.prems"(1) False by simp
    obtain x xs where x: "components cs = x # xs" by (meson components_nonempty list.exhaust)
    have "components (nm @ c # cs) = (nm @ c # x) # xs" using sl False
    proof (induction nm)
      case (Cons a nm) then show ?case by auto
    qed (simp add: x)
    then have "\<not> length nm > MAX_FILE_NAME" using "2.prems"(3) by (simp add: short_def)
    then show ?thesis using "2.IH"(2)[OF False _ sl] "2.prems" False by simp
  qed
qed

lemma vfs_lookup_miss:
  assumes "dead_end s (fs_root s) cs" "plain cs" "short cs"
  shows "\<exists>s'. vfs_lookup (render cs) s = Some (s', None) \<and> same_but_con s s'"
proof (cases cs)
  case (Cons c cs')
  then have "render cs \<noteq> []" "components (tl (render cs)) = cs" using assms(2) components_of_render[of cs] by (auto simp: render_def)
  then show ?thesis using lookup_loop_dead[of "[]" s "fs_root s" "tl (render cs)"] assms by (simp add: vfs_lookup_def)
qed (use assms in simp)

section \<open>The invariant\<close>

text \<open>\<open>N\<close> is a set of nodes closed under entries and mounts, all of them live blocks; entries have
  no gaps, no two nodes share an inode, and no node has two paths.\<close>

definition node_ok :: "kern \<Rightarrow> addr set \<Rightarrow> addr \<Rightarrow> bool" where
  "node_ok s N d \<longleftrightarrow> d \<in> kblocks s \<and> internal (vnodes s d) \<in> kblocks s \<and>
     (\<forall>m. v_mount (vnodes s d) = Some m \<longrightarrow> m \<in> kblocks s \<and> m_root (mounts s m) \<in> N) \<and>
     (v_ops (vnodes s d) = Tmpfs_vnode_ops \<longrightarrow>
        (\<forall>i v. i_entry (inode_of s d) i = Some v \<longrightarrow> v \<in> N \<and> v_ops (vnodes s v) = Tmpfs_vnode_ops) \<and>
        (\<forall>i j. i_entry (inode_of s d) i = None \<longrightarrow> i \<le> j \<longrightarrow> i_entry (inode_of s d) j = None) \<and>
        (\<forall>e \<in> N. internal (vnodes s e) = internal (vnodes s d) \<longrightarrow> e = d)) \<and>
     (v_ops (vnodes s d) = Initramfs_vnode_ops \<longrightarrow>
        (\<forall>i v. r_entry (rinode_of s d) i = Some v \<longrightarrow> v \<in> N \<and> v_ops (vnodes s v) = Initramfs_vnode_ops))"

definition one_path :: "kern \<Rightarrow> bool" where
  "one_path s \<longleftrightarrow> (\<forall>p q w. walk s (fs_root s) p = Some w \<longrightarrow> walk s (fs_root s) q = Some w \<longrightarrow> p = q)"

definition fs_ok :: "kern \<Rightarrow> addr set \<Rightarrow> bool" where
  "fs_ok s N \<longleftrightarrow> heap_ok s \<and> rootfs s \<in> kblocks s \<and> fs_root s \<in> N \<and> (\<forall>d \<in> N. node_ok s N d) \<and> one_path s"

lemma node_okD:
  assumes "node_ok s N d"
  shows "d \<in> kblocks s" "internal (vnodes s d) \<in> kblocks s"
    "v_mount (vnodes s d) = Some m \<Longrightarrow> m \<in> kblocks s" "v_mount (vnodes s d) = Some m \<Longrightarrow> m_root (mounts s m) \<in> N"
    "v_ops (vnodes s d) = Tmpfs_vnode_ops \<Longrightarrow> i_entry (inode_of s d) i = Some v \<Longrightarrow> v \<in> N"
    "v_ops (vnodes s d) = Tmpfs_vnode_ops \<Longrightarrow> i_entry (inode_of s d) i = Some v \<Longrightarrow> v_ops (vnodes s v) = Tmpfs_vnode_ops"
    "v_ops (vnodes s d) = Tmpfs_vnode_ops \<Longrightarrow> i_entry (inode_of s d) i = None \<Longrightarrow> i \<le> j \<Longrightarrow> i_entry (inode_of s d) j = None"
    "v_ops (vnodes s d) = Tmpfs_vnode_ops \<Longrightarrow> e \<in> N \<Longrightarrow> internal (vnodes s e) = internal (vnodes s d) \<Longrightarrow> e = d"
    "v_ops (vnodes s d) = Initramfs_vnode_ops \<Longrightarrow> r_entry (rinode_of s d) i = Some v \<Longrightarrow> v \<in> N"
  using assms unfolding node_ok_def by blast+

lemma child_in:
  assumes "node_ok s N d" "child s d n = Some v"
  shows "v \<in> N"
proof (cases "v_ops (vnodes s d)")
  case Tmpfs_vnode_ops
  then have "fst (tmpfs_scan s d n) = Some v" using assms(2) by (simp add: child_def tmpfs_entry_def)
  from scan_entries_found[OF this[unfolded tmpfs_scan_def]] node_okD(5)[OF assms(1) Tmpfs_vnode_ops] show ?thesis by blast
next
  case Initramfs_vnode_ops
  then have "fst (initramfs_scan s d n) = Some v" using assms(2) by (simp add: child_def initramfs_entry_def)
  from scan_entries_found[OF this[unfolded initramfs_scan_def]] node_okD(9)[OF assms(1) Initramfs_vnode_ops] show ?thesis by blast
qed

text \<open>Two states that agree on the mounts of \<open>N\<close> redirect alike there.\<close>

lemma redirect_agree:
  assumes r: "redirect s v = Some w"
    and N: "\<And>d. d \<in> N \<Longrightarrow> v_mount (vnodes s' d) = v_mount (vnodes s d)"
      "\<And>d m. d \<in> N \<Longrightarrow> v_mount (vnodes s d) = Some m \<Longrightarrow> m_root (mounts s m) \<in> N \<and> m_root (mounts s' m) = m_root (mounts s m)"
  shows "v \<in> N \<Longrightarrow> w \<in> N \<and> redirect s' v = Some w"
proof -
  have "s = s \<longrightarrow> v \<in> N \<longrightarrow> w \<in> N \<and> redirect s' v = Some w"
  proof (rule redirect.raw_induct[of "\<lambda>t v w. t = s \<longrightarrow> v \<in> N \<longrightarrow> w \<in> N \<and> redirect s' v = Some w", rotated])
    show "redirect s v = Some w" by (rule r)
  next
    fix f t d r
    assume IH: "\<And>t d r. f t d = Some r \<Longrightarrow> t = s \<longrightarrow> d \<in> N \<longrightarrow> r \<in> N \<and> redirect s' d = Some r"
      and e: "(case v_mount (vnodes t d) of None \<Rightarrow> Some d | Some m \<Rightarrow> f t (m_root (mounts t m))) = Some r"
    show "t = s \<longrightarrow> d \<in> N \<longrightarrow> r \<in> N \<and> redirect s' d = Some r"
    proof (intro impI)
      assume t: "t = s" and d: "d \<in> N"
      show "r \<in> N \<and> redirect s' d = Some r"
      proof (cases "v_mount (vnodes s d)")
        case None
        then show ?thesis using e t d N(1)[OF d] by (subst redirect.simps) simp
      next
        case (Some m)
        note m = N(2)[OF d Some]
        have "f s (m_root (mounts s m)) = Some r" using e t Some by simp
        from IH[OF this] m have "r \<in> N \<and> redirect s' (m_root (mounts s m)) = Some r" by simp
        then show ?thesis using m N(1)[OF d] Some by (subst redirect.simps) simp
      qed
    qed
  qed
  then show "v \<in> N \<Longrightarrow> w \<in> N \<and> redirect s' v = Some w" by simp
qed

lemma redirect_in: "\<forall>d \<in> N. node_ok s N d \<Longrightarrow> v \<in> N \<Longrightarrow> redirect s v = Some w \<Longrightarrow> w \<in> N"
  using redirect_agree[of s v w N s] node_okD(4) by blast

lemma redirect_same:
  assumes ok: "\<forall>d \<in> N. node_ok s N d" and v: "v \<in> N"
    and N: "\<And>d. d \<in> N \<Longrightarrow> v_mount (vnodes s' d) = v_mount (vnodes s d)"
      "\<And>d m. d \<in> N \<Longrightarrow> v_mount (vnodes s d) = Some m \<Longrightarrow> m_root (mounts s' m) = m_root (mounts s m)"
  shows "redirect s' v = redirect s v"
proof -
  have c: "m_root (mounts s m) \<in> N" if "d \<in> N" "v_mount (vnodes s d) = Some m" for d m
    using ok that node_okD(4) by blast
  have 1: "redirect s' v = Some w" if "redirect s v = Some w" for w
    using redirect_agree[OF that, of N s'] N c v by blast
  have 2: "redirect s v = Some w" if "redirect s' v = Some w" for w
    using redirect_agree[OF that, of N s] N c v by (metis (no_types))
  show ?thesis using 1 2 by (cases "redirect s v"; cases "redirect s' v") auto
qed

section \<open>A new entry\<close>

lemma walk_in:
  assumes ok: "\<forall>d \<in> N. node_ok s N d"
  shows "d \<in> N \<Longrightarrow> walk s d q = Some w \<Longrightarrow> w \<in> N"
proof (induction q arbitrary: d)
  case (Cons c q)
  then obtain v u where v: "child s d c = Some v" "redirect s v = Some u" "walk s u q = Some w" by (auto split: option.splits)
  have "v \<in> N" using child_in[OF _ v(1)] ok Cons.prems(1) by blast
  then have "u \<in> N" using redirect_in[OF ok _ v(2)] by blast
  then show ?case using Cons.IH v(3) by blast
qed simp

lemma walk_snoc: "walk s d (q @ [c]) =
    (case walk s d q of None \<Rightarrow> None | Some u \<Rightarrow> (case child s u c of None \<Rightarrow> None | Some v \<Rightarrow> redirect s v))"
  by (induction q arbitrary: d) (auto split: option.splits)

text \<open>One more entry \<open>n\<close> in the directory \<open>d\<close>, a leaf \<open>v\<close>: exactly the paths to \<open>d\<close> get an extension.\<close>

lemma walk_extend:
  assumes ok: "\<forall>d \<in> N. node_ok s N d" and new: "child s d n = None"
    and ch: "\<And>x c. x \<in> N \<Longrightarrow> child s' x c = (if x = d \<and> c = n then Some v else child s x c)"
    and leaf: "redirect s' v = Some v" "\<And>c. child s' v c = None"
    and red: "\<And>x. x \<in> N \<Longrightarrow> redirect s' x = redirect s x"
  shows "e \<in> N \<Longrightarrow> walk s' e q = (if \<exists>r. q = r @ [n] \<and> walk s e r = Some d then Some v else walk s e q)"
proof (induction q arbitrary: e)
  case (Cons c q)
  show ?case
  proof (cases "e = d \<and> c = n")
    case True
    then have w: "walk s' e (c # q) = walk s' v q" using ch[OF Cons.prems] leaf(1) by simp
    show ?thesis
    proof (cases q)
      case Nil
      then have "\<exists>r. c # q = r @ [n] \<and> walk s e r = Some d" using True by (intro exI[of _ "[]"]) simp
      then show ?thesis using w Nil by simp
    next
      case (Cons a q')
      have "walk s e (c # q) = None" using True new by simp
      moreover have "walk s e r \<noteq> Some d" if "c # q = r @ [n]" for r
        using that True new Cons by (cases r) auto
      ultimately show ?thesis using w Cons leaf(2) by auto
    qed
  next
    case False
    then have c: "child s' e c = child s e c" using ch[OF Cons.prems, of c] by auto
    show ?thesis
    proof (cases "child s e c")
      case None
      have "walk s e r \<noteq> Some d" if "c # q = r @ [n]" for r
        using that False None by (cases r) auto
      then show ?thesis using c None by auto
    next
      case (Some x)
      have x: "x \<in> N" using child_in[OF _ Some] ok Cons.prems by blast
      show ?thesis
      proof (cases "redirect s x")
        case None
        have "walk s e r \<noteq> Some d" if "c # q = r @ [n]" for r
          using that False None Some by (cases r) auto
        then show ?thesis using c Some None red[OF x] by auto
      next
        case r: (Some u)
        have u: "u \<in> N" by (rule redirect_in[OF ok x r])
        have "(\<exists>r. c # q = r @ [n] \<and> walk s e r = Some d) \<longleftrightarrow> (\<exists>r. q = r @ [n] \<and> walk s u r = Some d)"
        proof
          assume "\<exists>r. c # q = r @ [n] \<and> walk s e r = Some d"
          then obtain r' where r': "c # q = r' @ [n]" "walk s e r' = Some d" by blast
          then obtain r'' where "r' = c # r''" using False by (cases r') auto
          then show "\<exists>r. q = r @ [n] \<and> walk s u r = Some d" using r' Some r by auto
        next
          assume "\<exists>r. q = r @ [n] \<and> walk s u r = Some d"
          then obtain r' where "q = r' @ [n]" "walk s u r' = Some d" by blast
          then show "\<exists>r. c # q = r @ [n] \<and> walk s e r = Some d" using Some r by (intro exI[of _ "c # r'"]) simp
        qed
        moreover have "walk s' e (c # q) = walk s' u q" "walk s e (c # q) = walk s u q"
          using c Some r red[OF x] by simp_all
        ultimately show ?thesis by (simp only: Cons.IH[OF u])
      qed
    qed
  qed
qed simp

lemma scan_entries_none:
  "scan_entries same e m k = (None, j) \<Longrightarrow> j \<le> k + m \<and> (j < k + m \<longrightarrow> e j = None) \<and> (\<forall>i. k \<le> i \<longrightarrow> i < j \<longrightarrow> e i \<noteq> None)"
proof (induction m arbitrary: k)
  case (Suc m)
  show ?case
  proof (cases "e k")
    case (Some v)
    then have "\<not> same v" "scan_entries same e m (k + 1) = (None, j)" using Suc.prems by (auto split: if_splits)
    with Suc.IH[of "k + 1"] have j: "j \<le> k + 1 + m" "j < k + 1 + m \<longrightarrow> e j = None" "\<forall>i. k + 1 \<le> i \<longrightarrow> i < j \<longrightarrow> e i \<noteq> None" by auto
    have "e i \<noteq> None" if "k \<le> i" "i < j" for i
      using that j(3) Some by (cases "i = k") auto
    then show ?thesis using j by auto
  qed (use Suc.prems in auto)
qed auto

text \<open>The state after \<open>tmpfs_create\<close> or \<open>tmpfs_mkdir\<close> has put a node into a directory.\<close>

definition added :: "fsnode_type \<Rightarrow> addr \<Rightarrow> string \<Rightarrow> addr \<Rightarrow> nat \<Rightarrow> addr \<Rightarrow> addr \<Rightarrow> kern \<Rightarrow> kern" where
  "added ty d n v j i dat s = s\<lparr>vnodes := (vnodes s)(v := new_vnode Tmpfs_vnode_ops Tmpfs_file_ops i),
     inodes := (inodes s)(i := (empty_inode ty)\<lparr>i_data := dat, i_name := n\<rparr>,
       internal (vnodes s d) := (inode_of s d)\<lparr>i_entry := (i_entry (inode_of s d))(j := Some v)\<rparr>)\<rparr>"

lemma tmpfs_add_result:
  assumes ok: "heap_ok s" and rm: "roomy (3 + k) s" and d: "d \<in> kblocks s" "internal (vnodes s d) \<in> kblocks s"
    and ty: "i_type (inode_of s d) = dir_t" and sc: "tmpfs_scan s d n = (None, j)" "j \<noteq> MAX_DIR_ENTRY"
    and n: "length n \<le> MAX_FILE_NAME"
  obtains s' v i dat where "tmpfs_add ty' e1 e2 d n s = Some (s', Some v)" "heap_ok s'" "roomy k s'"
    "v \<notin> kblocks s" "i \<notin> kblocks s" "dat \<notin> kblocks s" "i \<noteq> v" "dat \<noteq> v" "dat \<noteq> i" "kblocks s' = insert dat (insert i (insert v (kblocks s)))"
    "quiet s' = quiet (added ty' d n v j i dat s)" "con s' = con s" "bytes_from dat 0x1000 \<subseteq> kextent s' dat"
    "\<forall>b \<in> kblocks s. kextent s' b = kextent s b"
proof -
  obtain s1 v i dat where s1: "tmpfs_create_vnode ty' s = Some (s1, v)" "heap_ok s1" "roomy k s1"
    "v \<notin> kblocks s" "i \<notin> kblocks s" "dat \<notin> kblocks s" "i \<noteq> v" "dat \<noteq> v" "dat \<noteq> i" "kblocks s1 = insert dat (insert i (insert v (kblocks s)))"
    "quiet s1 = quiet (s\<lparr>vnodes := (vnodes s)(v := new_vnode Tmpfs_vnode_ops Tmpfs_file_ops i),
       inodes := (inodes s)(i := (empty_inode ty')\<lparr>i_data := dat\<rparr>)\<rparr>)"
    "con s1 = con s" "bytes_from dat 0x1000 \<subseteq> kextent s1 dat" "\<forall>b \<in> kblocks s. kextent s1 b = kextent s b"
    by (rule tmpfs_create_vnode_spec[OF ok rm, of ty'])
  let ?di = "internal (vnodes s d)"
  let ?s2 = "set_inode (\<lambda>x. x\<lparr>i_entry := (i_entry x)(j := Some v)\<rparr>) ?di s1"
  let ?s3 = "set_inode (\<lambda>x. x\<lparr>i_name := n\<rparr>) (internal (vnodes ?s2 v)) ?s2"
  have f1: "vnodes s1 = (vnodes s)(v := new_vnode Tmpfs_vnode_ops Tmpfs_file_ops i)"
    "inodes s1 = (inodes s)(i := (empty_inode ty')\<lparr>i_data := dat\<rparr>)"
    using quietD[OF s1(11)] by simp_all
  have ne: "?di \<noteq> i" using d(2) s1(5) by blast
  have iv: "internal (vnodes ?s2 v) = i" by (simp add: set_inode_def f1 new_vnode_def)
  have m3: "mem ?s3 = mem s1" by (simp add: set_inode_def)
  note h3 = heap_cong[OF m3]
  have "tmpfs_add ty' e1 e2 d n s = Some (?s3, Some v)"
    using ty sc n s1(1) by (simp add: tmpfs_add_def inode_of_def Let_def)
  moreover have "quiet ?s3 = quiet (added ty' d n v j i dat s)"
  proof -
    have "inodes ?s3 = (inodes s)(i := (empty_inode ty')\<lparr>i_data := dat, i_name := n\<rparr>,
       ?di := (inode_of s d)\<lparr>i_entry := (i_entry (inode_of s d))(j := Some v)\<rparr>)"
      using ne by (simp only: iv) (auto simp: set_inode_def f1 inode_of_def fun_eq_iff)
    moreover have "quiet ?s3 = (quiet s1)\<lparr>inodes := inodes ?s3\<rparr>" by (simp add: set_inode_def quiet_mem_cong)
    ultimately show ?thesis using s1(11) by (simp add: added_def quiet_mem_cong)
  qed
  moreover have "con ?s3 = con s" using s1(12) by (simp add: set_inode_def)
  moreover have "bytes_from dat 0x1000 \<subseteq> kextent ?s3 dat" "\<forall>b \<in> kblocks s. kextent ?s3 b = kextent s b"
    using s1(13,14) h3(3) by simp_all
  moreover have "roomy k ?s3" using s1(3) m3 by (simp add: roomy_def)
  ultimately show thesis using that[of ?s3 v i dat] s1(2,4-10) h3 by simp
qed

lemma added_fields:
  assumes q: "quiet s' = quiet (added ty d n v j i dat s)" and ne: "internal (vnodes s d) \<noteq> i"
  shows "vnodes s' = (vnodes s)(v := new_vnode Tmpfs_vnode_ops Tmpfs_file_ops i)" "mounts s' = mounts s"
    "rootfs s' = rootfs s" "rinodes s' = rinodes s" "bytes s' = bytes s" "fs_root s' = fs_root s" "files s' = files s"
    "inodes s' = (inodes s)(i := (empty_inode ty)\<lparr>i_data := dat, i_name := n\<rparr>,
       internal (vnodes s d) := (inode_of s d)\<lparr>i_entry := (i_entry (inode_of s d))(j := Some v)\<rparr>)"
  using quietD[OF q] by (simp_all add: added_def fs_root_def)

lemma added_nodes:
  assumes ok: "\<forall>x \<in> N. node_ok s N x" and d: "d \<in> N" "v_ops (vnodes s d) = Tmpfs_vnode_ops"
    and new: "v \<notin> kblocks s" "i \<notin> kblocks s" and q: "quiet s' = quiet (added ty d n v j i dat s)"
  shows "x \<in> N \<Longrightarrow> vnodes s' x = vnodes s x"
    "x \<in> N \<Longrightarrow> x \<noteq> d \<Longrightarrow> inode_of s' x = inode_of s x"
    "inode_of s' d = (inode_of s d)\<lparr>i_entry := (i_entry (inode_of s d))(j := Some v)\<rparr>"
    "inode_of s' v = (empty_inode ty)\<lparr>i_data := dat, i_name := n\<rparr>"
    "x \<in> N \<Longrightarrow> rinode_of s' x = rinode_of s x" "v \<notin> N" "internal (vnodes s d) \<noteq> i"
proof -
  note dn = node_okD[OF bspec[OF ok d(1)]]
  show ne: "internal (vnodes s d) \<noteq> i" using dn(2) new(2) by blast
  note f = added_fields[OF q ne]
  show vN: "v \<notin> N" using node_okD(1) ok new(1) by blast
  show vx: "x \<in> N \<Longrightarrow> vnodes s' x = vnodes s x" for x using vN f(1) by auto
  show "inode_of s' x = inode_of s x" if x: "x \<in> N" "x \<noteq> d"
  proof -
    have "internal (vnodes s x) \<noteq> internal (vnodes s d)" using dn(8)[OF d(2) x(1)] x(2) by blast
    moreover have "internal (vnodes s x) \<noteq> i" using node_okD(2)[OF bspec[OF ok x(1)]] new(2) by blast
    ultimately show ?thesis using vx[OF x(1)] f(8) by (simp add: inode_of_def)
  qed
  show "inode_of s' d = (inode_of s d)\<lparr>i_entry := (i_entry (inode_of s d))(j := Some v)\<rparr>"
    using vx[OF d(1)] f(8) by (simp add: inode_of_def)
  show "inode_of s' v = (empty_inode ty)\<lparr>i_data := dat, i_name := n\<rparr>"
    using f(1,8) ne by (simp add: inode_of_def new_vnode_def)
  show "x \<in> N \<Longrightarrow> rinode_of s' x = rinode_of s x" using vx f(4) by (simp add: rinode_of_def)
qed

lemma added_child:
  assumes ok: "\<forall>x \<in> N. node_ok s N x" and d: "d \<in> N" "v_ops (vnodes s d) = Tmpfs_vnode_ops"
    and new: "v \<notin> kblocks s" "i \<notin> kblocks s" and q: "quiet s' = quiet (added ty d n v j i dat s)"
    and sc: "tmpfs_scan s d n = (None, j)" "j < MAX_DIR_ENTRY"
  shows "x \<in> N \<Longrightarrow> child s' x c = (if x = d \<and> c = n then Some v else child s x c)" "child s' v c = None"
proof -
  note a = added_nodes[OF ok d new q] and f = added_fields[OF q added_nodes(7)[OF ok d new q]]
  note dn = node_okD[OF bspec[OF ok d(1)]]
  show "child s' v c = None"
    using a(4) f(1) by (simp add: child_def new_vnode_def tmpfs_entry_def tmpfs_scan_def empty_inode_def MAX_DIR_ENTRY_def numeral_eq_Suc)
  assume x: "x \<in> N"
  have nm: "i_name (inode_of s' w) = i_name (inode_of s w)" if "w \<in> N" for w
    using a(2)[OF that] a(3) by (cases "w = d") simp_all
  show "child s' x c = (if x = d \<and> c = n then Some v else child s x c)"
  proof (cases "v_ops (vnodes s x)")
    case Initramfs_vnode_ops
    note xn = node_okD[OF bspec[OF ok x]]
    have "initramfs_scan s' x c = initramfs_scan s x c"
      unfolding initramfs_scan_def a(5)[OF x] f(5)
      by (rule scan_entries_cong) (simp add: a(5)[OF xn(9)[OF Initramfs_vnode_ops]])
    then show ?thesis using Initramfs_vnode_ops a(1)[OF x] d(2) by (auto simp: child_def initramfs_entry_def)
  next
    case Tmpfs_vnode_ops
    note xn = node_okD[OF bspec[OF ok x]]
    have old: "scan_entries (\<lambda>w. i_name (inode_of s' w) = c) (i_entry (inode_of s x)) m k =
        scan_entries (\<lambda>w. i_name (inode_of s w) = c) (i_entry (inode_of s x)) m k" for m k
      by (rule scan_entries_cong) (simp add: nm[OF xn(5)[OF Tmpfs_vnode_ops]])
    show ?thesis
    proof (cases "x = d")
      case False
      then show ?thesis
        using Tmpfs_vnode_ops old a(1,2)[OF x] by (simp add: child_def tmpfs_entry_def tmpfs_scan_def)
    next
      case True
      let ?e = "i_entry (inode_of s d)" and ?same = "\<lambda>w. i_name (inode_of s' w) = c"
      have j: "?e j = None" using scan_entries_none[OF sc(1)[unfolded tmpfs_scan_def]] sc(2) by simp
      have gap: "?e k = None" if "j \<le> k" for k using dn(7)[OF d(2) j that] .
      have vn: "?same v \<longleftrightarrow> n = c" using a(4) by simp
      have "fst (scan_entries ?same (?e(j := Some v)) MAX_DIR_ENTRY 0) = (if c = n then Some v else child s d c)"
      proof (cases "c = n")
        case True
        have "scan_entries ?same ?e MAX_DIR_ENTRY 0 = (None, j)" using old sc(1) True \<open>x = d\<close> by (simp add: tmpfs_scan_def)
        then show ?thesis using scan_entries_add(1)[of ?same ?e MAX_DIR_ENTRY 0 j v] gap vn True sc(2) by simp
      next
        case False
        have "fst (scan_entries ?same (?e(j := Some v)) MAX_DIR_ENTRY 0) = fst (scan_entries ?same ?e MAX_DIR_ENTRY 0)"
          by (rule scan_entries_add_other) (use gap vn False in auto)
        then show ?thesis using old False \<open>x = d\<close> d(2) by (simp add: child_def tmpfs_entry_def tmpfs_scan_def)
      qed
      then show ?thesis using True d(2) a(1)[OF d(1)] a(3) by (simp add: child_def tmpfs_entry_def tmpfs_scan_def)
    qed
  qed
qed

lemma added_ok:
  assumes fs: "fs_ok s N" and d: "d \<in> N" "v_ops (vnodes s d) = Tmpfs_vnode_ops"
    and new: "v \<notin> kblocks s" "i \<notin> kblocks s" and q: "quiet s' = quiet (added ty d n v j i dat s)"
    and sc: "tmpfs_scan s d n = (None, j)" "j < MAX_DIR_ENTRY"
    and hp: "heap_ok s'" "{v, i} \<union> kblocks s \<subseteq> kblocks s'"
  shows "fs_ok s' (insert v N)"
    "walk s' (fs_root s') p = (if \<exists>r. p = r @ [n] \<and> walk s (fs_root s) r = Some d then Some v else walk s (fs_root s) p)"
proof -
  have ok: "\<forall>x \<in> N. node_ok s N x" and root: "fs_root s \<in> N" "rootfs s \<in> kblocks s" and one: "one_path s"
    using fs by (auto simp: fs_ok_def)
  note a = added_nodes[OF ok d new q] and f = added_fields[OF q added_nodes(7)[OF ok d new q]]
    and c = added_child[OF ok d new q sc]
  have red: "redirect s' x = redirect s x" if "x \<in> N" for x
    by (rule redirect_same[OF ok that]) (simp_all add: a(1) f(2))
  have rv: "redirect s' v = Some v" by (subst redirect.simps) (simp add: f(1) new_vnode_def)
  have cd: "child s d n = None" using d(2) sc(1) by (simp add: child_def tmpfs_entry_def)
  have w: "walk s' (fs_root s') p = (if \<exists>r. p = r @ [n] \<and> walk s (fs_root s) r = Some d then Some v else walk s (fs_root s) p)" for p
    using walk_extend[OF ok cd c(1) rv c(2) red root(1)] by (simp only: f(6))
  then show "walk s' (fs_root s') p = (if \<exists>r. p = r @ [n] \<and> walk s (fs_root s) r = Some d then Some v else walk s (fs_root s) p)" .
  have "one_path s'"
    unfolding one_path_def
  proof (intro allI impI)
    fix p p' u assume p: "walk s' (fs_root s') p = Some u" "walk s' (fs_root s') p' = Some u"
    have old: "walk s (fs_root s) r \<noteq> Some v" for r using walk_in[OF ok root(1)] a(6) by blast
    show "p = p'"
    proof (cases "u = v")
      case True
      then obtain r r' where "p = r @ [n]" "walk s (fs_root s) r = Some d" "p' = r' @ [n]" "walk s (fs_root s) r' = Some d"
        using p w[of p] w[of p'] old by (auto split: if_splits)
      then show ?thesis using one by (auto simp: one_path_def)
    next
      case False
      then have "walk s (fs_root s) p = Some u" "walk s (fs_root s) p' = Some u"
        using p w[of p] w[of p'] by (auto split: if_splits)
      then show ?thesis using one by (auto simp: one_path_def)
    qed
  qed
  moreover have "node_ok s' (insert v N) x" if "x \<in> insert v N" for x
  proof (cases "x = v")
    case True
    have iv: "internal (vnodes s' v) = i" by (simp add: f(1) new_vnode_def)
    have "internal (vnodes s' e) \<noteq> i" if "e \<in> N" for e
      using node_okD(2)[OF bspec[OF ok that]] new(2) a(1)[OF that] by auto
    then have "\<forall>e \<in> insert v N. internal (vnodes s' e) = internal (vnodes s' v) \<longrightarrow> e = v"
      unfolding iv by blast
    moreover have "vnodes s' v = new_vnode Tmpfs_vnode_ops Tmpfs_file_ops i" "i_entry (inode_of s' v) = (\<lambda>_. None)"
      using f(1) a(4) by (simp_all add: empty_inode_def)
    moreover have "v \<in> kblocks s'" "i \<in> kblocks s'" using hp(2) by simp_all
    ultimately show ?thesis unfolding True node_ok_def by (simp add: new_vnode_def)
  next
    case False
    then have x: "x \<in> N" using that by simp
    note xn = node_okD[OF bspec[OF ok x]]
    have io: "i_entry (inode_of s' x) k = (if x = d \<and> k = j then Some v else i_entry (inode_of s x) k)" for k
      using a(2)[OF x] a(3) by (cases "x = d") simp_all
    have vv: "v_ops (vnodes s' v) = Tmpfs_vnode_ops" by (simp add: f(1) new_vnode_def)
    have j: "i_entry (inode_of s d) j = None" "\<And>k. k < j \<Longrightarrow> i_entry (inode_of s d) k \<noteq> None"
      using scan_entries_none[OF sc(1)[unfolded tmpfs_scan_def]] sc(2) by simp_all
    have "x \<in> kblocks s'" "internal (vnodes s' x) \<in> kblocks s'" using xn(1,2) hp(2) a(1)[OF x] by auto
    moreover have "v_mount (vnodes s' x) = Some m \<Longrightarrow> m \<in> kblocks s' \<and> m_root (mounts s' m) \<in> insert v N" for m
      using xn(3,4)[of m] hp(2) by (auto simp: a(1)[OF x] f(2))
    moreover have "w \<in> insert v N \<and> v_ops (vnodes s' w) = Tmpfs_vnode_ops"
      if "v_ops (vnodes s' x) = Tmpfs_vnode_ops" "i_entry (inode_of s' x) k = Some w" for k w
      using that xn(5,6)[of k w] vv by (auto simp: a(1)[OF x] io a(1) split: if_splits)
    moreover have "i_entry (inode_of s' x) k' = None"
      if "v_ops (vnodes s' x) = Tmpfs_vnode_ops" "i_entry (inode_of s' x) k = None" "k \<le> k'" for k k'
    proof -
      have t: "v_ops (vnodes s x) = Tmpfs_vnode_ops" "i_entry (inode_of s x) k = None" "\<not> (x = d \<and> k = j)"
        using that by (auto simp: a(1)[OF x] io split: if_splits)
      have "\<not> (x = d \<and> k' = j)"
        using t(2,3) that(3) j(2)[of k] by (metis le_neq_implies_less)
      then show ?thesis using xn(7)[OF t(1,2) that(3)] by (simp add: io)
    qed
    moreover have "e = x"
      if "v_ops (vnodes s' x) = Tmpfs_vnode_ops" "e \<in> insert v N" "internal (vnodes s' e) = internal (vnodes s' x)" for e
    proof (cases "e = v")
      case True
      have "internal (vnodes s' v) = i" by (simp add: f(1) new_vnode_def)
      then have "internal (vnodes s x) = i" using that(3) True a(1)[OF x] by simp
      then show ?thesis using xn(2) new(2) by simp
    next
      case False
      then have e: "e \<in> N" using that(2) by simp
      then show ?thesis using xn(8)[OF _ e] that(1,3) by (simp add: a(1)[OF x] a(1)[OF e])
    qed
    moreover have "w \<in> insert v N \<and> v_ops (vnodes s' w) = Initramfs_vnode_ops"
      if t: "v_ops (vnodes s' x) = Initramfs_vnode_ops" "r_entry (rinode_of s' x) k = Some w" for k w
    proof -
      have r: "v_ops (vnodes s x) = Initramfs_vnode_ops" "r_entry (rinode_of s x) k = Some w"
        using t by (simp_all add: a(1)[OF x] a(5)[OF x])
      then have "w \<in> N" "v_ops (vnodes s w) = Initramfs_vnode_ops" using bspec[OF ok x] by (auto simp: node_ok_def)
      then show ?thesis by (simp add: a(1))
    qed
    ultimately show ?thesis unfolding node_ok_def by blast
  qed
  ultimately show "fs_ok s' (insert v N)"
    using hp root by (auto simp: fs_ok_def f(3,6))
qed

end
