(* ===== verification/Vfs_Ops.thy ===== *)
theory Vfs_Ops
  imports Vfs_Inv
begin

text \<open>
  The operations of the virtual file system against the map from paths to nodes: creating a
  directory or a file adds one path, everything else is left alone; writing and reading a file.
\<close>

section \<open>States with the same files\<close>

definition view :: "kern \<Rightarrow> string list \<Rightarrow> addr option" where
  "view s = walk s (fs_root s)"

definition fs_part :: "kern \<Rightarrow> (addr \<Rightarrow> vnode) \<times> (addr \<Rightarrow> inode) \<times> (addr \<Rightarrow> rinode) \<times> (addr \<Rightarrow> mount) \<times> addr \<times> Cstring.mem" where
  "fs_part s = (vnodes s, inodes s, rinodes s, mounts s, rootfs s, bytes s)"

lemma fs_partD:
  assumes "fs_part s' = fs_part s"
  shows "vnodes s' = vnodes s" "inodes s' = inodes s" "rinodes s' = rinodes s" "mounts s' = mounts s"
    "rootfs s' = rootfs s" "bytes s' = bytes s" "fs_root s' = fs_root s" "inode_of s' = inode_of s" "rinode_of s' = rinode_of s"
  using assms by (simp_all add: fs_part_def fs_root_def inode_of_def[abs_def] rinode_of_def[abs_def])

lemma fs_part_quiet: "quiet s' = quiet s \<Longrightarrow> fs_part s' = fs_part s"
  using quietD[of s' s] by (simp add: fs_part_def)

lemma fs_part_con: "same_but_con s s' \<Longrightarrow> fs_part s' = fs_part s"
  by (auto simp: same_but_con_def fs_part_def)

lemma fs_part_set_file [simp]: "fs_part (set_file f a s) = fs_part s"
  by (simp add: fs_part_def set_file_def)

lemma fs_part_redirect:
  assumes "fs_part s' = fs_part s"
  shows "redirect s' v = redirect s v"
proof -
  note f = fs_partD[OF assms]
  have "redirect s' v = Some w" if "redirect s v = Some w" for w
    using redirect_agree[OF that, of UNIV s'] f by simp
  moreover have "redirect s v = Some w" if "redirect s' v = Some w" for w
    using redirect_agree[OF that, of UNIV s] f by simp
  ultimately show ?thesis by (cases "redirect s v"; cases "redirect s' v") auto
qed

lemma fs_part_child:
  assumes "fs_part s' = fs_part s"
  shows "child s' = child s"
  using fs_partD[OF assms]
  by (simp add: child_def[abs_def] tmpfs_entry_def initramfs_entry_def tmpfs_scan_def initramfs_scan_def cong: v_ops_t.case_cong)

lemma fs_part_walk:
  assumes "fs_part s' = fs_part s"
  shows "walk s' d p = walk s d p" "view s' = view s"
proof -
  have w: "walk s' d p = walk s d p" for d
    by (induction p arbitrary: d) (simp_all add: fs_part_child[OF assms] fs_part_redirect[OF assms] split: option.split)
  then show "walk s' d p = walk s d p" .
  have "walk s' d p = walk s d p" for d p
    by (induction p arbitrary: d) (simp_all add: fs_part_child[OF assms] fs_part_redirect[OF assms] split: option.split)
  then show "view s' = view s" using fs_partD(7)[OF assms] by (auto simp: view_def)
qed

lemma fs_part_ok:
  assumes p: "fs_part s' = fs_part s" and ok: "fs_ok s N" and hp: "heap_ok s'" "kblocks s \<subseteq> kblocks s'"
  shows "fs_ok s' N"
proof -
  note f = fs_partD[OF p]
  have "node_ok s' N d" if "node_ok s N d" for d
    using that hp(2) unfolding node_ok_def f by blast
  moreover have "one_path s'"
    using ok fs_part_walk(1)[OF p] unfolding fs_ok_def one_path_def f(7) by simp
  ultimately show ?thesis using ok hp unfolding fs_ok_def f(5,7) by blast
qed

section \<open>Paths\<close>

lemma last_slash_append:
  assumes "slash \<notin> set n"
  shows "last_slash (a @ slash # n) = length a"
proof -
  let ?p = "a @ slash # n"
  let ?f = "\<lambda>k i. if ?p ! i = slash then i else k"
  have tail: "foldl ?f k is = k" if "\<forall>i \<in> set is. ?p ! i \<noteq> slash" for k "is"
    using that by (induction "is" arbitrary: k) auto
  have "[0..<length ?p] = [0..<Suc (length a)] @ [Suc (length a)..<length ?p]"
    using upt_add_eq_append[of 0 "Suc (length a)" "length n"] by simp
  then have "last_slash ?p = foldl ?f (foldl ?f 0 [0..<Suc (length a)]) [Suc (length a)..<length ?p]"
    unfolding last_slash_def by (simp only: foldl_append)
  also have "\<dots> = foldl ?f 0 [0..<Suc (length a)]"
  proof (rule tail, rule ballI)
    fix i assume "i \<in> set [Suc (length a)..<length ?p]"
    then have i: "Suc (length a) \<le> i" "i < length ?p" by (simp_all only: set_upt atLeastLessThan_iff)
    then have "?p ! i = n ! (i - Suc (length a))" by (simp add: nth_append)
    moreover have "i - Suc (length a) < length n" using i by simp
    ultimately show "?p ! i \<noteq> slash" using assms by (metis nth_mem)
  qed
  also have "\<dots> = length a" by simp
  finally show ?thesis .
qed

lemma render_last_slash:
  assumes "slash \<notin> set n"
  shows "last_slash (render (p @ [n])) = length (render p)" "take (length (render p)) (render (p @ [n])) = render p"
    "drop (length (render p) + 1) (render (p @ [n])) = n"
  using last_slash_append[OF assms] by simp_all

section \<open>Making a directory\<close>

text \<open>A directory of the in-memory file system with room for an entry of a new name.\<close>

definition can_add :: "kern \<Rightarrow> addr \<Rightarrow> string \<Rightarrow> bool" where
  "can_add s d n \<longleftrightarrow> v_ops (vnodes s d) = Tmpfs_vnode_ops \<and> i_type (inode_of s d) = dir_t \<and>
     child s d n = None \<and> i_entry (inode_of s d) (MAX_DIR_ENTRY - 1) = None \<and> good_name n"

lemma can_add_scan:
  assumes "can_add s d n"
  obtains j where "tmpfs_scan s d n = (None, j)" "j < MAX_DIR_ENTRY"
proof -
  have "fst (tmpfs_scan s d n) = None" using assms by (auto simp: can_add_def child_def tmpfs_entry_def)
  then obtain j where j: "tmpfs_scan s d n = (None, j)" by (metis prod.collapse)
  note sc = scan_entries_none[OF j[unfolded tmpfs_scan_def]]
  have "\<not> MAX_DIR_ENTRY - 1 < j" using sc assms by (auto simp: can_add_def)
  then have "j < MAX_DIR_ENTRY" by (simp add: MAX_DIR_ENTRY_def)
  then show thesis using that j by blast
qed

text \<open>What both kinds of a new node share.\<close>

lemma tmpfs_add_view:
  assumes fs: "fs_ok s N" and p: "view s p = Some d" and ca: "can_add s d n" and rm: "roomy (3 + k) s"
  obtains s' v i dat where "tmpfs_add ty e1 e2 d n s = Some (s', Some v)" "fs_ok s' (insert v N)" "roomy k s'" "v \<notin> kblocks s"
    "view s' = (view s)(p @ [n] \<mapsto> v)" "vnodes s' v = new_vnode Tmpfs_vnode_ops Tmpfs_file_ops i"
    "inode_of s' v = (empty_inode ty)\<lparr>i_data := dat, i_name := n\<rparr>"
    "\<forall>x \<in> N. vnodes s' x = vnodes s x" "\<forall>x \<in> N. x \<noteq> d \<longrightarrow> inode_of s' x = inode_of s x" "bytes s' = bytes s"
    "files s' = files s" "kblocks s \<subseteq> kblocks s'" "dat \<notin> kblocks s" "dat \<in> kblocks s'" "dat \<noteq> v" "bytes_from dat 0x1000 \<subseteq> kextent s' dat"
    "\<forall>b \<in> kblocks s. kextent s' b = kextent s b"
proof -
  obtain j where j: "tmpfs_scan s d n = (None, j)" "j < MAX_DIR_ENTRY" by (rule can_add_scan[OF ca])
  have ok: "\<forall>x \<in> N. node_ok s N x" "heap_ok s" "fs_root s \<in> N" using fs by (auto simp: fs_ok_def)
  have dN: "d \<in> N" using walk_in[OF ok(1,3)] p by (simp add: view_def)
  note dn = node_okD[OF bspec[OF ok(1) dN]]
  have t: "v_ops (vnodes s d) = Tmpfs_vnode_ops" "i_type (inode_of s d) = dir_t" "length n \<le> MAX_FILE_NAME"
    using ca by (auto simp: can_add_def good_name_def)
  obtain s' v i dat where a: "tmpfs_add ty e1 e2 d n s = Some (s', Some v)" "heap_ok s'" "roomy k s'"
    "v \<notin> kblocks s" "i \<notin> kblocks s" "dat \<notin> kblocks s" "i \<noteq> v" "dat \<noteq> v" "dat \<noteq> i" "kblocks s' = insert dat (insert i (insert v (kblocks s)))"
    "quiet s' = quiet (added ty d n v j i dat s)" "con s' = con s" "bytes_from dat 0x1000 \<subseteq> kextent s' dat"
    "\<forall>b \<in> kblocks s. kextent s' b = kextent s b"
    using j(2) by (elim tmpfs_add_result[OF ok(2) rm dn(1,2) t(2) j(1) _ t(3), of ty e1 e2, rotated]) simp
  have hp: "{v, i} \<union> kblocks s \<subseteq> kblocks s'" using a(10) by blast
  note r = added_ok[OF fs dN t(1) a(4,5,11) j a(2) hp] and nd = added_nodes[OF ok(1) dN t(1) a(4,5,11)]
  note f = added_fields[OF a(11) nd(7)]
  have "view s' q = ((view s)(p @ [n] \<mapsto> v)) q" for q
  proof -
    have "(\<exists>r. q = r @ [n] \<and> view s r = Some d) \<longleftrightarrow> q = p @ [n]"
      using p fs by (auto simp: fs_ok_def one_path_def view_def)
    then show ?thesis using r(2)[of q] by (simp add: view_def)
  qed
  then have "view s' = (view s)(p @ [n] \<mapsto> v)" by (rule ext)
  moreover have "vnodes s' v = new_vnode Tmpfs_vnode_ops Tmpfs_file_ops i" by (simp add: f(1))
  ultimately show thesis
    using that[OF a(1) r(1) a(3,4) _ _ nd(4)] nd(1,2) f(5,7) a(6,8,10,13,14) by blast
qed

lemma klog_fs [simp]: "fs_part (klog m s) = fs_part s"
  by (rule fs_part_con[OF klog_same(1)])

definition path_ok :: "string list \<Rightarrow> bool" where
  "path_ok p \<longleftrightarrow> plain p \<and> short p \<and> length (render p) < MAX_PATH_NAME"

lemma vfs_lookup_view:
  assumes "view s p = Some d" "path_ok p"
  shows "vfs_lookup (render p) s = Some (s, Some d)"
  using vfs_lookup_hit[of s p d] assms by (simp add: view_def path_ok_def)

lemma mkdir_step:
  assumes fs: "fs_ok s N" and p: "view s p = Some d" "path_ok p" and ca: "can_add s d n" and rm: "roomy (3 + k) s"
  obtains s' v where "vfs_mkdir (render (p @ [n])) s = Some (s', 0)" "fs_ok s' (insert v N)" "roomy k s'" "v \<notin> kblocks s"
    "view s' = (view s)(p @ [n] \<mapsto> v)" "i_type (inode_of s' v) = dir_t" "i_entry (inode_of s' v) = (\<lambda>_. None)"
    "v_ops (vnodes s' v) = Tmpfs_vnode_ops" "\<forall>x \<in> N. x \<noteq> d \<longrightarrow> inode_of s' x = inode_of s x" "\<forall>x \<in> N. vnodes s' x = vnodes s x"
proof -
  have n: "slash \<notin> set n" "length n \<le> MAX_FILE_NAME" "v_ops (vnodes s d) = Tmpfs_vnode_ops" using ca by (auto simp: can_add_def good_name_def)
  obtain s' v i dat where a: "tmpfs_mkdir d n s = Some (s', Some v)" "fs_ok s' (insert v N)" "roomy k s'" "v \<notin> kblocks s"
    "view s' = (view s)(p @ [n] \<mapsto> v)" "vnodes s' v = new_vnode Tmpfs_vnode_ops Tmpfs_file_ops i"
    "inode_of s' v = (empty_inode dir_t)\<lparr>i_data := dat, i_name := n\<rparr>" "\<forall>x \<in> N. x \<noteq> d \<longrightarrow> inode_of s' x = inode_of s x"
    "\<forall>x \<in> N. vnodes s' x = vnodes s x"
    unfolding tmpfs_mkdir_def by (rule tmpfs_add_view[OF fs p(1) ca rm])
  have "vfs_mkdir (render (p @ [n])) s = Some (s', 0)"
    using a(1) n p(2) vfs_lookup_view[OF p] render_last_slash[OF n(1), of p]
    by (simp add: vfs_mkdir_def node_mkdir_def path_ok_def MAX_PATH_NAME_def MAX_FILE_NAME_def Let_def del: render_snoc)
      (simp add: render_def)
  then show thesis using that[of s' v] a by (simp add: new_vnode_def empty_inode_def)
qed

text \<open>Opening a file that is not there.\<close>

lemma dead_end_new:
  "walk s e p = Some d \<Longrightarrow> child s d n = None \<Longrightarrow> printable_miss s d n \<Longrightarrow> dead_end s e (p @ [n])"
  by (induction p arbitrary: e) (auto split: option.splits)

lemma open_node_tmpfs:
  assumes ok: "heap_ok s" "f_ops (vnodes s node) = Tmpfs_file_ops" and rm: "roomy (Suc k) s"
  obtains s' fh where "open_node node flags s = Some (s', Some fh)" "heap_ok s'" "roomy k s'" "fh \<notin> kblocks s"
    "kblocks s' = insert fh (kblocks s)" "fs_part s' = fs_part s" "con s' = con s"
    "files s' = (files s)(fh := \<lparr>f_vnode = node, f_pos = 0, fh_ops = Tmpfs_file_ops, f_flags = flags\<rparr>)"
    "\<forall>b \<in> kblocks s. kextent s' b = kextent s b"
proof -
  obtain s1 fh where s1: "knew FILE_SIZE s = Some (s1, fh)" "roomy k s1"
    using rm by (rule knew_room[OF ok(1) _ size_room(3,4)])
  note a = knew_spec[OF ok(1) size_requests(2) s1(1)]
  let ?s2 = "set_file (\<lambda>x. x\<lparr>f_flags := flags\<rparr>) fh (tmpfs_open node fh s1)"
  have v: "vnodes s1 = vnodes s" "files s1 = files s" using quietD[OF a(5)] by simp_all
  have m2: "mem ?s2 = mem s1" by (simp add: set_file_def tmpfs_open_def)
  note h2 = heap_cong[OF m2]
  have "open_node node flags s = Some (?s2, Some fh)"
    using s1(1) ok(2) v by (simp add: open_node_def node_open_def ops_table_def)
  moreover have "files ?s2 = (files s)(fh := \<lparr>f_vnode = node, f_pos = 0, fh_ops = Tmpfs_file_ops, f_flags = flags\<rparr>)"
    using ok(2) v by (cases "files s fh") (simp add: set_file_def tmpfs_open_def)
  moreover have "fs_part ?s2 = fs_part s" using fs_part_quiet[OF a(5)] by (simp add: tmpfs_open_def)
  moreover have "con ?s2 = con s" using a(6) by (simp add: set_file_def tmpfs_open_def)
  moreover have "roomy k ?s2" using s1(2) m2 by (simp add: roomy_def)
  ultimately show thesis using that[of ?s2 fh] a(1,3,4,8) h2 by simp
qed

lemma creat_step:
  assumes fs: "fs_ok s N" and p: "view s p = Some d" "path_ok p" and ca: "can_add s d n" and rm: "roomy (4 + k) s"
    and len: "length (render (p @ [n])) \<le> MAX_PATH_NAME" and fl: "flags AND O_CREAT \<noteq> 0"
  obtains s' fh v i dat where "vfs_open (render (p @ [n])) flags s = Some (s', Some fh)" "fs_ok s' (insert v N)" "roomy k s'"
    "v \<notin> kblocks s" "fh \<notin> kblocks s" "view s' = (view s)(p @ [n] \<mapsto> v)"
    "vnodes s' v = new_vnode Tmpfs_vnode_ops Tmpfs_file_ops i" "inode_of s' v = (empty_inode file_t)\<lparr>i_data := dat, i_name := n\<rparr>"
    "files s' = (files s)(fh := \<lparr>f_vnode = v, f_pos = 0, fh_ops = Tmpfs_file_ops, f_flags = flags\<rparr>)"
    "bytes s' = bytes s" "bytes_from dat 0x1000 \<subseteq> kextent s' dat" "dat \<in> kblocks s'" "dat \<notin> kblocks s" "fh \<noteq> dat" "kblocks s \<subseteq> kblocks s'"
    "\<forall>b \<in> kblocks s. kextent s' b = kextent s b"
proof -
  have n: "slash \<notin> set n" "length n \<le> MAX_FILE_NAME" "v_ops (vnodes s d) = Tmpfs_vnode_ops" "good_name n"
    using ca by (auto simp: can_add_def good_name_def)
  note rl = render_last_slash[OF n(1), of p]
  have pm: "printable_miss s d n" using n(3,4) by (simp add: printable_miss_def)
  have pl: "plain (p @ [n])" "short (p @ [n])" using p(2) n(1,2) by (auto simp: path_ok_def plain_def short_def)
  have "dead_end s (fs_root s) (p @ [n])"
    using dead_end_new p(1) ca pm by (simp add: view_def can_add_def)
  from vfs_lookup_miss[OF this pl] obtain s1 where s1: "vfs_lookup (render (p @ [n])) s = Some (s1, None)" "same_but_con s s1" by blast
  define s2 where "s2 = klog (''[vfs] OCREATE flag is specified'' @ crnl) s1"
  have sc: "same_but_con s s2" unfolding s2_def by (rule same_but_con_trans[OF s1(2) klog_same(1)])
  have pt: "fs_part s2 = fs_part s" by (rule fs_part_con[OF sc])
  note fp = fs_partD[OF pt] and hc = heap_cong[OF same_but_conD(1)[OF sc]]
  have fs2: "fs_ok s2 N" using fs_part_ok[OF pt fs] hc fs by (simp add: fs_ok_def)
  have v2: "view s2 = view s" by (rule fs_part_walk(2)[OF pt])
  have ca2: "can_add s2 d n" using ca unfolding can_add_def fp fs_part_child[OF pt] .
  have rm2: "roomy (3 + Suc k) s2" using rm same_but_conD(1)[OF sc] by (simp add: roomy_def)
  have p2: "view s2 p = Some d" using p(1) v2 by simp
  obtain s4 v i dat where a: "tmpfs_create d n s2 = Some (s4, Some v)" "fs_ok s4 (insert v N)" "roomy (Suc k) s4" "v \<notin> kblocks s2"
    "view s4 = (view s2)(p @ [n] \<mapsto> v)" "vnodes s4 v = new_vnode Tmpfs_vnode_ops Tmpfs_file_ops i"
    "inode_of s4 v = (empty_inode file_t)\<lparr>i_data := dat, i_name := n\<rparr>" "bytes s4 = bytes s2"
    "files s4 = files s2" "kblocks s2 \<subseteq> kblocks s4" "dat \<notin> kblocks s2" "dat \<in> kblocks s4" "bytes_from dat 0x1000 \<subseteq> kextent s4 dat"
    "\<forall>b \<in> kblocks s2. kextent s4 b = kextent s2 b"
    unfolding tmpfs_create_def by (rule tmpfs_add_view[OF fs2 p2 ca2 rm2])
  have h4: "heap_ok s4" "f_ops (vnodes s4 v) = Tmpfs_file_ops" using a(2,6) by (simp_all add: fs_ok_def new_vnode_def)
  obtain s5 fh where b: "open_node v flags s4 = Some (s5, Some fh)" "heap_ok s5" "roomy k s5" "fh \<notin> kblocks s4"
    "kblocks s5 = insert fh (kblocks s4)" "fs_part s5 = fs_part s4"
    "files s5 = (files s4)(fh := \<lparr>f_vnode = v, f_pos = 0, fh_ops = Tmpfs_file_ops, f_flags = flags\<rparr>)"
    "\<forall>b \<in> kblocks s4. kextent s5 b = kextent s4 b"
    by (rule open_node_tmpfs[OF h4 a(3)])
  have cr: "node_create d n s2 = Some (s4, Some v)" using a(1) n(3) fp(1) by (simp add: node_create_def)
  have "vfs_open (render (p @ [n])) flags s = Some (s5, Some fh)"
    using s1(1) fl len vfs_lookup_view[OF p2 p(2)] cr b(1)
    by (simp only: vfs_open_def rl Let_def s2_def[symmetric]) (simp del: append.simps add: s2_def[symmetric])
  moreover have fl2: "files s2 = files s" using sc by (auto simp: same_but_con_def)
  moreover have "fs_ok s5 (insert v N)" by (rule fs_part_ok[OF b(6) a(2) b(2)]) (use b(5) in blast)
  moreover have "v \<notin> kblocks s" "fh \<notin> kblocks s" "dat \<notin> kblocks s" "dat \<in> kblocks s5" "fh \<noteq> dat" "kblocks s \<subseteq> kblocks s5"
    using a(4,10-12) b(4,5) hc(2) by auto
  moreover have "view s5 = (view s)(p @ [n] \<mapsto> v)" using fs_part_walk(2)[OF b(6)] a(5) v2 by simp
  moreover note f5 = fs_partD[OF b(6)]
  moreover have "bytes_from dat 0x1000 \<subseteq> kextent s5 dat" "\<forall>b \<in> kblocks s. kextent s5 b = kextent s b"
    using a(10,12-14) b(8) hc(2,3) by auto
  ultimately show thesis
    using that[of s5 fh v i dat] a(6-9) b(3,7) fp(6) by simp
qed

section \<open>Writing and reading a file\<close>

lemma range_of_sub:
  assumes "unat pos + unat len \<le> n"
  shows "range_of (d + pos) (unat len) \<subseteq> range_of d n"
proof
  fix a assume "a \<in> range_of (d + pos) (unat len)"
  then obtain i where i: "i < unat len" "a = d + pos + of_nat i" by (auto simp: range_of_iff)
  then have "a = d + of_nat (unat pos + i)" by (simp add: add.assoc)
  moreover have "unat pos + i < n" using i(1) assms by simp
  ultimately show "a \<in> range_of d n" unfolding range_of_iff by blast
qed

lemma memcpy_at:
  assumes "range_of dst (unat len) \<inter> range_of src (unat len) = {}"
  shows "i < unat len \<Longrightarrow> memcpy dst src len m (dst + of_nat i) = m (src + of_nat i)"
    "a \<notin> range_of dst (unat len) \<Longrightarrow> memcpy dst src len m a = m a"
  using copy_loop_disjoint[OF _ assms] copy_loop_other unsigned_less[of len] by (simp_all add: memcpy_def)

lemma write_step:
  assumes sep: "range_of (i_data (inode_of s (f_vnode (files s fh)))) 4096 \<inter> range_of buf (unat len) = {}"
    and fit: "unat (f_pos (files s fh)) + unat len \<le> 4096"
  obtains s1 where "tmpfs_write fh buf len s = (s1, ucast len)" "vnodes s1 = vnodes s"
    "files s1 = (files s)(fh := (files s fh)\<lparr>f_pos := f_pos (files s fh) + len\<rparr>)"
    "\<forall>i < unat len. bytes s1 (i_data (inode_of s (f_vnode (files s fh))) + f_pos (files s fh) + of_nat i) = bytes s (buf + of_nat i)"
    "\<forall>a. a \<notin> range_of (i_data (inode_of s (f_vnode (files s fh))) + f_pos (files s fh)) (unat len) \<longrightarrow> bytes s1 a = bytes s a"
    "i_data (inode_of s1 (f_vnode (files s fh))) = i_data (inode_of s (f_vnode (files s fh)))"
    "i_datasize (inode_of s1 (f_vnode (files s fh))) = max (i_datasize (inode_of s (f_vnode (files s fh)))) (f_pos (files s fh) + len)"
proof -
  let ?f = "files s fh"
  let ?d = "inode_of s (f_vnode ?f)"
  have "range_of (i_data ?d + f_pos ?f) (unat len) \<inter> range_of buf (unat len) = {}"
    using sep range_of_sub[OF fit] by blast
  note m = memcpy_at[OF this, where m = "bytes s"]
  let ?s1 = "fst (tmpfs_write fh buf len s)"
  have b: "bytes ?s1 = memcpy (i_data ?d + f_pos ?f) buf len (bytes s)"
    by (simp add: tmpfs_write_def Let_def set_file_def set_inode_def inode_of_def)
  have "tmpfs_write fh buf len s = (?s1, ucast len)" by (simp add: tmpfs_write_def Let_def)
  then show thesis
    using m b by (intro that[of ?s1]) (auto simp: tmpfs_write_def Let_def set_file_def set_inode_def inode_of_def max_def)
qed

lemma pos_add: "unat (pos :: 64 word) + unat len \<le> 4096 \<Longrightarrow> unat (pos + len) = unat pos + unat len"
  by (subst unat_add_lem[THEN iffD1]) simp_all

lemma read_step:
  assumes sep: "range_of (i_data (inode_of s (f_vnode (files s fh)))) 4096 \<inter> range_of out (unat len) = {}"
    and fit: "unat (f_pos (files s fh)) + unat len \<le> 4096"
    and size: "f_pos (files s fh) + len \<le> i_datasize (inode_of s (f_vnode (files s fh)))"
  obtains s1 where "tmpfs_read fh out len s = (s1, ucast len)"
    "\<forall>i < unat len. bytes s1 (out + of_nat i) = bytes s (i_data (inode_of s (f_vnode (files s fh))) + f_pos (files s fh) + of_nat i)"
    "\<forall>a. a \<notin> range_of out (unat len) \<longrightarrow> bytes s1 a = bytes s a"
    "files s1 = (files s)(fh := (files s fh)\<lparr>f_pos := f_pos (files s fh) + len\<rparr>)"
proof -
  let ?f = "files s fh"
  let ?d = "inode_of s (f_vnode ?f)"
  have "range_of out (unat len) \<inter> range_of (i_data ?d + f_pos ?f) (unat len) = {}"
    using sep range_of_sub[OF fit] by blast
  note m = memcpy_at[OF this, where m = "bytes s"]
  have "\<not> len + f_pos ?f > i_datasize ?d" using size by (simp add: add.commute not_less)
  then have "tmpfs_read fh out len s =
      (set_file (\<lambda>x. x\<lparr>f_pos := f_pos ?f + len\<rparr>) fh (s\<lparr>bytes := memcpy out (i_data ?d + f_pos ?f) len (bytes s)\<rparr>), ucast len)"
    by (simp add: tmpfs_read_def Let_def)
  then show thesis using m by (intro that) (auto simp: set_file_def)
qed

section \<open>The root file system\<close>

lemma setup_root:
  assumes ok: "heap_ok s" "mnt \<in> kblocks s" "rootfs s = mnt" and rm: "roomy (3 + k) s"
  obtains s' v where "tmpfs_setup_mount fs mnt s = Some s'" "fs_ok s' {v}" "roomy k s'" "view s' = [[] \<mapsto> v]"
    "v_ops (vnodes s' v) = Tmpfs_vnode_ops" "i_type (inode_of s' v) = dir_t" "i_entry (inode_of s' v) = (\<lambda>_. None)"
    "kblocks s \<subseteq> kblocks s'" "reg_fs s' = reg_fs s" "reg_dev s' = reg_dev s" "bytes s' = bytes s"
    "CPIO_DEFAULT_START s' = CPIO_DEFAULT_START s" "v \<notin> kblocks s"
proof -
  let ?s0 = "s\<lparr>mounts := (mounts s)(mnt := (mounts s mnt)\<lparr>m_fs := fs\<rparr>)\<rparr>"
  have m0: "mem ?s0 = mem s" by simp
  note h0 = heap_cong[OF m0]
  have h: "heap_ok ?s0" "roomy (3 + k) ?s0" using ok(1) rm h0 by (simp_all add: roomy_def)
  obtain s1 v i d where a: "tmpfs_create_vnode dir_t ?s0 = Some (s1, v)" "heap_ok s1" "roomy k s1" "v \<notin> kblocks ?s0" "i \<notin> kblocks ?s0"
    "kblocks s1 = insert d (insert i (insert v (kblocks ?s0)))"
    "quiet s1 = quiet (?s0\<lparr>vnodes := (vnodes ?s0)(v := new_vnode Tmpfs_vnode_ops Tmpfs_file_ops i),
       inodes := (inodes ?s0)(i := (empty_inode dir_t)\<lparr>i_data := d\<rparr>)\<rparr>)"
    by (rule tmpfs_create_vnode_spec[OF h, of dir_t])
  let ?s' = "s1\<lparr>mounts := (mounts s1)(mnt := (mounts s1 mnt)\<lparr>m_root := v\<rparr>)\<rparr>"
  note q = quietD[OF a(7)]
  have m1: "mem ?s' = mem s1" by simp
  note h1 = heap_cong[OF m1]
  have f: "vnodes ?s' v = new_vnode Tmpfs_vnode_ops Tmpfs_file_ops i" "rootfs ?s' = mnt" "fs_root ?s' = v"
    "inode_of ?s' v = (empty_inode dir_t)\<lparr>i_data := d\<rparr>"
    using q ok(3) by (simp_all add: fs_root_def inode_of_def new_vnode_def)
  have c: "child ?s' v c = None" for c
    using f(1,4) by (simp add: child_def new_vnode_def tmpfs_entry_def tmpfs_scan_def empty_inode_def MAX_DIR_ENTRY_def numeral_eq_Suc)
  have w: "walk ?s' v p = (if p = [] then Some v else None)" for p
    using c by (cases p) simp_all
  have "node_ok ?s' {v} v"
    using f(1,4) a(6) h1 h0 by (simp add: node_ok_def new_vnode_def empty_inode_def)
  moreover have "one_path ?s'" using w f(3) by (simp add: one_path_def split: if_splits)
  ultimately have "fs_ok ?s' {v}" using a(2,6) f(2,3) ok(2) h1 h0 by (simp add: fs_ok_def)
  moreover have "view ?s' = [[] \<mapsto> v]" using w f(3) by (auto simp: view_def)
  moreover have "tmpfs_setup_mount fs mnt s = Some ?s'" using a(1) by (simp add: tmpfs_setup_mount_def)
  moreover have "roomy k ?s'" using a(3) m1 by (simp add: roomy_def)
  ultimately show thesis
    using that[of ?s' v] f a(4,6) h1(2) h0(2) q by (simp add: new_vnode_def empty_inode_def subset_insertI2)
qed

end
