(* ===== verification/Fs_Props.thy ===== *)
theory Fs_Props
  imports Vfs_Ops Kern_Props
begin

text \<open>
  The properties of the file systems, with witnesses on a kernel whose root file system has just
  been mounted.
\<close>

section \<open>A kernel with a root file system\<close>

lemma root_kern_bytes:
  obtains s d where "fs_ok s {d}" "view s = [[] \<mapsto> d]" "roomy 900 s" "bytes s = b"
    "v_ops (vnodes s d) = Tmpfs_vnode_ops" "i_type (inode_of s d) = dir_t" "i_entry (inode_of s d) = (\<lambda>_. None)"
proof -
  let ?s0 = "boot_kern\<lparr>bytes := b\<rparr>"
  have m0: "mem ?s0 = mem boot_kern" by simp
  have ok0: "heap_ok ?s0" using boot_kern_ok(1) heap_cong[OF m0] by simp
  have "roomy (Suc 903) ?s0" using boot_kern_ok(2) by (simp add: roomy_def)
  then obtain s1 m where s1: "knew MOUNT_SIZE ?s0 = Some (s1, m)" "roomy 903 s1"
    by (rule knew_room[OF ok0 _ size_room(5,6)])
  note a = knew_spec[OF ok0 size_requests(3) s1(1)]
  let ?s1 = "s1\<lparr>rootfs := m\<rparr>"
  have m1: "mem ?s1 = mem s1" by simp
  have h: "heap_ok ?s1" "m \<in> kblocks ?s1" "rootfs ?s1 = m" "roomy (3 + 900) ?s1"
    using a(1,4) heap_cong[OF m1] s1(2) by (simp_all add: roomy_def)
  have "bytes s1 = b" using quietD(16)[OF a(5)] by simp
  then have b: "bytes ?s1 = b" by simp
  show thesis
    by (rule setup_root[OF h, of 0], rule that) (use b in simp_all)
qed

lemmas root_kern = root_kern_bytes[of "\<lambda>_. 0"]

lemma root_can_add:
  assumes "v_ops (vnodes s d) = Tmpfs_vnode_ops" "i_type (inode_of s d) = dir_t" "i_entry (inode_of s d) = (\<lambda>_. None)" "good_name n"
  shows "can_add s d n"
  using assms by (simp add: can_add_def child_def tmpfs_entry_def tmpfs_scan_def MAX_DIR_ENTRY_def numeral_eq_Suc)

lemma root_path: "path_ok []"
  by (simp add: path_ok_def plain_def short_def MAX_PATH_NAME_def)

section \<open>Creating\<close>

text \<open>C12: \<open>vfs_mkdir\<close> refines the update of the map from paths to nodes.  On a well-formed file system
  with three free frames, take a path shorter than 255 characters, with components of at most 15, to a
  directory of the in-memory file system that has room for an entry, and a name of at most 15 characters
  without \<open>%\<close> and slash that is not in it.  (Longer names and directories of the RAM disk are refused
  inside, and \<open>vfs_mkdir\<close> returns 0 all the same.)  It returns 0, the map gets exactly the new path, its
  node is a new, empty directory, no other directory changes, and the file system is well formed again.\<close>

theorem vfs_mkdir_refines:
  assumes "fs_ok s N" "view s p = Some d" "path_ok p" "can_add s d n" "roomy 3 s"
  shows "\<exists>s' v. vfs_mkdir (render (p @ [n])) s = Some (s', 0) \<and> view s' = (view s)(p @ [n] \<mapsto> v) \<and> v \<notin> N \<and>
    fs_ok s' (insert v N) \<and> i_type (inode_of s' v) = dir_t \<and> i_entry (inode_of s' v) = (\<lambda>_. None) \<and>
    (\<forall>x \<in> N. vnodes s' x = vnodes s x \<and> (x \<noteq> d \<longrightarrow> inode_of s' x = inode_of s x))"
proof -
  have rm: "roomy (3 + 0) s" using assms(5) by simp
  have "x \<in> kblocks s" if "x \<in> N" for x using node_okD(1) that assms(1) by (auto simp: fs_ok_def)
  then show ?thesis using mkdir_step[OF assms(1-4) rm] by metis
qed

theorem vfs_mkdir_refines_witness:
  "\<exists>s s' s'' d v w. view s = [[] \<mapsto> d] \<and> vfs_mkdir ''/home'' s = Some (s', 0) \<and>
     vfs_mkdir ''/home/user'' s' = Some (s'', 0) \<and>
     view s'' = [[] \<mapsto> d, [''home''] \<mapsto> v, [''home'', ''user''] \<mapsto> w]"
proof -
  obtain s d where s: "fs_ok s {d}" "view s = [[] \<mapsto> d]" "roomy 900 s"
    "v_ops (vnodes s d) = Tmpfs_vnode_ops" "i_type (inode_of s d) = dir_t" "i_entry (inode_of s d) = (\<lambda>_. None)"
    by (rule root_kern) blast
  have g: "good_name ''home''" "good_name ''user''" by (simp_all add: good_name_def MAX_FILE_NAME_def)
  have p: "view s [] = Some d" using s(2) by simp
  have rm: "roomy (3 + 3) s" using s(3) by (simp add: roomy_def)
  obtain s' v where a: "vfs_mkdir (render ([] @ [''home''])) s = Some (s', 0)" "fs_ok s' (insert v {d})" "roomy 3 s'"
    "view s' = (view s)([] @ [''home''] \<mapsto> v)" "i_type (inode_of s' v) = dir_t" "i_entry (inode_of s' v) = (\<lambda>_. None)"
    "v_ops (vnodes s' v) = Tmpfs_vnode_ops"
    by (rule mkdir_step[OF s(1) p root_path root_can_add[OF s(4-6) g(1)] rm])
  have p': "view s' [''home''] = Some v" "path_ok [''home'']"
    using a(4) by (simp_all add: path_ok_def plain_def short_def MAX_PATH_NAME_def MAX_FILE_NAME_def render_def)
  from vfs_mkdir_refines[OF a(2) p' root_can_add[OF a(7,5,6) g(2)] a(3)] obtain s'' w where
    b: "vfs_mkdir (render ([''home''] @ [''user''])) s' = Some (s'', 0)" "view s'' = (view s')([''home''] @ [''user''] \<mapsto> w)"
    by blast
  have "view s'' = [[] \<mapsto> d, [''home''] \<mapsto> v, [''home'', ''user''] \<mapsto> w]" using a(4) b(2) s(2) by simp
  then show ?thesis using s(2) a(1) b(1) by (simp add: render_def) blast
qed

text \<open>C13: opening a missing file with \<open>O_CREAT\<close>.  On a well-formed file system with four free frames, for a
  path shorter than 255 characters, with components of at most 15, to a directory of the in-memory file
  system with room, and a new name of at most 15 characters without \<open>%\<close> and slash, the two together of at
  most 255 characters: the call creates exactly that path as an empty file, and returns a new handle on
  it at position 0; a page of memory of its own, apart from everything allocated before, is the file's
  data area.\<close>

theorem vfs_open_creates:
  assumes "fs_ok s N" "view s p = Some d" "path_ok p" "can_add s d n" "roomy 4 s"
    "length (render (p @ [n])) \<le> MAX_PATH_NAME" "flags AND O_CREAT \<noteq> 0"
  shows "\<exists>s' fh v. vfs_open (render (p @ [n])) flags s = Some (s', Some fh) \<and> view s' = (view s)(p @ [n] \<mapsto> v) \<and>
    fs_ok s' (insert v N) \<and> files s' = (files s)(fh := \<lparr>f_vnode = v, f_pos = 0, fh_ops = Tmpfs_file_ops, f_flags = flags\<rparr>) \<and>
    fh \<notin> kblocks s \<and> i_type (inode_of s' v) = file_t \<and> i_datasize (inode_of s' v) = 0 \<and>
    i_data (inode_of s' v) \<in> kblocks s' - kblocks s \<and> bytes_from (i_data (inode_of s' v)) 0x1000 \<subseteq> kextent s' (i_data (inode_of s' v))"
proof -
  have rm: "roomy (4 + 0) s" using assms(5) by simp
  obtain s' fh v i dat where a: "vfs_open (render (p @ [n])) flags s = Some (s', Some fh)" "fs_ok s' (insert v N)"
    "fh \<notin> kblocks s" "view s' = (view s)(p @ [n] \<mapsto> v)"
    "inode_of s' v = (empty_inode file_t)\<lparr>i_data := dat, i_name := n\<rparr>"
    "files s' = (files s)(fh := \<lparr>f_vnode = v, f_pos = 0, fh_ops = Tmpfs_file_ops, f_flags = flags\<rparr>)"
    "bytes_from dat 0x1000 \<subseteq> kextent s' dat" "dat \<in> kblocks s'" "dat \<notin> kblocks s"
    by (rule creat_step[OF assms(1-4) rm assms(6,7)])
  then show ?thesis by (intro exI[of _ s'] exI[of _ fh] exI[of _ v]) (simp add: empty_inode_def)
qed

theorem vfs_open_creates_witness:
  "\<exists>s s' d v fh. view s = [[] \<mapsto> d] \<and> vfs_open ''/notes'' O_CREAT s = Some (s', Some fh) \<and>
     view s' = [[] \<mapsto> d, [''notes''] \<mapsto> v] \<and> i_type (inode_of s' v) = file_t"
proof -
  obtain s d where s: "fs_ok s {d}" "view s = [[] \<mapsto> d]" "roomy 900 s"
    "v_ops (vnodes s d) = Tmpfs_vnode_ops" "i_type (inode_of s d) = dir_t" "i_entry (inode_of s d) = (\<lambda>_. None)"
    by (rule root_kern) blast
  have g: "good_name ''notes''" by (simp add: good_name_def MAX_FILE_NAME_def)
  have p: "view s [] = Some d" using s(2) by simp
  have rm: "roomy 4 s" using s(3) by (simp add: roomy_def)
  have l: "length (render ([] @ [''notes''])) \<le> MAX_PATH_NAME" by (simp add: render_def MAX_PATH_NAME_def)
  have f: "O_CREAT AND O_CREAT \<noteq> 0" by (simp add: O_CREAT_def)
  from vfs_open_creates[OF s(1) p root_path root_can_add[OF s(4-6) g] rm l f] show ?thesis
    using s(2) by (simp add: render_def) blast
qed

section \<open>Writing and reading back\<close>

text \<open>C15: what is written to a file is read back.  If the data area of the file, one page, is apart
  from both buffers and the bytes fit in it, writing \<open>len\<close> bytes, seeking back to where the write
  began and reading \<open>len\<close> bytes into another buffer gives the bytes written; the write and the read
  return \<open>len\<close>, the file is at least as long as the end of the write, and no byte changes other
  than those written in the data area and those of the second buffer.\<close>

theorem file_write_read:
  assumes "fh_ops (files s fh) = Tmpfs_file_ops" "f_pos (files s fh) = pos" "inode_of s (f_vnode (files s fh)) = ino"
    and fit: "unat pos + unat len \<le> 4096"
    and sep: "range_of (i_data ino) 4096 \<inter> (range_of buf (unat len) \<union> range_of out (unat len)) = {}"
  shows "\<exists>s1 s2 s3. vfs_write fh buf len s = Some (s1, ucast len) \<and> tmpfs_lseek64 fh pos 0 s1 = (s2, pos) \<and>
    vfs_read fh out len s2 = Some (s3, ucast len) \<and>
    (\<forall>i < unat len. bytes s3 (out + of_nat i) = bytes s (buf + of_nat i)) \<and>
    (\<forall>a. a \<notin> range_of (i_data ino + pos) (unat len) \<union> range_of out (unat len) \<longrightarrow> bytes s3 a = bytes s a) \<and>
    i_datasize (inode_of s1 (f_vnode (files s fh))) = max (i_datasize ino) (pos + len)"
proof -
  let ?v = "f_vnode (files s fh)"
  note [simp] = assms(2,3)
  have "range_of (i_data (inode_of s ?v)) 4096 \<inter> range_of buf (unat len) = {}" using sep by auto
  moreover have "unat (f_pos (files s fh)) + unat len \<le> 4096" using fit by simp
  ultimately obtain s1 where w: "tmpfs_write fh buf len s = (s1, ucast len)" "vnodes s1 = vnodes s"
    "files s1 = (files s)(fh := (files s fh)\<lparr>f_pos := f_pos (files s fh) + len\<rparr>)"
    "\<forall>i < unat len. bytes s1 (i_data (inode_of s ?v) + f_pos (files s fh) + of_nat i) = bytes s (buf + of_nat i)"
    "\<forall>a. a \<notin> range_of (i_data (inode_of s ?v) + f_pos (files s fh)) (unat len) \<longrightarrow> bytes s1 a = bytes s a"
    "i_data (inode_of s1 ?v) = i_data (inode_of s ?v)"
    "i_datasize (inode_of s1 ?v) = max (i_datasize (inode_of s ?v)) (f_pos (files s fh) + len)"
    by (rule write_step)
  define s2 where "s2 = set_file (\<lambda>x. x\<lparr>f_pos := pos\<rparr>) fh s1"
  have f2: "files s2 fh = files s fh" using w(3) assms(2) by (simp add: s2_def set_file_def)
  have i2: "inode_of s2 ?v = inode_of s1 ?v" "bytes s2 = bytes s1" by (simp_all add: s2_def set_file_def inode_of_def)
  have "range_of (i_data (inode_of s2 (f_vnode (files s2 fh)))) 4096 \<inter> range_of out (unat len) = {}"
    using sep i2 f2 w(6) by auto
  moreover have "unat (f_pos (files s2 fh)) + unat len \<le> 4096" using fit f2 by simp
  moreover have "f_pos (files s2 fh) + len \<le> i_datasize (inode_of s2 (f_vnode (files s2 fh)))" using i2 f2 w(7) by simp
  ultimately obtain s3 where r: "tmpfs_read fh out len s2 = (s3, ucast len)"
    "\<forall>i < unat len. bytes s3 (out + of_nat i) = bytes s2 (i_data (inode_of s2 (f_vnode (files s2 fh))) + f_pos (files s2 fh) + of_nat i)"
    "\<forall>a. a \<notin> range_of out (unat len) \<longrightarrow> bytes s3 a = bytes s2 a"
    by (rule read_step)
  have "vfs_write fh buf len s = Some (s1, ucast len)" "vfs_read fh out len s2 = Some (s3, ucast len)"
    using w(1) r(1) f2 assms(1) by (simp_all add: vfs_write_def vfs_read_def ops_table_def)
  moreover have "tmpfs_lseek64 fh pos 0 s1 = (s2, pos)" by (simp add: tmpfs_lseek64_def s2_def)
  ultimately show ?thesis using w(4-7) r(2,3) i2 f2
    by (intro exI[of _ s1] exI[of _ s2] exI[of _ s3]) simp
qed

lemma range_of_bounds:
  assumes "a \<in> range_of d n" "unat d + n < 2 ^ 64"
  shows "unat d \<le> unat a \<and> unat a < unat d + n"
proof -
  obtain i where i: "i < n" "a = d + of_nat i" using assms(1) by (auto simp: range_of_iff)
  have n: "unat (of_nat i :: addr) = i" by (rule unat_of_nat_64) (use i(1) assms(2) in simp)
  have "unat a = unat d + i" using assms(2) i n by (simp add: unat_add_lem[THEN iffD1])
  then show ?thesis using i(1) by simp
qed

theorem file_write_read_witness:
  "\<exists>s s1 s2 s3 fh. vfs_write fh 0x1000 5 s = Some (s1, 5) \<and> tmpfs_lseek64 fh 100 0 s1 = (s2, 100) \<and>
     vfs_read fh 0x2000 5 s2 = Some (s3, 5) \<and> bytes s3 (0x2000 + of_nat 4) = 7"
proof -
  obtain s where s: "fh_ops (files s 64) = Tmpfs_file_ops" "f_pos (files s 64) = 100"
    "inode_of s (f_vnode (files s 64)) = (empty_inode file_t)\<lparr>i_data := 0x8000\<rparr>" "bytes s 0x1004 = 7"
    by (rule that[of "boot_kern\<lparr>bytes := (\<lambda>_. 0)(0x1004 := 7),
      files := (\<lambda>_. \<lparr>f_vnode = 0x50, f_pos = 100, fh_ops = Tmpfs_file_ops, f_flags = 0\<rparr>),
      vnodes := (\<lambda>_. new_vnode Tmpfs_vnode_ops Tmpfs_file_ops 0x60),
      inodes := (\<lambda>_. (empty_inode file_t)\<lparr>i_data := 0x8000\<rparr>)\<rparr>"]) (simp_all add: inode_of_def)
  have sep: "range_of (i_data ((empty_inode file_t)\<lparr>i_data := 0x8000\<rparr>)) 4096 \<inter>
      (range_of 0x1000 (unat (5 :: 64 word)) \<union> range_of 0x2000 (unat (5 :: 64 word))) = {}"
    using range_of_bounds[of _ 32768 4096] range_of_bounds[of _ 4096 5] range_of_bounds[of _ 8192 5] by fastforce
  from file_write_read[OF s(1-3) _ sep] obtain s1 s2 s3 where
    r: "vfs_write 64 0x1000 5 s = Some (s1, ucast (5 :: 64 word))" "tmpfs_lseek64 64 100 0 s1 = (s2, 100)"
    "vfs_read 64 0x2000 5 s2 = Some (s3, ucast (5 :: 64 word))"
    "\<forall>i < unat (5 :: 64 word). bytes s3 (0x2000 + of_nat i) = bytes s (0x1000 + of_nat i)"
    by auto
  have "bytes s3 (0x2000 + of_nat 4) = bytes s (0x1000 + of_nat 4)" using r(4) by (rule allE[of _ 4]) simp
  then show ?thesis using r(1-3) s(4)
    by (intro exI[of _ s] exI[of _ s1] exI[of _ s2] exI[of _ s3] exI[of _ 64]) simp
qed

end
