(* ===== verification/Threads.thy ===== *)
theory Threads
  imports Mmu Vfs
begin

text \<open>
  Threads of \<open>kernel/src/sched.c\<close>: \<open>init_thread_sched\<close>, \<open>idle\<close>, \<open>kill_zombies\<close>, \<open>thread_create\<close> and
  \<open>thread_exec\<close>.  The addresses of the functions \<open>idle\<close> and \<open>signal_handler_wrapper\<close> come from the
  linker and are arguments.  \<open>thread_exec\<close> ends in an \<open>eret\<close> to the program; its model is the state
  at that point.  \<open>None\<close> is an access through a null or dangling pointer, or an index out of bounds
  inside the allocator.
\<close>

section \<open>Creation\<close>

text \<open>The field writes of \<open>thread_create\<close>, the signal arrays up to \<open>SIGNAL_MAX - 1\<close>.\<close>

definition fresh_thread :: "64 word \<Rightarrow> 32 word \<Rightarrow> addr \<Rightarrow> addr \<Rightarrow> addr \<Rightarrow> addr \<Rightarrow> addr \<Rightarrow> thread_t \<Rightarrow> thread_t" where
  "fresh_thread start filesize usp ksp ssp dat pgd x =
     x\<lparr>vma_list := [], t_status := THREAD_ACTIVE,
       ctx := (ctx x)\<lparr>c_lr := start, c_sp := ksp + KSTACK_SIZE, c_fp := ksp + KSTACK_SIZE, c_pgd := pgd\<rparr>,
       user_sp := usp, kernel_sp := ksp, signal_sp := ssp, signal_is_checking := False, t_data := dat, datasize := filesize,
       curr_working_dir := ''/'',
       signal_handler := (\<lambda>i. if i < SIGNAL_MAX then Signal_default_handler else signal_handler x i),
       sigcount := (\<lambda>i. if i < SIGNAL_MAX then 0 else sigcount x i)\<rparr>"

definition free_slot :: "kern \<Rightarrow> nat option" where
  "free_slot s = List.find (\<lambda>i. t_status (threads s i) = THREAD_FREE) [0..<MAX_THREAD_COUNT + 1]"

text \<open>The stacks and the data may be null, they are not written here; the table is cleared.\<close>

definition thread_create :: "64 word \<Rightarrow> 32 word \<Rightarrow> kern \<Rightarrow> (kern \<times> nat option) option" where
  "thread_create start filesize s =
     (let s0 = disable_interrupt s in
      case free_slot s0 of None \<Rightarrow> Some (enable_interrupt s0, None)
      | Some t \<Rightarrow>
          (case kalloc (ucast USTACK_SIZE) s0 of None \<Rightarrow> None | Some (s1, usp) \<Rightarrow>
           case kalloc (ucast KSTACK_SIZE) s1 of None \<Rightarrow> None | Some (s2, ksp) \<Rightarrow>
           case kalloc (of_nat FRAME_SIZE) s2 of None \<Rightarrow> None | Some (s3, ssp) \<Rightarrow>
           case kalloc filesize s3 of None \<Rightarrow> None | Some (s4, dat) \<Rightarrow>
           case knew 0x1000 s4 of None \<Rightarrow> None | Some (s5, pgd) \<Rightarrow>
             (let s6 = set_thread (fresh_thread start filesize usp ksp ssp dat pgd) t (clear_page pgd s5)
              in Some (enable_interrupt (push_rq t s6), Some t))))"

section \<open>Start of the scheduler\<close>

definition reset_threads :: "kern \<Rightarrow> kern" where
  "reset_threads s = s\<lparr>threads := (\<lambda>i. if i \<le> MAX_THREAD_COUNT then
     (threads s i)\<lparr>pid := int i, t_status := THREAD_FREE, th_prev := None, th_next := None\<rparr> else threads s i)\<rparr>"

definition init_thread_sched :: "addr \<Rightarrow> kern \<Rightarrow> kern option" where
  "init_thread_sched idle s =
     (case thread_create idle 0x1000 (reset_threads (disable_interrupt s)) of
        None \<Rightarrow> None | Some (s1, None) \<Rightarrow> None
      | Some (s1, Some t) \<Rightarrow> Some (enable_interrupt (s1\<lparr>curr_thread := t\<rparr>)))"

section \<open>Reaping\<close>

text \<open>Taking \<open>th\<close> out of the queue, and giving up what it holds.\<close>

definition unlink_thread :: "nat \<Rightarrow> kern \<Rightarrow> kern" where
  "unlink_thread th s =
     (let n = th_next (threads s th); p = th_prev (threads s th);
          s1 = (if RQ_head s = Some th then s\<lparr>RQ_head := n\<rparr> else s);
          s2 = (if RQ_tail s1 = Some th then s1\<lparr>RQ_tail := p\<rparr> else s1);
          s3 = (case p of None \<Rightarrow> s2 | Some p' \<Rightarrow> set_thread (\<lambda>x. x\<lparr>th_next := n\<rparr>) p' s2)
      in (case n of None \<Rightarrow> s3 | Some n' \<Rightarrow> set_thread (\<lambda>x. x\<lparr>th_prev := p\<rparr>) n' s3))"

definition close_fd :: "nat \<Rightarrow> nat \<Rightarrow> kern \<Rightarrow> kern option" where
  "close_fd th i s = (case fd_table (threads s th) i of None \<Rightarrow> Some s | Some f \<Rightarrow> vfs_close f s)"

definition reap :: "nat \<Rightarrow> kern \<Rightarrow> kern option" where
  "reap th s =
     (let s1 = (if SAFE_DEMO s then s
                else klog crnl (klog_hex (of_int (pid (threads s th))) (klog ''Idle thread find zombie '' s))) in
      case mmu_free_page_tables (c_pgd (ctx (threads s1 th))) 0 (unlink_thread th s1) of None \<Rightarrow> None | Some s2 \<Rightarrow>
      case mmu_del_all_vma th s2 of None \<Rightarrow> None | Some s3 \<Rightarrow>
      case run_all (close_fd th) [0..<MAX_FD] s3 of None \<Rightarrow> None | Some s4 \<Rightarrow>
      case krelease (kernel_sp (threads s4 th)) s4 of None \<Rightarrow> None | Some s5 \<Rightarrow>
      case krelease (PHYS_TO_VIRT (c_pgd (ctx (threads s5 th)))) s5 of None \<Rightarrow> None | Some s6 \<Rightarrow>
      Some (set_thread (\<lambda>x. x\<lparr>t_status := THREAD_FREE, th_prev := None, th_next := None\<rparr>) th s6))"

partial_function (option) reap_loop :: "nat ptr \<Rightarrow> kern \<Rightarrow> kern option" where
  "reap_loop th_ptr s =
     (case th_ptr of None \<Rightarrow> Some s
      | Some th \<Rightarrow>
          (let next_ptr = th_next (threads s th) in
           if zombie s th then Option.bind (reap th s) (\<lambda>s1. reap_loop next_ptr s1) else reap_loop next_ptr s))"

definition kill_zombies :: "kern \<Rightarrow> kern option" where
  "kill_zombies s =
     (let s0 = disable_interrupt s in map_option enable_interrupt (reap_loop (RQ_head s0) s0))"

text \<open>One round of the idle thread.\<close>

definition idle_round :: "kern \<Rightarrow> kern option" where
  "idle_round s = Option.bind (kill_zombies s) schedule"

section \<open>The first program\<close>

text \<open>The areas of a program: code and data, stack, device registers, signal wrapper, signal stack.\<close>

definition add_vmas :: "nat \<Rightarrow> addr \<Rightarrow> kern \<Rightarrow> kern option" where
  "add_vmas t wrapper s =
     (case mmu_add_vma t USER_KERNEL_BASE (ucast (datasize (threads s t))) (VIRT_TO_PHYS (t_data (threads s t))) 7 True s of None \<Rightarrow> None | Some s1 \<Rightarrow>
      case mmu_add_vma t (USER_STACK_BASE - USTACK_SIZE) USTACK_SIZE (VIRT_TO_PHYS (user_sp (threads s1 t))) 7 True s1 of None \<Rightarrow> None | Some s2 \<Rightarrow>
      case mmu_add_vma t PERIPHERAL_START (PERIPHERAL_END - PERIPHERAL_START) PERIPHERAL_START 3 False s2 of None \<Rightarrow> None | Some s3 \<Rightarrow>
      case mmu_add_vma t USER_SIGNAL_WRAPPER_VA 0x2000 (VIRT_TO_PHYS wrapper) 5 False s3 of None \<Rightarrow> None | Some s4 \<Rightarrow>
      mmu_add_vma t USER_SIGNAL_STKSTART_VA (of_nat FRAME_SIZE) (VIRT_TO_PHYS (signal_sp (threads s4 t))) 7 True s4)"

definition open_fd :: "nat \<Rightarrow> kern \<Rightarrow> kern option" where
  "open_fd i s =
     (case vfs_open ''/dev/uart'' 0 s of None \<Rightarrow> None
      | Some (s1, None) \<Rightarrow> Some s1
      | Some (s1, Some f) \<Rightarrow> Some (set_thread (\<lambda>x. x\<lparr>fd_table := (fd_table x)(i := Some f)\<rparr>) (curr_thread s1) s1))"

text \<open>\<open>thread_exec\<close> up to the context of the new thread; a null thread is not tested.\<close>

definition thread_setup :: "addr \<Rightarrow> addr \<Rightarrow> 32 word \<Rightarrow> kern \<Rightarrow> (kern \<times> nat) option" where
  "thread_setup wrapper data filesize s =
     (case thread_create data filesize s of None \<Rightarrow> None | Some (s1, None) \<Rightarrow> None
      | Some (s1, Some t) \<Rightarrow>
          (case add_vmas t wrapper s1 of None \<Rightarrow> None
           | Some s2 \<Rightarrow> Some (set_thread (\<lambda>x. x\<lparr>ctx := (ctx x)\<lparr>c_pgd := VIRT_TO_PHYS (c_pgd (ctx x)), c_sp := USER_STACK_BASE,
                          c_fp := USER_STACK_BASE, c_lr := USER_KERNEL_BASE\<rparr>\<rparr>) t s2, t)))"

text \<open>The copy loop has a signed counter.\<close>

definition thread_exec :: "addr \<Rightarrow> addr \<Rightarrow> 32 word \<Rightarrow> kern \<Rightarrow> kern option" where
  "thread_exec wrapper data filesize s =
     (case thread_setup wrapper data filesize s of None \<Rightarrow> None
      | Some (s3, t) \<Rightarrow>
          (if unat filesize \<ge> 2 ^ 31 then None
           else
             (let s4 = s3\<lparr>bytes := copy_loop (t_data (threads s3 t)) data (unat filesize) (bytes s3), curr_thread := t\<rparr>
              in Option.bind (run_all open_fd [0, 1, 2] s4) (\<lambda>s5. add_timer Schedule_timer 1 [] False s5))))"

end
