(* ===== verification/Signal.thy ===== *)
theory Signal
  imports Threads
begin

text \<open>
  Signals, \<open>kernel/src/signal.c\<close>.  \<open>check_signal\<close> runs on the way back to user mode; a handler of the
  user leaves it by an \<open>eret\<close> and comes back through the system call \<open>sigreturn\<close>, which loads the
  context that \<open>store_context\<close> saved at the top of the loop.  So the loop is cut at that point:
  \<open>signal_iter\<close> is its body behind \<open>store_context\<close> at an index, and the outcome tells how it ended.
  \<open>cpu\<close> is what \<open>store_context\<close> finds in the registers, \<open>wrapper\<close> and \<open>dflt\<close> are the addresses of
  \<open>signal_handler_wrapper\<close> and \<open>signal_default_handler\<close>.
\<close>

section \<open>Contexts\<close>

text \<open>\<open>store_context\<close> does not write the page table of the context.\<close>

definition store_context :: "thread_context_t \<Rightarrow> thread_context_t \<Rightarrow> thread_context_t" where
  "store_context cpu c = cpu\<lparr>c_pgd := c_pgd c\<rparr>"

text \<open>The user registers at an \<open>eret\<close>: \<open>elr_el1\<close>, \<open>sp_el0\<close>, \<open>spsr_el1\<close> and \<open>x0\<close>.\<close>

record user_entry =
  ue_elr :: "64 word"
  ue_sp :: "64 word"
  ue_spsr :: "64 word"
  ue_x0 :: "64 word"

text \<open>The end of the checks: all signals looked at, a handler entered at an index, or the thread killed
  and another one running.\<close>

datatype signal_outcome = Checked kern | Entered nat user_entry kern | Killed kern

definition handler_address :: "addr \<Rightarrow> kfun \<Rightarrow> 64 word" where
  "handler_address dflt h = (case h of User_code a \<Rightarrow> a | _ \<Rightarrow> dflt)"

definition curr :: "kern \<Rightarrow> thread_t" where
  "curr s = threads s (curr_thread s)"

definition set_curr :: "(thread_t \<Rightarrow> thread_t) \<Rightarrow> kern \<Rightarrow> kern" where
  "set_curr f s = set_thread f (curr_thread s) s"

section \<open>Running a signal\<close>

definition signal_default_handler :: "kern \<Rightarrow> kern option" where
  "signal_default_handler s =
     (let s0 = disable_interrupt s;
          s1 = (if SAFE_DEMO s0 then s0
                else klog crnl (klog_hex (of_int (pid (curr s0))) (klog ''Signal default handler killing thread '' s0)));
          s2 = set_curr (\<lambda>x. x\<lparr>t_status := THREAD_ZOMBIE, th_prev := None, th_next := None\<rparr>) s1
      in schedule (enable_interrupt (push_rq (curr_thread s2) s2)))"

definition log_run_signal :: "addr \<Rightarrow> kern \<Rightarrow> kern" where
  "log_run_signal dflt s =
     (if SAFE_DEMO s then s
      else klog crnl (klog_hex (handler_address dflt (curr_signal_handler (curr s)))
        (klog '', signal handler address at '' (klog_hex (of_int (pid (curr s)))
           (klog ''[DEBUG] run signal in thread id '' s)))))"

definition run_signal :: "addr \<Rightarrow> addr \<Rightarrow> addr \<Rightarrow> nat \<Rightarrow> kern \<Rightarrow> signal_outcome option" where
  "run_signal wrapper dflt tpf sig s =
     (let s1 = log_run_signal dflt (set_curr (\<lambda>x. x\<lparr>curr_signal_handler := signal_handler x sig\<rparr>) s);
          h = curr_signal_handler (curr s1)
      in if h = Signal_default_handler then map_option Killed (signal_default_handler s1)
         else Some (Entered sig \<lparr>ue_elr = USER_SIGNAL_WRAPPER_VA + wrapper mod 0x1000,
                ue_sp = USER_SIGNAL_STKSTART_VA + of_nat FRAME_SIZE, ue_spsr = spsr_el1 (trapframes s1 tpf),
                ue_x0 = handler_address dflt h\<rparr> s1))"

text \<open>Behind \<open>store_context\<close> at index \<open>i\<close>; \<open>Checked\<close> means that the loop goes on.\<close>

definition signal_iter :: "addr \<Rightarrow> addr \<Rightarrow> addr \<Rightarrow> nat \<Rightarrow> kern \<Rightarrow> signal_outcome option" where
  "signal_iter wrapper dflt tpf i s =
     (if sigcount (curr s) i > 0 then
        run_signal wrapper dflt tpf i
          (enable_interrupt (set_curr (\<lambda>x. x\<lparr>sigcount := (sigcount x)(i := sigcount x i - 1)\<rparr>) (disable_interrupt s)))
      else Some (Checked s))"

definition save_context :: "thread_context_t \<Rightarrow> kern \<Rightarrow> kern" where
  "save_context cpu = set_curr (\<lambda>x. x\<lparr>signal_saved_context := store_context cpu (signal_saved_context x)\<rparr>)"

text \<open>The rest of the loop, and the end of the function.\<close>

primrec signal_loop :: "addr \<Rightarrow> addr \<Rightarrow> thread_context_t \<Rightarrow> addr \<Rightarrow> nat list \<Rightarrow> kern \<Rightarrow> signal_outcome option" where
  "signal_loop wrapper dflt cpu tpf [] s =
     Some (Checked (enable_interrupt (set_curr (\<lambda>x. x\<lparr>signal_is_checking := False\<rparr>) (disable_interrupt s))))"
| "signal_loop wrapper dflt cpu tpf (i # is) s =
     (case signal_iter wrapper dflt tpf i (save_context cpu s) of
        Some (Checked s1) \<Rightarrow> signal_loop wrapper dflt cpu tpf is s1
      | r \<Rightarrow> r)"

definition check_signal :: "addr \<Rightarrow> addr \<Rightarrow> thread_context_t \<Rightarrow> addr \<Rightarrow> kern \<Rightarrow> signal_outcome option" where
  "check_signal wrapper dflt cpu tpf s =
     (let s0 = disable_interrupt s in
      if signal_is_checking (curr s0) then Some (Checked (enable_interrupt s0))
      else signal_loop wrapper dflt cpu tpf [0..<SIGNAL_MAX + 1]
             (enable_interrupt (set_curr (\<lambda>x. x\<lparr>signal_is_checking := True\<rparr>) s0)))"

text \<open>Coming back from a handler that was entered at \<open>i\<close>: \<open>load_context\<close> continues behind
  \<open>store_context\<close> of that round.\<close>

definition after_handler :: "addr \<Rightarrow> addr \<Rightarrow> thread_context_t \<Rightarrow> addr \<Rightarrow> nat \<Rightarrow> kern \<Rightarrow> signal_outcome option" where
  "after_handler wrapper dflt cpu tpf i s =
     (case signal_iter wrapper dflt tpf i s of
        Some (Checked s1) \<Rightarrow> signal_loop wrapper dflt cpu tpf [i + 1..<SIGNAL_MAX + 1] s1
      | r \<Rightarrow> r)"

section \<open>Printing the queue\<close>

primrec print_queue :: "nat \<Rightarrow> nat ptr \<Rightarrow> kern \<Rightarrow> kern" where
  "print_queue 0 th s = s"
| "print_queue (Suc n) th s =
     (case th of None \<Rightarrow> s
      | Some t \<Rightarrow> print_queue n (th_next (threads s t))
          (klog crnl (klog_hex (of_int (t_status (threads s t)))
            (klog '', Status: '' (klog_hex (of_int (pid (threads s t))) (klog ''Thread ID: '' s))))))"

definition debug_print_queue :: "kern \<Rightarrow> kern" where
  "debug_print_queue s =
     (let s1 = klog ''---- Queue Status ----'' s
      in klog (''---- End of Queue ----'' @ crnl) (print_queue 10 (RQ_head s1) s1))"

end
