(* ===== verification/Syscall.thy ===== *)
theory Syscall
  imports Signal Mmap
begin

text \<open>
  The system calls of \<open>kernel/src/syscall.c\<close> and their dispatch in \<open>exception.c\<close>.  A trap frame is
  named by its address, as in the code; \<open>ret\<close> writes its \<open>x0\<close>.  Buffers and strings of the user
  are read at their address in \<open>bytes\<close>, the memory as the current translation shows it; page faults
  of the kernel on them are not modelled.  \<open>None\<close> is undefined behaviour of the C code: a write past
  a buffer, an index out of bounds, a null pointer; or a wait for an interrupt that this step
  does not see.
\<close>

definition ret :: "addr \<Rightarrow> 64 word \<Rightarrow> kern \<Rightarrow> kern" where
  "ret tpf v s = s\<lparr>trapframes := (trapframes s)(tpf := (trapframes s tpf)\<lparr>xreg := (xreg (trapframes s tpf))(0 := v)\<rparr>)\<rparr>"

section \<open>Strings of the user\<close>

definition user_text :: "addr \<Rightarrow> kern \<Rightarrow> string option" where
  "user_text p s = map_option (map (\<lambda>b. char_of (unat b))) (get_text (bytes s) p)"

text \<open>\<open>strcpy\<close> into \<open>abs_path[MAX_PATH_NAME]\<close> and \<open>get_absolute_path\<close> there.\<close>

definition user_path :: "addr \<Rightarrow> kern \<Rightarrow> string option" where
  "user_path p s =
     (case user_text p s of None \<Rightarrow> None
      | Some t \<Rightarrow>
          if length t \<ge> MAX_PATH_NAME then None
          else (case get_absolute_path t (curr_working_dir (curr s)) of None \<Rightarrow> None
            | Some r \<Rightarrow> if length r \<ge> MAX_PATH_NAME then None else Some r))"

section \<open>Processes\<close>

definition getpid :: "addr \<Rightarrow> kern \<Rightarrow> kern" where
  "getpid tpf s = ret tpf (of_int (pid (curr s))) s"

primrec recv_loop :: "addr \<Rightarrow> nat \<Rightarrow> kern \<Rightarrow> kern option" where
  "recv_loop buf 0 s = Some s"
| "recv_loop buf (Suc n) s =
     (case uart_recv (con s) of None \<Rightarrow> None
      | Some (c, r) \<Rightarrow> recv_loop (buf + 1) n (s\<lparr>con := c, bytes := (bytes s)(buf := r)\<rparr>))"

primrec send_loop :: "addr \<Rightarrow> nat \<Rightarrow> kern \<Rightarrow> kern" where
  "send_loop buf 0 s = s"
| "send_loop buf (Suc n) s = send_loop (buf + 1) n (s\<lparr>con := uart_send (bytes s buf) (con s)\<rparr>)"

definition uartread :: "addr \<Rightarrow> addr \<Rightarrow> 64 word \<Rightarrow> kern \<Rightarrow> kern option" where
  "uartread tpf buf sz s =
     map_option (ret tpf sz) (if SAFE_DEMO s then recv_loop buf (unat sz) s else getc_loop buf (unat sz) s)"

definition uartwrite :: "addr \<Rightarrow> addr \<Rightarrow> 64 word \<Rightarrow> kern \<Rightarrow> kern option" where
  "uartwrite tpf buf sz s =
     map_option (ret tpf sz) (if SAFE_DEMO s then Some (send_loop buf (unat sz) s) else putc_loop buf (unat sz) s)"

text \<open>The result of \<open>vfs_lookup\<close> is not tested.  The block of the first \<open>kmalloc\<close> of the data is lost.\<close>

definition exec_size :: "string \<Rightarrow> kern \<Rightarrow> kern option" where
  "exec_size path s =
     (case vfs_lookup path s of None \<Rightarrow> None | Some (s1, None) \<Rightarrow> None
      | Some (s1, Some node) \<Rightarrow>
          map_option (\<lambda>n. set_curr (\<lambda>x. x\<lparr>datasize := ucast n\<rparr>) s1) (node_getsize node s1))"

definition exec_alloc :: "kern \<Rightarrow> kern option" where
  "exec_alloc s =
     (case kalloc (datasize (curr s)) s of None \<Rightarrow> None | Some (s1, _) \<Rightarrow>
      case knew (datasize (curr s1)) s1 of None \<Rightarrow> None | Some (s2, dat) \<Rightarrow>
      case kalloc (ucast USTACK_SIZE) s2 of None \<Rightarrow> None | Some (s3, usp) \<Rightarrow>
      case kalloc (of_nat FRAME_SIZE) s3 of None \<Rightarrow> None | Some (s4, ssp) \<Rightarrow>
      Some (set_curr (\<lambda>x. x\<lparr>t_data := dat, user_sp := usp, signal_sp := ssp\<rparr>) s4))"

definition exec_load :: "string \<Rightarrow> kern \<Rightarrow> kern option" where
  "exec_load path s =
     (case vfs_open path 0 s of None \<Rightarrow> None | Some (s1, None) \<Rightarrow> None
      | Some (s1, Some f) \<Rightarrow>
          (case vfs_read f (t_data (curr s1)) (ucast (datasize (curr s1))) s1 of None \<Rightarrow> None
           | Some (s2, _) \<Rightarrow> vfs_close f s2))"

definition exec :: "addr \<Rightarrow> addr \<Rightarrow> addr \<Rightarrow> kern \<Rightarrow> kern option" where
  "exec wrapper tpf name s =
     (case mmu_del_all_vma (curr_thread s) s of None \<Rightarrow> None | Some s1 \<Rightarrow>
      case user_path name s1 of None \<Rightarrow> None | Some path \<Rightarrow>
      case exec_size path s1 of None \<Rightarrow> None | Some s2 \<Rightarrow>
      case exec_alloc s2 of None \<Rightarrow> None | Some s3 \<Rightarrow>
      case mmu_free_page_tables (c_pgd (ctx (curr s3))) 0 s3 of None \<Rightarrow> None | Some s4 \<Rightarrow>
      case add_vmas (curr_thread s4) wrapper (clear_page (PHYS_TO_VIRT (c_pgd (ctx (curr s4)))) s4) of None \<Rightarrow> None | Some s5 \<Rightarrow>
      case exec_load path s5 of None \<Rightarrow> None | Some s6 \<Rightarrow>
        (let s7 = set_curr (\<lambda>x. x\<lparr>signal_handler := (\<lambda>i. if i \<le> SIGNAL_MAX then Signal_default_handler else signal_handler x i)\<rparr>) s6
         in Some (ret tpf 0 (s7\<lparr>trapframes := (trapframes s7)(tpf :=
              (trapframes s7 tpf)\<lparr>elr_el1 := USER_KERNEL_BASE, sp_el0 := USER_STACK_BASE\<rparr>)\<rparr>))))"

section \<open>Fork\<close>

definition copy_fd :: "nat \<Rightarrow> nat \<Rightarrow> kern \<Rightarrow> kern option" where
  "copy_fd newt i s =
     (case fd_table (curr s) i of None \<Rightarrow> Some s
      | Some f \<Rightarrow>
          (case knew FILE_SIZE s of None \<Rightarrow> None
           | Some (s1, g) \<Rightarrow> Some ((set_thread (\<lambda>x. x\<lparr>fd_table := (fd_table x)(i := Some g)\<rparr>) newt s1)
               \<lparr>files := (files s1)(g := files s1 f)\<rparr>)))"

definition kept_area :: "vm_area_t \<Rightarrow> bool" where
  "kept_area v \<longleftrightarrow> virt_addr v \<noteq> USER_SIGNAL_WRAPPER_VA \<and> virt_addr v \<noteq> PERIPHERAL_START \<and> virt_addr v \<noteq> USER_SIGNAL_STKSTART_VA"

definition copy_area :: "nat \<Rightarrow> addr \<times> vm_area_t \<Rightarrow> kern \<Rightarrow> kern option" where
  "copy_area newt = (\<lambda>(a, v) s.
     if \<not> kept_area v then Some s
     else
       (case knew (ucast (area_size v)) s of None \<Rightarrow> None | Some (s1, p) \<Rightarrow>
        case mmu_add_vma newt (virt_addr v) (area_size v) (VIRT_TO_PHYS p) (rwx v) True s1 of None \<Rightarrow> None | Some s2 \<Rightarrow>
          (let s3 = s2\<lparr>bytes := utils_memcpy p (PHYS_TO_VIRT (phys_addr v)) (ucast (area_size v)) (bytes s2)\<rparr> in
           if virt_addr v = USER_KERNEL_BASE then
             map_option (set_thread (\<lambda>x. x\<lparr>t_data := p\<rparr>) newt) (krelease (t_data (threads s3 newt)) s3)
           else if virt_addr v = USER_STACK_BASE - USTACK_SIZE then
             map_option (set_thread (\<lambda>x. x\<lparr>user_sp := p\<rparr>) newt) (krelease (user_sp (threads s3 newt)) s3)
           else Some s3)))"

definition fork_areas :: "addr \<Rightarrow> nat \<Rightarrow> kern \<Rightarrow> kern option" where
  "fork_areas wrapper newt s =
     (case run_all (copy_area newt) (vma_list (curr s)) s of None \<Rightarrow> None | Some s1 \<Rightarrow>
      case mmu_add_vma newt PERIPHERAL_START (PERIPHERAL_END - PERIPHERAL_START) PERIPHERAL_START 3 False s1 of None \<Rightarrow> None | Some s2 \<Rightarrow>
      case mmu_add_vma newt USER_SIGNAL_WRAPPER_VA 0x2000 (VIRT_TO_PHYS wrapper) 5 False s2 of None \<Rightarrow> None | Some s3 \<Rightarrow>
      mmu_add_vma newt USER_SIGNAL_STKSTART_VA (of_nat FRAME_SIZE) (VIRT_TO_PHYS (signal_sp (threads s3 newt))) 7 True s3)"

text \<open>The kernel stack with the trap frames on it.\<close>

definition copy_stack :: "addr \<Rightarrow> addr \<Rightarrow> kern \<Rightarrow> kern" where
  "copy_stack new old s =
     s\<lparr>bytes := copy_loop new old (unat KSTACK_SIZE) (bytes s),
       trapframes := (\<lambda>a. if a - new < KSTACK_SIZE then trapframes s (a - new + old) else trapframes s a)\<rparr>"

definition fork_handlers :: "nat \<Rightarrow> kern \<Rightarrow> kern" where
  "fork_handlers newt s =
     set_thread (\<lambda>x. x\<lparr>signal_handler := (\<lambda>i. if i \<le> SIGNAL_MAX then signal_handler (curr s) i else signal_handler x i)\<rparr>) newt s"

text \<open>The stack and the context of the child; \<open>cpu\<close> is what \<open>store_context\<close> finds.\<close>

definition fork_context :: "thread_context_t \<Rightarrow> nat \<Rightarrow> kern \<Rightarrow> kern" where
  "fork_context cpu newt s =
     (let nk = kernel_sp (threads s newt); ok = kernel_sp (curr s);
          s1 = set_curr (\<lambda>x. x\<lparr>ctx := store_context cpu (ctx x)\<rparr>) (copy_stack nk ok s);
          c = ctx (curr s1)
      in set_thread (\<lambda>x. x\<lparr>ctx := c\<lparr>c_pgd := VIRT_TO_PHYS (c_pgd (ctx x)),
           c_fp := c_fp c + (nk - ok), c_sp := c_sp c + (nk - ok)\<rparr>\<rparr>) newt s1)"

text \<open>The parent's part, up to its return.\<close>

definition fork :: "addr \<Rightarrow> thread_context_t \<Rightarrow> addr \<Rightarrow> kern \<Rightarrow> kern option" where
  "fork wrapper cpu tpf s =
     (case thread_create (t_data (curr s)) (datasize (curr s)) (disable_interrupt s) of
        None \<Rightarrow> None | Some (s1, None) \<Rightarrow> None
      | Some (s1, Some newt) \<Rightarrow>
          (case run_all (copy_fd newt) [0..<MAX_FD + 1] (fork_handlers newt s1) of None \<Rightarrow> None | Some s2 \<Rightarrow>
           case fork_areas wrapper newt s2 of None \<Rightarrow> None | Some s3 \<Rightarrow>
             (let s4 = fork_context cpu newt s3
              in Some (ret tpf (of_int (pid (threads s4 newt))) (enable_interrupt s4)))))"

text \<open>The child's part, when it is switched to: the variable \<open>tpf\<close> on its copied stack still holds the
  address of the parent's frame.\<close>

definition fork_child :: "addr \<Rightarrow> kern \<Rightarrow> kern" where
  "fork_child tpf s = ret tpf 0 s"

definition exit :: "kern \<Rightarrow> kern" where
  "exit s = enable_interrupt (set_curr (\<lambda>x. x\<lparr>t_status := THREAD_ZOMBIE\<rparr>) (disable_interrupt s))"

section \<open>Mailbox, signals\<close>

text \<open>The words of the buffer in byte memory, least significant byte first.\<close>

definition load32 :: "mem \<Rightarrow> addr \<Rightarrow> 32 word" where
  "load32 m a = word_rcat [m (a + 3), m (a + 2), m (a + 1), m a]"

definition byte_of :: "32 word \<Rightarrow> nat \<Rightarrow> 8 word" where
  "byte_of w k = ucast (drop_bit (8 * k) w)"

text \<open>\<open>pt\<close> as bytes: \<open>utils_memcpy\<close> moves the first \<open>n\<close> of them, all of \<open>pt\<close> being 144 bytes.\<close>

definition merge_bytes :: "32 word \<Rightarrow> (nat \<Rightarrow> 8 word) \<Rightarrow> nat \<Rightarrow> 32 word" where
  "merge_bytes w f n =
     word_rcat (map (\<lambda>k. if k < n then f k else byte_of w k) [3, 2, 1, 0])"

definition copy_to_pt :: "addr \<Rightarrow> nat \<Rightarrow> kern \<Rightarrow> kern" where
  "copy_to_pt src n s =
     s\<lparr>pt := (\<lambda>i. if 4 * i < n then merge_bytes (pt s i) (\<lambda>k. bytes s (src + of_nat (4 * i + k))) (n - 4 * i) else pt s i)\<rparr>"

definition copy_from_pt :: "addr \<Rightarrow> nat \<Rightarrow> kern \<Rightarrow> kern" where
  "copy_from_pt dst n s =
     s\<lparr>bytes := (\<lambda>a. if unat (a - dst) < n then byte_of (pt s (unat (a - dst) div 4)) (unat (a - dst) mod 4) else bytes s a)\<rparr>"

text \<open>\<open>pt_addr\<close> is the address of \<open>pt\<close>.\<close>

definition syscall_mbox_call :: "gpu \<Rightarrow> addr \<Rightarrow> addr \<Rightarrow> addr \<Rightarrow> kern \<Rightarrow> kern option" where
  "syscall_mbox_call gpu pt_addr tpf mbox_user s =
     (let s0 = disable_interrupt s; n = unat (load32 (bytes s0) mbox_user) in
      if n > 144 then None
      else
        (let s1 = copy_to_pt mbox_user n s0;
             s2 = copy_from_pt mbox_user n (s1\<lparr>pt := fst (mailbox_call gpu pt_addr (pt s1))\<rparr>)
         in Some (enable_interrupt (ret tpf 8 s2))))"

definition kill :: "int \<Rightarrow> kern \<Rightarrow> kern option" where
  "kill p s =
     (let s0 = disable_interrupt s in
      if p \<ge> int MAX_THREAD_COUNT \<or> p < 0 \<or> t_status (threads s0 (nat p)) = THREAD_FREE then Some (enable_interrupt s0)
      else
        (let s1 = (if SAFE_DEMO s0 then s0 else klog crnl (klog_hex (of_int p) (klog ''Kill thread pid '' s0)));
             s2 = set_thread (\<lambda>x. x\<lparr>t_status := THREAD_ZOMBIE\<rparr>) (nat p) s1
         in schedule (enable_interrupt s2)))"

definition signal_register :: "int \<Rightarrow> addr \<Rightarrow> kern \<Rightarrow> kern" where
  "signal_register sig handler s =
     (if sig > int SIGNAL_MAX \<or> sig < 0 then s
      else
        (let s1 = (if SAFE_DEMO s then s
              else klog crnl (klog_hex handler (klog '', signal handler address at ''
                (klog_hex (of_int (pid (curr s))) (klog ''[DEBUG] register signal in thread id '' s)))))
         in set_curr (\<lambda>x. x\<lparr>signal_handler := (signal_handler x)(nat sig := User_code handler)\<rparr>) s1))"

text \<open>The index of \<open>sigcount\<close> is not checked, and the count is an \<open>int\<close>.\<close>

definition signal_kill :: "int \<Rightarrow> int \<Rightarrow> kern \<Rightarrow> kern option" where
  "signal_kill p sig s =
     (if p > int MAX_THREAD_COUNT \<or> p < 0 \<or> t_status (threads s (nat p)) = THREAD_FREE then Some s
      else
        (let s1 = (if SAFE_DEMO s then s
              else klog crnl (klog_hex (of_int p) (klog ''[DEBUG] signal kill is called in thread id '' s)))
         in if sig < 0 \<or> sig > int SIGNAL_MAX \<or> sigcount (threads s1 (nat p)) (nat sig) = 2 ^ 31 - 1 then None
            else Some (enable_interrupt (set_thread
              (\<lambda>x. x\<lparr>sigcount := (sigcount x)(nat sig := sigcount x (nat sig) + 1)\<rparr>) (nat p) (disable_interrupt s1)))))"

section \<open>Files\<close>

text \<open>A user string as the format of a message.\<close>

definition klog_user :: "addr \<Rightarrow> kern \<Rightarrow> kern option" where
  "klog_user p s = (case user_text p s of None \<Rightarrow> None | Some t \<Rightarrow> klog_text t s)"

definition set_fd :: "nat \<Rightarrow> addr ptr \<Rightarrow> kern \<Rightarrow> kern" where
  "set_fd i f = set_curr (\<lambda>x. x\<lparr>fd_table := (fd_table x)(i := f)\<rparr>)"

definition free_fd :: "kern \<Rightarrow> nat option" where
  "free_fd s = List.find (\<lambda>i. fd_table (curr s) i = None) [0..<MAX_FD]"

definition sys_open :: "addr \<Rightarrow> addr \<Rightarrow> 32 word \<Rightarrow> kern \<Rightarrow> kern option" where
  "sys_open tpf pathname flags s =
     (case klog_user pathname (klog ''[syscall] call \"open\" syscall with pathname '' s) of None \<Rightarrow> None
      | Some s1 \<Rightarrow>
          (let s2 = klog crnl (klog_hex (scast flags) (klog '' and flags '' s1)) in
           case user_path pathname s2 of None \<Rightarrow> None
           | Some path \<Rightarrow>
               (case free_fd s2 of None \<Rightarrow> Some (ret tpf (-1) s2)
                | Some i \<Rightarrow>
                    (case vfs_open path flags s2 of None \<Rightarrow> None
                     | Some (s3, None) \<Rightarrow> Some (ret tpf (-1) s3)
                     | Some (s3, Some f) \<Rightarrow> Some (ret tpf (of_nat i) (set_fd i (Some f) s3))))))"

text \<open>The descriptor is an index of an array of \<open>MAX_FD + 1\<close> elements, not checked.\<close>

definition fd_entry :: "kern \<Rightarrow> int \<Rightarrow> addr ptr option" where
  "fd_entry s fd = (if fd < 0 \<or> fd > int MAX_FD then None else Some (fd_table (curr s) (nat fd)))"

definition sys_close :: "addr \<Rightarrow> int \<Rightarrow> kern \<Rightarrow> kern option" where
  "sys_close tpf fd s =
     (let s1 = klog crnl (klog_hex (of_int fd) (klog ''[syscall] call \"close\" syscall with fd '' s)) in
      case fd_entry s1 fd of None \<Rightarrow> None
      | Some None \<Rightarrow> Some (ret tpf (-1) s1)
      | Some (Some f) \<Rightarrow> map_option (\<lambda>s2. ret tpf 0 (set_fd (nat fd) None s2)) (vfs_close f s1))"

definition sys_write :: "addr \<Rightarrow> int \<Rightarrow> addr \<Rightarrow> 64 word \<Rightarrow> kern \<Rightarrow> kern option" where
  "sys_write tpf fd buf cnt s =
     (case fd_entry s fd of None \<Rightarrow> None
      | Some None \<Rightarrow> Some (ret tpf (-1) s)
      | Some (Some f) \<Rightarrow> map_option (\<lambda>(s1, n). ret tpf (scast n) s1) (vfs_write f buf cnt s))"

definition sys_read :: "addr \<Rightarrow> int \<Rightarrow> addr \<Rightarrow> 64 word \<Rightarrow> kern \<Rightarrow> kern option" where
  "sys_read tpf fd buf cnt s =
     (case fd_entry s fd of None \<Rightarrow> None
      | Some None \<Rightarrow> Some (ret tpf (-1) s)
      | Some (Some f) \<Rightarrow> map_option (\<lambda>(s1, n). ret tpf (scast n) s1) (vfs_read f buf cnt s))"

definition sys_mkdir :: "addr \<Rightarrow> addr \<Rightarrow> kern \<Rightarrow> kern option" where
  "sys_mkdir tpf pathname s =
     (case klog_user pathname (klog ''[syscall] call \"mkdir\" syscall with pathname '' s) of None \<Rightarrow> None
      | Some s1 \<Rightarrow>
          (let s2 = klog crnl s1 in
           case user_path pathname s2 of None \<Rightarrow> None
           | Some path \<Rightarrow> map_option (\<lambda>(s3, r). ret tpf (of_int r) s3) (vfs_mkdir path s2)))"

definition sys_mount :: "addr \<Rightarrow> addr \<Rightarrow> addr \<Rightarrow> kern \<Rightarrow> kern option" where
  "sys_mount tpf target filesystem s =
     (case klog_user target (klog ''[syscall] call \"mount\" syscall with target '' s) of None \<Rightarrow> None | Some s1 \<Rightarrow>
      case klog_user filesystem (klog '', fs '' s1) of None \<Rightarrow> None | Some s2 \<Rightarrow>
        (let s3 = klog crnl s2 in
         case user_path target s3 of None \<Rightarrow> None | Some path \<Rightarrow>
         case user_text filesystem s3 of None \<Rightarrow> None | Some fs \<Rightarrow>
           map_option (\<lambda>(s4, r). ret tpf (of_int r) s4) (vfs_mount path fs s3)))"

text \<open>\<open>chdir\<close> leaves \<open>x0\<close> as it is.\<close>

definition sys_chdir :: "addr \<Rightarrow> kern \<Rightarrow> kern option" where
  "sys_chdir path s =
     (case klog_user path (klog ''[syscall] call \"chdir\" syscall with path '' s) of None \<Rightarrow> None
      | Some s1 \<Rightarrow>
          (let s2 = klog crnl s1 in
           map_option (\<lambda>p. set_curr (\<lambda>x. x\<lparr>curr_working_dir := p\<rparr>) s2) (user_path path s2)))"

section \<open>Dispatch\<close>

text \<open>What the exception code reads: the syndrome and fault address registers.\<close>

record syndrome =
  esr_ec :: nat
  esr_iss :: "32 word"
  far :: "64 word"

text \<open>Constants of the linker and the device, and the registers at \<open>store_context\<close>.\<close>

record machine =
  wrapper_addr :: addr
  pt_address :: addr
  videocore :: gpu
  cpu_regs :: thread_context_t

definition int_arg :: "64 word \<Rightarrow> int" where
  "int_arg x = sint (ucast x :: 32 word)"

definition xarg :: "addr \<Rightarrow> nat \<Rightarrow> kern \<Rightarrow> 64 word" where
  "xarg tpf i s = xreg (trapframes s tpf) i"

text \<open>A call comes back to the router, or \<open>sigreturn\<close> loads the saved context.\<close>

datatype control = Returns kern | Loads thread_context_t kern

definition with_mask :: "(kern \<Rightarrow> kern option) \<Rightarrow> kern \<Rightarrow> kern option" where
  "with_mask f s = (if SAFE_DEMO s then map_option enable_interrupt (f (disable_interrupt s)) else f s)"

definition syscall_table :: "machine \<Rightarrow> addr \<Rightarrow> nat \<Rightarrow> kern \<Rightarrow> kern option" where
  "syscall_table m tpf n s =
     (let a = (\<lambda>i. xarg tpf i s) in
      if n = 0 then Some (getpid tpf s)
      else if n = 1 then with_mask (uartread tpf (a 0) (a 1)) s
      else if n = 2 then with_mask (uartwrite tpf (a 0) (a 1)) s
      else if n = 3 then exec (wrapper_addr m) tpf (a 0) s
      else if n = 4 then fork (wrapper_addr m) (cpu_regs m) tpf s
      else if n = 5 then Some (exit s)
      else if n = 6 then syscall_mbox_call (videocore m) (pt_address m) tpf (a 1) s
      else if n = 7 then kill (int_arg (a 0)) s
      else if n = 8 then Some (signal_register (int_arg (a 0)) (a 1) s)
      else if n = 9 then signal_kill (int_arg (a 0)) (int_arg (a 1)) s
      else if n = 10 then
        map_option (\<lambda>(s1, v). ret tpf v s1) (mmap (a 0) (a 1) (ucast (a 2)) (ucast (a 3)) s)
      else if n = 11 then sys_open tpf (a 0) (ucast (a 1)) s
      else if n = 12 then sys_close tpf (int_arg (a 0)) s
      else if n = 13 then sys_write tpf (int_arg (a 0)) (a 1) (a 2) s
      else if n = 14 then sys_read tpf (int_arg (a 0)) (a 1) (a 2) s
      else if n = 15 then sys_mkdir tpf (a 0) s
      else if n = 16 then map_option enable_interrupt (sys_mount tpf (a 1) (a 2) (disable_interrupt s))
      else if n = 17 then sys_chdir (a 0) s
      else Some s)"

definition sync_64_router :: "machine \<Rightarrow> syndrome \<Rightarrow> addr \<Rightarrow> kern \<Rightarrow> control option" where
  "sync_64_router m e tpf s =
     (if esr_ec e = 0b100100 \<or> esr_ec e = 0b100000 then
        map_option Returns (mmu_memfail_abort_handle (esr_iss e) (far e) s)
      else
        (let s1 = el1_interrupt_enable s; n = xarg tpf 8 s1 in
         if n = 50 then Some (Loads (signal_saved_context (curr s1)) s1)
         else map_option (Returns \<circ> el1_interrupt_disable) (syscall_table m tpf (unat n) s1)))"

end
