(* ===== verification/Thread_Inv.thy ===== *)
theory Thread_Inv
  imports Syscall
begin

text \<open>
  What the file system, the page tables and the allocator leave alone: the thread table, the
  running thread and the run queue.  These frame lemmas carry the invariants of the threads through
  the system calls.
\<close>

definition sched_of :: "kern \<Rightarrow> (nat \<Rightarrow> thread_t) \<times> nat \<times> nat ptr \<times> nat ptr" where
  "sched_of s = (threads s, curr_thread s, RQ_head s, RQ_tail s)"

lemma sched_ofD:
  assumes "sched_of s' = sched_of s"
  shows "threads s' = threads s" "curr_thread s' = curr_thread s" "RQ_head s' = RQ_head s" "RQ_tail s' = RQ_tail s"
    "curr s' = curr s"
  using assms by (simp_all add: sched_of_def curr_def)

lemma sched_quiet: "quiet s' = quiet s \<Longrightarrow> sched_of s' = sched_of s"
  using quietD[of s' s] by (simp add: sched_of_def)

lemma sched_upd [simp]:
  "sched_of (enable_interrupt s) = sched_of s" "sched_of (disable_interrupt s) = sched_of s"
  "sched_of (klog msg s) = sched_of s" "sched_of (klog_hex v s) = sched_of s"
  "sched_of (el1_interrupt_enable s) = sched_of s" "sched_of (el1_interrupt_disable s) = sched_of s"
  by (rule sched_quiet, simp)+ (simp_all add: sched_of_def el1_interrupt_enable_def el1_interrupt_disable_def)

lemma sched_fields [simp]:
  "sched_of (s\<lparr>mem := m\<rparr>) = sched_of s" "sched_of (s\<lparr>con := c\<rparr>) = sched_of s" "sched_of (s\<lparr>bytes := b\<rparr>) = sched_of s"
  "sched_of (s\<lparr>words := w\<rparr>) = sched_of s" "sched_of (s\<lparr>files := f\<rparr>) = sched_of s" "sched_of (s\<lparr>vnodes := v\<rparr>) = sched_of s"
  "sched_of (s\<lparr>inodes := i\<rparr>) = sched_of s" "sched_of (s\<lparr>rinodes := r\<rparr>) = sched_of s" "sched_of (s\<lparr>mounts := mm\<rparr>) = sched_of s"
  "sched_of (s\<lparr>pt := p\<rparr>) = sched_of s" "sched_of (s\<lparr>trapframes := t\<rparr>) = sched_of s"
  by (simp_all add: sched_of_def)

lemma sched_set [simp]:
  "sched_of (set_file g fh s) = sched_of s" "sched_of (set_vnode gv v s) = sched_of s"
  "sched_of (set_inode gi i s) = sched_of s" "sched_of (set_rinode gr i s) = sched_of s" "sched_of (set_word a w s) = sched_of s"
  "sched_of (clear_page p s) = sched_of s" "sched_of (ret tpf x s) = sched_of s"
  by (simp_all add: set_file_def set_vnode_def set_inode_def set_rinode_def set_word_def clear_page_def ret_def)

named_theorems sched_frame \<open>operations that keep the threads and the run queue\<close>

lemma kalloc_sched [sched_frame]: "kalloc n s = Some (s', a) \<Longrightarrow> sched_of s' = sched_of s"
  by (rule sched_quiet, elim kalloc_SomeD)

lemma knew_sched [sched_frame]: "knew n s = Some (s', a) \<Longrightarrow> sched_of s' = sched_of s"
  by (auto simp: knew_def split: option.splits if_splits dest: kalloc_sched)

lemma krelease_sched [sched_frame]: "krelease a s = Some s' \<Longrightarrow> sched_of s' = sched_of s"
  by (cases "a = 0") (auto simp: krelease_def Let_def split: option.splits)

lemma klog_text_sched [sched_frame]: "klog_text t s = Some s' \<Longrightarrow> sched_of s' = sched_of s"
  by (auto simp: klog_text_def split: sum.splits)

lemma klog_user_sched [sched_frame]: "klog_user t s = Some s' \<Longrightarrow> sched_of s' = sched_of s"
  by (auto simp: klog_user_def split: option.splits dest: sched_frame)

lemma run_all_sched:
  assumes "\<And>x s s'. f x s = Some s' \<Longrightarrow> sched_of s' = sched_of s" "run_all f xs s = Some s'"
  shows "sched_of s' = sched_of s"
  using assms(2) by (induction xs arbitrary: s) (auto split: option.splits dest: assms(1))

section \<open>Page tables\<close>

lemma free_tables_sched: "free_tables n t s = Some s' \<Longrightarrow> sched_of s' = sched_of s"
proof (induction n arbitrary: t s s')
  case 0
  show ?case
    by (rule run_all_sched[OF _ 0[unfolded free_tables.simps]])
      (auto simp: Let_def split: if_splits dest: krelease_sched)
next
  case (Suc n)
  show ?case
    by (rule run_all_sched[OF _ Suc.prems[unfolded free_tables.simps]])
      (auto simp: Let_def split: if_splits option.splits dest!: krelease_sched Suc.IH)
qed

lemma mmu_free_sched [sched_frame]: "mmu_free_page_tables t l s = Some s' \<Longrightarrow> sched_of s' = sched_of s"
  by (simp add: mmu_free_page_tables_def free_tables_sched)

lemma map_walk_sched: "map_walk n t va pa fl s = Some s' \<Longrightarrow> sched_of s' = sched_of s"
  by (induction n arbitrary: t s)
    (auto simp: Let_def fill_entry_def split: option.splits if_splits prod.splits dest!: knew_sched)

lemma free_area_sched: "free_area x s = Some s' \<Longrightarrow> sched_of s' = sched_of s"
  by (auto simp: free_area_def split: option.splits if_splits prod.splits dest!: krelease_sched)

section \<open>File systems\<close>

lemma tmpfs_create_vnode_sched [sched_frame]: "tmpfs_create_vnode ty s = Some (s', v) \<Longrightarrow> sched_of s' = sched_of s"
  by (auto simp: tmpfs_create_vnode_def Let_def split: option.splits prod.splits dest!: knew_sched kalloc_sched)

lemma tmpfs_lookup_sched [sched_frame]: "tmpfs_lookup d n s = Some (s', r) \<Longrightarrow> sched_of s' = sched_of s"
  by (auto simp: tmpfs_lookup_def split: option.splits dest!: klog_text_sched)

lemma tmpfs_add_sched [sched_frame]: "tmpfs_add ty a b d n s = Some (s', r) \<Longrightarrow> sched_of s' = sched_of s"
  by (auto simp: tmpfs_add_def Let_def split: option.splits prod.splits if_splits dest!: tmpfs_create_vnode_sched)

lemma tmpfs_setup_sched [sched_frame]: "tmpfs_setup_mount fs m s = Some s' \<Longrightarrow> sched_of s' = sched_of s"
  by (auto simp: tmpfs_setup_mount_def Let_def split: option.splits prod.splits dest!: tmpfs_create_vnode_sched)

lemma initramfs_create_vnode_sched [sched_frame]: "initramfs_create_vnode mnt ty s = Some (s', v) \<Longrightarrow> sched_of s' = sched_of s"
  by (auto simp: initramfs_create_vnode_def Let_def split: option.splits prod.splits dest!: knew_sched kalloc_sched)

lemma initramfs_lookup_sched [sched_frame]: "initramfs_lookup d n s = Some (s', r) \<Longrightarrow> sched_of s' = sched_of s"
  by (auto simp: initramfs_lookup_def split: option.splits prod.splits if_splits sum.splits dest!: klog_text_sched)

lemma setup_loop_sched: "setup_loop i p k s = Some s' \<Longrightarrow> sched_of s' = sched_of s"
proof (rule setup_loop.raw_induct[of "\<lambda>i p k s r. sched_of r = sched_of s", rotated])
  fix f i p k s r
  assume IH: "\<And>i p k s r. f i p k s = Some r \<Longrightarrow> sched_of r = sched_of s"
    and eq: "(if p = 0 then Some s
      else (case cpio_newc_parse_header (bytes s) p of None \<Rightarrow> Some (klog (''error'' @ crnl) s)
        | Some (filepath, filesize, filedata, next_header) \<Rightarrow>
            if next_header = 0 then Some s
            else (case add_member i k filepath filesize filedata s of None \<Rightarrow> None
               | Some s1 \<Rightarrow> f i next_header (k + 1) s1))) = Some r"
  from eq show "sched_of r = sched_of s"
    by (auto simp: add_member_def simp del: append.simps split: option.splits prod.splits if_splits
        dest!: initramfs_create_vnode_sched IH)
qed

lemma initramfs_setup_sched [sched_frame]: "initramfs_setup_mount fs m s = Some s' \<Longrightarrow> sched_of s' = sched_of s"
  by (auto simp: initramfs_setup_mount_def Let_def split: option.splits prod.splits
      dest!: initramfs_create_vnode_sched setup_loop_sched)

lemma puts_sched [sched_frame]: "puts t s = Some s' \<Longrightarrow> sched_of s' = sched_of s"
  by (auto simp: puts_def split: sum.splits)

lemma putc_loop_sched [sched_frame]: "putc_loop a n s = Some s' \<Longrightarrow> sched_of s' = sched_of s"
  by (induction n arbitrary: a s) (auto split: sum.splits)

lemma getc_loop_sched [sched_frame]: "getc_loop a n s = Some s' \<Longrightarrow> sched_of s' = sched_of s"
  by (induction n arbitrary: a s) (auto simp: Let_def split: sum.splits prod.splits)

lemma node_sched [sched_frame]:
  "node_lookup d n s = Some (s', r) \<Longrightarrow> sched_of s' = sched_of s"
  "node_create d n s = Some (s', r) \<Longrightarrow> sched_of s' = sched_of s"
  "node_mkdir d n s = Some (s', r) \<Longrightarrow> sched_of s' = sched_of s"
  by (auto simp: node_lookup_def node_create_def node_mkdir_def tmpfs_create_def tmpfs_mkdir_def initramfs_create_def
      initramfs_mkdir_def split: v_ops_t.splits dest: sched_frame)

lemma node_open_sched [sched_frame]: "node_open v fh s = Some s' \<Longrightarrow> sched_of s' = sched_of s"
  by (auto simp: node_open_def tmpfs_open_def initramfs_open_def dev_uart_open_def dev_framebuffer_open_def
      split: option.splits f_ops_t.splits)

lemma vfs_close_sched [sched_frame]: "vfs_close fh s = Some s' \<Longrightarrow> sched_of s' = sched_of s"
  by (auto simp: vfs_close_def tmpfs_close_def initramfs_close_def dev_uart_close_def dev_framebuffer_close_def
      split: option.splits f_ops_t.splits dest: krelease_sched)

lemma fb_write_sched: "dev_framebuffer_write fh b l s = Some (s', r) \<Longrightarrow> sched_of s' = sched_of s"
  by (auto simp: dev_framebuffer_write_def Let_def split: option.splits prod.splits if_splits dest!: puts_sched)

lemma vfs_write_sched [sched_frame]: "vfs_write fh b l s = Some (s', r) \<Longrightarrow> sched_of s' = sched_of s"
  by (auto simp: vfs_write_def tmpfs_write_def initramfs_write_def dev_uart_write_def Let_def
      split: option.splits f_ops_t.splits if_splits dest!: putc_loop_sched fb_write_sched)

lemma vfs_read_sched [sched_frame]: "vfs_read fh b l s = Some (s', r) \<Longrightarrow> sched_of s' = sched_of s"
  by (auto simp: vfs_read_def tmpfs_read_def initramfs_read_def dev_uart_read_def Let_def
      split: option.splits f_ops_t.splits if_splits dest!: getc_loop_sched)

lemma vfs_step_sched: "vfs_step d n s = Some (s', r) \<Longrightarrow> sched_of s' = sched_of s"
  by (auto simp: vfs_step_def split: option.splits prod.splits if_splits dest!: node_sched)

lemma lookup_loop_sched: "lookup_loop p d n s = Some (s', r) \<Longrightarrow> sched_of s' = sched_of s"
  by (induction p d n s rule: lookup_loop.induct)
    (auto split: option.splits prod.splits if_splits dest: vfs_step_sched)

lemma vfs_lookup_sched [sched_frame]: "vfs_lookup p s = Some (s', r) \<Longrightarrow> sched_of s' = sched_of s"
  by (auto simp: vfs_lookup_def split: if_splits dest: lookup_loop_sched)

lemma open_node_sched: "open_node v fl s = Some (s', r) \<Longrightarrow> sched_of s' = sched_of s"
  by (auto simp: open_node_def split: option.splits prod.splits dest!: knew_sched node_open_sched)

lemma vfs_open_sched [sched_frame]: "vfs_open p fl s = Some (s', r) \<Longrightarrow> sched_of s' = sched_of s"
  by (auto simp: vfs_open_def Let_def split: option.splits prod.splits if_splits
      dest!: vfs_lookup_sched node_sched(2) open_node_sched)

lemma vfs_mkdir_sched [sched_frame]: "vfs_mkdir p s = Some (s', r) \<Longrightarrow> sched_of s' = sched_of s"
  by (auto simp: vfs_mkdir_def Let_def split: option.splits prod.splits if_splits dest!: vfs_lookup_sched node_sched(3))

lemma setup_mount_sched [sched_frame]: "setup_mount i m s = Some s' \<Longrightarrow> sched_of s' = sched_of s"
  by (auto simp: setup_mount_def split: option.splits setup_t.splits dest: sched_frame)

lemma vfs_mount_sched [sched_frame]: "vfs_mount t f s = Some (s', r) \<Longrightarrow> sched_of s' = sched_of s"
  by (auto simp: vfs_mount_def Let_def split: option.splits prod.splits if_splits
      dest!: vfs_lookup_sched knew_sched setup_mount_sched)

section \<open>Timers and interrupts\<close>

lemma task_part_sched: "task_part s' = task_part s \<Longrightarrow> sched_of s' = sched_of s"
  by (simp add: task_part_def sched_of_def)

lemma add_timer_sched [sched_frame]: "add_timer cb t args bt s = Some s' \<Longrightarrow> sched_of s' = sched_of s"
  by (rule task_part_sched, rule add_timer_task_part)

lemma sched_task [simp]:
  "sched_of (set_task f a s) = sched_of s" "sched_of (task_link c a s) = sched_of s"
  "sched_of (task_unlink a s) = sched_of s" "sched_of (s\<lparr>curr_task_priority := p\<rparr>) = sched_of s"
  by (auto simp: task_link_def task_unlink_def Let_def set_task_def sched_of_def split: option.split)

lemma irqtask_add_sched: "irqtask_add f p s = Some s' \<Longrightarrow> sched_of s' = sched_of s"
  by (auto simp: irqtask_add_def Let_def sched_task split: option.splits if_splits dest!: knew_sched)

lemma irqtask_run_sched: "irqtask_run_preemptive run_task s = Some r \<Longrightarrow> sched_of (fst r) = sched_of s"
proof -
  assume r: "irqtask_run_preemptive run_task s = Some r"
  have "run_task = run_task \<longrightarrow> sched_of (fst r) = sched_of s"
  proof (rule irqtask_run_preemptive.raw_induct[of "\<lambda>call s r. call = run_task \<longrightarrow> sched_of (fst r) = sched_of s", rotated])
  show "irqtask_run_preemptive run_task s = Some r" by (rule r)
next
  fix f :: "(kfun \<Rightarrow> kern \<Rightarrow> kern option) \<Rightarrow> kern \<Rightarrow> (kern \<times> kfun list) option" and call s r
  assume IH: "\<And>call s r. f call s = Some r \<Longrightarrow> call = run_task \<longrightarrow> sched_of (fst r) = sched_of s"
    and e: "(let s0 = disable_interrupt s in
      if is_task_queue_empty s0 then Some (enable_interrupt s0, [])
      else case t_next (itasks s0 (task_head s0)) of None \<Rightarrow> None
        | Some a \<Rightarrow>
            if word_of_int (curr_task_priority s0) \<le> t_priority (itasks s0 a) then Some (enable_interrupt s0, [])
            else
              (let s1 = task_unlink a s0;
                   prev = curr_task_priority s1;
                   s2 = enable_interrupt (s1\<lparr>curr_task_priority := sint (ucast (t_priority (itasks s1 a)) :: 32 word)\<rparr>);
                   g = t_function (itasks s2 a)
               in case call g s2 of None \<Rightarrow> None | Some s3 \<Rightarrow>
                  case krelease a (disable_interrupt s3) of None \<Rightarrow> None | Some s4 \<Rightarrow>
                  Option.bind (f call (enable_interrupt (s4\<lparr>curr_task_priority := prev\<rparr>)))
                    (\<lambda>(s5, fs). Some (s5, g # fs)))) = Some r"
  have rt: "run_task g s = Some s' \<Longrightarrow> sched_of s' = sched_of s" for g s s'
    by (rule task_part_sched, rule run_task_task_part)
  show "call = run_task \<longrightarrow> sched_of (fst r) = sched_of s"
  proof
    assume c: "call = run_task"
    from e show "sched_of (fst r) = sched_of s" unfolding c Let_def
      by (auto simp: bind_eq_Some_conv split: if_splits option.splits dest!: rt krelease_sched IH)
  qed
  qed
  then show ?thesis by simp
qed

lemma add_and_run_sched [sched_frame]: "add_and_run f p s = Some s' \<Longrightarrow> sched_of s' = sched_of s"
  by (auto simp: add_and_run_def split: option.splits prod.splits dest!: irqtask_add_sched irqtask_run_sched)

end
