(* ===== verification/Thread_Types.thy ===== *)
theory Thread_Types
  imports Thread_Inv
begin

text \<open>
  The well-formedness of the thread table, and that every entry into the kernel keeps it: system
  calls, page faults, signals, timer ticks, the idle thread and the child's return from \<open>fork\<close>.
\<close>

section \<open>Well-formed threads\<close>

definition index_ok :: "nat ptr \<Rightarrow> bool" where
  "index_ok p \<longleftrightarrow> (\<forall>i. p = Some i \<longrightarrow> i \<le> MAX_THREAD_COUNT)"

text \<open>The process number is the index, the status is one of the three, the counts are those of an
  \<open>int\<close> and not negative, the working directory fits its buffer, and the links are indices.\<close>

definition thread_ok :: "nat \<Rightarrow> thread_t \<Rightarrow> bool" where
  "thread_ok i x \<longleftrightarrow> pid x = int i \<and> t_status x \<in> {THREAD_FREE, THREAD_ACTIVE, THREAD_ZOMBIE} \<and>
     (\<forall>j \<le> SIGNAL_MAX. 0 \<le> sigcount x j \<and> sigcount x j < 2 ^ 31) \<and> length (curr_working_dir x) < MAX_PATH_NAME \<and>
     index_ok (th_next x) \<and> index_ok (th_prev x)"

definition threads_ok :: "kern \<Rightarrow> bool" where
  "threads_ok s \<longleftrightarrow> (\<forall>i \<le> MAX_THREAD_COUNT. thread_ok i (threads s i)) \<and> curr_thread s \<le> MAX_THREAD_COUNT \<and>
     index_ok (RQ_head s) \<and> index_ok (RQ_tail s)"

named_theorems typed \<open>operations that keep the thread table well-formed\<close>

lemma threads_ok_sched: "sched_of s' = sched_of s \<Longrightarrow> threads_ok s' = threads_ok s"
  using sched_ofD[of s' s] by (simp add: threads_ok_def)

lemma threads_ok_upd [simp]:
  "threads_ok (enable_interrupt s) = threads_ok s" "threads_ok (disable_interrupt s) = threads_ok s"
  "threads_ok (klog msg s) = threads_ok s" "threads_ok (klog_hex v s) = threads_ok s" "threads_ok (ret tpf w s) = threads_ok s"
  "threads_ok (el1_interrupt_enable s) = threads_ok s" "threads_ok (el1_interrupt_disable s) = threads_ok s"
  "threads_ok (s\<lparr>con := c\<rparr>) = threads_ok s" "threads_ok (s\<lparr>bytes := b\<rparr>) = threads_ok s" "threads_ok (s\<lparr>files := f\<rparr>) = threads_ok s"
  "threads_ok (s\<lparr>trapframes := t\<rparr>) = threads_ok s" "threads_ok (clear_page p s) = threads_ok s" "threads_ok (s\<lparr>mem := m\<rparr>) = threads_ok s"
  "threads_ok (s\<lparr>pt := q\<rparr>) = threads_ok s" "threads_ok (set_word a w' s) = threads_ok s"
  by (rule threads_ok_sched, simp)+

lemma index_ok_simps [simp]: "index_ok None" "index_ok (Some i) \<longleftrightarrow> i \<le> MAX_THREAD_COUNT"
  by (simp_all add: index_ok_def)

lemma thread_ok_upd [simp]:
  "thread_ok i (x\<lparr>vma_list := a\<rparr>) = thread_ok i x" "thread_ok i (x\<lparr>ctx := c\<rparr>) = thread_ok i x"
  "thread_ok i (x\<lparr>t_data := d\<rparr>) = thread_ok i x" "thread_ok i (x\<lparr>datasize := n\<rparr>) = thread_ok i x"
  "thread_ok i (x\<lparr>user_sp := d\<rparr>) = thread_ok i x" "thread_ok i (x\<lparr>signal_sp := d\<rparr>) = thread_ok i x"
  "thread_ok i (x\<lparr>kernel_sp := d\<rparr>) = thread_ok i x" "thread_ok i (x\<lparr>fd_table := t\<rparr>) = thread_ok i x"
  "thread_ok i (x\<lparr>signal_handler := h\<rparr>) = thread_ok i x" "thread_ok i (x\<lparr>curr_signal_handler := k\<rparr>) = thread_ok i x"
  "thread_ok i (x\<lparr>signal_is_checking := b\<rparr>) = thread_ok i x" "thread_ok i (x\<lparr>signal_saved_context := c\<rparr>) = thread_ok i x"
  by (simp_all add: thread_ok_def)

lemma threads_ok_curr: "threads_ok s \<Longrightarrow> thread_ok (curr_thread s) (curr s)"
  by (simp add: threads_ok_def curr_def)

lemma set_thread_ok:
  assumes "threads_ok s" "thread_ok i (threads s i) \<Longrightarrow> thread_ok i (f (threads s i))"
  shows "threads_ok (set_thread f i s)"
  using assms by (auto simp: threads_ok_def)

lemma set_curr_ok: "threads_ok s \<Longrightarrow> (thread_ok (curr_thread s) (curr s) \<Longrightarrow> thread_ok (curr_thread s) (f (curr s))) \<Longrightarrow> threads_ok (set_curr f s)"
  unfolding set_curr_def by (rule set_thread_ok) (simp_all add: curr_def)

section \<open>The run queue\<close>

lemma push_rq_ok [typed]: "threads_ok s \<Longrightarrow> th \<le> MAX_THREAD_COUNT \<Longrightarrow> threads_ok (push_rq th s)"
proof -
  assume a: "threads_ok s" "th \<le> MAX_THREAD_COUNT"
  then have q: "threads_ok (s\<lparr>RQ_head := h, RQ_tail := Some th\<rparr>) = (index_ok h)" "threads_ok (s\<lparr>RQ_tail := Some th\<rparr>)" for h
    by (auto simp: threads_ok_def)
  have b: "threads_ok ((set_thread (\<lambda>x. x\<lparr>th_next := Some th\<rparr>) t (set_thread (\<lambda>x. x\<lparr>th_prev := Some t\<rparr>) th s'))\<lparr>RQ_tail := Some th\<rparr>)"
    if "threads_ok s'" "t \<le> MAX_THREAD_COUNT" for s' t
    using that a(2) by (auto simp: threads_ok_def thread_ok_def)
  have t: "RQ_tail s = Some t \<Longrightarrow> t \<le> MAX_THREAD_COUNT" for t using a(1) by (simp add: threads_ok_def)
  show ?thesis
    unfolding push_rq_def Let_def threads_ok_upd
  proof (rule set_thread_ok)
    show "threads_ok (case RQ_tail (disable_interrupt s) of
        None \<Rightarrow> disable_interrupt s\<lparr>RQ_head := Some th, RQ_tail := Some th\<rparr>
      | Some t \<Rightarrow> set_thread (\<lambda>x. x\<lparr>th_next := Some th\<rparr>) t (set_thread (\<lambda>x. x\<lparr>th_prev := Some t\<rparr>) th (disable_interrupt s))\<lparr>RQ_tail := Some th\<rparr>)"
    proof (cases "RQ_tail (disable_interrupt s)")
      case None
      then show ?thesis using a by (auto simp: threads_ok_def)
    next
      case (Some t)
      moreover have "t \<le> MAX_THREAD_COUNT" using t[of t] Some sched_ofD(4)[OF sched_upd(2), of s] by simp
      ultimately show ?thesis using b[of "disable_interrupt s" t] a(1) by simp
    qed
  qed (simp add: thread_ok_def)
qed

lemma pop_rq_ok: "threads_ok s \<Longrightarrow> pop_rq s = (s', t) \<Longrightarrow> threads_ok s' \<and> index_ok t"
proof -
  assume a: "threads_ok s" "pop_rq s = (s', t)"
  have d: "threads_ok (disable_interrupt s)" using a(1) by simp
  define s0 where "s0 = disable_interrupt s"
  have ok: "threads_ok s0" using d by (simp add: s0_def)
  show ?thesis
  proof (cases "RQ_head s0")
    case None
    then show ?thesis using a(2) ok by (auto simp: pop_rq_def Let_def s0_def[symmetric])
  next
    case (Some h)
    have h: "h \<le> MAX_THREAD_COUNT" using ok Some by (simp add: threads_ok_def)
    define s1 where "s1 = (case th_next (threads s0 h) of None \<Rightarrow> s0\<lparr>RQ_tail := None\<rparr>
                               | Some n \<Rightarrow> set_thread (\<lambda>x. x\<lparr>th_prev := None\<rparr>) n s0)"
    have s1: "threads_ok s1"
      using ok by (auto simp: s1_def threads_ok_def thread_ok_def split: option.split)
    then have "index_ok (th_next (threads s1 h))" using h by (simp add: threads_ok_def thread_ok_def)
    then have "threads_ok (s1\<lparr>RQ_head := th_next (threads s1 h)\<rparr>)" using s1 by (simp add: threads_ok_def)
    then have "threads_ok (set_thread (\<lambda>x. x\<lparr>th_prev := None, th_next := None\<rparr>) h (s1\<lparr>RQ_head := th_next (threads s1 h)\<rparr>))"
      by (rule set_thread_ok) (simp add: thread_ok_def)
    moreover have "t = Some h \<and> s' = enable_interrupt (set_thread (\<lambda>x. x\<lparr>th_prev := None, th_next := None\<rparr>) h (s1\<lparr>RQ_head := th_next (threads s1 h)\<rparr>))"
      using a(2) Some by (simp add: pop_rq_def Let_def s0_def[symmetric] s1_def[symmetric])
    ultimately show ?thesis using h by simp
  qed
qed

lemma pick_thread_ok: "pick_thread s = Some r \<Longrightarrow> threads_ok s \<longrightarrow> threads_ok (fst r) \<and> index_ok (snd r)"
proof (rule pick_thread.raw_induct[of "\<lambda>s r. threads_ok s \<longrightarrow> threads_ok (fst r) \<and> index_ok (snd r)", rotated])
  fix pick :: "kern \<Rightarrow> (kern \<times> nat option) option" and s r
  assume IH: "\<And>s r. pick s = Some r \<Longrightarrow> threads_ok s \<longrightarrow> threads_ok (fst r) \<and> index_ok (snd r)"
    and e: "(case pop_rq s of (s1, target) \<Rightarrow> (case target of None \<Rightarrow> Some (s1, None)
       | Some t \<Rightarrow> if zombie s1 t then pick (push_rq t s1) else Some (s1, Some t))) = Some r"
  obtain s1 target where p: "pop_rq s = (s1, target)" by fastforce
  show "threads_ok s \<longrightarrow> threads_ok (fst r) \<and> index_ok (snd r)"
    using e pop_rq_ok[OF _ p] by (auto simp: p typed split: option.splits if_splits dest!: IH)
qed

lemma schedule_ok [typed]: "schedule s = Some s' \<Longrightarrow> threads_ok s \<Longrightarrow> threads_ok s'"
proof -
  assume a: "schedule s = Some s'" "threads_ok s"
  have c: "curr_thread s \<le> MAX_THREAD_COUNT" using a(2) by (simp add: threads_ok_def)
  have ok: "threads_ok (disable_interrupt s)" using a(2) by simp
  have u: "threads_ok (s1\<lparr>curr_thread := t\<rparr>)" if "threads_ok s1" "index_ok (Some t)" for s1 t
    using that by (simp add: threads_ok_def)
  from a(1) show ?thesis
    by (auto simp: schedule_def Let_def a(2) c intro!: push_rq_ok u
        split: option.splits if_splits dest!: pick_thread_ok)
qed

section \<open>Page faults and areas\<close>

lemma sched_typed:
  assumes "sched_of s' = sched_of s" "threads_ok s"
  shows "threads_ok s'"
  using assms threads_ok_sched by blast

lemmas frame_typed [typed] = sched_frame[THEN sched_typed]

lemma run_all_typed: "(\<And>x s s'. f x s = Some s' \<Longrightarrow> threads_ok s \<Longrightarrow> threads_ok s') \<Longrightarrow> run_all f xs s = Some s' \<Longrightarrow> threads_ok s \<Longrightarrow> threads_ok s'"
  by (induction xs arbitrary: s) (auto split: option.splits)

lemma mmu_add_vma_ok [typed]: "mmu_add_vma t va sz pa p al s = Some s' \<Longrightarrow> threads_ok s \<Longrightarrow> threads_ok s'"
  by (auto simp: mmu_add_vma_def split: option.splits prod.splits intro!: set_thread_ok dest!: knew_sched intro: sched_typed)

lemma mmu_del_all_vma_ok [typed]: "mmu_del_all_vma t s = Some s' \<Longrightarrow> threads_ok s \<Longrightarrow> threads_ok s'"
  by (auto simp: mmu_del_all_vma_def intro!: set_thread_ok intro: sched_typed[OF run_all_sched[OF free_area_sched]])

lemma thread_exit_ok [typed]: "thread_exit s = Some s' \<Longrightarrow> threads_ok s \<Longrightarrow> threads_ok s'"
  unfolding thread_exit_def Let_def
  by (erule schedule_ok) (auto intro!: set_thread_ok simp: thread_ok_def)

lemma klog_args_ok [typed]: "klog_args f a s = Some s' \<Longrightarrow> threads_ok s \<Longrightarrow> threads_ok s'"
  by (auto simp: klog_args_def split: sum.splits)

lemma print_areas_ok: "threads_ok s \<Longrightarrow> threads_ok (fold print_area as s)"
  by (induction as arbitrary: s) (auto simp: print_area_def split: prod.splits)

lemma fault_ok [typed]: "mmu_memfail_abort_handle iss a s = Some s' \<Longrightarrow> threads_ok s \<Longrightarrow> threads_ok s'"
proof -
  assume h: "mmu_memfail_abort_handle iss a s = Some s'" "threads_ok s"
  show ?thesis
  proof (cases "fault_area a (vma_list (threads s (curr_thread s)))")
    case None
    then obtain s1 where "klog_args (''[Segfault] No VMA found, addr == 0x%x'' @ crnl) [Arg_long a] s = Some s1"
      "thread_exit (fold print_area (vma_list (threads s (curr_thread s))) (klog (''Current VMA...'' @ crnl) s1)) = Some s'"
      using h(1) by (auto simp: mmu_memfail_abort_handle_def Let_def simp del: append.simps split: option.splits)
    moreover from this(1) have "threads_ok s1" using h(2) by (rule klog_args_ok)
    ultimately show ?thesis using thread_exit_ok print_areas_ok by (metis threads_ok_upd(3))
  next
    case (Some v)
    then show ?thesis using h
      by (auto simp: mmu_memfail_abort_handle_def Let_def map_one_page_def simp del: append.simps
          split: option.splits prod.splits if_splits dest!: klog_args_ok dest: thread_exit_ok map_walk_sched intro: sched_typed)
  qed
qed

section \<open>Creating and reaping threads\<close>

lemma free_slot_ok: "free_slot s = Some t \<Longrightarrow> t \<le> MAX_THREAD_COUNT \<and> t_status (threads s t) = THREAD_FREE"
  by (auto simp: free_slot_def find_Some_iff simp del: upt_Suc)

lemma thread_create_ok: "thread_create a n s = Some (s', r) \<Longrightarrow> threads_ok s \<Longrightarrow> threads_ok s' \<and> index_ok r"
proof -
  assume h: "thread_create a n s = Some (s', r)" "threads_ok s"
  show ?thesis
  proof (cases "free_slot (disable_interrupt s)")
    case None
    then show ?thesis using h by (auto simp: thread_create_def)
  next
    case (Some t)
    obtain s1 usp ksp ssp dat pgd where s1: "threads_ok s1"
      "s' = enable_interrupt (push_rq t (set_thread (fresh_thread a n usp ksp ssp dat pgd) t (clear_page pgd s1)))" "r = Some t"
      using h Some by (auto simp: thread_create_def Let_def split: option.splits prod.splits dest!: kalloc_sched knew_sched)
        (metis sched_upd(2) threads_ok_sched)
    have t: "t \<le> MAX_THREAD_COUNT" using free_slot_ok[OF Some] by simp
    have "threads_ok (set_thread (fresh_thread a n usp ksp ssp dat pgd) t (clear_page pgd s1))"
      by (rule set_thread_ok) (use s1(1) in \<open>simp_all add: fresh_thread_def thread_ok_def MAX_PATH_NAME_def\<close>)
    then show ?thesis using s1 t push_rq_ok by simp
  qed
qed

lemma unlink_ok: "threads_ok s \<Longrightarrow> th \<le> MAX_THREAD_COUNT \<Longrightarrow> threads_ok (unlink_thread th s)"
  by (auto simp: unlink_thread_def Let_def threads_ok_def thread_ok_def split: option.split)

lemma reap_ok: "reap th s = Some s' \<Longrightarrow> threads_ok s \<Longrightarrow> th \<le> MAX_THREAD_COUNT \<Longrightarrow> threads_ok s'"
proof -
  assume h: "reap th s = Some s'" "threads_ok s" "th \<le> MAX_THREAD_COUNT"
  have fd: "threads_ok s \<Longrightarrow> close_fd th i s = Some s' \<Longrightarrow> threads_ok s'" for i s s'
    by (auto simp: close_fd_def split: option.splits dest!: vfs_close_sched intro: sched_typed)
  define s1 where "s1 = (if SAFE_DEMO s then s
                else klog crnl (klog_hex (of_int (pid (threads s th))) (klog ''Idle thread find zombie '' s)))"
  have s1: "threads_ok s1" using h(2) by (simp add: s1_def)
  obtain s2 s3 s4 s5 s6 where s2: "mmu_free_page_tables (c_pgd (ctx (threads s1 th))) 0 (unlink_thread th s1) = Some s2"
    and s3: "mmu_del_all_vma th s2 = Some s3" and s4: "run_all (close_fd th) [0..<MAX_FD] s3 = Some s4"
    and s5: "krelease (kernel_sp (threads s4 th)) s4 = Some s5" and s6: "krelease (PHYS_TO_VIRT (c_pgd (ctx (threads s5 th)))) s5 = Some s6"
    and s': "s' = set_thread (\<lambda>x. x\<lparr>t_status := THREAD_FREE, th_prev := None, th_next := None\<rparr>) th s6"
    using h(1) by (auto simp: reap_def Let_def s1_def[symmetric] split: option.splits)
  have "threads_ok s2" using s2 unlink_ok[OF s1 h(3)] by (rule typed)
  with s3 have "threads_ok s3" by (rule typed)
  then have "threads_ok s4" by (rule run_all_typed[OF _ s4, rotated]) (rule fd)
  with s5 have "threads_ok s5" by (rule typed)
  with s6 have "threads_ok s6" by (rule typed)
  then show ?thesis unfolding s' by (rule set_thread_ok) (simp add: thread_ok_def)
qed

lemma reap_loop_ok: "reap_loop p s = Some s' \<Longrightarrow> threads_ok s \<longrightarrow> index_ok p \<longrightarrow> threads_ok s'"
proof (rule reap_loop.raw_induct[of "\<lambda>p s s'. threads_ok s \<longrightarrow> index_ok p \<longrightarrow> threads_ok s'", rotated])
  fix f p s s'
  assume IH: "\<And>p s s'. f p s = Some s' \<Longrightarrow> threads_ok s \<longrightarrow> index_ok p \<longrightarrow> threads_ok s'"
    and e: "(case p of None \<Rightarrow> Some s
      | Some th \<Rightarrow> (let next_ptr = th_next (threads s th) in
           if zombie s th then Option.bind (reap th s) (\<lambda>s1. f next_ptr s1) else f next_ptr s)) = Some s'"
  have n: "th_next (threads s th) = q \<Longrightarrow> threads_ok s \<Longrightarrow> th \<le> MAX_THREAD_COUNT \<Longrightarrow> index_ok q" for th q
    by (auto simp: threads_ok_def thread_ok_def)
  show "threads_ok s \<longrightarrow> index_ok p \<longrightarrow> threads_ok s'"
  proof (cases p)
    case (Some th)
    then show ?thesis using e n[OF refl] reap_ok IH
      by (auto simp: Let_def bind_eq_Some_conv split: if_splits)
  qed (use e in simp)
qed

lemma kill_zombies_ok [typed]: "kill_zombies s = Some s' \<Longrightarrow> threads_ok s \<Longrightarrow> threads_ok s'"
proof -
  assume h: "kill_zombies s = Some s'" "threads_ok s"
  have d: "threads_ok (disable_interrupt s)" using h(2) by simp
  then have i: "index_ok (RQ_head (disable_interrupt s))" by (simp add: threads_ok_def)
  show ?thesis using h(1) reap_loop_ok d i by (auto simp: kill_zombies_def Let_def)
qed

lemma idle_round_ok [typed]: "idle_round s = Some s' \<Longrightarrow> threads_ok s \<Longrightarrow> threads_ok s'"
  by (auto simp: idle_round_def bind_eq_Some_conv dest: kill_zombies_ok schedule_ok)

section \<open>Starting threads\<close>

lemma add_vmas_ok [typed]: "add_vmas t w s = Some s' \<Longrightarrow> threads_ok s \<Longrightarrow> threads_ok s'"
  by (auto simp: add_vmas_def split: option.splits) (metis mmu_add_vma_ok)

lemma open_fd_ok: "open_fd i s = Some s' \<Longrightarrow> threads_ok s \<Longrightarrow> threads_ok s'"
  by (auto simp: open_fd_def split: option.splits prod.splits intro!: set_thread_ok dest!: vfs_open_sched intro: sched_typed)

lemma thread_setup_ok:
  "thread_setup w d n s = Some (s', t) \<Longrightarrow> threads_ok s \<Longrightarrow> threads_ok s' \<and> t \<le> MAX_THREAD_COUNT"
  by (auto simp: thread_setup_def split: option.splits prod.splits dest!: thread_create_ok add_vmas_ok intro!: set_thread_ok)

lemma thread_exec_ok [typed]: "thread_exec w d n s = Some s' \<Longrightarrow> threads_ok s \<Longrightarrow> threads_ok s'"
proof -
  assume h: "thread_exec w d n s = Some s'" "threads_ok s"
  obtain s3 t where s3: "thread_setup w d n s = Some (s3, t)" using h(1)
    by (auto simp: thread_exec_def split: option.splits)
  note t = thread_setup_ok[OF s3 h(2)]
  define s4 where "s4 = s3\<lparr>bytes := copy_loop (t_data (threads s3 t)) d (unat n) (bytes s3), curr_thread := t\<rparr>"
  have s4: "threads_ok s4" using t by (simp add: s4_def threads_ok_def)
  obtain s5 where s5: "run_all open_fd [0, 1, 2] s4 = Some s5" "add_timer Schedule_timer 1 [] False s5 = Some s'"
    using h(1) s3 by (auto simp: thread_exec_def Let_def s4_def bind_eq_Some_conv simp del: run_all.simps split: if_splits)
  have "threads_ok s5" by (rule run_all_typed[OF open_fd_ok s5(1) s4])
  with add_timer_sched[OF s5(2)] show ?thesis by (rule sched_typed)
qed

text \<open>The state after \<open>init_thread_sched\<close> is well-formed, whatever was in the table, but for the last
  signal count and the directories of the threads, which come from the zeroed image.\<close>

lemma init_thread_sched_ok:
  assumes "init_thread_sched idle s = Some s'" "RQ_head s = None" "RQ_tail s = None" "curr_thread s \<le> MAX_THREAD_COUNT"
    and "\<forall>i. sigcount (threads s i) = (\<lambda>_. 0) \<and> curr_working_dir (threads s i) = []"
  shows "threads_ok s'"
proof -
  have d: "threads (disable_interrupt s) = threads s" "curr_thread (disable_interrupt s) = curr_thread s"
    "RQ_head (disable_interrupt s) = None" "RQ_tail (disable_interrupt s) = None"
    using sched_ofD[OF sched_upd(2), of s] assms(2,3) by simp_all
  have "threads_ok (reset_threads (disable_interrupt s))"
    using assms(4,5) by (simp add: threads_ok_def thread_ok_def reset_threads_def assms(2,3) d MAX_PATH_NAME_def)
  then show ?thesis using assms(1)
    by (auto simp: init_thread_sched_def split: option.splits prod.splits dest!: thread_create_ok)
      (simp add: threads_ok_def)
qed

section \<open>Signals\<close>

lemma signal_default_ok [typed]: "signal_default_handler s = Some s' \<Longrightarrow> threads_ok s \<Longrightarrow> threads_ok s'"
proof -
  assume h: "signal_default_handler s = Some s'" "threads_ok s"
  define s1 where "s1 = (if SAFE_DEMO (disable_interrupt s) then disable_interrupt s
                else klog crnl (klog_hex (of_int (pid (curr (disable_interrupt s)))) (klog ''Signal default handler killing thread '' (disable_interrupt s))))"
  define s2 where "s2 = set_curr (\<lambda>x. x\<lparr>t_status := THREAD_ZOMBIE, th_prev := None, th_next := None\<rparr>) s1"
  have "threads_ok s1" using h(2) by (simp add: s1_def)
  then have s2: "threads_ok s2" unfolding s2_def by (rule set_curr_ok) (simp add: thread_ok_def)
  then have "threads_ok (push_rq (curr_thread s2) s2)" by (rule push_rq_ok) (use s2 in \<open>simp add: threads_ok_def\<close>)
  then have "threads_ok (enable_interrupt (push_rq (curr_thread s2) s2))" by simp
  moreover have "schedule (enable_interrupt (push_rq (curr_thread s2) s2)) = Some s'"
    using h(1) by (simp add: signal_default_handler_def Let_def s1_def s2_def)
  ultimately show ?thesis by (rule schedule_ok[rotated])
qed

text \<open>The state in an outcome.\<close>

definition outcome_kern :: "signal_outcome \<Rightarrow> kern" where
  "outcome_kern r = (case r of Checked s \<Rightarrow> s | Entered i u s \<Rightarrow> s | Killed s \<Rightarrow> s)"

lemma log_run_signal_ok [simp]: "threads_ok (log_run_signal d s) = threads_ok s"
  by (simp add: log_run_signal_def)

lemma run_signal_ok: "run_signal w d tpf i s = Some r \<Longrightarrow> threads_ok s \<Longrightarrow> threads_ok (outcome_kern r)"
proof -
  assume h: "run_signal w d tpf i s = Some r" "threads_ok s"
  have "threads_ok (log_run_signal d (set_curr (\<lambda>x. x\<lparr>curr_signal_handler := signal_handler x i\<rparr>) s))"
    using set_curr_ok[OF h(2)] by simp
  then show ?thesis using h(1)
    by (auto simp: run_signal_def Let_def outcome_kern_def split: if_splits dest: signal_default_ok)
qed

lemma signal_iter_ok: "signal_iter w d tpf i s = Some r \<Longrightarrow> i \<le> SIGNAL_MAX \<Longrightarrow> threads_ok s \<Longrightarrow> threads_ok (outcome_kern r)"
proof -
  assume h: "signal_iter w d tpf i s = Some r" "i \<le> SIGNAL_MAX" "threads_ok s"
  have c: "curr (disable_interrupt s) = curr s" using sched_ofD(5)[OF sched_upd(2)] .
  have "threads_ok (set_curr (\<lambda>x. x\<lparr>sigcount := (sigcount x)(i := sigcount x i - 1)\<rparr>) (disable_interrupt s))" if "sigcount (curr s) i > 0"
    by (rule set_curr_ok) (use h(2,3) that in \<open>auto simp: thread_ok_def c\<close>)
  then show ?thesis using h(1,3)
    by (auto simp: signal_iter_def outcome_kern_def[of "Checked _"] split: if_splits dest: run_signal_ok)
qed

lemma signal_loop_ok:
  "signal_loop w d cpu tpf is s = Some r \<Longrightarrow> (\<forall>i \<in> set is. i \<le> SIGNAL_MAX) \<Longrightarrow> threads_ok s \<Longrightarrow> threads_ok (outcome_kern r)"
proof (induction "is" arbitrary: s)
  case Nil
  then show ?case using set_curr_ok[of "disable_interrupt s" "\<lambda>x. x\<lparr>signal_is_checking := False\<rparr>"]
    by (auto simp: outcome_kern_def)
next
  case (Cons i js)
  have sv: "threads_ok (save_context cpu s)" unfolding save_context_def by (rule set_curr_ok) (use Cons.prems in simp_all)
  obtain r1 where r1: "signal_iter w d tpf i (save_context cpu s) = Some r1" using Cons.prems(1) by (auto split: option.splits)
  have ok: "threads_ok (outcome_kern r1)" by (rule signal_iter_ok[OF r1 _ sv]) (use Cons.prems(2) in simp)
  show ?case
  proof (cases r1)
    case (Checked s1)
    then show ?thesis using Cons.IH[of s1] Cons.prems r1 ok by (simp add: outcome_kern_def)
  qed (use Cons.prems r1 ok in auto)
qed

lemma check_signal_ok: "check_signal w d cpu tpf s = Some r \<Longrightarrow> threads_ok s \<Longrightarrow> threads_ok (outcome_kern r)"
proof -
  assume h: "check_signal w d cpu tpf s = Some r" "threads_ok s"
  have "threads_ok (set_curr (\<lambda>x. x\<lparr>signal_is_checking := True\<rparr>) (disable_interrupt s))"
    by (rule set_curr_ok) (use h(2) in simp_all)
  then show ?thesis using h
    by (auto simp: check_signal_def Let_def outcome_kern_def[of "Checked _"] simp del: upt_Suc split: if_splits dest: signal_loop_ok)
qed

lemma after_handler_ok: "after_handler w d cpu tpf i s = Some r \<Longrightarrow> i \<le> SIGNAL_MAX \<Longrightarrow> threads_ok s \<Longrightarrow> threads_ok (outcome_kern r)"
proof -
  assume h: "after_handler w d cpu tpf i s = Some r" "i \<le> SIGNAL_MAX" "threads_ok s"
  obtain r1 where r1: "signal_iter w d tpf i s = Some r1" using h(1) by (auto simp: after_handler_def split: option.splits)
  have ok: "threads_ok (outcome_kern r1)" by (rule signal_iter_ok[OF r1 h(2,3)])
  show ?thesis
  proof (cases r1)
    case (Checked s1)
    then have "signal_loop w d cpu tpf [i + 1..<SIGNAL_MAX + 1] s1 = Some r" "threads_ok s1"
      using h(1) r1 ok by (simp_all add: after_handler_def outcome_kern_def)
    then show ?thesis using signal_loop_ok[of w d cpu tpf "[i + 1..<SIGNAL_MAX + 1]" s1 r] by (simp del: upt_Suc)
  qed (use h r1 ok in \<open>auto simp: after_handler_def\<close>)
qed

section \<open>System calls\<close>

lemma klog_user_ok: "klog_user p s = Some s' \<Longrightarrow> threads_ok s \<Longrightarrow> threads_ok s'"
  using klog_user_sched sched_typed by blast

lemma user_path_length: "user_path p s = Some t \<Longrightarrow> length t < MAX_PATH_NAME"
  by (auto simp: user_path_def split: option.splits if_splits)

lemma recv_loop_ok: "recv_loop a n s = Some s' \<Longrightarrow> threads_ok s \<Longrightarrow> threads_ok s'"
  by (induction n arbitrary: a s) (auto split: option.splits prod.splits)

lemma send_loop_ok: "threads_ok s \<Longrightarrow> threads_ok (send_loop a n s)"
  by (induction n arbitrary: a s) auto

lemma uart_calls_ok:
  "uartread tpf b n s = Some s' \<Longrightarrow> threads_ok s \<Longrightarrow> threads_ok s'"
  "uartwrite tpf b n s = Some s' \<Longrightarrow> threads_ok s \<Longrightarrow> threads_ok s'"
  by (auto simp: uartread_def uartwrite_def split: if_splits
      dest!: getc_loop_sched putc_loop_sched intro: sched_typed recv_loop_ok send_loop_ok)

lemma exec_size_ok: "exec_size p s = Some s' \<Longrightarrow> threads_ok s \<Longrightarrow> threads_ok s'"
  by (auto simp: exec_size_def split: option.splits prod.splits dest!: vfs_lookup_sched intro!: set_curr_ok intro: sched_typed)

lemma exec_alloc_ok: "exec_alloc s = Some s' \<Longrightarrow> threads_ok s \<Longrightarrow> threads_ok s'"
  by (auto simp: exec_alloc_def split: option.splits prod.splits dest!: kalloc_sched knew_sched intro!: set_curr_ok intro: sched_typed)

lemma exec_load_ok: "exec_load p s = Some s' \<Longrightarrow> threads_ok s \<Longrightarrow> threads_ok s'"
  by (auto simp: exec_load_def split: option.splits prod.splits
      dest!: vfs_open_sched vfs_read_sched vfs_close_sched intro: sched_typed)

lemma exec_ok: "exec w tpf nm s = Some s' \<Longrightarrow> threads_ok s \<Longrightarrow> threads_ok s'"
proof -
  assume h: "exec w tpf nm s = Some s'" "threads_ok s"
  obtain s1 where s1: "mmu_del_all_vma (curr_thread s) s = Some s1" using h(1) by (auto simp: exec_def split: option.splits)
  obtain path where path: "user_path nm s1 = Some path" using h(1) s1 by (auto simp: exec_def split: option.splits)
  obtain s2 where s2: "exec_size path s1 = Some s2" using h(1) s1 path by (auto simp: exec_def split: option.splits)
  obtain s3 where s3: "exec_alloc s2 = Some s3" using h(1) s1 path s2 by (auto simp: exec_def split: option.splits)
  obtain s4 where s4: "mmu_free_page_tables (c_pgd (ctx (curr s3))) 0 s3 = Some s4"
    using h(1) s1 path s2 s3 by (auto simp: exec_def split: option.splits)
  obtain s5 where s5: "add_vmas (curr_thread s4) w (clear_page (PHYS_TO_VIRT (c_pgd (ctx (curr s4)))) s4) = Some s5"
    using h(1) s1 path s2 s3 s4 by (auto simp: exec_def split: option.splits)
  obtain s6 where s6: "exec_load path s5 = Some s6" using h(1) s1 path s2 s3 s4 s5 by (auto simp: exec_def split: option.splits)
  have "threads_ok s1" by (rule mmu_del_all_vma_ok[OF s1 h(2)])
  then have "threads_ok s2" by (rule exec_size_ok[OF s2])
  then have "threads_ok s3" by (rule exec_alloc_ok[OF s3])
  with mmu_free_sched[OF s4] have "threads_ok s4" by (rule sched_typed)
  then have "threads_ok s5" using add_vmas_ok[OF s5] by simp
  then have s6: "threads_ok s6" by (rule exec_load_ok[OF s6])
  have "threads_ok (set_curr (\<lambda>x. x\<lparr>signal_handler := (\<lambda>i. if i \<le> SIGNAL_MAX then Signal_default_handler else signal_handler x i)\<rparr>) s6)"
    by (rule set_curr_ok[OF s6]) simp
  then show ?thesis using h(1) s1 path s2 s3 s4 s5 \<open>exec_load path s5 = Some s6\<close> by (simp add: exec_def Let_def) auto
qed

lemma copy_fd_ok: "copy_fd t i s = Some s' \<Longrightarrow> threads_ok s \<Longrightarrow> threads_ok s'"
  by (auto simp: copy_fd_def split: option.splits prod.splits intro!: set_thread_ok dest!: knew_sched intro: sched_typed)

lemma copy_area_ok: "copy_area t x s = Some s' \<Longrightarrow> threads_ok s \<Longrightarrow> threads_ok s'"
proof -
  assume h: "copy_area t x s = Some s'" "threads_ok s"
  obtain a v where x: "x = (a, v)" by fastforce
  show ?thesis
  proof (cases "kept_area v")
    case True
    then obtain s1 p s2 where s1: "knew (ucast (area_size v)) s = Some (s1, p)"
      and s2: "mmu_add_vma t (virt_addr v) (area_size v) (VIRT_TO_PHYS p) (rwx v) True s1 = Some s2"
      using h(1) x by (auto simp: copy_area_def split: option.splits prod.splits)
    have "threads_ok s1" using knew_sched[OF s1] h(2) by (rule sched_typed)
    then have "threads_ok s2" by (rule mmu_add_vma_ok[OF s2])
    then show ?thesis using h(1) x True s1 s2
      by (auto simp: copy_area_def Let_def split: if_splits intro!: set_thread_ok dest!: krelease_sched intro: sched_typed)
  qed (use h x in \<open>auto simp: copy_area_def\<close>)
qed

lemma fork_areas_ok: "fork_areas w t s = Some s' \<Longrightarrow> threads_ok s \<Longrightarrow> threads_ok s'"
proof -
  assume h: "fork_areas w t s = Some s'" "threads_ok s"
  obtain s1 where s1: "run_all (copy_area t) (vma_list (curr s)) s = Some s1" using h(1)
    by (auto simp: fork_areas_def split: option.splits)
  have "threads_ok s1" by (rule run_all_typed[OF copy_area_ok s1 h(2)])
  then show ?thesis using h(1) s1 by (auto simp: fork_areas_def split: option.splits) (metis mmu_add_vma_ok)
qed

lemma fork_context_ok: "threads_ok s \<Longrightarrow> threads_ok (fork_context cpu t s)"
proof -
  assume "threads_ok s"
  then have "threads_ok (copy_stack (kernel_sp (threads s t)) (kernel_sp (curr s)) s)" by (simp add: copy_stack_def)
  then have "threads_ok (set_curr (\<lambda>x. x\<lparr>ctx := store_context cpu (ctx x)\<rparr>) (copy_stack (kernel_sp (threads s t)) (kernel_sp (curr s)) s))"
    by (rule set_curr_ok) simp
  then show ?thesis unfolding fork_context_def Let_def by (rule set_thread_ok) simp
qed

lemma fork_ok: "fork w cpu tpf s = Some s' \<Longrightarrow> threads_ok s \<Longrightarrow> threads_ok s'"
proof -
  assume h: "fork w cpu tpf s = Some s'" "threads_ok s"
  obtain s1 t s2 s3 where s1: "thread_create (t_data (curr s)) (datasize (curr s)) (disable_interrupt s) = Some (s1, Some t)"
    and s2: "run_all (copy_fd t) [0..<MAX_FD + 1] (fork_handlers t s1) = Some s2" and s3: "fork_areas w t s2 = Some s3"
    and s': "s' = ret tpf (of_int (pid (threads (fork_context cpu t s3) t))) (enable_interrupt (fork_context cpu t s3))"
    using h(1) by (auto simp: fork_def Let_def simp del: upt_Suc split: option.splits prod.splits)
  have "threads_ok s1" using thread_create_ok[OF s1] h(2) by simp
  then have "threads_ok (fork_handlers t s1)" unfolding fork_handlers_def by (rule set_thread_ok) simp
  then have "threads_ok s2" by (rule run_all_typed[OF _ s2, rotated]) (rule copy_fd_ok)
  then have "threads_ok s3" by (rule fork_areas_ok[OF s3])
  then show ?thesis using fork_context_ok unfolding s' by simp
qed

lemma exit_ok: "threads_ok s \<Longrightarrow> threads_ok (exit s)"
  using set_curr_ok[of "disable_interrupt s" "\<lambda>x. x\<lparr>t_status := THREAD_ZOMBIE\<rparr>"]
  by (simp add: exit_def thread_ok_def)

lemma mbox_ok: "syscall_mbox_call g pa tpf u s = Some s' \<Longrightarrow> threads_ok s \<Longrightarrow> threads_ok s'"
  by (auto simp: syscall_mbox_call_def Let_def copy_from_pt_def copy_to_pt_def split: if_splits)

lemma kill_ok: "kill p s = Some s' \<Longrightarrow> threads_ok s \<Longrightarrow> threads_ok s'"
proof -
  assume h: "kill p s = Some s'" "threads_ok s"
  have "threads_ok (enable_interrupt (set_thread (\<lambda>x. x\<lparr>t_status := THREAD_ZOMBIE\<rparr>) (nat p) s1))" if "threads_ok s1" for s1
    using set_thread_ok[OF that, of "nat p" "\<lambda>x. x\<lparr>t_status := THREAD_ZOMBIE\<rparr>"] by (simp add: thread_ok_def)
  then show ?thesis using h
    by (auto simp: kill_def Let_def split: if_splits dest!: schedule_ok)
qed

lemma signal_register_ok: "threads_ok s \<Longrightarrow> threads_ok (signal_register n a s)"
  by (auto simp: signal_register_def Let_def intro!: set_curr_ok)

lemma signal_kill_ok: "signal_kill p n s = Some s' \<Longrightarrow> threads_ok s \<Longrightarrow> threads_ok s'"
proof -
  assume h: "signal_kill p n s = Some s'" "threads_ok s"
  define s1 where "s1 = (if SAFE_DEMO s then s
              else klog crnl (klog_hex (of_int p) (klog ''[DEBUG] signal kill is called in thread id '' s)))"
  have s1: "threads_ok s1" using h(2) by (simp add: s1_def)
  have d: "threads_ok (disable_interrupt s1)" "threads (disable_interrupt s1) = threads s1"
    using s1 sched_ofD(1)[OF sched_upd(2)] by simp_all
  show ?thesis
  proof (cases "p > int MAX_THREAD_COUNT \<or> p < 0 \<or> t_status (threads s (nat p)) = THREAD_FREE")
    case True
    then show ?thesis using h by (auto simp: signal_kill_def)
  next
    case False
    then have p: "nat p \<le> MAX_THREAD_COUNT" by linarith
    have n: "nat n \<le> SIGNAL_MAX" "sigcount (threads s1 (nat p)) (nat n) \<noteq> 2 ^ 31 - 1"
      and s': "s' = enable_interrupt (set_thread (\<lambda>x. x\<lparr>sigcount := (sigcount x)(nat n := sigcount x (nat n) + 1)\<rparr>) (nat p) (disable_interrupt s1))"
      using h(1) False by (auto simp: signal_kill_def Let_def s1_def split: if_splits)
    have "threads_ok (set_thread (\<lambda>x. x\<lparr>sigcount := (sigcount x)(nat n := sigcount x (nat n) + 1)\<rparr>) (nat p) (disable_interrupt s1))"
    proof (rule set_thread_ok[OF d(1)])
      assume t: "thread_ok (nat p) (threads (disable_interrupt s1) (nat p))"
      have "0 \<le> sigcount (threads s1 (nat p)) (nat n)" "sigcount (threads s1 (nat p)) (nat n) < 2 ^ 31"
        using t n(1) by (simp_all add: thread_ok_def d(2))
      then have "0 \<le> sigcount (threads s1 (nat p)) (nat n) + 1" "sigcount (threads s1 (nat p)) (nat n) + 1 < 2 ^ 31"
        using n(2) by simp_all
      then show "thread_ok (nat p) (threads (disable_interrupt s1) (nat p)\<lparr>sigcount := (sigcount (threads (disable_interrupt s1) (nat p)))
          (nat n := sigcount (threads (disable_interrupt s1) (nat p)) (nat n) + 1)\<rparr>)"
        using t by (auto simp: thread_ok_def d(2))
    qed
    then show ?thesis unfolding s' by simp
  qed
qed

lemma set_fd_ok: "threads_ok s \<Longrightarrow> threads_ok (set_fd i f s)"
  unfolding set_fd_def by (rule set_curr_ok) simp_all

lemma sys_open_ok: "sys_open tpf p fl s = Some s' \<Longrightarrow> threads_ok s \<Longrightarrow> threads_ok s'"
  by (auto simp: sys_open_def Let_def simp del: append.simps split: option.splits prod.splits
      dest!: klog_user_sched vfs_open_sched intro!: set_fd_ok intro: sched_typed)

lemma sys_close_ok: "sys_close tpf fd s = Some s' \<Longrightarrow> threads_ok s \<Longrightarrow> threads_ok s'"
  by (auto simp: sys_close_def Let_def simp del: append.simps split: option.splits
      dest!: vfs_close_sched intro!: set_fd_ok intro: sched_typed)

lemma sys_rw_ok:
  "sys_write tpf fd b n s = Some s' \<Longrightarrow> threads_ok s \<Longrightarrow> threads_ok s'"
  "sys_read tpf fd b n s = Some s' \<Longrightarrow> threads_ok s \<Longrightarrow> threads_ok s'"
  by (auto simp: sys_write_def sys_read_def split: option.splits dest!: vfs_write_sched vfs_read_sched intro: sched_typed)

lemma sys_dir_ok:
  "sys_mkdir tpf p s = Some s' \<Longrightarrow> threads_ok s \<Longrightarrow> threads_ok s'"
  "sys_mount tpf p f s = Some s' \<Longrightarrow> threads_ok s \<Longrightarrow> threads_ok s'"
  by (auto simp: sys_mkdir_def sys_mount_def Let_def simp del: append.simps split: option.splits
      dest!: klog_user_sched vfs_mkdir_sched vfs_mount_sched intro: sched_typed)

lemma sys_chdir_ok: "sys_chdir p s = Some s' \<Longrightarrow> threads_ok s \<Longrightarrow> threads_ok s'"
  by (auto simp: sys_chdir_def Let_def thread_ok_def simp del: append.simps split: option.splits
      dest!: user_path_length dest: klog_user_ok intro!: set_curr_ok)

lemma mmap_ok: "mmap a n pr fl s = Some r \<Longrightarrow> threads_ok s \<longrightarrow> threads_ok (fst r)"
proof (rule mmap.raw_induct[of "\<lambda>a n pr fl s r. threads_ok s \<longrightarrow> threads_ok (fst r)", rotated])
  fix f a n pr fl s r
  assume IH: "\<And>a n pr fl s r. f a n pr fl s = Some r \<Longrightarrow> threads_ok s \<longrightarrow> threads_ok (fst r)"
    and e: "(case List.find (\<lambda>(b, v). overlaps (page_round a) (page_round n) v) (vma_list (threads s (curr_thread s))) of
        Some (b, v) \<Rightarrow> f (virt_addr v + area_size v) (page_round n) pr fl (mmap_log a n pr fl s)
      | None \<Rightarrow> mmap_new (page_round a) (page_round n) pr (mmap_log a n pr fl s)) = Some r"
  have l: "threads_ok (mmap_log a n pr fl s) = threads_ok s" by (simp add: mmap_log_def Let_def)
  have n: "mmap_new b k pr s1 = Some r \<Longrightarrow> threads_ok s1 \<Longrightarrow> threads_ok (fst r)" for b k s1
    by (auto simp: mmap_new_def split: option.splits prod.splits dest!: knew_sched dest!: mmu_add_vma_ok intro: sched_typed)
  show "threads_ok s \<longrightarrow> threads_ok (fst r)"
  proof (cases "List.find (\<lambda>(b, v). overlaps (page_round a) (page_round n) v) (vma_list (threads s (curr_thread s)))")
    case None
    then show ?thesis using e n l by auto
  next
    case (Some bv)
    obtain b v where "bv = (b, v)" by fastforce
    then show ?thesis using e Some IH l by auto
  qed
qed

lemma with_mask_ok: "with_mask f s = Some s' \<Longrightarrow> \<forall>s s'. f s = Some s' \<longrightarrow> threads_ok s \<longrightarrow> threads_ok s' \<Longrightarrow> threads_ok s \<Longrightarrow> threads_ok s'"
  unfolding with_mask_def by (auto split: if_splits)

lemma sys_mmap_ok: "map_option (\<lambda>(s1, v). ret tpf v s1) (mmap a n pr fl s) = Some s' \<Longrightarrow> threads_ok s \<Longrightarrow> threads_ok s'"
  by (auto dest!: mmap_ok)

lemma mount_masked_ok:
  "map_option enable_interrupt (sys_mount tpf t f (disable_interrupt s)) = Some s' \<Longrightarrow> threads_ok s \<Longrightarrow> threads_ok s'"
  by (auto dest!: sys_dir_ok(2))

text \<open>A call with each number.\<close>

lemma syscall_table_ok: "syscall_table m tpf n s = Some s' \<Longrightarrow> threads_ok s \<Longrightarrow> threads_ok s'"
proof -
  assume h: "syscall_table m tpf n s = Some s'" "threads_ok s"
  have g: "threads_ok (getpid tpf s)" "threads_ok (exit s)" "threads_ok (signal_register i a s)" for i a
    using h(2) exit_ok signal_register_ok by (simp_all add: getpid_def)
  have w: "with_mask (uartread tpf b k) s = Some s' \<Longrightarrow> threads_ok s'" "with_mask (uartwrite tpf b k) s = Some s' \<Longrightarrow> threads_ok s'" for b k
    using with_mask_ok[of _ s s'] uart_calls_ok h(2) by blast+
  note calls = w exec_ok[OF _ h(2)] fork_ok[OF _ h(2)] mbox_ok[OF _ h(2)] kill_ok[OF _ h(2)] signal_kill_ok[OF _ h(2)]
    sys_mmap_ok[OF _ h(2)] sys_open_ok[OF _ h(2)] sys_close_ok[OF _ h(2)] sys_rw_ok[OF _ h(2)] sys_dir_ok(1)[OF _ h(2)]
    mount_masked_ok[OF _ h(2)] sys_chdir_ok[OF _ h(2)]
  have some: "Some t = Some s' \<Longrightarrow> threads_ok t \<Longrightarrow> threads_ok s'" for t by simp
  show ?thesis
    by (insert h(1), simp only: syscall_table_def Let_def split: if_split_asm, (rule g | rule h(2) | erule calls | erule some)+)
qed

text \<open>The state in which control leaves the router.\<close>

definition control_kern :: "control \<Rightarrow> kern" where
  "control_kern r = (case r of Returns s \<Rightarrow> s | Loads c s \<Rightarrow> s)"

lemma sync_64_router_ok: "sync_64_router m e tpf s = Some r \<Longrightarrow> threads_ok s \<Longrightarrow> threads_ok (control_kern r)"
proof -
  assume h: "sync_64_router m e tpf s = Some r" "threads_ok s"
  have "threads_ok (el1_interrupt_enable s)" using h(2) by simp
  then show ?thesis using h
    by (auto simp: sync_64_router_def control_kern_def Let_def split: if_splits dest: fault_ok syscall_table_ok)
qed

section \<open>Interrupts\<close>

lemma timer_switch_sched [simp]: "sched_of (core_timer_enable s) = sched_of s" "sched_of (core_timer_disable s) = sched_of s"
  by (simp_all add: sched_of_def core_timer_enable_def core_timer_disable_def)

lemma tick_ok:
  "add_and_run f p (core_timer_disable s) = Some s1 \<Longrightarrow> schedule (core_timer_enable s1) = Some s' \<Longrightarrow> threads_ok s \<Longrightarrow> threads_ok s'"
  "add_and_run f p (core_timer_disable s) = Some s1 \<Longrightarrow> schedule (el1_interrupt_disable (core_timer_enable s1)) = Some s' \<Longrightarrow> threads_ok s \<Longrightarrow> threads_ok s'"
  by (erule schedule_ok, rule sched_typed, auto dest: add_and_run_sched)+

lemma irq_router_ok: "irq_router r s = Some s' \<Longrightarrow> threads_ok s \<Longrightarrow> threads_ok s'"
  by (auto simp: irq_router_def split: if_splits option.splits dest!: add_and_run_sched intro: sched_typed)
    (metis schedule_ok sched_typed sched_upd(6) timer_switch_sched(1))

lemma irq_router2_ok: "irq_router2 r s = Some s' \<Longrightarrow> threads_ok s \<Longrightarrow> threads_ok s'"
  by (auto simp: irq_router2_def split: if_splits option.splits dest: tick_ok irq_router_ok)

section \<open>Every step of the kernel\<close>

text \<open>The ways in and on: an exception of the program, an interrupt, the check for signals and the
  return from a handler, a round of the idle thread, and the child's first steps after \<open>fork\<close>.\<close>

inductive kstep :: "machine \<Rightarrow> addr \<Rightarrow> kern \<Rightarrow> kern \<Rightarrow> bool" for m :: machine and dflt :: addr where
  exception: "sync_64_router m e tpf s = Some r \<Longrightarrow> kstep m dflt s (control_kern r)"
| interrupt: "irq_router2 regs s = Some s' \<Longrightarrow> kstep m dflt s s'"
| nested: "irq_router regs s = Some s' \<Longrightarrow> kstep m dflt s s'"
| signals: "check_signal (wrapper_addr m) dflt cpu tpf s = Some r \<Longrightarrow> kstep m dflt s (outcome_kern r)"
| resumed: "after_handler (wrapper_addr m) dflt cpu tpf i s = Some r \<Longrightarrow> i \<le> SIGNAL_MAX \<Longrightarrow> kstep m dflt s (outcome_kern r)"
| idle: "idle_round s = Some s' \<Longrightarrow> kstep m dflt s s'"
| child: "kstep m dflt s (fork_child tpf s)"

inductive_cases kstepE: "kstep m dflt s s'"

lemma kstep_ok: "kstep m dflt s s' \<Longrightarrow> threads_ok s \<Longrightarrow> threads_ok s'"
  by (erule kstepE)
    (auto simp: fork_child_def dest: sync_64_router_ok irq_router_ok irq_router2_ok check_signal_ok after_handler_ok idle_round_ok)

text \<open>The states after the start of the scheduler and the first program.\<close>

inductive running :: "machine \<Rightarrow> addr \<Rightarrow> addr \<Rightarrow> kern \<Rightarrow> kern \<Rightarrow> bool" for m :: machine and dflt idle :: addr and s0 :: kern where
  started: "init_thread_sched idle s0 = Some s1 \<Longrightarrow> sched_of s2 = sched_of s1 \<Longrightarrow> thread_exec (wrapper_addr m) a n s2 = Some s \<Longrightarrow> running m dflt idle s0 s"
| step: "running m dflt idle s0 s \<Longrightarrow> kstep m dflt s s' \<Longrightarrow> running m dflt idle s0 s'"

text \<open>The thread table of the image: zeroed.\<close>

definition zero_table :: "kern \<Rightarrow> bool" where
  "zero_table s \<longleftrightarrow> RQ_head s = None \<and> RQ_tail s = None \<and> curr_thread s \<le> MAX_THREAD_COUNT \<and>
     (\<forall>i. sigcount (threads s i) = (\<lambda>_. 0) \<and> curr_working_dir (threads s i) = [])"

lemma running_ok: "running m dflt idle s0 s \<Longrightarrow> zero_table s0 \<Longrightarrow> threads_ok s"
proof (induction rule: running.induct)
  case (started s1 s2 a n s)
  have "threads_ok s1" using init_thread_sched_ok[OF started(1)] started(4) by (simp add: zero_table_def)
  then have "threads_ok s2" using started(2) threads_ok_sched by blast
  then show ?case by (rule thread_exec_ok[OF started(3)])
qed (blast intro: kstep_ok)

end
