(* ===== verification/Ample.thy ===== *)
theory Ample
  imports Mmu_Inv
begin

text \<open>
  Heaps with aligned runs of free frames.  A count of free frames does not make an allocation of
  several frames succeed, a count of free aligned runs does: an allocation of at most the run's
  order takes its frames out of one run.
\<close>

definition runs :: "nat \<Rightarrow> nat set \<Rightarrow> nat set" where
  "runs r F = {j. frames (j * 2 ^ r) r \<subseteq> F}"

definition ample :: "nat \<Rightarrow> nat \<Rightarrow> kern \<Rightarrow> bool" where
  "ample r n s \<longleftrightarrow> n \<le> card (runs r (free_frames (mem s)))"

lemma ample_mono: "ample r n s \<Longrightarrow> m \<le> n \<Longrightarrow> ample r m s"
  by (simp add: ample_def)

lemma ample_mem: "mem s' = mem s \<Longrightarrow> ample r n s' = ample r n s"
  by (simp add: ample_def)

lemma runs_finite: "finite F \<Longrightarrow> finite (runs r F)"
proof -
  assume "finite F"
  moreover have "(\<lambda>j. j * 2 ^ r) ` runs r F \<subseteq> F" by (auto simp: runs_def frames_def)
  ultimately have "finite ((\<lambda>j. j * 2 ^ r) ` runs r F)" by (rule finite_subset[rotated])
  then show ?thesis by (rule finite_imageD) (simp add: inj_on_def)
qed

text \<open>An aligned block of a smaller order lies in one run.\<close>

lemma runs_take:
  assumes "2 ^ k dvd b" "k \<le> r"
  shows "runs r F - {b div 2 ^ r} \<subseteq> runs r (F - frames b k)"
proof
  fix j assume j: "j \<in> runs r F - {b div 2 ^ r}"
  have p: "(2 :: nat) ^ r = 2 ^ k * 2 ^ (r - k)" using assms(2) by (simp flip: power_add)
  have in_run: "x div 2 ^ r = b div 2 ^ r" if "x \<in> frames b k" for x
  proof -
    obtain c where c: "b = 2 ^ k * c" using assms(1) by (elim dvdE)
    have "x div 2 ^ k = c" using that c by (auto simp: frames_def intro!: div_nat_eqI)
    then have "x div 2 ^ r = c div 2 ^ (r - k)" by (simp add: p div_mult2_eq)
    moreover have "b div 2 ^ r = c div 2 ^ (r - k)" by (simp add: p c div_mult2_eq)
    ultimately show ?thesis by simp
  qed
  have "x div 2 ^ r = j" if "x \<in> frames (j * 2 ^ r) r" for x
    using that by (auto simp: frames_def mult.commute intro!: div_nat_eqI)
  then have "frames (j * 2 ^ r) r \<inter> frames b k = {}" using in_run j by blast
  then show "j \<in> runs r (F - frames b k)" using j by (auto simp: runs_def)
qed

lemma kalloc_ample:
  assumes ok: "heap_ok s" and n: "n \<noteq> 0" "size2order n \<le> r" "r \<le> MAX_ORDER" and am: "ample r (Suc m) s"
    and k: "kalloc n s = Some (s', a)"
  shows "a \<noteq> 0" "ample r m s'"
proof -
  have inv: "kmem_inv (mem s)" using ok by (simp add: heap_ok_def)
  have bi: "buddy_inv (mem s)" using inv by (simp add: kmem_inv_def)
  let ?F = "free_frames (mem s)"
  have c: "Suc m \<le> card (runs r ?F)" using am by (simp add: ample_def)
  then obtain j where j: "j \<in> runs r ?F" by fastforce
  have "frames (j * 2 ^ r) (size2order n) \<subseteq> frames (j * 2 ^ r) r"
    using n(2) by (auto simp: frames_def intro: less_le_trans power_increasing)
  then have "frames (j * 2 ^ r) (size2order n) \<subseteq> ?F" using j by (auto simp: runs_def)
  moreover have "2 ^ size2order n dvd j * (2 :: nat) ^ r" using n(2) by (simp add: le_imp_power_dvd dvd_mult)
  ultimately have none: "snd (buddy_allocate (size2order n) (mem s)) \<noteq> None"
    using alloc_complete[OF bi, of "size2order n" "j * 2 ^ r"] n(2,3) by simp
  have "kmalloc n (mem s) = Some (mem s', a)" using k by (rule kalloc_SomeD)
  then have "malloc_b n (mem s) = (mem s', a)" using kmalloc_page[OF n(1), of "mem s"] by simp
  then obtain b where b: "a \<noteq> 0" "2 ^ size2order n dvd b" "free_frames (mem s') = ?F - frames b (size2order n)"
    using malloc_b_post[OF inv n(1)] none by (auto simp: page_post_def Let_def)
  show "a \<noteq> 0" by (rule b(1))
  have fin: "finite (runs r ?F)" using c by (metis card.infinite not_less_eq_eq zero_le)
  have "runs r (free_frames (mem s')) \<subseteq> runs r ?F" using b(3) by (auto simp: runs_def)
  then have f': "finite (runs r (free_frames (mem s')))" using fin by (rule finite_subset)
  have "card (runs r ?F) - 1 \<le> card (runs r ?F - {b div 2 ^ r})"
    using diff_card_le_card_Diff[of "{b div 2 ^ r}" "runs r ?F"] by simp
  also have "\<dots> \<le> card (runs r (free_frames (mem s')))"
    using card_mono[OF f' runs_take[OF b(2) n(2), of ?F, folded b(3)]] by simp
  finally show "ample r m s'" using c by (simp add: ample_def)
qed

lemma knew_ample:
  assumes "heap_ok s" "n \<noteq> 0" "size2order n \<le> r" "r \<le> MAX_ORDER" "ample r (Suc m) s" "request_ok n"
  obtains s' a where "knew n s = Some (s', a)" "ample r m s'"
proof -
  obtain s' a where k: "kalloc n s = Some (s', a)" using kh.alloc_total[OF assms(1,6)] by blast
  from kalloc_ample[OF assms(1-5) k] k show thesis using that[of s' a] by (simp add: knew_def)
qed

text \<open>Where the blocks are.\<close>

lemma kblock_high: "a \<in> kblocks s \<Longrightarrow> 0xffff000000000000 \<le> unat a \<and> unat a + 4096 < 2 ^ 64"
proof -
  assume "a \<in> kblocks s"
  then obtain b where b: "a = index2address (of_nat b)" "b < TOTAL_FRAME" unfolding kblocks_def by (rule blocksE)
  have "unat a = 0xffff000000000000 + b * 4096" using unat_index2address[OF b(2), of 0] b(1) by simp
  then show ?thesis using b(2) by (simp add: TOTAL_FRAME_def)
qed

end
