(* ===== verification/Thread_Ops.thy ===== *)
theory Thread_Ops
  imports Thread_Types Ample
begin

text \<open>
  What creating and reaping threads does: \<open>thread_create\<close> on a heap with room, the removal of a
  thread from the run queue, and \<open>kill_zombies\<close> on a queue whose zombies own what they hold.
\<close>

section \<open>Allocation of any size\<close>

lemma kalloc_spec:
  assumes "heap_ok s" "request_ok n" "kalloc n s = Some (s', a)"
  shows "heap_ok s'" "a \<notin> kblocks s" "kblocks s' = (if a = 0 then kblocks s else insert a (kblocks s))"
    "quiet s' = quiet s" "\<And>b. b \<in> kblocks s \<Longrightarrow> kextent s' b = kextent s b" "a \<noteq> 0 \<Longrightarrow> bytes_from a n \<subseteq> kextent s' a"
proof -
  show "heap_ok s'" using kh.alloc_inv[OF assms] .
  show "a \<notin> kblocks s" "kblocks s' = (if a = 0 then kblocks s else insert a (kblocks s))"
  proof (atomize (full), cases "a = 0")
    case True
    then have "kblocks s' = kblocks s" using kh.alloc_null[OF assms(1,2)] assms(3) by blast
    then show "a \<notin> kblocks s \<and> kblocks s' = (if a = 0 then kblocks s else insert a (kblocks s))"
      using kh.null_dead[OF assms(1)] True by simp
  next
    case False
    then show "a \<notin> kblocks s \<and> kblocks s' = (if a = 0 then kblocks s else insert a (kblocks s))"
      using kh.alloc_fresh[OF assms False] by simp
  qed
  show "quiet s' = quiet s" using assms(3) by (rule kalloc_SomeD)
  show "\<And>b. b \<in> kblocks s \<Longrightarrow> kextent s' b = kextent s b" using kh.alloc_frame[OF assms] .
  show "a \<noteq> 0 \<Longrightarrow> bytes_from a n \<subseteq> kextent s' a" using kh.alloc_bytes[OF assms] .
qed

lemma stack_requests: "request_ok (ucast USTACK_SIZE)" "request_ok (ucast KSTACK_SIZE)" "request_ok (of_nat FRAME_SIZE)" "request_ok 0x1000"
  by (simp_all add: request_ok_def USTACK_SIZE_def KSTACK_SIZE_def FRAME_SIZE_def)

lemma stack_orders: "size2order (ucast USTACK_SIZE) = 2" "size2order (ucast KSTACK_SIZE) = 2" "size2order (of_nat FRAME_SIZE) = 0"
  "size2order 0x1000 = 0"
  by (simp_all add: size2order_def USTACK_SIZE_def KSTACK_SIZE_def FRAME_SIZE_def order_loop.simps)

section \<open>Creating a thread\<close>

lemma clear_page_zero: "i < 512 \<Longrightarrow> words (clear_page t s) (slot t i) = 0"
proof -
  assume "i < 512"
  then have "(8 :: 64 word) * of_nat i < 0x1000"
    by (simp add: word_less_nat_alt unat_word_ariths unat_of_nat_64)
  then show ?thesis by (simp add: clear_page_def slot_def)
qed

lemma mem_clear [simp]: "mem (clear_page t s) = mem s" "mem (set_thread f i s) = mem s" "mem (push_rq i s) = mem s"
  using same_threadsD(1)[OF push_rq_fields(5)[of s i]] by (simp_all add: clear_page_def set_thread_def)

lemma fresh_chain:
  assumes "a \<notin> K" "a \<noteq> 0" "K' = (if a = 0 then K else insert a K)" "distinct as \<and> K' \<inter> set as = {}"
  shows "distinct (a # as) \<and> K \<inter> set (a # as) = {}"
  using assms by auto

text \<open>With runs for its blocks, \<open>thread_create\<close> takes the free slot it found and puts it at the end of
  the queue; the five blocks are new.\<close>

lemma thread_create_spec:
  assumes ok: "heap_ok s" and q: "rq s xs" and t: "free_slot s = Some t" "t \<notin> set xs" and n: "request_ok n" "size2order n \<le> r"
    and r: "2 \<le> r" "r \<le> MAX_ORDER" and am: "ample r (5 + k) s"
  obtains s' usp ksp ssp dat pgd where "thread_create start n s = Some (s', Some t)" "heap_ok s'" "rq s' (xs @ [t])" "ample r k s'"
    "unlinked (threads s' t) = unlinked (fresh_thread start n usp ksp ssp dat pgd (threads s t))"
    "distinct [usp, ksp, ssp, dat, pgd]" "kblocks s \<inter> set [usp, ksp, ssp, dat, pgd] = {}"
    "kblocks s' = kblocks s \<union> set [usp, ksp, ssp, dat, pgd]" "kpage pgd" "\<forall>i < 512. words s' (slot pgd i) = 0"
    "\<forall>i. i \<noteq> t \<longrightarrow> unlinked (threads s' i) = unlinked (threads s i)" "curr_thread s' = curr_thread s"
    "files s' = files s" "reg_dev s' = reg_dev s"
proof -
  let ?s0 = "disable_interrupt s"
  have nz: "(ucast USTACK_SIZE :: 32 word) \<noteq> 0" "(ucast KSTACK_SIZE :: 32 word) \<noteq> 0" "(of_nat FRAME_SIZE :: 32 word) \<noteq> 0"
    "n \<noteq> 0" using n(1) by (simp_all add: USTACK_SIZE_def KSTACK_SIZE_def FRAME_SIZE_def request_ok_def)
  have so: "size2order (ucast USTACK_SIZE) \<le> r" "size2order (ucast KSTACK_SIZE) \<le> r" "size2order (of_nat FRAME_SIZE) \<le> r"
    "size2order 0x1000 \<le> r" using r(1) by (simp_all add: stack_orders)
  have ok0: "heap_ok ?s0" and am0: "ample r (Suc (4 + k)) ?s0" using ok am by (simp_all add: ample_def)
  obtain s1 usp where s1: "kalloc (ucast USTACK_SIZE) ?s0 = Some (s1, usp)" using kh.alloc_total[OF ok0 stack_requests(1)] by blast
  note a1 = kalloc_spec[OF ok0 stack_requests(1) s1] and m1 = kalloc_ample[OF ok0 nz(1) so(1) r(2) am0 s1]
  have am1: "ample r (Suc (3 + k)) s1" using m1(2) by (simp add: ample_def)
  obtain s2 ksp where s2: "kalloc (ucast KSTACK_SIZE) s1 = Some (s2, ksp)" using kh.alloc_total[OF a1(1) stack_requests(2)] by blast
  note a2 = kalloc_spec[OF a1(1) stack_requests(2) s2] and m2 = kalloc_ample[OF a1(1) nz(2) so(2) r(2) am1 s2]
  have am2: "ample r (Suc (2 + k)) s2" using m2(2) by (simp add: ample_def)
  obtain s3 ssp where s3: "kalloc (of_nat FRAME_SIZE) s2 = Some (s3, ssp)" using kh.alloc_total[OF a2(1) stack_requests(3)] by blast
  note a3 = kalloc_spec[OF a2(1) stack_requests(3) s3] and m3 = kalloc_ample[OF a2(1) nz(3) so(3) r(2) am2 s3]
  have am3: "ample r (Suc (Suc k)) s3" using m3(2) by (simp add: ample_def)
  obtain s4 dat where s4: "kalloc n s3 = Some (s4, dat)" using kh.alloc_total[OF a3(1) n(1)] by blast
  note a4 = kalloc_spec[OF a3(1) n(1) s4] and m4 = kalloc_ample[OF a3(1) nz(4) n(2) r(2) am3 s4]
  obtain s5 pgd where s5: "knew 0x1000 s4 = Some (s5, pgd)" "ample r k s5"
    by (rule knew_ample[OF a4(1) _ so(4) r(2) m4(2) stack_requests(4)]) simp
  note a5 = knew_spec[OF a4(1) stack_requests(4) s5(1)]
  have pk: "kpage pgd" by (rule knew_kpage[OF a4(1) _ s5(1)]) simp
  define s6 where "s6 = set_thread (fresh_thread start n usp ksp ssp dat pgd) t (clear_page pgd s5)"
  define s' where "s' = enable_interrupt (push_rq t s6)"
  have q5: "quiet s5 = quiet s" using a1(4) a2(4) a3(4) a4(4) a5(5) by simp
  note f5 = quietD[OF q5]
  have sc: "sched_of s5 = sched_of s" by (rule sched_quiet[OF q5])
  note sd = sched_ofD[OF sc]
  have fs: "free_slot ?s0 = Some t" using t(1) sched_ofD(1)[OF sched_upd(2), of s] by (simp add: free_slot_def)
  have tc: "thread_create start n s = Some (s', Some t)"
    using fs s1 s2 s3 s4 s5(1) by (simp add: thread_create_def Let_def s6_def s'_def)
  have m: "mem s' = mem s5" by (simp add: s'_def s6_def)
  have q6: "rq s6 xs"
  proof -
    have "threads (clear_page pgd s5) = threads s" "RQ_head (clear_page pgd s5) = RQ_head s" "RQ_tail (clear_page pgd s5) = RQ_tail s"
      using sd by (simp_all add: clear_page_def)
    then have "tnext s6 = tnext s" "tprev s6 = tprev s" "RQ_head s6 = RQ_head s" "RQ_tail s6 = RQ_tail s"
      by (auto simp: s6_def tnext_def tprev_def fun_eq_iff fresh_thread_def)
    then show ?thesis using q by (simp add: rq_def)
  qed
  have qq: "rq s' (xs @ [t])" unfolding s'_def using rq_push[OF q6 t(2)] by simp
  have un: "unlinked (threads s' i) = unlinked (threads s6 i)" for i
    using same_threadsD(4)[OF push_rq_fields(5)[of s6 t], of i] sched_ofD(1)[OF sched_upd(1), of "push_rq t s6"] by (simp add: s'_def)
  have th: "threads s6 i = (if i = t then fresh_thread start n usp ksp ssp dat pgd (threads s t) else threads s i)" for i
    using sd by (simp add: s6_def clear_page_def)
  have kb': "kblocks s' = kblocks s5" "heap_ok s' = heap_ok s5" using heap_cong[OF m] by simp_all
  have kb: "kblocks s' = kblocks s \<union> set [usp, ksp, ssp, dat, pgd]"
    using kb' a1(3) a2(3) a3(3) a4(3) a5(2,4) m1(1) m2(1) m3(1) m4(1) by auto
  have "distinct [pgd] \<and> kblocks s4 \<inter> set [pgd] = {}" using a5(3) by simp
  note fresh_chain[OF a4(2) m4(1) a4(3) this]
  note fresh_chain[OF a3(2) m3(1) a3(3) this]
  note fresh_chain[OF a2(2) m2(1) a2(3) this]
  note dist = fresh_chain[OF a1(2) m1(1) a1(3) this, unfolded heap_masking]
  have oq: "off_queue s' = off_queue s6" using push_rq_fields(5)[of s6 t] by (simp add: s'_def same_threads_def)
  have w: "words s' = words (clear_page pgd s5)"
    using arg_cong[OF oq, of words] by (simp add: off_queue_def s6_def set_thread_def)
  have fl: "files s' = files s" "reg_dev s' = reg_dev s"
    using arg_cong[OF oq, of files] arg_cong[OF oq, of reg_dev] f5(17,24)
    by (simp_all add: off_queue_def s6_def set_thread_def clear_page_def)
  have cu: "curr_thread s' = curr_thread s"
    using arg_cong[OF oq, of curr_thread] sd(2) by (simp add: off_queue_def s6_def clear_page_def)
  have "ample r k s'" using s5(2) m by (simp add: ample_def)
  moreover have "unlinked (threads s' t) = unlinked (fresh_thread start n usp ksp ssp dat pgd (threads s t))"
    using un[of t] th[of t] by simp
  moreover have "\<forall>i < 512. words s' (slot pgd i) = 0" unfolding w using clear_page_zero by blast
  moreover have "\<forall>i. i \<noteq> t \<longrightarrow> unlinked (threads s' i) = unlinked (threads s i)" using un th by simp
  ultimately show thesis using that[OF tc _ qq] kb' a5(1) dist kb pk cu fl by blast
qed

end
