(* ===== verification/Reap.thy ===== *)
theory Reap
  imports Thread_Ops
begin

text \<open>
  \<open>kill_zombies\<close>: what a zombie must own for the clean-up to succeed, and that the clean-up takes the
  zombies out of the run queue and releases exactly their blocks.
\<close>

section \<open>Releasing a list of blocks\<close>

lemma run_all_append: "run_all f (xs @ ys) s = Option.bind (run_all f xs s) (run_all f ys)"
  by (induction xs arbitrary: s) (auto split: option.split)

lemma release_all:
  assumes "heap_ok s" "distinct as" "set as \<subseteq> kblocks s"
  obtains s' where "run_all krelease as s = Some s'" "heap_ok s'" "kblocks s' = kblocks s - set as" "quiet s' = quiet s"
proof -
  have "\<exists>s'. run_all krelease as s = Some s' \<and> heap_ok s' \<and> kblocks s' = kblocks s - set as \<and> quiet s' = quiet s"
    using assms
  proof (induction as arbitrary: s)
    case (Cons a as)
    have a: "a \<in> kblocks s" using Cons.prems(3) by simp
    obtain s1 where s1: "krelease a s = Some s1" "heap_ok s1" "kblocks s1 = kblocks s - {a}" "quiet s1 = quiet s"
      by (rule krelease_spec[OF Cons.prems(1) a])
    have "distinct as" "set as \<subseteq> kblocks s1" using Cons.prems(2,3) s1(3) by auto
    from Cons.IH[OF s1(2) this] show ?case using s1 by auto
  qed simp
  then show thesis using that by blast
qed

section \<open>What a thread owns\<close>

definition pgd_of :: "thread_t \<Rightarrow> addr" where
  "pgd_of x = PHYS_TO_VIRT (c_pgd (ctx x))"

definition area_blocks :: "thread_t \<Rightarrow> addr list" where
  "area_blocks x = concat (map (\<lambda>(a, v). (if is_alloced v then [PHYS_TO_VIRT (phys_addr v)] else []) @ [a]) (vma_list x))"

definition fd_blocks :: "thread_t \<Rightarrow> addr list" where
  "fd_blocks x = List.map_filter (fd_table x) [0..<MAX_FD]"

definition holdings :: "thread_t \<Rightarrow> addr list" where
  "holdings x = area_blocks x @ fd_blocks x @ [kernel_sp x, pgd_of x]"

definition holds :: "kern \<Rightarrow> thread_t \<Rightarrow> addr set" where
  "holds s x = set (holdings x) \<union> below 2 (words s) (pgd_of x)"

definition closable :: "kern \<Rightarrow> addr \<Rightarrow> bool" where
  "closable s f \<longleftrightarrow> (\<exists>t. ops_table s (fh_ops (files s f)) = Some t \<and> (\<forall>n. t \<noteq> Reg_dev n))"

text \<open>Every block once, all of them allocated, the page tables a tree, the handles of known kinds.\<close>

definition owns :: "kern \<Rightarrow> thread_t \<Rightarrow> bool" where
  "owns s x \<longleftrightarrow> kpage (pgd_of x) \<and> tree 3 (words s) (pgd_of x) \<and> distinct (holdings x) \<and>
     set (holdings x) \<inter> below 2 (words s) (pgd_of x) = {} \<and> holds s x \<subseteq> kblocks s \<and> (\<forall>f \<in> set (fd_blocks x). closable s f)"

lemma vfs_close_krelease: "closable s f \<Longrightarrow> vfs_close f s = krelease f s"
  by (auto simp: closable_def vfs_close_def tmpfs_close_def initramfs_close_def dev_uart_close_def
      dev_framebuffer_close_def split: f_ops_t.splits)

lemma closable_quiet: "quiet s' = quiet s \<Longrightarrow> closable s' f = closable s f"
  using quietD[of s' s] by (simp add: closable_def ops_table_def cong: option.case_cong f_ops_t.case_cong)

lemma run_free_areas: "run_all free_area vs s = run_all krelease (area_blocks (x\<lparr>vma_list := vs\<rparr>)) s"
proof (induction vs arbitrary: s)
  case (Cons av vs)
  obtain a v where av: "av = (a, v)" by fastforce
  show ?case
    by (cases "is_alloced v") (use Cons.IH in \<open>simp_all add: av area_blocks_def free_area_def split: option.split\<close>)
qed (simp add: area_blocks_def)

lemma run_close_fds:
  assumes "\<forall>f \<in> set (List.map_filter (fd_table (threads s th)) is). closable s f"
  shows "run_all (close_fd th) is s = run_all krelease (List.map_filter (fd_table (threads s th)) is) s"
  using assms
proof (induction "is" arbitrary: s)
  case (Cons i js)
  show ?case
  proof (cases "fd_table (threads s th) i")
    case None
    then show ?thesis using Cons by (simp add: close_fd_def map_filter_simps)
  next
    case (Some f)
    then have c: "close_fd th i s = krelease f s" using Cons.prems vfs_close_krelease by (simp add: close_fd_def map_filter_simps)
    show ?thesis
    proof (cases "krelease f s")
      case None
      then show ?thesis using Some c by (simp add: map_filter_simps)
    next
      case (Some s1)
      have q: "quiet s1 = quiet s" using Some by (cases "f = 0") (simp add: krelease_def, auto elim: krelease_SomeD)
      have "threads s1 = threads s" using krelease_sched[OF Some] by (rule sched_ofD)
      then show ?thesis using Cons.IH[of s1] Cons.prems Some c \<open>fd_table (threads s th) i = Some f\<close> closable_quiet[OF q]
        by (simp add: map_filter_simps)
    qed
  qed
qed (simp add: map_filter_simps)

section \<open>Leaving the queue\<close>

definition clear_links :: "thread_t \<Rightarrow> thread_t" where
  "clear_links x = x\<lparr>t_status := THREAD_FREE, th_prev := None, th_next := None\<rparr>"

text \<open>The links that \<open>unlink_thread\<close> leaves; \<open>t\<close>'s own are cleared at the end of \<open>reap\<close>.\<close>

lemma unlink_rest:
  "(unlink_thread t s)\<lparr>threads := a, RQ_head := b, RQ_tail := c\<rparr> = s\<lparr>threads := a, RQ_head := b, RQ_tail := c\<rparr>"
proof -
  have "(set_thread f i s)\<lparr>threads := a, RQ_head := b, RQ_tail := c\<rparr> = s\<lparr>threads := a, RQ_head := b, RQ_tail := c\<rparr>"
    "s\<lparr>RQ_head := h, threads := a, RQ_head := b, RQ_tail := c\<rparr> = s\<lparr>threads := a, RQ_head := b, RQ_tail := c\<rparr>"
    "s\<lparr>RQ_tail := h, threads := a, RQ_head := b, RQ_tail := c\<rparr> = s\<lparr>threads := a, RQ_head := b, RQ_tail := c\<rparr>" for f i s h
    by (simp_all add: set_thread_def)
  then show ?thesis by (simp add: unlink_thread_def Let_def split: option.split)
qed

lemma unlink_fields:
  assumes "rq s (us @ t # ws)"
  shows "y \<noteq> t \<Longrightarrow> tnext (unlink_thread t s) y = (if us \<noteq> [] \<and> y = last us then tnext s t else tnext s y)"
    "y \<noteq> t \<Longrightarrow> tprev (unlink_thread t s) y = (if tnext s t = Some y then tprev s t else tprev s y)"
    "RQ_head (unlink_thread t s) = (if us = [] then tnext s t else RQ_head s)"
    "RQ_tail (unlink_thread t s) = (if ws = [] then tprev s t else RQ_tail s)"
    "unlinked (threads (unlink_thread t s) i) = unlinked (threads s i)"
    "(unlink_thread t s)\<lparr>threads := threads s, RQ_head := RQ_head s, RQ_tail := RQ_tail s\<rparr> = s"
proof -
  note r = assms[unfolded rq_def]
  have d: "dll (tnext s) (tprev s) None (RQ_head s) (us @ t # ws)" and dist: "distinct (us @ t # ws)" using r by auto
  note f = dll_nth_fields[OF d]
  have h: "RQ_head s = Some (hd (us @ t # ws))" using dll_head[OF d] by simp
  have hd: "RQ_head s = Some t \<longleftrightarrow> us = []" using h dist by (cases us) auto
  have tl: "RQ_tail s = Some (last (t # ws))" using r by simp
  have lt: "last (t # ws) = t \<longleftrightarrow> ws = []" using dist last_in_set[of ws] by (cases "ws = []") auto
  have p: "th_prev (threads s t) = (if us = [] then None else Some (last us))" using f(1) by (simp add: tprev_def)
  have pt: "us \<noteq> [] \<Longrightarrow> last us \<noteq> t" using dist last_in_set by fastforce
  have n: "th_next (threads s t) = (if ws = [] then None else Some (hd ws))" using f(2) by (simp add: tnext_def)
  have nt: "ws \<noteq> [] \<Longrightarrow> hd ws \<noteq> t" using dist hd_in_set by fastforce
  have np: "us \<noteq> [] \<Longrightarrow> ws \<noteq> [] \<Longrightarrow> last us \<noteq> hd ws" using dist last_in_set hd_in_set by fastforce
  show "y \<noteq> t \<Longrightarrow> tnext (unlink_thread t s) y = (if us \<noteq> [] \<and> y = last us then tnext s t else tnext s y)"
    "y \<noteq> t \<Longrightarrow> tprev (unlink_thread t s) y = (if tnext s t = Some y then tprev s t else tprev s y)"
    "RQ_head (unlink_thread t s) = (if us = [] then tnext s t else RQ_head s)"
    "RQ_tail (unlink_thread t s) = (if ws = [] then tprev s t else RQ_tail s)"
    using hd tl lt pt nt by (cases "us = []"; cases "ws = []"; simp add: unlink_thread_def Let_def tnext_def tprev_def p n)+
  show "unlinked (threads (unlink_thread t s) i) = unlinked (threads s i)"
    by (auto simp: unlink_thread_def Let_def split: option.split)
  show "(unlink_thread t s)\<lparr>threads := threads s, RQ_head := RQ_head s, RQ_tail := RQ_tail s\<rparr> = s"
    using unlink_rest[where t = t and s = s] by simp
qed

lemma rq_unlinked:
  assumes q: "rq s (us @ t # ws)" and l: "\<And>y. y \<noteq> t \<Longrightarrow> tnext s' y = tnext (unlink_thread t s) y \<and> tprev s' y = tprev (unlink_thread t s) y"
    and t: "tnext s' t = None" "tprev s' t = None" and h: "RQ_head s' = RQ_head (unlink_thread t s)" "RQ_tail s' = RQ_tail (unlink_thread t s)"
  shows "rq s' (us @ ws)"
proof -
  note r = q[unfolded rq_def]
  have d: "dll (tnext s) (tprev s) None (RQ_head s) (us @ t # ws)" and dist: "distinct (us @ t # ws)" using r by auto
  note f = dll_nth_fields[OF d] and u = unlink_fields[OF q]
  have o: "tnext s' y = tnext s y \<and> tprev s' y = tprev s y" if "y \<notin> set (us @ t # ws)" for y
  proof -
    have "y \<noteq> t" "us \<noteq> [] \<Longrightarrow> y \<noteq> last us" "tnext s t \<noteq> Some y"
      using that f(2) last_in_set[of us] hd_in_set[of ws] by (auto split: if_splits)
    then show ?thesis using l[of y] u(1,2) by auto
  qed
  have "dll (tnext s') (tprev s') None (RQ_head s') (us @ ws)"
  proof (cases us rule: rev_cases)
    case Nil
    have "dll (tnext s') (tprev s') None (tnext s t) ws"
    proof (rule dll_pop)
      show "dll (tnext s) (tprev s) None (Some t) (t # ws)" using d Nil by simp
      fix x assume "x \<in> set ws"
      then have "x \<noteq> t" using dist by auto
      then show "tnext s' x = tnext s x" "tprev s' x = (if tnext s t = Some x then None else tprev s x)"
        using l[of x] u(1,2) Nil f(1) by simp_all
    qed
    then show ?thesis using h(1) u(3) Nil by simp
  next
    case (snoc vs c)
    have "dll (tnext s') (tprev s') None (RQ_head s) (vs @ c # ws)"
    proof (rule dll_unlink_middle)
      show "dll (tnext s) (tprev s) None (RQ_head s) (vs @ c # t # ws)" using d snoc by simp
      fix x assume "x \<in> set (vs @ c # ws)"
      then have "x \<noteq> t" using dist snoc by auto
      then show "tnext s' x = (if x = c then tnext s t else tnext s x)" "tprev s' x = (if tnext s t = Some x then Some c else tprev s x)"
        using l[of x] u(1,2) snoc f(1) by simp_all
    qed
    then show ?thesis using h(1) u(3) snoc by simp
  qed
  moreover have "RQ_tail s' = (if us @ ws = [] then None else Some (last (us @ ws)))"
    using h(2) u(4) r f(1) by auto
  moreover have "tnext s' i = None \<and> tprev s' i = None" if "i \<notin> set (us @ ws)" for i
    using that o[of i] t r by (cases "i = t") auto
  ultimately show ?thesis using dist by (simp add: rq_def)
qed

section \<open>Reaping one thread\<close>

text \<open>The queue and the links do not matter to what is owned.\<close>

lemma owns_cong:
  assumes "unlinked x' = unlinked x" "words s' = words s" "kblocks s' = kblocks s" "files s' = files s" "reg_dev s' = reg_dev s"
  shows "owns s' x' = owns s x" "holds s' x' = holds s x" "holdings x' = holdings x"
proof -
  have f: "g x' = g x" if "\<And>x. g (unlinked x) = g x" for g :: "thread_t \<Rightarrow> 'b" using assms(1) that by metis
  have "ctx x' = ctx x" "vma_list x' = vma_list x" "fd_table x' = fd_table x" "kernel_sp x' = kernel_sp x"
    using f[of ctx] f[of vma_list] f[of fd_table] f[of kernel_sp] by (simp_all add: unlinked_def)
  then have "pgd_of x' = pgd_of x" "fd_blocks x' = fd_blocks x" and h: "holdings x' = holdings x"
    by (simp_all add: pgd_of_def fd_blocks_def holdings_def area_blocks_def)
  then show "owns s' x' = owns s x" "holds s' x' = holds s x"
    using assms(2-5) by (simp_all add: owns_def holds_def closable_def ops_table_def del: tree.simps cong: f_ops_t.case_cong)
  show "holdings x' = holdings x" by (rule h)
qed

lemma reap_spec:
  assumes ok: "heap_ok s" and q: "rq s (us @ t # ws)" and ow: "owns s (threads s t)"
  obtains s' where "reap t s = Some s'" "heap_ok s'" "rq s' (us @ ws)" "kblocks s' = kblocks s - holds s (threads s t)"
    "unlinked (threads s' t) = unlinked ((threads s t)\<lparr>t_status := THREAD_FREE, vma_list := []\<rparr>)"
    "\<forall>i. i \<noteq> t \<longrightarrow> unlinked (threads s' i) = unlinked (threads s i)"
    "\<forall>p. kpage p \<longrightarrow> p \<notin> pages 3 (words s) (pgd_of (threads s t)) \<longrightarrow> (\<forall>i < 512. words s' (slot p i) = words s (slot p i))"
    "curr_thread s' = curr_thread s" "files s' = files s" "reg_dev s' = reg_dev s"
proof -
  let ?x = "threads s t" and ?pgd = "pgd_of (threads s t)"
  have o: "kpage ?pgd" "tree (Suc 2) (words s) ?pgd" "distinct (holdings ?x)" "set (holdings ?x) \<inter> below 2 (words s) ?pgd = {}"
    "holds s ?x \<subseteq> kblocks s" "\<forall>f \<in> set (fd_blocks ?x). closable s f"
    using ow by (simp_all add: owns_def numeral_3_eq_3 numeral_2_eq_2 del: tree.simps)
  define s0 where "s0 = (if SAFE_DEMO s then s else klog crnl (klog_hex (of_int (pid (threads s t))) (klog ''Idle thread find zombie '' s)))"
  have q0: "quiet s0 = quiet s" "mem s0 = mem s" by (simp_all add: s0_def)
  note f0 = quietD[OF q0(1)]
  define s1 where "s1 = unlink_thread t s0"
  have rq0: "rq s0 (us @ t # ws)" using q f0 by (simp add: rq_def tnext_def[abs_def] tprev_def[abs_def])
  note u = unlink_fields[OF rq0, folded s1_def]
  have u6: "quiet (s1\<lparr>threads := threads s0, RQ_head := RQ_head s0, RQ_tail := RQ_tail s0\<rparr>) = quiet s0" using u(6) by simp
  have m1: "mem s1 = mem s" using arg_cong[OF u(6), of mem] q0(2) by simp
  note h1 = heap_cong[OF m1]
  have w1: "words s1 = words s" using quietD(15)[OF u6] f0 by simp
  have c1: "closable s1 f = closable s f" for f
    using quietD(17,24)[OF u6] f0(17,24) by (simp add: closable_def ops_table_def cong: option.case_cong f_ops_t.case_cong)
  have un1: "unlinked (threads s1 i) = unlinked (threads s i)" for i using u(5) f0 by simp
  have hx: "holdings (threads s1 t) = holdings ?x" "pgd_of (threads s1 t) = ?pgd" "vma_list (threads s1 t) = vma_list ?x"
    "fd_table (threads s1 t) = fd_table ?x" "kernel_sp (threads s1 t) = kernel_sp ?x" "ctx (threads s1 t) = ctx ?x"
    using owns_cong(3)[OF un1[of t], of s s] arg_cong[OF un1[of t], of vma_list] arg_cong[OF un1[of t], of ctx]
      arg_cong[OF un1[of t], of fd_table] arg_cong[OF un1[of t], of kernel_sp] by (simp_all add: unlinked_def pgd_of_def)
  have cx: "c_pgd (ctx (threads s0 t)) = VIRT_TO_PHYS ?pgd" using f0 by (simp add: pgd_of_def)
  have "below 2 (words s1) ?pgd \<subseteq> kblocks s1" using o(5) h1 w1 by (auto simp: holds_def)
  moreover have "heap_ok s1" "tree (Suc 2) (words s1) ?pgd" using ok o(2) h1 w1 by (simp_all del: tree.simps)
  ultimately obtain s2 where s2: "free_tables 2 (VIRT_TO_PHYS ?pgd) s1 = Some s2" "freed (Suc 2) ?pgd s1 s2"
    using free_tables_spec[of s1 ?pgd 2] o(1) by blast
  have fr: "heap_ok s2" "kblocks s2 = kblocks s1 - (pages (Suc 2) (words s1) ?pgd - {?pgd})"
    "\<forall>p. kpage p \<longrightarrow> p \<notin> pages (Suc 2) (words s1) ?pgd \<longrightarrow> (\<forall>i < 512. words s2 (slot p i) = words s1 (slot p i))"
    "quiet (s2\<lparr>words := words s1\<rparr>) = quiet s1"
    using s2(2) unfolding freed_def by blast+
  have kb2: "kblocks s2 = kblocks s - below 2 (words s) ?pgd"
    using fr(2) h1 tree_root[OF o(2)] unfolding w1 pages_Suc by auto
  note f2 = quietD[OF fr(4)]
  have th2: "threads s2 = threads s1" using f2 by simp
  have cl2: "closable s2 f = closable s f" for f
    using f2(17,24) c1[of f] by (simp add: closable_def ops_table_def cong: option.case_cong f_ops_t.case_cong)
  \<comment> \<open>the areas, the handles, the stack and the root table\<close>
  have sub: "set (holdings ?x) \<subseteq> kblocks s2" using o(4,5) kb2 by (auto simp: holds_def)
  have d: "distinct (area_blocks ?x)" "distinct (fd_blocks ?x)" "set (area_blocks ?x) \<inter> set (fd_blocks ?x) = {}"
    "kernel_sp ?x \<notin> set (area_blocks ?x) \<union> set (fd_blocks ?x)" "?pgd \<notin> set (area_blocks ?x) \<union> set (fd_blocks ?x)" "kernel_sp ?x \<noteq> ?pgd"
    using o(3) by (auto simp: holdings_def)
  have "set (area_blocks ?x) \<subseteq> kblocks s2" using sub by (simp add: holdings_def)
  then obtain s3 where s3: "run_all krelease (area_blocks ?x) s2 = Some s3" "heap_ok s3" "kblocks s3 = kblocks s2 - set (area_blocks ?x)" "quiet s3 = quiet s2"
    using release_all[OF fr(1) d(1)] by blast
  define s3' where "s3' = set_thread (\<lambda>x. x\<lparr>vma_list := []\<rparr>) t s3"
  have "area_blocks (?x\<lparr>vma_list := vma_list (threads s2 t)\<rparr>) = area_blocks ?x" using hx(3) th2 by (simp add: area_blocks_def)
  then have del: "mmu_del_all_vma t s2 = Some s3'" using s3(1) run_free_areas[of "vma_list (threads s2 t)" s2 ?x]
    by (simp add: mmu_del_all_vma_def s3'_def)
  have m3: "mem s3' = mem s3" by (simp add: s3'_def)
  note h3 = heap_cong[OF m3] and f3 = quietD[OF s3(4)]
  have th3: "threads s3' = (threads s1)(t := (threads s1 t)\<lparr>vma_list := []\<rparr>)" using f3 th2 by (simp add: s3'_def)
  have fd3: "List.map_filter (fd_table (threads s3' t)) [0..<MAX_FD] = fd_blocks ?x" using th3 hx(4) by (simp add: fd_blocks_def)
  have cl3: "closable s3' f = closable s f" for f
    using closable_quiet[OF s3(4), of f] cl2[of f]
    by (simp add: closable_def ops_table_def s3'_def set_thread_def cong: option.case_cong f_ops_t.case_cong)
  have "set (fd_blocks ?x) \<subseteq> kblocks s3'" using sub s3(3) h3 d(3) by (auto simp: holdings_def)
  then obtain s4 where s4: "run_all krelease (fd_blocks ?x) s3' = Some s4" "heap_ok s4" "kblocks s4 = kblocks s3' - set (fd_blocks ?x)" "quiet s4 = quiet s3'"
    using release_all[of s3' "fd_blocks ?x"] s3(2) h3 d(2) by auto
  have fds: "run_all (close_fd t) [0..<MAX_FD] s3' = Some s4"
    using run_close_fds[of s3' t "[0..<MAX_FD]"] fd3 cl3 o(6) s4(1) by simp
  note f4 = quietD[OF s4(4)]
  have ks: "kernel_sp (threads s4 t) = kernel_sp ?x" using f4 th3 hx(5) by simp
  have "kernel_sp ?x \<in> kblocks s4" using sub s4(3) s3(3) h3 d(4) by (auto simp: holdings_def)
  then obtain s5 where s5: "krelease (kernel_sp ?x) s4 = Some s5" "heap_ok s5" "kblocks s5 = kblocks s4 - {kernel_sp ?x}" "quiet s5 = quiet s4"
    using krelease_spec[OF s4(2)] by metis
  note f5 = quietD[OF s5(4)]
  have pg: "PHYS_TO_VIRT (c_pgd (ctx (threads s5 t))) = ?pgd" using f5 f4 th3 hx(6) by (simp add: pgd_of_def)
  have "?pgd \<in> kblocks s5" using sub s5(3) s4(3) s3(3) h3 d(5,6) by (auto simp: holdings_def)
  then obtain s6 where s6: "krelease ?pgd s5 = Some s6" "heap_ok s6" "kblocks s6 = kblocks s5 - {?pgd}" "quiet s6 = quiet s5"
    using krelease_spec[OF s5(2)] by metis
  note f6 = quietD[OF s6(4)]
  have fl6: "files s6 = files s3'" "reg_dev s6 = reg_dev s3'" by (simp_all only: f6(17,24) f5(17,24) f4(17,24))
  have fl3: "files s3' = files s1" "reg_dev s3' = reg_dev s1"
    using f3(17,24) f2(17,24) by (simp_all add: s3'_def set_thread_def)
  define s' where "s' = set_thread (\<lambda>x. x\<lparr>t_status := THREAD_FREE, th_prev := None, th_next := None\<rparr>) t s6"
  have cx0: "c_pgd (ctx (threads s0 t)) = VIRT_TO_PHYS ?pgd" by (rule cx)
  have r: "reap t s = Some s'"
    using s2(1) del fds s5(1) s6(1) ks pg cx0
    by (simp add: reap_def Let_def mmu_free_page_tables_def s0_def[symmetric] s1_def[symmetric] s'_def del: free_tables.simps)
  have sc6: "sched_of s6 = sched_of s3'" using sched_quiet[OF s6(4)] sched_quiet[OF s5(4)] sched_quiet[OF s4(4)] by simp
  have sc3: "sched_of s3 = sched_of s1" using sched_quiet[OF s3(4)] sched_quiet[OF fr(4)] by simp
  have th6: "threads s6 = threads s3'" by (rule sched_ofD(1)[OF sc6])
  have ends: "RQ_head s' = RQ_head s1" "RQ_tail s' = RQ_tail s1"
    using sched_ofD(3,4)[OF sc6] sched_ofD(3,4)[OF sc3] by (simp_all add: s'_def s3'_def)
  have m6: "mem s' = mem s6" by (simp add: s'_def)
  note h6 = heap_cong[OF m6]
  show thesis
  proof (rule that[OF r])
    show "heap_ok s'" using h6 s6(2) by simp
    show "rq s' (us @ ws)"
      by (rule rq_unlinked[OF rq0]) (use th6 th3 ends in \<open>auto simp: s'_def tnext_def tprev_def s1_def\<close>)
    show "kblocks s' = kblocks s - holds s ?x"
      using h6 s6(3) s5(3) s4(3) s3(3) h3(2) kb2 by (auto simp: holds_def holdings_def)
    show "unlinked (threads s' t) = unlinked (?x\<lparr>t_status := THREAD_FREE, vma_list := []\<rparr>)"
    proof -
      have "unlinked (threads s' t) = (unlinked (threads s1 t))\<lparr>t_status := THREAD_FREE, vma_list := []\<rparr>"
        using th6 th3 by (simp add: s'_def unlinked_def)
      then show ?thesis using un1[of t] by (simp add: unlinked_def)
    qed
    show "\<forall>i. i \<noteq> t \<longrightarrow> unlinked (threads s' i) = unlinked (threads s i)" using th6 th3 un1 by (simp add: s'_def)
    show "\<forall>p. kpage p \<longrightarrow> p \<notin> pages 3 (words s) ?pgd \<longrightarrow> (\<forall>i < 512. words s' (slot p i) = words s (slot p i))"
    proof -
      have "words s' = words s6" by (simp add: s'_def set_thread_def)
      also have "\<dots> = words s3'" unfolding f6(15) f5(15) f4(15) ..
      also have "\<dots> = words s2" unfolding f3(15)[symmetric] by (simp add: s3'_def set_thread_def)
      finally have "words s' = words s2" .
      then show ?thesis using fr(3) w1 by (simp add: numeral_3_eq_3 numeral_2_eq_2 del: pages.simps)
    qed
    note fu = quietD[OF u6]
    show "curr_thread s' = curr_thread s"
      using sched_ofD(2)[OF sc6] sched_ofD(2)[OF sc3] fu(12) f0(12) by (simp add: s'_def s3'_def)
    show "files s' = files s" "reg_dev s' = reg_dev s"
      using fl6 fl3 fu(17,24) f0(17,24) by (simp_all add: s'_def set_thread_def)
  qed
qed

section \<open>Reaping them all\<close>

text \<open>What another thread owns is not touched.\<close>

lemma owns_after:
  assumes ow: "owns s x" and oy: "owns s y" and d: "holds s x \<inter> holds s y = {}"
    and w: "\<forall>p. kpage p \<longrightarrow> p \<notin> pages 3 (words s) (pgd_of y) \<longrightarrow> (\<forall>i < 512. words s' (slot p i) = words s (slot p i))"
    and kb: "kblocks s' = kblocks s - holds s y" and fr: "files s' = files s" "reg_dev s' = reg_dev s" and x: "unlinked x' = unlinked x"
  shows "owns s' x' \<and> holds s' x' = holds s x"
proof -
  let ?m = "s\<lparr>words := words s', mem := mem s'\<rparr>"
  have kx: "kpage (pgd_of x)" and tx: "tree (Suc 2) (words s) (pgd_of x)"
    using ow by (simp_all add: owns_def numeral_3_eq_3 numeral_2_eq_2 del: tree.simps)
  have px: "pages (Suc 2) (words s) (pgd_of x) \<subseteq> holds s x" "pages 3 (words s) (pgd_of y) \<subseteq> holds s y"
    using pages_Suc[of 2] by (auto simp: holds_def holdings_def numeral_3_eq_3 numeral_2_eq_2 simp del: pages.simps)
  have "agree (words s) (words s') (pages (Suc 2) (words s) (pgd_of x))"
    unfolding agree_def
  proof (intro ballI allI impI)
    fix p and i :: nat assume p: "p \<in> pages (Suc 2) (words s) (pgd_of x)" and i: "i < 512"
    have "p \<notin> pages 3 (words s) (pgd_of y)" using p px d by blast
    then show "words s' (slot p i) = words s (slot p i)" using w pages_kpage[OF kx p] i by blast
  qed
  note c = tree_cong[OF this]
  have t': "tree (Suc 2) (words s') (pgd_of x)" using c tx by simp
  have b: "below 2 (words s') (pgd_of x) = below 2 (words s) (pgd_of x)"
    using insert_ident[OF tree_root[OF t'] tree_root[OF tx]] c[THEN conjunct1] unfolding pages_Suc by (rule iffD1)
  have h: "holds s' x = holds s x" using b by (simp add: holds_def)
  have cl: "closable s' f = closable s f" for f
    using fr by (simp add: closable_def ops_table_def cong: f_ops_t.case_cong)
  have "owns s' x"
    using ow t' b h kb d unfolding owns_def cl by (auto simp: numeral_3_eq_3 numeral_2_eq_2 simp del: tree.simps)
  then show ?thesis using owns_cong(1,2)[OF x, of s' s'] h by simp
qed

lemma unlinked_freed:
  "unlinked x = unlinked y \<Longrightarrow>
   unlinked (x\<lparr>t_status := THREAD_FREE, vma_list := []\<rparr>) = unlinked (y\<lparr>t_status := THREAD_FREE, vma_list := []\<rparr>)"
proof -
  assume a: "unlinked x = unlinked y"
  have "unlinked (x\<lparr>t_status := THREAD_FREE, vma_list := []\<rparr>) = (unlinked x)\<lparr>t_status := THREAD_FREE, vma_list := []\<rparr>" for x
    by (simp add: unlinked_def)
  then show ?thesis using a by simp
qed

lemma reap_loop_spec:
  assumes "heap_ok s" "rq s (pre @ rest)" "\<forall>t \<in> set rest. zombie s t \<longrightarrow> owns s (threads s t)"
    "pairwise (\<lambda>t u. holds s (threads s t) \<inter> holds s (threads s u) = {}) {t \<in> set rest. zombie s t}"
  shows "\<exists>s'. reap_loop (case rest of [] \<Rightarrow> None | t # _ \<Rightarrow> Some t) s = Some s' \<and> heap_ok s' \<and>
    rq s' (pre @ filter (\<lambda>t. \<not> zombie s t) rest) \<and>
    kblocks s' = kblocks s - (\<Union>t \<in> {t \<in> set rest. zombie s t}. holds s (threads s t)) \<and>
    (\<forall>t. unlinked (threads s' t) = unlinked (if t \<in> set rest \<and> zombie s t
        then (threads s t)\<lparr>t_status := THREAD_FREE, vma_list := []\<rparr> else threads s t)) \<and>
    curr_thread s' = curr_thread s \<and> files s' = files s"
  using assms
proof (induction rest arbitrary: pre s)
  case Nil
  then show ?case by (auto simp: reap_loop.simps)
next
  case (Cons t rest)
  have d: "dll (tnext s) (tprev s) None (RQ_head s) (pre @ t # rest)" and dist: "distinct (pre @ t # rest)"
    using Cons.prems(2) by (auto simp: rq_def)
  have nx: "th_next (threads s t) = (case rest of [] \<Rightarrow> None | u # _ \<Rightarrow> Some u)"
    using dll_nth_fields(2)[OF d] by (cases rest) (auto simp: tnext_def)
  show ?case
  proof (cases "zombie s t")
    case False
    have "filter (\<lambda>t. \<not> zombie s t) (t # rest) = t # filter (\<lambda>t. \<not> zombie s t) rest" using False by simp
    moreover have "{u \<in> set (t # rest). zombie s u} = {u \<in> set rest. zombie s u}" using False by auto
    moreover have "(u \<in> set (t # rest) \<and> zombie s u) = (u \<in> set rest \<and> zombie s u)" for u using False by auto
    moreover have "reap_loop (Some t) s = reap_loop (case rest of [] \<Rightarrow> None | u # _ \<Rightarrow> Some u) s"
      using False nx by (subst reap_loop.simps) (simp add: Let_def)
    ultimately show ?thesis using Cons.IH[of s "pre @ [t]"] Cons.prems by simp
  next
    case True
    have ow: "owns s (threads s t)" using Cons.prems(3) True by simp
    obtain s1 where s1: "reap t s = Some s1" "heap_ok s1" "rq s1 (pre @ rest)" "kblocks s1 = kblocks s - holds s (threads s t)"
      "unlinked (threads s1 t) = unlinked ((threads s t)\<lparr>t_status := THREAD_FREE, vma_list := []\<rparr>)"
      "\<forall>i. i \<noteq> t \<longrightarrow> unlinked (threads s1 i) = unlinked (threads s i)"
      "\<forall>p. kpage p \<longrightarrow> p \<notin> pages 3 (words s) (pgd_of (threads s t)) \<longrightarrow> (\<forall>i < 512. words s1 (slot p i) = words s (slot p i))"
      "curr_thread s1 = curr_thread s" "files s1 = files s" "reg_dev s1 = reg_dev s"
      by (rule reap_spec[OF Cons.prems(1,2) ow])
    have nt: "t \<notin> set rest" using dist by simp
    have z: "zombie s1 u = zombie s u" if "u \<noteq> t" for u
      using arg_cong[of _ _ t_status, OF s1(6)[rule_format, OF that]] by (simp add: zombie_def unlinked_def)
    have o: "owns s1 (threads s1 u) \<and> holds s1 (threads s1 u) = holds s (threads s u)" if "u \<in> set rest" "zombie s u" for u
    proof (rule owns_after[OF _ ow _ s1(7,4,9,10)])
      show "owns s (threads s u)" using Cons.prems(3) that by simp
      show "holds s (threads s u) \<inter> holds s (threads s t) = {}"
        using Cons.prems(4) that True nt by (auto simp: pairwise_def)
      show "unlinked (threads s1 u) = unlinked (threads s u)" using s1(6) that nt by auto
    qed
    have zr: "zombie s1 u = zombie s u" if "u \<in> set rest" for u using z[of u] nt that by blast
    have zs: "{u \<in> set rest. zombie s1 u} = {u \<in> set rest. zombie s u}" using zr by auto
    have "\<forall>u \<in> set rest. zombie s1 u \<longrightarrow> owns s1 (threads s1 u)" using o zr by auto
    moreover have "pairwise (\<lambda>u v. holds s1 (threads s1 u) \<inter> holds s1 (threads s1 v) = {}) {u \<in> set rest. zombie s1 u}"
      using Cons.prems(4) o unfolding zs by (auto simp: pairwise_def)
    ultimately obtain s' where s': "reap_loop (case rest of [] \<Rightarrow> None | u # _ \<Rightarrow> Some u) s1 = Some s'" "heap_ok s'"
      "rq s' (pre @ filter (\<lambda>u. \<not> zombie s1 u) rest)"
      "kblocks s' = kblocks s1 - (\<Union>u \<in> {u \<in> set rest. zombie s1 u}. holds s1 (threads s1 u))"
      "\<forall>u. unlinked (threads s' u) = unlinked (if u \<in> set rest \<and> zombie s1 u
        then (threads s1 u)\<lparr>t_status := THREAD_FREE, vma_list := []\<rparr> else threads s1 u)"
      "curr_thread s' = curr_thread s1" "files s' = files s1"
      using Cons.IH[OF s1(2,3)] by blast
    have "reap_loop (Some t) s = Some s'"
      using True nx s1(1) s'(1) by (subst reap_loop.simps) (simp add: Let_def)
    moreover have "rq s' (pre @ filter (\<lambda>u. \<not> zombie s u) (t # rest))"
    proof -
      have "filter (\<lambda>u. \<not> zombie s1 u) rest = filter (\<lambda>u. \<not> zombie s u) rest" using zr by (auto intro: filter_cong)
      then show ?thesis using s'(3) True by simp
    qed
    moreover have "kblocks s' = kblocks s - (\<Union>u \<in> {u \<in> set (t # rest). zombie s u}. holds s (threads s u))"
      using s'(4) s1(4) o True unfolding zs by auto
    moreover have "unlinked (threads s' u) = unlinked (if u \<in> set (t # rest) \<and> zombie s u
        then (threads s u)\<lparr>t_status := THREAD_FREE, vma_list := []\<rparr> else threads s u)" for u
    proof (cases "u = t")
      case u: True
      then show ?thesis using s'(5)[rule_format, of u] s1(5) True nt by simp
    next
      case False
      have "unlinked (threads s1 u) = unlinked (threads s u)" using s1(6) False by simp
      then have "unlinked ((threads s1 u)\<lparr>t_status := THREAD_FREE, vma_list := []\<rparr>) = unlinked ((threads s u)\<lparr>t_status := THREAD_FREE, vma_list := []\<rparr>)"
        by (rule unlinked_freed)
      then show ?thesis using s'(5)[rule_format, of u] s1(6) z[OF False] False by simp
    qed
    ultimately show ?thesis using s'(2,6,7) s1(8,9) by simp
  qed
qed

text \<open>\<open>kill_zombies\<close> on the whole queue.\<close>

definition zombies :: "kern \<Rightarrow> nat list \<Rightarrow> nat set" where
  "zombies s xs = {t \<in> set xs. zombie s t}"

definition reapable :: "kern \<Rightarrow> nat list \<Rightarrow> bool" where
  "reapable s xs \<longleftrightarrow> heap_ok s \<and> rq s xs \<and> (\<forall>t \<in> zombies s xs. owns s (threads s t)) \<and>
     pairwise (\<lambda>t u. holds s (threads s t) \<inter> holds s (threads s u) = {}) (zombies s xs)"

lemma kill_zombies_spec:
  assumes "reapable s xs"
  obtains s' where "kill_zombies s = Some s'" "heap_ok s'" "rq s' (filter (\<lambda>t. \<not> zombie s t) xs)"
    "kblocks s' = kblocks s - (\<Union>t \<in> zombies s xs. holds s (threads s t))"
    "\<forall>t. unlinked (threads s' t) = unlinked (if t \<in> zombies s xs
        then (threads s t)\<lparr>t_status := THREAD_FREE, vma_list := []\<rparr> else threads s t)"
    "curr_thread s' = curr_thread s" "files s' = files s"
proof -
  let ?s0 = "disable_interrupt s"
  have z: "zombie ?s0 = zombie s" by (simp add: zombie_def fun_eq_iff)
  have c: "owns ?s0 x = owns s x" "holds ?s0 x = holds s x" for x
    using quietD[of ?s0 s] by (simp_all add: owns_def holds_def closable_def ops_table_def del: tree.simps cong: f_ops_t.case_cong)
  have th: "threads ?s0 = threads s" by simp
  have q: "rq ?s0 xs" "heap_ok ?s0" using assms by (simp_all add: reapable_def)
  have h: "RQ_head ?s0 = (case xs of [] \<Rightarrow> None | t # _ \<Rightarrow> Some t)" using q(1) by (cases xs) (auto simp: rq_def)
  have p: "\<forall>t \<in> set xs. zombie ?s0 t \<longrightarrow> owns ?s0 (threads ?s0 t)"
    "pairwise (\<lambda>t u. holds ?s0 (threads ?s0 t) \<inter> holds ?s0 (threads ?s0 u) = {}) {t \<in> set xs. zombie ?s0 t}"
    using assms unfolding reapable_def zombies_def z c th by auto
  have q': "rq ?s0 ([] @ xs)" using q(1) by simp
  from reap_loop_spec[OF q(2) q' p] obtain s' where s': "reap_loop (RQ_head ?s0) ?s0 = Some s'" "heap_ok s'"
    "rq s' (filter (\<lambda>t. \<not> zombie s t) xs)"
    "kblocks s' = kblocks ?s0 - (\<Union>t \<in> zombies s xs. holds s (threads s t))"
    "\<forall>t. unlinked (threads s' t) = unlinked (if t \<in> zombies s xs
        then (threads s t)\<lparr>t_status := THREAD_FREE, vma_list := []\<rparr> else threads s t)"
    "curr_thread s' = curr_thread ?s0" "files s' = files ?s0"
    unfolding z c th h zombies_def by auto
  show thesis
    by (rule that[of "enable_interrupt s'"]) (use s' quietD[of ?s0 s] quietD[of "enable_interrupt s'" s'] in \<open>simp_all add: kill_zombies_def Let_def\<close>)
qed

end
