(* ===== verification/Life.thy ===== *)
theory Life
  imports Reap
begin

text \<open>
  The life of a program's thread: \<open>thread_setup\<close> allocates its blocks and areas, \<open>kill\<close> marks it, the
  idle thread's \<open>kill_zombies\<close> gives all of it back.
\<close>

section \<open>Areas\<close>

definition area_rec :: "64 word \<times> 64 word \<times> 64 word \<times> 64 word \<times> bool \<Rightarrow> vm_area_t" where
  "area_rec = (\<lambda>(va, sz, pa, perm, al).
     \<lparr>virt_addr = va, phys_addr = pa, area_size = page_round sz, rwx = perm, is_alloced = al\<rparr>)"

definition add_area :: "nat \<Rightarrow> 64 word \<times> 64 word \<times> 64 word \<times> 64 word \<times> bool \<Rightarrow> kern \<Rightarrow> kern option" where
  "add_area t = (\<lambda>(va, sz, pa, perm, al). mmu_add_vma t va sz pa perm al)"

definition with_areas :: "(addr \<times> vm_area_t) list \<Rightarrow> thread_t \<Rightarrow> thread_t" where
  "with_areas vs x = x\<lparr>vma_list := vma_list x @ vs\<rparr>"

lemma request_56: "request_ok 56" "(56 :: 32 word) \<noteq> 0" "size2order 56 = 0"
  by (simp_all add: request_ok_def size2order_def FRAME_SIZE_def order_loop.simps)

lemma add_area_spec:
  assumes ok: "heap_ok s" and am: "ample r (Suc k) s" "r \<le> MAX_ORDER"
  obtains s' n where "add_area t p s = Some s'" "heap_ok s'" "ample r k s'" "n \<notin> kblocks s" "kblocks s' = insert n (kblocks s)"
    "threads s' = (threads s)(t := with_areas [(n, area_rec p)] (threads s t))" "quiet (s'\<lparr>threads := threads s\<rparr>) = quiet s"
proof -
  obtain va sz pa perm al where p: "p = (va, sz, pa, perm, al)" by (cases p)
  obtain s1 n where k: "knew 56 s = Some (s1, n)" "ample r k s1"
    by (rule knew_ample[OF ok request_56(2) _ am(2,1) request_56(1)]) (simp_all add: request_56(3))
  note d = knew_spec[OF ok request_56(1) k(1)]
  define s' where "s' = set_thread (\<lambda>x. x\<lparr>vma_list := vma_list x @ [(n, area_rec p)]\<rparr>) t s1"
  have m: "mem s' = mem s1" by (simp add: s'_def)
  have r: "add_area t p s = Some s'" using k(1) by (simp add: add_area_def p mmu_add_vma_def s'_def area_rec_def)
  have th: "threads s1 = threads s" using quietD(11)[OF d(5)] .
  have "quiet (s'\<lparr>threads := threads s\<rparr>) = (quiet s1)\<lparr>threads := threads s\<rparr>" by (simp add: s'_def quiet_def set_thread_def)
  also have "\<dots> = quiet s" unfolding d(5) by (simp add: quiet_def)
  finally have qu: "quiet (s'\<lparr>threads := threads s\<rparr>) = quiet s" .
  show thesis
    by (rule that[OF r _ _ d(3) _ _ qu])
      (use d(1,4) k(2) heap_cong[OF m] m th in \<open>simp_all add: ample_def s'_def with_areas_def\<close>)
qed

lemma run_area_spec:
  assumes "heap_ok s" "ample r (length ps + k) s" "r \<le> MAX_ORDER"
  shows "\<exists>s' ns. run_all (add_area t) ps s = Some s' \<and> heap_ok s' \<and> ample r k s' \<and> length ns = length ps \<and> distinct ns \<and>
    kblocks s \<inter> set ns = {} \<and> kblocks s' = kblocks s \<union> set ns \<and>
    threads s' = (threads s)(t := with_areas (zip ns (map area_rec ps)) (threads s t)) \<and>
    quiet (s'\<lparr>threads := threads s\<rparr>) = quiet s"
  using assms
proof (induction ps arbitrary: s)
  case Nil
  then show ?case by (simp add: with_areas_def)
next
  case (Cons p ps)
  have am: "ample r (Suc (length ps + k)) s" using Cons.prems(2) by simp
  obtain s1 n where s1: "add_area t p s = Some s1" "heap_ok s1" "ample r (length ps + k) s1" "n \<notin> kblocks s"
    "kblocks s1 = insert n (kblocks s)" "threads s1 = (threads s)(t := with_areas [(n, area_rec p)] (threads s t))"
    "quiet (s1\<lparr>threads := threads s\<rparr>) = quiet s" by (rule add_area_spec[OF Cons.prems(1) am Cons.prems(3)])
  from Cons.IH[OF s1(2,3) Cons.prems(3)] obtain s' ns where s': "run_all (add_area t) ps s1 = Some s'" "heap_ok s'" "ample r k s'"
    "length ns = length ps" "distinct ns" "kblocks s1 \<inter> set ns = {}" "kblocks s' = kblocks s1 \<union> set ns"
    "threads s' = (threads s1)(t := with_areas (zip ns (map area_rec ps)) (threads s1 t))"
    "quiet (s'\<lparr>threads := threads s1\<rparr>) = quiet s1" by blast
  have "quiet (s'\<lparr>threads := threads s\<rparr>) = (quiet (s'\<lparr>threads := threads s1\<rparr>))\<lparr>threads := threads s\<rparr>" by (simp add: quiet_def)
  also have "\<dots> = quiet (s1\<lparr>threads := threads s\<rparr>)" unfolding s'(9) by (simp add: quiet_def)
  also note s1(7)
  finally have "quiet (s'\<lparr>threads := threads s\<rparr>) = quiet s" .
  moreover have "run_all (add_area t) (p # ps) s = Some s'" using s1(1) s'(1) by simp
  moreover have "threads s' = (threads s)(t := with_areas (zip (n # ns) (map area_rec (p # ps))) (threads s t))"
    using s'(8) s1(6) by (simp add: with_areas_def)
  ultimately show ?case using s'(2-7) s1(4,5) by (intro exI[of _ s'] exI[of _ "n # ns"]) auto
qed

text \<open>The areas of a program.\<close>

definition program_areas :: "addr \<Rightarrow> thread_t \<Rightarrow> (64 word \<times> 64 word \<times> 64 word \<times> 64 word \<times> bool) list" where
  "program_areas wrapper x =
     [(USER_KERNEL_BASE, ucast (datasize x), VIRT_TO_PHYS (t_data x), 7, True),
      (USER_STACK_BASE - USTACK_SIZE, USTACK_SIZE, VIRT_TO_PHYS (user_sp x), 7, True),
      (PERIPHERAL_START, PERIPHERAL_END - PERIPHERAL_START, PERIPHERAL_START, 3, False),
      (USER_SIGNAL_WRAPPER_VA, 0x2000, VIRT_TO_PHYS wrapper, 5, False),
      (USER_SIGNAL_STKSTART_VA, of_nat FRAME_SIZE, VIRT_TO_PHYS (signal_sp x), 7, True)]"

lemma add_vma_thread:
  "mmu_add_vma t va sz pa perm al s = Some s' \<Longrightarrow> user_sp (threads s' t) = user_sp (threads s t) \<and> signal_sp (threads s' t) = signal_sp (threads s t)"
  by (auto simp: mmu_add_vma_def split: option.splits prod.splits dest!: knew_sched sched_ofD(1))

lemma add_vmas_areas: "add_vmas t wrapper s = run_all (add_area t) (program_areas wrapper (threads s t)) s"
proof (cases "run_all (add_area t) (take 4 (program_areas wrapper (threads s t))) s")
  case None
  then show ?thesis
    by (auto simp: add_vmas_def program_areas_def add_area_def split: option.splits dest: add_vma_thread)
next
  case (Some s4)
  then obtain s1 s2 s3 where a: "add_area t (program_areas wrapper (threads s t) ! 0) s = Some s1"
    "add_area t (program_areas wrapper (threads s t) ! 1) s1 = Some s2" "add_area t (program_areas wrapper (threads s t) ! 2) s2 = Some s3"
    "add_area t (program_areas wrapper (threads s t) ! 3) s3 = Some s4"
    by (auto simp: program_areas_def split: option.splits)
  note d = a[unfolded add_area_def program_areas_def, simplified]
  note e = d[THEN add_vma_thread]
  show ?thesis using d e by (simp add: add_vmas_def program_areas_def add_area_def split: option.split)
qed

lemma area_blocks_program:
  assumes "length ns = 5"
  shows "area_blocks (x\<lparr>vma_list := zip ns (map area_rec (program_areas wrapper y))\<rparr>) =
    [t_data y, ns ! 0, user_sp y, ns ! 1, ns ! 2, ns ! 3, signal_sp y, ns ! 4]"
proof -
  obtain a b c d e where "ns = [a, b, c, d, e]" using assms
    by (auto simp: numeral_eq_Suc length_Suc_conv)
  then show ?thesis by (simp add: area_blocks_def program_areas_def area_rec_def)
qed

section \<open>Setting up a thread\<close>

text \<open>A new thread with its areas: ten new blocks, an empty table, the physical address of it in the
  context, and what it owns are these blocks and the files its slot refers to.\<close>

lemma thread_setup_spec:
  assumes ok: "heap_ok s" and q: "rq s xs" and t: "free_slot s = Some t" "t \<notin> set xs" and n: "request_ok n" "size2order n \<le> r"
    and r: "2 \<le> r" "r \<le> MAX_ORDER" and am: "ample r (10 + k) s" and fd: "fd_blocks (threads s t) = []"
  obtains s' bs where "thread_setup wrapper start n s = Some (s', t)" "heap_ok s'" "rq s' (xs @ [t])" "ample r k s'"
    "kblocks s' = kblocks s \<union> bs" "kblocks s \<inter> bs = {}" "card bs = 10" "owns s' (threads s' t)" "holds s' (threads s' t) = bs"
    "t_status (threads s' t) = THREAD_ACTIVE" "\<forall>i. i \<noteq> t \<longrightarrow> unlinked (threads s' i) = unlinked (threads s i)"
    "curr_thread s' = curr_thread s" "files s' = files s" "reg_dev s' = reg_dev s"
proof -
  have am': "ample r (5 + (5 + k)) s" using am by (simp add: add.assoc ample_def)
  obtain s1 usp ksp ssp dat pgd where s1: "thread_create start n s = Some (s1, Some t)" "heap_ok s1" "rq s1 (xs @ [t])" "ample r (5 + k) s1"
    "unlinked (threads s1 t) = unlinked (fresh_thread start n usp ksp ssp dat pgd (threads s t))"
    "distinct [usp, ksp, ssp, dat, pgd]" "kblocks s \<inter> set [usp, ksp, ssp, dat, pgd] = {}"
    "kblocks s1 = kblocks s \<union> set [usp, ksp, ssp, dat, pgd]" "kpage pgd" "\<forall>i < 512. words s1 (slot pgd i) = 0"
    "\<forall>i. i \<noteq> t \<longrightarrow> unlinked (threads s1 i) = unlinked (threads s i)" "curr_thread s1 = curr_thread s"
    "files s1 = files s" "reg_dev s1 = reg_dev s"
    by (rule thread_create_spec[OF ok q t n r am'])
  let ?x = "threads s1 t" and ?ps = "program_areas wrapper (threads s1 t)"
  have f: "g ?x = g (fresh_thread start n usp ksp ssp dat pgd (threads s t))" if "\<And>x. g (unlinked x) = g x" for g :: "thread_t \<Rightarrow> 'b"
    using s1(5) that by metis
  have x: "vma_list ?x = []" "user_sp ?x = usp" "kernel_sp ?x = ksp" "signal_sp ?x = ssp" "t_data ?x = dat" "c_pgd (ctx ?x) = pgd"
    "fd_table ?x = fd_table (threads s t)" "t_status ?x = THREAD_ACTIVE"
    using f[of vma_list] f[of user_sp] f[of kernel_sp] f[of signal_sp] f[of t_data] f[of "\<lambda>x. c_pgd (ctx x)"] f[of fd_table] f[of t_status]
    by (simp_all add: unlinked_def fresh_thread_def)
  have len: "length ?ps = 5" by (simp add: program_areas_def)
  then have am2: "ample r (length ?ps + k) s1" using s1(4) by simp
  from run_area_spec[OF s1(2) am2 r(2), of t] obtain s2 ns where s2: "run_all (add_area t) ?ps s1 = Some s2" "heap_ok s2" "ample r k s2"
    "length ns = 5" "distinct ns" "kblocks s1 \<inter> set ns = {}" "kblocks s2 = kblocks s1 \<union> set ns"
    "threads s2 = (threads s1)(t := with_areas (zip ns (map area_rec ?ps)) ?x)" "quiet (s2\<lparr>threads := threads s1\<rparr>) = quiet s1"
    using len by auto
  let ?f = "\<lambda>x. x\<lparr>ctx := (ctx x)\<lparr>c_pgd := VIRT_TO_PHYS (c_pgd (ctx x)), c_sp := USER_STACK_BASE,
                          c_fp := USER_STACK_BASE, c_lr := USER_KERNEL_BASE\<rparr>\<rparr>"
  define s' where "s' = set_thread ?f t s2"
  have res: "thread_setup wrapper start n s = Some (s', t)" using s1(1) s2(1) by (simp add: thread_setup_def add_vmas_areas s'_def)
  note qd = quietD[OF s2(9)]
  have m: "mem s' = mem s2" by (simp add: s'_def)
  have h: "heap_ok s'" "kblocks s' = kblocks s1 \<union> set ns" "ample r k s'" using heap_cong[OF m] s2 m by (simp_all add: ample_def)
  have w: "words s' = words s1" "files s' = files s" "reg_dev s' = reg_dev s" "curr_thread s' = curr_thread s"
    using qd(15,17,24,12) s1(12-14) by (simp_all add: s'_def set_thread_def)
  have rq: "rq s' (xs @ [t])"
  proof -
    have "tnext s' = tnext s1" "tprev s' = tprev s1" "RQ_head s' = RQ_head s1" "RQ_tail s' = RQ_tail s1"
      using qd(13,14) s2(8) by (simp_all add: s'_def fun_eq_iff tnext_def tprev_def with_areas_def)
    then show ?thesis using s1(3) by (simp add: rq_def)
  qed
  have th: "threads s' t = ?f (with_areas (zip ns (map area_rec ?ps)) ?x)" using s2(8) by (simp add: s'_def)
  let ?bs = "set [usp, ksp, ssp, dat, pgd] \<union> set ns"
  have ab: "area_blocks (threads s' t) = [dat, ns ! 0, usp, ns ! 1, ns ! 2, ns ! 3, ssp, ns ! 4]"
    using area_blocks_program[OF s2(4), where x = "?x" and y = "?x" and wrapper = wrapper] x th by (simp add: area_blocks_def with_areas_def)
  have pg: "pgd_of (threads s' t) = pgd" using th x by (simp add: pgd_of_def with_areas_def)
  have fb: "fd_blocks (threads s' t) = []" using th x(7) fd by (simp add: fd_blocks_def with_areas_def)
  have hd: "holdings (threads s' t) = [dat, ns ! 0, usp, ns ! 1, ns ! 2, ns ! 3, ssp, ns ! 4, ksp, pgd]"
  proof -
    have "kernel_sp (threads s' t) = ksp" using th x by (simp add: with_areas_def)
    then show ?thesis by (simp add: holdings_def ab pg fb)
  qed
  obtain a b c d e where ns: "ns = [a, b, c, d, e]" using s2(4) by (auto simp: numeral_eq_Suc length_Suc_conv)
  have nn: "set [usp, ksp, ssp, dat, pgd] \<inter> set ns = {}" using s2(6) s1(8) by auto
  have dist: "distinct (holdings (threads s' t))" using s1(6) s2(5) nn unfolding hd ns by auto
  have hs: "set (holdings (threads s' t)) = ?bs" unfolding hd ns by auto
  have z: "\<forall>i < 512. words s' (slot pgd i) = 0" using s1(10) w(1) by simp
  have bl: "below 2 (words s') pgd = {}" using z by (auto simp: below_def)
  have holds: "holds s' (threads s' t) = ?bs" using hs bl pg by (simp add: holds_def)
  have kb: "kblocks s' = kblocks s \<union> ?bs" "kblocks s \<inter> ?bs = {}" using h(2) s1(7,8) s2(6) by auto
  have "card ?bs = length (holdings (threads s' t))" using distinct_card[OF dist] hs by simp
  then have "card ?bs = 10" by (simp add: hd)
  moreover have "owns s' (threads s' t)"
    using s1(9) tree_empty(1)[OF z] dist hs holds bl kb fb by (auto simp add: owns_def pg simp del: tree.simps)
  moreover have "t_status (threads s' t) = THREAD_ACTIVE" using th x(8) by (simp add: with_areas_def)
  moreover have "\<forall>i. i \<noteq> t \<longrightarrow> unlinked (threads s' i) = unlinked (threads s i)" using s1(11) s2(8) by (simp add: s'_def)
  ultimately show thesis using that[OF res h(1) rq h(3) kb] holds w by blast
qed

section \<open>Killing and reaping\<close>

lemma owns_off_queue:
  assumes "off_queue s' = off_queue (s\<lparr>curr_thread := c\<rparr>)"
  shows "owns s' (threads s' t) = owns s (threads s t)" "holds s' (threads s' t) = holds s (threads s t)"
    "kblocks s' = kblocks s" "heap_ok s' = heap_ok s"
proof -
  note e = arg_cong[OF assms]
  have m: "mem s' = mem s" using e[of mem] by (simp add: off_queue_def)
  show "kblocks s' = kblocks s" "heap_ok s' = heap_ok s" using heap_cong[OF m] by simp_all
  have "unlinked (threads s' t) = unlinked (threads s t)" "words s' = words s" "files s' = files s" "reg_dev s' = reg_dev s"
    using e[of "\<lambda>s. threads s t"] e[of words] e[of files] e[of reg_dev] by (simp_all add: off_queue_def)
  then show "owns s' (threads s' t) = owns s (threads s t)" "holds s' (threads s' t) = holds s (threads s t)"
    using owns_cong[of "threads s' t" "threads s t" s' s] heap_cong[OF m] by simp_all
qed

lemma off_queue_curr: "off_queue (s\<lparr>curr_thread := c\<rparr>) = (off_queue s)\<lparr>curr_thread := c\<rparr>"
  by (simp add: off_queue_def)

text \<open>\<open>kill\<close> on a queued thread: it stays in the queue as a zombie, the next live thread runs.\<close>

lemma kill_spec:
  assumes q: "rq s (u # us @ [t])" and c: "curr_thread s \<notin> set (u # us @ [t])" and z: "\<not> zombie s u" "\<not> zombie s (curr_thread s)"
    and t: "t < MAX_THREAD_COUNT" "t_status (threads s t) \<noteq> THREAD_FREE"
  obtains s' where "kill (int t) s = Some s'" "curr_thread s' = u" "rq s' (us @ [t, curr_thread s])"
    "off_queue s' = off_queue (s\<lparr>mem := mem s, con := con s', curr_thread := u,
       threads := (threads s)(t := (threads s t)\<lparr>t_status := THREAD_ZOMBIE\<rparr>)\<rparr>)"
proof -
  let ?s0 = "disable_interrupt s"
  let ?f = "\<lambda>x. x\<lparr>t_status := THREAD_ZOMBIE\<rparr>"
  define s1 where "s1 = (if SAFE_DEMO ?s0 then ?s0 else klog crnl (klog_hex (of_int (int t)) (klog ''Kill thread pid '' ?s0)))"
  define s2 where "s2 = enable_interrupt (set_thread ?f t s1)"
  have q1: "quiet s1 = quiet s" "mem s1 = mem s" by (simp_all add: s1_def)
  note d = quietD[OF q1(1)]
  have d2: "threads s2 = (threads s)(t := ?f (threads s t))" "curr_thread s2 = curr_thread s" "mem s2 = mem s"
    using d q1(2) quietD(11,12)[of s2 "set_thread ?f t s1"] by (simp_all add: s2_def)
  have "rq s1 (u # us @ [t])" using q d by (simp add: rq_def tnext_def[abs_def] tprev_def[abs_def])
  then have q2: "rq s2 ([] @ u # us @ [t])" by (simp add: s2_def)
  have tu: "t \<noteq> u" "t \<noteq> curr_thread s" using q c by (auto simp: rq_def)
  have "\<not> zombie s2 u" "\<not> zombie s2 (curr_thread s2)" using z tu d2 by (simp_all add: zombie_def)
  then obtain s' where s': "schedule s2 = Some s'" "curr_thread s' = u" "rq s' (us @ [t, curr_thread s])"
    "off_queue s' = off_queue (s2\<lparr>curr_thread := u\<rparr>)"
    using schedule_live[OF q2] c d2(2) by auto
  have "kill (int t) s = Some s'"
    using t s'(1) quietD(11)[of ?s0 s] by (simp add: kill_def Let_def s1_def s2_def)
  moreover have "off_queue s' = off_queue (s\<lparr>mem := mem s, con := con s', curr_thread := u,
       threads := (threads s)(t := ?f (threads s t))\<rparr>)"
  proof -
    have cn: "con s' = con s1" using arg_cong[OF s'(4), of con] by (simp add: off_queue_def s2_def set_thread_def)
    have "off_queue s' = off_queue ((set_thread ?f t s1)\<lparr>curr_thread := u\<rparr>)"
      unfolding s'(4) s2_def by (subst off_queue_curr) (simp add: off_queue_curr)
    also have "\<dots> = off_queue ((quiet s1)\<lparr>mem := mem s1, con := con s1, curr_thread := u, threads := (threads s1)(t := ?f (threads s1 t))\<rparr>)"
      by (simp add: off_queue_def quiet_def set_thread_def)
    also have "\<dots> = off_queue (s\<lparr>mem := mem s, con := con s', curr_thread := u, threads := (threads s)(t := ?f (threads s t))\<rparr>)"
      unfolding q1 cn d(11) by (simp add: off_queue_def quiet_def)
    finally show ?thesis .
  qed
  ultimately show thesis using that s'(2,3) by blast
qed

text \<open>From the killed thread to the clean-up.\<close>

lemma kill_reapable:
  assumes h: "heap_ok s" and q: "rq s (u # us @ [t])" and c: "curr_thread s \<notin> set (u # us @ [t])"
    and z: "\<forall>i \<in> set (u # us @ [curr_thread s]). \<not> zombie s i"
    and t: "t < MAX_THREAD_COUNT" "t_status (threads s t) \<noteq> THREAD_FREE" and ow: "owns s (threads s t)"
  obtains s1 where "kill (int t) s = Some s1" "reapable s1 (us @ [t, curr_thread s])" "zombies s1 (us @ [t, curr_thread s]) = {t}"
    "curr_thread s1 = u" "holds s1 (threads s1 t) = holds s (threads s t)" "kblocks s1 = kblocks s"
    "filter (\<lambda>t. \<not> zombie s1 t) (us @ [t, curr_thread s]) = us @ [curr_thread s]"
    "\<forall>i. i \<noteq> t \<longrightarrow> unlinked (threads s1 i) = unlinked (threads s i)" "fd_table (threads s1 t) = fd_table (threads s t)" "mem s1 = mem s"
proof -
  obtain s1 where s1: "kill (int t) s = Some s1" "curr_thread s1 = u" "rq s1 (us @ [t, curr_thread s])"
    "off_queue s1 = off_queue (s\<lparr>mem := mem s, con := con s1, curr_thread := u,
       threads := (threads s)(t := (threads s t)\<lparr>t_status := THREAD_ZOMBIE\<rparr>)\<rparr>)"
    using kill_spec[OF q c _ _ t] z by auto
  note e = arg_cong[OF s1(4)]
  have m: "mem s1 = mem s" using e[of mem] by (simp add: off_queue_def)
  have th: "unlinked (threads s1 i) = unlinked (if i = t then (threads s t)\<lparr>t_status := THREAD_ZOMBIE\<rparr> else threads s i)" for i
    using e[of "\<lambda>s. threads s i"] by (simp add: off_queue_def)
  have fr: "words s1 = words s" "files s1 = files s" "reg_dev s1 = reg_dev s"
    using e[of words] e[of files] e[of reg_dev] by (simp_all add: off_queue_def)
  have zo: "zombie s1 i \<longleftrightarrow> i = t \<or> zombie s i" for i
    using arg_cong[OF th[of i], of t_status] by (simp add: zombie_def unlinked_status)
  have zs: "zombies s1 (us @ [t, curr_thread s]) = {t}" using z by (auto simp: zombies_def zo)
  have xt: "fd_table (threads s1 t) = fd_table (threads s t)" "holdings (threads s1 t) = holdings (threads s t)" "fd_blocks (threads s1 t) = fd_blocks (threads s t)" "pgd_of (threads s1 t) = pgd_of (threads s t)"
  proof -
    have u: "unlinked (threads s1 t) = unlinked ((threads s t)\<lparr>t_status := THREAD_ZOMBIE\<rparr>)" using th[of t] by simp
    have f: "g (threads s1 t) = g (threads s t)" if "\<And>x. g (unlinked x) = g x" "\<And>x v. g (x\<lparr>t_status := v\<rparr>) = g x" for g :: "thread_t \<Rightarrow> 'b"
      using u that by metis
    have "ctx (threads s1 t) = ctx (threads s t)" "vma_list (threads s1 t) = vma_list (threads s t)"
      "fd_table (threads s1 t) = fd_table (threads s t)" "kernel_sp (threads s1 t) = kernel_sp (threads s t)"
      by (rule f; simp add: unlinked_def)+
    then show "fd_table (threads s1 t) = fd_table (threads s t)" "holdings (threads s1 t) = holdings (threads s t)" "fd_blocks (threads s1 t) = fd_blocks (threads s t)"
      "pgd_of (threads s1 t) = pgd_of (threads s t)"
      by (simp_all add: holdings_def area_blocks_def fd_blocks_def pgd_of_def)
  qed
  have cl: "closable s1 f = closable s f" for f
    using fr by (simp add: closable_def ops_table_def cong: f_ops_t.case_cong)
  have hh: "holds s1 (threads s1 t) = holds s (threads s t)" "kblocks s1 = kblocks s" "heap_ok s1 = heap_ok s"
    using xt fr heap_cong[OF m] by (simp_all add: holds_def)
  then have "owns s1 (threads s1 t)" using ow xt fr cl by (simp add: owns_def del: tree.simps)
  then have "reapable s1 (us @ [t, curr_thread s])" using zs s1(3) hh h by (simp add: reapable_def)
  moreover have fl: "filter (\<lambda>t. \<not> zombie s1 t) (us @ [t, curr_thread s]) = us @ [curr_thread s]"
    using z c q by (auto simp: zo filter_id_conv rq_def)
  ultimately show thesis using that[OF s1(1) _ zs s1(2)] hh th xt m by simp
qed

lemma kill_reaps:
  assumes h: "heap_ok s" and q: "rq s (u # us @ [t])" and c: "curr_thread s \<notin> set (u # us @ [t])"
    and z: "\<forall>i \<in> set (u # us @ [curr_thread s]). \<not> zombie s i"
    and t: "t < MAX_THREAD_COUNT" "t_status (threads s t) \<noteq> THREAD_FREE" and ow: "owns s (threads s t)"
  obtains s1 s2 where "kill (int t) s = Some s1" "kill_zombies s1 = Some s2" "heap_ok s2" "rq s2 (us @ [curr_thread s])"
    "curr_thread s2 = u" "kblocks s2 = kblocks s - holds s (threads s t)" "t_status (threads s2 t) = THREAD_FREE"
    "\<forall>i. i \<noteq> t \<longrightarrow> unlinked (threads s2 i) = unlinked (threads s i)"
proof -
  let ?xs = "us @ [t, curr_thread s]"
  obtain s1 where s1: "kill (int t) s = Some s1" "reapable s1 ?xs" "zombies s1 ?xs = {t}" "curr_thread s1 = u"
    "holds s1 (threads s1 t) = holds s (threads s t)" "kblocks s1 = kblocks s" "filter (\<lambda>t. \<not> zombie s1 t) ?xs = us @ [curr_thread s]"
    "\<forall>i. i \<noteq> t \<longrightarrow> unlinked (threads s1 i) = unlinked (threads s i)" by (rule kill_reapable[OF assms])
  obtain s2 where s2: "kill_zombies s1 = Some s2" "heap_ok s2" "rq s2 (filter (\<lambda>t. \<not> zombie s1 t) ?xs)"
    "kblocks s2 = kblocks s1 - (\<Union>i \<in> zombies s1 ?xs. holds s1 (threads s1 i))"
    "\<forall>i. unlinked (threads s2 i) = unlinked (if i \<in> zombies s1 ?xs
        then (threads s1 i)\<lparr>t_status := THREAD_FREE, vma_list := []\<rparr> else threads s1 i)" "curr_thread s2 = curr_thread s1"
    by (rule kill_zombies_spec[OF s1(2)])
  have "t_status (threads s2 t) = THREAD_FREE"
    using arg_cong[OF s2(5)[rule_format, of t], of t_status] s1(3) by (simp add: unlinked_status)
  moreover have "\<forall>i. i \<noteq> t \<longrightarrow> unlinked (threads s2 i) = unlinked (threads s i)" using s2(5) s1(3,8) by simp
  ultimately show thesis using that[OF s1(1) s2(1,2)] s2(3,4,6) s1 by simp
qed

end
