(* ===== verification/Thread_Props.thy ===== *)
theory Thread_Props
  imports Life Mmu_Props
begin

text \<open>
  The properties of threads, signals and system calls, with witnesses on concrete kernels.
\<close>

section \<open>A kernel with room\<close>

lemma boot_ample: "ample 4 100 boot_kern"
proof -
  have "{1..100} \<subseteq> runs 4 (free_frames (mem boot_kern))"
    by (auto simp: runs_def boot_kern_def booted_inv frames_def TOTAL_FRAME_def)
  moreover have "finite (runs 4 (free_frames (mem boot_kern)))"
    by (rule runs_finite) (simp add: boot_kern_def booted_inv)
  ultimately have "card {1 .. 100 :: nat} \<le> card (runs 4 (free_frames (mem boot_kern)))" by (metis card_mono)
  then show ?thesis by (simp add: ample_def)
qed

text \<open>Thread 0 runs, 1 and 2 wait, the other slots are free.\<close>

definition life_kern :: kern where
  "life_kern = boot_kern\<lparr>threads := (\<lambda>i. if i < 3 then three False i else blank_thread), RQ_head := Some 1, RQ_tail := Some 2\<rparr>"

lemma find_upt: "i < n \<Longrightarrow> P i \<Longrightarrow> \<forall>j < i. \<not> P j \<Longrightarrow> List.find P [0..<n] = Some i"
  by (auto simp: find_Some_iff intro!: exI[of _ i])

lemma life_kern:
  "heap_ok life_kern" "ample 4 100 life_kern" "rq life_kern [1, 2]" "curr_thread life_kern = 0" "free_slot life_kern = Some 3"
  "fd_blocks (threads life_kern 3) = []" "\<not> zombie life_kern i"
proof -
  have m: "mem life_kern = mem boot_kern" by (simp add: life_kern_def)
  show "heap_ok life_kern" "ample 4 100 life_kern" using heap_cong(1)[OF m] boot_kern_ok(1) boot_ample m by (simp_all add: ample_def)
  show "rq life_kern [1, 2]"
    by (auto simp: rq_def life_kern_def tnext_def tprev_def three_def blank_thread_def)
  show "curr_thread life_kern = 0" by (simp add: life_kern_def boot_kern_def)
  show "free_slot life_kern = Some 3" unfolding free_slot_def
    by (rule find_upt) (auto simp: life_kern_def three_def blank_thread_def MAX_THREAD_COUNT_def THREAD_FREE_def THREAD_ACTIVE_def)
  show "fd_blocks (threads life_kern 3) = []" by (simp add: fd_blocks_def life_kern_def blank_thread_def map_filter_def)
  show "\<not> zombie life_kern i" by (simp add: zombie_def life_kern_def three_def blank_thread_def THREAD_ACTIVE_def THREAD_ZOMBIE_def THREAD_FREE_def)
qed

section \<open>Descriptors of a new thread\<close>

lemma thread_create_fds: "thread_create start n s = Some (s', Some t) \<Longrightarrow> fd_table (threads s' t) = fd_table (threads s t)"
proof -
  assume h: "thread_create start n s = Some (s', Some t)"
  have free: "free_slot (disable_interrupt s) = Some t"
    using h by (auto simp: thread_create_def Let_def split: option.splits prod.splits)
  then obtain s5 usp ksp ssp dat pgd where s': "sched_of s5 = sched_of s"
    "s' = enable_interrupt (push_rq t (set_thread (fresh_thread start n usp ksp ssp dat pgd) t (clear_page pgd s5)))"
    using h by (auto simp: thread_create_def Let_def split: option.splits prod.splits dest!: kalloc_sched knew_sched)
  let ?s6 = "set_thread (fresh_thread start n usp ksp ssp dat pgd) t (clear_page pgd s5)"
  have "unlinked (threads s' t) = unlinked (threads ?s6 t)"
    using same_threadsD(4)[OF push_rq_fields(5)[of ?s6 t], of t] sched_ofD(1)[OF sched_upd(1), of "push_rq t ?s6"] s'(2) by simp
  from arg_cong[OF this, of fd_table] show ?thesis
    using sched_ofD(1)[OF s'(1)] by (simp add: unlinked_def fresh_thread_def clear_page_def)
qed

lemma fd_in_blocks: "fd_table x i = Some f \<Longrightarrow> i < MAX_FD \<Longrightarrow> f \<in> set (fd_blocks x)"
  by (auto simp: fd_blocks_def map_filter_def image_iff)

lemma add_vma_fds: "mmu_add_vma t va sz pa perm al s = Some s' \<Longrightarrow> fd_table (threads s' i) = fd_table (threads s i)"
  by (auto simp: mmu_add_vma_def split: option.splits prod.splits dest!: knew_sched sched_ofD(1))

lemma thread_setup_fds: "thread_setup wrapper start n s = Some (s', t) \<Longrightarrow> fd_table (threads s' t) = fd_table (threads s t)"
  by (auto simp: thread_setup_def add_vmas_def split: option.splits prod.splits dest!: thread_create_fds add_vma_fds[where i = t])

section \<open>Threads\<close>

text \<open>C10: the life of a thread leaks nothing.  Let the running thread and all queued threads be alive,
  another thread \<open>u\<close> be first in the queue and the running thread not be in it (as at any time after
  the first tick; not in the first \<open>thread_exec\<close> of the boot), let the next free slot be one without
  open files, the program be of 1 to \<open>2 ^ 32 - 4096\<close> bytes, and the heap have ten free aligned runs of
  an order that fits it and is at least 2.  Then \<open>thread_setup\<close> (the part of
  \<open>thread_exec\<close> that makes the thread and its areas) takes that slot, allocates exactly ten new
  blocks and puts the thread at the end of the queue; \<open>kill\<close> of its pid, which switches to \<open>u\<close>, and
  the clean-up of the idle thread return, release exactly these ten blocks, free the slot, and leave
  every other thread as it was.\<close>

theorem thread_lifecycle:
  assumes "heap_ok s" "rq s (u # us)" "curr_thread s \<notin> set (u # us)" "\<forall>i \<in> set (u # us @ [curr_thread s]). \<not> zombie s i"
    and "free_slot s = Some t" "t \<notin> set (u # us)" "t \<noteq> curr_thread s" "t < MAX_THREAD_COUNT" "fd_blocks (threads s t) = []"
    and "request_ok n" "size2order n \<le> r" "2 \<le> r" "r \<le> MAX_ORDER" "ample r 10 s"
  shows "\<exists>s1 s2 s3. thread_setup wrapper start n s = Some (s1, t) \<and> kill (int t) s1 = Some s2 \<and> kill_zombies s2 = Some s3 \<and>
    card (kblocks s1 - kblocks s) = 10 \<and> rq s1 (u # us @ [t]) \<and> kblocks s3 = kblocks s \<and> heap_ok s3 \<and>
    rq s3 (us @ [curr_thread s]) \<and> curr_thread s3 = u \<and> t_status (threads s3 t) = THREAD_FREE \<and>
    (\<forall>i. i \<noteq> t \<longrightarrow> unlinked (threads s3 i) = unlinked (threads s i))"
proof -
  have am: "ample r (10 + 0) s" using assms(14) by simp
  obtain s1 bs where s1: "thread_setup wrapper start n s = Some (s1, t)" "heap_ok s1" "rq s1 ((u # us) @ [t])"
    "kblocks s1 = kblocks s \<union> bs" "kblocks s \<inter> bs = {}" "card bs = 10" "owns s1 (threads s1 t)" "holds s1 (threads s1 t) = bs"
    "t_status (threads s1 t) = THREAD_ACTIVE" "\<forall>i. i \<noteq> t \<longrightarrow> unlinked (threads s1 i) = unlinked (threads s i)" "curr_thread s1 = curr_thread s"
    by (rule thread_setup_spec[OF assms(1,2,5,6,10-13) am assms(9)]) blast
  have z: "zombie s1 i = zombie s i" if "i \<noteq> t" for i
    using arg_cong[OF s1(10)[rule_format, OF that], of t_status] by (simp add: zombie_def unlinked_status)
  have "\<forall>i \<in> set (u # us @ [curr_thread s1]). \<not> zombie s1 i"
  proof
    fix i assume i: "i \<in> set (u # us @ [curr_thread s1])"
    then have "i \<noteq> t" using assms(6,7) s1(11) by auto
    moreover have "\<not> zombie s i" using assms(4) i s1(11) by auto
    ultimately show "\<not> zombie s1 i" using z by simp
  qed
  moreover have "rq s1 (u # us @ [t])" "curr_thread s1 \<notin> set (u # us @ [t])" "t_status (threads s1 t) \<noteq> THREAD_FREE"
    using s1(3,9,11) assms(3,7) by (auto simp: THREAD_ACTIVE_def THREAD_FREE_def)
  ultimately obtain s2 s3 where "kill (int t) s1 = Some s2" "kill_zombies s2 = Some s3" "heap_ok s3" "rq s3 (us @ [curr_thread s1])"
    "curr_thread s3 = u" "kblocks s3 = kblocks s1 - holds s1 (threads s1 t)" "t_status (threads s3 t) = THREAD_FREE"
    "\<forall>i. i \<noteq> t \<longrightarrow> unlinked (threads s3 i) = unlinked (threads s1 i)"
    using kill_reaps[OF s1(2) _ _ _ assms(8) _ s1(7)] by metis
  moreover have "kblocks s1 - bs = kblocks s" "kblocks s1 - kblocks s = bs" using s1(4,5) by auto
  ultimately show ?thesis using s1(1,3,6,8,10,11) by (intro exI[of _ s1] exI[of _ s2] exI[of _ s3]) simp
qed

theorem thread_lifecycle_witness:
  "\<exists>s1 s2 s3. thread_setup 0 0 4096 life_kern = Some (s1, 3) \<and> kill (int 3) s1 = Some s2 \<and> kill_zombies s2 = Some s3 \<and>
     card (kblocks s1 - kblocks life_kern) = 10 \<and> kblocks s3 = kblocks life_kern"
proof -
  have a: "ample 4 10 life_kern" by (rule ample_mono[OF life_kern(2)]) simp
  have "rq life_kern (1 # [2])" using life_kern(3) by simp
  from thread_lifecycle[OF life_kern(1) this _ _ life_kern(5) _ _ _ life_kern(6) stack_requests(4) _ _ _ a, of 0 0]
  show ?thesis using life_kern(4,7) stack_orders(4) by (simp add: MAX_ORDER_def MAX_THREAD_COUNT_def) blast
qed

text \<open>C9: \<open>kill_zombies\<close> on any queue whose zombies own their blocks (page tables a tree, areas, open
  files, kernel stack, nothing shared between two of them): it returns, the queue keeps the live
  threads in their order, exactly the blocks of the zombies are released, their slots are free,
  and every other thread is as before.\<close>

theorem kill_zombies_reaps:
  assumes "reapable s xs"
  shows "\<exists>s'. kill_zombies s = Some s' \<and> heap_ok s' \<and> rq s' (filter (\<lambda>t. \<not> zombie s t) xs) \<and>
    kblocks s' = kblocks s - (\<Union>t \<in> zombies s xs. holds s (threads s t)) \<and>
    (\<forall>t \<in> zombies s xs. t_status (threads s' t) = THREAD_FREE \<and> vma_list (threads s' t) = []) \<and>
    (\<forall>t. t \<notin> zombies s xs \<longrightarrow> unlinked (threads s' t) = unlinked (threads s t))"
proof -
  obtain s' where s': "kill_zombies s = Some s'" "heap_ok s'" "rq s' (filter (\<lambda>t. \<not> zombie s t) xs)"
    "kblocks s' = kblocks s - (\<Union>t \<in> zombies s xs. holds s (threads s t))"
    "\<forall>t. unlinked (threads s' t) = unlinked (if t \<in> zombies s xs
        then (threads s t)\<lparr>t_status := THREAD_FREE, vma_list := []\<rparr> else threads s t)" by (rule kill_zombies_spec[OF assms])
  have "t_status (threads s' t) = THREAD_FREE \<and> vma_list (threads s' t) = []" if "t \<in> zombies s xs" for t
  proof -
    have u: "unlinked (threads s' t) = unlinked ((threads s t)\<lparr>t_status := THREAD_FREE, vma_list := []\<rparr>)" using s'(5) that by simp
    show ?thesis using arg_cong[OF u, of t_status] arg_cong[OF u, of vma_list] by (simp add: unlinked_def)
  qed
  then show ?thesis using s' by (intro exI[of _ s']) simp
qed

text \<open>Thread 3 of \<open>life_kern\<close>, set up and killed.\<close>

lemma killed_kern:
  obtains s where "reapable s [2, 3, 0]" "zombies s [2, 3, 0] = {3}" "card (holds s (threads s 3)) = 10"
    "ample 4 80 s" "fd_table (threads s 3) = (\<lambda>_. None)"
proof -
  have a: "ample 4 (10 + 80) life_kern" by (rule ample_mono[OF life_kern(2)]) simp
  obtain s1 bs where s1: "thread_setup 0 0 4096 life_kern = Some (s1, 3)" "heap_ok s1" "rq s1 ([1, 2] @ [3])"
    "kblocks s1 = kblocks life_kern \<union> bs" "card bs = 10" "owns s1 (threads s1 3)" "holds s1 (threads s1 3) = bs"
    "t_status (threads s1 3) = THREAD_ACTIVE" "\<forall>i. i \<noteq> 3 \<longrightarrow> unlinked (threads s1 i) = unlinked (threads life_kern i)"
    "curr_thread s1 = curr_thread life_kern" "ample 4 80 s1"
    by (rule thread_setup_spec[OF life_kern(1,3,5) _ stack_requests(4) _ _ _ a life_kern(6), of 0 0])
      (auto simp: stack_orders MAX_ORDER_def)
  have z: "zombie s1 i = zombie life_kern i" if "i \<noteq> 3" for i
    using arg_cong[OF s1(9)[rule_format, OF that], of t_status] by (simp add: zombie_def unlinked_status)
  have q: "rq s1 (1 # [2] @ [3])" and c: "curr_thread s1 = 0" using s1(3,10) life_kern(4) by simp_all
  have zz: "\<forall>i \<in> set (1 # [2] @ [curr_thread s1]). \<not> zombie s1 i" using z c life_kern(7) by simp
  obtain s where s: "reapable s ([2] @ [3, curr_thread s1])" "zombies s ([2] @ [3, curr_thread s1]) = {3}"
    "holds s (threads s 3) = holds s1 (threads s1 3)" "fd_table (threads s 3) = fd_table (threads s1 3)" "mem s = mem s1"
    by (rule kill_reapable[OF s1(2) q _ zz _ _ s1(6)])
      (use c s1(8) in \<open>simp_all add: MAX_THREAD_COUNT_def THREAD_ACTIVE_def THREAD_FREE_def\<close>)
  have "fd_table (threads s1 3) = fd_table (threads life_kern 3)" by (rule thread_setup_fds[OF s1(1)])
  then have "fd_table (threads s1 3) = (\<lambda>_. None)" by (simp add: life_kern_def blank_thread_def)
  then show thesis by (intro that[of s]) (use s c s1(5,7,11) in \<open>simp_all add: ample_def\<close>)
qed

theorem kill_zombies_reaps_witness:
  "\<exists>s s'. zombies s [2, 3, 0] = {3} \<and> kill_zombies s = Some s' \<and> t_status (threads s' 3) = THREAD_FREE \<and>
     card (kblocks s - kblocks s') = 10"
proof -
  obtain s where s: "reapable s [2, 3, 0]" "zombies s [2, 3, 0] = {3}" "card (holds s (threads s 3)) = 10" by (rule killed_kern)
  from kill_zombies_reaps[OF s(1)] obtain s' where s': "kill_zombies s = Some s'"
    "kblocks s' = kblocks s - (\<Union>t \<in> zombies s [2, 3, 0]. holds s (threads s t))"
    "\<forall>t \<in> zombies s [2, 3, 0]. t_status (threads s' t) = THREAD_FREE" by blast
  have "holds s (threads s 3) \<subseteq> kblocks s" using s(1,2) by (simp add: reapable_def owns_def del: tree.simps)
  then have "kblocks s - kblocks s' = holds s (threads s 3)" using s'(2) s(2) by auto
  then show ?thesis using s s' by (intro exI[of _ s] exI[of _ s']) simp
qed

text \<open>The system calls whose effect C leaves undefined, and which have no step in the model: a signal sent
  to a live thread with a number that is no index of \<open>sigcount\<close>, or whose count is at the largest
  \<open>int\<close>, and a descriptor that is no index of the table.\<close>

definition wild_call :: "addr \<Rightarrow> kern \<Rightarrow> bool" where
  "wild_call tpf s \<longleftrightarrow>
     (let n = unat (xarg tpf 8 s); p = int_arg (xarg tpf 0 s); sig = int_arg (xarg tpf 1 s)
      in n = 9 \<and> 0 \<le> p \<and> p \<le> int MAX_THREAD_COUNT \<and> t_status (threads s (nat p)) \<noteq> THREAD_FREE \<and>
           (sig < 0 \<or> sig > int SIGNAL_MAX \<or> sigcount (threads s (nat p)) (nat sig) = 2 ^ 31 - 1) \<or>
         n \<in> {12, 13, 14} \<and> (p < 0 \<or> p > int MAX_FD))"

text \<open>The calls that neither allocate, nor schedule, nor read memory of the user: \<open>getpid\<close>, \<open>exit\<close>,
  \<open>signal_register\<close>, \<open>signal_kill\<close>, the calls on a descriptor that is not open, \<open>sigreturn\<close>, and every
  number that is no call.\<close>

definition plain_call :: "addr \<Rightarrow> kern \<Rightarrow> bool" where
  "plain_call tpf s \<longleftrightarrow>
     (let n = unat (xarg tpf 8 s) in n \<in> {0, 5, 8, 9} \<or> n > 17 \<or>
        n \<in> {12, 13, 14} \<and> (\<forall>f. fd_entry s (int_arg (xarg tpf 0 s)) \<noteq> Some (Some f)))"

lemma plain_call_defined:
  assumes "plain_call tpf s" "esr_ec e \<noteq> 0b100100" "esr_ec e \<noteq> 0b100000"
  shows "sync_64_router m e tpf s = None \<longleftrightarrow> wild_call tpf s"
proof -
  let ?s = "el1_interrupt_enable s"
  have eq: "xarg tpf i ?s = xarg tpf i s" "threads ?s = threads s" for i
    by (simp_all add: xarg_def el1_interrupt_enable_def)
  have fd: "fd_entry (klog a (klog_hex v (klog b ?s))) p = fd_entry s p" "fd_entry ?s p = fd_entry s p" for a b v p
  proof -
    have "sched_of (klog a (klog_hex v (klog b ?s))) = sched_of s" "sched_of ?s = sched_of s" by simp_all
    note k = this[THEN sched_ofD(1)] this[THEN sched_ofD(2)]
    show "fd_entry (klog a (klog_hex v (klog b ?s))) p = fd_entry s p" "fd_entry ?s p = fd_entry s p"
      by (simp_all only: fd_entry_def curr_def k)
  qed
  have lg: "threads (klog a (klog_hex v (klog b ?s))) = threads s" for a b v
    using sched_ofD(1)[of "klog a (klog_hex v (klog b ?s))" s] by simp
  have outside: "fd_entry s p = None \<longleftrightarrow> p < 0 \<or> p > int MAX_FD" for p by (simp add: fd_entry_def)
  let ?n = "unat (xarg tpf 8 s)"
  have none: "sync_64_router m e tpf s = None \<longleftrightarrow> xarg tpf 8 s \<noteq> 50 \<and> syscall_table m tpf ?n ?s = None"
    using assms(2,3) by (simp add: sync_64_router_def Let_def eq)
  have p50: "?n \<noteq> 50 \<Longrightarrow> xarg tpf 8 s \<noteq> 50" by auto
  consider "?n \<in> {0, 5, 8}" | "?n = 9" | "?n > 17" | "?n = 12" | "?n = 13" | "?n = 14"
    using assms(1) by (auto simp: plain_call_def Let_def)
  then show ?thesis
  proof cases
    case 1
    then show ?thesis using none p50 by (auto simp: syscall_table_def Let_def wild_call_def)
  next
    case 2
    have "syscall_table m tpf ?n ?s = signal_kill (int_arg (xarg tpf 0 s)) (int_arg (xarg tpf 1 s)) ?s"
      using 2 by (simp add: syscall_table_def Let_def eq)
    moreover have "signal_kill p sig ?s = None \<longleftrightarrow> 0 \<le> p \<and> p \<le> int MAX_THREAD_COUNT \<and> t_status (threads s (nat p)) \<noteq> THREAD_FREE \<and>
        (sig < 0 \<or> sig > int SIGNAL_MAX \<or> sigcount (threads s (nat p)) (nat sig) = 2 ^ 31 - 1)" for p sig
      unfolding signal_kill_def Let_def by (cases "SAFE_DEMO ?s") (auto simp: eq lg)
    ultimately show ?thesis using none p50 2 by (simp add: wild_call_def Let_def)
  next
    case 3
    then have "syscall_table m tpf ?n ?s = Some ?s" by (simp add: syscall_table_def Let_def)
    then show ?thesis using none 3 by (simp add: wild_call_def Let_def)
  next
    case 4
    then have "\<forall>f. fd_entry s (int_arg (xarg tpf 0 s)) \<noteq> Some (Some f)" using assms(1) by (simp add: plain_call_def Let_def)
    moreover have "syscall_table m tpf ?n ?s = sys_close tpf (int_arg (xarg tpf 0 s)) ?s" using 4 by (simp add: syscall_table_def Let_def eq)
    moreover have "sys_close tpf p ?s = None \<longleftrightarrow> fd_entry s p = None" if "\<forall>f. fd_entry s p \<noteq> Some (Some f)" for p
      using that by (auto simp: sys_close_def fd Let_def simp del: append.simps split: option.splits)
    ultimately show ?thesis using none p50 4 outside by (simp add: wild_call_def Let_def)
  next
    case 5
    then have "\<forall>f. fd_entry s (int_arg (xarg tpf 0 s)) \<noteq> Some (Some f)" using assms(1) by (simp add: plain_call_def Let_def)
    moreover have "syscall_table m tpf ?n ?s = sys_write tpf (int_arg (xarg tpf 0 s)) (xarg tpf 1 s) (xarg tpf 2 s) ?s"
      using 5 by (simp add: syscall_table_def Let_def eq)
    moreover have "sys_write tpf p (xarg tpf 1 s) (xarg tpf 2 s) ?s = None \<longleftrightarrow> fd_entry s p = None" if "\<forall>f. fd_entry s p \<noteq> Some (Some f)" for p
      using that by (auto simp: sys_write_def fd Let_def simp del: append.simps split: option.splits)
    ultimately show ?thesis using none p50 5 outside by (simp add: wild_call_def Let_def)
  next
    case 6
    then have "\<forall>f. fd_entry s (int_arg (xarg tpf 0 s)) \<noteq> Some (Some f)" using assms(1) by (simp add: plain_call_def Let_def)
    moreover have "syscall_table m tpf ?n ?s = sys_read tpf (int_arg (xarg tpf 0 s)) (xarg tpf 1 s) (xarg tpf 2 s) ?s"
      using 6 by (simp add: syscall_table_def Let_def eq)
    moreover have "sys_read tpf p (xarg tpf 1 s) (xarg tpf 2 s) ?s = None \<longleftrightarrow> fd_entry s p = None" if "\<forall>f. fd_entry s p \<noteq> Some (Some f)" for p
      using that by (auto simp: sys_read_def fd Let_def simp del: append.simps split: option.splits)
    ultimately show ?thesis using none p50 6 outside by (simp add: wild_call_def Let_def)
  qed
qed

text \<open>C11: the thread table stays well-formed, and where the calls stop.  Let a well-formed table (every
  process number its index, every status one of the three, every signal count a non-negative \<open>int\<close>,
  every working directory within its buffer, the current thread, the ends of the queue and all links
  indices of the table) go through any sequence of exceptions, interrupts, signal checks, returns of
  handlers, idle rounds and child returns whose effect C defines; a call that writes outside an array
  has no step.  Then the table is still well-formed, and of the plain calls exactly the wild ones have
  no step: \<open>signal_kill\<close> on a live thread with a signal out of range or counted to the largest \<open>int\<close>,
  and \<open>close\<close>, \<open>read\<close>, \<open>write\<close> of a number outside the descriptor table, which the code does not check.\<close>

theorem kernel_threads_typed:
  assumes "threads_ok s" "(kstep m dflt)\<^sup>*\<^sup>* s s'"
  shows "threads_ok s' \<and>
    (\<forall>e tpf. plain_call tpf s' \<and> esr_ec e \<noteq> 0b100100 \<and> esr_ec e \<noteq> 0b100000 \<longrightarrow>
      (sync_64_router m e tpf s' = None \<longleftrightarrow> wild_call tpf s'))"
proof -
  have "threads_ok s'" using assms(2) by (induction rule: rtranclp_induct) (use assms(1) kstep_ok in blast)+
  then show ?thesis using plain_call_defined by blast
qed

text \<open>Thread 0 runs, 1 and 2 wait; the frame at \<open>0x80\<close> holds \<open>signal_kill(1, 9)\<close>, the one at \<open>0x90\<close>
  \<open>kill(2)\<close>, the one at \<open>0xa0\<close> \<open>signal_kill(1, 70)\<close>.\<close>

definition call_frame :: "64 word \<Rightarrow> 64 word \<Rightarrow> 64 word \<Rightarrow> trapframe_t" where
  "call_frame n x y = \<lparr>xreg = (\<lambda>_. 0)(8 := n, 0 := x, 1 := y), spsr_el1 = 0, elr_el1 = 0, sp_el0 = 0\<rparr>"

definition typed_kern :: kern where
  "typed_kern = life_kern\<lparr>threads := \<lambda>i. (threads life_kern i)\<lparr>pid := int i\<rparr>,
     trapframes := (trapframes life_kern)(0x80 := call_frame 9 1 9, 0x90 := call_frame 7 2 0, 0xa0 := call_frame 9 1 70)\<rparr>"

definition blank_machine :: machine where
  "blank_machine = \<lparr>wrapper_addr = 0, pt_address = 0, videocore = (\<lambda>c p. p), cpu_regs = blank_ctx\<rparr>"

lemma typed_kern:
  "threads_ok typed_kern" "rq typed_kern [1, 2]" "curr_thread typed_kern = 0" "\<not> zombie typed_kern i"
  "t_status (threads typed_kern i) = (if i < 3 then THREAD_ACTIVE else THREAD_FREE)" "sigcount (threads typed_kern i) = (\<lambda>_. 0)"
  by (auto simp: typed_kern_def life_kern_def boot_kern_def three_def blank_thread_def threads_ok_def thread_ok_def index_ok_def rq_def
      tnext_def tprev_def zombie_def MAX_THREAD_COUNT_def MAX_PATH_NAME_def THREAD_FREE_def THREAD_ACTIVE_def THREAD_ZOMBIE_def)

lemma kill_typed:
  obtains s1 where "signal_kill 1 9 (el1_interrupt_enable typed_kern) = Some s1" "sigcount (threads s1 1) 9 = 1" "rq s1 [1, 2]"
    "curr_thread s1 = 0" "\<And>i. \<not> zombie s1 i" "t_status (threads s1 1) = THREAD_ACTIVE" "t_status (threads s1 2) = THREAD_ACTIVE" "trapframes s1 = trapframes typed_kern"
proof -
  let ?s = "el1_interrupt_enable typed_kern"
  let ?f = "\<lambda>x. x\<lparr>sigcount := (sigcount x)(9 := sigcount x 9 + 1)\<rparr>"
  have e: "threads ?s = threads typed_kern" "curr_thread ?s = 0" "rq ?s [1, 2]" "trapframes ?s = trapframes typed_kern"
    using typed_kern(2,3) by (simp_all add: el1_interrupt_enable_def rq_def tnext_def[abs_def] tprev_def[abs_def])
  define s0 where "s0 = (if SAFE_DEMO ?s then ?s else klog crnl (klog_hex (of_int 1) (klog ''[DEBUG] signal kill is called in thread id '' ?s)))"
  have s0: "same_but_con ?s s0" unfolding s0_def
    by (cases "SAFE_DEMO ?s") (simp_all only: if_True if_False, auto intro!: klog_same[THEN same_but_con_trans[rotated]] same_but_con_refl)
  note c = same_but_con_rq[OF s0] same_but_conD[OF s0]
  have "signal_kill 1 9 ?s = Some (enable_interrupt (set_thread ?f 1 (disable_interrupt s0)))"
    using c e typed_kern(5,6) unfolding signal_kill_def s0_def[symmetric] by (simp add: MAX_THREAD_COUNT_def SIGNAL_MAX_def THREAD_ACTIVE_def THREAD_FREE_def)
  moreover have "rq (enable_interrupt (set_thread ?f 1 (disable_interrupt s0))) [1, 2]"
    using c(1)[of "[1, 2]"] e(3) by (simp add: rq_def tnext_def tprev_def set_thread_def)
  moreover have "trapframes (enable_interrupt (set_thread ?f 1 (disable_interrupt s0))) = trapframes s0"
    by (simp add: enable_interrupt_def disable_interrupt_def el1_interrupt_enable_def el1_interrupt_disable_def set_thread_def Let_def)
  moreover have "trapframes s0 = trapframes ?s" using s0 by (auto simp: same_but_con_def)
  ultimately show thesis using that c e typed_kern(4-6) by (auto simp: zombie_def set_thread_def THREAD_ACTIVE_def THREAD_FREE_def THREAD_ZOMBIE_def)
qed

theorem kernel_threads_typed_witness:
  "\<exists>s'. (kstep blank_machine 0)\<^sup>*\<^sup>* typed_kern s' \<and> threads_ok s' \<and> sigcount (threads s' 1) 9 = 1 \<and> curr_thread s' = 1 \<and> zombie s' 2 \<and>
     sync_64_router blank_machine \<lparr>esr_ec = 21, esr_iss = 0, far = 0\<rparr> 0xa0 s' = None"
proof -
  let ?e = "\<lparr>esr_ec = 21, esr_iss = 0, far = 0\<rparr>"
  obtain s1 where s1: "signal_kill 1 9 (el1_interrupt_enable typed_kern) = Some s1" "sigcount (threads s1 1) 9 = 1" "rq s1 [1, 2]"
    "curr_thread s1 = 0" "\<And>i. \<not> zombie s1 i" "t_status (threads s1 1) = THREAD_ACTIVE" "t_status (threads s1 2) = THREAD_ACTIVE" "trapframes s1 = trapframes typed_kern"
    by (rule kill_typed) blast
  let ?s1 = "el1_interrupt_disable s1"
  have x: "xarg 0x80 8 (el1_interrupt_enable typed_kern) = 9" "xarg 0x80 0 (el1_interrupt_enable typed_kern) = 1"
    "xarg 0x80 1 (el1_interrupt_enable typed_kern) = 9"
    by (simp_all add: xarg_def el1_interrupt_enable_def typed_kern_def call_frame_def)
  have "sync_64_router blank_machine ?e 0x80 typed_kern = Some (Returns ?s1)"
    using s1(1) by (simp add: sync_64_router_def Let_def x x[unfolded One_nat_def] syscall_table_def int_arg_def)
  then have st1: "kstep blank_machine 0 typed_kern ?s1" using kstep.exception by (fastforce simp: control_kern_def)
  let ?s2 = "el1_interrupt_enable ?s1"
  have u: "threads ?s2 = threads s1" "curr_thread ?s2 = 0" "rq ?s2 ([1] @ [2])" "trapframes ?s2 = trapframes s1" "zombie ?s2 = zombie s1"
    using s1(3,4) by (simp_all add: el1_interrupt_enable_def el1_interrupt_disable_def rq_def tnext_def[abs_def] tprev_def[abs_def] zombie_def[abs_def])
  obtain s3 where s3: "kill (int 2) ?s2 = Some s3" "curr_thread s3 = 1"
    "off_queue s3 = off_queue (?s2\<lparr>mem := mem ?s2, con := con s3, curr_thread := 1,
       threads := (threads ?s2)(2 := (threads ?s2 2)\<lparr>t_status := THREAD_ZOMBIE\<rparr>)\<rparr>)"
    by (rule kill_spec[of ?s2 1 "[]" 2]) (use u s1(5,7) in \<open>auto simp: MAX_THREAD_COUNT_def THREAD_ACTIVE_def THREAD_FREE_def\<close>)
  let ?s3 = "el1_interrupt_disable s3"
  have y: "xarg 0x90 8 ?s2 = 7" "xarg 0x90 0 ?s2 = 2"
    using s1(8) by (simp_all add: xarg_def u typed_kern_def call_frame_def)
  have "sync_64_router blank_machine ?e 0x90 ?s1 = Some (Returns ?s3)"
    using s3(1) by (simp add: sync_64_router_def Let_def y syscall_table_def int_arg_def)
  then have "kstep blank_machine 0 ?s1 ?s3" using kstep.exception by (fastforce simp: control_kern_def)
  then have st: "(kstep blank_machine 0)\<^sup>*\<^sup>* typed_kern ?s3" using st1 by (meson r_into_rtranclp rtranclp.rtrancl_into_rtrancl)
  have th: "unlinked (threads s3 i) = unlinked (((threads s1)(2 := (threads s1 2)\<lparr>t_status := THREAD_ZOMBIE\<rparr>)) i)" for i
    using arg_cong[OF s3(3), of threads] by (simp add: off_queue_def fun_eq_iff u)
  have "trapframes s3 = trapframes typed_kern" using arg_cong[OF s3(3), of trapframes] s1(8) by (simp add: off_queue_def u)
  then have z: "xarg 0xa0 8 ?s3 = 9" "xarg 0xa0 0 ?s3 = 1" "xarg 0xa0 1 ?s3 = 70"
    by (simp_all add: xarg_def el1_interrupt_disable_def typed_kern_def call_frame_def)
  have r: "sigcount (threads ?s3 1) 9 = 1" "curr_thread ?s3 = 1" "zombie ?s3 2" "t_status (threads ?s3 1) \<noteq> THREAD_FREE"
    using th[of 1, THEN arg_cong, of sigcount] th[of 1, THEN arg_cong, of t_status] th[of 2, THEN arg_cong, of t_status] s1(2,6) s3(2)
    by (simp_all add: el1_interrupt_disable_def zombie_def unlinked_def THREAD_ACTIVE_def THREAD_FREE_def)
  have "plain_call 0xa0 ?s3" "wild_call 0xa0 ?s3"
    using r(4) by (simp_all add: plain_call_def wild_call_def z z[unfolded One_nat_def] int_arg_def Let_def MAX_THREAD_COUNT_def SIGNAL_MAX_def)
  then show ?thesis using kernel_threads_typed[OF typed_kern(1) st] st r(1-3) by (intro exI[of _ ?s3]) simp
qed

section \<open>Descriptors of a reaped thread\<close>

text \<open>The descriptors of a reaped thread dangle.  \<open>kill_zombies\<close> releases the block of every open
  file but leaves the descriptor table, and \<open>thread_create\<close> does not clear it: the next thread in the
  slot starts with descriptors that point to released blocks.\<close>

theorem stale_descriptors:
  assumes "reapable s xs" "t \<in> zombies s xs" "fd_table (threads s t) i = Some f" "i < MAX_FD"
  shows "\<exists>s1. kill_zombies s = Some s1 \<and> t_status (threads s1 t) = THREAD_FREE \<and> f \<notin> kblocks s1 \<and>
    fd_table (threads s1 t) i = Some f \<and>
    (\<forall>start n s2. thread_create start n s1 = Some (s2, Some t) \<longrightarrow> fd_table (threads s2 t) i = Some f)"
proof -
  obtain s1 where s1: "kill_zombies s = Some s1" "kblocks s1 = kblocks s - (\<Union>t \<in> zombies s xs. holds s (threads s t))"
    "\<forall>t. unlinked (threads s1 t) = unlinked (if t \<in> zombies s xs
        then (threads s t)\<lparr>t_status := THREAD_FREE, vma_list := []\<rparr> else threads s t)" by (rule kill_zombies_spec[OF assms(1)])
  have u: "unlinked (threads s1 t) = unlinked ((threads s t)\<lparr>t_status := THREAD_FREE, vma_list := []\<rparr>)" using s1(3) assms(2) by simp
  have f: "fd_table (threads s1 t) = fd_table (threads s t)" "t_status (threads s1 t) = THREAD_FREE"
    using arg_cong[OF u, of fd_table] arg_cong[OF u, of t_status] by (simp_all add: unlinked_def)
  have "f \<in> set (fd_blocks (threads s t))" by (rule fd_in_blocks[OF assms(3,4)])
  then have "f \<in> holds s (threads s t)" by (simp add: holds_def holdings_def)
  then have "f \<notin> kblocks s1" using s1(2) assms(2) by auto
  then show ?thesis using s1(1) f assms(3) thread_create_fds by (intro exI[of _ s1]) auto
qed

text \<open>Thread 3 of \<open>killed_kern\<close> with a file open.\<close>

lemma open_kern:
  obtains s f where "reapable s [2, 3, 0]" "zombies s [2, 3, 0] = {3}" "fd_table (threads s 3) 0 = Some f"
proof -
  let ?xs = "[2, 3, 0]"
  obtain s where s: "reapable s ?xs" "zombies s ?xs = {3}" "ample 4 80 s" "fd_table (threads s 3) = (\<lambda>_. None)" by (rule killed_kern)
  have hp: "heap_ok s" and rqs: "rq s ?xs" and ow: "owns s (threads s 3)" using s(1,2) by (simp_all add: reapable_def)
  have rf: "request_ok FILE_SIZE" "FILE_SIZE \<noteq> 0" "size2order FILE_SIZE \<le> 4"
    by (simp_all add: FILE_SIZE_def request_ok_def size2order_def FRAME_SIZE_def order_loop.simps)
  have am: "ample 4 (Suc 79) s" using s(3) by simp
  obtain s1 f where k: "knew FILE_SIZE s = Some (s1, f)"
    by (rule knew_ample[OF hp rf(2,3) _ am rf(1)]) (simp add: MAX_ORDER_def)
  note d = knew_spec[OF hp rf(1) k] and qd = quietD[OF knew_spec(5)[OF hp rf(1) k]]
  define h where "h = \<lparr>f_vnode = 0, f_pos = 0, fh_ops = Tmpfs_file_ops, f_flags = 0\<rparr>"
  define s' where "s' = (set_thread (\<lambda>x. x\<lparr>fd_table := (fd_table x)(0 := Some f)\<rparr>) 3 s1)\<lparr>files := (files s1)(f := h)\<rparr>"
  have m: "mem s' = mem s1" by (simp add: s'_def)
  have th: "threads s' = (threads s)(3 := (threads s 3)\<lparr>fd_table := (\<lambda>_. None)(0 := Some f)\<rparr>)" "words s' = words s"
    using qd s(4) by (simp_all add: s'_def set_thread_def)
  have kb: "kblocks s' = insert f (kblocks s)" "heap_ok s'" using heap_cong[OF m] d(1,4) by simp_all
  have "rq s' ?xs"
  proof -
    have "tnext s' = tnext s" "tprev s' = tprev s" "RQ_head s' = RQ_head s" "RQ_tail s' = RQ_tail s"
      using th qd by (simp_all add: s'_def fun_eq_iff tnext_def tprev_def)
    then show ?thesis using rqs by (simp add: rq_def)
  qed
  moreover have zs: "zombies s' ?xs = {3}"
  proof -
    have "zombie s' = zombie s" using th by (simp add: zombie_def fun_eq_iff)
    then show ?thesis using s(2) by (simp add: zombies_def)
  qed
  moreover have "owns s' (threads s' 3)"
  proof -
    let ?x = "threads s 3" and ?y = "threads s' 3"
    have "[0..<MAX_FD] = 0 # [1..<MAX_FD]" by (rule upt_rec[THEN trans]) (simp add: MAX_FD_def)
    then have fb: "fd_blocks ?x = []" "fd_blocks ?y = [f]"
      using s(4) th by (simp_all add: fd_blocks_def map_filter_def filter_empty_conv)
    have pg: "pgd_of ?y = pgd_of ?x" "area_blocks ?y = area_blocks ?x" "kernel_sp ?y = kernel_sp ?x" using th by (simp_all add: pgd_of_def area_blocks_def)
    have hs: "holdings ?x = area_blocks ?x @ [kernel_sp ?x, pgd_of ?x]" "holdings ?y = area_blocks ?x @ f # [kernel_sp ?x, pgd_of ?x]"
      using fb pg by (simp_all add: holdings_def)
    have fn: "f \<notin> holds s ?x" using ow d(3) by (auto simp: owns_def simp del: tree.simps)
    have "closable s' f" by (simp add: closable_def s'_def ops_table_def h_def)
    then show ?thesis using ow fn kb(1) hs fb pg th(2) unfolding owns_def holds_def by (auto simp del: tree.simps)
  qed
  ultimately have "reapable s' ?xs" using kb(2) by (simp add: reapable_def)
  then show thesis by (rule that[OF _ zs]) (simp add: th)
qed

theorem stale_descriptors_witness:
  "\<exists>s s1 f. kill_zombies s = Some s1 \<and> f \<in> kblocks s \<and> f \<notin> kblocks s1 \<and> fd_table (threads s1 3) 0 = Some f \<and> t_status (threads s1 3) = THREAD_FREE"
proof -
  obtain s f where s: "reapable s [2, 3, 0]" "zombies s [2, 3, 0] = {3}" "fd_table (threads s 3) 0 = Some f" by (rule open_kern)
  have "f \<in> set (fd_blocks (threads s 3))" by (rule fd_in_blocks[OF s(3)]) (simp add: MAX_FD_def)
  then have "f \<in> kblocks s" using s(1,2) by (auto simp: reapable_def owns_def holds_def holdings_def simp del: tree.simps)
  then show ?thesis using stale_descriptors[OF s(1) _ s(3)] s(2) by (auto simp: MAX_FD_def)
qed


section \<open>A thread that exits\<close>

lemma schedule_n_ring:
  assumes "rq s xs" "curr_thread s \<notin> set xs" "\<forall>i \<in> insert (curr_thread s) (set xs). \<not> zombie s i"
  shows "\<exists>s' ys. schedule_n n s = Some s' \<and> rq s' ys \<and> insert (curr_thread s') (set ys) = insert (curr_thread s) (set xs) \<and>
    curr_thread s' \<notin> set ys \<and> zombie s' = zombie s \<and> mem s' = mem s"
  using assms
proof (induction n arbitrary: s xs)
  case (Suc n)
  show ?case
  proof (cases xs)
    case Nil
    let ?s1 = "enable_interrupt (disable_interrupt s)"
    have s1: "schedule s = Some ?s1" using Suc.prems(1) Nil schedule_empty by simp
    have c: "curr_thread ?s1 = curr_thread s" "zombie ?s1 = zombie s" "rq ?s1 xs" "mem ?s1 = mem s"
      using Suc.prems(1) by simp_all
    show ?thesis using Suc.IH[OF c(3)] Suc.prems(2,3) s1 c by auto
  next
    case xs: (Cons u us)
    have "rq s ([] @ u # us)" using Suc.prems(1) xs by simp
    then obtain s1 where s1: "schedule s = Some s1" "curr_thread s1 = u" "zombie s1 = zombie s" "rq s1 (us @ [curr_thread s])" "mem s1 = mem s"
      using schedule_live[of s "[]" u us] Suc.prems(2,3) xs by auto
    have d: "u \<notin> set us" using Suc.prems(1) xs by (simp add: rq_def)
    then have "curr_thread s1 \<notin> set (us @ [curr_thread s])" using s1(2) Suc.prems(2) xs by auto
    moreover have "\<forall>i \<in> insert (curr_thread s1) (set (us @ [curr_thread s])). \<not> zombie s1 i" using s1(2,3) Suc.prems(3) xs by auto
    ultimately obtain s' ys where "schedule_n n s1 = Some s'" "rq s' ys" "insert (curr_thread s') (set ys) = insert (curr_thread s1) (set (us @ [curr_thread s]))"
      "curr_thread s' \<notin> set ys" "zombie s' = zombie s1" "mem s' = mem s1"
      using Suc.IH[OF s1(4)] by blast
    then show ?thesis using s1 xs by (intro exI[of _ s'] exI[of _ ys]) auto
  qed
qed auto

text \<open>C39: a program that calls \<open>exit\<close> is never reaped.  Let the running thread not be in the queue, as
  after its first turn in the queue (a program that exits before the first tick after \<open>thread_exec\<close>
  still is, and is reaped), and let at least one thread be queued, all of them alive; the idle thread
  alone is enough.  The call marks the running thread and returns to the program; the next \<open>schedule\<close>
  does not queue it again, so whenever \<open>kill_zombies\<close> runs after any number of further switches, the
  thread is still a zombie and no block of the heap is released.\<close>

theorem exit_never_reaped:
  assumes "heap_ok s" "rq s (u # us)" "curr_thread s \<notin> set (u # us)" "\<forall>i \<in> set (u # us). \<not> zombie s i"
  shows "\<exists>s1 s2. schedule_n (Suc n) (exit s) = Some s1 \<and> kill_zombies s1 = Some s2 \<and> zombie s2 (curr_thread s) \<and>
    kblocks s2 = kblocks s"
proof -
  let ?c = "curr_thread s"
  let ?e = "exit s"
  have e: "threads ?e = (threads s)(?c := (threads s ?c)\<lparr>t_status := THREAD_ZOMBIE\<rparr>)" "mem ?e = mem s" "curr_thread ?e = ?c"
    using quietD(11,12)[of "disable_interrupt s" s] by (simp_all add: exit_def set_curr_def)
  have q: "rq ?e ([] @ u # us)" using assms(2) by (simp add: exit_def set_curr_def)
  have z: "zombie ?e i \<longleftrightarrow> i = ?c \<or> zombie s i" for i using e(1) by (simp add: zombie_def)
  obtain s0 where s0: "schedule ?e = Some s0" "curr_thread s0 = u" "zombie s0 = zombie ?e" "rq s0 us" "mem s0 = mem ?e"
    using schedule_live[OF q] z assms(3,4) e(3) by auto
  have d: "u \<notin> set us" using assms(2) by (simp add: rq_def)
  have "\<forall>i \<in> insert (curr_thread s0) (set us). \<not> zombie s0 i" using s0(2,3) z assms(3,4) by auto
  then obtain s1 ys where s1: "schedule_n n s0 = Some s1" "rq s1 ys" "insert (curr_thread s1) (set ys) = insert u (set us)"
    "zombie s1 = zombie s0" "mem s1 = mem s0"
    using schedule_n_ring[OF s0(4)] d s0(2) by blast
  have sub: "set ys \<subseteq> insert u (set us)" using s1(3) by auto
  have "\<not> zombie s1 i" if "i \<in> set ys" for i using sub that s1(4) s0(3) z assms(3,4) by auto
  then have zs: "zombies s1 ys = {}" by (auto simp: zombies_def)
  have m: "mem s1 = mem s" using s1(5) s0(5) e(2) by simp
  have "reapable s1 ys" using zs s1(2) heap_cong(1)[OF m] assms(1) by (simp add: reapable_def)
  then obtain s2 where s2: "kill_zombies s1 = Some s2" "kblocks s2 = kblocks s1 - (\<Union>t \<in> zombies s1 ys. holds s1 (threads s1 t))"
    "\<forall>t. unlinked (threads s2 t) = unlinked (if t \<in> zombies s1 ys
        then (threads s1 t)\<lparr>t_status := THREAD_FREE, vma_list := []\<rparr> else threads s1 t)" by (rule kill_zombies_spec)
  have "t_status (threads s2 ?c) = t_status (threads s1 ?c)" using arg_cong[OF s2(3)[rule_format, of ?c], of t_status] zs by (simp add: unlinked_status)
  moreover have "zombie s1 ?c" using s1(4) s0(3) z by simp
  ultimately have "zombie s2 ?c" by (simp add: zombie_def)
  moreover have "schedule_n (Suc n) ?e = Some s1" using s0(1) s1(1) by simp
  ultimately show ?thesis using s2(1,2) zs heap_cong(2)[OF m] by auto
qed

theorem exit_never_reaped_witness:
  "\<exists>s1 s2. schedule_n (Suc 4) (exit life_kern) = Some s1 \<and> kill_zombies s1 = Some s2 \<and> zombie s2 0"
proof -
  have "rq life_kern (1 # [2])" using life_kern(3) by simp
  from exit_never_reaped[OF life_kern(1) this, of 4] show ?thesis using life_kern(4,7) by auto
qed

end
