(* ===== verification/Signal_Props.thy ===== *)
theory Signal_Props
  imports Thread_Props
begin

text \<open>
  Delivery of signals: from \<open>check_signal\<close> through the handlers of the user and their \<open>sigreturn\<close> to
  the end of the checks.
\<close>

section \<open>A session\<close>

text \<open>The checks with the handlers they enter: \<open>user i\<close> is what the kernel state goes through while the
  handler of signal \<open>i\<close> runs, up to its \<open>sigreturn\<close>; the log lists the entries.\<close>

primrec session :: "addr \<Rightarrow> addr \<Rightarrow> thread_context_t \<Rightarrow> addr \<Rightarrow> (nat \<Rightarrow> kern \<Rightarrow> kern) \<Rightarrow> nat \<Rightarrow> signal_outcome option \<Rightarrow>
    ((nat \<times> user_entry) list \<times> kern) option" where
  "session wrapper dflt cpu tpf user 0 r = None"
| "session wrapper dflt cpu tpf user (Suc n) r =
     (case r of None \<Rightarrow> None
      | Some (Checked s) \<Rightarrow> Some ([], s)
      | Some (Killed s) \<Rightarrow> None
      | Some (Entered i e s) \<Rightarrow>
          map_option (\<lambda>(log, s'). ((i, e) # log, s')) (session wrapper dflt cpu tpf user n (after_handler wrapper dflt cpu tpf i (user i s))))"

text \<open>How often each signal from \<open>i\<close> on is pending.\<close>

definition pending :: "kern \<Rightarrow> nat \<Rightarrow> nat list" where
  "pending s i = concat (map (\<lambda>j. replicate (nat (sigcount (curr s) j)) j) [i..<SIGNAL_MAX + 1])"

definition caught :: "kern \<Rightarrow> bool" where
  "caught s \<longleftrightarrow> (\<forall>i \<le> SIGNAL_MAX. sigcount (curr s) i > 0 \<longrightarrow> (\<exists>a. signal_handler (curr s) i = User_code a))"

text \<open>Where a handler of the thread is entered.\<close>

definition entry_for :: "addr \<Rightarrow> kern \<Rightarrow> nat \<Rightarrow> user_entry \<Rightarrow> bool" where
  "entry_for wrapper s i e \<longleftrightarrow> ue_elr e = USER_SIGNAL_WRAPPER_VA + wrapper mod 0x1000 \<and>
     ue_sp e = USER_SIGNAL_STKSTART_VA + of_nat FRAME_SIZE \<and> signal_handler (curr s) i = User_code (ue_x0 e)"

text \<open>What the checks leave alone.\<close>

definition aside :: "kern \<Rightarrow> kern \<Rightarrow> bool" where
  "aside s s' \<longleftrightarrow> curr_thread s' = curr_thread s \<and> RQ_head s' = RQ_head s \<and> RQ_tail s' = RQ_tail s \<and>
     (\<forall>j. j \<noteq> curr_thread s \<longrightarrow> threads s' j = threads s j) \<and> signal_handler (curr s') = signal_handler (curr s)"

lemma aside_trans: "aside s s1 \<Longrightarrow> aside s1 s2 \<Longrightarrow> aside s s2"
  by (simp add: aside_def)

lemma aside_sched: "sched_of s' = sched_of s \<Longrightarrow> aside s s'"
  using sched_ofD[of s' s] by (simp add: aside_def curr_def)

lemma aside_set_curr: "signal_handler (f (curr s)) = signal_handler (curr s) \<Longrightarrow> aside s (set_curr f s)"
  by (simp add: aside_def set_curr_def curr_def)

lemma aside_handlers: "aside s s' \<Longrightarrow> signal_handler (curr s') = signal_handler (curr s)"
  by (simp add: aside_def)

lemma aside_caught: "aside s s' \<Longrightarrow> sigcount (curr s') = sigcount (curr s) \<Longrightarrow> caught s' = caught s"
  by (simp add: aside_def caught_def)

text \<open>Everything else of the scheduler: which thread runs, the ends of the queue, and the other threads.\<close>

definition others :: "kern \<Rightarrow> nat \<times> nat ptr \<times> nat ptr \<times> (nat \<Rightarrow> thread_t)" where
  "others s = (curr_thread s, RQ_head s, RQ_tail s, (threads s)(curr_thread s := blank_thread))"

lemma aside_others: "aside s s' \<Longrightarrow> others s' = others s"
  by (auto simp: aside_def others_def fun_eq_iff)

text \<open>A session of handlers \<open>user\<close> carries every property of that part over that the handlers keep.\<close>

definition carried :: "(nat \<Rightarrow> kern \<Rightarrow> kern) \<Rightarrow> kern \<Rightarrow> kern \<Rightarrow> bool" where
  "carried user s s' \<longleftrightarrow> (\<forall>I. (\<forall>i s. I (others s) \<longrightarrow> I (others (user i s))) \<longrightarrow> I (others s) \<longrightarrow> I (others s'))"

lemma carried_aside: "aside s s' \<Longrightarrow> carried user s s'"
  by (simp add: carried_def aside_others)

lemma carried_user: "carried user s (user i s)"
  by (simp add: carried_def)

lemma carried_trans: "carried user s s1 \<Longrightarrow> carried user s1 s2 \<Longrightarrow> carried user s s2"
  unfolding carried_def by blast

text \<open>What a handler leaves of the thread it runs in: the counts and handlers of its signals.\<close>

definition keeps_signals :: "(nat \<Rightarrow> kern \<Rightarrow> kern) \<Rightarrow> bool" where
  "keeps_signals user \<longleftrightarrow> (\<forall>i s. curr_thread (user i s) = curr_thread s \<and> sigcount (curr (user i s)) = sigcount (curr s) \<and>
     signal_handler (curr (user i s)) = signal_handler (curr s))"

lemma curr_set_curr: "curr (set_curr f s) = f (curr s)"
  by (simp add: curr_def set_curr_def)

lemma curr_sched: "sched_of s' = sched_of s \<Longrightarrow> curr s' = curr s"
  using sched_ofD[of s' s] by (simp add: curr_def)

lemma curr_masking [simp]: "curr (enable_interrupt s) = curr s" "curr (disable_interrupt s) = curr s"
  by (rule curr_sched, simp)+

lemma signal_iter_pending:
  assumes "sigcount (curr s) i > 0" "signal_handler (curr s) i = User_code a"
  obtains e s1 where "signal_iter wrapper dflt tpf i s = Some (Entered i e s1)" "aside s s1" "entry_for wrapper s i e"
    "sigcount (curr s1) = (sigcount (curr s))(i := sigcount (curr s) i - 1)" "signal_is_checking (curr s1) = signal_is_checking (curr s)"
proof -
  define s0 where "s0 = enable_interrupt (set_curr (\<lambda>x. x\<lparr>sigcount := (sigcount x)(i := sigcount x i - 1)\<rparr>) (disable_interrupt s))"
  have c0: "curr s0 = (curr s)\<lparr>sigcount := (sigcount (curr s))(i := sigcount (curr s) i - 1)\<rparr>"
    by (simp add: s0_def curr_set_curr)
  have a0: "aside s s0" unfolding s0_def
    by (rule aside_trans[OF aside_sched aside_trans[OF aside_set_curr aside_sched], of "disable_interrupt s"]) simp_all
  define s1 where "s1 = log_run_signal dflt (set_curr (\<lambda>x. x\<lparr>curr_signal_handler := signal_handler x i\<rparr>) s0)"
  have l: "sched_of (log_run_signal dflt s) = sched_of s" for s by (simp add: log_run_signal_def)
  have c1: "curr s1 = (curr s0)\<lparr>curr_signal_handler := signal_handler (curr s0) i\<rparr>"
    unfolding s1_def by (subst curr_sched[OF l]) (simp add: curr_set_curr)
  have a1: "aside s0 s1" unfolding s1_def by (rule aside_trans[OF aside_set_curr aside_sched[OF l]]) simp
  have h: "curr_signal_handler (curr s1) = User_code a" using c1 c0 assms(2) by simp
  define e where "e = \<lparr>ue_elr = USER_SIGNAL_WRAPPER_VA + wrapper mod 0x1000,
                ue_sp = USER_SIGNAL_STKSTART_VA + of_nat FRAME_SIZE, ue_spsr = spsr_el1 (trapframes s1 tpf),
                ue_x0 = handler_address dflt (User_code a)\<rparr>"
  have "signal_iter wrapper dflt tpf i s = Some (Entered i e s1)"
    using assms(1) h by (simp add: signal_iter_def run_signal_def Let_def s0_def[symmetric] s1_def[symmetric] e_def)
  moreover have "entry_for wrapper s i e" using assms(2) by (simp add: entry_for_def e_def handler_address_def)
  ultimately show thesis using that aside_trans[OF a0 a1] c1 c0 by simp
qed

lemma pending_Cons: "i \<le> SIGNAL_MAX \<Longrightarrow> pending s i = replicate (nat (sigcount (curr s) i)) i @ pending s (Suc i)"
  unfolding pending_def by (subst upt_rec) simp

lemma pending_cong: "\<forall>j \<ge> i. sigcount (curr s') j = sigcount (curr s) j \<Longrightarrow> pending s' i = pending s i"
  by (auto simp: pending_def intro!: arg_cong[of _ _ concat])

lemma save_context_aside:
  "aside s (save_context cpu s)" "sigcount (curr (save_context cpu s)) = sigcount (curr s)"
  "signal_is_checking (curr (save_context cpu s)) = signal_is_checking (curr s)"
  by (simp_all add: save_context_def aside_set_curr curr_set_curr)

text \<open>From index \<open>i\<close> on: the rounds left and the signals pending bound the session.\<close>

definition settled_signals :: "(nat \<Rightarrow> kern \<Rightarrow> kern) \<Rightarrow> kern \<Rightarrow> kern \<Rightarrow> nat \<Rightarrow> bool" where
  "settled_signals user s s' i \<longleftrightarrow> carried user s s' \<and> signal_handler (curr s') = signal_handler (curr s) \<and> \<not> signal_is_checking (curr s') \<and>
     (\<forall>j. sigcount (curr s') j = (if i \<le> j \<and> j \<le> SIGNAL_MAX then min 0 (sigcount (curr s) j) else sigcount (curr s) j))"

lemma session_from:
  assumes user: "keeps_signals user"
  shows "i \<le> SIGNAL_MAX \<Longrightarrow> caught s \<Longrightarrow> length (pending s i) < n \<Longrightarrow>
    \<exists>log s'. session wrapper dflt cpu tpf user n (after_handler wrapper dflt cpu tpf i s) = Some (log, s') \<and>
      map fst log = pending s i \<and> (\<forall>(j, e) \<in> set log. entry_for wrapper s j e) \<and> settled_signals user s s' i"
proof (induction "SIGNAL_MAX - i + length (pending s i)" arbitrary: i s n rule: less_induct)
  case less
  obtain k where n: "n = Suc k" using less.prems(3) by (cases n) auto
  show ?case
  proof (cases "sigcount (curr s) i > 0")
    case True
    obtain a where a: "signal_handler (curr s) i = User_code a" using less.prems(1,2) True by (auto simp: caught_def)
    obtain e s1 where s1: "signal_iter wrapper dflt tpf i s = Some (Entered i e s1)" "aside s s1" "entry_for wrapper s i e"
      "sigcount (curr s1) = (sigcount (curr s))(i := sigcount (curr s) i - 1)" by (rule signal_iter_pending[OF True a])
    let ?s2 = "user i s1"
    have c2: "sigcount (curr ?s2) = sigcount (curr s1)" "signal_handler (curr ?s2) = signal_handler (curr s)"
      using user aside_handlers[OF s1(2)] by (simp_all add: keeps_signals_def)
    have a2: "carried user s ?s2" by (rule carried_trans[OF carried_aside[OF s1(2)] carried_user])
    have p2: "pending ?s2 (Suc i) = pending s (Suc i)" by (rule pending_cong) (simp add: c2 s1(4))
    have m: "nat (sigcount (curr s) i) = Suc (nat (sigcount (curr s) i - 1))" using True by simp
    have p: "pending s i = i # pending ?s2 i"
      unfolding pending_Cons[OF less.prems(1)] p2 by (simp add: c2 s1(4) m del: nat_diff_distrib')
    have "caught ?s2" using less.prems(2) by (auto simp: caught_def c2 s1(4))
    moreover have "length (pending ?s2 i) < k" using less.prems(3) p n by simp
    ultimately obtain log s' where l: "session wrapper dflt cpu tpf user k (after_handler wrapper dflt cpu tpf i ?s2) = Some (log, s')"
      "map fst log = pending ?s2 i" "\<forall>(j, e) \<in> set log. entry_for wrapper ?s2 j e" "settled_signals user ?s2 s' i"
      using less.hyps[of i ?s2 k] p less.prems(1) by auto
    have "after_handler wrapper dflt cpu tpf i s = Some (Entered i e s1)" by (simp add: after_handler_def s1(1))
    then have "session wrapper dflt cpu tpf user n (after_handler wrapper dflt cpu tpf i s) = Some ((i, e) # log, s')"
      using l(1) n by simp
    moreover have "entry_for wrapper ?s2 j e = entry_for wrapper s j e" for j e by (simp add: entry_for_def c2)
    moreover have "settled_signals user s s' i" using l(4) True less.prems(1) carried_trans[OF a2]
      by (auto simp: settled_signals_def c2 s1(4))
    ultimately show ?thesis using l(2,3) s1(3) p by (intro exI[of _ "(i, e) # log"] exI[of _ s']) auto
  next
    case False
    have it: "signal_iter wrapper dflt tpf i s = Some (Checked s)" using False by (simp add: signal_iter_def)
    have p: "pending s i = pending s (Suc i)" using pending_Cons[OF less.prems(1)] False by simp
    show ?thesis
    proof (cases "i = SIGNAL_MAX")
      case last: True
      let ?s' = "enable_interrupt (set_curr (\<lambda>x. x\<lparr>signal_is_checking := False\<rparr>) (disable_interrupt s))"
      have "after_handler wrapper dflt cpu tpf i s = Some (Checked ?s')" using it last by (simp add: after_handler_def)
      then have "session wrapper dflt cpu tpf user n (after_handler wrapper dflt cpu tpf i s) = Some ([], ?s')" using n by simp
      moreover have "pending s i = []" unfolding p by (simp add: pending_def last)
      moreover have "aside s ?s'"
        by (rule aside_trans[OF aside_sched aside_trans[OF aside_set_curr aside_sched], of "disable_interrupt s"]) simp_all
      then have "settled_signals user s ?s' i" using False last carried_aside by (auto simp: settled_signals_def curr_set_curr)
      ultimately show ?thesis by auto
    next
      case more: False
      then have i: "Suc i \<le> SIGNAL_MAX" using less.prems(1) by simp
      let ?s1 = "save_context cpu s"
      have "[i + 1..<SIGNAL_MAX + 1] = Suc i # [Suc i + 1..<SIGNAL_MAX + 1]" using i by (subst upt_rec) simp
      then have "after_handler wrapper dflt cpu tpf i s = after_handler wrapper dflt cpu tpf (Suc i) ?s1"
        using it by (simp add: after_handler_def del: upt_Suc split: option.split signal_outcome.split)
      moreover have ps: "pending ?s1 (Suc i) = pending s i" unfolding p by (rule pending_cong) (simp add: save_context_aside)
      moreover have "caught ?s1" using less.prems(2) aside_caught[OF save_context_aside(1,2)] by simp
      ultimately obtain log s' where l: "session wrapper dflt cpu tpf user n (after_handler wrapper dflt cpu tpf i s) = Some (log, s')"
        "map fst log = pending s i" "\<forall>(j, e) \<in> set log. entry_for wrapper ?s1 j e" "settled_signals user ?s1 s' (Suc i)"
      proof -
        have "SIGNAL_MAX - Suc i + length (pending ?s1 (Suc i)) < SIGNAL_MAX - i + length (pending s i)" using ps i by simp
        moreover have "length (pending ?s1 (Suc i)) < n" using ps less.prems(3) by simp
        ultimately show thesis using less.hyps[of "Suc i" ?s1 n] i \<open>caught ?s1\<close> that ps
          \<open>after_handler wrapper dflt cpu tpf i s = after_handler wrapper dflt cpu tpf (Suc i) ?s1\<close> by simp blast
      qed
      have "entry_for wrapper ?s1 j e = entry_for wrapper s j e" for j e
        using save_context_aside(1)[of s cpu] by (simp add: entry_for_def aside_def)
      moreover have "settled_signals user s s' i"
      proof -
        have "carried user s s'" using l(4) carried_trans[OF carried_aside[OF save_context_aside(1)]] by (auto simp: settled_signals_def)
        moreover have "signal_handler (curr s') = signal_handler (curr s)"
          using l(4) aside_handlers[OF save_context_aside(1)[of s cpu]] by (simp add: settled_signals_def)
        moreover have "Suc i \<le> j \<or> j < i \<or> j = i" for j by arith
        ultimately show ?thesis using l(4) False i by (fastforce simp: settled_signals_def save_context_aside)
      qed
      ultimately show ?thesis using l(1-3) by auto
    qed
  qed
qed

text \<open>C17: signal delivery.  Let no check be under way, every pending signal have a handler of the user,
  and every handler come back to the thread with the counts and handlers of its signals as they were (no
  signal for the thread arrives and no handler is registered meanwhile; otherwise a handler may do what
  it likes: be preempted, fork, open files, send signals to other threads).  Then the session that
  \<open>check_signal\<close> starts ends: the handlers are entered through the wrapper on the signal stack, signals in
  ascending order and each as often as it was pending; afterwards no signal is pending, the check flag
  is clear, and whatever the handlers keep true of the running thread's number, the run queue and the
  other threads has stayed true, so the kernel's own part changes none of them.\<close>

theorem signals_delivered:
  assumes "\<not> signal_is_checking (curr s)" "caught s" "keeps_signals user"
  shows "\<exists>log s'. session wrapper dflt cpu tpf user (Suc (length (pending s 0))) (check_signal wrapper dflt cpu tpf s) = Some (log, s') \<and>
    map fst log = pending s 0 \<and> (\<forall>(j, e) \<in> set log. entry_for wrapper s j e) \<and>
    (\<forall>j \<le> SIGNAL_MAX. sigcount (curr s') j \<le> 0) \<and> \<not> signal_is_checking (curr s') \<and>
    signal_handler (curr s') = signal_handler (curr s) \<and>
    (\<forall>I. (\<forall>i s. I (others s) \<longrightarrow> I (others (user i s))) \<longrightarrow> I (others s) \<longrightarrow> I (others s'))"
proof -
  let ?s1 = "enable_interrupt (set_curr (\<lambda>x. x\<lparr>signal_is_checking := True\<rparr>) (disable_interrupt s))"
  let ?s2 = "save_context cpu ?s1"
  have a1: "aside s ?s1"
    by (rule aside_trans[OF aside_sched aside_trans[OF aside_set_curr aside_sched], of "disable_interrupt s"]) simp_all
  have a2: "aside s ?s2" by (rule aside_trans[OF a1 save_context_aside(1)])
  have c2: "sigcount (curr ?s2) = sigcount (curr s)" by (simp add: save_context_aside curr_set_curr)
  have p: "pending ?s2 0 = pending s 0" by (rule pending_cong) (simp add: c2)
  have "[0..<SIGNAL_MAX + 1] = 0 # [0 + 1..<SIGNAL_MAX + 1]" by (subst upt_rec) simp
  then have "check_signal wrapper dflt cpu tpf s = after_handler wrapper dflt cpu tpf 0 ?s2"
    using assms(1) by (simp add: check_signal_def after_handler_def Let_def del: upt_Suc split: option.split signal_outcome.split)
  moreover have "caught ?s2" using assms(2) aside_caught[OF a2 c2] by simp
  ultimately obtain log s' where l: "session wrapper dflt cpu tpf user (Suc (length (pending s 0))) (check_signal wrapper dflt cpu tpf s) = Some (log, s')"
    "map fst log = pending s 0" "\<forall>(j, e) \<in> set log. entry_for wrapper ?s2 j e" "settled_signals user ?s2 s' 0"
    using session_from[of user 0 ?s2 "Suc (length (pending s 0))" wrapper dflt cpu tpf, OF assms(3)] p by auto
  have "entry_for wrapper ?s2 j e = entry_for wrapper s j e" for j e using a2 by (simp add: entry_for_def aside_def)
  moreover have "carried user s s'" using l(4) carried_trans[OF carried_aside[OF a2]] by (auto simp: settled_signals_def)
  moreover have "signal_handler (curr s') = signal_handler (curr s)" using l(4) aside_handlers[OF a2] by (simp add: settled_signals_def)
  ultimately show ?thesis using l unfolding carried_def by (intro exI[of _ log] exI[of _ s']) (auto simp: settled_signals_def)
qed

text \<open>Thread 0 with signal 3 pending twice and signal 5 once.\<close>

definition signal_kern :: kern where
  "signal_kern = boot_kern\<lparr>threads := \<lambda>i. blank_thread\<lparr>sigcount := (\<lambda>_. 0)(3 := 2, 5 := 1), signal_handler := (\<lambda>_. User_code 0x100)\<rparr>\<rparr>"

lemma signal_pending: "pending signal_kern 0 = [3, 3, 5]"
proof -
  have c: "sigcount (curr signal_kern) = (\<lambda>_. 0)(3 := 2, 5 := 1)" by (simp add: signal_kern_def curr_def)
  have z: "pending signal_kern 6 = []" by (auto simp: pending_def c simp del: upt_Suc)
  have i: "i < 6 \<Longrightarrow> pending signal_kern i = replicate (nat (sigcount (curr signal_kern) i)) i @ pending signal_kern (Suc i)" for i
    by (rule pending_Cons) (simp add: SIGNAL_MAX_def)
  show ?thesis using i[of 0] i[of 1] i[of 2] i[of 3] i[of 4] i[of 5] z
    by (simp add: c numeral_eq_Suc)
qed

theorem signals_delivered_witness:
  "\<exists>log s'. session 0 0 blank_ctx 0 (\<lambda>i s. s\<lparr>RQ_tail := Some i\<rparr>) 4 (check_signal 0 0 blank_ctx 0 signal_kern) = Some (log, s') \<and>
     map fst log = [3, 3, 5] \<and> sigcount (curr s') 3 \<le> 0"
proof -
  have k: "\<not> signal_is_checking (curr signal_kern)" "caught signal_kern"
    by (simp_all add: signal_kern_def curr_def blank_thread_def caught_def)
  have n: "Suc (length [3, 3, 5 :: nat]) = 4" by simp
  have u: "keeps_signals (\<lambda>i s. s\<lparr>RQ_tail := Some i\<rparr>)" by (simp add: keeps_signals_def curr_def)
  note signals_delivered[where user = "\<lambda>i s. s\<lparr>RQ_tail := Some i\<rparr>" and wrapper = 0 and dflt = 0 and cpu = blank_ctx and tpf = 0, OF k u,
      unfolded signal_pending n]
  then obtain log s' where "session 0 0 blank_ctx 0 (\<lambda>i s. s\<lparr>RQ_tail := Some i\<rparr>) 4 (check_signal 0 0 blank_ctx 0 signal_kern) = Some (log, s')"
    "map fst log = [3, 3, 5]" "\<forall>j \<le> SIGNAL_MAX. sigcount (curr s') j \<le> 0"
    by (elim exE conjE) (rule that)
  then show ?thesis by (intro exI[of _ log] exI[of _ s']) (simp add: SIGNAL_MAX_def del: session.simps)
qed

end
