(* ===== verification/Syscall_Props.thy ===== *)
theory Syscall_Props
  imports Fs_Props Signal_Props
begin

text \<open>
  The system calls on files and processes, each with a witness.
\<close>

section \<open>Descriptors\<close>

lemma same_con: "same_but_con s s' \<Longrightarrow> \<exists>c. s' = s\<lparr>con := c\<rparr>"
  by (auto simp: same_but_con_def)

lemma con_upd [simp]:
  "curr (s\<lparr>con := c\<rparr>) = curr s" "user_text p (s\<lparr>con := c\<rparr>) = user_text p s" "user_path p (s\<lparr>con := c\<rparr>) = user_path p s"
  "free_fd (s\<lparr>con := c\<rparr>) = free_fd s"
  proof -
  show c: "curr (s\<lparr>con := c\<rparr>) = curr s" by (simp add: curr_def)
  show t: "user_text p (s\<lparr>con := c\<rparr>) = user_text p s" by (simp add: user_text_def)
  show "user_path p (s\<lparr>con := c\<rparr>) = user_path p s" unfolding user_path_def c t ..
  show "free_fd (s\<lparr>con := c\<rparr>) = free_fd s" unfolding free_fd_def c ..
qed

lemma klog_con: "\<exists>c. klog m s = s\<lparr>con := c\<rparr>" "\<exists>c. klog_hex w s = s\<lparr>con := c\<rparr>"
  using klog_same same_con by blast+

lemma klog_user_total:
  assumes "user_text p s = Some t" "CHR 0x25 \<notin> set t" "length t \<le> 240"
  shows "\<exists>c. klog_user p s = Some (s\<lparr>con := c\<rparr>)"
  using klog_text_ok[of t s] assms by (auto simp: klog_user_def same_but_con_def)

text \<open>An argument that the kernel can print and resolve.\<close>

definition path_arg :: "kern \<Rightarrow> addr \<Rightarrow> string \<Rightarrow> bool" where
  "path_arg s p path \<longleftrightarrow> (\<exists>t. user_text p s = Some t \<and> CHR 0x25 \<notin> set t \<and> length t \<le> 240) \<and> user_path p s = Some path"

lemma xarg_ret [simp]: "xarg tpf 0 (ret tpf v s) = v"
  by (simp add: xarg_def ret_def)

lemma ret_upd [simp]:
  "mem (ret tpf v s) = mem s" "files (ret tpf v s) = files s" "fs_part (ret tpf v s) = fs_part s" "bytes (ret tpf v s) = bytes s"
  "curr_thread (ret tpf v s) = curr_thread s" "threads (ret tpf v s) = threads s" "curr (ret tpf v s) = curr s" "con (ret tpf v s) = con s"
  by (simp_all add: ret_def fs_part_def curr_def)

lemma set_fd_upd [simp]:
  "mem (set_fd i f s) = mem s" "files (set_fd i f s) = files s" "fs_part (set_fd i f s) = fs_part s"
  "curr (set_fd i f s) = (curr s)\<lparr>fd_table := (fd_table (curr s))(i := f)\<rparr>"
  by (simp_all add: set_fd_def curr_set_curr) (simp_all add: set_curr_def set_thread_def fs_part_def)

lemma sys_open_spec:
  assumes ok: "heap_ok s" "roomy (Suc k) s" and a: "path_arg s pathname (render p)" and v: "view s p = Some v" "path_ok p"
    "f_ops (vnodes s v) = Tmpfs_file_ops" and i: "free_fd s = Some i"
  obtains s1 fh where "sys_open tpf pathname flags s = Some s1" "xarg tpf 0 s1 = of_nat i" "heap_ok s1" "fh \<notin> kblocks s"
    "kblocks s1 = insert fh (kblocks s)" "curr s1 = (curr s)\<lparr>fd_table := (fd_table (curr s))(i := Some fh)\<rparr>" "fs_part s1 = fs_part s"
    "files s1 = (files s)(fh := \<lparr>f_vnode = v, f_pos = 0, fh_ops = Tmpfs_file_ops, f_flags = flags\<rparr>)" "roomy k s1"
proof -
  obtain t where t: "user_text pathname s = Some t" "CHR 0x25 \<notin> set t" "length t \<le> 240" "user_path pathname s = Some (render p)"
    using a by (auto simp: path_arg_def)
  obtain c0 where c0: "klog ''[syscall] call \"open\" syscall with pathname '' s = s\<lparr>con := c0\<rparr>" using klog_con by blast
  obtain c1 where c1: "klog_user pathname (s\<lparr>con := c0\<rparr>) = Some (s\<lparr>con := c1\<rparr>)"
    using klog_user_total[of pathname "s\<lparr>con := c0\<rparr>"] t by auto
  obtain c2 where c2: "klog '' and flags '' (s\<lparr>con := c1\<rparr>) = s\<lparr>con := c2\<rparr>" using klog_con(1)[of _ "s\<lparr>con := c1\<rparr>"] by auto
  obtain c3 where c3: "klog_hex (scast flags) (s\<lparr>con := c2\<rparr>) = s\<lparr>con := c3\<rparr>" using klog_con(2)[of _ "s\<lparr>con := c2\<rparr>"] by auto
  obtain c4 where c4: "klog crnl (s\<lparr>con := c3\<rparr>) = s\<lparr>con := c4\<rparr>" using klog_con(1)[of _ "s\<lparr>con := c3\<rparr>"] by auto
  let ?s = "s\<lparr>con := c4\<rparr>"
  have m: "mem ?s = mem s" and fp: "fs_part ?s = fs_part s" by (simp_all add: fs_part_def)
  have h: "heap_ok ?s" "roomy (Suc k) ?s" "kblocks ?s = kblocks s" using ok heap_cong[OF m] by (simp_all add: roomy_def)
  have fo: "f_ops (vnodes ?s v) = Tmpfs_file_ops" using v(3) by simp
  obtain s3 fh where s3: "open_node v flags ?s = Some (s3, Some fh)" "heap_ok s3"
    "fh \<notin> kblocks s" "kblocks s3 = insert fh (kblocks s)" "fs_part s3 = fs_part s"
    "files s3 = (files s)(fh := \<lparr>f_vnode = v, f_pos = 0, fh_ops = Tmpfs_file_ops, f_flags = flags\<rparr>)" "roomy k s3"
    by (rule open_node_tmpfs[OF h(1) fo h(2), of flags]) (use h(3) fp in simp_all)
  have "view ?s p = Some v" using fs_part_walk(2)[OF fp] v(1) by simp
  then have vo: "vfs_open (render p) flags ?s = Some (s3, Some fh)" using s3(1) vfs_lookup_view[OF _ v(2)] by (simp add: vfs_open_def)
  have cu: "curr s3 = curr s" using curr_sched[OF vfs_open_sched[OF vo]] by simp
  have fd: "free_fd ?s = Some i" "user_path pathname ?s = Some (render p)" using i t(4) by simp_all
  let ?s4 = "ret tpf (of_nat i) (set_fd i (Some fh) s3)"
  have r: "sys_open tpf pathname flags s = Some ?s4"
    using fd vo by (simp add: sys_open_def c0 c1 c2 c3 c4 Let_def)
  have m4: "mem ?s4 = mem s3" by simp
  show thesis
    by (rule that[OF r]) (use s3 cu heap_cong[OF m4] in \<open>simp_all add: roomy_def\<close>)
qed

lemma sys_close_spec:
  assumes ok: "heap_ok s" and f: "fd_table (curr s) i = Some fh" "i \<le> MAX_FD" "fh \<in> kblocks s" "fh_ops (files s fh) = Tmpfs_file_ops"
  obtains s1 where "sys_close tpf (int i) s = Some s1" "xarg tpf 0 s1 = 0" "heap_ok s1" "kblocks s1 = kblocks s - {fh}"
    "curr s1 = (curr s)\<lparr>fd_table := (fd_table (curr s))(i := None)\<rparr>" "fs_part s1 = fs_part s" "files s1 = files s"
proof -
  obtain c0 where c0: "klog ''[syscall] call \"close\" syscall with fd '' s = s\<lparr>con := c0\<rparr>" using klog_con by blast
  obtain c1 where c1: "klog_hex (of_int (int i)) (s\<lparr>con := c0\<rparr>) = s\<lparr>con := c1\<rparr>" using klog_con(2)[of _ "s\<lparr>con := c0\<rparr>"] by auto
  obtain c2 where c2: "klog crnl (s\<lparr>con := c1\<rparr>) = s\<lparr>con := c2\<rparr>" using klog_con(1)[of _ "s\<lparr>con := c1\<rparr>"] by auto
  let ?s = "s\<lparr>con := c2\<rparr>"
  have m: "mem ?s = mem s" by simp
  have h: "heap_ok ?s" "fh \<in> kblocks ?s" using ok f(3) heap_cong[OF m] by simp_all
  obtain s2 where s2: "krelease fh ?s = Some s2" "heap_ok s2" "kblocks s2 = kblocks ?s - {fh}" "quiet s2 = quiet ?s"
    by (rule krelease_spec[OF h])
  have "vfs_close fh ?s = Some s2" using s2(1) f(4) by (simp add: vfs_close_def ops_table_def tmpfs_close_def)
  moreover have "fd_entry ?s (int i) = Some (Some fh)" using f(1,2) by (simp add: fd_entry_def)
  ultimately have r: "sys_close tpf (int i) s = Some (ret tpf 0 (set_fd i None s2))"
    using c1 by (simp add: sys_close_def c0 c2 Let_def)
  have cu: "curr s2 = curr s" using curr_sched[OF sched_quiet[OF s2(4)]] by simp
  have fp: "fs_part s2 = fs_part s" using fs_part_quiet[OF s2(4)] by (simp add: fs_part_def)
  have fl: "files s2 = files s" using quietD(17)[OF s2(4)] by simp
  have m4: "mem (ret tpf 0 (set_fd i None s2)) = mem s2" by simp
  show thesis
    by (rule that[OF r]) (use s2 cu fp fl heap_cong[OF m4] heap_cong[OF m] in simp_all)
qed

text \<open>C14: \<open>open\<close> and \<open>close\<close>.  Take an argument of at most 240 characters without \<open>%\<close> whose absolute path
  (shorter than 255 characters, components of at most 15) names a node with the file operations of the
  in-memory file system, one free frame and a free descriptor below \<open>MAX_FD\<close>.  \<open>open\<close> returns the lowest
  free descriptor, which refers to a new handle on that node at position 0; \<open>close\<close> of it returns 0, and
  then descriptors, allocated blocks, all other handles, the names, types, sizes, data and entries of
  all nodes and every byte of memory are what they were before.\<close>

theorem open_close_roundtrip:
  assumes "heap_ok s" "roomy 1 s" "path_arg s pathname (render p)" "view s p = Some v" "path_ok p"
    "f_ops (vnodes s v) = Tmpfs_file_ops" "free_fd s = Some i"
  shows "\<exists>s1 s2 fh. sys_open tpf pathname flags s = Some s1 \<and> xarg tpf 0 s1 = of_nat i \<and>
    fd_table (curr s) i = None \<and> (\<forall>j < i. fd_table (curr s) j \<noteq> None) \<and> fd_table (curr s1) = (fd_table (curr s))(i := Some fh) \<and>
    files s1 fh = \<lparr>f_vnode = v, f_pos = 0, fh_ops = Tmpfs_file_ops, f_flags = flags\<rparr> \<and> fh \<notin> kblocks s \<and>
    sys_close tpf (int i) s1 = Some s2 \<and> xarg tpf 0 s2 = 0 \<and> fd_table (curr s2) = fd_table (curr s) \<and>
    kblocks s2 = kblocks s \<and> view s2 = view s \<and> vnodes s2 = vnodes s \<and> inodes s2 = inodes s \<and> rinodes s2 = rinodes s \<and>
    mounts s2 = mounts s \<and> rootfs s2 = rootfs s \<and> bytes s2 = bytes s \<and> (\<forall>h. h \<noteq> fh \<longrightarrow> files s2 h = files s h)"
proof -
  have rm: "roomy (Suc 0) s" using assms(2) by simp
  obtain s1 fh where s1: "sys_open tpf pathname flags s = Some s1" "xarg tpf 0 s1 = of_nat i" "heap_ok s1" "fh \<notin> kblocks s"
    "kblocks s1 = insert fh (kblocks s)" "curr s1 = (curr s)\<lparr>fd_table := (fd_table (curr s))(i := Some fh)\<rparr>" "fs_part s1 = fs_part s"
    "files s1 = (files s)(fh := \<lparr>f_vnode = v, f_pos = 0, fh_ops = Tmpfs_file_ops, f_flags = flags\<rparr>)"
    by (rule sys_open_spec[OF assms(1) rm assms(3-7)])
  have i: "i < MAX_FD" "fd_table (curr s) i = None" "\<forall>j < i. fd_table (curr s) j \<noteq> None"
    using assms(7) by (auto simp: free_fd_def find_Some_iff simp del: upt_Suc)
  obtain s2 where s2: "sys_close tpf (int i) s1 = Some s2" "xarg tpf 0 s2 = 0" "kblocks s2 = kblocks s1 - {fh}"
    "curr s2 = (curr s1)\<lparr>fd_table := (fd_table (curr s1))(i := None)\<rparr>" "fs_part s2 = fs_part s1" "files s2 = files s1"
    by (rule sys_close_spec[OF s1(3), of i fh]) (use s1(5,6,8) i(1) in simp_all)
  have "view s2 = view s" using fs_part_walk(2)[of s2 s] s2(5) s1(7) by simp
  moreover have "fd_table (curr s2) = fd_table (curr s)" using s2(4) s1(6) i(2) by auto
  moreover have "kblocks s2 = kblocks s" using s2(3) s1(4,5) by auto
  moreover note fs_partD[OF trans[OF s2(5) s1(7)]]
  moreover have "\<forall>h. h \<noteq> fh \<longrightarrow> files s2 h = files s h" using s2(6) s1(8) by simp
  ultimately show ?thesis using s1 s2(1,2) i(2,3) by (intro exI[of _ s1] exI[of _ s2] exI[of _ fh]) simp
qed

text \<open>A kernel with the file \<open>/notes\<close>, and a user's memory that holds this path at \<open>0x1000\<close>.\<close>

definition notes_mem :: Cstring.mem where
  "notes_mem = (\<lambda>_. 0)(0x1000 := 0x2f, 0x1001 := 0x6e, 0x1002 := 0x6f, 0x1003 := 0x74, 0x1004 := 0x65, 0x1005 := 0x73)"

lemma notes_kern:
  obtains s v where "heap_ok s" "roomy 800 s" "view s [''notes''] = Some v" "f_ops (vnodes s v) = Tmpfs_file_ops"
    "curr s = blank_thread" "bytes s = notes_mem" "path_ok [''notes'']"
    "i_data (inode_of s v) \<in> kblocks s"
proof -
  obtain s d where s: "fs_ok s {d}" "view s = [[] \<mapsto> d]" "roomy 900 s" "bytes s = notes_mem"
    "v_ops (vnodes s d) = Tmpfs_vnode_ops" "i_type (inode_of s d) = dir_t" "i_entry (inode_of s d) = (\<lambda>_. None)"
    by (rule root_kern_bytes[of notes_mem])
  have g: "good_name ''notes''" by (simp add: good_name_def MAX_FILE_NAME_def)
  have p: "view s [] = Some d" using s(2) by simp
  have rm: "roomy (4 + 800) s" using s(3) by (simp add: roomy_def)
  obtain s1 fh v i dat where a: "vfs_open (render ([] @ [''notes''])) O_CREAT s = Some (s1, Some fh)" "fs_ok s1 (insert v {d})" "roomy 800 s1"
    "view s1 = (view s)([] @ [''notes''] \<mapsto> v)" "vnodes s1 v = new_vnode Tmpfs_vnode_ops Tmpfs_file_ops i" "bytes s1 = bytes s"
    "inode_of s1 v = (empty_inode file_t)\<lparr>i_data := dat, i_name := ''notes''\<rparr>" "dat \<in> kblocks s1"
    by (rule creat_step[OF s(1) p root_path root_can_add[OF s(5-7) g] rm, of O_CREAT])
      (auto simp: render_def MAX_PATH_NAME_def O_CREAT_def)
  let ?s = "s1\<lparr>threads := \<lambda>_. blank_thread\<rparr>"
  have m: "mem ?s = mem s1" and fp: "fs_part ?s = fs_part s1" by (simp_all add: fs_part_def)
  have "heap_ok ?s" "roomy 800 ?s" using a(2,3) heap_cong[OF m] by (simp_all add: fs_ok_def roomy_def)
  moreover have "view ?s [''notes''] = Some v" using fs_part_walk(2)[OF fp] a(4) by simp
  moreover have "path_ok [''notes'']"
    by (simp add: path_ok_def plain_def short_def render_def MAX_PATH_NAME_def MAX_FILE_NAME_def)
  moreover have "i_data (inode_of ?s v) \<in> kblocks ?s" using a(7,8) heap_cong[OF m] fs_partD(8)[OF fp] by simp
  ultimately show thesis using that[of ?s v] a(5,6) s(4) by (simp add: curr_def new_vnode_def)
qed

lemma notes_arg:
  assumes "curr s = blank_thread" "bytes s = notes_mem"
  shows "path_arg s 0x1000 (render [''notes''])" "free_fd s = Some 0"
proof -
  have "get_text notes_mem 0x1000 = Some [0x2f, 0x6e, 0x6f, 0x74, 0x65, 0x73]"
  proof -
    have "notes_mem 0x1000 = 0x2f" "notes_mem 0x1001 = 0x6e" "notes_mem 0x1002 = 0x6f" "notes_mem 0x1003 = 0x74"
      "notes_mem 0x1004 = 0x65" "notes_mem 0x1005 = 0x73" "notes_mem 0x1006 = 0" by (simp_all add: notes_mem_def)
    then show ?thesis by (simp add: get_text.simps[of notes_mem])
  qed
  then have t: "user_text 0x1000 s = Some ''/notes''" by (simp add: user_text_def assms(2)) code_simp
  have "get_absolute_path ''/notes'' ''/'' = Some ''/notes''" by code_simp
  then show "path_arg s 0x1000 (render [''notes''])" using t by (simp add: path_arg_def user_path_def assms(1) render_def MAX_PATH_NAME_def blank_thread_def)
  show "free_fd s = Some 0" unfolding free_fd_def by (rule find_upt) (simp_all add: assms(1) blank_thread_def MAX_FD_def)
qed

theorem open_close_roundtrip_witness:
  "\<exists>s s1 s2. sys_open 0x80 0x1000 0 s = Some s1 \<and> xarg 0x80 0 s1 = 0 \<and> fd_table (curr s1) 0 \<noteq> None \<and>
     sys_close 0x80 0 s1 = Some s2 \<and> kblocks s2 = kblocks s \<and> fd_table (curr s2) 0 = None"
proof -
  obtain s v where s: "heap_ok s" "roomy 800 s" "view s [''notes''] = Some v" "f_ops (vnodes s v) = Tmpfs_file_ops"
    "curr s = blank_thread" "bytes s = notes_mem" "path_ok [''notes'']" by (rule notes_kern)
  have rm: "roomy 1 s" using s(2) by (simp add: roomy_def)
  from open_close_roundtrip[OF s(1) rm notes_arg(1)[OF s(5,6)] s(3,7,4) notes_arg(2)[OF s(5,6)], of 128 0] obtain s1 s2 fh where
    "sys_open 128 0x1000 0 s = Some s1" "xarg 128 0 s1 = of_nat 0" "fd_table (curr s1) = (fd_table (curr s))(0 := Some fh)"
    "sys_close 128 (int 0) s1 = Some s2" "fd_table (curr s2) = fd_table (curr s)" "kblocks s2 = kblocks s" by blast
  then show ?thesis using s(5) by (intro exI[of _ s] exI[of _ s1] exI[of _ s2]) (simp add: blank_thread_def)
qed

lemma path_arg_cong:
  assumes "bytes s' = bytes s" "curr_working_dir (curr s') = curr_working_dir (curr s)"
  shows "path_arg s' p q = path_arg s p q"
proof -
  have t: "user_text p s' = user_text p s" using assms(1) by (simp add: user_text_def)
  show ?thesis unfolding path_arg_def user_path_def t assms(2) ..
qed

lemma return_length: "unat (n :: 64 word) \<le> 4096 \<Longrightarrow> scast (ucast n :: 32 word) = n"
proof -
  assume n: "unat n \<le> 4096"
  have "take_bit 13 n = n"
    by (rule iffD1[OF word_unat_eq_iff[symmetric]]) (use n in \<open>simp add: unsigned_take_bit_eq take_bit_nat_eq_self\<close>)
  then have "\<not> bit n k" if "13 \<le> k" for k using that by (metis bit_take_bit_iff not_less)
  then show ?thesis by (intro bit_word_eqI) (auto simp: bit_simps min_def not_le)
qed

text \<open>Reading and writing at the start of a file in memory.\<close>

lemma sys_write_spec:
  assumes "fd_table (curr s) i = Some f" "i \<le> MAX_FD"
    and h: "files s f = \<lparr>f_vnode = v, f_pos = 0, fh_ops = Tmpfs_file_ops, f_flags = flags\<rparr>"
    and sep: "range_of (i_data (inode_of s v)) 4096 \<inter> range_of buf (unat len) = {}" and len: "unat len \<le> 4096"
  obtains s' where "sys_write tpf (int i) buf len s = Some s'" "xarg tpf 0 s' = len" "curr s' = curr s"
    "files s' = (files s)(f := (files s f)\<lparr>f_pos := len\<rparr>)" "i_data (inode_of s' v) = i_data (inode_of s v)"
    "i_datasize (inode_of s' v) = max (i_datasize (inode_of s v)) len"
    "\<forall>k < unat len. bytes s' (i_data (inode_of s v) + of_nat k) = bytes s (buf + of_nat k)"
proof -
  have "range_of (i_data (inode_of s (f_vnode (files s f)))) 4096 \<inter> range_of buf (unat len) = {}" using sep h by simp
  moreover have "unat (f_pos (files s f)) + unat len \<le> 4096" using len h by simp
  ultimately obtain s1 where w: "tmpfs_write f buf len s = (s1, ucast len)"
    "files s1 = (files s)(f := (files s f)\<lparr>f_pos := f_pos (files s f) + len\<rparr>)"
    "\<forall>k < unat len. bytes s1 (i_data (inode_of s (f_vnode (files s f))) + f_pos (files s f) + of_nat k) = bytes s (buf + of_nat k)"
    "i_data (inode_of s1 (f_vnode (files s f))) = i_data (inode_of s (f_vnode (files s f)))"
    "i_datasize (inode_of s1 (f_vnode (files s f))) = max (i_datasize (inode_of s (f_vnode (files s f)))) (f_pos (files s f) + len)"
    by (rule write_step)
  have vw: "vfs_write f buf len s = Some (s1, ucast len)" using w(1) h by (simp add: vfs_write_def ops_table_def)
  have "sys_write tpf (int i) buf len s = Some (ret tpf len s1)"
    using assms(1,2) vw return_length[OF len] by (simp add: sys_write_def fd_entry_def)
  moreover have "curr (ret tpf len s1) = curr s" using curr_sched[OF vfs_write_sched[OF vw]] by simp
  moreover have "inode_of (ret tpf len s1) = inode_of s1" by (simp add: inode_of_def[abs_def] ret_def)
  ultimately show thesis using that[of "ret tpf len s1"] w(2-5) h by simp
qed

lemma sys_read_spec:
  assumes "fd_table (curr s) i = Some f" "i \<le> MAX_FD"
    and h: "files s f = \<lparr>f_vnode = v, f_pos = 0, fh_ops = Tmpfs_file_ops, f_flags = flags\<rparr>"
    and sep: "range_of (i_data (inode_of s v)) 4096 \<inter> range_of out (unat len) = {}" and len: "unat len \<le> 4096" "len \<le> i_datasize (inode_of s v)"
  obtains s' where "sys_read tpf (int i) out len s = Some s'" "xarg tpf 0 s' = len" "files s' = (files s)(f := (files s f)\<lparr>f_pos := len\<rparr>)"
    "\<forall>k < unat len. bytes s' (out + of_nat k) = bytes s (i_data (inode_of s v) + of_nat k)"
proof -
  have "range_of (i_data (inode_of s (f_vnode (files s f)))) 4096 \<inter> range_of out (unat len) = {}" using sep h by simp
  moreover have "unat (f_pos (files s f)) + unat len \<le> 4096" using len h by simp
  moreover have "f_pos (files s f) + len \<le> i_datasize (inode_of s (f_vnode (files s f)))" using len h by simp
  ultimately obtain s1 where r: "tmpfs_read f out len s = (s1, ucast len)"
    "\<forall>k < unat len. bytes s1 (out + of_nat k) = bytes s (i_data (inode_of s (f_vnode (files s f))) + f_pos (files s f) + of_nat k)"
    "files s1 = (files s)(f := (files s f)\<lparr>f_pos := f_pos (files s f) + len\<rparr>)"
    by (rule read_step) blast
  have "vfs_read f out len s = Some (s1, ucast len)" using r(1) h by (simp add: vfs_read_def ops_table_def)
  then have "sys_read tpf (int i) out len s = Some (ret tpf len s1)"
    using assms(1,2) return_length[OF len(1)] by (simp add: sys_read_def fd_entry_def)
  then show thesis using that[of "ret tpf len s1"] r(2,3) h by simp
qed

text \<open>C16: two descriptors of a file of the in-memory file system show the same bytes.  Take a path
  argument as for \<open>open_close_roundtrip\<close>, two free frames, two free descriptors, \<open>len\<close> of at most 4096, and
  two buffers apart from the file's data page.  Opening the path twice gives the two lowest free
  descriptors, with different handles; \<open>len\<close> bytes written through the first are what reading \<open>len\<close> bytes
  through the second gives, both calls return \<open>len\<close>, and each handle has its own position: the write
  moves the first from 0 to \<open>len\<close> and not the second, the read the second and not the first.\<close>

theorem descriptors_share_file:
  assumes "heap_ok s" "roomy 2 s" "path_arg s pathname (render p)" "view s p = Some v" "path_ok p"
    "f_ops (vnodes s v) = Tmpfs_file_ops" "free_fd s = Some i"
    and j: "i < j" "j < MAX_FD" "fd_table (curr s) j = None" "\<forall>k. i < k \<and> k < j \<longrightarrow> fd_table (curr s) k \<noteq> None"
    and sep: "range_of (i_data (inode_of s v)) 4096 \<inter> (range_of buf (unat len) \<union> range_of out (unat len)) = {}" and len: "unat len \<le> 4096"
  shows "\<exists>s1 s2 s3 s4 f1 f2. sys_open tpf pathname flags s = Some s1 \<and> xarg tpf 0 s1 = of_nat i \<and>
    sys_open tpf pathname flags s1 = Some s2 \<and> xarg tpf 0 s2 = of_nat j \<and>
    fd_table (curr s2) i = Some f1 \<and> fd_table (curr s2) j = Some f2 \<and> f1 \<noteq> f2 \<and>
    sys_write tpf (int i) buf len s2 = Some s3 \<and> xarg tpf 0 s3 = len \<and> f_pos (files s3 f1) = len \<and> f_pos (files s3 f2) = 0 \<and>
    sys_read tpf (int j) out len s3 = Some s4 \<and> xarg tpf 0 s4 = len \<and> f_pos (files s4 f1) = len \<and> f_pos (files s4 f2) = len \<and>
    (\<forall>k < unat len. bytes s4 (out + of_nat k) = bytes s (buf + of_nat k))"
proof -
  have rm: "roomy (Suc 1) s" using assms(2) by (simp add: numeral_2_eq_2)
  obtain s1 f1 where s1: "sys_open tpf pathname flags s = Some s1" "xarg tpf 0 s1 = of_nat i" "heap_ok s1" "f1 \<notin> kblocks s"
    "kblocks s1 = insert f1 (kblocks s)" "curr s1 = (curr s)\<lparr>fd_table := (fd_table (curr s))(i := Some f1)\<rparr>" "fs_part s1 = fs_part s"
    "files s1 = (files s)(f1 := \<lparr>f_vnode = v, f_pos = 0, fh_ops = Tmpfs_file_ops, f_flags = flags\<rparr>)" "roomy 1 s1"
    by (rule sys_open_spec[OF assms(1) rm assms(3-7)])
  note p1 = fs_partD[OF s1(7)]
  have i: "i < MAX_FD" "\<forall>k < i. fd_table (curr s) k \<noteq> None"
    using assms(7) by (auto simp: free_fd_def find_Some_iff simp del: upt_Suc)
  have a1: "path_arg s1 pathname (render p)" using path_arg_cong[of s1 s] p1(6) s1(6) assms(3) by simp
  have v1: "view s1 p = Some v" "f_ops (vnodes s1 v) = Tmpfs_file_ops" using fs_part_walk(2)[OF s1(7)] assms(4,6) p1(1) by simp_all
  have "free_fd s1 = Some j" unfolding free_fd_def
  proof (rule find_upt[OF j(2)])
    show "fd_table (curr s1) j = None" using s1(6) j(1,3) by simp
    show "\<forall>k < j. fd_table (curr s1) k \<noteq> None"
    proof (intro allI impI)
      fix k assume "k < j"
      then consider "k < i" | "k = i" | "i < k" "k < j" by linarith
      then show "fd_table (curr s1) k \<noteq> None" using s1(6) i(2) j(4) by cases auto
    qed
  qed
  moreover have rm1: "roomy (Suc 0) s1" using s1(9) by simp
  ultimately obtain s2 f2 where s2: "sys_open tpf pathname flags s1 = Some s2" "xarg tpf 0 s2 = of_nat j" "f2 \<notin> kblocks s1"
    "curr s2 = (curr s1)\<lparr>fd_table := (fd_table (curr s1))(j := Some f2)\<rparr>" "fs_part s2 = fs_part s1"
    "files s2 = (files s1)(f2 := \<lparr>f_vnode = v, f_pos = 0, fh_ops = Tmpfs_file_ops, f_flags = flags\<rparr>)"
    using sys_open_spec[OF s1(3) _ a1 v1(1) assms(5) v1(2)] by metis
  note p2 = fs_partD[OF s2(5)]
  have ne: "f2 \<noteq> f1" using s2(3) s1(5) by auto
  have h1: "files s2 f1 = \<lparr>f_vnode = v, f_pos = 0, fh_ops = Tmpfs_file_ops, f_flags = flags\<rparr>"
    "files s2 f2 = \<lparr>f_vnode = v, f_pos = 0, fh_ops = Tmpfs_file_ops, f_flags = flags\<rparr>" using s2(6) s1(8) ne by simp_all
  have ino: "inode_of s2 = inode_of s" "bytes s2 = bytes s" using p1 p2 by simp_all
  have fd: "fd_table (curr s2) i = Some f1" "fd_table (curr s2) j = Some f2" using s2(4) s1(6) j(1) by simp_all
  obtain s3 where s3: "sys_write tpf (int i) buf len s2 = Some s3" "xarg tpf 0 s3 = len" "curr s3 = curr s2"
    "files s3 = (files s2)(f1 := (files s2 f1)\<lparr>f_pos := len\<rparr>)" "i_data (inode_of s3 v) = i_data (inode_of s2 v)"
    "i_datasize (inode_of s3 v) = max (i_datasize (inode_of s2 v)) len"
    "\<forall>k < unat len. bytes s3 (i_data (inode_of s2 v) + of_nat k) = bytes s2 (buf + of_nat k)"
    by (rule sys_write_spec[OF fd(1) _ h1(1) _ len]) (use i(1) sep ino in auto)
  have h3: "files s3 f2 = \<lparr>f_vnode = v, f_pos = 0, fh_ops = Tmpfs_file_ops, f_flags = flags\<rparr>" using s3(4) h1(2) ne by simp
  have fd3: "fd_table (curr s3) j = Some f2" using fd(2) s3(3) by simp
  obtain s4 where "sys_read tpf (int j) out len s3 = Some s4" "xarg tpf 0 s4 = len"
    "files s4 = (files s3)(f2 := (files s3 f2)\<lparr>f_pos := len\<rparr>)"
    "\<forall>k < unat len. bytes s4 (out + of_nat k) = bytes s3 (i_data (inode_of s3 v) + of_nat k)"
    by (rule sys_read_spec[OF fd3 _ h3 _ len, where out = out and tpf = tpf]) (use j(2) sep ino s3(5,6) in auto)
  then show ?thesis using s1(1,2) s2(1,2) s3(1,2,4,5,7) ino fd ne h1 h3
    by (intro exI[of _ s1] exI[of _ s2] exI[of _ s3] exI[of _ s4] exI[of _ f1] exI[of _ f2]) simp
qed

theorem descriptors_share_file_witness:
  "\<exists>s s1 s2 s3 s4. sys_open 0x80 0x1000 0 s = Some s1 \<and> sys_open 0x80 0x1000 0 s1 = Some s2 \<and> xarg 0x80 0 s2 = 1 \<and>
     sys_write 0x80 0 0x1000 6 s2 = Some s3 \<and> sys_read 0x80 1 0x2000 6 s3 = Some s4 \<and> bytes s4 (0x2000 + of_nat 5) = 0x73"
proof -
  obtain s0 v where s0: "heap_ok s0" "roomy 800 s0" "view s0 [''notes''] = Some v" "f_ops (vnodes s0 v) = Tmpfs_file_ops"
    "curr s0 = blank_thread" "bytes s0 = notes_mem" "path_ok [''notes'']" "i_data (inode_of s0 v) \<in> kblocks s0" by (rule notes_kern)
  note a = notes_arg[OF s0(5,6)]
  have rm: "roomy 2 s0" using s0(2) by (simp add: roomy_def)
  note hi = kblock_high[OF s0(8)]
  have sep: "range_of (i_data (inode_of s0 v)) 4096 \<inter> (range_of 0x1000 (unat (6 :: 64 word)) \<union> range_of 0x2000 (unat (6 :: 64 word))) = {}"
    using hi range_of_bounds[of _ "i_data (inode_of s0 v)" 4096] range_of_bounds[of _ 4096 6] range_of_bounds[of _ 8192 6] by fastforce
  have f: "fd_table (curr s0) k = None" for k using s0(5) by (simp add: blank_thread_def)
  from descriptors_share_file[OF s0(1) rm a(1) s0(3,7,4) a(2), of 1 4096 6 8192 128 0, OF _ _ f _ sep] obtain s1 s2 s3 s4 where
    r: "sys_open 128 0x1000 0 s0 = Some s1" "sys_open 128 0x1000 0 s1 = Some s2" "xarg 128 0 s2 = of_nat 1"
    "sys_write 128 (int 0) 0x1000 6 s2 = Some s3" "sys_read 128 (int 1) 0x2000 6 s3 = Some s4"
    "\<forall>k < unat (6 :: 64 word). bytes s4 (0x2000 + of_nat k) = bytes s0 (0x1000 + of_nat k)"
    by (auto simp: MAX_FD_def)
  have "bytes s4 (0x2000 + of_nat 5) = bytes s0 (0x1000 + of_nat 5)" using r(6) by (rule allE[of _ 5]) simp
  then have "bytes s4 (0x2000 + of_nat 5) = 0x73" by (simp add: s0(6) notes_mem_def)
  then show ?thesis using r(1-5) by (intro exI[of _ s0] exI[of _ s1] exI[of _ s2] exI[of _ s3] exI[of _ s4]) simp
qed

end
