(* ===== verification/Fork_Inv.thy ===== *)
theory Fork_Inv
  imports Syscall_Props
begin

text \<open>
  The parts of \<open>fork\<close>: the copy of an area into a new block, the loop over all of them, the copies
  of the open files, the new thread and the three areas that are not copied.
\<close>

section \<open>Blocks and byte ranges\<close>

lemma free_frames_finite: "finite (free_frames s)"
proof (rule finite_subset)
  show "free_frames s \<subseteq> (\<Union>i < TOTAL_FRAME. frames i (nat (bst s i)))"
    by (auto simp: free_frames_def gen_free_def heads_frames_def free_heads_def)
qed (simp add: frames_def)

lemma krelease_ample:
  assumes ok: "heap_ok s" and a: "a \<in> kblocks s" and k: "krelease a s = Some s'" and am: "ample r n s"
  shows "ample r n s'"
proof (cases "n = 0")
  case False
  have inv: "kmem_inv (mem s)" "buddy_inv (mem s)" using ok by (simp_all add: heap_ok_def kmem_inv_def)
  obtain i j where i: "a = index2address (of_nat i)" "i < TOTAL_FRAME" "i \<in> alloc_heads {} (mem s) j"
    "\<not> b_is_slab_page (buddy_frame_array (mem s) i)" "bst (mem s) i = ALLOCATED_FRAME"
    using a unfolding kblocks_def by (rule blocksE)
  have nz: "a \<noteq> 0" using kh.null_dead[OF ok] a by auto
  have "kfree a (mem s) = Some (mem s')" using k nz by (rule krelease_SomeD)
  then have m: "mem s' = buddy_free i (mem s)" using kfree_inside[OF i(2), of 0 "mem s"] i(1,4,5) by simp
  have "border (mem s) i = int j" using i(3) by (simp add: alloc_heads_def)
  then have ff: "free_frames (mem s') = free_frames (mem s) \<union> frames i j"
    using buddy_free_post[OF inv(2) i(2,5)] by (auto simp: free_post_def m)
  have c: "n \<le> card (runs r (free_frames (mem s)))" using am by (simp add: ample_def)
  then have fin: "finite (runs r (free_frames (mem s)))" using False by (metis card.infinite le_zero_eq)
  have sub: "runs r (free_frames (mem s)) \<subseteq> runs r (free_frames (mem s'))" using ff by (auto simp: runs_def)
  have "finite (free_frames (mem s'))" by (rule free_frames_finite)
  then have "card (runs r (free_frames (mem s))) \<le> card (runs r (free_frames (mem s')))" using sub by (intro card_mono runs_finite)
  then show ?thesis using c by (simp add: ample_def)
qed (simp add: ample_def)

lemma kextent_bound:
  assumes "heap_ok s" "a \<in> kblocks s" "x \<in> kextent s a"
  shows "x + 1 < 2 ^ 64"
proof -
  have sh: "shape_ok {} (mem s)" using assms(1) by (simp add: heap_ok_def kmem_inv_def buddy_inv_def gen_inv_def)
  obtain i k where i: "i \<in> alloc_heads {} (mem s) k" "block_extent (mem s) a = block_bytes i k"
    using assms(2) unfolding kblocks_def by (rule blocksE)
  have "block_ok (mem s) i k" using block_at_ok(2)[OF sh] i(1) by (auto simp: alloc_heads_def block_at_def)
  then have "i + 2 ^ k \<le> TOTAL_FRAME" by (simp add: block_ok_def)
  moreover have "x \<in> block_bytes i k" using assms(3) i(2) by (simp add: kextent_def)
  ultimately show ?thesis by (simp add: block_bytes_def FRAME_SIZE_def BUDDY_MEMORY_BASE_def TOTAL_FRAME_def)
qed

lemma range_in_extent:
  assumes "heap_ok s" "p \<in> kblocks s" "bytes_from p n \<subseteq> kextent s p" "a \<in> range_of p (unat n)"
  shows "unat a \<in> kextent s p"
proof -
  obtain i where i: "i < unat n" using assms(4) by (auto simp: range_of_iff)
  have "unat p + (unat n - 1) \<in> kextent s p" using assms(3) i by (auto simp: bytes_from_def)
  from kextent_bound[OF assms(1,2) this] i have "unat p + unat n < 2 ^ 64" by simp
  from range_of_bounds[OF assms(4) this] show ?thesis using assms(3) by (auto simp: bytes_from_def)
qed

lemma ranges_apart:
  assumes "heap_ok s" "p \<in> kblocks s" "bytes_from p n \<subseteq> kextent s p" "q \<in> kblocks s" "bytes_from q n \<subseteq> kextent s q" "p \<noteq> q"
  shows "range_of p (unat n) \<inter> range_of q (unat n) = {}"
  using range_in_extent[OF assms(1-3)] range_in_extent[OF assms(1,4,5)] kh.extent_disjoint[OF assms(1,2,4,6)] by blast

section \<open>Copying an area\<close>

definition area_bytes :: "vm_area_t \<Rightarrow> 32 word" where
  "area_bytes v = ucast (area_size v)"

text \<open>What \<open>fork\<close> copies: memory of its own blocks, of a size that can be allocated.\<close>

definition area_ok :: "nat \<Rightarrow> kern \<Rightarrow> addr set \<Rightarrow> vm_area_t \<Rightarrow> bool" where
  "area_ok r s P v \<longleftrightarrow> request_ok (area_bytes v) \<and> size2order (area_bytes v) \<le> r \<and> PHYS_TO_VIRT (phys_addr v) \<in> P \<and>
     bytes_from (PHYS_TO_VIRT (phys_addr v)) (area_bytes v) \<subseteq> kextent s (PHYS_TO_VIRT (phys_addr v))"

definition moved :: "vm_area_t \<Rightarrow> addr \<Rightarrow> vm_area_t" where
  "moved v p = area_rec (virt_addr v, area_size v, VIRT_TO_PHYS p, rwx v, True)"

definition with_copy :: "vm_area_t \<Rightarrow> addr \<Rightarrow> thread_t \<Rightarrow> thread_t" where
  "with_copy v p x = (if virt_addr v = USER_KERNEL_BASE then x\<lparr>t_data := p\<rparr>
     else if virt_addr v = USER_STACK_BASE - USTACK_SIZE then x\<lparr>user_sp := p\<rparr> else x)"

lemma with_copy_id: "virt_addr v \<noteq> USER_KERNEL_BASE \<Longrightarrow> virt_addr v \<noteq> USER_STACK_BASE - USTACK_SIZE \<Longrightarrow> with_copy v p x = x"
  by (simp add: with_copy_def)

text \<open>The block that the copy replaces.\<close>

definition replaced :: "vm_area_t \<Rightarrow> thread_t \<Rightarrow> addr option" where
  "replaced v x = (if virt_addr v = USER_KERNEL_BASE then Some (t_data x)
     else if virt_addr v = USER_STACK_BASE - USTACK_SIZE then Some (user_sp x) else None)"

lemma copy_area_alt:
  assumes "kept_area v" "knew (area_bytes v) s = Some (s1, p)" "add_area t (virt_addr v, area_size v, VIRT_TO_PHYS p, rwx v, True) s1 = Some s2"
  defines "s3 \<equiv> s2\<lparr>bytes := utils_memcpy p (PHYS_TO_VIRT (phys_addr v)) (area_bytes v) (bytes s2)\<rparr>"
  shows "copy_area t (x, v) s = (case replaced v (threads s2 t) of None \<Rightarrow> Some s3
     | Some q \<Rightarrow> map_option (set_thread (with_copy v p) t) (krelease q s3))"
  using assms by (simp add: copy_area_def area_bytes_def add_area_def replaced_def with_copy_def[abs_def] s3_def Let_def)

lemma quiet_bytes: "quiet (s\<lparr>threads := a, bytes := b\<rparr>) = (quiet s)\<lparr>threads := a, bytes := b\<rparr>"
  by (simp add: quiet_def)


lemma add_area_extent:
  assumes "add_area t x s = Some s'" "heap_ok s" "b \<in> kblocks s"
  shows "kextent s' b = kextent s b"
proof -
  obtain va sz pa perm al where x: "x = (va, sz, pa, perm, al)" by (cases x)
  obtain s1 n where "knew 56 s = Some (s1, n)" "mem s' = mem s1"
    using assms(1) by (auto simp: x add_area_def mmu_add_vma_def split: option.splits)
  then show ?thesis using knew_spec(8)[OF assms(2) request_56(1) _ assms(3)] heap_cong(3)[of s' s1] by simp
qed

lemma copy_area_spec:
  assumes ok: "heap_ok s" and am: "ample r (2 + k) s" "r \<le> MAX_ORDER" and v: "kept_area v" "area_ok r s P v" and P: "P \<subseteq> kblocks s"
    and old: "\<forall>q. replaced v (threads s t) = Some q \<longrightarrow> q \<in> kblocks s - P"
  obtains s' p a where "copy_area t (x, v) s = Some s'" "heap_ok s'" "ample r k s'" "p \<notin> kblocks s" "a \<notin> kblocks s" "a \<noteq> p"
    "kblocks s' = insert a (insert p (kblocks s)) - set_option (replaced v (threads s t))" "\<forall>b \<in> P. kextent s' b = kextent s b"
    "bytes_from p (area_bytes v) \<subseteq> kextent s' p" "\<forall>b. unat b \<notin> kextent s' p \<longrightarrow> bytes s' b = bytes s b"
    "\<forall>i < unat (area_bytes v). bytes s' (p + of_nat i) = bytes s (PHYS_TO_VIRT (phys_addr v) + of_nat i)"
    "threads s' = (threads s)(t := with_copy v p (with_areas [(a, moved v p)] (threads s t)))"
    "quiet (s'\<lparr>threads := threads s, bytes := bytes s\<rparr>) = quiet s"
proof -
  let ?n = "area_bytes v" and ?src = "PHYS_TO_VIRT (phys_addr v)"
  have n: "request_ok ?n" "size2order ?n \<le> r" "?src \<in> P" "bytes_from ?src ?n \<subseteq> kextent s ?src" using v(2) by (simp_all add: area_ok_def)
  have nz: "?n \<noteq> 0" using n(1) by (simp add: request_ok_def)
  have am1: "ample r (Suc (Suc k)) s" using am(1) by simp
  obtain s1 p where k1: "knew ?n s = Some (s1, p)" "ample r (Suc k) s1" by (rule knew_ample[OF ok nz n(2) am(2) am1 n(1)])
  note d1 = knew_spec[OF ok n(1) k1(1)]
  let ?ar = "(virt_addr v, area_size v, VIRT_TO_PHYS p, rwx v, True)"
  obtain s2 a where k2: "add_area t ?ar s1 = Some s2" "heap_ok s2" "ample r k s2" "a \<notin> kblocks s1" "kblocks s2 = insert a (kblocks s1)"
    "threads s2 = (threads s1)(t := with_areas [(a, area_rec ?ar)] (threads s1 t))" "quiet (s2\<lparr>threads := threads s1\<rparr>) = quiet s1"
    by (rule add_area_spec[OF d1(1) k1(2) am(2)])
  note e2 = add_area_extent[OF k2(1) d1(1)]
  define s3 where "s3 = s2\<lparr>bytes := utils_memcpy p ?src ?n (bytes s2)\<rparr>"
  have m3: "mem s3 = mem s2" by (simp add: s3_def)
  note h3 = heap_cong[OF m3]
  have th1: "threads s1 = threads s" "bytes s1 = bytes s" using quietD(11,16)[OF d1(5)] by simp_all
  have b2: "bytes s2 = bytes s" using quietD(16)[OF k2(7)] th1(2) by simp
  have srcn: "?src \<in> kblocks s" "p \<noteq> ?src" using n(3) P d1(3) by auto
  have in2: "p \<in> kblocks s2" "?src \<in> kblocks s2" "bytes_from p ?n \<subseteq> kextent s2 p" "bytes_from ?src ?n \<subseteq> kextent s2 ?src"
    using k2(5) d1(4,7) srcn e2[of p] e2[of ?src] d1(8)[OF srcn(1)] n(4) by auto
  have dis: "range_of p (unat ?n) \<inter> range_of ?src (unat ?n) = {}" by (rule ranges_apart[OF k2(2) in2(1,3,2,4) srcn(2)])
  have lt: "unat ?n < 2 ^ 64" using n(1) by (simp add: request_ok_def)
  have c3: "\<forall>i < unat ?n. bytes s3 (p + of_nat i) = bytes s (?src + of_nat i)"
    using copy_loop_disjoint[OF lt dis] b2 by (simp add: s3_def utils_memcpy_def)
  have o3: "\<forall>b. unat b \<notin> kextent s3 p \<longrightarrow> bytes s3 b = bytes s b"
    using copy_loop_other[of _ p "unat ?n"] range_in_extent[OF k2(2) in2(1,3)] b2 h3(3) by (auto simp: s3_def utils_memcpy_def)
  have ar: "area_rec ?ar = moved v p" by (simp add: moved_def)
  have t3: "threads s3 = (threads s)(t := with_areas [(a, moved v p)] (threads s t))" using k2(6) th1 ar by (simp add: s3_def)
  have rep: "replaced v (threads s2 t) = replaced v (threads s t)" using k2(6) th1 by (simp add: replaced_def with_areas_def)
  have q3: "quiet (s3\<lparr>threads := threads s, bytes := bytes s\<rparr>) = quiet s"
  proof -
    have "s3\<lparr>threads := threads s, bytes := bytes s\<rparr> = s2\<lparr>threads := threads s1\<rparr>" using b2 th1 by (simp add: s3_def)
    then show ?thesis using k2(7) d1(5) by simp
  qed
  have kb3: "kblocks s3 = insert a (insert p (kblocks s))" using h3(2) k2(5) d1(4) by simp
  have ap: "a \<notin> kblocks s" "a \<noteq> p" using k2(4) d1(4) by auto
  have x3: "\<forall>b \<in> P. kextent s3 b = kextent s b" using h3(3) e2 d1(4,8) P by auto
  have am3: "ample r k s3" using k2(3) m3 by (simp add: ample_def)
  note alt = copy_area_alt[OF v(1) k1(1) k2(1), of x, folded s3_def, unfolded rep]
  show thesis
  proof (cases "replaced v (threads s t)")
    case None
    then have "with_copy v p y = y" for y by (simp add: replaced_def with_copy_def split: if_splits)
    then show thesis
      using that[of s3 p a] alt None h3(1) k2(2) am3 d1(3) ap kb3 x3 in2(3) h3(3) o3 c3 t3 q3 by simp
  next
    case (Some q)
    then have q: "q \<in> kblocks s - P" using old by blast
    have q': "q \<in> kblocks s3" "q \<noteq> p" using q kb3 d1(3) by auto
    have ok3: "heap_ok s3" using h3(1) k2(2) by simp
    obtain s4 where s4: "krelease q s3 = Some s4" "heap_ok s4" "kblocks s4 = kblocks s3 - {q}" "quiet s4 = quiet s3"
      "\<And>b. b \<in> kblocks s3 \<Longrightarrow> b \<noteq> q \<Longrightarrow> kextent s4 b = kextent s3 b"
      by (rule krelease_spec[OF ok3 q'(1)]) blast
    define s' where "s' = set_thread (with_copy v p) t s4"
    have m5: "mem s' = mem s4" by (simp add: s'_def)
    note h5 = heap_cong[OF m5]
    have qd: "threads s4 = threads s3" "bytes s4 = bytes s3" using quietD(11,16)[OF s4(4)] by simp_all
    have res: "copy_area t (x, v) s = Some s'" using alt Some s4(1) by (simp add: s'_def)
    have p4: "kextent s' p = kextent s3 p" using s4(5)[of p] h5(3) kb3 q'(2) by simp
    have x5: "\<forall>b \<in> P. kextent s' b = kextent s b"
      using s4(5) h5(3) x3 kb3 P q by (metis DiffD2 insertCI subsetD)
    have q5: "quiet (s'\<lparr>threads := threads s, bytes := bytes s\<rparr>) = quiet s"
    proof -
      have "quiet (s'\<lparr>threads := threads s, bytes := bytes s\<rparr>) = (quiet s4)\<lparr>threads := threads s, bytes := bytes s\<rparr>"
        by (simp add: s'_def set_thread_def quiet_def)
      then show ?thesis using q3 s4(4) by (simp add: quiet_bytes)
    qed
    have "ample r k s4" by (rule krelease_ample[OF ok3 q'(1) s4(1) am3])
    then have am5: "ample r k s'" using m5 by (simp add: ample_def)
    have by5: "bytes s' = bytes s3" using qd by (simp add: s'_def set_thread_def)
    show thesis
      by (rule that[OF res _ am5 d1(3) ap _ x5 _ _ _ _ q5])
        (use h5 s4(2,3) kb3 Some p4 in2(3) h3(3) by5 o3 c3 t3 qd in \<open>simp_all add: s'_def\<close>)
  qed
qed


section \<open>Copying all areas\<close>

text \<open>The copy \<open>w\<close> of \<open>v\<close>: the same virtual range and rights, memory outside \<open>P\<close> with the bytes of the state before.\<close>

definition is_copy :: "kern \<Rightarrow> addr set \<Rightarrow> kern \<Rightarrow> addr \<times> vm_area_t \<Rightarrow> addr \<times> vm_area_t \<Rightarrow> bool" where
  "is_copy s P s' = (\<lambda>(x, v) (a, w). \<exists>p. w = moved v p \<and> p \<in> kblocks s' - P \<and> a \<in> kblocks s' - P \<and>
     bytes_from p (area_bytes v) \<subseteq> kextent s' p \<and>
     (\<forall>i < unat (area_bytes v). bytes s' (p + of_nat i) = bytes s (PHYS_TO_VIRT (phys_addr v) + of_nat i)))"

lemma is_copy_weaken:
  assumes "is_copy s1 P1 s' y z" "P \<subseteq> P1"
    "\<forall>i < unat (area_bytes (snd y)). bytes s1 (PHYS_TO_VIRT (phys_addr (snd y)) + of_nat i) = bytes s (PHYS_TO_VIRT (phys_addr (snd y)) + of_nat i)"
  shows "is_copy s P s' y z"
proof -
  obtain x v a w where yz: "y = (x, v)" "z = (a, w)" by fastforce
  obtain p where p: "w = moved v p" "p \<in> kblocks s' - P1" "a \<in> kblocks s' - P1" "bytes_from p (area_bytes v) \<subseteq> kextent s' p"
    "\<forall>i < unat (area_bytes v). bytes s' (p + of_nat i) = bytes s1 (PHYS_TO_VIRT (phys_addr v) + of_nat i)"
    using assms(1) unfolding yz is_copy_def by blast
  have "\<forall>i < unat (area_bytes v). bytes s' (p + of_nat i) = bytes s (PHYS_TO_VIRT (phys_addr v) + of_nat i)"
    using p(5) assms(3) yz by simp
  moreover have "p \<in> kblocks s' - P" "a \<in> kblocks s' - P" using p(2,3) assms(2) by blast+
  ultimately show ?thesis using p(1,4) unfolding yz is_copy_def by blast
qed

lemma is_copy_later:
  assumes "is_copy s P s1 y z" "kblocks s1 \<subseteq> kblocks s'"
    "\<And>p. p \<in> kblocks s1 - P \<Longrightarrow> bytes_from p (area_bytes (snd y)) \<subseteq> kextent s1 p \<Longrightarrow>
       kextent s' p = kextent s1 p \<and> (\<forall>i < unat (area_bytes (snd y)). bytes s' (p + of_nat i) = bytes s1 (p + of_nat i))"
  shows "is_copy s P s' y z"
proof -
  obtain x v a w where yz: "y = (x, v)" "z = (a, w)" by fastforce
  obtain p where p: "w = moved v p" "p \<in> kblocks s1 - P" "a \<in> kblocks s1 - P" "bytes_from p (area_bytes v) \<subseteq> kextent s1 p"
    "\<forall>i < unat (area_bytes v). bytes s1 (p + of_nat i) = bytes s (PHYS_TO_VIRT (phys_addr v) + of_nat i)"
    using assms(1) unfolding yz is_copy_def by blast
  have "kextent s' p = kextent s1 p" "\<forall>i < unat (area_bytes v). bytes s' (p + of_nat i) = bytes s1 (p + of_nat i)"
    using assms(3)[OF p(2)] p(4) yz by simp_all
  then have "bytes_from p (area_bytes v) \<subseteq> kextent s' p"
    "\<forall>i < unat (area_bytes v). bytes s' (p + of_nat i) = bytes s (PHYS_TO_VIRT (phys_addr v) + of_nat i)" using p(4,5) by simp_all
  moreover have "p \<in> kblocks s' - P" "a \<in> kblocks s' - P" using p(2,3) assms(2) by blast+
  ultimately show ?thesis using p(1) unfolding yz is_copy_def by blast
qed

lemma run_copy_filter: "run_all (copy_area t) vs s = run_all (copy_area t) (filter (\<lambda>(x, v). kept_area v) vs) s"
  by (induction vs arbitrary: s) (auto simp: copy_area_def split: option.split)

text \<open>The fields of the child's record that the copies change.\<close>

definition area_part :: "thread_t \<Rightarrow> thread_t" where
  "area_part x = x\<lparr>vma_list := [], t_data := 0, user_sp := 0\<rparr>"

definition replaceable :: "(addr \<times> vm_area_t) list \<Rightarrow> kern \<Rightarrow> addr set \<Rightarrow> thread_t \<Rightarrow> bool" where
  "replaceable vs s P x \<longleftrightarrow> (\<forall>(y, v) \<in> set vs. \<forall>q. replaced v x = Some q \<longrightarrow> q \<in> kblocks s - P) \<and>
     t_data x \<in> kblocks s \<and> user_sp x \<in> kblocks s \<and> t_data x \<noteq> user_sp x"

lemma replaceable_next:
  assumes r: "replaceable ((y, v) # vs) s P x" and o: "\<forall>(z, w) \<in> set vs. virt_addr w \<noteq> virt_addr v"
    and n: "p \<notin> kblocks s" "a \<notin> kblocks s" "a \<noteq> p" and kb: "kblocks s1 = insert a (insert p (kblocks s)) - set_option (replaced v x)"
  shows "replaceable vs s1 (insert a (insert p P)) (with_copy v p (with_areas as x))"
proof -
  let ?x = "with_copy v p (with_areas as x)"
  have ne: "USER_KERNEL_BASE \<noteq> USER_STACK_BASE - USTACK_SIZE" by (simp add: USER_KERNEL_BASE_def USER_STACK_BASE_def USTACK_SIZE_def)
  have d: "t_data x \<in> kblocks s" "user_sp x \<in> kblocks s" "t_data x \<noteq> user_sp x" using r by (simp_all add: replaceable_def)
  have "q \<in> kblocks s1 - insert a (insert p P)" if w: "(z, w) \<in> set vs" "replaced w ?x = Some q" for z w q
  proof -
    have vw: "virt_addr w \<noteq> virt_addr v" using o w(1) by auto
    then have "replaced w ?x = replaced w x" using ne by (auto simp: replaced_def with_copy_def with_areas_def)
    then have q: "replaced w x = Some q" using w(2) by simp
    then have "q \<in> kblocks s - P" using r w(1) unfolding replaceable_def by (metis (mono_tags, lifting) case_prodD list.set_intros(2))
    moreover have "q \<notin> set_option (replaced v x)" using q vw d(3) by (auto simp: replaced_def split: if_splits)
    ultimately show ?thesis using n kb by auto
  qed
  moreover have "t_data ?x \<in> kblocks s1" "user_sp ?x \<in> kblocks s1" "t_data ?x \<noteq> user_sp ?x"
    using d n ne kb by (auto simp: with_copy_def with_areas_def replaced_def)
  ultimately show ?thesis by (auto simp: replaceable_def)
qed

lemma area_ok_grow:
  assumes "area_ok r s P v" "P \<subseteq> P'" "\<forall>b \<in> P. kextent s' b = kextent s b"
  shows "area_ok r s' P' v"
  using assms by (auto simp: area_ok_def)

lemma copy_areas_spec:
  assumes "heap_ok s" "ample r (2 * length vs + k) s" "r \<le> MAX_ORDER" "P \<subseteq> kblocks s"
    "\<forall>(x, v) \<in> set vs. kept_area v \<and> area_ok r s P v" "distinct (map (\<lambda>(x, v). virt_addr v) vs)" "replaceable vs s P (threads s t)"
  shows "\<exists>s' ws. run_all (copy_area t) vs s = Some s' \<and> heap_ok s' \<and> ample r k s' \<and> P \<subseteq> kblocks s' \<and> (\<forall>b \<in> P. kextent s' b = kextent s b) \<and>
    (\<forall>b. (\<exists>c \<in> P. unat b \<in> kextent s c) \<longrightarrow> bytes s' b = bytes s b) \<and> list_all2 (is_copy s P s') vs ws \<and>
    (\<forall>i. i \<noteq> t \<longrightarrow> threads s' i = threads s i) \<and> vma_list (threads s' t) = vma_list (threads s t) @ ws \<and>
    area_part (threads s' t) = area_part (threads s t) \<and>
    quiet (s'\<lparr>threads := threads s, bytes := bytes s\<rparr>) = quiet s"
  using assms
proof (induction vs arbitrary: s P)
  case Nil
  then show ?case by (intro exI[of _ s] exI[of _ "[]"]) simp
next
  case (Cons y vs)
  obtain x v where y: "y = (x, v)" by (cases y)
  have am: "ample r (2 + (2 * length vs + k)) s" using Cons.prems(2) by (simp add: add.assoc)
  have v: "kept_area v" "area_ok r s P v" using Cons.prems(5) by (simp_all add: y)
  have old: "\<forall>q. replaced v (threads s t) = Some q \<longrightarrow> q \<in> kblocks s - P" using Cons.prems(7) by (simp add: y replaceable_def)
  obtain s1 p a where a: "copy_area t (x, v) s = Some s1" "heap_ok s1" "ample r (2 * length vs + k) s1" "p \<notin> kblocks s" "a \<notin> kblocks s" "a \<noteq> p"
    "kblocks s1 = insert a (insert p (kblocks s)) - set_option (replaced v (threads s t))" "\<forall>b \<in> P. kextent s1 b = kextent s b"
    "bytes_from p (area_bytes v) \<subseteq> kextent s1 p" "\<forall>b. unat b \<notin> kextent s1 p \<longrightarrow> bytes s1 b = bytes s b"
    "\<forall>i < unat (area_bytes v). bytes s1 (p + of_nat i) = bytes s (PHYS_TO_VIRT (phys_addr v) + of_nat i)"
    "threads s1 = (threads s)(t := with_copy v p (with_areas [(a, moved v p)] (threads s t)))"
    "quiet (s1\<lparr>threads := threads s, bytes := bytes s\<rparr>) = quiet s"
    by (rule copy_area_spec[OF Cons.prems(1) am Cons.prems(3) v Cons.prems(4) old, of x])
  let ?P1 = "insert a (insert p P)"
  have P1: "?P1 \<subseteq> kblocks s1" using a(4,5,7) Cons.prems(4) old by (auto split: option.splits)
  have pP: "p \<notin> P" "a \<notin> P" using a(4,5) Cons.prems(4) by blast+
  have same: "bytes s1 b = bytes s b" if "c \<in> P" "unat b \<in> kextent s c" for b c
  proof -
    have "c \<in> kblocks s1" "p \<in> kblocks s1" "c \<noteq> p" using P1 that(1) pP by auto
    from kh.extent_disjoint[OF a(2) this] that a(8) have "unat b \<notin> kextent s1 p" by auto
    then show ?thesis using a(10) by blast
  qed
  have other: "virt_addr w \<noteq> virt_addr v" if "(z, w) \<in> set vs" for z w using Cons.prems(6) that by (force simp: y)
  have src: "bytes s1 (PHYS_TO_VIRT (phys_addr w) + of_nat i) = bytes s (PHYS_TO_VIRT (phys_addr w) + of_nat i)"
    if "(z, w) \<in> set vs" "i < unat (area_bytes w)" for z w i
  proof -
    have w: "area_ok r s P w" using Cons.prems(5) that(1) by auto
    let ?q = "PHYS_TO_VIRT (phys_addr w)"
    have "?q \<in> P" "bytes_from ?q (area_bytes w) \<subseteq> kextent s ?q" using w by (simp_all add: area_ok_def)
    then show ?thesis using range_in_extent[OF Cons.prems(1), of ?q "area_bytes w" "?q + of_nat i"] that(2) Cons.prems(4)
      by (intro same) (auto simp: range_of_iff)
  qed
  have rep: "replaceable vs s1 ?P1 (threads s1 t)"
    using replaceable_next[OF Cons.prems(7)[unfolded y] _ a(4-7)] other a(12) by auto
  have "\<exists>s' ws. run_all (copy_area t) vs s1 = Some s' \<and> heap_ok s' \<and> ample r k s' \<and> ?P1 \<subseteq> kblocks s' \<and> (\<forall>b \<in> ?P1. kextent s' b = kextent s1 b) \<and>
    (\<forall>b. (\<exists>c \<in> ?P1. unat b \<in> kextent s1 c) \<longrightarrow> bytes s' b = bytes s1 b) \<and> list_all2 (is_copy s1 ?P1 s') vs ws \<and>
    (\<forall>i. i \<noteq> t \<longrightarrow> threads s' i = threads s1 i) \<and> vma_list (threads s' t) = vma_list (threads s1 t) @ ws \<and>
    area_part (threads s' t) = area_part (threads s1 t) \<and>
    quiet (s'\<lparr>threads := threads s1, bytes := bytes s1\<rparr>) = quiet s1"
  proof (rule Cons.IH[OF a(2,3) Cons.prems(3) P1 _ _ rep])
    show "\<forall>(x, v) \<in> set vs. kept_area v \<and> area_ok r s1 ?P1 v"
    proof safe
      fix z w assume zw: "(z, w) \<in> set vs"
      then have w: "kept_area w" "area_ok r s P w" using Cons.prems(5) by auto
      show "kept_area w" by (rule w(1))
      have "P \<subseteq> ?P1" by blast
      from area_ok_grow[OF w(2) this a(8)] show "area_ok r s1 ?P1 w" .
    qed
  qed (use Cons.prems(6) in simp)
  then obtain s' ws where b: "run_all (copy_area t) vs s1 = Some s'" "heap_ok s'" "ample r k s'" "?P1 \<subseteq> kblocks s'" "\<forall>b \<in> ?P1. kextent s' b = kextent s1 b"
    "\<forall>b. (\<exists>c \<in> ?P1. unat b \<in> kextent s1 c) \<longrightarrow> bytes s' b = bytes s1 b" "list_all2 (is_copy s1 ?P1 s') vs ws"
    "\<forall>i. i \<noteq> t \<longrightarrow> threads s' i = threads s1 i" "vma_list (threads s' t) = vma_list (threads s1 t) @ ws"
    "area_part (threads s' t) = area_part (threads s1 t)" "quiet (s'\<lparr>threads := threads s1, bytes := bytes s1\<rparr>) = quiet s1" by blast
  have cp: "is_copy s P s' (x, v) (a, moved v p)"
  proof -
    have "bytes s' (p + of_nat i) = bytes s (PHYS_TO_VIRT (phys_addr v) + of_nat i)" if i: "i < unat (area_bytes v)" for i
    proof -
      have "p + of_nat i \<in> range_of p (unat (area_bytes v))" using i by (auto simp: range_of_iff)
      moreover have "p \<in> kblocks s1" using P1 by blast
      ultimately have "unat (p + of_nat i) \<in> kextent s1 p" using range_in_extent[OF a(2) _ a(9)] by blast
      then have "bytes s' (p + of_nat i) = bytes s1 (p + of_nat i)" using b(6) by blast
      then show ?thesis using a(11) i by simp
    qed
    moreover have "bytes_from p (area_bytes v) \<subseteq> kextent s' p" using a(9) b(5) by simp
    ultimately show ?thesis using b(4) pP by (auto simp: is_copy_def)
  qed
  moreover have "list_all2 (is_copy s P s') vs ws"
  proof (rule list.rel_mono_strong[OF b(7)])
    fix y z assume y: "y \<in> set vs" and c: "is_copy s1 ?P1 s' y z"
    obtain u w where uw: "y = (u, w)" by (cases y)
    show "is_copy s P s' y z" by (rule is_copy_weaken[OF c]) (use src y uw in auto)
  qed
  moreover have "quiet (s'\<lparr>threads := threads s, bytes := bytes s\<rparr>) = quiet s"
  proof -
    have "(quiet s')\<lparr>threads := threads s, bytes := bytes s\<rparr> =
        ((quiet s')\<lparr>threads := threads s1, bytes := bytes s1\<rparr>)\<lparr>threads := threads s, bytes := bytes s\<rparr>" by simp
    also have "\<dots> = quiet s" unfolding b(11)[unfolded quiet_bytes] by (rule a(13)[unfolded quiet_bytes])
    finally show ?thesis unfolding quiet_bytes .
  qed
  moreover have "\<forall>b. (\<exists>c \<in> P. unat b \<in> kextent s c) \<longrightarrow> bytes s' b = bytes s b"
    using b(6) same a(8) by (metis insertCI)
  moreover have "area_part (threads s' t) = area_part (threads s t)"
    using b(10) a(12) by (simp add: area_part_def with_copy_def with_areas_def)
  moreover have "vma_list (threads s' t) = vma_list (threads s t) @ (a, moved v p) # ws"
    using b(9) a(12) by (simp add: with_copy_def with_areas_def)
  ultimately show ?case
    using a(1,8,12) b(1-5,8) by (intro exI[of _ s'] exI[of _ "(a, moved v p) # ws"]) (simp add: y)
qed


section \<open>Copying the open files\<close>

lemma quiet_files: "quiet (s\<lparr>threads := a, files := b\<rparr>) = (quiet s)\<lparr>threads := a, files := b\<rparr>"
  by (simp add: quiet_def)

definition fd_part :: "thread_t \<Rightarrow> thread_t" where
  "fd_part x = x\<lparr>fd_table := \<lambda>_. None\<rparr>"

lemma file_request: "FILE_SIZE \<noteq> 0" "size2order FILE_SIZE \<le> r"
  by (simp_all add: FILE_SIZE_def size2order_def FRAME_SIZE_def order_loop.simps)

text \<open>The descriptor's copy refers to a new handle with the same file and position.\<close>

definition fd_copied :: "kern \<Rightarrow> addr set \<Rightarrow> kern \<Rightarrow> nat \<Rightarrow> nat set \<Rightarrow> bool" where
  "fd_copied s K s' t J \<longleftrightarrow> (\<forall>i \<in> J. \<forall>f. fd_table (curr s) i = Some f \<longrightarrow>
     (\<exists>g. fd_table (threads s' t) i = Some g \<and> g \<in> kblocks s' - K \<and> files s' g = files s f))"

lemma copy_fds_spec:
  assumes "heap_ok s" "ample r (length is + k) s" "r \<le> MAX_ORDER" "distinct is" "curr_thread s \<noteq> t"
    "\<forall>i f. fd_table (curr s) i = Some f \<longrightarrow> f \<in> kblocks s"
  shows "\<exists>s'. run_all (copy_fd t) is s = Some s' \<and> heap_ok s' \<and> ample r k s' \<and> kblocks s \<subseteq> kblocks s' \<and> (\<forall>b \<in> kblocks s. kextent s' b = kextent s b) \<and>
    (\<forall>i. i \<noteq> t \<longrightarrow> threads s' i = threads s i) \<and> fd_part (threads s' t) = fd_part (threads s t) \<and> fd_copied s (kblocks s) s' t (set is) \<and>
    (\<forall>i. i \<notin> set is \<or> fd_table (curr s) i = None \<longrightarrow> fd_table (threads s' t) i = fd_table (threads s t) i) \<and>
    (\<forall>f \<in> kblocks s. files s' f = files s f) \<and> quiet (s'\<lparr>threads := threads s, files := files s\<rparr>) = quiet s"
  using assms
proof (induction "is" arbitrary: s)
  case Nil
  then show ?case by (intro exI[of _ s]) (simp add: fd_copied_def)
next
  case (Cons j js)
  show ?case
  proof (cases "fd_table (curr s) j")
    case None
    then have "copy_fd t j s = Some s" by (simp add: copy_fd_def)
    moreover have "ample r (length js + k) s" by (rule ample_mono[OF Cons.prems(2)]) simp
    ultimately show ?thesis using Cons.IH[OF Cons.prems(1) _ Cons.prems(3) _ Cons.prems(5,6)] Cons.prems(4) None
      by (fastforce simp: fd_copied_def)
  next
    case (Some f)
    have am: "ample r (Suc (length js + k)) s" using Cons.prems(2) by simp
    obtain s1 g where k1: "knew FILE_SIZE s = Some (s1, g)" "ample r (length js + k) s1"
      by (rule knew_ample[OF Cons.prems(1) file_request Cons.prems(3) am size_requests(2)])
    note d = knew_spec[OF Cons.prems(1) size_requests(2) k1(1)]
    define s2 where "s2 = (set_thread (\<lambda>x. x\<lparr>fd_table := (fd_table x)(j := Some g)\<rparr>) t s1)\<lparr>files := (files s1)(g := files s1 f)\<rparr>"
    have st: "copy_fd t j s = Some s2" using Some k1(1) by (simp add: copy_fd_def s2_def)
    have m: "mem s2 = mem s1" by (simp add: s2_def)
    note h = heap_cong[OF m] and q = quietD[OF d(5)]
    have th: "threads s2 = (threads s)(t := (threads s t)\<lparr>fd_table := (fd_table (threads s t))(j := Some g)\<rparr>)" "files s2 = (files s)(g := files s f)"
      "curr_thread s2 = curr_thread s" using q by (simp_all add: s2_def set_thread_def)
    have cu: "curr s2 = curr s" using th Cons.prems(5) by (simp add: curr_def)
    have ok2: "heap_ok s2" "ample r (length js + k) s2" using h d(1) k1(2) m by (simp_all add: ample_def)
    have kb: "kblocks s2 = insert g (kblocks s)" using h d(4) by simp
    have c2: "curr_thread s2 \<noteq> t" "\<forall>i f. fd_table (curr s2) i = Some f \<longrightarrow> f \<in> kblocks s2" using Cons.prems(5,6) th(3) cu kb by auto
    have dj: "distinct js" "j \<notin> set js" using Cons.prems(4) by simp_all
    from Cons.IH[OF ok2 Cons.prems(3) dj(1) c2] obtain s' where b: "run_all (copy_fd t) js s2 = Some s'" "heap_ok s'" "ample r k s'" "kblocks s2 \<subseteq> kblocks s'"
      "\<forall>b \<in> kblocks s2. kextent s' b = kextent s2 b" "\<forall>i. i \<noteq> t \<longrightarrow> threads s' i = threads s2 i" "fd_part (threads s' t) = fd_part (threads s2 t)"
      "fd_copied s2 (kblocks s2) s' t (set js)" "\<forall>i. i \<notin> set js \<or> fd_table (curr s2) i = None \<longrightarrow> fd_table (threads s' t) i = fd_table (threads s2 t) i"
      "\<forall>f \<in> kblocks s2. files s' f = files s2 f" "quiet (s'\<lparr>threads := threads s2, files := files s2\<rparr>) = quiet s2" by blast
    have fs: "f \<in> kblocks s" using Cons.prems(6) Some by blast
    have "fd_table (threads s' t) j = Some g" using b(9) dj(2) th(1) by simp
    moreover have "g \<in> kblocks s' - kblocks s" using b(4) kb d(3) by auto
    moreover have "files s' g = files s f" using b(10) kb th(2) by simp
    moreover have "\<exists>g. fd_table (threads s' t) i = Some g \<and> g \<in> kblocks s' - kblocks s \<and> files s' g = files s f'"
      if ij: "i \<in> set js" "fd_table (curr s) i = Some f'" for i f'
    proof -
      obtain g' where "fd_table (threads s' t) i = Some g'" "g' \<in> kblocks s' - kblocks s2" "files s' g' = files s2 f'"
        using b(8) ij cu by (auto simp: fd_copied_def)
      moreover have "files s2 f' = files s f'" using Cons.prems(6) ij(2) th(2) d(3) by fastforce
      ultimately show ?thesis using kb by auto
    qed
    ultimately have "fd_copied s (kblocks s) s' t (set (j # js))" using Some by (auto simp: fd_copied_def)
    moreover have "\<forall>i. i \<noteq> t \<longrightarrow> threads s' i = threads s i" "fd_part (threads s' t) = fd_part (threads s t)"
      using b(6,7) th(1) by (simp_all add: fd_part_def)
    moreover have "\<forall>i. i \<notin> set (j # js) \<or> fd_table (curr s) i = None \<longrightarrow> fd_table (threads s' t) i = fd_table (threads s t) i"
      using b(9) th(1) cu Some by auto
    moreover have "\<forall>f \<in> kblocks s. files s' f = files s f" using b(10) kb th(2) d(3) by auto
    moreover have "\<forall>b \<in> kblocks s. kextent s' b = kextent s b" using b(5) kb h(3) d(8) by auto
    moreover have "quiet (s'\<lparr>threads := threads s, files := files s\<rparr>) = quiet s"
    proof -
      have "(quiet s')\<lparr>threads := threads s, files := files s\<rparr> =
          ((quiet s')\<lparr>threads := threads s2, files := files s2\<rparr>)\<lparr>threads := threads s, files := files s\<rparr>" by simp
      also have "\<dots> = quiet s" unfolding b(11)[unfolded quiet_files] using d(5) q by (simp add: s2_def set_thread_def quiet_def)
      finally show ?thesis unfolding quiet_files .
    qed
    ultimately show ?thesis using st b(1-4) kb by (intro exI[of _ s']) auto
  qed
qed

section \<open>The child\<close>

text \<open>Creating the thread writes no byte of memory.\<close>

lemma thread_create_memory:
  assumes ok: "heap_ok s" and n: "request_ok n" and c: "thread_create start n s = Some (s', Some t)"
  shows "bytes s' = bytes s" "\<forall>b \<in> kblocks s. kextent s' b = kextent s b"
    "kernel_sp (threads s' t) \<noteq> 0 \<Longrightarrow> bytes_from (kernel_sp (threads s' t)) (ucast KSTACK_SIZE) \<subseteq> kextent s' (kernel_sp (threads s' t))"
proof -
  let ?s0 = "disable_interrupt s"
  obtain s1 usp s2 ksp s3 ssp s4 dat s5 pgd where k: "kalloc (ucast USTACK_SIZE) ?s0 = Some (s1, usp)" "kalloc (ucast KSTACK_SIZE) s1 = Some (s2, ksp)"
    "kalloc (of_nat FRAME_SIZE) s2 = Some (s3, ssp)" "kalloc n s3 = Some (s4, dat)" "knew 0x1000 s4 = Some (s5, pgd)"
    "s' = enable_interrupt (push_rq t (set_thread (fresh_thread start n usp ksp ssp dat pgd) t (clear_page pgd s5)))"
    using c by (auto simp: thread_create_def Let_def split: option.splits)
  have ok0: "heap_ok ?s0" using ok by simp
  note a1 = kalloc_spec[OF ok0 stack_requests(1) k(1)]
  note a2 = kalloc_spec[OF a1(1) stack_requests(2) k(2)]
  note a3 = kalloc_spec[OF a2(1) stack_requests(3) k(3)]
  note a4 = kalloc_spec[OF a3(1) n k(4)]
  note a5 = knew_spec[OF a4(1) stack_requests(4) k(5)]
  have m: "mem s' = mem s5" by (simp add: k(6))
  note h = heap_cong(3)[OF m]
  let ?s6 = "set_thread (fresh_thread start n usp ksp ssp dat pgd) t (clear_page pgd s5)"
  have oq: "off_queue s' = off_queue ?s6" using push_rq_fields(5)[of ?s6 t] by (simp add: k(6) same_threads_def)
  have q5: "quiet s5 = quiet s" using a1(4) a2(4) a3(4) a4(4) a5(5) by simp
  show "bytes s' = bytes s"
    using arg_cong[OF oq, of bytes] quietD(16)[OF q5] by (simp add: off_queue_def set_thread_def clear_page_def)
  have mono: "b \<in> kblocks s1 \<Longrightarrow> b \<in> kblocks s2 \<and> b \<in> kblocks s3 \<and> b \<in> kblocks s4" "b \<in> kblocks s2 \<Longrightarrow> b \<in> kblocks s3 \<and> b \<in> kblocks s4" for b
    using a2(3) a3(3) a4(3) by (auto split: if_splits)
  have e2: "kextent s' b = kextent s2 b" if "b \<in> kblocks s2" for b
    using h a3(5) a4(5) a5(8) mono(2)[OF that] that by simp
  show "\<forall>b \<in> kblocks s. kextent s' b = kextent s b"
  proof
    fix b assume b: "b \<in> kblocks s"
    then have "b \<in> kblocks s1" using a1(3) by auto
    then show "kextent s' b = kextent s b" using e2 a2(5) a1(5) b mono(1) a2(3) by auto
  qed
  have "kernel_sp (threads s' t) = ksp"
    using arg_cong[OF oq, of "\<lambda>s. kernel_sp (threads s t)"] by (simp add: off_queue_def unlinked_def fresh_thread_def)
  then show "kernel_sp (threads s' t) \<noteq> 0 \<Longrightarrow> bytes_from (kernel_sp (threads s' t)) (ucast KSTACK_SIZE) \<subseteq> kextent s' (kernel_sp (threads s' t))"
    using a2(3,6) e2 by auto
qed


lemma rq_cong:
  assumes "\<And>i. tnext s' i = tnext s i" "\<And>i. tprev s' i = tprev s i" "RQ_head s' = RQ_head s" "RQ_tail s' = RQ_tail s"
  shows "rq s' xs = rq s xs"
proof -
  have "tnext s' = tnext s" "tprev s' = tprev s" using assms(1,2) by auto
  then show ?thesis using assms(3,4) by (simp add: rq_def)
qed

text \<open>The first part: the new thread with its blocks, the handlers and the files.\<close>

lemma fork_start:
  assumes ok: "heap_ok s" and q: "rq s xs" and t: "free_slot s = Some t" "t \<notin> set xs" "curr_thread s \<noteq> t"
    and n: "request_ok (datasize (curr s))" "size2order (datasize (curr s)) \<le> r" and r: "2 \<le> r" "r \<le> MAX_ORDER"
    and am: "ample r (5 + (MAX_FD + 1 + k)) s" and fd: "\<forall>i f. fd_table (curr s) i = Some f \<longrightarrow> f \<in> kblocks s"
  obtains s1 s2 where "thread_create (t_data (curr s)) (datasize (curr s)) (disable_interrupt s) = Some (s1, Some t)"
    "run_all (copy_fd t) [0..<MAX_FD + 1] (fork_handlers t s1) = Some s2" "heap_ok s2" "ample r k s2" "rq s2 (xs @ [t])"
    "kblocks s \<subseteq> kblocks s2" "\<forall>b \<in> kblocks s. kextent s2 b = kextent s b" "bytes s2 = bytes s"
    "distinct [t_data (threads s2 t), user_sp (threads s2 t), kernel_sp (threads s2 t)]"
    "{t_data (threads s2 t), user_sp (threads s2 t), kernel_sp (threads s2 t)} \<subseteq> kblocks s2 - kblocks s"
    "bytes_from (kernel_sp (threads s2 t)) (ucast KSTACK_SIZE) \<subseteq> kextent s2 (kernel_sp (threads s2 t))"
    "t_status (threads s2 t) = THREAD_ACTIVE" "vma_list (threads s2 t) = []" "pid (threads s2 t) = pid (threads s t)"
    "fd_copied s (kblocks s \<union> {t_data (threads s2 t), user_sp (threads s2 t)}) s2 t {..MAX_FD}" "\<forall>i. i \<noteq> t \<longrightarrow> unlinked (threads s2 i) = unlinked (threads s i)" "curr_thread s2 = curr_thread s"
proof -
  let ?s0 = "disable_interrupt s"
  note sd = sched_ofD[OF sched_upd(2), of s]
  have h0: "heap_ok ?s0" "rq ?s0 xs" "free_slot ?s0 = Some t" "ample r (5 + (MAX_FD + 1 + k)) ?s0"
    using ok q t(1) am sd by (simp_all add: free_slot_def ample_def)
  obtain s1 usp ksp ssp dat pgd where a: "thread_create (t_data (curr s)) (datasize (curr s)) ?s0 = Some (s1, Some t)" "heap_ok s1" "rq s1 (xs @ [t])"
    "ample r (MAX_FD + 1 + k) s1" "unlinked (threads s1 t) = unlinked (fresh_thread (t_data (curr s)) (datasize (curr s)) usp ksp ssp dat pgd (threads ?s0 t))"
    "distinct [usp, ksp, ssp, dat, pgd]" "kblocks ?s0 \<inter> set [usp, ksp, ssp, dat, pgd] = {}" "kblocks s1 = kblocks ?s0 \<union> set [usp, ksp, ssp, dat, pgd]"
    "kpage pgd" "\<forall>i < 512. words s1 (slot pgd i) = 0" "\<forall>i. i \<noteq> t \<longrightarrow> unlinked (threads s1 i) = unlinked (threads ?s0 i)" "curr_thread s1 = curr_thread ?s0"
    "files s1 = files ?s0" "reg_dev s1 = reg_dev ?s0"
    by (rule thread_create_spec[OF h0(1,2,3) t(2) n r h0(4)])
  note c = thread_create_memory[OF h0(1) n(1) a(1)]
  let ?sh = "fork_handlers t s1"
  have m: "mem ?sh = mem s1" by (simp add: fork_handlers_def)
  note h1 = heap_cong[OF m]
  have cu: "curr_thread ?sh = curr_thread s" using a(12) sd(2) by (simp add: fork_handlers_def)
  have th: "threads ?sh i = threads s1 i" if "i \<noteq> t" for i using that by (simp add: fork_handlers_def)
  have ft: "fd_table (curr ?sh) = fd_table (curr s)"
  proof -
    have "unlinked (threads s1 (curr_thread s)) = unlinked (threads s (curr_thread s))" using a(11) t(3) sd(1) by simp
    then have "fd_table (threads s1 (curr_thread s)) = fd_table (threads s (curr_thread s))" by (simp add: unlinked_def) (metis thread_t.ext_inject thread_t.surjective thread_t.update_convs(15) thread_t.update_convs(16))
    then show ?thesis using cu th[OF t(3)] by (simp add: curr_def)
  qed
  have hs: "heap_ok ?sh" "ample r (length [0..<MAX_FD + 1] + k) ?sh" "curr_thread ?sh \<noteq> t" "\<forall>i f. fd_table (curr ?sh) i = Some f \<longrightarrow> f \<in> kblocks ?sh"
    using a(2,4,8) h1 m cu t(3) ft fd by (auto simp: ample_def)
  from copy_fds_spec[OF hs(1,2) r(2) distinct_upt hs(3,4)] obtain s2 where b: "run_all (copy_fd t) [0..<MAX_FD + 1] ?sh = Some s2" "heap_ok s2" "ample r k s2"
    "kblocks ?sh \<subseteq> kblocks s2" "\<forall>b \<in> kblocks ?sh. kextent s2 b = kextent ?sh b" "\<forall>i. i \<noteq> t \<longrightarrow> threads s2 i = threads ?sh i"
    "fd_part (threads s2 t) = fd_part (threads ?sh t)" "fd_copied ?sh (kblocks ?sh) s2 t (set [0..<MAX_FD + 1])" "quiet (s2\<lparr>threads := threads ?sh, files := files ?sh\<rparr>) = quiet ?sh"
    by blast
  note qd = quietD[OF b(9)]
  have f1: "g (threads s2 t) = g (threads s1 t)" if "\<And>x. g (fd_part x) = g x" "\<And>x h. g (x\<lparr>signal_handler := h\<rparr>) = g x" for g :: "thread_t \<Rightarrow> 'b"
  proof -
    have "g (threads s2 t) = g (threads ?sh t)" using that(1) b(7) by metis
    also have "\<dots> = g (threads s1 t)" using that(2) by (simp add: fork_handlers_def)
    finally show ?thesis .
  qed
  have f2: "g (threads s1 t) = g (fresh_thread (t_data (curr s)) (datasize (curr s)) usp ksp ssp dat pgd (threads s t))"
    if "\<And>x. g (unlinked x) = g x" for g :: "thread_t \<Rightarrow> 'b" using a(5) sd(1) that by metis
  note f3 = f1[of t_data] f1[of user_sp] f1[of kernel_sp] f1[of t_status] f1[of vma_list] f1[of pid]
    f2[of t_data] f2[of user_sp] f2[of kernel_sp] f2[of t_status] f2[of vma_list] f2[of pid]
  have x: "t_data (threads s2 t) = dat" "user_sp (threads s2 t) = usp" "kernel_sp (threads s2 t) = ksp" "t_status (threads s2 t) = THREAD_ACTIVE"
    "vma_list (threads s2 t) = []" "pid (threads s2 t) = pid (threads s t)" "kernel_sp (threads s1 t) = ksp"
    using f3 by (simp_all add: fd_part_def unlinked_def fresh_thread_def)
  have rq2: "rq s2 (xs @ [t])"
  proof -
    have "tnext s2 i = tnext s1 i" "tprev s2 i = tprev s1 i" for i
      using f1[of th_next] f1[of th_prev] b(6) th by (cases "i = t"; simp add: tnext_def tprev_def fd_part_def)+
    moreover have "RQ_head s2 = RQ_head s1" "RQ_tail s2 = RQ_tail s1" using qd(13,14) by (simp_all add: fork_handlers_def)
    ultimately show ?thesis using a(3) rq_cong by blast
  qed
  have nz: "ksp \<noteq> 0" using kh.null_dead[OF a(2)] a(8) by auto
  have kb: "kblocks s1 \<subseteq> kblocks s2" using b(4) h1(2) by simp
  have ks: "ksp \<in> kblocks s1" using a(8) by simp
  have ext: "kextent s2 b = kextent s1 b" if "b \<in> kblocks s1" for b using b(5) h1(2,3) that by simp
  have "bytes_from (kernel_sp (threads s2 t)) (ucast KSTACK_SIZE) \<subseteq> kextent s2 (kernel_sp (threads s2 t))"
    using c(3) nz ext[OF ks] x(3,7) by simp
  moreover have "\<forall>b \<in> kblocks s. kextent s2 b = kextent s b" using c(2) ext a(8) by auto
  moreover have "bytes s2 = bytes s" using qd(16) c(1) by (simp add: fork_handlers_def set_thread_def)
  moreover have "fd_copied s (kblocks s \<union> {t_data (threads s2 t), user_sp (threads s2 t)}) s2 t {..MAX_FD}"
  proof -
    have "set [0..<MAX_FD + 1] = {..MAX_FD}" by auto
    moreover have "files ?sh = files s" using a(13) by (simp add: fork_handlers_def set_thread_def)
    moreover have "(kblocks s \<union> {t_data (threads s2 t), user_sp (threads s2 t)}) \<subseteq> kblocks ?sh" using h1(2) a(8) x by auto
    ultimately have e: "fd_copied s (kblocks s \<union> {t_data (threads s2 t), user_sp (threads s2 t)}) s2 t {..MAX_FD} = (\<forall>i \<in> {..MAX_FD}. \<forall>f. fd_table (curr ?sh) i = Some f \<longrightarrow>
        (\<exists>g. fd_table (threads s2 t) i = Some g \<and> g \<in> kblocks s2 - (kblocks s \<union> {t_data (threads s2 t), user_sp (threads s2 t)}) \<and> files s2 g = files ?sh f))"
      and c: "\<forall>i \<in> {..MAX_FD}. \<forall>f. fd_table (curr ?sh) i = Some f \<longrightarrow>
        (\<exists>g. fd_table (threads s2 t) i = Some g \<and> g \<in> kblocks s2 - kblocks ?sh \<and> files s2 g = files ?sh f)"
      and k: "kblocks s2 - kblocks ?sh \<subseteq> kblocks s2 - (kblocks s \<union> {t_data (threads s2 t), user_sp (threads s2 t)})"
      using b(8) unfolding fd_copied_def ft by (simp_all only:) blast
    show ?thesis unfolding e using c k by blast
  qed
  moreover have "\<forall>i. i \<noteq> t \<longrightarrow> unlinked (threads s2 i) = unlinked (threads s i)" using b(6) th a(11) sd(1) by simp
  moreover have "curr_thread s2 = curr_thread s" using qd(12) cu by simp
  moreover have "{t_data (threads s2 t), user_sp (threads s2 t), kernel_sp (threads s2 t)} \<subseteq> kblocks s2 - kblocks s"
    using x a(7,8) kb by auto
  moreover have "distinct [t_data (threads s2 t), user_sp (threads s2 t), kernel_sp (threads s2 t)]" using x a(6) by auto
  moreover have "kblocks s \<subseteq> kblocks s2" using a(8) kb by auto
  ultimately show thesis using that[OF a(1) b(1,2,3) rq2] x by blast
qed

section \<open>The areas\<close>

definition device_areas :: "addr \<Rightarrow> addr \<Rightarrow> (64 word \<times> 64 word \<times> 64 word \<times> 64 word \<times> bool) list" where
  "device_areas wrapper ssp =
     [(PERIPHERAL_START, PERIPHERAL_END - PERIPHERAL_START, PERIPHERAL_START, 3, False),
      (USER_SIGNAL_WRAPPER_VA, 0x2000, VIRT_TO_PHYS wrapper, 5, False),
      (USER_SIGNAL_STKSTART_VA, of_nat FRAME_SIZE, VIRT_TO_PHYS ssp, 7, True)]"

lemma fork_areas_alt:
  "fork_areas w t s = (case run_all (copy_area t) (vma_list (curr s)) s of None \<Rightarrow> None
     | Some s1 \<Rightarrow> run_all (add_area t) (device_areas w (signal_sp (threads s1 t))) s1)"
proof (cases "run_all (copy_area t) (vma_list (curr s)) s")
  case (Some s1)
  show ?thesis
  proof (cases "run_all (add_area t) (take 2 (device_areas w (signal_sp (threads s1 t)))) s1")
    case None
    then show ?thesis using Some by (auto simp: fork_areas_def device_areas_def add_area_def split: option.splits)
  next
    case (Some s3)
    then obtain s2 where a: "mmu_add_vma t PERIPHERAL_START (PERIPHERAL_END - PERIPHERAL_START) PERIPHERAL_START 3 False s1 = Some s2"
      "mmu_add_vma t USER_SIGNAL_WRAPPER_VA 0x2000 (VIRT_TO_PHYS w) 5 False s2 = Some s3"
      by (auto simp: device_areas_def add_area_def split: option.splits)
    then have "signal_sp (threads s3 t) = signal_sp (threads s1 t)" by (simp add: add_vma_thread)
    then show ?thesis using \<open>run_all (copy_area t) (vma_list (curr s)) s = Some s1\<close> a
      by (simp add: fork_areas_def device_areas_def add_area_def split: option.split)
  qed
qed (simp add: fork_areas_def)

lemma run_area_extent:
  "run_all (add_area t) ps s = Some s' \<Longrightarrow> heap_ok s \<Longrightarrow> ample r (length ps + k) s \<Longrightarrow> r \<le> MAX_ORDER \<Longrightarrow> b \<in> kblocks s \<Longrightarrow> kextent s' b = kextent s b"
proof (induction ps arbitrary: s)
  case (Cons p ps)
  have am: "ample r (Suc (length ps + k)) s" using Cons.prems(3) by simp
  obtain s1 n where s1: "add_area t p s = Some s1" "heap_ok s1" "ample r (length ps + k) s1" "kblocks s1 = insert n (kblocks s)"
    by (rule add_area_spec[OF Cons.prems(2) am Cons.prems(4)]) blast
  have "kextent s' b = kextent s1 b" using Cons.IH[OF _ s1(2,3) Cons.prems(4)] Cons.prems(1,5) s1(1,4) by simp
  then show ?case using add_area_extent[OF s1(1) Cons.prems(2,5)] by simp
qed simp

lemma quiet_threads: "quiet (s\<lparr>threads := a\<rparr>) = (quiet s)\<lparr>threads := a\<rparr>"
  by (simp add: quiet_def)

lemma fork_areas_spec:
  assumes ok: "heap_ok s" and am: "ample r (2 * length vs + (3 + k)) s" "r \<le> MAX_ORDER" and vs: "vs = filter (\<lambda>(x, v). kept_area v) (vma_list (curr s))"
    and P: "P = kblocks s - {t_data (threads s t), user_sp (threads s t)}" "\<forall>(x, v) \<in> set vs. area_ok r s P v" "distinct (map (\<lambda>(x, v). virt_addr v) vs)"
    and x: "t_data (threads s t) \<in> kblocks s" "user_sp (threads s t) \<in> kblocks s" "t_data (threads s t) \<noteq> user_sp (threads s t)"
  obtains s' ws ns where "fork_areas w t s = Some s'" "heap_ok s'" "ample r k s'" "P \<subseteq> kblocks s'" "\<forall>b \<in> P. kextent s' b = kextent s b"
    "\<forall>b. (\<exists>c \<in> P. unat b \<in> kextent s c) \<longrightarrow> bytes s' b = bytes s b" "list_all2 (is_copy s P s') vs ws" "length ns = 3"
    "vma_list (threads s' t) = vma_list (threads s t) @ ws @ zip ns (map area_rec (device_areas w (signal_sp (threads s t))))"
    "area_part (threads s' t) = area_part (threads s t)" "\<forall>i. i \<noteq> t \<longrightarrow> threads s' i = threads s i"
    "quiet (s'\<lparr>threads := threads s, bytes := bytes s\<rparr>) = quiet s"
proof -
  have pk: "P \<subseteq> kblocks s" using P(1) by blast
  have kp: "\<forall>(x, v) \<in> set vs. kept_area v \<and> area_ok r s P v" using P(2) vs by auto
  have rep: "replaceable vs s P (threads s t)" using x P(1) by (auto simp: replaceable_def replaced_def split: if_splits)
  from copy_areas_spec[OF ok am pk kp P(3) rep] obtain s1 ws where a: "run_all (copy_area t) vs s = Some s1" "heap_ok s1" "ample r (3 + k) s1"
    "P \<subseteq> kblocks s1" "\<forall>b \<in> P. kextent s1 b = kextent s b" "\<forall>b. (\<exists>c \<in> P. unat b \<in> kextent s c) \<longrightarrow> bytes s1 b = bytes s b" "list_all2 (is_copy s P s1) vs ws"
    "\<forall>i. i \<noteq> t \<longrightarrow> threads s1 i = threads s i" "vma_list (threads s1 t) = vma_list (threads s t) @ ws" "area_part (threads s1 t) = area_part (threads s t)"
    "quiet (s1\<lparr>threads := threads s, bytes := bytes s\<rparr>) = quiet s" by blast
  let ?d = "device_areas w (signal_sp (threads s1 t))"
  have am': "ample r (length ?d + k) s1" by (rule ample_mono[OF a(3)]) (simp add: device_areas_def)
  from run_area_spec[OF a(2) am' am(2), of t] obtain s' ns where b: "run_all (add_area t) ?d s1 = Some s'" "heap_ok s'" "ample r k s'" "length ns = length ?d"
    "kblocks s' = kblocks s1 \<union> set ns" "threads s' = (threads s1)(t := with_areas (zip ns (map area_rec ?d)) (threads s1 t))"
    "quiet (s'\<lparr>threads := threads s1\<rparr>) = quiet s1" by blast
  have ss: "signal_sp (threads s1 t) = signal_sp (threads s t)"
    using arg_cong[OF a(10), of signal_sp] by (simp add: area_part_def)
  have by1: "bytes s' = bytes s1" using quietD(16)[OF b(7)] by simp
  have res: "fork_areas w t s = Some s'" using a(1) b(1) by (simp add: fork_areas_alt vs run_copy_filter[of t "vma_list (curr s)" s])
  have ex: "\<forall>b \<in> P. kextent s' b = kextent s b" using run_area_extent[OF b(1) a(2) am' am(2)] a(4,5) by auto
  have cp: "list_all2 (is_copy s P s') vs ws"
  proof (rule list.rel_mono_strong[OF a(7)])
    fix y z assume c: "is_copy s P s1 y z"
    show "is_copy s P s' y z"
      by (rule is_copy_later[OF c]) (use b(5) by1 run_area_extent[OF b(1) a(2) am' am(2)] in simp_all)
  qed
  have qu: "quiet (s'\<lparr>threads := threads s, bytes := bytes s\<rparr>) = quiet s"
  proof -
    have "(quiet s')\<lparr>threads := threads s, bytes := bytes s\<rparr> = ((quiet s')\<lparr>threads := threads s1\<rparr>)\<lparr>threads := threads s, bytes := bytes s\<rparr>" by simp
    also have "(quiet s')\<lparr>threads := threads s1\<rparr> = quiet s1" using b(7) by (simp add: quiet_threads)
    finally show ?thesis using a(11) unfolding quiet_bytes by simp
  qed
  show thesis
    by (rule that[OF res b(2,3) _ ex _ cp _ _ _ _ qu])
      (use a(4,6,8-10) b(4-6) by1 ss in \<open>auto simp: with_areas_def device_areas_def area_part_def\<close>)
qed

end
