(* ===== verification/Fork_Props.thy ===== *)
theory Fork_Props
  imports Fork_Inv
begin

text \<open>
  \<open>fork\<close>: the child gets its own copies of the parent's memory, files and stack.
\<close>

section \<open>fork\<close>

text \<open>What \<open>fork\<close> needs: a free slot, blocks behind the areas and the files, and room.\<close>

definition fork_ready :: "nat \<Rightarrow> nat \<Rightarrow> nat list \<Rightarrow> kern \<Rightarrow> bool" where
  "fork_ready r t xs s \<longleftrightarrow> heap_ok s \<and> rq s xs \<and> free_slot s = Some t \<and> t \<notin> set xs \<and> curr_thread s \<noteq> t \<and>
     2 \<le> r \<and> r \<le> MAX_ORDER \<and> request_ok (datasize (curr s)) \<and> size2order (datasize (curr s)) \<le> r \<and>
     (\<forall>i f. fd_table (curr s) i = Some f \<longrightarrow> f \<in> kblocks s) \<and>
     (\<forall>(x, v) \<in> set (vma_list (curr s)). kept_area v \<longrightarrow> area_ok r s (kblocks s) v) \<and> distinct (map (\<lambda>(x, v). virt_addr v) (vma_list (curr s))) \<and>
     kernel_sp (curr s) \<in> kblocks s \<and> bytes_from (kernel_sp (curr s)) (ucast KSTACK_SIZE) \<subseteq> kextent s (kernel_sp (curr s)) \<and>
     ample r (25 + 2 * length (vma_list (curr s))) s"

text \<open>The end of the call: the kernel stack, the context, and what is left alone.\<close>

lemma fork_context_spec:
  fixes cpu t s
  defines "nk \<equiv> kernel_sp (threads s t)" and "ok \<equiv> kernel_sp (curr s)" and "s' \<equiv> fork_context cpu t s"
  assumes h: "heap_ok s" and ne: "curr_thread s \<noteq> t" "nk \<noteq> ok"
    and n: "nk \<in> kblocks s" "bytes_from nk (ucast KSTACK_SIZE) \<subseteq> kextent s nk"
    and o: "ok \<in> kblocks s" "bytes_from ok (ucast KSTACK_SIZE) \<subseteq> kextent s ok"
  shows "mem s' = mem s" "kernel_sp (threads s' t) = nk" "fd_table (threads s' t) = fd_table (threads s t)" "pid (threads s' t) = pid (threads s t)"
    "vma_list (threads s' t) = vma_list (threads s t)" "signal_sp (threads s' t) = signal_sp (threads s t)" "t_status (threads s' t) = t_status (threads s t)"
    "rq s' ys = rq s ys" "curr_thread s' = curr_thread s" "files s' = files s" "c_sp (ctx (threads s' t)) = c_sp cpu + (nk - ok)"
    "i < unat KSTACK_SIZE \<Longrightarrow> bytes s' (nk + of_nat i) = bytes s (ok + of_nat i)"
    "unat b \<notin> kextent s nk \<Longrightarrow> bytes s' b = bytes s b"
proof -
  note d = s'_def fork_context_def Let_def set_curr_def copy_stack_def set_thread_def
  have kU: "unat (ucast KSTACK_SIZE :: 32 word) = unat KSTACK_SIZE" by (simp add: KSTACK_SIZE_def)
  have by4: "bytes s' = copy_loop nk ok (unat KSTACK_SIZE) (bytes s)" by (simp add: d nk_def ok_def)
  show "mem s' = mem s" "kernel_sp (threads s' t) = nk" "fd_table (threads s' t) = fd_table (threads s t)" "pid (threads s' t) = pid (threads s t)"
    "vma_list (threads s' t) = vma_list (threads s t)" "signal_sp (threads s' t) = signal_sp (threads s t)" "t_status (threads s' t) = t_status (threads s t)"
    "curr_thread s' = curr_thread s" "files s' = files s" "c_sp (ctx (threads s' t)) = c_sp cpu + (nk - ok)"
    using ne(1) by (simp_all add: d nk_def ok_def curr_def store_context_def)
  show "rq s' ys = rq s ys" by (rule rq_cong) (simp_all add: d tnext_def tprev_def)
  show "bytes s' (nk + of_nat i) = bytes s (ok + of_nat i)" if "i < unat KSTACK_SIZE"
    unfolding by4 by (rule copy_loop_disjoint) (use ranges_apart[OF h n o ne(2)] that kU in \<open>simp_all add: KSTACK_SIZE_def\<close>)
  show "bytes s' b = bytes s b" if "unat b \<notin> kextent s nk"
    using copy_loop_other[of b nk "unat KSTACK_SIZE"] range_in_extent[OF h n, of b] that kU by (auto simp: by4)
qed

text \<open>Copies outside a block survive writes to it.\<close>

lemma copies_survive:
  assumes "list_all2 (is_copy s2 P s3) vs ws" and h: "heap_ok s3" "n \<in> P" "n \<in> kblocks s3" and m: "mem s' = mem s3"
    and b: "\<And>b. unat b \<notin> kextent s3 n \<Longrightarrow> bytes s' b = bytes s3 b" and K: "K \<subseteq> P" "bytes s2 = bytes s"
  shows "list_all2 (is_copy s K s') vs ws"
proof (rule list.rel_mono_strong[OF assms(1)])
  fix y z assume c: "is_copy s2 P s3 y z"
  have "is_copy s2 P s' y z"
  proof (rule is_copy_later[OF c])
    fix p assume p: "p \<in> kblocks s3 - P" "bytes_from p (area_bytes (snd y)) \<subseteq> kextent s3 p"
    have pn: "p \<noteq> n" "p \<in> kblocks s3" using p(1) h(2) by auto
    have "bytes s' (p + of_nat i) = bytes s3 (p + of_nat i)" if "i < unat (area_bytes (snd y))" for i
    proof (rule b)
      have "unat (p + of_nat i) \<in> kextent s3 p" by (rule range_in_extent[OF h(1) pn(2) p(2)]) (use that in \<open>auto simp: range_of_iff\<close>)
      then show "unat (p + of_nat i) \<notin> kextent s3 n" using kh.extent_disjoint[OF h(1) pn(2) h(3) pn(1)] by blast
    qed
    then show "kextent s' p = kextent s3 p \<and> (\<forall>i < unat (area_bytes (snd y)). bytes s' (p + of_nat i) = bytes s3 (p + of_nat i))"
      using heap_cong(3)[OF m] by simp
  qed (simp add: heap_cong(2)[OF m])
  then show "is_copy s K s' y z" by (rule is_copy_weaken[OF _ K(1)]) (simp add: K(2))
qed

text \<open>Everything up to the context.\<close>

lemma fork_parts:
  assumes "fork_ready r t xs s"
  obtains s1 s2 s3 ws ns P where "thread_create (t_data (curr s)) (datasize (curr s)) (disable_interrupt s) = Some (s1, Some t)"
    "run_all (copy_fd t) [0..<MAX_FD + 1] (fork_handlers t s1) = Some s2" "fork_areas wrapper t s2 = Some s3"
    "heap_ok s3" "rq s3 (xs @ [t])" "kblocks s \<subseteq> P" "P \<subseteq> kblocks s3" "\<forall>b \<in> kblocks s. kextent s3 b = kextent s b"
    "\<forall>b. (\<exists>a \<in> kblocks s. unat b \<in> kextent s a) \<longrightarrow> bytes s3 b = bytes s b" "bytes s2 = bytes s"
    "list_all2 (is_copy s2 P s3) (filter (\<lambda>(x, v). kept_area v) (vma_list (curr s))) ws" "length ns = 3"
    "vma_list (threads s3 t) = ws @ zip ns (map area_rec (device_areas wrapper (signal_sp (threads s3 t))))"
    "fd_copied s (kblocks s) s3 t {..MAX_FD}" "t_status (threads s3 t) = THREAD_ACTIVE" "pid (threads s3 t) = pid (threads s t)"
    "curr_thread s3 = curr_thread s" "kernel_sp (curr s3) = kernel_sp (curr s)" "kernel_sp (threads s3 t) \<in> P - kblocks s"
    "bytes_from (kernel_sp (threads s3 t)) (ucast KSTACK_SIZE) \<subseteq> kextent s3 (kernel_sp (threads s3 t))"
proof -
  let ?vs = "filter (\<lambda>(x, v). kept_area v) (vma_list (curr s))"
  note A = assms[unfolded fork_ready_def]
  have ok: "heap_ok s" and q: "rq s xs" and t: "free_slot s = Some t" "t \<notin> set xs" "curr_thread s \<noteq> t" and r: "2 \<le> r" "r \<le> MAX_ORDER"
    and n: "request_ok (datasize (curr s))" "size2order (datasize (curr s)) \<le> r" and fd: "\<forall>i f. fd_table (curr s) i = Some f \<longrightarrow> f \<in> kblocks s"
    using A by blast+
  have am0: "ample r (25 + 2 * length (vma_list (curr s))) s" using A by blast
  have le: "length ?vs \<le> length (vma_list (curr s))" by (rule length_filter_le)
  have am: "ample r (5 + (MAX_FD + 1 + (2 * length ?vs + (3 + 0)))) s"
    by (rule ample_mono[OF am0]) (use le in \<open>simp add: MAX_FD_def\<close>)
  obtain s1 s2 where a: "thread_create (t_data (curr s)) (datasize (curr s)) (disable_interrupt s) = Some (s1, Some t)"
    "run_all (copy_fd t) [0..<MAX_FD + 1] (fork_handlers t s1) = Some s2" "heap_ok s2" "ample r (2 * length ?vs + (3 + 0)) s2" "rq s2 (xs @ [t])"
    "kblocks s \<subseteq> kblocks s2" "\<forall>b \<in> kblocks s. kextent s2 b = kextent s b" "bytes s2 = bytes s"
    "distinct [t_data (threads s2 t), user_sp (threads s2 t), kernel_sp (threads s2 t)]"
    "{t_data (threads s2 t), user_sp (threads s2 t), kernel_sp (threads s2 t)} \<subseteq> kblocks s2 - kblocks s"
    "bytes_from (kernel_sp (threads s2 t)) (ucast KSTACK_SIZE) \<subseteq> kextent s2 (kernel_sp (threads s2 t))"
    "t_status (threads s2 t) = THREAD_ACTIVE" "vma_list (threads s2 t) = []" "pid (threads s2 t) = pid (threads s t)"
    "fd_copied s (kblocks s \<union> {t_data (threads s2 t), user_sp (threads s2 t)}) s2 t {..MAX_FD}"
    "\<forall>i. i \<noteq> t \<longrightarrow> unlinked (threads s2 i) = unlinked (threads s i)" "curr_thread s2 = curr_thread s"
    by (rule fork_start[OF ok q t n r am fd])
  have un: "g (curr s2) = g (curr s)" if "\<And>x. g (unlinked x) = g x" for g :: "thread_t \<Rightarrow> 'b"
    using a(16,17) t(3) that unfolding curr_def by metis
  have cu2: "vma_list (curr s2) = vma_list (curr s)" "kernel_sp (curr s2) = kernel_sp (curr s)"
    using un[of vma_list] un[of kernel_sp] by (simp_all add: unlinked_def)
  let ?P = "kblocks s2 - {t_data (threads s2 t), user_sp (threads s2 t)}"
  have kP: "kblocks s \<subseteq> ?P" "kernel_sp (threads s2 t) \<in> ?P" using a(6,9,10) by auto
  have vs: "\<forall>(x, v) \<in> set ?vs. area_ok r s2 ?P v" "distinct (map (\<lambda>(x, v). virt_addr v) ?vs)"
  proof -
    show "\<forall>(x, v) \<in> set ?vs. area_ok r s2 ?P v" using A area_ok_grow[OF _ kP(1) a(7)] by auto
    have "distinct (map (\<lambda>(x, v). virt_addr v) (vma_list (curr s)))" using A by blast
    then show "distinct (map (\<lambda>(x, v). virt_addr v) ?vs)" by (rule distinct_map_filter)
  qed
  obtain s3 ws ns where b: "fork_areas wrapper t s2 = Some s3" "heap_ok s3" "ample r 0 s3" "?P \<subseteq> kblocks s3" "\<forall>b \<in> ?P. kextent s3 b = kextent s2 b"
    "\<forall>b. (\<exists>c \<in> ?P. unat b \<in> kextent s2 c) \<longrightarrow> bytes s3 b = bytes s2 b" "list_all2 (is_copy s2 ?P s3) ?vs ws" "length ns = 3"
    "vma_list (threads s3 t) = vma_list (threads s2 t) @ ws @ zip ns (map area_rec (device_areas wrapper (signal_sp (threads s2 t))))"
    "area_part (threads s3 t) = area_part (threads s2 t)" "\<forall>i. i \<noteq> t \<longrightarrow> threads s3 i = threads s2 i"
    "quiet (s3\<lparr>threads := threads s2, bytes := bytes s2\<rparr>) = quiet s2"
    by (rule fork_areas_spec[OF a(3,4) r(2) _ refl vs]) (use cu2 a(9,10) in auto)
  note qd = quietD[OF b(12)]
  have cu3: "curr_thread s3 = curr_thread s" "curr s3 = curr s2" "files s3 = files s2"
    using qd(12,17) a(17) b(11) t(3) by (simp_all add: curr_def)
  have ap: "g (threads s3 t) = g (threads s2 t)" if "\<And>x. g (area_part x) = g x" for g :: "thread_t \<Rightarrow> 'b"
    using b(10) that by metis
  have x3: "kernel_sp (threads s3 t) = kernel_sp (threads s2 t)" "t_status (threads s3 t) = THREAD_ACTIVE" "pid (threads s3 t) = pid (threads s t)"
    "fd_table (threads s3 t) = fd_table (threads s2 t)" "signal_sp (threads s3 t) = signal_sp (threads s2 t)"
    "th_next (threads s3 t) = th_next (threads s2 t)" "th_prev (threads s3 t) = th_prev (threads s2 t)"
    using ap[of kernel_sp] ap[of t_status] ap[of pid] ap[of fd_table] ap[of signal_sp] ap[of th_next] ap[of th_prev] a(12,14) by (simp_all add: area_part_def)
  have old: "bytes s3 b = bytes s b" if "a \<in> kblocks s" "unat b \<in> kextent s a" for a b
  proof -
    have "a \<in> ?P" "unat b \<in> kextent s2 a" using a(7) kP(1) that by auto
    then show ?thesis using b(6) a(8) by metis
  qed
  have rq3: "rq s3 (xs @ [t])"
  proof -
    have "tnext s3 i = tnext s2 i" "tprev s3 i = tprev s2 i" for i
      using b(11) x3(6,7) by (cases "i = t"; simp add: tnext_def tprev_def)+
    then show ?thesis using a(5) rq_cong[of s3 s2] qd(13,14) by simp
  qed
  have fd3: "fd_copied s (kblocks s) s3 t {..MAX_FD}"
    using a(15) b(4) x3(4) cu3(3) unfolding fd_copied_def by fastforce
  show thesis
  proof (rule that[OF a(1,2) b(1,2) rq3 kP(1) b(4) _ _ a(8) b(7,8) _ fd3 x3(2,3) cu3(1)])
    show "\<forall>b \<in> kblocks s. kextent s3 b = kextent s b" using b(5) a(7) kP(1) by auto
    show "\<forall>b. (\<exists>a \<in> kblocks s. unat b \<in> kextent s a) \<longrightarrow> bytes s3 b = bytes s b" using old by blast
    show "vma_list (threads s3 t) = ws @ zip ns (map area_rec (device_areas wrapper (signal_sp (threads s3 t))))" using b(9) a(13) x3(5) by simp
    show "kernel_sp (curr s3) = kernel_sp (curr s)" using cu3(2) cu2(2) by simp
    show "kernel_sp (threads s3 t) \<in> ?P - kblocks s" using kP(2) x3(1) a(10) by auto
    show "bytes_from (kernel_sp (threads s3 t)) (ucast KSTACK_SIZE) \<subseteq> kextent s3 (kernel_sp (threads s3 t))"
      using a(11) b(5) kP(2) x3(1) by simp
  qed
qed

lemma fork_spec:
  assumes "fork_ready r t xs s"
  shows "\<exists>s' ws ns. fork wrapper cpu tpf s = Some s' \<and> xreg (trapframes s' tpf) 0 = of_int (pid (threads s t)) \<and>
    heap_ok s' \<and> rq s' (xs @ [t]) \<and> curr_thread s' = curr_thread s \<and> t_status (threads s' t) = THREAD_ACTIVE \<and>
    length ns = 3 \<and> vma_list (threads s' t) = ws @ zip ns (map area_rec (device_areas wrapper (signal_sp (threads s' t)))) \<and>
    list_all2 (is_copy s (kblocks s) s') (filter (\<lambda>(x, v). kept_area v) (vma_list (curr s))) ws \<and>
    fd_copied s (kblocks s) s' t {..MAX_FD} \<and>
    (\<forall>i < unat KSTACK_SIZE. bytes s' (kernel_sp (threads s' t) + of_nat i) = bytes s (kernel_sp (curr s) + of_nat i)) \<and>
    c_sp (ctx (threads s' t)) = c_sp cpu + (kernel_sp (threads s' t) - kernel_sp (curr s)) \<and>
    (\<forall>b. (\<exists>a \<in> kblocks s. unat b \<in> kextent s a) \<longrightarrow> bytes s' b = bytes s b)"
proof -
  let ?vs = "filter (\<lambda>(x, v). kept_area v) (vma_list (curr s))"
  have ok: "heap_ok s" and ne: "curr_thread s \<noteq> t" and ks: "kernel_sp (curr s) \<in> kblocks s"
    "bytes_from (kernel_sp (curr s)) (ucast KSTACK_SIZE) \<subseteq> kextent s (kernel_sp (curr s))"
    using assms unfolding fork_ready_def by blast+
  obtain s1 s2 s3 ws ns P where a: "thread_create (t_data (curr s)) (datasize (curr s)) (disable_interrupt s) = Some (s1, Some t)"
    "run_all (copy_fd t) [0..<MAX_FD + 1] (fork_handlers t s1) = Some s2" "fork_areas wrapper t s2 = Some s3"
    "heap_ok s3" "rq s3 (xs @ [t])" "kblocks s \<subseteq> P" "P \<subseteq> kblocks s3" "\<forall>b \<in> kblocks s. kextent s3 b = kextent s b"
    "\<forall>b. (\<exists>a \<in> kblocks s. unat b \<in> kextent s a) \<longrightarrow> bytes s3 b = bytes s b" "bytes s2 = bytes s"
    "list_all2 (is_copy s2 P s3) ?vs ws" "length ns = 3"
    "vma_list (threads s3 t) = ws @ zip ns (map area_rec (device_areas wrapper (signal_sp (threads s3 t))))"
    "fd_copied s (kblocks s) s3 t {..MAX_FD}" "t_status (threads s3 t) = THREAD_ACTIVE" "pid (threads s3 t) = pid (threads s t)"
    "curr_thread s3 = curr_thread s" "kernel_sp (curr s3) = kernel_sp (curr s)" "kernel_sp (threads s3 t) \<in> P - kblocks s"
    "bytes_from (kernel_sp (threads s3 t)) (ucast KSTACK_SIZE) \<subseteq> kextent s3 (kernel_sp (threads s3 t))"
    by (rule fork_parts[OF assms])
  let ?nk = "kernel_sp (threads s3 t)"
  have n: "curr_thread s3 \<noteq> t" "?nk \<noteq> kernel_sp (curr s3)" "?nk \<in> kblocks s3" "kernel_sp (curr s3) \<in> kblocks s3"
    "bytes_from (kernel_sp (curr s3)) (ucast KSTACK_SIZE) \<subseteq> kextent s3 (kernel_sp (curr s3))"
    using ne ks a(6-8,17-19) by auto
  define s4 where "s4 = fork_context cpu t s3"
  define s' where "s' = ret tpf (of_int (pid (threads s4 t))) (enable_interrupt s4)"
  note c = fork_context_spec[OF a(4) n(1,2,3) a(20) n(4,5), where cpu = cpu, folded s4_def]
  have m: "mem s' = mem s3" using c(1) by (simp add: s'_def ret_def)
  have s': "threads s' = threads s4" "bytes s' = bytes s4" "curr_thread s' = curr_thread s4" "files s' = files s4" "rq s' ys = rq s4 ys" for ys
  proof -
    show "threads s' = threads s4" "bytes s' = bytes s4" "curr_thread s' = curr_thread s4" "files s' = files s4"
      using sched_ofD[OF sched_upd(1), of s4] by (simp_all add: s'_def ret_def)
    have "rq s' ys = rq (enable_interrupt s4) ys" by (rule rq_cong) (simp_all add: s'_def ret_def tnext_def tprev_def)
    then show "rq s' ys = rq s4 ys" by simp
  qed
  have res: "fork wrapper cpu tpf s = Some s'" using a(1-3) by (simp add: fork_def s4_def s'_def Let_def)
  have "list_all2 (is_copy s (kblocks s) s') ?vs ws"
    by (rule copies_survive[OF a(11,4) _ n(3) m _ a(6,10)]) (use a(19) c(13) s'(2) in auto)
  moreover have "bytes s' b = bytes s b" if e: "e \<in> kblocks s" "unat b \<in> kextent s e" for b e
  proof -
    have "e \<in> kblocks s3" "e \<noteq> ?nk" "unat b \<in> kextent s3 e" using e a(6-8,19) by auto
    then have "unat b \<notin> kextent s3 ?nk" using kh.extent_disjoint[OF a(4) _ n(3)] by blast
    then show ?thesis using c(13) s'(2) a(9) e by auto
  qed
  moreover have "bytes s' (kernel_sp (threads s' t) + of_nat i) = bytes s (kernel_sp (curr s) + of_nat i)" if i: "i < unat KSTACK_SIZE" for i
  proof -
    have "unat (ucast KSTACK_SIZE :: 32 word) = unat KSTACK_SIZE" by (simp add: KSTACK_SIZE_def)
    then have "unat (kernel_sp (curr s) + of_nat i) \<in> kextent s (kernel_sp (curr s))"
      using range_in_extent[OF ok ks, of "kernel_sp (curr s) + of_nat i"] i by (auto simp: range_of_iff)
    then have "bytes s3 (kernel_sp (curr s) + of_nat i) = bytes s (kernel_sp (curr s) + of_nat i)" using a(9) ks(1) by blast
    then show ?thesis using c(2,12) i s'(1,2) a(18) by simp
  qed
  moreover have "fd_copied s (kblocks s) s' t {..MAX_FD}"
    using a(14) c(3,10) s'(1,4) heap_cong(2)[OF m] by (simp add: fd_copied_def)
  moreover have "xreg (trapframes s' tpf) 0 = of_int (pid (threads s t))" using c(4) a(16) by (simp add: s'_def ret_def)
  moreover have "vma_list (threads s' t) = ws @ zip ns (map area_rec (device_areas wrapper (signal_sp (threads s' t))))"
    using a(13) c(5,6) s'(1) by simp
  moreover have "c_sp (ctx (threads s' t)) = c_sp cpu + (kernel_sp (threads s' t) - kernel_sp (curr s))" using c(2,11) s'(1) a(18) by simp
  moreover have "curr_thread s' = curr_thread s" "t_status (threads s' t) = THREAD_ACTIVE" "rq s' (xs @ [t])"
    using s' c(7-9) a(5,15,17) by simp_all
  ultimately show ?thesis using res heap_cong(1)[OF m] a(4,12) by blast
qed

text \<open>C6: \<open>fork\<close> gives the child memory of its own.  With a free slot, the parent's areas (apart from the
  device registers and the signal stack and wrapper) backed by blocks of their size, and 25 free runs and
  two more for every area, the call returns the child's process id in the parent's frame and the child is
  at the end of the run queue.  The child's areas are, one by one, areas at the same addresses with the
  same rights in new blocks that hold the parent's bytes, then the three device and signal areas; its open
  files are new handles with the same file and position; its kernel stack is a copy and its stack pointer
  is moved along; and no byte of a block that was allocated before has changed.\<close>

theorem fork_copies:
  assumes "fork_ready r t xs s"
  shows "\<exists>s' ws ns. fork wrapper cpu tpf s = Some s' \<and> xreg (trapframes s' tpf) 0 = of_int (pid (threads s t)) \<and>
    heap_ok s' \<and> rq s' (xs @ [t]) \<and> curr_thread s' = curr_thread s \<and> t_status (threads s' t) = THREAD_ACTIVE \<and>
    length ns = 3 \<and> vma_list (threads s' t) = ws @ zip ns (map area_rec (device_areas wrapper (signal_sp (threads s' t)))) \<and>
    list_all2 (is_copy s (kblocks s) s') (filter (\<lambda>(x, v). kept_area v) (vma_list (curr s))) ws \<and>
    fd_copied s (kblocks s) s' t {..MAX_FD} \<and>
    (\<forall>i < unat KSTACK_SIZE. bytes s' (kernel_sp (threads s' t) + of_nat i) = bytes s (kernel_sp (curr s) + of_nat i)) \<and>
    c_sp (ctx (threads s' t)) = c_sp cpu + (kernel_sp (threads s' t) - kernel_sp (curr s)) \<and>
    (\<forall>b. (\<exists>a \<in> kblocks s. unat b \<in> kextent s a) \<longrightarrow> bytes s' b = bytes s b)"
  by (rule fork_spec[OF assms])

section \<open>A thread with one area\<close>

lemma one_area_kern:
  obtains s q where "fork_ready 4 3 [1, 2] s" "bytes s q = 42"
    "vma_list (curr s) = [(0, \<lparr>virt_addr = USER_KERNEL_BASE, phys_addr = VIRT_TO_PHYS q, area_size = 0x1000, rwx = 7, is_alloced = True\<rparr>)]"
proof -
  have am: "ample 4 (Suc (Suc 90)) life_kern" by (rule ample_mono[OF life_kern(2)]) simp
  have z: "(ucast KSTACK_SIZE :: 32 word) \<noteq> 0" "size2order (ucast KSTACK_SIZE) \<le> 4" "(4 :: nat) \<le> MAX_ORDER" "(0x1000 :: 32 word) \<noteq> 0"
    "size2order 0x1000 \<le> 4"
    by (simp_all only: stack_orders) (simp_all add: KSTACK_SIZE_def MAX_ORDER_def)
  obtain s1 p where s1: "knew (ucast KSTACK_SIZE) life_kern = Some (s1, p)" "ample 4 (Suc 90) s1"
    by (rule knew_ample[OF life_kern(1) z(1-3) am stack_requests(2)])
  note a = knew_spec[OF life_kern(1) stack_requests(2) s1(1)]
  obtain s2 q where s2: "knew 0x1000 s1 = Some (s2, q)" "ample 4 90 s2" by (rule knew_ample[OF a(1) z(4,5,3) s1(2) stack_requests(4)])
  note b = knew_spec[OF a(1) stack_requests(4) s2(1)]
  let ?v = "\<lparr>virt_addr = USER_KERNEL_BASE, phys_addr = VIRT_TO_PHYS q, area_size = 0x1000, rwx = 7, is_alloced = True\<rparr>"
  define s where "s = (set_thread (\<lambda>x. x\<lparr>kernel_sp := p, datasize := 0x1000, vma_list := [(0, ?v)]\<rparr>) 0 s2)\<lparr>bytes := (bytes s2)(q := 42)\<rparr>"
  have m: "mem s = mem s2" by (simp add: s_def)
  note h = heap_cong[OF m]
  have qq: "quiet s2 = quiet life_kern" using b(5) a(5) by simp
  note qd = quietD[OF qq]
  have th: "threads s = (threads life_kern)(0 := (threads life_kern 0)\<lparr>kernel_sp := p, datasize := 0x1000, vma_list := [(0, ?v)]\<rparr>)"
    "curr_thread s = 0" using qd(11,12) life_kern(4) by (simp_all add: s_def)
  have cu: "kernel_sp (curr s) = p" "datasize (curr s) = 0x1000" "vma_list (curr s) = [(0, ?v)]" "fd_table (curr s) = fd_table (threads life_kern 0)"
    using th by (simp_all add: curr_def)
  have "rq s [1, 2]"
  proof -
    have "tnext s i = tnext life_kern i" "tprev s i = tprev life_kern i" for i using th(1) by (simp_all add: tnext_def tprev_def)
    moreover have "RQ_head s = RQ_head life_kern" "RQ_tail s = RQ_tail life_kern" using qd(13,14) by (simp_all add: s_def)
    ultimately show ?thesis using life_kern(3) rq_cong by blast
  qed
  moreover have "free_slot s = Some 3"
  proof -
    have "t_status (threads s i) = t_status (threads life_kern i)" for i using th(1) by simp
    then show ?thesis using life_kern(5) by (simp add: free_slot_def)
  qed
  moreover have "p \<in> kblocks s" "q \<in> kblocks s" using h(2) a(4) b(4) by simp_all
  moreover have "bytes_from p (ucast KSTACK_SIZE) \<subseteq> kextent s p" using h(3) b(8)[of p] a(4,7) by simp
  moreover have "bytes_from q 0x1000 \<subseteq> kextent s q" using h(3) b(7) by simp
  moreover have "ample 4 27 s" by (rule ample_mono[of 4 90]) (use s2(2) m in \<open>simp_all add: ample_def\<close>)
  moreover have "fd_table (threads life_kern 0) = (\<lambda>_. None)" by (simp add: life_kern_def three_def boot_kern_def blank_thread_def)
  ultimately have "fork_ready 4 3 [1, 2] s"
    using h(1) b(1) th(2) cu stack_requests(4) stack_orders(4) by (simp add: fork_ready_def area_ok_def area_bytes_def MAX_ORDER_def)
  then show thesis by (rule that) (use cu in \<open>simp_all add: s_def\<close>)
qed

theorem fork_copies_witness:
  "\<exists>s s' a p. fork 0 blank_ctx 0x1000 s = Some s' \<and> rq s' [1, 2, 3] \<and> p \<notin> kblocks s \<and>
     virt_addr (snd (hd (vma_list (threads s' 3)))) = USER_KERNEL_BASE \<and> phys_addr (snd (hd (vma_list (threads s' 3)))) = VIRT_TO_PHYS p \<and>
     bytes s' p = 42 \<and> bytes s' a = 42 \<and> a \<noteq> p"
proof -
  obtain s q where s: "fork_ready 4 3 [1, 2] s" "bytes s q = 42"
    "vma_list (curr s) = [(0, \<lparr>virt_addr = USER_KERNEL_BASE, phys_addr = VIRT_TO_PHYS q, area_size = 0x1000, rwx = 7, is_alloced = True\<rparr>)]"
    by (rule one_area_kern)
  let ?v = "\<lparr>virt_addr = USER_KERNEL_BASE, phys_addr = VIRT_TO_PHYS q, area_size = 0x1000, rwx = 7, is_alloced = True\<rparr>"
  have k: "kept_area ?v" by (simp add: kept_area_def USER_KERNEL_BASE_def USER_SIGNAL_WRAPPER_VA_def PERIPHERAL_START_def USER_SIGNAL_STKSTART_VA_def)
  from fork_copies[OF s(1), of 0 blank_ctx "0x1000"] obtain s' ws ns where f: "fork 0 blank_ctx 0x1000 s = Some s'" "rq s' [1, 2, 3]"
    "vma_list (threads s' 3) = ws @ zip ns (map area_rec (device_areas 0 (signal_sp (threads s' 3))))"
    "list_all2 (is_copy s (kblocks s) s') [(0, ?v)] ws" "\<forall>b. (\<exists>a \<in> kblocks s. unat b \<in> kextent s a) \<longrightarrow> bytes s' b = bytes s b"
    using k s(3) by auto
  then obtain a w where w: "ws = [(a, w)]" "is_copy s (kblocks s) s' (0, ?v) (a, w)" by (auto simp: list_all2_Cons1)
  then obtain p where p: "w = moved ?v p" "p \<notin> kblocks s" "\<forall>i < 4096. bytes s' (p + of_nat i) = bytes s (q + of_nat i)"
    by (auto simp: is_copy_def area_bytes_def)
  have "bytes s' p = 42" using p(3)[rule_format, of 0] s(2) by simp
  moreover have "area_ok 4 s (kblocks s) ?v" using s(1,3) k by (simp add: fork_ready_def)
  then have q: "q \<in> kblocks s" "bytes_from q 0x1000 \<subseteq> kextent s q" by (simp_all add: area_ok_def area_bytes_def)
  then have "unat q \<in> kextent s q" by (auto simp: bytes_from_def)
  then have "bytes s' q = 42" using f(5) q(1) s(2) by auto
  ultimately show ?thesis
    using f(1,2,3) w(1) p(1,2) q(1) by (intro exI[of _ s] exI[of _ s'] exI[of _ q] exI[of _ p]) (auto simp: moved_def area_rec_def)
qed

end
