(* ===== verification/Dtb.thy ===== *)
theory Dtb
  imports Syscall
begin

text \<open>
  \<open>kernel/src/dtb.c\<close>: the walk through the flattened device tree, the callback that finds the
  initial RAM disk, and the memory reservations.  The blob is read from the byte memory; its
  numbers are big-endian.  \<open>None\<close> is a walk that does not end, or a null node name given to the
  comparison.  \<open>x20\<close> is the register in which the start-up code leaves the address of the blob.
\<close>

unbundle bit_operations_syntax

section \<open>Numbers and the header\<close>

definition load64 :: "Cstring.mem \<Rightarrow> addr \<Rightarrow> 64 word" where
  "load64 m a = word_rcat [load32 m (a + 4), load32 m a]"

definition be_load :: "Cstring.mem \<Rightarrow> addr \<Rightarrow> 32 word" where
  "be_load m a = utils_change_endian_32 (load32 m a)"

definition FDT_MAGIC_NUMBER :: "32 word" where "FDT_MAGIC_NUMBER = 0xD00DFEED"
definition FDT_BEGIN_NODE :: "32 word" where "FDT_BEGIN_NODE = 1"
definition FDT_END_NODE :: "32 word" where "FDT_END_NODE = 2"
definition FDT_PROP :: "32 word" where "FDT_PROP = 3"
definition FDT_NOP :: "32 word" where "FDT_NOP = 9"
definition FDT_END :: "32 word" where "FDT_END = 0"

record fdt_header =
  magic :: "32 word"
  totalsize :: "32 word"
  off_dt_struct :: "32 word"
  off_dt_strings :: "32 word"
  off_mem_rsvmap :: "32 word"

definition fdt_header_at :: "Cstring.mem \<Rightarrow> addr \<Rightarrow> fdt_header" where
  "fdt_header_at m h = \<lparr>magic = be_load m h, totalsize = be_load m (h + 4), off_dt_struct = be_load m (h + 8),
     off_dt_strings = be_load m (h + 12), off_mem_rsvmap = be_load m (h + 16)\<rparr>"

section \<open>Memory reservations\<close>

partial_function (option) reserve_entries :: "Cstring.mem \<Rightarrow> addr \<Rightarrow> (64 word \<times> 64 word) list option" where
  "reserve_entries m e =
     (let a = load64 m e; n = load64 m (e + 8) in
      if a \<noteq> 0 \<or> n \<noteq> 0 then
        (let start = PHYS_TO_VIRT (utils_change_endian_64 a)
         in Option.bind (reserve_entries m (e + 16)) (\<lambda>rs. Some ((start, utils_change_endian_64 n + start) # rs)))
      else Some [])"

text \<open>The calls of \<open>memory_reserve\<close> in order.\<close>

definition dtb_reservations :: "kern \<Rightarrow> (kern \<times> (64 word \<times> 64 word) list) option" where
  "dtb_reservations s =
     (let h = fdt_header_at (bytes s) (dtb_base s) in
      if magic h \<noteq> FDT_MAGIC_NUMBER then
        Some (klog ''traverse_device_tree : wrong magic in traverse_device_tree'' (klog (''test'' @ crnl) s), [])
      else
        (case reserve_entries (bytes s) (dtb_base s + ucast (off_mem_rsvmap h)) of None \<Rightarrow> None
         | Some rs \<Rightarrow> Some (s, rs @ [(dtb_base s, dtb_base s + ucast (totalsize h))])))"

definition dtb_find_and_store_reserved_memory :: "kern \<Rightarrow> kern option" where
  "dtb_find_and_store_reserved_memory s =
     map_option (\<lambda>(s1, rs). s1\<lparr>mem := fold (\<lambda>(b, e). memory_reserve b e) rs (mem s1)\<rparr>) (dtb_reservations s)"

section \<open>The walk\<close>

type_synonym fdt_callback = "addr ptr \<Rightarrow> addr \<Rightarrow> addr \<Rightarrow> 32 word \<Rightarrow> kern \<Rightarrow> kern option"

partial_function (option) fdt_loop :: "fdt_callback \<Rightarrow> addr ptr \<Rightarrow> addr \<Rightarrow> kern \<Rightarrow> kern option" where
  "fdt_loop callback current_node dt_struct s =
     (let m = bytes s; h = fdt_header_at m (dtb_base s); token = be_load m dt_struct; p = dt_struct + 4 in
      if \<not> dt_struct < dtb_base s + ucast (totalsize h) then Some s
      else if token = FDT_BEGIN_NODE then
        (case utils_strlen m p of None \<Rightarrow> None
         | Some n \<Rightarrow> fdt_loop callback (Some p) (utils_align (p + n + 1) 4) s)
      else if token = FDT_PROP then
        (let prop_len = be_load m p; prop_name = dtb_base s + ucast (off_dt_strings h) + ucast (be_load m (p + 4)); prop_value = p + 8
         in case callback current_node prop_name prop_value prop_len s of None \<Rightarrow> None
            | Some s1 \<Rightarrow> fdt_loop callback current_node (utils_align (prop_value + ucast prop_len) 4) s1)
      else if token = FDT_END_NODE then fdt_loop callback current_node p s
      else if token = FDT_NOP then fdt_loop callback current_node p s
      else if token = FDT_END then Some s
      else fdt_loop callback current_node p s)"

definition fdt_traverse :: "addr \<Rightarrow> fdt_callback \<Rightarrow> kern \<Rightarrow> kern option" where
  "fdt_traverse x20 callback s =
     (let s1 = (if dtb_base s = 0 then
                  (let v = PHYS_TO_VIRT x20 in
                   klog crnl (klog_hex v (klog ''DTB virtual address: ''
                     (klog crnl (klog_hex x20 (klog ''DTB physical address: '' (s\<lparr>dtb_base := v\<rparr>)))))))
                else s);
          h = fdt_header_at (bytes s1) (dtb_base s1)
      in if magic h \<noteq> FDT_MAGIC_NUMBER then Some (klog (''Invalid FDT magic number!'' @ [CHR 0x0A]) s1)
         else fdt_loop callback None (dtb_base s1 + ucast (off_dt_struct h)) (klog (''Valid FDT magic number!'' @ [CHR 0x0A]) s1))"

section \<open>The callback\<close>

text \<open>The target strings are printed as formats.\<close>

definition log_target :: "addr \<Rightarrow> addr \<Rightarrow> 64 word \<Rightarrow> kern \<Rightarrow> kern option" where
  "log_target tnode tprop v s =
     (case klog_user tnode (klog ''Target Node: '' s) of None \<Rightarrow> None | Some s1 \<Rightarrow>
      case klog_user tprop (klog '', Target device: '' s1) of None \<Rightarrow> None | Some s2 \<Rightarrow>
      Some (klog crnl (klog_hex v (klog '', physical address starts at: '' s2))))"

definition is_literal :: "string \<Rightarrow> addr \<Rightarrow> kern \<Rightarrow> bool option" where
  "is_literal lit p s = utils_string_compare (with_literal (ascii lit) (bytes s)) LITERAL p"

definition initramfs_callback :: "addr \<Rightarrow> addr \<Rightarrow> fdt_callback" where
  "initramfs_callback tnode tprop node_name prop_name prop_value prop_len s =
     (case node_name of None \<Rightarrow> None | Some node \<Rightarrow>
      case utils_string_compare (bytes s) node tnode of None \<Rightarrow> None | Some False \<Rightarrow> Some s | Some True \<Rightarrow>
      case utils_string_compare (bytes s) prop_name tprop of None \<Rightarrow> None | Some False \<Rightarrow> Some s | Some True \<Rightarrow>
      (let v = ucast (be_load (bytes s) prop_value) :: 64 word in
       case is_literal ''linux,initrd-start'' tprop s of None \<Rightarrow> None
       | Some True \<Rightarrow> map_option (\<lambda>s1. s1\<lparr>CPIO_DEFAULT_START := PHYS_TO_VIRT v\<rparr>) (log_target tnode tprop v s)
       | Some False \<Rightarrow>
           (case is_literal ''linux,initrd-end'' tprop s of None \<Rightarrow> None
            | Some True \<Rightarrow> map_option (\<lambda>s1. s1\<lparr>CPIO_DEFAULT_END := PHYS_TO_VIRT v\<rparr>) (log_target tnode tprop v s)
            | Some False \<Rightarrow> Some s)))"

end
