(* ===== verification/Cpio_Inv.thy ===== *)
theory Cpio_Inv
  imports Cpio
begin

text \<open>
  The format \<open>cpio_newc_parse_header\<close> reads: an encoder of archive members, and the round trip.
\<close>

section \<open>Literals in memory\<close>

definition bytes_at :: "mem \<Rightarrow> addr \<Rightarrow> 8 word list \<Rightarrow> bool" where
  "bytes_at m p bs \<longleftrightarrow> (\<forall>i < length bs. m (p + of_nat i) = bs ! i)"

lemma bytes_at_append: "bytes_at m p (xs @ ys) \<longleftrightarrow> bytes_at m p xs \<and> bytes_at m (p + of_nat (length xs)) ys"
proof -
  have "bytes_at m p (xs @ ys) \<longleftrightarrow> (\<forall>i < length xs. m (p + of_nat i) = xs ! i) \<and>
      (\<forall>j < length ys. m (p + of_nat (length xs + j)) = ys ! j)"
  proof (intro iffI conjI allI impI)
    fix j assume "bytes_at m p (xs @ ys)" "j < length ys"
    then show "m (p + of_nat (length xs + j)) = ys ! j"
      unfolding bytes_at_def by (metis length_append nat_add_left_cancel_less nth_append_length_plus)
  next
    assume a: "(\<forall>i < length xs. m (p + of_nat i) = xs ! i) \<and> (\<forall>j < length ys. m (p + of_nat (length xs + j)) = ys ! j)"
    show "bytes_at m p (xs @ ys)"
      unfolding bytes_at_def
    proof (intro allI impI)
      fix i assume i: "i < length (xs @ ys)"
      show "m (p + of_nat i) = (xs @ ys) ! i"
      proof (cases "i < length xs")
        case False
        with i have "i = length xs + (i - length xs)" "i - length xs < length ys" by simp_all
        with a False show ?thesis by (metis nth_append)
      qed (use a in \<open>simp add: nth_append\<close>)
    qed
  qed (simp add: bytes_at_def nth_append)
  then show ?thesis by (simp add: bytes_at_def add.assoc)
qed

lemma bytes_at_Cons: "bytes_at m p (x # xs) \<longleftrightarrow> m p = x \<and> bytes_at m (p + 1) xs"
  using bytes_at_append[of m p "[x]" xs] by (simp add: bytes_at_def)

lemma bytes_at_cong:
  assumes "\<And>i. i < length bs \<Longrightarrow> m' (p + of_nat i) = m (p + of_nat i)"
  shows "bytes_at m' p bs = bytes_at m p bs"
  using assms by (auto simp: bytes_at_def)

lemma cstr_bytes_at: "cstr m p xs \<longleftrightarrow> 0 \<notin> set xs \<and> bytes_at m p (xs @ [0])"
proof (induction xs arbitrary: p)
  case (Cons x xs)
  show ?case using Cons.IH[of "p + 1"] by (auto simp: bytes_at_Cons)
qed (simp add: bytes_at_Cons bytes_at_def)

definition below_literal :: "addr \<Rightarrow> nat \<Rightarrow> bool" where
  "below_literal p n \<longleftrightarrow> unat p + n \<le> unat LITERAL"

lemma LITERAL_unat: "unat LITERAL = 2 ^ 64 - 256"
  by (simp add: LITERAL_def)

lemma with_literal_below:
  assumes "a < LITERAL" "length lit < 256"
  shows "with_literal lit m a = m a"
proof -
  have "unat (a - LITERAL) = unat a + 256"
    using assms(1) LITERAL_unat unsigned_less[of a] by (simp add: unat_sub_if' word_less_nat_alt)
  then show ?thesis using assms(2) by (simp add: with_literal_def Let_def)
qed

lemma with_literal_cstr:
  assumes "0 \<notin> set lit" "length lit < 256"
  shows "cstr (with_literal lit m) LITERAL lit"
proof -
  have u: "unat (of_nat i :: 64 word) = i" if "i \<le> length lit" for i
    by (rule unat_of_nat_64) (use that assms(2) in simp)
  have "with_literal lit m (LITERAL + of_nat i) = (lit @ [0]) ! i" if "i \<le> length lit" for i
    using u[OF that] that by (auto simp: with_literal_def Let_def nth_append)
  then show ?thesis using assms(1) by (simp add: cstr_bytes_at bytes_at_def less_Suc_eq_le)
qed

lemma below_literal_addr:
  assumes "below_literal p n" "i < n"
  shows "p + of_nat i < LITERAL" "unat (p + of_nat i) = unat p + i"
proof -
  have "i < 2 ^ 64" using assms LITERAL_unat by (simp add: below_literal_def)
  then have i: "unat (of_nat i :: 64 word) = i" by (rule unat_of_nat_64)
  show u: "unat (p + of_nat i) = unat p + i"
    using assms LITERAL_unat by (subst unat_add_lem[THEN iffD1]) (simp_all add: below_literal_def i)
  show "p + of_nat i < LITERAL" using assms u by (simp add: word_less_nat_alt below_literal_def)
qed

lemma with_literal_bytes_at:
  assumes "below_literal p (length bs)" "length lit < 256"
  shows "bytes_at (with_literal lit m) p bs = bytes_at m p bs"
  by (rule bytes_at_cong) (simp add: with_literal_below[OF below_literal_addr(1)[OF assms(1)] assms(2)])

text \<open>\<open>strncmp\<close> of bytes without a terminator.\<close>

lemma strncmp_tail_eq:
  "bytes_at m p bs \<Longrightarrow> bytes_at m q bs \<Longrightarrow> 0 \<notin> set bs \<Longrightarrow> strncmp_tail m p q (length bs) 0 = 0"
  by (induction bs arbitrary: p q) (auto simp: bytes_at_Cons byte_diff_def Let_def strncmp_tail_step strncmp_step_def)

lemma strncmp_lit_eq:
  assumes "bytes_at m p (ascii lit)" "0 \<notin> set (ascii lit)" "length lit < 256" "below_literal p (length lit)"
    "unat n = length lit"
  shows "strncmp_lit m p lit n = 0"
proof -
  let ?m = "with_literal (ascii lit) m"
  have l: "length (ascii lit) = length lit" by (simp add: ascii_def)
  have "bytes_at ?m LITERAL (ascii lit)"
    using with_literal_cstr[of "ascii lit" m] assms(2,3) l by (simp add: cstr_bytes_at bytes_at_append)
  moreover have "bytes_at ?m p (ascii lit)" using assms(1,3,4) l by (simp add: with_literal_bytes_at)
  ultimately have "strncmp_tail ?m p LITERAL (length (ascii lit)) 0 = 0" using assms(2) by (intro strncmp_tail_eq)
  then show ?thesis by (simp add: strncmp_lit_def strncmp_unrolled assms(5) l)
qed

lemma strncmp_lit_cstr:
  assumes "cstr m p xs" "0 \<notin> set (ascii lit)" "length lit < 256" "below_literal p (length xs + 1)"
  shows "strncmp_lit m p lit n = 0 \<longleftrightarrow> take (unat n) xs = take (unat n) (ascii lit)"
proof -
  let ?m = "with_literal (ascii lit) m"
  have l: "length (ascii lit) = length lit" by (simp add: ascii_def)
  have "cstr ?m p xs" using assms(1,3,4) l by (simp add: cstr_bytes_at with_literal_bytes_at)
  moreover have "cstr ?m LITERAL (ascii lit)" using assms(2,3) l by (intro with_literal_cstr) simp_all
  ultimately show ?thesis
    using strncmp_tail_cstr[of ?m p xs LITERAL "ascii lit" "unat n"] by (simp add: strncmp_lit_def strncmp_unrolled)
qed

section \<open>Hexadecimal fields\<close>

primrec nibbles :: "nat \<Rightarrow> nat \<Rightarrow> nat list" where
  "nibbles 0 n = []"
| "nibbles (Suc k) n = nibbles k (n div 16) @ [n mod 16]"

definition hex8 :: "nat \<Rightarrow> 8 word list" where
  "hex8 n = map hex_digit (nibbles 8 n)"

lemma nibbles_props: "length (nibbles k n) = k" "\<forall>d \<in> set (nibbles k n). d < 16"
  "foldl (\<lambda>v d. v * 16 + d) 0 (nibbles k n) = n mod 16 ^ k"
proof (induction k arbitrary: n)
  case (Suc k)
  case 3
  have "n mod 16 ^ Suc k = n div 16 mod 16 ^ k * 16 + n mod 16"
    by (simp add: mod_mult2_eq mult.commute)
  then show ?case using Suc.IH(3)[of "n div 16"] by simp
qed (auto dest: bspec)

lemma hex8_length [simp]: "length (hex8 n) = 8"
  by (simp add: hex8_def nibbles_props)

lemma hex_digit_cases:
  assumes "d < 16"
  obtains "0x30 \<le> hex_digit d" "hex_digit d \<le> 0x39" "(ucast (hex_digit d) :: 'a::len word) - 0x30 = of_nat d"
    | "\<not> hex_digit d \<le> 0x39" "\<not> 0x61 \<le> hex_digit d" "0x41 \<le> hex_digit d" "hex_digit d \<le> 0x46"
      "(ucast (hex_digit d) :: 'a word) - 0x41 + 10 = of_nat d"
proof -
  have u: "unat (hex_digit d) = d + (if d > 9 then 55 else 48)"
  proof -
    have "d = 0 \<or> d = 1 \<or> d = 2 \<or> d = 3 \<or> d = 4 \<or> d = 5 \<or> d = 6 \<or> d = 7 \<or> d = 8 \<or> d = 9 \<or> d = 10 \<or> d = 11 \<or> d = 12 \<or> d = 13 \<or> d = 14 \<or> d = 15"
      using assms by presburger
    then show ?thesis by (elim disjE) (simp_all add: hex_digit_def)
  qed
  have "(ucast (hex_digit d) :: 'a word) = of_nat (unat (hex_digit d))" by (rule of_nat_unat[symmetric])
  then have c: "(ucast (hex_digit d) :: 'a word) = of_nat d + of_nat (if d > 9 then 55 else 48)" by (simp add: u)
  show thesis
  proof (cases "d > 9")
    case True
    have "(55 :: 'a word) - 65 + 10 = 0" by simp
    then have "(of_nat d :: 'a word) + 55 - 0x41 + 10 = of_nat d" by (metis add.assoc add.right_neutral add_diff_eq)
    then show thesis using that(2) u c assms True by (simp add: word_le_nat_alt)
  qed (use that(1) u c in \<open>simp add: word_le_nat_alt\<close>)
qed

lemma parse_hex_loop_digits:
  "bytes_at m p (map hex_digit ds) \<Longrightarrow> \<forall>d \<in> set ds. d < 16 \<Longrightarrow>
    parse_hex_loop m p (length ds) (of_nat v) = of_nat (foldl (\<lambda>v d. v * 16 + d) v ds)"
proof (induction ds arbitrary: p v)
  case (Cons d ds)
  have m: "m p = hex_digit d" and d: "d < 16" using Cons.prems by (simp_all add: bytes_at_Cons)
  have "parse_hex_loop m p (length (d # ds)) (of_nat v) = parse_hex_loop m (p + 1) (length ds) (of_nat (v * 16 + d))"
    using d by (rule hex_digit_cases[where 'a = 32]) (simp_all add: m)
  then show ?case using Cons.IH[of "p + 1" "v * 16 + d"] Cons.prems by (simp add: bytes_at_Cons)
qed simp

lemma parse_hex8:
  assumes "bytes_at m p (hex8 n)" "n < 2 ^ 32"
  shows "parse_hex_str m p 8 = of_nat n"
proof -
  have "(16 :: nat) ^ 8 = 2 ^ 32" by simp
  then have "foldl (\<lambda>v d. v * 16 + d) 0 (nibbles 8 n) = n" using nibbles_props(3)[of 8 n] assms(2) by simp
  then show ?thesis
    using parse_hex_loop_digits[of m p "nibbles 8 n" 0] assms(1) nibbles_props(1,2)[where k = 8 and n = n]
    by (simp add: parse_hex_str_def hex8_def)
qed

section \<open>Members\<close>

definition pad4 :: "nat \<Rightarrow> nat" where
  "pad4 n = (4 - n mod 4) mod 4"

lemma unat_of_nat_32: "n < 2 ^ 32 \<Longrightarrow> unat (of_nat n :: 32 word) = n"
  by (simp add: unat_of_nat take_bit_nat_eq_self)

lemma pad4_bound: "pad4 n < 4" by (simp add: pad4_def)

lemma align4_unat:
  assumes "unat x < 2 ^ 32 - 4"
  shows "unat (align4 x) = unat x + pad4 (unat x)"
proof (cases "unat x mod 4 = 0")
  case True
  then have "unat (x mod 4) = 0" by (simp add: unat_mod)
  then have "x mod 4 = 0" by (simp only: unat_eq_0)
  then show ?thesis using True by (simp add: align4_def pad4_def)
next
  case False
  have m: "unat (x mod 4) = unat x mod 4" by (simp add: unat_mod)
  then have "x mod 4 \<noteq> 0" using False by (metis unat_0)
  then have "align4 x = x + 4 - x mod 4" by (simp add: align4_def)
  moreover have "unat (x + 4) = unat x + 4" using assms by (subst unat_add_lem[THEN iffD1]) simp_all
  moreover have "x mod 4 \<le> x + 4" using calculation(2) m by (simp add: word_le_nat_alt trans_le_add1)
  ultimately have "unat (align4 x) = unat x + 4 - unat x mod 4" using m by (simp add: unat_sub)
  also have "\<dots> = unat x + pad4 (unat x)" using False by (simp add: pad4_def)
  finally show ?thesis .
qed

text \<open>A member with the given other fields (88 bytes), name and data.\<close>

definition newc_member :: "8 word list \<Rightarrow> 8 word list \<Rightarrow> 8 word list \<Rightarrow> 8 word list" where
  "newc_member f name data =
     ascii CPIO_NEWC_HEADER_MAGIC @ take 48 f @ hex8 (length data) @ take 32 (drop 48 f) @ hex8 (length name + 1) @ drop 80 f @
     name @ [0] @ replicate (pad4 (HEADER_SIZE + length name + 1)) 0 @ data @ replicate (pad4 (length data)) 0"

definition data_offset :: "8 word list \<Rightarrow> nat" where
  "data_offset name = HEADER_SIZE + length name + 1 + pad4 (HEADER_SIZE + length name + 1)"

lemma newc_member_length:
  "length f = 88 \<Longrightarrow> length (newc_member f name data) = data_offset name + length data + pad4 (length data)"
  by (simp add: newc_member_def data_offset_def HEADER_SIZE_def ascii_def CPIO_NEWC_HEADER_MAGIC_def)

text \<open>What the fields hold.\<close>

lemma newc_member_parts:
  assumes "bytes_at m p (newc_member f name data)" "length f = 88" "0 \<notin> set name"
  shows "bytes_at m p (ascii CPIO_NEWC_HEADER_MAGIC)" "bytes_at m (c_filesize p) (hex8 (length data))"
    "bytes_at m (c_namesize p) (hex8 (length name + 1))" "cstr m (p + of_nat HEADER_SIZE) name"
    "bytes_at m (p + of_nat (data_offset name)) data"
proof -
  have l: "length (ascii CPIO_NEWC_HEADER_MAGIC) = 6" by (simp add: ascii_def CPIO_NEWC_HEADER_MAGIC_def)
  note s = assms(1)[unfolded newc_member_def bytes_at_append]
  show "bytes_at m p (ascii CPIO_NEWC_HEADER_MAGIC)" using s by blast
  show "bytes_at m (c_filesize p) (hex8 (length data))" "bytes_at m (c_namesize p) (hex8 (length name + 1))"
    using s assms(2) by (simp_all add: l c_filesize_def c_namesize_def add.assoc)
  show "cstr m (p + of_nat HEADER_SIZE) name"
    using s assms(2,3) by (simp add: l cstr_bytes_at bytes_at_append HEADER_SIZE_def add.assoc)
  show "bytes_at m (p + of_nat (data_offset name)) data"
    using s assms(2) by (simp add: l data_offset_def HEADER_SIZE_def ac_simps)
qed

definition TRAILER :: "8 word list" where "TRAILER = ascii ''TRAILER!!!''"

lemma ascii_lits:
  "ascii CPIO_NEWC_HEADER_MAGIC = [0x30, 0x37, 0x30, 0x37, 0x30, 0x31]"
  "TRAILER = [0x54, 0x52, 0x41, 0x49, 0x4C, 0x45, 0x52, 0x21, 0x21, 0x21]"
  by (simp_all add: TRAILER_def ascii_def CPIO_NEWC_HEADER_MAGIC_def)

lemma parse_member:
  assumes b: "bytes_at m p (newc_member f name data)" and f: "length f = 88" "0 \<notin> set name"
    and sz: "length name < 2 ^ 31" "length data < 2 ^ 31"
    and lit: "below_literal p (length (newc_member f name data))"
  shows "cpio_newc_parse_header m p =
    Some (p + of_nat HEADER_SIZE, of_nat (length data), p + of_nat (data_offset name),
      if name = TRAILER then 0 else p + of_nat (length (newc_member f name data)))"
proof -
  note q = newc_member_parts[OF b f]
  note len = newc_member_length[OF f(1), of name data]
  have "strncmp_lit m p CPIO_NEWC_HEADER_MAGIC 6 = 0"
    by (rule strncmp_lit_eq[OF q(1)])
      (use lit len in \<open>simp_all add: ascii_lits(1), simp_all add: CPIO_NEWC_HEADER_MAGIC_def below_literal_def data_offset_def HEADER_SIZE_def\<close>)
  moreover have fs: "parse_hex_str m (c_filesize p) 8 = of_nat (length data)" by (rule parse_hex8[OF q(2)]) (use sz in simp)
  moreover have ns: "parse_hex_str m (c_namesize p) 8 = of_nat (length name + 1)" by (rule parse_hex8[OF q(3)]) (use sz in simp)
  moreover have "ucast (align4 (of_nat (length name + 1) + of_nat HEADER_SIZE)) = (of_nat (data_offset name) :: 64 word)"
  proof -
    have u: "unat (of_nat (length name + 1) + of_nat HEADER_SIZE :: 32 word) = HEADER_SIZE + length name + 1"
      by (simp only: of_nat_add[symmetric], subst unat_of_nat_32) (use sz(1) in \<open>simp_all add: HEADER_SIZE_def\<close>)
    have "unat (align4 (of_nat (length name + 1) + of_nat HEADER_SIZE)) = data_offset name"
      using align4_unat[of "of_nat (length name + 1) + of_nat HEADER_SIZE", unfolded u] sz(1)
      by (simp only: data_offset_def) (simp add: HEADER_SIZE_def)
    then show ?thesis by (metis of_nat_unat)
  qed
  moreover have "(if of_nat (length data) = (0 :: 32 word) then 0 else ucast (align4 (of_nat (length data)))) =
      (of_nat (length data + pad4 (length data)) :: 64 word)"
  proof (cases "length data = 0")
    case False
    have u: "unat (of_nat (length data) :: 32 word) = length data"
      by (rule unat_of_nat_32) (use sz(2) in simp)
    then have "of_nat (length data) \<noteq> (0 :: 32 word)" using False by (metis unat_0)
    moreover have "unat (align4 (of_nat (length data))) = length data + pad4 (length data)"
      using align4_unat[of "of_nat (length data)", unfolded u] sz(2) by simp
    ultimately show ?thesis by (metis of_nat_unat)
  qed (simp add: pad4_def)
  moreover have "strncmp_lit m (p + of_nat HEADER_SIZE) ''TRAILER!!!'' 11 = 0 \<longleftrightarrow> name = TRAILER"
  proof -
    have "below_literal (p + of_nat HEADER_SIZE) (length name + 1)"
      using lit len below_literal_addr(2)[OF lit, of HEADER_SIZE] by (simp add: below_literal_def data_offset_def)
    then have "strncmp_lit m (p + of_nat HEADER_SIZE) ''TRAILER!!!'' 11 = 0 \<longleftrightarrow> take 11 name = take 11 TRAILER"
      using strncmp_lit_cstr[OF q(4), of "''TRAILER!!!''" 11] by (simp add: TRAILER_def[symmetric] ascii_lits)
    also have "\<dots> \<longleftrightarrow> name = TRAILER"
    proof
      assume t: "take 11 name = take 11 TRAILER"
      then have "length (take 11 name) = 10" by (simp add: ascii_lits)
      then have "length name = 10" by simp
      with t show "name = TRAILER" by (simp add: ascii_lits)
    qed simp
    finally show ?thesis .
  qed
  ultimately show ?thesis
    by (simp add: cpio_newc_parse_header_def Let_def len ac_simps del: of_nat_add split: if_splits)
      (simp_all add: of_nat_add[of "data_offset name"] del: of_nat_add)
qed

end
