(* ===== verification/Bytes.thy ===== *)
theory Bytes
  imports Cpio_Inv
begin

text \<open>
  Numbers in byte streams: the big-endian encoding that the upload protocol and the device tree use.
\<close>

unbundle bit_operations_syntax

definition be32 :: "32 word \<Rightarrow> 8 word list" where
  "be32 n = [ucast (drop_bit 24 n), ucast (drop_bit 16 n), ucast (drop_bit 8 n), ucast n]"

lemma be32_length [simp]: "length (be32 n) = 4"
  by (simp add: be32_def)

lemma bit_byte_of: "bit (push_bit j (ucast (ucast (drop_bit j n) :: 8 word)) :: 32 word) i \<longleftrightarrow> j \<le> i \<and> i < j + 8 \<and> i < 32 \<and> bit (n :: 32 word) i"
  by (auto simp: bit_simps)

lemma be32_value:
  "push_bit 24 (ucast (ucast (drop_bit 24 n) :: 8 word)) OR push_bit 16 (ucast (ucast (drop_bit 16 n) :: 8 word)) OR
     push_bit 8 (ucast (ucast (drop_bit 8 n) :: 8 word)) OR ucast (ucast n :: 8 word) = (n :: 32 word)"
  (is "?v = n")
proof (rule bit_word_eqI)
  fix i assume i: "i < LENGTH(32)"
  have z: "bit (ucast (ucast n :: 8 word) :: 32 word) i \<longleftrightarrow> i < 8 \<and> bit n i" by (auto simp: bit_simps)
  have "bit ?v i \<longleftrightarrow> (24 \<le> i \<and> i < 24 + 8 \<or> 16 \<le> i \<and> i < 16 + 8 \<or> 8 \<le> i \<and> i < 8 + 8 \<or> i < 8) \<and> bit n i"
    unfolding bit_or_iff bit_byte_of z using i by auto
  also have "\<dots> \<longleftrightarrow> bit n i" using i by auto
  finally show "bit ?v i \<longleftrightarrow> bit n i" .
qed

end
