(* ===== verification/Dtb_Inv.thy ===== *)
theory Dtb_Inv
  imports Dtb Bytes
begin

text \<open>
  The structure block of a device tree as a list of items, its encoding in the flattened format
  (the specification of devicetree.org, whose token for the end of the block is 9 and for padding 4,
  unlike the constants of \<open>dtb.h\<close>), and the walk of \<open>fdt_traverse\<close> over it: the callback is called once
  for every property, in order.  The walk does not stop at the end of the block: it goes on through
  what follows, up to a zero word or \<open>totalsize\<close>.
\<close>

unbundle bit_operations_syntax

section \<open>Items and their encoding\<close>

datatype fdt_item = Node "8 word list" | Property "32 word" "8 word list" | Leave | Nop

text \<open>Tokens of the format that \<open>dtb.h\<close> has other numbers for.\<close>

definition TOKEN_NOP :: "32 word" where "TOKEN_NOP = 4"
definition TOKEN_END :: "32 word" where "TOKEN_END = 9"

fun encode :: "fdt_item \<Rightarrow> 8 word list" where
  "encode (Node name) = be32 FDT_BEGIN_NODE @ name @ [0] @ replicate (pad4 (length name + 1)) 0"
| "encode (Property off v) = be32 FDT_PROP @ be32 (of_nat (length v)) @ be32 off @ v @ replicate (pad4 (length v)) 0"
| "encode Leave = be32 FDT_END_NODE"
| "encode Nop = be32 TOKEN_NOP"

primrec encode_all :: "fdt_item list \<Rightarrow> 8 word list" where
  "encode_all [] = be32 TOKEN_END"
| "encode_all (x # xs) = encode x @ encode_all xs"

fun item_ok :: "fdt_item \<Rightarrow> bool" where
  "item_ok (Node name) \<longleftrightarrow> 0 \<notin> set name"
| "item_ok (Property off v) \<longleftrightarrow> length v < 2 ^ 32"
| "item_ok _ \<longleftrightarrow> True"

text \<open>The arguments of the callback: node name, property name, address of the value, the value.\<close>

fun properties :: "addr \<Rightarrow> addr \<Rightarrow> addr ptr \<Rightarrow> fdt_item list \<Rightarrow> (addr ptr \<times> addr \<times> addr \<times> 8 word list) list" where
  "properties strings p node [] = []"
| "properties strings p node (Node name # xs) =
     properties strings (p + of_nat (length (encode (Node name)))) (Some (p + 4)) xs"
| "properties strings p node (Property off v # xs) =
     (node, strings + ucast off, p + 12, v) # properties strings (p + of_nat (length (encode (Property off v)))) node xs"
| "properties strings p node (x # xs) = properties strings (p + 4) node xs"

fun visit :: "fdt_callback \<Rightarrow> (addr ptr \<times> addr \<times> addr \<times> 8 word list) list \<Rightarrow> kern \<Rightarrow> kern option" where
  "visit callback [] s = Some s"
| "visit callback ((node, name, a, v) # ps) s =
     (case callback node name a (of_nat (length v)) s of None \<Rightarrow> None | Some s1 \<Rightarrow> visit callback ps s1)"

section \<open>Reading numbers and strings\<close>

lemma bit_rcat32:
  "bit (word_rcat (ws :: 8 word list) :: 32 word) n \<longleftrightarrow> n < 32 \<and> n div 8 < length ws \<and> bit (rev ws ! (n div 8)) (n mod 8)"
  using bit_horner_sum_uint_exp_iff[of "rev ws" n] by (simp add: word_rcat_def bit_word_of_int_iff)

lemma be_load_bit:
  assumes "n < 32"
  shows "bit (be_load m a) n \<longleftrightarrow> bit (m (a + of_nat (3 - n div 8))) (n mod 8)"
proof -
  have "n div 8 < 4" using assms by (simp add: less_mult_imp_div_less)
  then have k: "n div 8 = 0 \<or> n div 8 = 1 \<or> n div 8 = 2 \<or> n div 8 = 3" by auto
  let ?k = "8 * (3 - n div 8) + n mod 8"
  have d: "?k div 8 = 3 - n div 8" "?k mod 8 = n mod 8" "?k < 32" by auto
  have "bit (be_load m a) n \<longleftrightarrow> bit (load32 m a) ?k" by (simp add: be_load_def endian32_bit[OF assms])
  also have "\<dots> \<longleftrightarrow> bit (rev [m (a + 3), m (a + 2), m (a + 1), m a] ! (3 - n div 8)) (n mod 8)"
    using d by (simp add: load32_def bit_rcat32)
  also have "rev [m (a + 3), m (a + 2), m (a + 1), m a] ! (3 - n div 8) = m (a + of_nat (3 - n div 8))"
    using k by (elim disjE) simp_all
  finally show ?thesis .
qed

lemma be_load_be32:
  assumes "bytes_at m p (be32 n)"
  shows "be_load m p = n"
proof (rule bit_word_eqI)
  fix i assume "i < LENGTH(32)"
  then have i: "i < 32" by simp
  then have "i div 8 < 4" by (simp add: less_mult_imp_div_less)
  have "m (p + of_nat (3 - i div 8)) = be32 n ! (3 - i div 8)" using assms by (simp add: bytes_at_def be32_def)
  also have "\<dots> = ucast (drop_bit (8 * (i div 8)) n)"
  proof -
    have "i div 8 = 0 \<or> i div 8 = 1 \<or> i div 8 = 2 \<or> i div 8 = 3" using \<open>i div 8 < 4\<close> by auto
    then show ?thesis by (elim disjE) (simp_all add: be32_def)
  qed
  finally have "bit (be_load m p) i \<longleftrightarrow> bit (ucast (drop_bit (8 * (i div 8)) n) :: 8 word) (i mod 8)"
    by (simp add: be_load_bit[OF i])
  also have "\<dots> \<longleftrightarrow> bit n (8 * (i div 8) + i mod 8)" by (simp add: bit_simps)
  finally show "bit (be_load m p) i = bit n i" by simp
qed

lemma round_pad4: "(n + 3) div 4 * 4 = n + pad4 n"
proof -
  define q r where "q = n div 4" and "r = n mod 4"
  have n: "n = r + 4 * q" and r: "r < 4" by (simp_all add: q_def r_def)
  have "(n + 3) div 4 = (r + 3 + 4 * q) div 4" by (simp add: n ac_simps)
  then have d: "(n + 3) div 4 = (r + 3) div 4 + q" by simp
  have "r = 0 \<or> r = 1 \<or> r = 2 \<or> r = 3" using r by auto
  then have "(r + 3) div 4 * 4 = r + (4 - r) mod 4" by (elim disjE) simp_all
  moreover have "pad4 n = (4 - r) mod 4" by (simp add: pad4_def r_def)
  moreover have "(n + 3) div 4 * 4 = (r + 3) div 4 * 4 + 4 * q" by (simp add: d)
  ultimately show ?thesis using n by linarith
qed

lemma align_up4:
  assumes "unat p mod 4 = 0" "unat p + n + 4 \<le> 2 ^ 64"
  shows "utils_align (p + of_nat n) 4 = p + of_nat (n + pad4 n)"
proof -
  have n: "unat (of_nat n :: 64 word) = n" by (rule unat_of_nat_64) (use assms in simp)
  have u: "unat (p + of_nat n) = unat p + n" using assms by (subst unat_add_lem[THEN iffD1]) (simp_all add: n)
  have n': "unat (of_nat (n + pad4 n) :: 64 word) = n + pad4 n"
    by (rule unat_of_nat_64) (use assms pad4_bound[of n] in simp)
  have u': "unat (p + of_nat (n + pad4 n)) = unat p + (n + pad4 n)"
    using assms pad4_bound[of n] by (subst unat_add_lem[THEN iffD1]) (simp_all only: n', simp)
  have "unat (utils_align (p + of_nat n) (2 ^ 2)) = (unat p + n + 2 ^ 2 - 1) div 2 ^ 2 * 2 ^ 2"
    using utils_align_pow2[of 2 "p + of_nat n"] assms u by simp
  also have "\<dots> = unat p + (n + pad4 n)"
  proof -
    obtain k where k: "unat p = 4 * k" using assms(1) by (auto elim: dvdE simp: dvd_eq_mod_eq_0)
    have "(n + 3) div 4 * 4 = n + pad4 n" by (rule round_pad4)
    moreover have "(4 * k + (n + 3)) div 4 = k + (n + 3) div 4" by simp
    moreover have "4 * k + n + 2 ^ 2 - 1 = 4 * k + (n + 3)" by simp
    ultimately show ?thesis unfolding k by (simp only: power2_eq_square) simp
  qed
  finally have "unat (utils_align (p + of_nat n) 4) = unat (p + of_nat (n + pad4 n))" unfolding u' by simp
  then show ?thesis by (rule iffD1[OF word_unat_eq_iff[symmetric]])
qed

section \<open>The walk over an encoded block\<close>

definition keeps_blob :: "fdt_callback \<Rightarrow> bool" where
  "keeps_blob callback \<longleftrightarrow> (\<forall>n p a l s s'. callback n p a l s = Some s' \<longrightarrow> bytes s' = bytes s \<and> dtb_base s' = dtb_base s)"

lemma unat_plus_of_nat:
  assumes "unat (p :: 64 word) + n < 2 ^ 64"
  shows "unat (p + of_nat n) = unat p + n"
proof -
  have n: "unat (of_nat n :: 64 word) = n" by (rule unat_of_nat_64) (use assms in simp)
  show ?thesis using assms by (subst unat_add_lem[THEN iffD1]) (simp_all add: n)
qed

lemma encode_length: "length (encode x) = (case x of Node name \<Rightarrow> 4 + (length name + 1 + pad4 (length name + 1))
    | Property off v \<Rightarrow> 12 + (length v + pad4 (length v)) | _ \<Rightarrow> 4)"
  by (cases x) simp_all

lemma pad4_mod: "(n + pad4 n) mod 4 = 0"
  by (simp only: round_pad4[symmetric]) simp

lemma encode_length_mod4: "length (encode x) mod 4 = 0"
proof (cases x)
  case (Node name)
  show ?thesis using pad4_mod[of "length name + 1"] unfolding Node encode_length fdt_item.case by (simp only: mod_add_self1)
next
  case (Property off v)
  have "(12 + (length v + pad4 (length v))) mod 4 = (length v + pad4 (length v)) mod 4" by presburger
  then show ?thesis unfolding Property encode_length fdt_item.case pad4_mod .
qed (simp_all add: encode_length)

lemma in_blob:
  assumes "unat p + k < unat e" shows "p + of_nat k < (e :: addr)"
proof -
  have "unat p + k < 2 ^ 64" using assms unsigned_less[of e, where 'a = nat] by simp
  then show ?thesis using assms by (simp add: word_less_nat_alt unat_plus_of_nat)
qed

text \<open>Behind the end of the block: no aligned word reads as the start of a node or of a property.\<close>

definition tail_inert :: "Cstring.mem \<Rightarrow> addr \<Rightarrow> addr \<Rightarrow> bool" where
  "tail_inert m q e \<longleftrightarrow> (\<forall>k. unat q + 4 * k < unat e \<longrightarrow>
     be_load m (q + of_nat (4 * k)) \<noteq> FDT_BEGIN_NODE \<and> be_load m (q + of_nat (4 * k)) \<noteq> FDT_PROP)"

lemma inert_word:
  assumes "m a \<noteq> 0"
  shows "be_load m a \<noteq> FDT_BEGIN_NODE \<and> be_load m a \<noteq> FDT_PROP"
proof -
  obtain j where j: "j < 8" "bit (m a) j" using assms by (auto simp: bit_eq_iff)
  then have "(24 + j) div 8 = 3" "(24 + j) mod 8 = j" by presburger+
  then have "bit (be_load m a) (24 + j)" using j by (subst be_load_bit) simp_all
  moreover have "\<not> bit (1 :: 32 word) (24 + j)" "\<not> bit (3 :: 32 word) (24 + j)"
    using bit_mask_iff[of 2 "24 + j", where 'a = "32 word"] by (simp_all add: mask_eq_decr_exp bit_1_iff)
  ultimately show ?thesis by (auto simp: FDT_BEGIN_NODE_def FDT_PROP_def)
qed

lemma tail_inert_step:
  assumes "tail_inert m q e" "unat (q + 4) = unat q + 4"
  shows "tail_inert m (q + 4) e"
  unfolding tail_inert_def
proof (intro allI impI)
  fix k assume "unat (q + 4) + 4 * k < unat e"
  then have "unat q + 4 * Suc k < unat e" using assms(2) by simp
  moreover have "q + 4 + of_nat (4 * k) = q + of_nat (4 * Suc k)" by simp
  ultimately show "be_load m (q + 4 + of_nat (4 * k)) \<noteq> FDT_BEGIN_NODE \<and> be_load m (q + 4 + of_nat (4 * k)) \<noteq> FDT_PROP"
    using assms(1) unfolding tail_inert_def by metis
qed

lemma fdt_loop_tail:
  assumes "e = dtb_base s + ucast (totalsize (fdt_header_at (bytes s) (dtb_base s)))" "unat e + 4 < 2 ^ 64"
    and "tail_inert (bytes s) q e"
  shows "fdt_loop cb node q s = Some s"
  using assms(3)
proof (induction "unat e - unat q" arbitrary: q rule: less_induct)
  case less
  show ?case
  proof (cases "q < e")
    case False
    then show ?thesis using assms(1) by (subst fdt_loop.simps) (simp add: Let_def)
  next
    case True
    then have lt: "unat q < unat e" by (simp add: word_less_nat_alt)
    then have u: "unat (q + 4) = unat q + 4" using unat_plus_of_nat[of q 4] assms(2) by simp
    have "fdt_loop cb node (q + 4) s = Some s"
      by (rule less.hyps[OF _ tail_inert_step[OF less.prems u]]) (use lt u in simp)
    moreover have "be_load (bytes s) q \<noteq> FDT_BEGIN_NODE" "be_load (bytes s) q \<noteq> FDT_PROP"
      using less.prems[unfolded tail_inert_def, rule_format, of 0] lt by simp_all
    ultimately show ?thesis using True assms(1) by (subst fdt_loop.simps) (simp add: Let_def)
  qed
qed

lemma fdt_loop_visits:
  assumes kb: "keeps_blob cb" and ok: "list_all item_ok xs"
    and at: "bytes_at (bytes s) p (encode_all xs)" "unat p mod 4 = 0"
    and e: "e = dtb_base s + ucast (totalsize (fdt_header_at (bytes s) (dtb_base s)))" "unat p + length (encode_all xs) \<le> unat e"
      "unat e + 4 < 2 ^ 64"
    and ti: "tail_inert (bytes s) (p + of_nat (length (encode_all xs))) e"
    and st: "strings = dtb_base s + ucast (off_dt_strings (fdt_header_at (bytes s) (dtb_base s)))"
  shows "fdt_loop cb node p s = visit cb (properties strings p node xs) s"
  using ok at e st ti
proof (induction xs arbitrary: p node s)
  case Nil
  have "be_load (bytes s) p = TOKEN_END" using Nil.prems(2) by (intro be_load_be32) simp
  moreover have "p < e" using Nil.prems(5) in_blob[of p 0 e] by simp
  moreover have "fdt_loop cb node (p + 4) s = Some s"
    by (rule fdt_loop_tail[OF Nil.prems(4,6)]) (use Nil.prems(8) in simp)
  ultimately show ?case using Nil.prems(4)
    by (subst fdt_loop.simps)
      (simp add: Let_def TOKEN_END_def FDT_END_def FDT_BEGIN_NODE_def FDT_PROP_def FDT_END_NODE_def FDT_NOP_def)
next
  case (Cons x xs)
  let ?l = "length (encode x)"
  have b: "bytes_at (bytes s) p (encode x)" "bytes_at (bytes s) (p + of_nat ?l) (encode_all xs)"
    using Cons.prems(2) by (simp_all add: bytes_at_append)
  have len: "unat p + ?l + length (encode_all xs) \<le> unat e" using Cons.prems(5) by simp
  then have up: "unat (p + of_nat ?l) = unat p + ?l" using Cons.prems(6) by (intro unat_plus_of_nat) simp
  have "unat p + ?l < unat e" using len by (cases xs) (auto simp: encode_length split: fdt_item.splits)
  then have lt: "p < e" by (simp add: word_less_nat_alt)
  have al: "unat (p + of_nat ?l) mod 4 = 0" using up Cons.prems(3) encode_length_mod4[of x] by (simp add: mod_add_eq[symmetric])
  have IH: "fdt_loop cb node (p + of_nat ?l) s' = visit cb (properties strings (p + of_nat ?l) node xs) s'"
    if "bytes s' = bytes s" "dtb_base s' = dtb_base s" for node s'
    by (rule Cons.IH) (use Cons.prems b al len up that in \<open>auto simp: add.assoc\<close>)
  have m12: "(unat p + 12) mod 4 = 0" "(unat p + 4) mod 4 = 0" using Cons.prems(3) by presburger+
  show ?case
  proof (cases x)
    case (Node name)
    have t: "be_load (bytes s) p = FDT_BEGIN_NODE" using b(1) Node by (intro be_load_be32) (simp add: bytes_at_append)
    have c: "cstr (bytes s) (p + 4) name"
      using b(1) Node Cons.prems(1) by (simp add: cstr_bytes_at bytes_at_append bytes_at_Cons add.assoc, simp add: bytes_at_def)
    have q: "p + 4 + of_nat (length name) + 1 = (p + 4) + of_nat (length name + 1)" by simp
    have u4: "unat (p + 4) = unat p + 4" using unat_plus_of_nat[of p 4] \<open>unat p + ?l < unat e\<close> Cons.prems(6) by simp
    have "utils_align (p + 4 + of_nat (length name) + 1) 4 = (p + 4) + of_nat (length name + 1 + pad4 (length name + 1))"
      unfolding q by (rule align_up4) (use u4 m12 Cons.prems(6) \<open>unat p + ?l < unat e\<close> Node in \<open>simp_all add: encode_length\<close>)
    then have a: "utils_align (p + 4 + of_nat (length name) + 1) 4 = p + of_nat ?l" by (simp add: Node encode_length)
    show ?thesis using lt Cons.prems(4) IH[of s "Some (p + 4)"] a
      by (subst fdt_loop.simps) (simp add: Let_def t utils_strlen_cstr[OF c] Node del: encode.simps)
  next
    case (Property off v)
    note b' = b(1)[unfolded Property encode.simps bytes_at_append be32_length]
    have t: "be_load (bytes s) p = FDT_PROP" using b' by (intro be_load_be32) simp
    have l: "be_load (bytes s) (p + 4) = of_nat (length v)" using b' by (intro be_load_be32) (simp add: add.assoc)
    have o: "be_load (bytes s) (p + 8) = off" using b' by (intro be_load_be32) (simp add: add.assoc)
    have uv: "unat (of_nat (length v) :: 32 word) = length v" using Cons.prems(1) Property by (intro unat_of_nat_32) simp
    then have vv: "ucast (of_nat (length v) :: 32 word) = (of_nat (length v) :: 64 word)" by (metis of_nat_unat)
    have u12: "unat (p + 12) = unat p + 12"
      using unat_plus_of_nat[of p 12] \<open>unat p + ?l < unat e\<close> Cons.prems(6) Property by (simp add: encode_length)
    have "utils_align ((p + 12) + of_nat (length v)) 4 = (p + 12) + of_nat (length v + pad4 (length v))"
      by (rule align_up4) (use u12 m12 Cons.prems(6) \<open>unat p + ?l < unat e\<close> Property in \<open>simp_all add: encode_length\<close>)
    then have a: "utils_align (p + 12 + of_nat (length v)) 4 = p + of_nat ?l" by (simp add: Property encode_length)
    show ?thesis
    proof (cases "cb node (strings + ucast off) (p + 12) (of_nat (length v)) s")
      case None
      then show ?thesis using lt Cons.prems(4,7)
        by (subst fdt_loop.simps) (simp add: Let_def t l o add.commute[of 8 p] add.commute[of 12 p] Property FDT_PROP_def FDT_BEGIN_NODE_def del: encode.simps)
    next
      case (Some s')
      have "bytes s' = bytes s" "dtb_base s' = dtb_base s" using kb Some by (auto simp: keeps_blob_def)
      note i = IH[OF this, of node]
      show ?thesis using lt Cons.prems(4,7) Some i a
        by (subst fdt_loop.simps) (simp add: Let_def t l o vv add.commute[of 8 p] add.commute[of 12 p] Property FDT_PROP_def FDT_BEGIN_NODE_def del: encode.simps)
    qed
  next
    case Leave
    have t: "be_load (bytes s) p = FDT_END_NODE" using b(1) Leave by (intro be_load_be32) simp
    show ?thesis using lt Cons.prems(4) IH[of s node] t Leave
      by (subst fdt_loop.simps) (simp add: Let_def FDT_PROP_def FDT_BEGIN_NODE_def FDT_END_NODE_def)
  next
    case Nop
    have t: "be_load (bytes s) p = TOKEN_NOP" using b(1) Nop by (intro be_load_be32) simp
    show ?thesis using lt Cons.prems(4) IH[of s node] t Nop
      by (subst fdt_loop.simps)
        (simp add: Let_def TOKEN_NOP_def FDT_PROP_def FDT_BEGIN_NODE_def FDT_END_NODE_def FDT_NOP_def FDT_END_def)
  qed
qed

end
