(* ===== verification/Dtb_Props.thy ===== *)
theory Dtb_Props
  imports Text_Props Syscall_Props Dtb_Inv "HOL-Library.Sublist"
begin

text \<open>
  The walk of \<open>main\<close> that finds the initial RAM disk: \<open>fdt_traverse\<close> with \<open>initramfs_callback\<close>.
\<close>

section \<open>Blobs\<close>

definition blob_header :: "kern \<Rightarrow> fdt_header" where
  "blob_header s = fdt_header_at (bytes s) (dtb_base s)"

definition blob_struct :: "kern \<Rightarrow> addr" where
  "blob_struct s = dtb_base s + ucast (off_dt_struct (blob_header s))"

text \<open>A device tree with the items \<open>xs\<close> at \<open>dtb_base\<close>, aligned and inside its \<open>totalsize\<close>, with nothing
  behind its structure block that reads like a node or a property.\<close>

definition fdt_blob :: "kern \<Rightarrow> fdt_item list \<Rightarrow> bool" where
  "fdt_blob s xs \<longleftrightarrow> dtb_base s \<noteq> 0 \<and> magic (blob_header s) = FDT_MAGIC_NUMBER \<and> unat (blob_struct s) mod 4 = 0 \<and>
     list_all item_ok xs \<and> bytes_at (bytes s) (blob_struct s) (encode_all xs) \<and>
     unat (blob_struct s) + length (encode_all xs) \<le> unat (dtb_base s) + unat (totalsize (blob_header s)) \<and>
     unat (dtb_base s) + unat (totalsize (blob_header s)) + 4 < 2 ^ 64 \<and>
     tail_inert (bytes s) (blob_struct s + of_nat (length (encode_all xs))) (dtb_base s + ucast (totalsize (blob_header s)))"

definition blob_properties :: "kern \<Rightarrow> fdt_item list \<Rightarrow> (addr ptr \<times> addr \<times> addr \<times> 8 word list) list" where
  "blob_properties s xs =
     properties (dtb_base s + ucast (off_dt_strings (blob_header s))) (blob_struct s) None xs"

lemma blob_con [simp]: "blob_header (s\<lparr>con := c\<rparr>) = blob_header s" "blob_struct (s\<lparr>con := c\<rparr>) = blob_struct s"
  "blob_properties (s\<lparr>con := c\<rparr>) xs = blob_properties s xs"
  by (simp_all add: blob_header_def blob_struct_def blob_properties_def)

lemma ucast_unat64: "unat (ucast (w :: 32 word) :: 64 word) = unat w"
  using unsigned_less[of w, where 'a = nat] by (simp add: unsigned_ucast_eq take_bit_nat_eq_self)

lemma fdt_traverse_visits:
  assumes "fdt_blob s xs" "keeps_blob cb"
  shows "\<exists>c. fdt_traverse x20 cb s = visit cb (blob_properties s xs) (s\<lparr>con := c\<rparr>)"
proof -
  note b = assms(1)[unfolded fdt_blob_def]
  obtain c where c: "klog (''Valid FDT magic number!'' @ [CHR 0x0A]) s = s\<lparr>con := c\<rparr>" using klog_con by blast
  let ?s = "s\<lparr>con := c\<rparr>" and ?e = "dtb_base s + ucast (totalsize (blob_header s))"
  have "unat ?e = unat (dtb_base s) + unat (totalsize (blob_header s))"
    by (subst unat_add_lem[THEN iffD1]) (use b in \<open>simp_all add: ucast_unat64\<close>)
  then have "fdt_loop cb None (blob_struct s) ?s = visit cb (blob_properties s xs) ?s"
    unfolding blob_properties_def
    by (intro fdt_loop_visits[where e = ?e, OF assms(2)]) (use b in \<open>simp_all add: blob_header_def\<close>)
  moreover have "fdt_traverse x20 cb s = fdt_loop cb None (blob_struct s) ?s"
    using b c by (simp add: fdt_traverse_def Let_def blob_header_def[symmetric] blob_struct_def del: append.simps)
  ultimately show ?thesis by auto
qed

lemma properties_bytes:
  "bytes_at m p (encode_all xs) \<Longrightarrow> (node', name, a, v) \<in> set (properties st p node xs) \<Longrightarrow> bytes_at m a v"
proof (induction xs arbitrary: p node)
  case (Cons x xs)
  have b: "bytes_at m p (encode x)" "bytes_at m (p + of_nat (length (encode x))) (encode_all xs)"
    using Cons.prems(1) by (simp_all add: bytes_at_append)
  show ?case
  proof (cases x)
    case (Property off u)
    have "bytes_at m (p + 12) u" using b(1) Property by (simp add: bytes_at_append add.assoc)
    then show ?thesis using Cons.IH[OF b(2)] Cons.prems(2) Property by auto
  qed (use Cons.IH[OF b(2)] Cons.prems(2) in auto)
qed simp

section \<open>Texts in memory\<close>

lemma get_text_cstr: "cstr m p xs \<Longrightarrow> get_text m p = Some xs"
proof (induction xs arbitrary: p)
  case (Cons x xs)
  then show ?case by (subst get_text.simps) simp
qed (simp add: get_text.simps)

lemma char_of_ascii: "map (\<lambda>b. char_of (unat b)) (ascii t) = t"
proof -
  have "char_of (unat (of_nat (of_char c) :: 8 word)) = c" for c :: char
  proof -
    have "(of_char c :: nat) < 256" using of_char_mod_256[of c, where 'a = nat] by (metis mod_less_divisor zero_less_numeral)
    then have "unat (of_nat (of_char c) :: 8 word) = of_char c" by (simp add: unat_of_nat take_bit_nat_eq_self)
    then show ?thesis by simp
  qed
  then show ?thesis by (simp add: ascii_def comp_def)
qed

lemma user_text_ascii: "cstr (bytes s) p (ascii t) \<Longrightarrow> user_text p s = Some t"
  by (simp add: user_text_def get_text_cstr char_of_ascii)

lemma string_compare_same:
  assumes "cstr m p xs" "cstr m q xs" "list_all (\<lambda>c. \<not> skipped c) xs"
  shows "utils_string_compare m p q = Some True"
  using utils_string_compare_correct[OF assms(1,2,3,3), of xs "[]" "[]"] by simp

section \<open>The callback\<close>

definition initrd_target :: "Cstring.mem \<Rightarrow> addr \<Rightarrow> addr \<Rightarrow> bool" where
  "initrd_target m tnode tprop \<longleftrightarrow> cstr m tnode (ascii ''chosen'') \<and> cstr m tprop (ascii ''linux,initrd-start'') \<and>
     below_literal tprop 19"

text \<open>The comparisons with the targets answer; both agree.\<close>

definition decided :: "Cstring.mem \<Rightarrow> addr \<Rightarrow> addr \<Rightarrow> addr ptr \<times> addr \<times> addr \<times> 8 word list \<Rightarrow> bool" where
  "decided m tnode tprop = (\<lambda>(node, name, a, v). \<exists>n x. node = Some n \<and> utils_string_compare m n tnode = Some x \<and>
     (x \<longrightarrow> utils_string_compare m name tprop \<noteq> None))"

definition agrees :: "Cstring.mem \<Rightarrow> addr \<Rightarrow> addr \<Rightarrow> addr ptr \<times> addr \<times> addr \<times> 8 word list \<Rightarrow> bool" where
  "agrees m tnode tprop = (\<lambda>(node, name, a, v). \<exists>n. node = Some n \<and> utils_string_compare m n tnode = Some True \<and>
     utils_string_compare m name tprop = Some True)"

lemma keeps_initramfs_callback: "keeps_blob (initramfs_callback tnode tprop)"
proof -
  have k: "bytes s' = bytes s \<and> dtb_base s' = dtb_base s" if "log_target tnode tprop v s = Some s'" for v s s'
    using that by (auto simp: log_target_def klog_user_def klog_text_def klog_def klog_hex_def split: option.splits sum.splits)
  show ?thesis unfolding keeps_blob_def initramfs_callback_def
    by (auto simp: Let_def dest!: k split: option.splits bool.splits)
qed

lemma log_target_total:
  assumes "initrd_target (bytes s) tnode tprop"
  shows "\<exists>c. log_target tnode tprop v s = Some (s\<lparr>con := c\<rparr>)"
proof -
  obtain c0 where c0: "klog ''Target Node: '' s = s\<lparr>con := c0\<rparr>" using klog_con by blast
  have t: "user_text tnode (s\<lparr>con := c0\<rparr>) = Some ''chosen''"
    using assms by (intro user_text_ascii) (simp add: initrd_target_def)
  obtain c1 where c1: "klog_user tnode (s\<lparr>con := c0\<rparr>) = Some (s\<lparr>con := c1\<rparr>)"
    using klog_user_total[OF t] by auto
  obtain c2 where c2: "klog '', Target device: '' (s\<lparr>con := c1\<rparr>) = s\<lparr>con := c2\<rparr>"
    using klog_con(1)[of _ "s\<lparr>con := c1\<rparr>"] by auto
  have u: "user_text tprop (s\<lparr>con := c2\<rparr>) = Some ''linux,initrd-start''"
    using assms by (intro user_text_ascii) (simp add: initrd_target_def)
  obtain c3 where c3: "klog_user tprop (s\<lparr>con := c2\<rparr>) = Some (s\<lparr>con := c3\<rparr>)"
    using klog_user_total[OF u] by auto
  show ?thesis unfolding log_target_def c0 c1 option.case c2 c3 by (auto simp: klog_def klog_hex_def)
qed

lemma is_start_literal:
  assumes "initrd_target (bytes s) tnode tprop"
  shows "is_literal ''linux,initrd-start'' tprop s = Some True"
proof -
  let ?l = "ascii ''linux,initrd-start''"
  have "cstr (with_literal ?l (bytes s)) LITERAL ?l"
    by (rule with_literal_cstr) (simp_all add: ascii_def)
  moreover have "cstr (with_literal ?l (bytes s)) tprop ?l"
    using assms by (simp add: initrd_target_def cstr_bytes_at, subst with_literal_bytes_at) (simp_all add: ascii_def below_literal_def)
  ultimately show ?thesis unfolding is_literal_def by (rule string_compare_same) (simp add: ascii_def skipped_def)
qed

lemma callback_agrees:
  assumes t: "initrd_target (bytes s) tnode tprop" and a: "agrees (bytes s) tnode tprop (node, name, a, v)"
  shows "\<exists>c. initramfs_callback tnode tprop node name a l s =
    Some (s\<lparr>con := c, CPIO_DEFAULT_START := PHYS_TO_VIRT (ucast (be_load (bytes s) a))\<rparr>)"
proof -
  obtain n where n: "node = Some n" "utils_string_compare (bytes s) n tnode = Some True" "utils_string_compare (bytes s) name tprop = Some True"
    using a by (auto simp: agrees_def)
  obtain c where "log_target tnode tprop (ucast (be_load (bytes s) a)) s = Some (s\<lparr>con := c\<rparr>)" using log_target_total[OF t] by blast
  then show ?thesis unfolding initramfs_callback_def n option.case bool.case Let_def is_start_literal[OF t] by auto
qed

lemma callback_differs:
  assumes "decided (bytes s) tnode tprop (node, name, a, v)" "\<not> agrees (bytes s) tnode tprop (node, name, a, v)"
  shows "initramfs_callback tnode tprop node name a l s = Some s"
proof -
  obtain n x where n: "node = Some n" "utils_string_compare (bytes s) n tnode = Some x" "x \<longrightarrow> utils_string_compare (bytes s) name tprop \<noteq> None"
    using assms(1) by (auto simp: decided_def)
  then show ?thesis using assms(2) by (cases x) (auto simp: agrees_def initramfs_callback_def split: option.split)
qed

lemma visit_append: "visit cb (ps @ qs) s = (case visit cb ps s of None \<Rightarrow> None | Some s1 \<Rightarrow> visit cb qs s1)"
  by (induction ps arbitrary: s) (auto split: option.splits)

lemma visit_differs:
  "list_all (\<lambda>x. decided (bytes s) tnode tprop x \<and> \<not> agrees (bytes s) tnode tprop x) ps \<Longrightarrow>
   visit (initramfs_callback tnode tprop) ps s = Some s"
  by (induction ps) (auto simp: callback_differs)

lemma visit_decided:
  assumes "initrd_target (bytes s) tnode tprop" "list_all (decided (bytes s) tnode tprop) ps"
  shows "\<exists>c d. visit (initramfs_callback tnode tprop) ps s = Some (s\<lparr>con := c, CPIO_DEFAULT_START := d\<rparr>)"
  using assms
proof (induction ps arbitrary: s)
  case Nil
  have "s = s\<lparr>con := con s, CPIO_DEFAULT_START := CPIO_DEFAULT_START s\<rparr>" by simp
  then show ?case unfolding visit.simps by metis
next
  case (Cons x ps)
  obtain node name a v where x: "x = (node, name, a, v)" by (cases x)
  obtain c d where cd: "initramfs_callback tnode tprop node name a (of_nat (length v)) s = Some (s\<lparr>con := c, CPIO_DEFAULT_START := d\<rparr>)"
  proof (cases "agrees (bytes s) tnode tprop x")
    case True
    then show ?thesis using callback_agrees[OF Cons.prems(1)] that unfolding x by blast
  next
    case False
    have "s = s\<lparr>con := con s, CPIO_DEFAULT_START := CPIO_DEFAULT_START s\<rparr>" by simp
    moreover have "initramfs_callback tnode tprop node name a (of_nat (length v)) s = Some s"
      by (rule callback_differs[where v = v]) (use False Cons.prems(2) x in simp_all)
    ultimately show ?thesis using that by metis
  qed
  show ?case using Cons.IH[of "s\<lparr>con := c, CPIO_DEFAULT_START := d\<rparr>"] Cons.prems by (auto simp: x cd)
qed

lemma traverse_finds:
  assumes "fdt_blob s xs" and t: "initrd_target (bytes s) tnode tprop" and d: "list_all (decided (bytes s) tnode tprop) (blob_properties s xs)"
    and p: "blob_properties s xs = ps @ (node, name, a, be32 w @ rest) # qs" "agrees (bytes s) tnode tprop (node, name, a, be32 w @ rest)"
      "list_all (\<lambda>x. \<not> agrees (bytes s) tnode tprop x) qs"
  shows "\<exists>c. fdt_traverse x20 (initramfs_callback tnode tprop) s = Some (s\<lparr>con := c, CPIO_DEFAULT_START := PHYS_TO_VIRT (ucast w)\<rparr>)"
proof -
  let ?cb = "initramfs_callback tnode tprop"
  obtain c0 where c0: "fdt_traverse x20 ?cb s = visit ?cb (blob_properties s xs) (s\<lparr>con := c0\<rparr>)"
    using fdt_traverse_visits[OF assms(1) keeps_initramfs_callback] by blast
  obtain c1 d1 where v1: "visit ?cb ps (s\<lparr>con := c0\<rparr>) = Some (s\<lparr>con := c1, CPIO_DEFAULT_START := d1\<rparr>)"
    using visit_decided[of "s\<lparr>con := c0\<rparr>" tnode tprop ps] t d p(1) by auto
  have "bytes_at (bytes s) a (be32 w @ rest)"
    using properties_bytes[where m = "bytes s" and p = "blob_struct s" and xs = xs and node' = node and name = name and a = a and v = "be32 w @ rest" and node = None and
        st = "dtb_base s + ucast (off_dt_strings (blob_header s))"] assms(1) p(1) by (auto simp: fdt_blob_def blob_properties_def)
  then have "be_load (bytes s) a = w" by (intro be_load_be32) (simp add: bytes_at_append)
  then obtain c2 where v2: "?cb node name a l (s\<lparr>con := c1, CPIO_DEFAULT_START := d1\<rparr>) =
      Some (s\<lparr>con := c2 l, CPIO_DEFAULT_START := PHYS_TO_VIRT (ucast w)\<rparr>)" for l
    using callback_agrees[of "s\<lparr>con := c1, CPIO_DEFAULT_START := d1\<rparr>" tnode tprop node name a "be32 w @ rest"] t p(2)
    by (simp) metis
  have v3: "visit ?cb qs (s\<lparr>con := c, CPIO_DEFAULT_START := e\<rparr>) = Some (s\<lparr>con := c, CPIO_DEFAULT_START := e\<rparr>)" for c e
    by (rule visit_differs) (use d p in \<open>auto simp: list_all_iff\<close>)
  show ?thesis unfolding c0 p(1) visit_append v1 option.case visit.simps v2 v3 by blast
qed

section \<open>Names\<close>

text \<open>The comparison of strings only tells two names apart when neither begins with the other.\<close>

definition comparable :: "8 word list \<Rightarrow> 8 word list \<Rightarrow> bool" where
  "comparable xs ys \<longleftrightarrow> xs = ys \<or> \<not> prefix xs ys \<and> \<not> prefix ys xs"

lemma compare_comparable:
  assumes "cstr m p xs" "cstr m q ys" "list_all (\<lambda>c. \<not> skipped c) xs" "list_all (\<lambda>c. \<not> skipped c) ys" "comparable xs ys"
  shows "utils_string_compare m p q = Some (xs = ys)"
proof (cases "xs = ys")
  case True
  then show ?thesis using utils_string_compare_correct[OF assms(1-4), of ys "[]" "[]"] by simp
next
  case False
  with assms(5) have "xs \<parallel> ys" by (auto simp: comparable_def parallel_def)
  from parallel_decomp[OF this] obtain us x xs' y ys' where "x \<noteq> y" "xs = us @ x # xs'" "ys = us @ y # ys'" by blast
  then show ?thesis using utils_string_compare_correct[OF assms(1-4), of us "x # xs'" "y # ys'"] by simp
qed

text \<open>A name that the target goes on behind: the comparison reads on, past the terminator and the padding,
  to the token that follows.\<close>

lemma skip_loop_run:
  "(\<forall>i < k. skipped (m (p + of_nat i))) \<Longrightarrow> \<not> skipped (m (p + of_nat k)) \<Longrightarrow> skip_loop m p = Some (p + of_nat k)"
proof (induction k arbitrary: p)
  case 0
  then show ?case by (subst skip_loop.simps) simp
next
  case (Suc k)
  have "skipped (m p)" using Suc.prems(1) by (rule allE[of _ 0]) simp
  moreover have "skip_loop m (p + 1) = Some (p + 1 + of_nat k)"
    by (rule Suc.IH) (use Suc.prems in \<open>auto simp: add.assoc dest: spec[of _ "Suc i" for i]\<close>)
  ultimately show ?case by (subst skip_loop.simps) (simp add: add.assoc)
qed

lemma compare_cut:
  assumes "cstr m p us" "cstr m q (us @ c # vs)" "list_all (\<lambda>c. \<not> skipped c) (us @ c # vs)"
    and k: "\<forall>i < k. skipped (m (p + of_nat (length us) + of_nat i))" "\<not> skipped (m (p + of_nat (length us) + of_nat k))"
      "m (p + of_nat (length us) + of_nat k) \<noteq> c"
  shows "utils_string_compare m p q = Some False"
proof -
  let ?p = "p + of_nat (length us)" and ?q = "q + of_nat (length us)"
  have q: "m ?q = c" "\<not> skipped c" "c \<noteq> 0" using cstr_suffix[OF assms(2)] assms(3) by (auto simp: skipped_def)
  have e: "utils_string_compare m p q = utils_string_compare m ?p ?q"
    using string_compare_common[of m p us "[]" q "c # vs"] assms by simp
  have "skip_loop m ?q = Some ?q" by (subst skip_loop.simps) (simp add: q)
  moreover have "skip_loop m ?p = Some (?p + of_nat k)" by (rule skip_loop_run[OF k(1,2)])
  ultimately show ?thesis using k(2,3) q by (subst e, subst utils_string_compare.simps) (simp add: skipped_def)
qed

lemma next_token: "\<exists>t rest. encode_all xs = [0, 0, 0, t] @ rest \<and> t \<in> {1, 2, 3, 4, 9}"
proof (cases xs)
  case (Cons x ys)
  then show ?thesis
    by (cases x) (auto simp: be32_def FDT_BEGIN_NODE_def FDT_PROP_def FDT_END_NODE_def TOKEN_NOP_def)
qed (simp add: be32_def TOKEN_END_def)

lemma node_compare:
  assumes at: "bytes_at m p (encode_all (Node name # xs))" and t: "cstr m tnode (ascii ''chosen'')"
    and ok: "0 \<notin> set name" "list_all (\<lambda>c. \<not> skipped c) name" "\<not> strict_prefix (ascii ''chosen'') name"
  shows "utils_string_compare m (p + 4) tnode = Some (name = ascii ''chosen'')"
proof -
  let ?c = "ascii ''chosen''"
  have ol: "list_all (\<lambda>c. \<not> skipped c) ?c" by (simp add: ascii_def skipped_def)
  obtain b rest where b: "encode_all xs = [0, 0, 0, b] @ rest" "b \<in> {1, 2, 3, 4, 9}" using next_token by blast
  let ?k = "pad4 (length name + 1) + 4"
  have "encode_all (Node name # xs) = be32 FDT_BEGIN_NODE @ name @ (replicate ?k 0 @ [b]) @ rest"
    by (simp add: b(1) replicate_add numeral_eq_Suc replicate_append_same[symmetric])
  then have n: "bytes_at m (p + 4) name" "bytes_at m (p + 4 + of_nat (length name)) (replicate ?k 0 @ [b])"
    using at by (simp_all only: bytes_at_append be32_length) simp_all
  have z: "m (p + 4 + of_nat (length name) + of_nat i) = 0" if "i < ?k" for i
    using n(2)[unfolded bytes_at_def, rule_format, of i] that by (simp add: nth_append del: replicate.simps)
  have l: "m (p + 4 + of_nat (length name) + of_nat ?k) = b"
    using n(2)[unfolded bytes_at_def, rule_format, of ?k] by (simp add: nth_append del: replicate.simps)
  have c: "cstr m (p + 4) name" using n(1) ok(1) z[of 0]
    by (simp add: cstr_bytes_at bytes_at_append, simp add: bytes_at_def)
  show ?thesis
  proof (cases "comparable name ?c")
    case True
    then show ?thesis by (rule compare_comparable[OF c t ok(2) ol])
  next
    case False
    then have "name \<noteq> ?c" "strict_prefix name ?c" using ok(3) by (auto simp: comparable_def strict_prefix_def)
    then obtain d vs where d: "?c = name @ d # vs" by (auto elim: strict_prefixE')
    have "d \<in> set ?c" by (simp add: d)
    then have "b \<noteq> d" using b(2) by (auto simp: ascii_def)
    moreover have "\<not> skipped b" using b(2) by (auto simp: skipped_def)
    ultimately have "utils_string_compare m (p + 4) tnode = Some False"
      using z l by (intro compare_cut[OF c t[unfolded d] ol[unfolded d], of ?k]) (simp_all add: skipped_def)
    then show ?thesis using \<open>name \<noteq> ?c\<close> by simp
  qed
qed

section \<open>The tree as text\<close>

text \<open>The properties in order: the name of the node whose token came last, the name, which the strings
  block has at the property's offset, and the value.\<close>

fun tree_properties :: "(32 word \<Rightarrow> 8 word list) \<Rightarrow> 8 word list option \<Rightarrow> fdt_item list \<Rightarrow> (8 word list option \<times> 8 word list \<times> 8 word list) list" where
  "tree_properties text_at node [] = []"
| "tree_properties text_at node (Node name # xs) = tree_properties text_at (Some name) xs"
| "tree_properties text_at node (Property off v # xs) = (node, text_at off, v) # tree_properties text_at node xs"
| "tree_properties text_at node (x # xs) = tree_properties text_at node xs"

definition strings_block :: "kern \<Rightarrow> (32 word \<Rightarrow> 8 word list) \<Rightarrow> fdt_item list \<Rightarrow> bool" where
  "strings_block s text_at xs \<longleftrightarrow> (\<forall>off v. Property off v \<in> set xs \<longrightarrow>
     cstr (bytes s) (dtb_base s + ucast (off_dt_strings (blob_header s)) + ucast off) (text_at off))"

text \<open>Names without carriage return and line feed; no node's name goes on behind \<open>chosen\<close>; in a node of
  that name, no property's name begins the sought one or goes on behind it; every property is in a node.\<close>

definition node_clear :: "8 word list \<Rightarrow> bool" where
  "node_clear name \<longleftrightarrow> list_all (\<lambda>c. \<not> skipped c) name \<and> \<not> strict_prefix (ascii ''chosen'') name"

definition property_clear :: "8 word list option \<times> 8 word list \<times> 8 word list \<Rightarrow> bool" where
  "property_clear = (\<lambda>(node, name, v). node \<noteq> None \<and> (node = Some (ascii ''chosen'') \<longrightarrow>
     list_all (\<lambda>c. \<not> skipped c) name \<and> comparable name (ascii ''linux,initrd-start'')))"

definition names_clear :: "(32 word \<Rightarrow> 8 word list) \<Rightarrow> fdt_item list \<Rightarrow> bool" where
  "names_clear text_at xs \<longleftrightarrow> (\<forall>name. Node name \<in> set xs \<longrightarrow> node_clear name) \<and>
     list_all property_clear (tree_properties text_at None xs)"

text \<open>What the callback is given stands for a property of the tree.\<close>

definition stands_for :: "Cstring.mem \<Rightarrow> addr \<Rightarrow> addr \<Rightarrow> addr ptr \<times> addr \<times> addr \<times> 8 word list \<Rightarrow>
    8 word list option \<times> 8 word list \<times> 8 word list \<Rightarrow> bool" where
  "stands_for m tnode tprop = (\<lambda>(node, name, a, v) (node', name', v'). v = v' \<and>
     (\<exists>n x. node = Some n \<and> node' = Some x \<and> utils_string_compare m n tnode = Some (x = ascii ''chosen'') \<and>
       (x = ascii ''chosen'' \<longrightarrow> utils_string_compare m name tprop = Some (name' = ascii ''linux,initrd-start''))))"

lemma properties_stand:
  assumes t: "cstr m tnode (ascii ''chosen'')" "cstr m tprop (ascii ''linux,initrd-start'')"
  shows "list_all item_ok xs \<Longrightarrow> bytes_at m p (encode_all xs) \<Longrightarrow>
    \<forall>off v. Property off v \<in> set xs \<longrightarrow> cstr m (strings + ucast off) (text_at off) \<Longrightarrow>
    \<forall>name. Node name \<in> set xs \<longrightarrow> node_clear name \<Longrightarrow> list_all property_clear (tree_properties text_at node' xs) \<Longrightarrow>
    \<forall>x. node' = Some x \<longrightarrow> (\<exists>n. node = Some n \<and> utils_string_compare m n tnode = Some (x = ascii ''chosen'')) \<Longrightarrow>
    list_all2 (stands_for m tnode tprop) (properties strings p node xs) (tree_properties text_at node' xs)"
proof (induction xs arbitrary: p node node')
  case (Cons x xs)
  have b: "bytes_at m (p + of_nat (length (encode x))) (encode_all xs)" using Cons.prems(2) by (simp add: bytes_at_append)
  show ?case
  proof (cases x)
    case (Node name)
    have "utils_string_compare m (p + 4) tnode = Some (name = ascii ''chosen'')"
      by (rule node_compare[OF Cons.prems(2)[unfolded Node] t(1)]) (use Cons.prems(1,4) Node in \<open>auto simp: node_clear_def\<close>)
    then have "list_all2 (stands_for m tnode tprop) (properties strings (p + of_nat (length (encode x))) (Some (p + 4)) xs)
        (tree_properties text_at (Some name) xs)"
      by (intro Cons.IH[OF _ b]) (use Cons.prems Node in auto)
    then show ?thesis by (simp add: Node del: encode.simps)
  next
    case (Property off v)
    have c: "property_clear (node', text_at off, v)" "cstr m (strings + ucast off) (text_at off)"
      using Cons.prems(3,5) Property by auto
    obtain y where y: "node' = Some y" using c(1) by (auto simp: property_clear_def)
    then obtain n where n: "node' = Some y" "node = Some n" "utils_string_compare m n tnode = Some (y = ascii ''chosen'')"
      using Cons.prems(6) by blast
    have "utils_string_compare m (strings + ucast off) tprop = Some (text_at off = ascii ''linux,initrd-start'')" if "y = ascii ''chosen''"
      by (rule compare_comparable[OF c(2) t(2)])
        (use c(1) n(1) that in \<open>simp_all add: property_clear_def, simp add: ascii_def skipped_def\<close>)
    then have "stands_for m tnode tprop (node, strings + ucast off, p + 12, v) (node', text_at off, v)"
      using n by (simp add: stands_for_def)
    moreover have "list_all2 (stands_for m tnode tprop) (properties strings (p + of_nat (length (encode x))) node xs)
        (tree_properties text_at node' xs)"
      by (rule Cons.IH[OF _ b]) (use Cons.prems Property in auto)
    ultimately show ?thesis by (simp add: Property del: encode.simps)
  next
    case Leave
    have "list_all2 (stands_for m tnode tprop) (properties strings (p + of_nat (length (encode x))) node xs)
        (tree_properties text_at node' xs)" by (rule Cons.IH[OF _ b]) (use Cons.prems Leave in auto)
    then show ?thesis by (simp add: Leave)
  next
    case Nop
    have "list_all2 (stands_for m tnode tprop) (properties strings (p + of_nat (length (encode x))) node xs)
        (tree_properties text_at node' xs)" by (rule Cons.IH[OF _ b]) (use Cons.prems Nop in auto)
    then show ?thesis by (simp add: Nop)
  qed
qed simp

lemma stands_for_agrees:
  "stands_for m tnode tprop b (node', name', v') \<Longrightarrow> decided m tnode tprop b \<and>
     (agrees m tnode tprop b \<longleftrightarrow> node' = Some (ascii ''chosen'') \<and> name' = ascii ''linux,initrd-start'')"
  by (auto simp: stands_for_def decided_def agrees_def split: prod.splits)


section \<open>A small tree\<close>

definition listing :: "addr \<Rightarrow> 8 word list \<Rightarrow> Cstring.mem" where
  "listing p bs = (\<lambda>a. let i = unat (a - p) in if i < length bs then bs ! i else 0)"

lemma listing_bytes:
  assumes "take (length xs) (drop k bs) = xs" "k + length xs \<le> length bs" "length bs < 2 ^ 64"
  shows "bytes_at (listing p bs) (p + of_nat k) xs"
  unfolding bytes_at_def
proof (intro allI impI)
  fix i assume i: "i < length xs"
  have "p + of_nat k + of_nat i - p = (of_nat (k + i) :: 64 word)" by simp
  moreover have "unat (of_nat (k + i) :: 64 word) = k + i" by (rule unat_of_nat_64) (use i assms in simp)
  moreover have "bs ! (k + i) = xs ! i" using assms i by (metis nth_take nth_drop add_leD1)
  ultimately show "listing p bs (p + of_nat k + of_nat i) = xs ! i" using i assms by (simp add: listing_def Let_def)
qed

text \<open>The root with one node, its property in the strings block at 0, and the target strings behind.\<close>

definition small_items :: "fdt_item list" where
  "small_items = [Node [], Node (ascii ''chosen''), Property 0 (be32 0x08000000), Leave, Leave]"

definition small_blob :: "8 word list" where
  "small_blob = be32 FDT_MAGIC_NUMBER @ be32 114 @ be32 40 @ be32 88 @ be32 24 @ replicate 20 0 @
     encode_all small_items @ ascii ''linux,initrd-start'' @ [0] @ ascii ''chosen'' @ [0] @ ascii ''linux,initrd-end'' @ [0]"

definition small_machine :: kern where
  "small_machine = boot_kern\<lparr>dtb_base := 0x1000, bytes := listing 0x1000 small_blob, mem := blank_mem,
     threads := (\<lambda>_. blank_thread\<lparr>curr_working_dir := []\<rparr>)\<rparr>"

lemmas small_defs = small_blob_def small_items_def be32_def ascii_def pad4_def FDT_MAGIC_NUMBER_def FDT_BEGIN_NODE_def
  FDT_PROP_def FDT_END_NODE_def TOKEN_END_def

lemma small_bytes:
  assumes "take (length xs) (drop k small_blob) = xs" "k + length xs \<le> 131"
  shows "bytes_at (bytes small_machine) (0x1000 + of_nat k) xs"
proof -
  have "length small_blob = 131" by (simp add: small_defs)
  then show ?thesis using assms listing_bytes[of xs k small_blob] by (simp add: small_machine_def)
qed

lemma small_header:
  "blob_header small_machine = \<lparr>magic = FDT_MAGIC_NUMBER, totalsize = 114, off_dt_struct = 40, off_dt_strings = 88, off_mem_rsvmap = 24\<rparr>"
proof -
  have b: "bytes_at (bytes small_machine) (0x1000 + of_nat 0) (be32 FDT_MAGIC_NUMBER)" "bytes_at (bytes small_machine) (0x1000 + of_nat 4) (be32 114)"
    "bytes_at (bytes small_machine) (0x1000 + of_nat 8) (be32 40)" "bytes_at (bytes small_machine) (0x1000 + of_nat 12) (be32 88)"
    "bytes_at (bytes small_machine) (0x1000 + of_nat 16) (be32 24)"
    by (rule small_bytes, simp add: small_defs, simp)+
  have d: "dtb_base small_machine = 0x1000" by (simp add: small_machine_def)
  show ?thesis using be_load_be32[OF b(1)] be_load_be32[OF b(2)] be_load_be32[OF b(3)] be_load_be32[OF b(4)] be_load_be32[OF b(5)]
    by (simp add: blob_header_def fdt_header_at_def d)
qed

lemma small_tail: "tail_inert (bytes small_machine) 0x1058 0x1072"
  unfolding tail_inert_def
proof (intro allI impI)
  let ?m = "bytes small_machine" and ?xs = "ascii ''linux,initrd-start'' @ [0] @ ascii ''chosen'' @ [0]"
  fix k assume "unat (0x1058 :: addr) + 4 * k < unat (0x1072 :: addr)"
  then have k: "k < 7" by simp
  have "bytes_at ?m (0x1000 + of_nat 88) ?xs" by (rule small_bytes) (simp_all add: small_defs)
  moreover have "4 * k < length ?xs" using k by (simp add: ascii_def)
  ultimately have "?m (0x1000 + of_nat 88 + of_nat (4 * k)) = ?xs ! (4 * k)" unfolding bytes_at_def by blast
  then have "?m (0x1058 + of_nat (4 * k)) = ?xs ! (4 * k)" by simp
  moreover have "?xs ! (4 * k) \<noteq> 0"
  proof -
    have "k = 0 \<or> k = 1 \<or> k = 2 \<or> k = 3 \<or> k = 4 \<or> k = 5 \<or> k = 6" using k by linarith
    then show ?thesis by (elim disjE) (simp_all add: ascii_def)
  qed
  ultimately show "be_load ?m (0x1058 + of_nat (4 * k)) \<noteq> FDT_BEGIN_NODE \<and> be_load ?m (0x1058 + of_nat (4 * k)) \<noteq> FDT_PROP"
    by (intro inert_word) simp
qed

lemma small_facts:
  shows "fdt_blob small_machine small_items" "blob_struct small_machine = 0x1028"
    "cstr (bytes small_machine) 0x106B (ascii ''chosen'')" "cstr (bytes small_machine) 0x1058 (ascii ''linux,initrd-start'')"
    "cstr (bytes small_machine) 0x1034 (ascii ''chosen'')" "cstr (bytes small_machine) 0x1072 (ascii ''linux,initrd-end'')"
    "blob_properties small_machine small_items = [] @ (Some 0x1034, 0x1058, 0x1048, be32 0x08000000 @ []) # []"
proof -
  let ?m = "bytes small_machine"
  have d: "dtb_base small_machine = 0x1000" by (simp add: small_machine_def)
  show st: "blob_struct small_machine = 0x1028" by (simp add: blob_struct_def small_header d)
  have "bytes_at ?m (0x1000 + of_nat 40) (encode_all small_items)" by (rule small_bytes) (simp_all add: small_defs)
  then show "fdt_blob small_machine small_items"
    using small_tail by (simp add: fdt_blob_def d st small_header, simp add: small_items_def ascii_def pad4_def)
  have "bytes_at ?m (0x1000 + of_nat 107) (ascii ''chosen'' @ [0])" "bytes_at ?m (0x1000 + of_nat 88) (ascii ''linux,initrd-start'' @ [0])"
    "bytes_at ?m (0x1000 + of_nat 52) (ascii ''chosen'' @ [0])" "bytes_at ?m (0x1000 + of_nat 114) (ascii ''linux,initrd-end'' @ [0])"
    by (rule small_bytes, simp add: small_defs, simp add: ascii_def)+
  then show "cstr ?m 0x106B (ascii ''chosen'')" "cstr ?m 0x1058 (ascii ''linux,initrd-start'')" "cstr ?m 0x1034 (ascii ''chosen'')"
    "cstr ?m 0x1072 (ascii ''linux,initrd-end'')"
    by (simp_all add: cstr_bytes_at, simp_all add: ascii_def)
  show "blob_properties small_machine small_items = [] @ (Some 0x1034, 0x1058, 0x1048, be32 0x08000000 @ []) # []"
    by (simp add: blob_properties_def d st small_header, simp add: small_items_def ascii_def pad4_def)
qed

lemma small_target:
  shows "initrd_target (bytes small_machine) 0x106B 0x1058"
    "list_all (decided (bytes small_machine) 0x106B 0x1058) (blob_properties small_machine small_items)"
    "agrees (bytes small_machine) 0x106B 0x1058 (Some 0x1034, 0x1058, 0x1048, be32 0x08000000 @ [])"
proof -
  let ?m = "bytes small_machine"
  show "initrd_target ?m 0x106B 0x1058" using small_facts by (simp add: initrd_target_def below_literal_def LITERAL_def)
  have same: "utils_string_compare ?m 0x1034 0x106B = Some True" "utils_string_compare ?m 0x1058 0x1058 = Some True"
    using string_compare_same[OF small_facts(5,3)] string_compare_same[OF small_facts(4,4)] by (simp_all add: ascii_def skipped_def)
  then show "list_all (decided ?m 0x106B 0x1058) (blob_properties small_machine small_items)"
    "agrees ?m 0x106B 0x1058 (Some 0x1034, 0x1058, 0x1048, be32 0x08000000 @ [])"
    by (auto simp: decided_def agrees_def small_facts(7))
qed


end
