(* ===== verification/Cpio_Props.thy ===== *)
theory Cpio_Props
  imports Dtb_Props
begin

text \<open>
  Archives: a list of members and the trailer, as \<open>find_file\<close> and \<open>initramfs_setup_mount\<close> walk them.
\<close>

section \<open>The sizes in a header\<close>

lemma HexStr2Int_loop_digits:
  "bytes_at m p (map hex_digit ds) \<Longrightarrow> \<forall>d \<in> set ds. d < 16 \<Longrightarrow>
    HexStr2Int_loop m p (length ds) (of_nat v) = of_nat (foldl (\<lambda>v d. v * 16 + d) v ds)"
proof (induction ds arbitrary: p v)
  case (Cons d ds)
  have m: "m p = hex_digit d" and d: "d < 16" using Cons.prems by (simp_all add: bytes_at_Cons)
  have "HexStr2Int_loop m p (length (d # ds)) (of_nat v) = HexStr2Int_loop m (p + 1) (length ds) (of_nat (v * 16 + d))"
    using d by (rule hex_digit_cases[where 'a = 64]) (simp_all add: m)
  then show ?case using Cons.IH[of "p + 1" "v * 16 + d"] Cons.prems by (simp add: bytes_at_Cons)
qed simp

lemma HexStr2Int_hex8:
  assumes "bytes_at m p (hex8 n)" "n < 2 ^ 32"
  shows "utils_HexStr2Int m p 8 = of_nat n"
proof -
  have "(16 :: nat) ^ 8 = 2 ^ 32" by simp
  then have "foldl (\<lambda>v d. v * 16 + d) 0 (nibbles 8 n) = n" using nibbles_props(3)[of 8 n] assms(2) by simp
  then show ?thesis
    using HexStr2Int_loop_digits[of m p "nibbles 8 n" 0] assms(1) nibbles_props(1,2)[where k = 8 and n = n]
    by (simp add: utils_HexStr2Int_def hex8_def)
qed

lemma align_nat4: "n + 4 \<le> 2 ^ 64 \<Longrightarrow> utils_align (of_nat n) 4 = of_nat (n + pad4 n)"
  using align_up4[of 0 n] by simp

type_synonym member = "8 word list \<times> 8 word list \<times> 8 word list"

abbreviation member_bytes :: "member \<Rightarrow> 8 word list" where
  "member_bytes \<equiv> \<lambda>(f, name, data). newc_member f name data"

text \<open>Other fields of 88 bytes, a name in one line, sizes below \<open>2 ^ 31\<close>.\<close>

definition member_ok :: "member \<Rightarrow> bool" where
  "member_ok = (\<lambda>(f, name, data). length f = 88 \<and> list_all (\<lambda>c. \<not> skipped c) name \<and> length name < 2 ^ 31 \<and> length data < 2 ^ 31)"

lemma member_okD:
  assumes "member_ok (f, name, data)"
  shows "length f = 88" "0 \<notin> set name" "list_all (\<lambda>c. \<not> skipped c) name" "length name < 2 ^ 31" "length data < 2 ^ 31"
  using assms by (auto simp: member_ok_def list_all_iff skipped_def)

lemma member_sizes_member:
  assumes "bytes_at m p (newc_member f name data)" "member_ok (f, name, data)"
  shows "member_sizes m p = (of_nat (data_offset name), of_nat (length data + pad4 (length data)))"
proof -
  note ok = member_okD[OF assms(2)] and q = newc_member_parts[OF assms(1) member_okD(1,2)[OF assms(2)]]
  have "utils_HexStr2Int m (c_namesize p) 8 = of_nat (length name + 1)"
    by (rule HexStr2Int_hex8[OF q(3)]) (use ok in simp)
  moreover have "utils_HexStr2Int m (c_filesize p) 8 = of_nat (length data)"
    by (rule HexStr2Int_hex8[OF q(2)]) (use ok in simp)
  moreover have "utils_align (of_nat HEADER_SIZE + of_nat (length name + 1)) 4 = of_nat (data_offset name)"
    using align_nat4[of "HEADER_SIZE + length name + 1"] ok by (simp add: data_offset_def HEADER_SIZE_def ac_simps)
  moreover have "utils_align (of_nat (length data)) 4 = of_nat (length data + pad4 (length data))"
    by (rule align_nat4) (use ok in simp)
  ultimately show ?thesis by (simp add: member_sizes_def Let_def)
qed

section \<open>Archives\<close>

definition archive :: "member list \<Rightarrow> 8 word list \<Rightarrow> 8 word list" where
  "archive ms f = concat (map member_bytes ms) @ newc_member f TRAILER []"

lemma archive_simps:
  "archive [] f = newc_member f TRAILER []"
  "archive ((g, name, data) # ms) f = newc_member g name data @ archive ms f"
  by (simp_all add: archive_def)

lemma archive_not_empty: "archive ms f \<noteq> []"
  by (simp add: archive_def newc_member_def)

lemma TRAILER_one_line: "list_all (\<lambda>c. \<not> skipped c) TRAILER"
  by (simp add: ascii_lits skipped_def)

lemma compare_lit_comparable:
  assumes "cstr m p xs" "list_all (\<lambda>c. \<not> skipped c) xs" "comparable xs TRAILER" "below_literal p (length xs + 1)"
  shows "compare_lit m p ''TRAILER!!!'' = Some (xs = TRAILER)"
proof -
  let ?m = "with_literal TRAILER m"
  have "cstr ?m p xs" using assms(1,4) by (simp add: cstr_bytes_at with_literal_bytes_at ascii_lits)
  moreover have "cstr ?m LITERAL TRAILER" by (rule with_literal_cstr) (simp_all add: ascii_lits)
  ultimately show ?thesis
    using compare_comparable[of ?m p xs LITERAL TRAILER] assms(2,3) TRAILER_one_line
    by (simp add: compare_lit_def TRAILER_def)
qed

lemma below_literal_part: "below_literal p n \<Longrightarrow> a + k \<le> n \<Longrightarrow> 0 < k \<Longrightarrow> below_literal (p + of_nat a) k"
  using below_literal_addr(2)[of p n a] by (simp add: below_literal_def)

lemma name_below:
  assumes "below_literal p (length (newc_member f name data))" "length f = 88"
  shows "below_literal (p + of_nat HEADER_SIZE) (length name + 1)"
  by (rule below_literal_part[OF assms(1)]) (use assms(2) in \<open>simp_all add: newc_member_length data_offset_def\<close>)

definition names_ok :: "member list \<Rightarrow> 8 word list \<Rightarrow> bool" where
  "names_ok ms nm \<longleftrightarrow> (\<forall>(f, name, data) \<in> set ms. member_ok (f, name, data) \<and> name \<noteq> TRAILER \<and>
     comparable name TRAILER \<and> comparable name nm)"

text \<open>Where the walk stops: at the first member of the name, or nowhere.\<close>

lemma find_loop_archive:
  assumes "bytes_at m p (archive ms f)" "length f = 88" "below_literal p (length (archive ms f))" "names_ok ms nm"
    "cstr m fname nm" "list_all (\<lambda>c. \<not> skipped c) nm"
  shows "case List.find (\<lambda>(g, name, data). name = nm) ms of
      None \<Rightarrow> find_loop m fname p = Some None
    | Some (g, name, data) \<Rightarrow> \<exists>a. find_loop m fname p = Some (Some a) \<and> bytes_at m a (newc_member g name data) \<and>
        member_ok (g, name, data)"
  using assms(1,3,4)
proof (induction ms arbitrary: p)
  case Nil
  have b: "bytes_at m p (newc_member f TRAILER [])" using Nil.prems(1) by (simp add: archive_simps)
  have "0 \<notin> set TRAILER" by (simp add: ascii_lits)
  from newc_member_parts(4)[OF b assms(2) this] have "compare_lit m (p + of_nat HEADER_SIZE) ''TRAILER!!!'' = Some True"
    using compare_lit_comparable[of m "p + of_nat HEADER_SIZE" TRAILER] name_below[of p f TRAILER "[]"] Nil.prems(2) assms(2)
    by (simp add: TRAILER_one_line comparable_def archive_simps)
  then show ?case by (subst find_loop.simps) simp
next
  case (Cons mem ms)
  obtain g name data where mem: "mem = (g, name, data)" by (cases mem) auto
  let ?l = "length (newc_member g name data)"
  have ok: "member_ok (g, name, data)" "name \<noteq> TRAILER" "comparable name TRAILER" "comparable name nm" "names_ok ms nm"
    using Cons.prems(3) by (auto simp: names_ok_def mem)
  note k = member_okD[OF ok(1)]
  have b: "bytes_at m p (newc_member g name data)" "bytes_at m (p + of_nat ?l) (archive ms f)"
    using Cons.prems(1) by (simp_all add: mem archive_simps bytes_at_append)
  have l: "length (archive (mem # ms) f) = ?l + length (archive ms f)" by (simp add: mem archive_simps)
  have low: "below_literal p ?l" using Cons.prems(2) by (simp add: l below_literal_def)
  have rest: "below_literal (p + of_nat ?l) (length (archive ms f))"
    by (rule below_literal_part[OF Cons.prems(2)]) (simp_all add: l archive_not_empty)
  note c = newc_member_parts(4)[OF b(1) k(1,2)]
  have t: "compare_lit m (p + of_nat HEADER_SIZE) ''TRAILER!!!'' = Some False"
    using compare_lit_comparable[OF c k(3) ok(3) name_below[OF low k(1)]] ok(2) by simp
  have s: "utils_string_compare m (p + of_nat HEADER_SIZE) fname = Some (name = nm)"
    by (rule compare_comparable[OF c assms(5) k(3) assms(6) ok(4)])
  have step: "fst (member_sizes m p) + snd (member_sizes m p) = of_nat ?l"
    using member_sizes_member[OF b(1) ok(1)] by (simp add: newc_member_length[OF k(1)] add.assoc)
  show ?case
  proof (cases "name = nm")
    case True
    then have "find_loop m fname p = Some (Some p)" by (subst find_loop.simps) (simp add: t s)
    then show ?thesis using True b(1) ok(1) by (simp add: mem)
  next
    case False
    then have e: "find_loop m fname p = find_loop m fname (p + of_nat ?l)"
      by (subst find_loop.simps) (simp add: t s step)
    show ?thesis unfolding e using False Cons.IH[OF b(2) rest ok(5)] by (simp add: mem)
  qed
qed

lemma cpio_find_program_archive:
  assumes "bytes_at m p (archive ms f)" "length f = 88" "below_literal p (length (archive ms f))" "names_ok ms nm"
    "cstr m fname nm" "list_all (\<lambda>c. \<not> skipped c) nm"
  shows "case List.find (\<lambda>(g, name, data). name = nm) ms of
      None \<Rightarrow> cpio_find_program m p fname = Some None
    | Some (g, name, data) \<Rightarrow> \<exists>a. cpio_find_program m p fname = Some (Some (of_nat (length data + pad4 (length data)), a)) \<and>
        bytes_at m a (data @ replicate (pad4 (length data)) 0)"
proof (cases "List.find (\<lambda>(g, name, data). name = nm) ms")
  case (Some x)
  obtain g name data where x: "x = (g, name, data)" by (cases x) auto
  then obtain a where a: "find_loop m fname p = Some (Some a)" "bytes_at m a (newc_member g name data)" "member_ok (g, name, data)"
    using find_loop_archive[OF assms] Some by auto
  have d: "bytes_at m (a + of_nat (data_offset name)) (data @ replicate (pad4 (length data)) 0)"
    using a(2) member_okD(1)[OF a(3)] unfolding newc_member_def bytes_at_append
    by (simp add: data_offset_def HEADER_SIZE_def ac_simps ascii_lits)
  have "unat (of_nat (length data + pad4 (length data)) :: 64 word) = length data + pad4 (length data)"
    by (rule unat_of_nat_64) (use member_okD(5)[OF a(3)] pad4_bound[of "length data"] in simp)
  then have "(ucast (of_nat (length data + pad4 (length data)) :: 64 word) :: 32 word) = of_nat (length data + pad4 (length data))"
    by (metis of_nat_unat)
  then show ?thesis using a d member_sizes_member[OF a(2,3)]
    by (auto simp: Some x cpio_find_program_def find_file_def simp del: of_nat_add)
qed (use find_loop_archive[OF assms] in \<open>simp add: cpio_find_program_def find_file_def\<close>)


section \<open>Looking up a program\<close>

text \<open>C23: the program the shell runs is found.  In an archive of members with names in one line, none of them
  a proper prefix of the sought name or of TRAILER!!! or the other way round, \<open>cpio_find_program\<close> ends;
  if no member has the name it answers so, otherwise it gives the first member of the name: the address
  where its bytes stand, and its size rounded up to four bytes.\<close>

theorem cpio_finds_program:
  assumes "bytes_at m p (archive ms f)" "length f = 88" "below_literal p (length (archive ms f))" "names_ok ms nm"
    "cstr m fname nm" "list_all (\<lambda>c. \<not> skipped c) nm"
  shows "case List.find (\<lambda>(g, name, data). name = nm) ms of
      None \<Rightarrow> cpio_find_program m p fname = Some None
    | Some (g, name, data) \<Rightarrow> \<exists>a. cpio_find_program m p fname = Some (Some (of_nat (length data + pad4 (length data)), a)) \<and>
        bytes_at m a (data @ replicate (pad4 (length data)) 0)"
  by (rule cpio_find_program_archive[OF assms])

text \<open>An archive of two files, with the name of the second behind it.\<close>

definition two_files :: "member list" where
  "two_files = [(replicate 88 0x30, ascii ''a'', [1, 2, 3]), (replicate 88 0x30, ascii ''vm.img'', [4, 5, 6, 7, 8])]"

definition two_files_mem :: Cstring.mem where
  "two_files_mem = listing 0x1000 (archive two_files (replicate 88 0x30) @ ascii ''vm.img'' @ [0])"

lemma two_files_facts:
  shows "bytes_at two_files_mem 0x1000 (archive two_files (replicate 88 0x30))" "cstr two_files_mem 0x1170 (ascii ''vm.img'')"
    "length (archive two_files (replicate 88 0x30)) = 368" "names_ok two_files (ascii ''vm.img'')"
proof -
  have h: "length (newc_member (replicate 88 0x30) n d) = data_offset n + length d + pad4 (length d)" for n d
    by (rule newc_member_length) simp
  show l: "length (archive two_files (replicate 88 0x30)) = 368"
    by (simp add: two_files_def archive_simps h data_offset_def HEADER_SIZE_def ascii_def ascii_lits pad4_def)
  have "bytes_at two_files_mem (0x1000 + of_nat 0) (archive two_files (replicate 88 0x30))"
    unfolding two_files_mem_def by (rule listing_bytes) (simp_all add: l ascii_def)
  then show "bytes_at two_files_mem 0x1000 (archive two_files (replicate 88 0x30))" by simp
  have "bytes_at two_files_mem (0x1000 + of_nat 368) (ascii ''vm.img'' @ [0])"
    unfolding two_files_mem_def by (rule listing_bytes) (simp_all add: l ascii_def)
  then show "cstr two_files_mem 0x1170 (ascii ''vm.img'')" by (simp add: cstr_bytes_at ascii_def)
  show "names_ok two_files (ascii ''vm.img'')"
    by (simp add: names_ok_def two_files_def member_ok_def comparable_def ascii_def ascii_lits skipped_def)
qed

theorem cpio_finds_program_witness:
  "\<exists>a. cpio_find_program two_files_mem 0x1000 0x1170 = Some (Some (8, a)) \<and> bytes_at two_files_mem a [4, 5, 6, 7, 8, 0, 0, 0]"
proof -
  let ?n = "ascii ''vm.img''" and ?d = "[4, 5, 6, 7, 8] :: 8 word list"
  have f: "List.find (\<lambda>(g, name, data). name = ?n) two_files = Some (replicate 88 0x30, ?n, ?d)"
    by (simp add: two_files_def ascii_def)
  have l: "length ?d = 5" by simp
  have q: "pad4 5 = Suc (Suc (Suc 0))" by (simp add: pad4_def)
  have p: "length ?d + pad4 (length ?d) = 8" "replicate (pad4 (length ?d)) (0 :: 8 word) = [0, 0, 0]"
    unfolding l q by simp_all
  have b: "below_literal 0x1000 (length (archive two_files (replicate 88 0x30)))"
    by (simp add: two_files_facts(3) below_literal_def LITERAL_unat)
  have s: "list_all (\<lambda>c. \<not> skipped c) ?n" by (simp add: ascii_def skipped_def)
  have "\<exists>a. cpio_find_program two_files_mem 0x1000 0x1170 = Some (Some (of_nat (length ?d + pad4 (length ?d)), a)) \<and>
      bytes_at two_files_mem a (?d @ replicate (pad4 (length ?d)) 0)"
    using cpio_finds_program[OF two_files_facts(1) length_replicate b two_files_facts(4,2) s]
    unfolding f option.case prod.case .
  then show ?thesis unfolding p by simp
qed

end
