(* ===== verification/Initramfs_Props.thy ===== *)
theory Initramfs_Props
  imports Cpio_Props Syscall_Props
begin

text \<open>
  Mounting the initial RAM disk: one node per member of the archive, found under the member's name
  and holding the member's bytes.
\<close>

section \<open>New nodes\<close>

lemma inode_request: "request_ok INITRAMFS_INODE_SIZE" "INITRAMFS_INODE_SIZE \<noteq> 0" "unat INITRAMFS_INODE_SIZE \<le> 4096"
  by (simp_all add: request_ok_def INITRAMFS_INODE_SIZE_def)

lemma initramfs_create_vnode_spec:
  assumes ok: "heap_ok s" and rm: "roomy (3 + n) s"
  obtains s' v i d where "initramfs_create_vnode None ty s = Some (s', v)" "heap_ok s'" "roomy n s'"
    "v \<notin> kblocks s" "i \<notin> kblocks s" "i \<noteq> v" "v \<in> kblocks s'" "i \<in> kblocks s'" "kblocks s \<subseteq> kblocks s'"
    "quiet s' = quiet (s\<lparr>vnodes := (vnodes s)(v := new_vnode Initramfs_vnode_ops Initramfs_file_ops i),
       rinodes := (rinodes s)(i := (empty_rinode ty)\<lparr>r_data := d\<rparr>)\<rparr>)"
proof -
  have "roomy (Suc (2 + n)) s" using rm by (simp add: roomy_def)
  then obtain s1 v where s1: "knew VNODE_SIZE s = Some (s1, v)" "roomy (2 + n) s1"
    by (rule knew_room[OF ok _ size_room(1,2)])
  note a = knew_spec[OF ok size_requests(1) s1(1)]
  let ?s2 = "set_vnode (\<lambda>x. x\<lparr>f_ops := Initramfs_file_ops, v_ops := Initramfs_vnode_ops, v_mount := None\<rparr>) v s1"
  have m2: "mem ?s2 = mem s1" by (simp add: set_vnode_def)
  note h2 = heap_cong[OF m2]
  have ok2: "heap_ok ?s2" "roomy (Suc (1 + n)) ?s2" using a(1) s1(2) h2 m2 by (simp_all add: roomy_def)
  then obtain s3 i where s3: "knew INITRAMFS_INODE_SIZE ?s2 = Some (s3, i)" "roomy (1 + n) s3"
    by (rule knew_room[OF _ _ inode_request(2,3)])
  note b = knew_spec[OF ok2(1) inode_request(1) s3(1)]
  let ?s4 = "set_rinode (\<lambda>_. empty_rinode ty) i s3"
  have m4: "mem ?s4 = mem s3" by (simp add: set_rinode_def)
  note h4 = heap_cong[OF m4]
  have ok4: "heap_ok ?s4" "roomy (Suc n) ?s4" using b(1) s3(2) h4 m4 by (simp_all add: roomy_def)
  then obtain s5 d where s5: "knew 0x1000 ?s4 = Some (s5, d)" "roomy n s5"
    by (rule knew_room[where sz = "0x1000"]) simp_all
  have r5: "request_ok 0x1000" by (simp add: request_ok_def)
  note c = knew_spec[OF ok4(1) r5 s5(1)]
  let ?s6 = "set_vnode (\<lambda>x. x\<lparr>internal := i\<rparr>) v (set_rinode (\<lambda>x. x\<lparr>r_data := d\<rparr>) i s5)"
  have m6: "mem ?s6 = mem s5" by (simp add: set_vnode_def set_rinode_def)
  note h6 = heap_cong[OF m6]
  have "initramfs_create_vnode None ty s = Some (?s6, v)"
    using s1(1) s3(1) knew_kalloc[OF s5(1)] by (simp add: initramfs_create_vnode_def Let_def)
  moreover have "quiet ?s6 = quiet (s\<lparr>vnodes := (vnodes s)(v := new_vnode Initramfs_vnode_ops Initramfs_file_ops i),
       rinodes := (rinodes s)(i := (empty_rinode ty)\<lparr>r_data := d\<rparr>)\<rparr>)"
  proof -
    have "vnodes s1 = vnodes s" "rinodes s1 = rinodes s" by (rule quietD[OF a(5)])+
    moreover have "vnodes s3 = vnodes ?s2" "rinodes s3 = rinodes ?s2" by (rule quietD[OF b(5)])+
    moreover have "vnodes s5 = vnodes ?s4" "rinodes s5 = rinodes ?s4" by (rule quietD[OF c(5)])+
    ultimately show ?thesis
      using a(5) b(5) c(5) by (simp add: set_vnode_def set_rinode_def quiet_mem_cong new_vnode_def vnode_all)
  qed
  moreover have "roomy n ?s6" using s5(2) m6 by (simp add: roomy_def)
  ultimately show thesis
    using that[of ?s6 v i d] a(3,4) b(3,4) c(1,3,4) h2(2) h4(2) h6(1,2) by (simp add: subset_insertI2 subset_insertI)
qed

section \<open>The loop over the members\<close>

text \<open>Node \<open>v\<close> holds the member.\<close>

definition holds_member :: "kern \<Rightarrow> addr \<Rightarrow> member \<Rightarrow> bool" where
  "holds_member s v = (\<lambda>(g, name, data). cstr (bytes s) (r_name (rinode_of s v)) name \<and>
     below_literal (r_name (rinode_of s v)) (length name + 1) \<and>
     bytes_at (bytes s) (r_data (rinode_of s v)) data \<and> r_datasize (rinode_of s v) = of_nat (length data) \<and>
     v_ops (vnodes s v) = Initramfs_vnode_ops \<and> f_ops (vnodes s v) = Initramfs_file_ops)"

primrec enter :: "nat \<Rightarrow> addr list \<Rightarrow> (nat \<Rightarrow> addr ptr) \<Rightarrow> nat \<Rightarrow> addr ptr" where
  "enter k [] e = e"
| "enter k (v # vs) e = enter (Suc k) vs (e(k := Some v))"

lemma enter_nth: "enter k vs e j = (if k \<le> j \<and> j < k + length vs then Some (vs ! (j - k)) else e j)"
proof (induction vs arbitrary: k e)
  case (Cons v vs)
  have "vs ! (j - Suc k) = (v # vs) ! (j - k)" if "Suc k \<le> j" 
    using that by (metis Suc_diff_le Suc_diff_Suc diff_Suc_Suc nth_Cons_Suc)
  then show ?case by (auto simp: Cons.IH)
qed auto

lemma scan_entries_listed:
  assumes "\<And>j. j < length vs \<Longrightarrow> e (k + j) = Some (vs ! j)" "e (k + length vs) = None" "length vs \<le> n"
  shows "fst (scan_entries same e n k) = List.find same vs"
  using assms
proof (induction vs arbitrary: k n)
  case Nil
  then show ?case by (cases n) simp_all
next
  case (Cons v vs)
  then obtain m where n: "n = Suc m" by (cases n) simp_all
  have "e k = Some v" using Cons.prems(1)[of 0] by simp
  moreover have "fst (scan_entries same e m (Suc k)) = List.find same vs"
  proof (rule Cons.IH)
    show "e (Suc k + j) = Some (vs ! j)" if "j < length vs" for j using Cons.prems(1)[of "Suc j"] that by simp
  qed (use Cons.prems(2,3) n in simp_all)
  ultimately show ?case by (simp add: n)
qed

text \<open>Writing one more entry.\<close>

lemma add_member_spec:
  assumes ok: "heap_ok s" and rm: "roomy (3 + n) s" and i0: "i0 \<in> kblocks s" and k: "k < INITRAMFS_MAX_DIR_ENTRY"
    and m: "cstr (bytes s) path name" "below_literal path (length name + 1)" "bytes_at (bytes s) a data" "length data < 2 ^ 31"
  obtains s' v where "add_member i0 k path (of_nat (length data)) a s = Some s'" "heap_ok s'" "roomy n s'"
    "v \<notin> kblocks s" "v \<in> kblocks s'" "internal (vnodes s' v) \<in> kblocks s' - {i0}" "kblocks s \<subseteq> kblocks s'" "bytes s' = bytes s" "mounts s' = mounts s"
    "holds_member s' v (g, name, data)" "r_entry (rinodes s' i0) = (r_entry (rinodes s i0))(k := Some v)"
    "\<forall>b \<in> kblocks s. vnodes s' b = vnodes s b \<and> (b \<noteq> i0 \<longrightarrow> rinodes s' b = rinodes s b)"
proof -
  obtain s1 v i d where c: "initramfs_create_vnode None file_t s = Some (s1, v)" "heap_ok s1" "roomy n s1"
    "v \<notin> kblocks s" "i \<notin> kblocks s" "i \<noteq> v" "v \<in> kblocks s1" "i \<in> kblocks s1" "kblocks s \<subseteq> kblocks s1"
    "quiet s1 = quiet (s\<lparr>vnodes := (vnodes s)(v := new_vnode Initramfs_vnode_ops Initramfs_file_ops i),
       rinodes := (rinodes s)(i := (empty_rinode file_t)\<lparr>r_data := d\<rparr>)\<rparr>)"
    by (rule initramfs_create_vnode_spec[OF ok rm, of file_t])
  note q = quietD[OF c(10)]
  have ne: "i \<noteq> i0" using c(5) i0 by blast
  let ?s' = "set_rinode (\<lambda>x. x\<lparr>r_entry := (r_entry x)(k := Some v)\<rparr>) i0
    (set_rinode (\<lambda>x. x\<lparr>r_data := a, r_datasize := ucast (of_nat (length data) :: 32 word), r_name := path\<rparr>) (internal (vnodes s1 v)) s1)"
  have m1: "mem ?s' = mem s1" by (simp add: set_rinode_def)
  note h1 = heap_cong[OF m1]
  have int: "internal (vnodes s1 v) = i" using q by (simp add: new_vnode_def)
  have sz: "ucast (of_nat (length data) :: 32 word) = (of_nat (length data) :: 64 word)"
  proof -
    have "unat (of_nat (length data) :: 32 word) = length data" by (rule unat_of_nat_32) (use m(4) in simp)
    then show ?thesis by (metis of_nat_unat)
  qed
  show thesis
  proof (rule that[of ?s' v])
    show "add_member i0 k path (of_nat (length data)) a s = Some ?s'" using c(1) k by (simp add: add_member_def)
    show "roomy n ?s'" using c(3) m1 by (simp add: roomy_def)
    show "internal (vnodes ?s' v) \<in> kblocks ?s' - {i0}" using c(8) ne h1 int by (simp add: set_rinode_def)
    show "holds_member ?s' v (g, name, data)"
      using m q ne int sz by (simp add: holds_member_def rinode_of_def set_rinode_def new_vnode_def)
    show "r_entry (rinodes ?s' i0) = (r_entry (rinodes s i0))(k := Some v)" using q ne int by (simp add: set_rinode_def)
    show "\<forall>b \<in> kblocks s. vnodes ?s' b = vnodes s b \<and> (b \<noteq> i0 \<longrightarrow> rinodes ?s' b = rinodes s b)"
      using q c(4,5) int by (auto simp: set_rinode_def)
  qed (use c h1 q in \<open>simp_all add: set_rinode_def\<close>)
qed


text \<open>The archive behind a point of the walk.\<close>

definition walkable :: "mem \<Rightarrow> addr \<Rightarrow> member list \<Rightarrow> 8 word list \<Rightarrow> bool" where
  "walkable m p ms f \<longleftrightarrow> bytes_at m p (archive ms f) \<and> below_literal p (length (archive ms f)) \<and> p \<noteq> 0 \<and> length f = 88 \<and>
     (\<forall>x \<in> set ms. member_ok x \<and> fst (snd x) \<noteq> TRAILER)"

lemma walkable_next:
  assumes "walkable m p ((g, name, data) # ms) f"
  defines "q \<equiv> p + of_nat (length (newc_member g name data))"
  shows "cpio_newc_parse_header m p = Some (p + of_nat HEADER_SIZE, of_nat (length data), p + of_nat (data_offset name), q)"
    "q \<noteq> 0" "walkable m q ms f" "cstr m (p + of_nat HEADER_SIZE) name" "below_literal (p + of_nat HEADER_SIZE) (length name + 1)"
    "bytes_at m (p + of_nat (data_offset name)) data" "length data < 2 ^ 31"
proof -
  let ?l = "length (newc_member g name data)"
  have ok: "member_ok (g, name, data)" "name \<noteq> TRAILER" using assms(1) by (auto simp: walkable_def)
  note k = member_okD[OF ok(1)]
  have b: "bytes_at m p (newc_member g name data)" "bytes_at m q (archive ms f)"
    using assms(1) by (simp_all add: walkable_def archive_simps bytes_at_append q_def)
  have l: "length (archive ((g, name, data) # ms) f) = ?l + length (archive ms f)" by (simp add: archive_simps)
  have low: "below_literal p (?l + length (archive ms f))" using assms(1) l by (simp add: walkable_def)
  have low': "below_literal p ?l" using low by (simp add: below_literal_def)
  show "cpio_newc_parse_header m p = Some (p + of_nat HEADER_SIZE, of_nat (length data), p + of_nat (data_offset name), q)"
    using parse_member[OF b(1) k(1,2,4,5) low'] ok(2) by (simp add: q_def)
  have u: "unat q = unat p + ?l" unfolding q_def by (rule below_literal_addr(2)[OF low]) (simp add: archive_not_empty)
  moreover have "unat p \<noteq> 0" using assms(1) by (simp add: walkable_def unat_eq_0)
  ultimately show "q \<noteq> 0" by (metis add_is_0 unat_0)
  then show "walkable m q ms f" using assms(1) b(2) u low by (simp add: walkable_def below_literal_def)
  show "cstr m (p + of_nat HEADER_SIZE) name" "bytes_at m (p + of_nat (data_offset name)) data"
    using newc_member_parts(4,5)[OF b(1) k(1,2)] .
  show "below_literal (p + of_nat HEADER_SIZE) (length name + 1)" by (rule name_below[OF low' k(1)])
  show "length data < 2 ^ 31" by (rule k(5))
qed

lemma walkable_end:
  assumes "walkable m p [] f"
  shows "cpio_newc_parse_header m p = Some (p + of_nat HEADER_SIZE, 0, p + of_nat (data_offset TRAILER), 0)"
proof -
  have "0 \<notin> set TRAILER" "length TRAILER < 2 ^ 31" by (simp_all add: ascii_lits)
  then show ?thesis using parse_member[of m p f TRAILER "[]"] assms by (simp add: walkable_def archive_simps)
qed

lemma holds_member_cong:
  assumes "holds_member s v x" "bytes s' = bytes s" "vnodes s' v = vnodes s v" "rinodes s' (internal (vnodes s v)) = rinodes s (internal (vnodes s v))"
  shows "holds_member s' v x"
  using assms by (simp add: holds_member_def rinode_of_def split: prod.splits)

lemma setup_loop_archive:
  assumes "heap_ok s" "roomy (3 * length ms + n) s" "i0 \<in> kblocks s" "k + length ms \<le> INITRAMFS_MAX_DIR_ENTRY"
    "walkable (bytes s) p ms f"
  shows "\<exists>s' vs. setup_loop i0 p k s = Some s' \<and> heap_ok s' \<and> roomy n s' \<and> kblocks s \<subseteq> kblocks s' \<and> bytes s' = bytes s \<and> mounts s' = mounts s \<and>
     (\<forall>b \<in> kblocks s. vnodes s' b = vnodes s b \<and> (b \<noteq> i0 \<longrightarrow> rinodes s' b = rinodes s b)) \<and>
     r_entry (rinodes s' i0) = enter k vs (r_entry (rinodes s i0)) \<and> list_all2 (holds_member s') vs ms"
  using assms
proof (induction ms arbitrary: s k p)
  case Nil
  have "setup_loop i0 p k s = Some s"
    by (subst setup_loop.simps) (simp add: walkable_end[OF Nil.prems(5)])
  then show ?case using Nil.prems by (intro exI[of _ s] exI[of _ "[]"]) simp
next
  case (Cons x ms)
  obtain g name data where x: "x = (g, name, data)" by (cases x) auto
  note w = walkable_next[OF Cons.prems(5)[unfolded x]]
  have rm: "roomy (3 + (3 * length ms + n)) s" using Cons.prems(2) by (simp add: add.assoc)
  have k: "k < INITRAMFS_MAX_DIR_ENTRY" using Cons.prems(4) by simp
  let ?q = "p + of_nat (length (newc_member g name data))"
  obtain s1 v where a: "add_member i0 k (p + of_nat HEADER_SIZE) (of_nat (length data)) (p + of_nat (data_offset name)) s = Some s1"
    "heap_ok s1" "roomy (3 * length ms + n) s1" "v \<notin> kblocks s" "v \<in> kblocks s1" "internal (vnodes s1 v) \<in> kblocks s1 - {i0}"
    "kblocks s \<subseteq> kblocks s1" "bytes s1 = bytes s" "mounts s1 = mounts s" "holds_member s1 v (g, name, data)"
    "r_entry (rinodes s1 i0) = (r_entry (rinodes s i0))(k := Some v)"
    "\<forall>b \<in> kblocks s. vnodes s1 b = vnodes s b \<and> (b \<noteq> i0 \<longrightarrow> rinodes s1 b = rinodes s b)"
    by (rule add_member_spec[OF Cons.prems(1) rm Cons.prems(3) k w(4,5,6,7), of g])
  have step: "setup_loop i0 p k s = setup_loop i0 ?q (k + 1) s1"
    using Cons.prems(5) w(1,2) a(1) by (subst setup_loop.simps) (simp add: walkable_def)
  have i0: "i0 \<in> kblocks s1" using Cons.prems(3) a(7) by blast
  have "\<exists>s' vs. setup_loop i0 ?q (k + 1) s1 = Some s' \<and> heap_ok s' \<and> roomy n s' \<and> kblocks s1 \<subseteq> kblocks s' \<and> bytes s' = bytes s1 \<and> mounts s' = mounts s1 \<and>
     (\<forall>b \<in> kblocks s1. vnodes s' b = vnodes s1 b \<and> (b \<noteq> i0 \<longrightarrow> rinodes s' b = rinodes s1 b)) \<and>
     r_entry (rinodes s' i0) = enter (k + 1) vs (r_entry (rinodes s1 i0)) \<and> list_all2 (holds_member s') vs ms"
    by (rule Cons.IH[OF a(2,3) i0]) (use Cons.prems(4) w(3) a(8) in simp_all)
  then obtain s' vs where l: "setup_loop i0 ?q (k + 1) s1 = Some s'" "heap_ok s'" "roomy n s'" "kblocks s1 \<subseteq> kblocks s'" "bytes s' = bytes s1"
    "mounts s' = mounts s1" "\<forall>b \<in> kblocks s1. vnodes s' b = vnodes s1 b \<and> (b \<noteq> i0 \<longrightarrow> rinodes s' b = rinodes s1 b)"
    "r_entry (rinodes s' i0) = enter (k + 1) vs (r_entry (rinodes s1 i0))" "list_all2 (holds_member s') vs ms" by blast
  have "holds_member s' v x" using holds_member_cong[OF a(10) l(5)] l(7) a(5,6) by (simp add: x)
  then have "list_all2 (holds_member s') (v # vs) (x # ms)" using l(9) by simp
  moreover have "\<forall>b \<in> kblocks s. vnodes s' b = vnodes s b \<and> (b \<noteq> i0 \<longrightarrow> rinodes s' b = rinodes s b)"
    using l(7) a(7,12) by (metis subsetD)
  moreover have "r_entry (rinodes s' i0) = enter k (v # vs) (r_entry (rinodes s i0))" using l(8) a(11) by simp
  ultimately show ?case unfolding step
    using l(1-6) a(7-9) by (intro exI[of _ s'] exI[of _ "v # vs"]) simp
qed


section \<open>The mounted file system\<close>

lemma find_list_all2:
  assumes "list_all2 P vs xs" "\<And>v x. P v x \<Longrightarrow> q v = r x"
  shows "case List.find r xs of None \<Rightarrow> List.find q vs = None | Some x \<Rightarrow> \<exists>v. List.find q vs = Some v \<and> P v x"
  using assms(1)
proof induction
  case (Cons v vs x xs)
  then show ?case using assms(2)[OF Cons(1)] by (cases "r x") (simp_all split: option.splits)
qed simp

lemma holds_member_name:
  assumes "holds_member s v (g, name, data)" "0 \<notin> set (ascii nm)" "length nm < 256"
  shows "strcmp_text (bytes s) nm (r_name (rinode_of s v)) = Some 0 \<longleftrightarrow> name = ascii nm"
proof -
  let ?m = "with_literal (ascii nm) (bytes s)"
  have l: "length (ascii nm) < 256" using assms(3) by (simp add: ascii_def)
  have "cstr ?m (r_name (rinode_of s v)) name"
    using assms(1) l by (simp add: holds_member_def cstr_bytes_at with_literal_bytes_at)
  with with_literal_cstr[OF assms(2) l] obtain r where "strcmp ?m LITERAL (r_name (rinode_of s v)) = Some r" "r = 0 \<longleftrightarrow> ascii nm = name"
    using strcmp_cstr by blast
  then show ?thesis by (auto simp: strcmp_text_def)
qed

lemma setup_mount_archive:
  assumes "heap_ok s" "roomy (3 + (3 * length ms + n)) s" "length ms \<le> INITRAMFS_MAX_DIR_ENTRY"
    "walkable (bytes s) (CPIO_DEFAULT_START s) ms f"
  obtains s' vs v where "initramfs_setup_mount fs mnt s = Some s'" "heap_ok s'" "roomy n s'" "bytes s' = bytes s"
    "m_root (mounts s' mnt) = v" "v_ops (vnodes s' v) = Initramfs_vnode_ops"
    "r_entry (rinode_of s' v) = enter 0 vs (\<lambda>_. None)" "list_all2 (holds_member s') vs ms"
proof -
  let ?s0 = "s\<lparr>mounts := (mounts s)(mnt := (mounts s mnt)\<lparr>m_fs := fs\<rparr>)\<rparr>"
  have m0: "mem ?s0 = mem s" by simp
  note h0 = heap_cong[OF m0]
  have h: "heap_ok ?s0" "roomy (3 + (3 * length ms + n)) ?s0" using assms(1,2) h0 by (simp_all add: roomy_def)
  obtain s1 v i d where c: "initramfs_create_vnode None dir_t ?s0 = Some (s1, v)" "heap_ok s1" "roomy (3 * length ms + n) s1"
    "v \<notin> kblocks ?s0" "i \<notin> kblocks ?s0" "i \<noteq> v" "v \<in> kblocks s1" "i \<in> kblocks s1" "kblocks ?s0 \<subseteq> kblocks s1"
    "quiet s1 = quiet (?s0\<lparr>vnodes := (vnodes ?s0)(v := new_vnode Initramfs_vnode_ops Initramfs_file_ops i),
       rinodes := (rinodes ?s0)(i := (empty_rinode dir_t)\<lparr>r_data := d\<rparr>)\<rparr>)"
    by (rule initramfs_create_vnode_spec[OF h, of dir_t])
  let ?s2 = "s1\<lparr>mounts := (mounts s1)(mnt := (mounts s1 mnt)\<lparr>m_root := v\<rparr>)\<rparr>"
  note q = quietD[OF c(10)]
  have m2: "mem ?s2 = mem s1" by simp
  note h2 = heap_cong[OF m2]
  have f: "internal (vnodes ?s2 v) = i" "v_ops (vnodes ?s2 v) = Initramfs_vnode_ops" "r_entry (rinodes ?s2 i) = (\<lambda>_. None)" "bytes ?s2 = bytes s"
    "CPIO_DEFAULT_START ?s2 = CPIO_DEFAULT_START s"
    using q by (simp_all add: new_vnode_def empty_rinode_def)
  have ok2: "heap_ok ?s2" "roomy (3 * length ms + n) ?s2" "i \<in> kblocks ?s2" "v \<in> kblocks ?s2" "v \<noteq> i" "walkable (bytes ?s2) (CPIO_DEFAULT_START s) ms f"
    using c(2,3,6-8) h2 assms(4) f(4) by (simp_all add: roomy_def)
  obtain s' vs where l: "setup_loop i (CPIO_DEFAULT_START s) 0 ?s2 = Some s'" "heap_ok s'" "roomy n s'" "bytes s' = bytes ?s2"
    "mounts s' = mounts ?s2" "\<forall>b \<in> kblocks ?s2. vnodes s' b = vnodes ?s2 b \<and> (b \<noteq> i \<longrightarrow> rinodes s' b = rinodes ?s2 b)"
    "r_entry (rinodes s' i) = enter 0 vs (r_entry (rinodes ?s2 i))" "list_all2 (holds_member s') vs ms"
    using setup_loop_archive[OF ok2(1-3) _ ok2(6), of 0] assms(3) by auto
  show thesis
  proof (rule that[of s' v vs])
    show "initramfs_setup_mount fs mnt s = Some s'" using c(1) l(1) f(1,5) by (simp add: initramfs_setup_mount_def)
    show "v_ops (vnodes s' v) = Initramfs_vnode_ops" "r_entry (rinode_of s' v) = enter 0 vs (\<lambda>_. None)"
      using l(6,7) ok2(4) f by (simp_all add: rinode_of_def)
  qed (use l f(4) in simp_all)
qed

text \<open>C22: mounting the initial RAM disk.  With three free frames for the root and three for every one of
  at most 100 members, and an archive that lies below the top 256 bytes of the address space,
  \<open>initramfs_setup_mount\<close> returns, leaves memory as it is, and the lookup of a name in the new root
  finds a node if and only if a member has the name: the node of the first such member, whose data
  pointer and size are those of the member's bytes in the archive.\<close>

theorem initramfs_mounts_archive:
  assumes "heap_ok s" "roomy (3 + 3 * length ms) s" "length ms \<le> INITRAMFS_MAX_DIR_ENTRY"
    "walkable (bytes s) (CPIO_DEFAULT_START s) ms f"
  shows "\<exists>s'. initramfs_setup_mount fs mnt s = Some s' \<and> heap_ok s' \<and> bytes s' = bytes s \<and>
    (\<forall>nm. 0 \<notin> set (ascii nm) \<and> length nm < 256 \<longrightarrow>
      (case List.find (\<lambda>(g, name, data). name = ascii nm) ms of
         None \<Rightarrow> fst (initramfs_scan s' (m_root (mounts s' mnt)) nm) = None
       | Some (g, name, data) \<Rightarrow>
           \<exists>v. initramfs_lookup (m_root (mounts s' mnt)) nm s' = Some (s', Some v) \<and>
             bytes_at (bytes s') (r_data (rinode_of s' v)) data \<and> initramfs_getsize v s' = of_nat (length data)))"
proof -
  obtain s' vs v where l: "initramfs_setup_mount fs mnt s = Some s'" "heap_ok s'" "bytes s' = bytes s" "m_root (mounts s' mnt) = v"
    "r_entry (rinode_of s' v) = enter 0 vs (\<lambda>_. None)" "list_all2 (holds_member s') vs ms"
    by (rule setup_mount_archive[of s ms 0 f fs mnt]) (use assms in simp_all)
  have len: "length vs = length ms" by (rule list_all2_lengthD[OF l(6)])
  have scan: "fst (initramfs_scan s' v nm) = List.find (\<lambda>w. strcmp_text (bytes s') nm (r_name (rinode_of s' w)) = Some 0) vs" for nm
    unfolding initramfs_scan_def l(5) by (rule scan_entries_listed) (use assms(3) in \<open>simp_all add: enter_nth len\<close>)
  have hit: "case List.find (\<lambda>(g, name, data). name = ascii nm) ms of None \<Rightarrow> fst (initramfs_scan s' v nm) = None
      | Some x \<Rightarrow> \<exists>w. fst (initramfs_scan s' v nm) = Some w \<and> holds_member s' w x" if "0 \<notin> set (ascii nm)" "length nm < 256" for nm
    unfolding scan by (rule find_list_all2[OF l(6)]) (use holds_member_name[OF _ that] in \<open>auto split: prod.splits\<close>)
  have "case List.find (\<lambda>(g, name, data). name = ascii nm) ms of None \<Rightarrow> fst (initramfs_scan s' v nm) = None
      | Some (g, name, data) \<Rightarrow> \<exists>w. initramfs_lookup v nm s' = Some (s', Some w) \<and>
          bytes_at (bytes s') (r_data (rinode_of s' w)) data \<and> initramfs_getsize w s' = of_nat (length data)"
    if n: "0 \<notin> set (ascii nm)" "length nm < 256" for nm
  proof (cases "List.find (\<lambda>(g, name, data). name = ascii nm) ms")
    case None
    then show ?thesis using hit[OF n] by simp
  next
    case (Some x)
    obtain g name data where x: "x = (g, name, data)" by (cases x) auto
    obtain w where w: "fst (initramfs_scan s' v nm) = Some w" "holds_member s' w (g, name, data)"
      using hit[OF n] Some x by auto
    have "initramfs_lookup v nm s' = Some (s', Some w)" using w(1) by (simp add: initramfs_lookup_def)
    then show ?thesis using w(2) by (simp add: Some x holds_member_def initramfs_getsize_def)
  qed
  then show ?thesis using l(1-4) by blast
qed


theorem initramfs_mounts_archive_witness:
  "\<exists>s s' v. initramfs_setup_mount 1 0 s = Some s' \<and>
     initramfs_lookup (m_root (mounts s' 0)) ''vm.img'' s' = Some (s', Some v) \<and>
     bytes_at (bytes s') (r_data (rinode_of s' v)) [4, 5, 6, 7, 8] \<and> initramfs_getsize v s' = 5"
proof -
  let ?s = "boot_kern\<lparr>bytes := two_files_mem, CPIO_DEFAULT_START := 0x1000\<rparr>" and ?n = "ascii ''vm.img''"
  have m: "mem ?s = mem boot_kern" by simp
  have h: "heap_ok ?s" "roomy (3 + 3 * length two_files) ?s"
    using boot_kern_ok heap_cong[OF m] by (simp_all add: roomy_def two_files_def)
  have l: "length two_files \<le> INITRAMFS_MAX_DIR_ENTRY" by (simp add: two_files_def INITRAMFS_MAX_DIR_ENTRY_def)
  have "\<forall>x \<in> set two_files. member_ok x \<and> fst (snd x) \<noteq> TRAILER" using two_files_facts(4) by (auto simp: names_ok_def)
  then have "walkable (bytes ?s) (CPIO_DEFAULT_START ?s) two_files (replicate 88 0x30)"
    using two_files_facts(1,3) by (simp add: walkable_def below_literal_def LITERAL_unat)
  from initramfs_mounts_archive[OF h l this, of 1 0] obtain s' where s': "initramfs_setup_mount 1 0 ?s = Some s'"
    and look: "0 \<notin> set ?n \<and> length ''vm.img'' < 256 \<longrightarrow>
      (case List.find (\<lambda>(g, name, data). name = ?n) two_files of
         None \<Rightarrow> fst (initramfs_scan s' (m_root (mounts s' 0)) ''vm.img'') = None
       | Some (g, name, data) \<Rightarrow>
           \<exists>v. initramfs_lookup (m_root (mounts s' 0)) ''vm.img'' s' = Some (s', Some v) \<and>
             bytes_at (bytes s') (r_data (rinode_of s' v)) data \<and> initramfs_getsize v s' = of_nat (length data))" by blast
  have f: "List.find (\<lambda>(g, name, data). name = ?n) two_files = Some (replicate 88 0x30, ?n, [4, 5, 6, 7, 8])"
    by (simp add: two_files_def ascii_def)
  have "0 \<notin> set ?n" by (simp add: ascii_def)
  then show ?thesis using s' look unfolding f by auto
qed

end
