(* ===== verification/Mmio.thy ===== *)
theory Mmio
  imports Kstate
begin

text \<open>
  The set-up of the mini UART by register writes: \<open>uart_init\<close> of the boot loader
  (\<open>bootloader/uart.c\<close>) and of the kernel (\<open>kernel/src/uart1.c\<close>).  A register keeps what is written
  to it; the order of the writes and the waits between them are recorded, since the device depends
  on them.  A counted wait executes \<open>nop\<close> that many times.
\<close>

unbundle bit_operations_syntax

section \<open>Registers\<close>

datatype mmio_reg = GPFSEL1 | GPPUD | GPPUDCLK0 | AUX_ENABLES | AUX_MU_CNTL_REG | AUX_MU_IER_REG
  | AUX_MU_LCR_REG | AUX_MU_MCR_REG | AUX_MU_BAUD_REG | AUX_MU_IIR_REG

datatype bus_op = Put mmio_reg "32 word" | Nops nat

record bus =
  regs :: "mmio_reg \<Rightarrow> 32 word"
  bus_log :: "bus_op list"

definition put :: "mmio_reg \<Rightarrow> 32 word \<Rightarrow> bus \<Rightarrow> bus" where
  "put r v b = b\<lparr>regs := (regs b)(r := v), bus_log := bus_log b @ [Put r v]\<rparr>"

definition nops :: "nat \<Rightarrow> bus \<Rightarrow> bus" where
  "nops n b = b\<lparr>bus_log := bus_log b @ [Nops n]\<rparr>"

section \<open>Pins and UART\<close>

text \<open>Pins 14 and 15 get their alternate function 5; the pull resistors are switched off.\<close>

definition alt5 :: "32 word \<Rightarrow> 32 word" where
  "alt5 r = (r AND NOT (push_bit 12 7 OR push_bit 15 7)) OR (push_bit 12 2 OR push_bit 15 2)"

definition gpio_alt5 :: "bus \<Rightarrow> bus" where
  "gpio_alt5 b = put GPFSEL1 (alt5 (regs b GPFSEL1)) b"

definition gpio_no_pull :: "bus \<Rightarrow> bus" where
  "gpio_no_pull b =
     put GPPUDCLK0 0 (put GPPUD 0 (nops 150 (put GPPUDCLK0 (push_bit 14 1 OR push_bit 15 1) (nops 150 (put GPPUD 0 b)))))"

definition aux_setup :: "bus \<Rightarrow> bus" where
  "aux_setup b =
     (let b1 = put AUX_ENABLES (regs b AUX_ENABLES OR 1) b;
          b2 = put AUX_MU_LCR_REG 3 (put AUX_MU_IER_REG 0 (put AUX_MU_CNTL_REG 0 b1));
          b3 = put AUX_MU_IIR_REG 0xC6 (put AUX_MU_BAUD_REG 270 (put AUX_MU_MCR_REG 0 b2))
      in put AUX_MU_CNTL_REG 3 b3)"

text \<open>The boot loader sets the pins up first, the kernel last.\<close>

definition uart_init_boot :: "bus \<Rightarrow> bus" where
  "uart_init_boot b = aux_setup (nops 300 (gpio_no_pull (gpio_alt5 b)))"

definition uart_init_bus :: "bus \<Rightarrow> bus" where
  "uart_init_bus b = gpio_alt5 (aux_setup (nops 500 (gpio_no_pull b)))"

text \<open>The driver of the kernel sees its interrupts disabled.\<close>

definition uart_init :: "bus \<times> uart \<Rightarrow> bus \<times> uart" where
  "uart_init = (\<lambda>(b, c). (uart_init_bus b, c\<lparr>ier := 0\<rparr>))"

section \<open>What the set-up leaves\<close>

lemma regs_put [simp]: "regs (put r v b) = (regs b)(r := v)" "regs (nops n b) = regs b"
  by (simp_all add: put_def nops_def)

lemma bit_merge:
  fixes r f v :: "32 word"
  assumes "n < 32"
  shows "bit ((r AND NOT (push_bit k f OR push_bit l f)) OR (push_bit k v OR push_bit l v)) n \<longleftrightarrow>
    bit r n \<and> \<not> (k \<le> n \<and> bit f (n - k)) \<and> \<not> (l \<le> n \<and> bit f (n - l)) \<or> k \<le> n \<and> bit v (n - k) \<or> l \<le> n \<and> bit v (n - l)"
  using assms by (auto simp: bit_simps)

lemma bit_alt5:
  assumes "n < 32"
  shows "bit (alt5 r) n \<longleftrightarrow> (if 12 \<le> n \<and> n < 18 then n = 13 \<or> n = 16 else bit r n)"
proof -
  have seven: "bit (7 :: 32 word) i \<longleftrightarrow> i < 3" for i
    using bit_mask_iff[of 3 i, where 'a = "32 word"] by (auto simp: mask_eq_decr_exp)
  have two: "bit (2 :: 32 word) i \<longleftrightarrow> i = 1" for i
    using bit_exp_iff[of 1 i, where 'a = "32 word"] by auto
  show ?thesis unfolding alt5_def bit_merge[OF assms] seven two by (auto split: if_splits)
qed

text \<open>Both programs leave the same registers: the transmitter and receiver on, 8-bit mode, divisor
  270, no interrupts, the two pins at alternate function 5 and every other pin as it was.\<close>

definition uart_ready :: "bus \<Rightarrow> bus \<Rightarrow> bool" where
  "uart_ready b b' \<longleftrightarrow> regs b' AUX_MU_CNTL_REG = 3 \<and> regs b' AUX_MU_LCR_REG = 3 \<and> regs b' AUX_MU_BAUD_REG = 270 \<and>
     regs b' AUX_MU_IER_REG = 0 \<and> regs b' AUX_MU_MCR_REG = 0 \<and> regs b' AUX_ENABLES = regs b AUX_ENABLES OR 1 \<and>
     regs b' GPPUD = 0 \<and> regs b' GPPUDCLK0 = 0 \<and> regs b' GPFSEL1 = alt5 (regs b GPFSEL1)"

lemma uart_init_ready: "uart_ready b (uart_init_boot b)" "uart_ready b (uart_init_bus b)"
  by (simp_all add: uart_ready_def uart_init_boot_def uart_init_bus_def aux_setup_def gpio_no_pull_def gpio_alt5_def Let_def)

end
