(* ===== verification/Bootloader.thy ===== *)
theory Bootloader
  imports Mmio Bytes
begin

text \<open>
  The boot loader \<open>src/bootloader\<close>: \<open>main\<close> (\<open>bootloader.c\<close>) sets the UART up, receives a size and
  that many bytes and jumps to them; \<open>uart.c\<close> is polled input and output; \<open>utils.c\<close> has one
  comparison.  The device is the list of bytes that will still arrive and the list of bytes sent;
  \<open>None\<close> is a wait for a byte that never arrives, or undefined behaviour of C.
\<close>

unbundle bit_operations_syntax

record loader =
  l_bus :: bus
  l_in :: "8 word list"
  l_out :: "8 word list"
  l_mem :: Cstring.mem

section \<open>Input and output\<close>

definition uart_send_char :: "32 word \<Rightarrow> loader \<Rightarrow> loader" where
  "uart_send_char c s = s\<lparr>l_out := l_out s @ [ucast c]\<rparr>"

primrec uart_send_string :: "8 word list \<Rightarrow> loader \<Rightarrow> loader" where
  "uart_send_string [] s = s"
| "uart_send_string (c # str) s =
     uart_send_string str (uart_send_char (ucast c) (if c = 0x0A then uart_send_char 0x0D s else s))"

definition uart_recv_raw :: "loader \<Rightarrow> (loader \<times> 8 word) option" where
  "uart_recv_raw s = (case l_in s of [] \<Rightarrow> None | r # rest \<Rightarrow> Some (s\<lparr>l_in := rest\<rparr>, r))"

definition uart_recv_char :: "loader \<Rightarrow> (loader \<times> 8 word) option" where
  "uart_recv_char s = (case uart_recv_raw s of None \<Rightarrow> None | Some (s1, r) \<Rightarrow> Some (s1, if r = 0x0D then 0x0A else r))"

definition store :: "addr \<Rightarrow> 8 word \<Rightarrow> loader \<Rightarrow> loader" where
  "store p v s = s\<lparr>l_mem := (l_mem s)(p := v)\<rparr>"

text \<open>\<open>n\<close> rounds are left; \<open>True\<close> when the loop returned at a terminator.\<close>

primrec recv_string_loop :: "nat \<Rightarrow> addr \<Rightarrow> loader \<Rightarrow> (loader \<times> bool) option" where
  "recv_string_loop 0 p s = Some (s, False)"
| "recv_string_loop (Suc n) p s =
     (case uart_recv_char s of None \<Rightarrow> None
      | Some (s1, r) \<Rightarrow> if r = 0 then Some (store p r s1, True) else recv_string_loop n (p + 1) (store p r s1))"

definition uart_recv_string :: "addr \<Rightarrow> int \<Rightarrow> loader \<Rightarrow> loader option" where
  "uart_recv_string buf buf_size s =
     (case recv_string_loop (nat (buf_size - 1)) buf s of None \<Rightarrow> None
      | Some (s1, returned) \<Rightarrow> Some (if returned then s1 else store (buf + of_int (buf_size - 1)) 0 s1))"

text \<open>The hexadecimal digits are written from the last position of \<open>hex_str\<close> backwards.\<close>

definition uart_binary_to_hex :: "32 word \<Rightarrow> loader \<Rightarrow> loader" where
  "uart_binary_to_hex value s =
     uart_send_string (fold (\<lambda>i str. str[9 - i := hex_digit (unat (drop_bit (i * 4) value AND 0xF))]) [0..<8]
       (ascii ''0x00000000'')) s"

text \<open>\<open>string_compare\<close>: a command line that ends in a line feed equals the command.\<close>

partial_function (option) string_compare :: "Cstring.mem \<Rightarrow> addr \<Rightarrow> addr \<Rightarrow> bool option" where
  "string_compare m str1 str2 =
     (if m str1 \<noteq> 0 \<and> m str2 \<noteq> 0 then
        (if m str1 \<noteq> m str2 then Some False else string_compare m (str1 + 1) (str2 + 1))
      else Some (m str1 = 0x0A \<and> m str2 = 0 \<or> m str1 = m str2))"

section \<open>Receiving the kernel\<close>

definition KERNEL_ADDR :: addr where "KERNEL_ADDR = 0x80000"

definition recv_size :: "loader \<Rightarrow> (loader \<times> 32 word) option" where
  "recv_size s =
     (case uart_recv_raw s of None \<Rightarrow> None | Some (s1, a) \<Rightarrow>
      case uart_recv_raw s1 of None \<Rightarrow> None | Some (s2, b) \<Rightarrow>
      case uart_recv_raw s2 of None \<Rightarrow> None | Some (s3, c) \<Rightarrow>
      case uart_recv_raw s3 of None \<Rightarrow> None | Some (s4, d) \<Rightarrow>
      Some (s4, push_bit 24 (ucast a) OR push_bit 16 (ucast b) OR push_bit 8 (ucast c) OR ucast d))"

text \<open>\<open>n\<close> bytes are left, \<open>i\<close> is the counter, an \<open>int\<close>, whose overflow is undefined.\<close>

primrec recv_kernel :: "nat \<Rightarrow> nat \<Rightarrow> loader \<Rightarrow> loader option" where
  "recv_kernel 0 i s = Some s"
| "recv_kernel (Suc n) i s =
     (if i \<ge> 2 ^ 31 - 1 then None
      else case uart_recv_raw s of None \<Rightarrow> None
      | Some (s1, r) \<Rightarrow>
          (let s2 = store (KERNEL_ADDR + of_nat i) r s1
           in recv_kernel n (i + 1) (if (i + 1) mod 1024 = 0 then uart_send_string (ascii [CHR ''!'', CHR 0x0A]) s2 else s2)))"

text \<open>The address \<open>main\<close> continues at is the one put into \<open>x30\<close>.\<close>

definition main_boot :: "loader \<Rightarrow> (loader \<times> addr) option" where
  "main_boot s =
     (case recv_size (s\<lparr>l_bus := uart_init_boot (l_bus s)\<rparr>) of None \<Rightarrow> None
      | Some (s1, kernel_size) \<Rightarrow>
          (case recv_kernel (unat kernel_size) 0 s1 of None \<Rightarrow> None
           | Some s2 \<Rightarrow> Some (uart_send_string (ascii (''Finished!'' @ crnl)) s2, 0x80000)))"

section \<open>The upload protocol\<close>

lemma uart_send_string_out: "uart_send_string str s = s\<lparr>l_out := l_out s @ crlf str\<rparr>"
proof (induction str arbitrary: s)
  case (Cons c str)
  have "ucast (ucast c :: 32 word) = c" by (rule bit_word_eqI) (auto simp: bit_simps)
  then show ?case by (simp add: Cons.IH uart_send_char_def crlf_def)
qed (simp add: crlf_def)

lemma recv_size_be32:
  assumes "l_in s = be32 n @ rest"
  shows "recv_size s = Some (s\<lparr>l_in := rest\<rparr>, n)"
  using assms be32_value[of n] by (simp add: recv_size_def uart_recv_raw_def be32_def)

text \<open>The acknowledgements for \<open>n\<close> bytes behind the first \<open>i\<close>.\<close>

definition acks :: "nat \<Rightarrow> nat \<Rightarrow> 8 word list" where
  "acks i n = concat (replicate ((i + n) div 1024 - i div 1024) (crlf (ascii [CHR ''!'', CHR 0x0A])))"

lemma acks_Suc: "acks i (Suc n) = (if (i + 1) mod 1024 = 0 then crlf (ascii [CHR ''!'', CHR 0x0A]) else []) @ acks (i + 1) n"
proof -
  have d: "Suc i mod 1024 = 0 \<Longrightarrow> Suc i div 1024 = Suc (i div 1024)" "Suc i mod 1024 \<noteq> 0 \<Longrightarrow> Suc i div 1024 = i div 1024"
    by (simp_all add: div_Suc)
  have le: "Suc i div 1024 \<le> (Suc i + n) div 1024" by (simp add: div_le_mono)
  show ?thesis
  proof (cases "Suc i mod 1024 = 0")
    case True
    then have "(Suc i + n) div 1024 - i div 1024 = Suc ((Suc i + n) div 1024 - Suc i div 1024)"
      using d(1)[OF True] le by linarith
    then show ?thesis using True unfolding acks_def add_Suc_right add_Suc[symmetric] by simp
  qed (use d in \<open>simp add: acks_def\<close>)
qed

primrec fill :: "addr \<Rightarrow> 8 word list \<Rightarrow> Cstring.mem \<Rightarrow> Cstring.mem" where
  "fill p [] m = m"
| "fill p (x # xs) m = fill (p + 1) xs (m(p := x))"

lemma recv_kernel_run:
  "l_in s = img @ rest \<Longrightarrow> i + length img < 2 ^ 31 \<Longrightarrow>
   recv_kernel (length img) i s =
     Some (s\<lparr>l_in := rest, l_out := l_out s @ acks i (length img), l_mem := fill (KERNEL_ADDR + of_nat i) img (l_mem s)\<rparr>)"
proof (induction img arbitrary: i s)
  case Nil then show ?case by (simp add: acks_def)
next
  case (Cons x xs)
  show ?case using Cons.prems Cons.IH[of _ "Suc i"]
    by (simp add: uart_recv_raw_def store_def uart_send_string_out acks_Suc Let_def ac_simps)
qed

lemma recv_kernel_stuck: "length (l_in s) < n \<Longrightarrow> recv_kernel n i s = None"
proof (induction n arbitrary: i s)
  case (Suc n)
  then show ?case
    by (cases "l_in s") (auto simp: uart_recv_raw_def store_def uart_send_string_out Let_def intro: Suc.IH)
qed simp

section \<open>Properties of the boot loader\<close>

text \<open>What the sender puts on the wire: the size, most significant byte first, and the image.\<close>

definition sender :: "8 word list \<Rightarrow> 8 word list" where
  "sender img = be32 (of_nat (length img)) @ img"

lemma fill_other: "length xs \<le> unat (a - p) \<Longrightarrow> fill p xs m a = m a"
proof (induction xs arbitrary: p m)
  case (Cons x xs)
  have "a - p \<noteq> 0" using Cons.prems by auto
  then have "unat (a - (p + 1)) = unat (a - p) - 1"
    using unat_minus_one[of "a - p"] by (simp add: diff_diff_eq)
  then show ?case using Cons.prems \<open>a - p \<noteq> 0\<close> by (auto simp: Cons.IH)
qed simp

lemma fill_same: "length xs < 2 ^ 64 \<Longrightarrow> i < length xs \<Longrightarrow> fill p xs m (p + of_nat i) = xs ! i"
proof (induction xs arbitrary: p m i)
  case (Cons x xs)
  show ?case
  proof (cases i)
    case 0
    have "unat (p - (p + 1)) = 2 ^ 64 - 1" by (simp add: unsigned_minus_1_eq_mask mask_eq_exp_minus_1)
    then show ?thesis using Cons.prems 0 by (simp add: fill_other)
  next
    case (Suc j)
    have "p + of_nat i = (p + 1) + of_nat j" using Suc by simp
    then show ?thesis using Cons.prems Suc Cons.IH[of j "p + 1"] by (simp add: add.assoc)
  qed
qed simp

lemma recv_size_stuck: "length (l_in s) < 4 \<Longrightarrow> recv_size s = None"
  by (auto simp: recv_size_def uart_recv_raw_def split: list.splits)

lemma crlf_bang: "crlf (ascii [CHR ''!'', CHR 0x0A]) = ascii [CHR ''!'', CHR 0x0D, CHR 0x0A]"
  by (simp add: crlf_def ascii_def)

lemma crlf_finished: "crlf (ascii (''Finished!'' @ crnl)) = ascii (''Finished!'' @ [CHR 0x0D, CHR 0x0D, CHR 0x0A])"
  by (simp add: crlf_def ascii_def crnl_def)

lemma main_boot_complete:
  assumes "length img < 2 ^ 31" "l_in s = sender img @ rest"
  shows "main_boot s = Some (s\<lparr>l_bus := uart_init_boot (l_bus s), l_in := rest, l_mem := fill 0x80000 img (l_mem s),
    l_out := l_out s @ concat (replicate (length img div 1024) (ascii [CHR ''!'', CHR 0x0D, CHR 0x0A])) @
      ascii (''Finished!'' @ [CHR 0x0D, CHR 0x0D, CHR 0x0A])\<rparr>, 0x80000)"
proof -
  let ?s0 = "s\<lparr>l_bus := uart_init_boot (l_bus s)\<rparr>" and ?n = "of_nat (length img) :: 32 word"
  have n: "unat ?n = length img" using assms(1) by (simp add: unat_of_nat)
  have "l_in ?s0 = be32 ?n @ (img @ rest)" using assms(2) by (simp add: sender_def)
  note r1 = recv_size_be32[OF this]
  have r2: "recv_kernel (length img) 0 (?s0\<lparr>l_in := img @ rest\<rparr>) =
      Some (?s0\<lparr>l_in := rest, l_out := l_out s @ acks 0 (length img), l_mem := fill (KERNEL_ADDR + of_nat 0) img (l_mem s)\<rparr>)"
    using recv_kernel_run[of "?s0\<lparr>l_in := img @ rest\<rparr>" img rest 0] assms(1) by simp
  show ?thesis unfolding main_boot_def r1 option.case prod.case n r2
    by (simp add: uart_send_string_out acks_def KERNEL_ADDR_def crlf_bang crlf_finished del: append.simps)
qed

lemma main_boot_incomplete:
  assumes "length img < 2 ^ 31" "l_in s = take k (sender img)" "k < length (sender img)"
  shows "main_boot s = None"
proof -
  let ?s0 = "s\<lparr>l_bus := uart_init_boot (l_bus s)\<rparr>" and ?n = "of_nat (length img) :: 32 word"
  have n: "unat ?n = length img" using assms(1) by (simp add: unat_of_nat)
  show ?thesis
  proof (cases "k < 4")
    case True
    then have "length (l_in ?s0) < 4" using assms(2) by simp
    then show ?thesis by (simp add: main_boot_def recv_size_stuck)
  next
    case False
    then have e: "l_in ?s0 = be32 ?n @ take (k - 4) img" using assms(2) by (simp add: sender_def)
    have "length (l_in (?s0\<lparr>l_in := take (k - 4) img\<rparr>)) < length img" using assms(3) False by (simp add: sender_def)
    note r = recv_kernel_stuck[OF this, of 0]
    show ?thesis unfolding main_boot_def recv_size_be32[OF e] option.case prod.case n r ..
  qed
qed

text \<open>C25: uploading a kernel.  If the wire holds the size of an image below 2 GiB, most significant byte
  first, and the image, \<open>main\<close> sets the UART up, puts exactly the image at \<open>0x80000\<close>, changes no other
  byte, leaves the rest of the input alone, sends one acknowledgement for every 1024 bytes and the
  final message, and continues at \<open>0x80000\<close>; if the wire holds fewer bytes it does not return.\<close>

theorem kernel_upload:
  assumes "length img < 2 ^ 31"
  shows "(\<exists>s'. main_boot (s\<lparr>l_in := sender img @ rest\<rparr>) = Some (s', 0x80000) \<and> uart_ready (l_bus s) (l_bus s') \<and>
      (\<forall>i < length img. l_mem s' (0x80000 + of_nat i) = img ! i) \<and>
      (\<forall>a. length img \<le> unat (a - 0x80000) \<longrightarrow> l_mem s' a = l_mem s a) \<and> l_in s' = rest \<and>
      l_out s' = l_out s @ concat (replicate (length img div 1024) (ascii [CHR ''!'', CHR 0x0D, CHR 0x0A])) @
        ascii (''Finished!'' @ [CHR 0x0D, CHR 0x0D, CHR 0x0A])) \<and>
    (\<forall>k < length (sender img). main_boot (s\<lparr>l_in := take k (sender img)\<rparr>) = None)"
proof (intro conjI allI impI)
  show "main_boot (s\<lparr>l_in := take k (sender img)\<rparr>) = None" if "k < length (sender img)" for k
    using main_boot_incomplete[OF assms _ that, of "s\<lparr>l_in := take k (sender img)\<rparr>"] by simp
  have c: "main_boot (s\<lparr>l_in := sender img @ rest\<rparr>) = Some ((s\<lparr>l_in := sender img @ rest\<rparr>)\<lparr>l_bus := uart_init_boot (l_bus s), l_in := rest,
      l_mem := fill 0x80000 img (l_mem s), l_out := l_out s @ concat (replicate (length img div 1024) (ascii [CHR ''!'', CHR 0x0D, CHR 0x0A])) @
        ascii (''Finished!'' @ [CHR 0x0D, CHR 0x0D, CHR 0x0A])\<rparr>, 0x80000)"
    using main_boot_complete[OF assms, of "s\<lparr>l_in := sender img @ rest\<rparr>" rest] by simp
  show "\<exists>s'. main_boot (s\<lparr>l_in := sender img @ rest\<rparr>) = Some (s', 0x80000) \<and> uart_ready (l_bus s) (l_bus s') \<and>
      (\<forall>i < length img. l_mem s' (0x80000 + of_nat i) = img ! i) \<and>
      (\<forall>a. length img \<le> unat (a - 0x80000) \<longrightarrow> l_mem s' a = l_mem s a) \<and> l_in s' = rest \<and>
      l_out s' = l_out s @ concat (replicate (length img div 1024) (ascii [CHR ''!'', CHR 0x0D, CHR 0x0A])) @
        ascii (''Finished!'' @ [CHR 0x0D, CHR 0x0D, CHR 0x0A])"
    by (rule exI, rule conjI, rule c) (use assms in \<open>simp add: uart_init_ready fill_same fill_other\<close>)
qed

text \<open>An image of three bytes.\<close>

theorem kernel_upload_witness:
  "\<exists>s'. main_boot \<lparr>l_bus = \<lparr>regs = \<lambda>_. 0, bus_log = []\<rparr>, l_in = [0, 0, 0, 3, 7, 8, 9], l_out = [], l_mem = \<lambda>_. 0\<rparr> = Some (s', 0x80000) \<and>
     l_mem s' 0x80002 = 9"
proof -
  let ?s = "\<lparr>l_bus = \<lparr>regs = \<lambda>_. 0, bus_log = []\<rparr>, l_in = [], l_out = [], l_mem = \<lambda>_. 0\<rparr>"
  have l: "length [7, 8, 9 :: 8 word] < 2 ^ 31" by simp
  have e: "sender [7, 8, 9] @ [] = [0, 0, 0, 3, 7, 8, 9]" by (simp add: sender_def be32_def)
  obtain s' where s': "main_boot (?s\<lparr>l_in := sender [7, 8, 9] @ []\<rparr>) = Some (s', 0x80000)"
      "\<forall>i < length [7, 8, 9 :: 8 word]. l_mem s' (0x80000 + of_nat i) = [7, 8, 9] ! i"
    using kernel_upload[OF l, where s = ?s and rest = "[]"] by blast
  have "l_mem s' 0x80002 = 9" using s'(2)[rule_format, of 2] by simp
  then show ?thesis using s'(1) unfolding e by auto
qed

end
