(* ===== verification/Shell.thy ===== *)
theory Shell
  imports Dtb
begin

text \<open>
  \<open>kernel/src/shell.c\<close>: reading and dispatching a command line, the commands, and the loop that
  starts the first program; with it the commands on the archive (\<open>cpio.c\<close>) and the report of
  \<open>print_order\<close> (\<open>memory.c\<close>).  A buffer is given by its address.  \<open>None\<close> is a wait for input, a walk
  that does not end, or a call that leaves C's defined behaviour.
\<close>

unbundle bit_operations_syntax

section \<open>Reading a line\<close>

definition cli_cmd_clear :: "addr \<Rightarrow> int \<Rightarrow> kern \<Rightarrow> kern" where
  "cli_cmd_clear buffer len s = s\<lparr>bytes := fold (\<lambda>i m. m(buffer + of_nat i := 0)) [0..<nat len] (bytes s)\<rparr>"

primrec cmd_read_loop :: "nat \<Rightarrow> addr \<Rightarrow> kern \<Rightarrow> kern option" where
  "cmd_read_loop 0 p s = Some s"
| "cmd_read_loop (Suc n) p s =
     (case uart_async_getc (con s) of Inl _ \<Rightarrow> None
      | Inr (c, r) \<Rightarrow> if r = 0x0A then Some (s\<lparr>con := c, bytes := (bytes s)(p := 0)\<rparr>)
          else cmd_read_loop n (p + 1) (s\<lparr>con := c, bytes := (bytes s)(p := r)\<rparr>))"

definition cli_cmd_read :: "addr \<Rightarrow> kern \<Rightarrow> kern option" where
  "cli_cmd_read buffer s = cmd_read_loop 256 buffer s"

text \<open>The first space becomes a terminator, the argument is what follows it.\<close>

partial_function (option) find_space :: "Cstring.mem \<Rightarrow> addr \<Rightarrow> addr ptr option" where
  "find_space m p = (if m p = 0 then Some None else if m p = 0x20 then Some (Some p) else find_space m (p + 1))"

definition split_argument :: "addr \<Rightarrow> kern \<Rightarrow> (kern \<times> addr ptr) option" where
  "split_argument p s =
     (case find_space (bytes s) p of None \<Rightarrow> None | Some None \<Rightarrow> Some (s, None)
      | Some (Some q) \<Rightarrow> Some (s\<lparr>bytes := (bytes s)(q := 0)\<rparr>, Some (q + 1)))"

definition nl :: string where "nl = [CHR 0x0A]"

section \<open>Commands\<close>

definition cli_mailbox_info :: "gpu \<Rightarrow> addr \<Rightarrow> kern \<Rightarrow> kern" where
  "cli_mailbox_info gpu a s =
     (let r = get_board_revision gpu a;
          s1 = (if r \<noteq> 0 then klog crnl (klog_hex (ucast r) (klog ''My board model is: '' s))
                else klog (''Failed to get board model info.'' @ crnl) s)
      in case get_arm_memory_info gpu a of None \<Rightarrow> klog (''Failed to get ARM memory info.'' @ crnl) s1
         | Some (base, sz) \<Rightarrow>
             (let s2 = klog crnl (klog_hex (ucast base) (klog ''My ARM memory base address is: '' s1))
              in klog crnl (klog_hex (ucast sz) (klog ''My ARM memory size is: '' s2))))"

definition dec_arg :: "addr \<Rightarrow> kern \<Rightarrow> 64 word option" where
  "dec_arg p s = map_option (\<lambda>n. utils_DecStr2Int (bytes s) p (nat (sint (ucast n :: 32 word)))) (utils_strlen (bytes s) p)"

definition cli_setTimeout :: "addr ptr \<Rightarrow> kern \<Rightarrow> kern option" where
  "cli_setTimeout arg s =
     (let usage = klog (''Usage: setTimeout <MESSAGE> <SECONDS>'' @ nl) in
      case arg of None \<Rightarrow> Some (usage s) | Some a \<Rightarrow>
      case split_argument a s of None \<Rightarrow> None | Some (s1, None) \<Rightarrow> Some (usage s1) | Some (s1, Some sec) \<Rightarrow>
        if bytes s1 sec = 0 then Some (usage s1)
        else (case dec_arg sec s1 of None \<Rightarrow> None | Some t \<Rightarrow>
              case get_text (bytes s1) a of None \<Rightarrow> None | Some msg \<Rightarrow> add_timer Uart_puts t msg False s1))"

definition klog_num :: "32 word \<Rightarrow> kern \<Rightarrow> kern option" where
  "klog_num v s = map_option (\<lambda>str. klog (map (\<lambda>b. char_of (unat b)) str) s) (utils_int_to_str v)"

text \<open>\<open>print_order\<close> with its report.\<close>

definition print_order_info :: "int \<Rightarrow> kern \<Rightarrow> kern option" where
  "print_order_info order s =
     (if order > int MAX_ORDER then Some s else if order < 0 then None
      else case print_order (nat order) (mem s) of None \<Rightarrow> None | Some n \<Rightarrow>
        (case klog_num (of_int order) (klog ''Order '' (enable_interrupt (disable_interrupt s))) of None \<Rightarrow> None | Some s1 \<Rightarrow>
         map_option (klog ('')'' @ crnl)) (klog_num (of_nat n) (klog '' ('' (klog '': '' s1)))))"

definition cli_buddyinfo :: "addr ptr \<Rightarrow> kern \<Rightarrow> kern option" where
  "cli_buddyinfo arg s =
     (case arg of None \<Rightarrow> Some (klog (''Usage: buddyinfo <target order>'' @ nl) s)
      | Some a \<Rightarrow> (case dec_arg a s of None \<Rightarrow> None | Some v \<Rightarrow> print_order_info (sint (ucast v :: 32 word)) s))"

definition cpio_ls :: "kern \<Rightarrow> kern option" where
  "cpio_ls s =
     (case ls_loop (bytes s) (CPIO_DEFAULT_START s) [] of None \<Rightarrow> None
      | Some names \<Rightarrow> run_all (\<lambda>a s. map_option (klog crnl) (klog_user a s)) names s)"

definition cpio_cat :: "addr \<Rightarrow> kern \<Rightarrow> kern option" where
  "cpio_cat filename s =
     (case find_file (bytes s) (CPIO_DEFAULT_START s) filename of None \<Rightarrow> None
      | Some None \<Rightarrow> Some (klog (''File not found'' @ crnl) s)
      | Some (Some target) \<Rightarrow>
          (case member_sizes (bytes s) target of (header_pathname_size, file_size) \<Rightarrow>
             if unat file_size \<ge> 2 ^ 32 then None
             else Some (s\<lparr>con := fold (\<lambda>i. uart_send (bytes s (target + header_pathname_size + of_nat i))) [0..<unat file_size] (con s)\<rparr>)))"

text \<open>\<open>True\<close>: the processor is in the new program.\<close>

definition cli_exec :: "addr \<Rightarrow> addr ptr \<Rightarrow> kern \<Rightarrow> (kern \<times> bool) option" where
  "cli_exec wrapper arg s =
     (case arg of None \<Rightarrow> Some (klog (''Usage: exec <target program file>'' @ nl) s, False)
      | Some a \<Rightarrow>
          (case cpio_find_program (bytes s) (CPIO_DEFAULT_START s) a of None \<Rightarrow> None
           | Some None \<Rightarrow> Some (klog (''No program is found, so no thread_exec will happen.'' @ crnl) (klog (''File not found'' @ crnl) s), False)
           | Some (Some (filesize, filedata)) \<Rightarrow>
               map_option (\<lambda>s1. (s1, True)) (thread_exec wrapper filedata filesize (s\<lparr>con := (con s)\<lparr>uart_recv_echo_flag := False\<rparr>\<rparr>))))"

definition help_lines :: "string list" where
  "help_lines =
    [''help   : print this help menu'', ''hello  : print Hello World!'', ''info   : get the hardware's information'',
     ''reboot : reboot the device'', ''ls     : list all files in cpio archive folder'', ''cat    : show specific file content'',
     ''exec   : run the user program img if the provided img name exists in cpio archive'',
     ''async  : test asynchronous uart, it will asynchronously echos the user input'',
     ''setTimeout : set timeout duration and the message after timeout'', ''buddyinfo: list current target order freeframe list'']"

definition cli_display_help :: "kern \<Rightarrow> kern" where
  "cli_display_help s = fold (\<lambda>l. klog (l @ nl)) help_lines s"

section \<open>Dispatch\<close>

datatype command = Help | Hello | Info | Reboot | Ls | Cat | Async | SetTimeout | Buddyinfo | Exec | Unknown

primrec dispatch :: "(string \<times> command) list \<Rightarrow> Cstring.mem \<Rightarrow> addr \<Rightarrow> command option" where
  "dispatch [] m cmd = Some Unknown"
| "dispatch (x # xs) m cmd =
     (case compare_lit m cmd (fst x) of None \<Rightarrow> None | Some same \<Rightarrow> if same then Some (snd x) else dispatch xs m cmd)"

definition commands :: "(string \<times> command) list" where
  "commands = [(''help'', Help), (''hello'', Hello), (''info'', Info), (''reboot'', Reboot), (''ls'', Ls), (''cat'', Cat), (''async'', Async),
     (''setTimeout'', SetTimeout), (''buddyinfo'', Buddyinfo), (''exec'', Exec)]"

definition PM_PASSWORD :: "32 word" where "PM_PASSWORD = 0x5a000000"
definition PM_RSTC :: addr where "PM_RSTC = PHYS_TO_VIRT 0x3F10001c"
definition PM_WDOG :: addr where "PM_WDOG = PHYS_TO_VIRT 0x3F100024"

text \<open>The prompt comes back, a program runs, or the registers that reset the board are written.\<close>

datatype shell_outcome = Prompt kern | Entered_user kern | Reset "(addr \<times> 32 word) list" kern

definition cli_cmd_reboot :: "kern \<Rightarrow> shell_outcome" where
  "cli_cmd_reboot s =
     Reset [(PM_RSTC, PM_PASSWORD OR 0x20), (PM_WDOG, PM_PASSWORD OR 5)] (klog (''Rebooting....'' @ nl) s)"

definition run_command :: "machine \<Rightarrow> addr \<Rightarrow> command \<Rightarrow> addr ptr \<Rightarrow> kern \<Rightarrow> shell_outcome option" where
  "run_command m a c arg s =
     (case c of Help \<Rightarrow> Some (Prompt (cli_display_help s)) | Hello \<Rightarrow> Some (Prompt (klog (''Hello World!'' @ nl) s))
      | Info \<Rightarrow> Some (Prompt (cli_mailbox_info (videocore m) a s)) | Reboot \<Rightarrow> Some (cli_cmd_reboot s)
      | Ls \<Rightarrow> map_option Prompt (cpio_ls s)
      | Cat \<Rightarrow> (case arg of None \<Rightarrow> Some (Prompt (klog (''Usage: cat <filename>'' @ nl) s)) | Some f \<Rightarrow> map_option Prompt (cpio_cat f s))
      | Async \<Rightarrow> Some (Prompt s) | SetTimeout \<Rightarrow> map_option Prompt (cli_setTimeout arg s)
      | Buddyinfo \<Rightarrow> map_option Prompt (cli_buddyinfo arg s)
      | Exec \<Rightarrow> map_option (\<lambda>(s1, entered). if entered then Entered_user s1 else Prompt s1) (cli_exec (wrapper_addr m) arg s)
      | Unknown \<Rightarrow> Some (Prompt (klog (''Unknown command. Type 'help' for available commands.'' @ nl) s)))"

definition cli_process_command :: "machine \<Rightarrow> addr \<Rightarrow> addr \<Rightarrow> kern \<Rightarrow> shell_outcome option" where
  "cli_process_command m a input_string s =
     (case split_argument input_string s of None \<Rightarrow> None
      | Some (s1, arg) \<Rightarrow>
          (case dispatch commands (bytes s1) input_string of None \<Rightarrow> None | Some c \<Rightarrow> run_command m a c arg s1))"

section \<open>The loop\<close>

text \<open>\<open>prog\<close> is the address of the literal \<open>vfs1.img\<close>.\<close>

definition shell_round :: "addr \<Rightarrow> addr \<Rightarrow> addr \<Rightarrow> kern \<Rightarrow> (kern \<times> bool) option" where
  "shell_round wrapper cli_input_string prog s =
     (let s1 = klog ''# '' (cli_cmd_clear cli_input_string 256 s);
          s2 = (if SAFE_DEMO s1 then s1\<lparr>con := uart_interrupt_disable (con s1)\<rparr> else s1)
      in cli_exec wrapper (Some prog) s2)"

partial_function (option) shell :: "addr \<Rightarrow> addr \<Rightarrow> addr \<Rightarrow> kern \<Rightarrow> kern option" where
  "shell wrapper cli_input_string prog s =
     (case shell_round wrapper cli_input_string prog s of None \<Rightarrow> None
      | Some r \<Rightarrow> if snd r then Some (fst r) else shell wrapper cli_input_string prog (fst r))"

end
