(* ===== verification/Boot.thy ===== *)
theory Boot
  imports Shell Mmio
begin

text \<open>
  \<open>kernel/src/main.c\<close>: the order in which the kernel is brought up.  \<open>x20\<close> is the address of the
  device tree; the record gives the linker symbols and the addresses of the literals and of the
  shell's buffer.  \<open>IF_QEMU\<close> is 0, so the first block is not run.
\<close>

record image =
  kernel_start :: addr
  stack_end :: addr
  stack_top :: addr
  idle_code :: addr
  lit_chosen :: addr
  lit_initrd_start :: addr
  lit_initrd_end :: addr
  lit_program :: addr
  cli_buffer :: addr

definition heap_limit :: addr where "heap_limit = PHYS_TO_VIRT 0x06000000"
definition MMU_PGD_ADDR :: addr where "MMU_PGD_ADDR = 0x1000"
definition MMU_PTE_ADDR :: addr where "MMU_PTE_ADDR = 0x3000"

text \<open>The reservations of \<open>init_allocator\<close> behind those of the device tree.\<close>

definition boot_ranges :: "image \<Rightarrow> kern \<Rightarrow> (64 word \<times> 64 word) list" where
  "boot_ranges img s =
     [(PHYS_TO_VIRT MMU_PGD_ADDR, PHYS_TO_VIRT (MMU_PTE_ADDR + 0x2000)), (kernel_start img, heap_limit),
      (stack_end img, stack_top img), (CPIO_DEFAULT_START s, CPIO_DEFAULT_END s)]"

definition start_allocator :: "image \<Rightarrow> kern \<Rightarrow> kern option" where
  "start_allocator img s =
     (case dtb_reservations s of None \<Rightarrow> None
      | Some (s1, rs) \<Rightarrow>
          (let s2 = klog (''After buddy_init()'' @ crnl) (klog (''After memory_reserve()'' @ crnl) s1)
           in Some (klog (''After slab_init()'' @ crnl) (s2\<lparr>mem := init_allocator (rs @ boot_ranges img s1) (mem s1)\<rparr>))))"

text \<open>From the device tree to the idle thread.\<close>

definition start_kernel :: "image \<Rightarrow> addr \<Rightarrow> kern \<Rightarrow> kern option" where
  "start_kernel img x20 s =
     (case fdt_traverse x20 (initramfs_callback (lit_chosen img) (lit_initrd_start img)) s of None \<Rightarrow> None | Some s1 \<Rightarrow>
      case fdt_traverse x20 (initramfs_callback (lit_chosen img) (lit_initrd_end img)) s1 of None \<Rightarrow> None | Some s2 \<Rightarrow>
      case start_allocator img s2 of None \<Rightarrow> None | Some s3 \<Rightarrow>
      case irqtask_init_list s3 of None \<Rightarrow> None | Some s4 \<Rightarrow>
      case timer_list_init s4 of None \<Rightarrow> None | Some s5 \<Rightarrow>
      init_thread_sched (idle_code img) s5)"

definition start_devices :: "machine \<Rightarrow> kern \<Rightarrow> kern option" where
  "start_devices m s =
     map_option (\<lambda>s1. core_timer_enable (el1_interrupt_enable (s1\<lparr>con := uart_interrupt_enable (con s1)\<rparr>)))
       (init_rootfs (videocore m) (pt_address m) s)"

text \<open>The result is the kernel with the processor in the first program.\<close>

definition kernel_main :: "machine \<Rightarrow> image \<Rightarrow> addr \<Rightarrow> bus \<times> kern \<Rightarrow> (bus \<times> kern) option" where
  "kernel_main m img x20 = (\<lambda>(b, s).
     case uart_init (b, con s) of (b1, c) \<Rightarrow>
       (case start_kernel img x20 (s\<lparr>con := c, SAFE_DEMO := True\<rparr>) of None \<Rightarrow> None | Some s1 \<Rightarrow>
        case start_devices m s1 of None \<Rightarrow> None | Some s2 \<Rightarrow>
        map_option (Pair b1) (shell (wrapper_addr m) (cli_buffer img) (lit_program img) s2)))"

end
