(* ===== verification/Boot_Props.thy ===== *)
theory Boot_Props
  imports Boot Dtb_Props Kern_Props Thread_Props
begin

text \<open>
  What the start of the kernel leaves behind: the state from which the other properties start.
\<close>

section \<open>Queues and timers apart from the threads\<close>

definition lists_of :: "kern \<Rightarrow> (addr \<Rightarrow> timer_event_t) \<times> addr \<times> addr \<times> (addr \<Rightarrow> irqtask_t) \<times> addr \<times> addr \<times> int" where
  "lists_of s = (tevents s, timer_head s, timer_tail s, itasks s, task_head s, task_tail s, curr_task_priority s)"

lemma lists_quiet: "quiet s' = quiet s \<Longrightarrow> lists_of s' = lists_of s"
  unfolding lists_of_def by (metis quiet_sel(1-7))

lemma lists_upd [simp]:
  "lists_of (enable_interrupt s) = lists_of s" "lists_of (disable_interrupt s) = lists_of s" "lists_of (klog m s) = lists_of s"
  "lists_of (klog_hex v s) = lists_of s" "lists_of (s\<lparr>mem := x\<rparr>) = lists_of s" "lists_of (clear_page p s) = lists_of s"
  "lists_of (set_thread g i s) = lists_of s" "lists_of (reset_threads s) = lists_of s" "lists_of (s\<lparr>curr_thread := c\<rparr>) = lists_of s"
  by (rule lists_quiet, simp)+ (simp_all add: lists_of_def clear_page_def set_thread_def reset_threads_def)

lemma kalloc_lists: "kalloc n s = Some (s', a) \<Longrightarrow> lists_of s' = lists_of s"
  by (rule lists_quiet, elim kalloc_SomeD)

lemma knew_lists: "knew n s = Some (s', a) \<Longrightarrow> lists_of s' = lists_of s"
  by (auto simp: knew_def split: option.splits if_splits dest: kalloc_lists)

lemma push_rq_lists [simp]: "lists_of (push_rq t s) = lists_of s"
  by (simp add: push_rq_def Let_def split: option.split, simp add: lists_of_def set_thread_def)

lemma thread_create_lists: "thread_create start n s = Some (s', r) \<Longrightarrow> lists_of s' = lists_of s"
  by (auto simp: thread_create_def Let_def split: option.splits prod.splits dest!: kalloc_lists knew_lists)

lemma queues_cong:
  assumes "lists_of s' = lists_of s" "heap_ok s'" "kblocks s \<subseteq> kblocks s'"
  shows "timers_at s xs \<Longrightarrow> timers_at s' xs" "tasks_at s ys \<Longrightarrow> tasks_at s' ys"
    "timer_blocks s' xs = timer_blocks s xs" "task_blocks s' ys = task_blocks s ys"
proof -
  have l: "tevents s' = tevents s" "timer_head s' = timer_head s" "timer_tail s' = timer_tail s" "itasks s' = itasks s"
    "task_head s' = task_head s" "task_tail s' = task_tail s" using assms(1) by (simp_all add: lists_of_def)
  show "timer_blocks s' xs = timer_blocks s xs" "task_blocks s' ys = task_blocks s ys"
    using l by (simp_all add: timer_blocks_def task_blocks_def ev_args_def)
  show "timers_at s' xs" if "timers_at s xs"
    by (rule timers_at_cong[OF that l(1-3) assms(2)]) (use that assms(3) in \<open>auto simp: timers_at_def\<close>)
  show "tasks_at s' ys" if "tasks_at s ys"
    using that assms(2,3) l task_ordered_cong[of s ys s'] \<open>task_blocks s' ys = task_blocks s ys\<close> by (auto simp: tasks_at_def)
qed

section \<open>The steps\<close>

lemma knew_small:
  assumes "heap_ok s" "ample 2 (Suc n) s" "sz \<noteq> 0" "unat sz \<le> 4096" "request_ok sz"
  obtains s' a where "knew sz s = Some (s', a)" "ample 2 n s'" "heap_ok s'" "a \<notin> kblocks s" "kblocks s' = insert a (kblocks s)"
    "lists_of s' = lists_of s" "sched_of s' = sched_of s"
proof -
  have "size2order sz \<le> 2" using size2order_frame[OF assms(3,4)] by simp
  then obtain s' a where k: "knew sz s = Some (s', a)" "ample 2 n s'"
    by (rule knew_ample[OF assms(1,3) _ _ assms(2,5)]) (simp add: MAX_ORDER_def)
  then show thesis using that knew_spec(1,3,4)[OF assms(1,5) k(1)] knew_lists[OF k(1)] knew_sched[OF k(1)] by blast
qed

lemma irqtask_init_boot:
  assumes "heap_ok s" "ample 2 (Suc (Suc n)) s"
  obtains s' where "irqtask_init_list s = Some s'" "ample 2 n s'" "tasks_at s' []" "kblocks s \<subseteq> kblocks s'"
    "sched_of s' = sched_of s" "curr_task_priority s' = curr_task_priority s"
proof -
  have z: "(32 :: 32 word) \<noteq> 0" "unat (32 :: 32 word) \<le> 4096" by simp_all
  obtain s1 h where s1: "knew 32 s = Some (s1, h)" "ample 2 (Suc n) s1" "heap_ok s1" "lists_of s1 = lists_of s" "sched_of s1 = sched_of s"
    by (rule knew_small[OF assms z request_40(2)])
  obtain s2 t where s2: "knew 32 s1 = Some (s2, t)" "ample 2 n s2" "heap_ok s2" "lists_of s2 = lists_of s1" "sched_of s2 = sched_of s1"
    by (rule knew_small[OF s1(3,2) z request_40(2)])
  define s' where "s' = set_task (\<lambda>x. x\<lparr>t_priority := 9999, t_next := None, t_prev := Some h\<rparr>) t
    (set_task (\<lambda>x. x\<lparr>t_priority := -1, t_next := Some t, t_prev := None\<rparr>) h (s2\<lparr>task_head := h, task_tail := t\<rparr>))"
  have i: "irqtask_init_list s = Some s'" using s1(1) s2(1) by (simp add: irqtask_init_list_def s'_def)
  have "ample 2 n s'" "sched_of s' = sched_of s" "curr_task_priority s' = curr_task_priority s"
    using s1 s2 by (simp_all add: s'_def ample_def sched_of_def lists_of_def set_task_def)
  then show thesis using that[OF i] irqtask_init_at[OF assms(1) i] by simp
qed

lemma timer_init_boot:
  assumes "heap_ok s" "ample 2 (Suc (Suc n)) s" "tasks_at s []"
  obtains s' where "timer_list_init s = Some s'" "ample 2 n s'" "timers_at s' []" "kblocks s \<subseteq> kblocks s'" "tasks_at s' []"
    "set (timer_blocks s' []) \<inter> task_blocks s' [] = {}" "sched_of s' = sched_of s" "curr_task_priority s' = curr_task_priority s"
proof -
  have z: "(40 :: 32 word) \<noteq> 0" "unat (40 :: 32 word) \<le> 4096" by simp_all
  obtain s1 h where s1: "knew 40 s = Some (s1, h)" "ample 2 (Suc n) s1" "heap_ok s1" "h \<notin> kblocks s" "kblocks s1 = insert h (kblocks s)"
      "lists_of s1 = lists_of s" "sched_of s1 = sched_of s"
    by (rule knew_small[OF assms(1,2) z request_40(1)])
  obtain s2 t where s2: "knew 40 s1 = Some (s2, t)" "ample 2 n s2" "heap_ok s2" "t \<notin> kblocks s1" "kblocks s2 = insert t (kblocks s1)"
      "lists_of s2 = lists_of s1" "sched_of s2 = sched_of s1"
    by (rule knew_small[OF s1(3,2) z request_40(1)])
  obtain s' where i: "timer_list_init s = Some s'" and f: "mem s' = mem s2" "timer_head s' = h" "timer_tail s' = t" "itasks s' = itasks s2"
      "task_head s' = task_head s2" "task_tail s' = task_tail s2" "curr_task_priority s' = curr_task_priority s2" "sched_of s' = sched_of s2"
    using s1(1) s2(1) by (simp add: timer_list_init_def Let_def set_event_def sched_of_def)
  have ta: "timers_at s' []" "kblocks s \<subseteq> kblocks s'" using timer_list_init_at[OF assms(1) i] by simp_all
  have tk: "tasks_at s2 []" "task_blocks s2 [] = task_blocks s []"
    using queues_cong(2,4)[of s2 s, OF _ s2(3)] assms(3) s1 s2 by auto
  have tb: "task_blocks s' [] = task_blocks s []" using tk(2) f by (simp add: task_blocks_def)
  have "tq.ordered s' []" by (rule task_ordered_cong[of s2]) (use tk f in \<open>simp_all add: tasks_at_def\<close>)
  then have "tasks_at s' []" using ta tb assms(3) by (auto simp: tasks_at_def timers_at_def)
  moreover have "set (timer_blocks s' []) \<inter> task_blocks s' [] = {}"
    using assms(3) s1(4,5) s2(4) tb f by (auto simp: timer_blocks_def tasks_at_def)
  ultimately show thesis using that[OF i _ ta] f s1 s2 by (simp add: ample_def lists_of_def)
qed

definition cold :: "kern \<Rightarrow> bool" where
  "cold s \<longleftrightarrow> zero_table s \<and> diag (mem s) = [] \<and> (\<forall>i. th_next (threads s i) = None \<and> th_prev (threads s i) = None)"

lemma cold_cong: "sched_of s' = sched_of s \<Longrightarrow> mem s' = mem s \<Longrightarrow> cold s' = cold s"
  using sched_ofD[of s' s] by (simp add: cold_def zero_table_def)

lemma init_thread_boot:
  assumes ok: "heap_ok s" "ample 2 (5 + n) s" and c: "zero_table s" "\<forall>i. th_next (threads s i) = None \<and> th_prev (threads s i) = None"
  obtains s' where "init_thread_sched idle s = Some s'" "heap_ok s'" "rq s' [0]" "ample 2 n s'" "kblocks s \<subseteq> kblocks s'" "curr_thread s' = 0"
    "lists_of s' = lists_of s" "threads_ok s'"
proof -
  let ?s0 = "reset_threads (disable_interrupt s)"
  have d: "threads (disable_interrupt s) = threads s" "RQ_head (disable_interrupt s) = None" "RQ_tail (disable_interrupt s) = None"
    using sched_ofD[OF sched_upd(2), of s] c(1) by (simp_all add: zero_table_def)
  have q: "rq ?s0 []" using c d by (simp add: rq_def tnext_def tprev_def reset_threads_def)
  have f: "free_slot ?s0 = Some 0" unfolding free_slot_def
    by (rule find_upt) (simp_all add: reset_threads_def)
  have m: "heap_ok ?s0" "ample 2 (5 + n) ?s0" "kblocks ?s0 = kblocks s" using ok by (simp_all add: heap_ok_def ample_def kblocks_def reset_threads_def)
  have r: "request_ok 0x1000" "size2order 0x1000 \<le> 2" using stack_requests stack_orders by simp_all
  obtain s1 usp ksp ssp dat pgd where s1: "thread_create idle 0x1000 ?s0 = Some (s1, Some 0)" "heap_ok s1" "rq s1 ([] @ [0])" "ample 2 n s1"
      "kblocks s1 = kblocks ?s0 \<union> set [usp, ksp, ssp, dat, pgd]"
    by (rule thread_create_spec[OF m(1) q f _ r _ _ m(2)]) (simp_all add: MAX_ORDER_def)
  define s' where "s' = enable_interrupt (s1\<lparr>curr_thread := 0\<rparr>)"
  have i: "init_thread_sched idle s = Some s'" using s1(1) by (simp add: init_thread_sched_def s'_def)
  have "rq s' [0]" using s1(3) sched_ofD[OF sched_upd(1), of "s1\<lparr>curr_thread := 0\<rparr>"] by (simp add: rq_def s'_def tnext_def tprev_def)
  moreover have "lists_of s' = lists_of s" using thread_create_lists[OF s1(1)] by (simp add: s'_def)
  moreover have "threads_ok s'" using init_thread_sched_ok[OF i] c(1) by (simp add: zero_table_def)
  moreover have "curr_thread s' = 0" using sched_ofD(2)[OF sched_upd(1), of "s1\<lparr>curr_thread := 0\<rparr>"] by (simp add: s'_def)
  ultimately show thesis using that[OF i] s1 m(3) by (auto simp: s'_def heap_ok_def ample_def kblocks_def)
qed

text \<open>The walks through the device tree change four fields.\<close>

definition found :: "kern \<Rightarrow> kern \<Rightarrow> bool" where
  "found s s' \<longleftrightarrow> sched_of s' = sched_of s \<and> mem s' = mem s \<and> lists_of s' = lists_of s"

lemma found_klog: "klog_user p s = Some s' \<Longrightarrow> found s s'"
  by (auto simp: klog_user_def klog_text_def found_def lists_of_def split: option.splits sum.splits)

lemma found_upd [simp]: "found s (klog m s') = found s s'" "found s (klog_hex v s') = found s s'"
  "found s (s'\<lparr>CPIO_DEFAULT_START := a\<rparr>) = found s s'" "found s (s'\<lparr>CPIO_DEFAULT_END := a\<rparr>) = found s s'" "found s (s'\<lparr>dtb_base := a\<rparr>) = found s s'"
  by (simp_all add: found_def) (simp_all add: klog_def klog_hex_def sched_of_def lists_of_def)

lemma found_left [simp]: "found (klog m s) s' = found s s'" "found (klog_hex v s) s' = found s s'" "found (s\<lparr>dtb_base := a\<rparr>) s' = found s s'"
  by (simp_all add: found_def) (simp_all add: sched_of_def lists_of_def)

lemma found_trans: "found s s1 \<Longrightarrow> found s1 s2 \<Longrightarrow> found s s2"
  by (simp add: found_def)

lemma found_refl [simp]: "found s s"
  by (simp add: found_def)

lemma callback_found: "initramfs_callback tn tp n p a l s = Some s' \<Longrightarrow> found s s'"
proof -
  have t: "found s s'" if h: "log_target tn tp v s = Some s'" for v s s'
  proof -
    obtain s1 s2 where s: "klog_user tn (klog ''Target Node: '' s) = Some s1" "klog_user tp (klog '', Target device: '' s1) = Some s2"
        "s' = klog crnl (klog_hex v (klog '', physical address starts at: '' s2))"
      using h by (auto simp: log_target_def split: option.splits)
    have "found s s1" using found_klog[OF s(1)] by (simp add: found_def)
    moreover have "found s1 s2" using found_klog[OF s(2)] by (simp add: found_def)
    ultimately show ?thesis using s(3) found_trans by simp
  qed
  then show "initramfs_callback tn tp n p a l s = Some s' \<Longrightarrow> found s s'"
    by (auto simp: initramfs_callback_def Let_def split: option.splits bool.splits)
qed

definition callback_keeps :: "fdt_callback \<Rightarrow> bool" where
  "callback_keeps cb \<longleftrightarrow> (\<forall>n p a l s s'. cb n p a l s = Some s' \<longrightarrow> found s s')"

lemma fdt_loop_found:
  assumes "fdt_loop cb n p s = Some s'"
  shows "callback_keeps cb \<longrightarrow> found s s'"
proof (rule fdt_loop.raw_induct[of "\<lambda>cb n p s s'. callback_keeps cb \<longrightarrow> found s s'", OF _ assms])
  fix f cb n p s s'
  assume 1: "\<And>cb n p s s'. f cb n p s = Some s' \<Longrightarrow> callback_keeps cb \<longrightarrow> found s s'"
    and 2: "(let m = bytes s; h = fdt_header_at m (dtb_base s); token = be_load m p; q = p + 4 in
      if \<not> p < dtb_base s + ucast (totalsize h) then Some s
      else if token = FDT_BEGIN_NODE then (case utils_strlen m q of None \<Rightarrow> None | Some k \<Rightarrow> f cb (Some q) (utils_align (q + k + 1) 4) s)
      else if token = FDT_PROP then
        (let prop_len = be_load m q; prop_name = dtb_base s + ucast (off_dt_strings h) + ucast (be_load m (q + 4)); prop_value = q + 8
         in case cb n prop_name prop_value prop_len s of None \<Rightarrow> None
            | Some s1 \<Rightarrow> f cb n (utils_align (prop_value + ucast prop_len) 4) s1)
      else if token = FDT_END_NODE then f cb n q s else if token = FDT_NOP then f cb n q s
      else if token = FDT_END then Some s else f cb n q s) = Some s'"
  show "callback_keeps cb \<longrightarrow> found s s'"
  proof
    assume cb: "callback_keeps cb"
    then have IH: "f cb n p s = Some s' \<Longrightarrow> found s s'" for n p s s' using 1 by blast
    have c: "cb n p a l s = Some s1 \<Longrightarrow> found s s1" for n p a l s s1 using cb by (auto simp: callback_keeps_def)
    show "found s s'" using 2
      by (auto simp: Let_def split: if_split_asm option.splits dest!: IH c intro: found_trans)
  qed
qed

lemma fdt_traverse_found:
  assumes "fdt_traverse x20 (initramfs_callback tn tp) s = Some s'"
  shows "found s s'"
proof -
  have "callback_keeps (initramfs_callback tn tp)" using callback_found by (auto simp: callback_keeps_def)
  then have l: "fdt_loop (initramfs_callback tn tp) n p s1 = Some s' \<Longrightarrow> found s1 s'" for n p s1 using fdt_loop_found by blast
  show ?thesis using assms by (auto simp: fdt_traverse_def Let_def simp del: append.simps split: if_split_asm dest!: l)
qed

lemma dtb_reservations_found: "dtb_reservations s = Some (s', rs) \<Longrightarrow> found s s'"
  by (auto simp: dtb_reservations_def Let_def split: if_split_asm option.splits)

section \<open>The kernel is up\<close>

text \<open>C21: \<open>main\<close> establishes what the kernel relies on.  From cleared memory, if the walks through the
  device tree and its reservation list end and nine free runs of four frames are left outside the
  reserved ranges, \<open>main\<close> reaches the point behind \<open>init_thread_sched\<close>: the heap is well-formed, no
  frame of a reserved range was free for allocation, the task queue and the timer list are empty
  and share no node, and thread 0, the idle thread, runs and is alone in the run queue of a
  well-formed thread table.\<close>

theorem start_kernel_ready:
  assumes c: "cold s" and f1: "fdt_traverse x20 (initramfs_callback (lit_chosen img) (lit_initrd_start img)) s = Some s1"
    and f2: "fdt_traverse x20 (initramfs_callback (lit_chosen img) (lit_initrd_end img)) s1 = Some s2"
    and r: "dtb_reservations s2 = Some (s3, rs)" and am: "ample 2 9 (s3\<lparr>mem := init_allocator (rs @ boot_ranges img s3) (mem s3)\<rparr>)"
  shows "\<exists>s4 s'. start_allocator img s2 = Some s4 \<and> start_kernel img x20 s = Some s' \<and> heap_ok s' \<and>
    (\<forall>(b, e) \<in> set (rs @ boot_ranges img s3). free_frames (mem s4) \<inter> reserved_range b e = {}) \<and>
    timers_at s' [] \<and> ib.ready s' [] \<and> curr_task_priority s' = curr_task_priority s \<and> rq s' [0] \<and> curr_thread s' = 0 \<and> threads_ok s'"
proof -
  have "found s s3" using fdt_traverse_found[OF f1] fdt_traverse_found[OF f2] dtb_reservations_found[OF r] found_trans by blast
  then have fd: "sched_of s3 = sched_of s" "mem s3 = mem s" "lists_of s3 = lists_of s" by (simp_all add: found_def)
  have c3: "cold s3" using c cold_cong[OF fd(1,2)] by simp
  let ?m = "init_allocator (rs @ boot_ranges img s3) (mem s3)"
  note inv = init_allocator_inv[of "mem s3" "rs @ boot_ranges img s3"]
  have dg: "diag (mem s3) = []" using c3 by (simp add: cold_def)
  obtain s4 where s4: "start_allocator img s2 = Some s4" "mem s4 = ?m" "sched_of s4 = sched_of s3" "lists_of s4 = lists_of s3"
    using r by (simp add: start_allocator_def Let_def klog_def sched_of_def lists_of_def)
  have ok4: "heap_ok s4" "ample 2 (Suc (Suc 7)) s4" using inv(1)[OF dg] am s4(2) by (simp_all add: heap_ok_def ample_def)
  obtain s5 where s5: "irqtask_init_list s4 = Some s5" "ample 2 7 s5" "tasks_at s5 []" "sched_of s5 = sched_of s4"
      "curr_task_priority s5 = curr_task_priority s4"
    by (rule irqtask_init_boot[OF ok4])
  have ok5: "heap_ok s5" "ample 2 (Suc (Suc 5)) s5" using s5 by (simp_all add: tasks_at_def)
  obtain s6 where s6: "timer_list_init s5 = Some s6" "ample 2 5 s6" "timers_at s6 []" "tasks_at s6 []"
      "set (timer_blocks s6 []) \<inter> task_blocks s6 [] = {}" "sched_of s6 = sched_of s5" "curr_task_priority s6 = curr_task_priority s5"
    by (rule timer_init_boot[OF ok5 s5(3)])
  have c6: "cold s6 \<or> True" "sched_of s6 = sched_of s3" using s6 s5 s4 by simp_all
  have z6: "zero_table s6" "\<forall>i. th_next (threads s6 i) = None \<and> th_prev (threads s6 i) = None"
    using c3 sched_ofD[OF c6(2)] by (simp_all add: cold_def zero_table_def)
  have ok6: "heap_ok s6" "ample 2 (5 + 0) s6" using s6 by (simp_all add: tasks_at_def)
  obtain s' where s': "init_thread_sched (idle_code img) s6 = Some s'" "heap_ok s'" "rq s' [0]" "kblocks s6 \<subseteq> kblocks s'" "curr_thread s' = 0"
      "lists_of s' = lists_of s6" "threads_ok s'"
    by (rule init_thread_boot[OF ok6 z6])
  have "start_kernel img x20 s = Some s'"
    by (simp add: start_kernel_def f1 f2 s4(1) s5(1) s6(1) s'(1))
  moreover have t: "timers_at s' []" "ib.ready s' []"
    using queues_cong[OF s'(6,2,4)] s6(3-5) by (auto simp: ready_iff)
  moreover have "curr_task_priority s' = curr_task_priority s"
    using s'(6) s6(7) s5(5) s4(4) fd(3) by (simp add: lists_of_def)
  moreover have "\<forall>(b, e) \<in> set (rs @ boot_ranges img s3). free_frames (mem s4) \<inter> reserved_range b e = {}"
    unfolding s4(2) inv(4)[OF dg] by auto
  ultimately show ?thesis using s4(1) s'(2,3,5,7) by blast
qed

section \<open>A small machine starts\<close>

definition small_image :: image where
  "small_image = \<lparr>kernel_start = 0xffff000000080000, stack_end = 0xffff000001000000, stack_top = 0xffff000002000000,
     idle_code = 0xffff000000081000, lit_chosen = 0x106B, lit_initrd_start = 0x1058, lit_initrd_end = 0x1072,
     lit_program = 0, cli_buffer = 0\<rparr>"

lemma small_cold: "cold small_machine"
  by (simp add: cold_def zero_table_def small_machine_def boot_kern_def blank_thread_def blank_mem_def)

lemma small_end_differs: "utils_string_compare (bytes small_machine) 0x1058 0x1072 = Some False"
proof -
  have "utils_string_compare (bytes small_machine) 0x1058 0x1072 = Some (ascii ''linux,initrd-start'' = ascii ''linux,initrd-end'')"
    by (rule utils_string_compare_correct[OF small_facts(4,6), of "ascii ''linux,initrd-''" "ascii ''start''" "ascii ''end''"])
      (simp_all add: ascii_def skipped_def)
  then show ?thesis by (simp add: ascii_def)
qed

lemma small_traverse_end:
  assumes "bytes s = bytes small_machine" "dtb_base s = dtb_base small_machine"
  shows "\<exists>c. fdt_traverse x20 (initramfs_callback 0x106B 0x1072) s = Some (s\<lparr>con := c\<rparr>)"
proof -
  have e: "fdt_blob s xs = fdt_blob small_machine xs" "blob_properties s xs = blob_properties small_machine xs" for xs
    using assms by (simp_all add: fdt_blob_def blob_properties_def blob_header_def blob_struct_def)
  obtain c where c: "fdt_traverse x20 (initramfs_callback 0x106B 0x1072) s =
      visit (initramfs_callback 0x106B 0x1072) (blob_properties s small_items) (s\<lparr>con := c\<rparr>)"
    using fdt_traverse_visits[OF _ keeps_initramfs_callback, of s small_items] small_facts(1) e(1) by blast
  have n: "utils_string_compare (bytes small_machine) 0x1034 0x106B \<noteq> None"
    using small_target(3) by (auto simp: agrees_def)
  have "visit (initramfs_callback 0x106B 0x1072) (blob_properties s small_items) (s\<lparr>con := c\<rparr>) = Some (s\<lparr>con := c\<rparr>)"
    by (rule visit_differs) (use n small_end_differs assms in \<open>auto simp: e(2) small_facts(7) decided_def agrees_def\<close>)
  then show ?thesis using c by auto
qed

lemma small_reservations:
  assumes "bytes s = bytes small_machine" "dtb_base s = dtb_base small_machine"
  shows "dtb_reservations s = Some (s, [(0x1000, 0x1072)])"
proof -
  have d: "dtb_base small_machine = 0x1000" by (simp add: small_machine_def)
  have h: "fdt_header_at (bytes s) (dtb_base s) = blob_header small_machine" using assms by (simp add: blob_header_def)
  have z: "load32 m a = 0" if "bytes_at m a (be32 0)" for m a
  proof -
    have "utils_change_endian_32 (utils_change_endian_32 (load32 m a)) = utils_change_endian_32 0"
      using be_load_be32[OF that] by (simp add: be_load_def)
    then show ?thesis unfolding endian32_invol by (simp add: utils_change_endian_32_def)
  qed
  have "bytes_at (bytes small_machine) (0x1000 + of_nat 24) (be32 0)" "bytes_at (bytes small_machine) (0x1000 + of_nat 28) (be32 0)"
    "bytes_at (bytes small_machine) (0x1000 + of_nat 32) (be32 0)" "bytes_at (bytes small_machine) (0x1000 + of_nat 36) (be32 0)"
    by (rule small_bytes, simp add: small_defs, simp)+
  then have "load64 (bytes small_machine) 0x1018 = 0" "load64 (bytes small_machine) (0x1018 + 8) = 0"
    by (simp_all add: load64_def z word_rcat_def)
  then have "reserve_entries (bytes small_machine) 0x1018 = Some []" by (subst reserve_entries.simps) simp
  then show ?thesis unfolding dtb_reservations_def Let_def h by (simp add: assms small_header d)
qed

lemma not_reserved:
  assumes "int_of_ulong (address2index (e + of_nat FRAME_SIZE - 1)) \<le> 150000" "150000 \<le> i"
  shows "i \<notin> reserved_range b e"
  using assms by (auto simp: reserved_range_def)

lemma small_ample:
  assumes "CPIO_DEFAULT_END s = 0"
  shows "ample 2 9 (s\<lparr>mem := init_allocator ([(0x1000, 0x1072)] @ boot_ranges small_image s) blank_mem\<rparr>)"
proof -
  have dg: "diag blank_mem = []" by (simp add: blank_mem_def)
  let ?R = "[(0x1000, 0x1072)] @ boot_ranges small_image s" and ?F = "free_frames (init_allocator ([(0x1000, 0x1072)] @ boot_ranges small_image s) blank_mem)"
  have "i \<notin> reserved_range b e" if "(b, e) \<in> set ?R" "150000 \<le> i" for b e i
    by (rule not_reserved[OF _ that(2)])
      (use that(1) assms in \<open>auto simp: boot_ranges_def small_image_def heap_limit_def MMU_PTE_ADDR_def PHYS_TO_VIRT_def
        address2index_def BUDDY_MEMORY_BASE_def FRAME_SIZE_def int_of_ulong_def\<close>)
  then have F: "i \<in> ?F" if "150000 \<le> i" "i < TOTAL_FRAME" for i using that init_allocator_inv(4)[OF dg, of ?R] by auto
  have "{50000..50008} \<subseteq> runs 2 ?F" using F by (auto simp: runs_def frames_def TOTAL_FRAME_def)
  moreover have "finite (runs 2 ?F)" by (rule runs_finite) (use init_allocator_inv(4)[OF dg, of ?R] in auto)
  ultimately have "card {50000..50008 :: nat} \<le> card (runs 2 ?F)" by (metis card_mono)
  then show ?thesis by (simp add: ample_def)
qed

theorem start_kernel_ready_witness:
  "\<exists>s'. start_kernel small_image 0 small_machine = Some s' \<and> rq s' [0] \<and> timers_at s' [] \<and> threads_ok s'"
proof -
  obtain c where f1: "fdt_traverse 0 (initramfs_callback (lit_chosen small_image) (lit_initrd_start small_image)) small_machine =
      Some (small_machine\<lparr>con := c, CPIO_DEFAULT_START := PHYS_TO_VIRT (ucast (0x08000000 :: 32 word))\<rparr>)" (is "_ = Some ?s1")
    using traverse_finds[OF small_facts(1) small_target(1,2) small_facts(7) small_target(3)] by (auto simp: small_image_def)
  have b: "bytes ?s1 = bytes small_machine" "dtb_base ?s1 = dtb_base small_machine" by simp_all
  obtain c' where f2: "fdt_traverse 0 (initramfs_callback (lit_chosen small_image) (lit_initrd_end small_image)) ?s1 = Some (?s1\<lparr>con := c'\<rparr>)"
    using small_traverse_end[OF b] by (auto simp: small_image_def)
  have r: "dtb_reservations (?s1\<lparr>con := c'\<rparr>) = Some (?s1\<lparr>con := c'\<rparr>, [(0x1000, 0x1072)])"
    by (rule small_reservations) simp_all
  have m: "mem (?s1\<lparr>con := c'\<rparr>) = blank_mem" "CPIO_DEFAULT_END (?s1\<lparr>con := c'\<rparr>) = 0"
    by (simp_all add: small_machine_def boot_kern_def)
  show ?thesis using start_kernel_ready[OF small_cold f1 f2 r] small_ample[OF m(2)] unfolding m(1) by blast
qed

end
