(* ===== verification/Spec2Isabelle.thy ===== *)
theory Spec2Isabelle
  imports Memory_Props Text_Props Kern_Props Mmu_Props Fork_Props Initramfs_Props Bootloader Boot_Props
begin

text \<open>
  \<^bold>\<open>What this is.\<close>  A model of the two programs of the repository, both in C for the Raspberry Pi 3
  (AArch64), and theorems about it: the boot loader (\<open>src/bootloader\<close>), which receives a kernel over the
  serial line, and the kernel (\<open>src/kernel\<close>), a small preemptive multitasking system with a buddy
  and slab allocator, virtual memory with demand paging, a virtual file system over a RAM file system,
  an initial RAM disk and devices, signals, and nineteen system calls.

  \<^bold>\<open>How the parts work together.\<close>  \<open>main\<close> (\<open>main.c\<close>) finds the initial RAM disk in the device tree
  (\<open>dtb.c\<close>), sets up the allocator (\<open>memory.c\<close>), tasks and timers (\<open>irqtask.c\<close>, \<open>timer.c\<close>), the scheduler
  (\<open>sched.c\<close>) and the file systems (\<open>vfs.c\<close>, \<open>tmpfs.c\<close>, \<open>initramfs.c\<close>, \<open>dev_uart.c\<close>, \<open>dev_framebuffer.c\<close>),
  and enters the shell (\<open>shell.c\<close>), which runs the first program.  From then on the kernel is
  entered by exceptions (\<open>exception.c\<close>): system calls (\<open>syscall.c\<close>, \<open>signal.c\<close>), page faults (\<open>mmu.c\<close>) and
  interrupts of the timer and the UART (\<open>uart1.c\<close>), whose handlers run as prioritised tasks.  Everything
  above the allocator takes its memory from \<open>kmalloc\<close> and gives it back with \<open>kfree\<close>.

  \<^bold>\<open>How state is represented.\<close>  Machine integers are words of their width; \<open>+\<close> wraps as in C.  Calls that may
  fail, loop or leave C's defined behaviour have an option as result: \<open>None\<close> is a call that does not return
  or an access that C does not define, and the text in front of a definition says which; results the code
  itself reports (\<open>-1\<close>, a null pointer) are ordinary values inside.  So a theorem that a call gives
  \<open>Some\<close> says that it returns.  \<open>Kmem.kmem\<close> is the state of the allocator: the two descriptor arrays
  with their lists.  \<open>Kstate.kern\<close> is the kernel: it contains a \<open>kmem\<close>, the UART, byte memory (\<open>bytes\<close>),
  the words of page tables (\<open>words\<close>), and one map per kind of structure, from its address to a record
  with the fields of the C structure (threads by their index in the table, timers, tasks, files, vnodes,
  inodes, mounts).  Structures that the code allocates are keyed by the address \<open>kmalloc\<close> returned, so
  sharing and freshness are those of the heap.  Registers and other devices are fields, input streams or
  arguments.  Functions of the linker or of a device (the addresses of \<open>idle\<close> and of the signal wrapper,
  the image's symbols, the VideoCore) are arguments.

  \<^bold>\<open>Theories, and what they model and show.\<close>

  \<^item> \<open>Prelude\<close>: doubly linked lists through pointer fields, bit and word lemmas.
  \<^item> \<open>Ilist\<close>, \<open>Fifo\<close>, \<open>Sentinel\<close>, \<open>Heap\<close>: the interfaces, as locales: a family of intrusive lists (provided
    by the buddy and the slab lists), a bounded ring (both UART rings), a sorted list between two sentinels
    (timers and tasks), a heap (\<open>kmalloc\<close> and \<open>kfree\<close> for blocks, then for every size with the slots of the
    slab pages, then \<open>kalloc\<close> and \<open>krelease\<close> on the kernel's state).
    Three more stand with their providers: \<open>ready_queue\<close> (\<open>Runq\<close>), \<open>task_body\<close> (\<open>Irqtask\<close>, provided in \<open>Irq\<close>) and
    \<open>directory\<close> (\<open>Vfs_Inv\<close>, provided by \<open>tmpfs.c\<close>, by \<open>initramfs.c\<close> and by the dispatch between them).
  \<^item> \<open>Kmem\<close>, \<open>Buddy\<close>, \<open>Memory\<close>: \<open>memory.c\<close>.  \<open>Buddy_Inv\<close>, \<open>Buddy_Init\<close>, \<open>Memory_Inv\<close>, \<open>Slab_Inv\<close>, \<open>Slab_Ops\<close>, \<open>Kmalloc\<close>,
    \<open>Boot_Memory\<close>: the invariants of the buddy and slab systems and that every operation keeps them;
    \<open>Memory_Props\<close>: allocation is exact and complete, freeing gives exactly the block back, blocks in
    use never overlap, \<open>init_allocator\<close> makes free what was not reserved.
  \<^item> \<open>Cstring\<close>, \<open>Cstring_Inv\<close>, \<open>Printf\<close>, \<open>Path\<close>, \<open>Uart\<close>, \<open>Uart_Inv\<close>, \<open>Mmio\<close>: \<open>string.c\<close>, \<open>utils.c\<close>, \<open>get_absolute_path\<close>
    of \<open>vfs.c\<close>, \<open>uart1.c\<close>, and both \<open>uart_init\<close>.  \<open>Text_Props\<close>: bounds of formatted output, the absolute path
    equals a reference on lists of components, bytes leave the UART in the order they came.
  \<^item> \<open>Kstate\<close>, \<open>Kheap\<close>: the kernel's state and its heap.  \<open>Timer\<close>, \<open>Timer_Inv\<close>, \<open>Irqtask\<close>, \<open>Runq\<close>, \<open>Irq\<close>: \<open>timer.c\<close>,
    \<open>irqtask.c\<close>, the run queue of \<open>sched.c\<close>, the interrupt routers of \<open>exception.c\<close>.  \<open>Kern_Props\<close>: sorted insertion
    of timers, ticks that go on for ever, preemption among tasks, round robin.
  \<^item> \<open>Mmu\<close>, \<open>Mmu_Inv\<close>, \<open>Mmap\<close>: \<open>mmu.c\<close> and \<open>mmap\<close>; page tables are read as the hardware's walk.  \<open>Mmu_Props\<close>: mapping
    changes one translation, demand paging (and the byte after an area, which the code counts to it), freeing
    of tables, disjoint areas of \<open>mmap\<close>.
  \<^item> \<open>Tmpfs\<close>, \<open>Cpio\<close>, \<open>Initramfs\<close>, \<open>Mbox\<close>, \<open>Device\<close>, \<open>Vfs\<close>: the files of these names.  \<open>Tmpfs_Inv\<close>, \<open>Vfs_Inv\<close>, \<open>Vfs_Ops\<close>,
    \<open>Fs_Props\<close>: the file system as a map from paths to nodes, which \<open>vfs_mkdir\<close> and \<open>vfs_open\<close> update; what is written
    is read back.  \<open>Cpio_Inv\<close>, \<open>Cpio_Props\<close>, \<open>Initramfs_Props\<close>: an encoder of archives, the lookup of a member,
    and the mount of an archive.
  \<^item> \<open>Threads\<close>, \<open>Signal\<close>, \<open>Syscall\<close>: the rest of \<open>sched.c\<close>, \<open>signal.c\<close>, \<open>syscall.c\<close> with the dispatch of \<open>exception.c\<close>.
    \<open>Thread_Inv\<close> and \<open>Thread_Types\<close>: what each operation leaves alone, the well-formedness of the thread
    table, and the steps of the running kernel as an inductive relation \<open>kstep\<close> (a call that writes outside an array has
    no step; \<open>Thread_Props\<close> says which of the plain calls these are).  \<open>Ample\<close>, \<open>Thread_Ops\<close>, \<open>Reap\<close>, \<open>Life\<close>,
    \<open>Thread_Props\<close>: creation, reaping and the life of a thread without leaks.  \<open>Signal_Props\<close>, \<open>Syscall_Props\<close>:
    delivery of signals, descriptors.  \<open>Fork_Inv\<close>, \<open>Fork_Props\<close>: \<open>fork\<close> copies memory, files and stack.
  \<^item> \<open>Dtb\<close>, \<open>Shell\<close>, \<open>Boot\<close>: \<open>dtb.c\<close>, \<open>shell.c\<close>, \<open>main.c\<close>.  \<open>Bytes\<close>, \<open>Dtb_Inv\<close>, \<open>Dtb_Props\<close>: an encoder of device trees in
    the standard format (the code's \<open>FDT_NOP\<close> and \<open>FDT_END\<close> are not) and what the walk finds in one.  \<open>Boot_Props\<close>: the state after the start satisfies what the other properties ask.
  \<^item> \<open>Bootloader\<close>: \<open>src/bootloader\<close>, and the upload of a kernel image.

  \<^bold>\<open>Loops, bounds and fuel.\<close>  No definition takes fuel.  Loops over an index are recursions on their count; walks
  over pointers, strings and encoded blocks that may not end are \<open>partial_function (option)\<close>, and the theorems
  show that they do end under stated conditions.  A loop that waits for a device takes from an input stream
  and is \<open>None\<close> when that runs out.  Room is stated as a number of free frames (\<open>roomy\<close>) or of free aligned
  runs (\<open>ample\<close>), the number of blocks a call takes; the witnesses use states with several hundred.

  \<^bold>\<open>Interrupts.\<close>  A C function is one step; interrupts arrive between steps, at the points where \<open>irq_router\<close>
  unmasks them, and in the events of \<open>uart_run\<close>.  The masking counter is part of the state.  A context
  switch is the change of \<open>curr_thread\<close>: the model of a function that switches (\<open>schedule\<close>) ends in the state in which the
  other thread goes on.  \<open>check_signal\<close> and \<open>sigreturn\<close> are cut where registers are saved and loaded, with
  the saved context as a value.

  \<^bold>\<open>Not modelled.\<close>
  \<^item> Assembly: \<open>boot.S\<close>, \<open>entry.S\<close>, \<open>ctxsw.S\<close>, \<open>a.S\<close> and the inline assembly that sets system registers,
    barriers and TLB maintenance.  Their effect on the modelled state is part of the callers' definitions.
  \<^item> Page faults that the kernel itself takes on user memory: user strings and buffers are read and written in
    byte memory at the given address.
  \<^item> The inside of devices: the VideoCore (a function), the wire (streams of bytes), the core timer (a counter
    and a comparison value).
  \<^item> Time, races inside a C function, and processors other than the one that boots.
  \<^item> \<open>invalid_exception_router\<close> and \<open>s_free\<close>, whose bodies are empty, the messages behind \<open>printflag\<close> and \<open>DEBUG\<close>, linker
    scripts, the upload script on the host, and the user programs, which are binary files.
\<close>

end
